(* ===== verification/Prelude.thy ===== *)
theory Prelude
  imports Main "HOL-Library.Word" "HOL-Library.Product_Lexorder" "HOL-Library.List_Lexorder"
    "HOL-Library.Char_ord" "HOL-Library.AList" "HOL-Library.Multiset" "HOL-Library.Sublist"
begin

text \<open>
  The types and the generic lemmas the components share. A byte is an 8-bit word, a Go string is
  a list of bytes (\<^typ>\<open>char list\<close>, so a literal is written ''abc''), tenant ids are 16-bit
  words as in \<^verbatim>\<open>sentry/record.go\<close>. Time stamps and durations (Go's int64 nanoseconds) are
  integers, journal sequence numbers are naturals.
\<close>

type_synonym byte = "8 word"
type_synonym u16 = "16 word"
type_synonym u32 = "32 word"
type_synonym u64 = "64 word"
type_synonym tenant = "16 word"
type_synonym gostring = "char list"

named_theorems filter_laws \<open>how filters commute with the list operations of the stores\<close>

section \<open>Removing the first match of a slice\<close>

text \<open>
  The Go idiom \<^verbatim>\<open>for i := range xs { if p(xs[i]) { xs = append(xs[:i], xs[i+1:]...); return } }\<close>
  (also with \<^verbatim>\<open>break\<close>).
\<close>

fun remove_first :: "('a \<Rightarrow> bool) \<Rightarrow> 'a list \<Rightarrow> 'a list" where
  "remove_first p [] = []"
| "remove_first p (x # xs) = (if p x then xs else x # remove_first p xs)"

lemma remove_first_append:
  "remove_first p (xs @ ys) =
     (if \<exists>x \<in> set xs. p x then remove_first p xs @ ys else xs @ remove_first p ys)"
  by (induction xs) auto

lemma remove_first_id [simp]: "\<forall>x \<in> set xs. \<not> p x \<Longrightarrow> remove_first p xs = xs"
  by (induction xs) auto

lemma set_remove_first_subset: "set (remove_first p xs) \<subseteq> set xs"
  by (induction xs) auto

lemma distinct_remove_first: "distinct xs \<Longrightarrow> distinct (remove_first p xs)"
  by (induction xs) (auto dest: subsetD [OF set_remove_first_subset])

text \<open>When keys are distinct and the predicate picks one key, removing the first match filters.\<close>

lemma remove_first_filter:
  assumes "distinct (map f xs)" and "\<And>x y. p x \<Longrightarrow> p y \<Longrightarrow> f x = f y"
  shows "remove_first p xs = filter (\<lambda>x. \<not> p x) xs"
  using assms
proof (induction xs)
  case (Cons a xs)
  show ?case
  proof (cases "p a")
    case True
    then have "\<forall>x \<in> set xs. \<not> p x"
      using Cons.prems by (metis distinct.simps(2) list.set_map imageI list.simps(9))
    then show ?thesis using True by (simp add: filter_True)
  next
    case False
    have "remove_first p xs = filter (\<lambda>x. \<not> p x) xs"
      by (rule Cons.IH) (use Cons.prems(1) in simp, rule Cons.prems(2))
    with False show ?thesis by simp
  qed
qed simp

lemma remove_first_eq: "distinct xs \<Longrightarrow> remove_first (\<lambda>x. x = a) xs = filter (\<lambda>x. x \<noteq> a) xs"
proof (induction xs)
  case (Cons b xs)
  then have "b \<notin> set xs" by simp
  then have "filter (\<lambda>x. x \<noteq> b) xs = xs" by (induction xs) auto
  with Cons show ?case by auto
qed simp

section \<open>Filters, prefixes and last elements\<close>

lemma filter_commute [filter_laws]: "filter p (filter q xs) = filter q (filter p xs)"
  by (induction xs) auto

lemma filter_absorb [filter_laws]:
  "(\<And>x. x \<in> set xs \<Longrightarrow> p x \<Longrightarrow> q x) \<Longrightarrow> filter p (filter q xs) = filter p xs"
  by (induction xs) auto

lemma sorted_wrt_filter_map:
  "sorted_wrt r (map f xs) \<Longrightarrow> sorted_wrt r (map f (filter p xs))"
  by (induction xs) auto

lemma sorted_wrt_less_distinct: "sorted_wrt (<) (map f xs :: nat list) \<Longrightarrow> distinct (map f xs)"
  by (induction xs) auto

lemma take_length_append [simp]: "n = length xs \<Longrightarrow> take n (xs @ ys) = xs"
  by simp

lemma drop_length_append [simp]: "n = length xs \<Longrightarrow> drop n (xs @ ys) = ys"
  by simp

text \<open>The slice expression \<^verbatim>\<open>xs[len(xs)-n:]\<close> under the guard \<^verbatim>\<open>len(xs) > n\<close>.\<close>

definition last_n :: "nat \<Rightarrow> 'a list \<Rightarrow> 'a list" where
  "last_n n xs = (if length xs > n then drop (length xs - n) xs else xs)"

lemma length_last_n: "length (last_n n xs) = min n (length xs)"
  by (simp add: last_n_def)

lemma suffix_last_n: "suffix (last_n n xs) xs"
  by (simp add: last_n_def suffix_drop)

section \<open>Byte strings: the standard library functions the source calls\<close>

text \<open>
  \<^verbatim>\<open>strings.TrimSpace\<close>, \<^verbatim>\<open>strings.ToLower\<close>, \<^verbatim>\<open>strings.HasPrefix\<close> and \<^verbatim>\<open>strings.Cut\<close> on ASCII
  bytes. (On other bytes Go consults the Unicode tables, which are not modelled: bytes above
  127 are neither white space nor upper case here.)
\<close>

definition is_space :: "char \<Rightarrow> bool" where
  "is_space c \<longleftrightarrow> c \<in> {CHR '' '', CHR 0x09, CHR 0x0A, CHR 0x0B, CHR 0x0C, CHR 0x0D}"

definition trim_left :: "gostring \<Rightarrow> gostring" where
  "trim_left s = dropWhile is_space s"

definition trim_space :: "gostring \<Rightarrow> gostring" where
  "trim_space s = rev (trim_left (rev (trim_left s)))"

definition lower_char :: "char \<Rightarrow> char" where
  "lower_char c = (let n = of_char c :: nat in if 65 \<le> n \<and> n \<le> 90 then char_of (n + 32) else c)"

definition to_lower :: "gostring \<Rightarrow> gostring" where
  "to_lower s = map lower_char s"

fun cut :: "gostring \<Rightarrow> gostring \<Rightarrow> (gostring \<times> gostring) option" where
  "cut sep s =
     (if prefix sep s then Some ([], drop (length sep) s)
      else case s of [] \<Rightarrow> None | c # cs \<Rightarrow> map_option (\<lambda>(a, b). (c # a, b)) (cut sep cs))"

declare cut.simps [simp del]

lemma trim_space_no_space:
  "trim_space s = [] \<or> (\<not> is_space (hd (trim_space s)) \<and> \<not> is_space (last (trim_space s)))"
proof (cases "trim_space s = []")
  case False
  let ?t = "dropWhile is_space s"
  let ?r = "dropWhile is_space (rev ?t)"
  have r: "?r \<noteq> []" using False by (simp add: trim_space_def trim_left_def)
  then have hr: "\<not> is_space (hd ?r)" by (rule hd_dropWhile)
  obtain pre where pre: "rev ?t = pre @ ?r" by (metis takeWhile_dropWhile_id)
  then have t: "?t = rev ?r @ rev pre" by (metis rev_append rev_rev_ident)
  have "rev ?r \<noteq> []" using r by (metis rev_is_Nil_conv)
  with t have "hd ?t = hd (rev ?r)" and "?t \<noteq> []" by (metis hd_append2, metis append_is_Nil_conv)
  then have "\<not> is_space (hd (rev ?r))" by (metis hd_dropWhile)
  moreover have "last (rev ?r) = hd ?r" using r by (simp only: last_rev)
  ultimately show ?thesis using hr
    unfolding trim_space_def trim_left_def
    by (metis \<open>\<not> is_space (hd (rev (dropWhile is_space (rev (dropWhile is_space s)))))\<close>)
qed simp

lemma trim_space_idle:
  assumes "s = [] \<or> (\<not> is_space (hd s) \<and> \<not> is_space (last s))"
  shows "trim_space s = s"
proof (cases "s = []")
  case False
  then have "dropWhile is_space s = s" using assms by (cases s) auto
  moreover have "dropWhile is_space (rev s) = rev s"
    using assms False by (cases "rev s") (auto simp: last_rev [symmetric] hd_rev)
  ultimately show ?thesis by (simp add: trim_space_def trim_left_def)
qed (simp add: trim_space_def trim_left_def)

lemma trim_space_idem [simp]: "trim_space (trim_space s) = trim_space s"
  by (rule trim_space_idle) (rule trim_space_no_space)

lemma trim_space_nil [simp]: "trim_space [] = []"
  by (simp add: trim_space_def trim_left_def)

lemma lower_char_idem [simp]: "lower_char (lower_char c) = lower_char c"
  by (simp add: lower_char_def Let_def)

lemma is_space_lower [simp]: "is_space (lower_char c) = is_space c"
proof (cases "65 \<le> (of_char c :: nat) \<and> (of_char c :: nat) \<le> 90")
  case True
  let ?n = "of_char c :: nat"
  have "c \<notin> {CHR '' '', CHR 0x09, CHR 0x0A, CHR 0x0B, CHR 0x0C, CHR 0x0D}"
    using True by auto
  moreover have "of_char (char_of (?n + 32) :: char) = ?n + 32"
    using True by (simp add: of_char_mod_256)
  then have "(char_of (?n + 32) :: char) \<notin> {CHR '' '', CHR 0x09, CHR 0x0A, CHR 0x0B, CHR 0x0C, CHR 0x0D}"
    using True by (intro notI) (auto dest: arg_cong [where f = "of_char :: char \<Rightarrow> nat"])
  ultimately show ?thesis using True by (simp add: is_space_def lower_char_def Let_def)
qed (auto simp: lower_char_def Let_def)

lemma to_lower_idem [simp]: "to_lower (to_lower s) = to_lower s"
  by (simp add: to_lower_def)

lemma trim_space_to_lower: "trim_space (to_lower s) = to_lower (trim_space s)"
proof -
  have "dropWhile is_space (map lower_char xs) = map lower_char (dropWhile is_space xs)" for xs
    by (induction xs) auto
  then show ?thesis
    by (simp add: trim_space_def trim_left_def to_lower_def rev_map)
qed

text \<open>The canonical form of a tag, \<^verbatim>\<open>strings.ToLower(strings.TrimSpace(t))\<close>, is a fixed point.\<close>

lemma canon_idem: "to_lower (trim_space (to_lower (trim_space s))) = to_lower (trim_space s)"
  by (simp add: trim_space_to_lower)

end
