(* ===== verification/Frame.thy ===== *)
theory Frame
  imports Prelude
begin

text \<open>
  The record frame of \<^verbatim>\<open>sentry/record.go\<close>: a 27-byte little-endian header (CRC, sequence
  number, time stamp, type, tenant, payload length) followed by the payload. The standard
  library's \<^verbatim>\<open>encoding/binary\<close> and \<^verbatim>\<open>hash/crc32\<close> are written out.
\<close>

unbundle bit_operations_syntax

section \<open>Little-endian integers (encoding/binary)\<close>

definition put_le :: "nat \<Rightarrow> 'a::len word \<Rightarrow> byte list" where
  "put_le n w = map (\<lambda>i. ucast (drop_bit (8 * i) w)) [0..<n]"

fun get_le :: "byte list \<Rightarrow> 'a::len word" where
  "get_le [] = 0"
| "get_le (b # bs) = ucast b OR push_bit 8 (get_le bs)"

lemma length_put_le [simp]: "length (put_le n w) = n"
  by (simp add: put_le_def)

lemma put_le_nth: "i < n \<Longrightarrow> put_le n w ! i = ucast (drop_bit (8 * i) w)"
  by (simp add: put_le_def)

lemma bit_get_le:
  "bit (get_le bs :: 'a::len word) k \<longleftrightarrow>
     k < LENGTH('a) \<and> k div 8 < length bs \<and> bit (bs ! (k div 8)) (k mod 8)"
proof (induction bs arbitrary: k)
  case (Cons b bs)
  show ?case
  proof (cases "k < 8")
    case True
    then show ?thesis by (auto simp: bit_simps)
  next
    case False
    then have "k div 8 = Suc ((k - 8) div 8)" and "k mod 8 = (k - 8) mod 8"
      by (simp_all add: le_div_geq le_mod_geq)
    moreover have "\<not> bit b k" using False by (auto simp: bit_simps dest: bit_imp_le_length)
    ultimately show ?thesis using False by (auto simp: bit_simps Cons.IH)
  qed
qed simp

lemma get_put_le:
  fixes w :: "'a::len word"
  assumes "LENGTH('a) \<le> 8 * n"
  shows "get_le (put_le n w) = w"
proof (rule bit_word_eqI)
  fix k assume k: "k < LENGTH('a)"
  then have d: "k div 8 < n" using assms by linarith
  then have "bit (put_le n w ! (k div 8)) (k mod 8) \<longleftrightarrow> bit w k"
    by (simp add: put_le_nth bit_simps)
  then show "bit (get_le (put_le n w) :: 'a word) k \<longleftrightarrow> bit w k"
    using k d by (simp add: bit_get_le)
qed

section \<open>The IEEE CRC-32 (hash/crc32)\<close>

definition crc_bit :: "u32 \<Rightarrow> u32" where
  "crc_bit c = (if odd c then drop_bit 1 c XOR 0xEDB88320 else drop_bit 1 c)"

definition crc_byte :: "byte \<Rightarrow> u32 \<Rightarrow> u32" where
  "crc_byte b c = (crc_bit ^^ 8) (c XOR ucast b)"

definition crc_update :: "u32 \<Rightarrow> byte list \<Rightarrow> u32" where
  "crc_update c bs = NOT (fold crc_byte bs (NOT c))"

definition checksum_ieee :: "byte list \<Rightarrow> u32" where
  "checksum_ieee bs = crc_update 0 bs"

text \<open>Checksumming in two pieces, as \<^verbatim>\<open>recover\<close> and \<^verbatim>\<open>Read\<close> do, is checksumming the whole.\<close>

lemma crc_update_append: "crc_update (crc_update c xs) ys = crc_update c (xs @ ys)"
  by (simp add: crc_update_def)

lemma checksum_append: "crc_update (checksum_ieee xs) ys = checksum_ieee (xs @ ys)"
  by (simp add: checksum_ieee_def crc_update_append)

section \<open>Records\<close>

record jrecord =
  rec_seq :: u64
  rec_tstamp :: u64
  rec_type :: byte
  rec_tenant :: tenant
  rec_payload :: "byte list"

definition HeaderSize :: nat where
  "HeaderSize = 27"

definition frame_body :: "jrecord \<Rightarrow> byte list" where
  "frame_body r =
     put_le 8 (rec_seq r) @ put_le 8 (rec_tstamp r) @ [rec_type r] @ put_le 2 (rec_tenant r) @
     put_le 4 (of_nat (length (rec_payload r)) :: u32) @ rec_payload r"

definition Encode :: "jrecord \<Rightarrow> byte list" where
  "Encode r = put_le 4 (checksum_ieee (frame_body r)) @ frame_body r"

record header =
  hdr_seq :: u64
  hdr_tstamp :: u64
  hdr_type :: byte
  hdr_tenant :: tenant
  hdr_payloadLen :: u32
  hdr_crc :: u32

definition byte_range :: "nat \<Rightarrow> nat \<Rightarrow> byte list \<Rightarrow> byte list" where
  "byte_range lo hi b = take (hi - lo) (drop lo b)"

text \<open>Callers pass at least \<^const>\<open>HeaderSize\<close> bytes; the slices do not panic then.\<close>

definition DecodeHeader :: "byte list \<Rightarrow> header" where
  "DecodeHeader b =
     \<lparr>hdr_seq = get_le (byte_range 4 12 b), hdr_tstamp = get_le (byte_range 12 20 b),
      hdr_type = b ! 20, hdr_tenant = get_le (byte_range 21 23 b),
      hdr_payloadLen = get_le (byte_range 23 27 b), hdr_crc = get_le (byte_range 0 4 b)\<rparr>"

lemma length_frame_body: "length (frame_body r) = 23 + length (rec_payload r)"
  by (simp add: frame_body_def)

lemma length_Encode: "length (Encode r) = HeaderSize + length (rec_payload r)"
  by (simp add: Encode_def length_frame_body HeaderSize_def)

lemma Encode_not_Nil [simp]: "Encode r \<noteq> []"
  using length_Encode [of r] by (auto simp: HeaderSize_def)

text \<open>The header of an encoded record, whatever bytes follow it.\<close>

lemma DecodeHeader_Encode:
  "DecodeHeader (Encode r @ rest) =
     \<lparr>hdr_seq = rec_seq r, hdr_tstamp = rec_tstamp r, hdr_type = rec_type r,
      hdr_tenant = rec_tenant r, hdr_payloadLen = of_nat (length (rec_payload r)),
      hdr_crc = checksum_ieee (frame_body r)\<rparr>"
  by (simp add: DecodeHeader_def Encode_def frame_body_def byte_range_def get_put_le nth_append)

lemma DecodeHeader_take:
  "HeaderSize \<le> n \<Longrightarrow> HeaderSize \<le> length b \<Longrightarrow> DecodeHeader (take n b) = DecodeHeader b"
  by (simp add: DecodeHeader_def byte_range_def HeaderSize_def drop_take min_absorb1)

lemma Encode_split:
  "drop 4 (take HeaderSize (Encode r @ rest)) @ rec_payload r = frame_body r"
  "take (length (rec_payload r)) (drop HeaderSize (Encode r @ rest)) = rec_payload r"
  by (simp_all add: Encode_def frame_body_def HeaderSize_def)

lemma Encode_crc:
  "crc_update (checksum_ieee (drop 4 (take HeaderSize (Encode r @ rest)))) (rec_payload r) =
     checksum_ieee (frame_body r)"
  by (simp only: checksum_append Encode_split(1))

section \<open>The checksum detects a changed byte\<close>

lemma crc_bit_inj: "inj crc_bit"
proof (rule injI)
  fix c c' :: u32
  assume e: "crc_bit c = crc_bit c'"
  have "bit (0xEDB88320 :: u32) 31" by simp
  moreover have "\<not> bit (drop_bit 1 d :: u32) 31" for d
    by (simp add: bit_drop_bit_eq) (auto dest: bit_imp_le_length)
  ultimately have top: "bit (crc_bit d) 31 \<longleftrightarrow> odd d" for d
    unfolding crc_bit_def by (auto simp only: bit_xor_iff if_True if_False split: if_split)
  have o': "odd c \<longleftrightarrow> odd c'" using e top by metis
  have x: "a = b" if "a XOR m = b XOR m" for a b m :: u32
    by (metis that xor.assoc xor_self_eq xor.right_neutral)
  have d: "drop_bit 1 c = drop_bit 1 c'"
    using e o' by (cases "odd c") (auto simp: crc_bit_def dest: x)
  show "c = c'"
  proof (rule bit_word_eqI)
    fix n show "bit c n \<longleftrightarrow> bit c' n"
    proof (cases n)
      case 0
      then show ?thesis using o' by (simp add: bit_0)
    next
      case (Suc m)
      have "bit (drop_bit 1 c) m \<longleftrightarrow> bit (drop_bit 1 c') m" using d by simp
      then show ?thesis using Suc by (simp add: bit_drop_bit_eq)
    qed
  qed
qed

lemma crc_byte_inj: "crc_byte b c = crc_byte b' c' \<Longrightarrow> c XOR ucast b = c' XOR ucast b'"
  using inj_fn [OF crc_bit_inj, of 8] by (auto simp: crc_byte_def dest: injD)

lemma xor_cancel: "(a XOR c = b XOR c) = (a = (b :: 'a::len word))"
  by (metis xor.assoc xor_self_eq xor.right_neutral)

lemma crc_fold_inj: "fold crc_byte bs c = fold crc_byte bs c' \<Longrightarrow> c = c'"
proof (induction bs arbitrary: c c')
  case (Cons b bs)
  then have "crc_byte b c = crc_byte b c'" by simp
  then show ?case by (auto dest!: crc_byte_inj simp: xor_cancel)
qed simp

lemma checksum_detects_byte:
  assumes "b \<noteq> b'"
  shows "checksum_ieee (xs @ b # ys) \<noteq> checksum_ieee (xs @ b' # ys)"
proof
  assume "checksum_ieee (xs @ b # ys) = checksum_ieee (xs @ b' # ys)"
  then have "crc_byte b (fold crc_byte xs (NOT 0)) = crc_byte b' (fold crc_byte xs (NOT 0))"
    by (auto simp: checksum_ieee_def crc_update_def dest: crc_fold_inj)
  then have "ucast b XOR fold crc_byte xs (NOT 0) = (ucast b' XOR fold crc_byte xs (NOT 0) :: u32)"
    by (metis crc_byte_inj xor.commute)
  then have "(ucast b :: u32) = ucast b'" by (simp only: xor_cancel)
  then have "ucast (ucast b :: u32) = (ucast (ucast b' :: u32) :: byte)" by simp
  then show False using assms by (simp add: ucast_up_ucast_id is_up)
qed

lemma get_le_inj:
  assumes "length xs = length ys" and "8 * length xs \<le> LENGTH('a::len)"
    and "(get_le xs :: 'a word) = get_le ys"
  shows "xs = ys"
proof (rule nth_equalityI [OF assms(1)])
  fix i assume i: "i < length xs"
  show "xs ! i = ys ! i"
  proof (rule bit_word_eqI)
    fix k assume "k < LENGTH(8)"
    then have k: "(8 * i + k) div 8 = i" "(8 * i + k) mod 8 = k" "8 * i + k < LENGTH('a)"
      using i assms(2) by auto
    have "bit (get_le xs :: 'a word) (8 * i + k) \<longleftrightarrow> bit (get_le ys :: 'a word) (8 * i + k)"
      using assms(3) by simp
    then show "bit (xs ! i) k \<longleftrightarrow> bit (ys ! i) k"
      unfolding bit_get_le k using i k(3) assms(1) by simp
  qed
qed

text \<open>The frame round trip: decoding the header of an encoded record gives back its
  fields, whatever follows it in the file, the length field counts the payload (for
  payloads a 32-bit length can count), the payload is the slice of that length behind the header,
  and the checksum taken in two pieces agrees with the stored one.\<close>
theorem Encode_DecodeHeader:
  assumes "length (rec_payload r) < 2 ^ 32"
  shows "let h = DecodeHeader (Encode r @ rest); n = unat (hdr_payloadLen h);
             payload = take n (drop HeaderSize (Encode r @ rest))
         in hdr_seq h = rec_seq r \<and> hdr_tstamp h = rec_tstamp r \<and> hdr_type h = rec_type r \<and>
            hdr_tenant h = rec_tenant r \<and> payload = rec_payload r \<and>
            crc_update (checksum_ieee (drop 4 (take HeaderSize (Encode r @ rest)))) payload = hdr_crc h"
proof -
  have n: "unat (of_nat (length (rec_payload r)) :: u32) = length (rec_payload r)"
    using assms by (simp add: unat_of_nat take_bit_nat_eq_self)
  show ?thesis
    unfolding Let_def DecodeHeader_Encode header.select_convs n Encode_split(2) Encode_crc by simp
qed

theorem Encode_DecodeHeader_witness:
  "hdr_tenant (DecodeHeader (Encode \<lparr>rec_seq = 1, rec_tstamp = 2, rec_type = 3, rec_tenant = 258,
     rec_payload = [9]\<rparr> @ [0])) = 258"
  using Encode_DecodeHeader [of "\<lparr>rec_seq = 1, rec_tstamp = 2, rec_type = 3, rec_tenant = 258, rec_payload = [9]\<rparr>" "[0]"]
  by (simp add: Let_def)

end
