(* ===== verification/Journal.thy ===== *)
theory Journal
  imports Frame
begin

text \<open>
  The SentryLog journal of \<^verbatim>\<open>sentry/store.go\<close>: segment files of concatenated frames, an
  in-memory key directory of locations, and crash recovery. The directory is an association
  list from segment numbers to file contents (files with other names are skipped by the code
  and left out). What the operating system answers (whether a file opens, how many bytes a
  failing write got through, whether a sync succeeds, the clock) is an argument of each
  operation, so every error branch of the code is a branch of the model.
\<close>

section \<open>State\<close>

datatype jerror =
  ErrMarshal | ErrOpen | ErrSeek | ErrWrite | ErrSync | ErrRead | ErrCorrupt | ErrNotFound nat
  | ErrTruncate | ErrMkdir | ErrReadDir

type_synonym disk = "(nat \<times> byte list) list"

record location =
  loc_seg :: nat
  loc_off :: nat
  loc_size :: nat

record options =
  SegmentMax :: int
  FsyncEvery :: int

text \<open>\<open>cur\<close> is the open file: its segment and the file position; \<open>None\<close> once it is closed.\<close>

record store =
  files :: disk
  opt :: options
  cur :: "(nat \<times> nat) option"
  curSeg :: nat
  curOff :: nat
  nextSeq :: nat
  keydir :: "location list"
  lastSync :: int

datatype open_result = OpenOk | OpenFails | SeekFails

record io_env =
  io_now :: int
  io_open :: open_result
  io_write :: "nat option" \<comment> \<open>\<open>Some n\<close>: the write fails after n bytes\<close>
  io_sync :: bool
  io_sync_now :: int

section \<open>Opening a segment, appending\<close>

definition touch :: "nat \<Rightarrow> disk \<Rightarrow> disk" where
  "touch seg d = (case map_of d seg of None \<Rightarrow> d @ [(seg, [])] | Some _ \<Rightarrow> d)"

definition openSegment :: "open_result \<Rightarrow> nat \<Rightarrow> store \<Rightarrow> store \<times> jerror option" where
  "openSegment res seg s =
     (case res of
        OpenFails \<Rightarrow> (s\<lparr>cur := None\<rparr>, Some ErrOpen)
      | SeekFails \<Rightarrow> (s\<lparr>cur := None, files := touch seg (files s)\<rparr>, Some ErrSeek)
      | OpenOk \<Rightarrow>
          let d = touch seg (files s); off = length (the (map_of d seg))
          in (s\<lparr>files := d, cur := Some (seg, off), curSeg := seg, curOff := off\<rparr>, None))"

definition write_at :: "nat \<Rightarrow> byte list \<Rightarrow> byte list \<Rightarrow> byte list" where
  "write_at pos b content = take pos content @ b @ drop (pos + length b) content"

definition write_cur :: "nat option \<Rightarrow> byte list \<Rightarrow> store \<Rightarrow> store \<times> bool" where
  "write_cur res b s =
     (case cur s of
        None \<Rightarrow> (s, False)
      | Some (seg, pos) \<Rightarrow>
          let b' = (case res of None \<Rightarrow> b | Some n \<Rightarrow> take n b)
          in (s\<lparr>files := AList.update seg (write_at pos b' (the (map_of (files s) seg))) (files s),
                cur := Some (seg, pos + length b')\<rparr>,
              res = None))"

definition commit :: "byte list \<Rightarrow> store \<Rightarrow> store \<times> (jerror + nat)" where
  "commit b s =
     (s\<lparr>keydir := keydir s @ [\<lparr>loc_seg = curSeg s, loc_off = curOff s, loc_size = length b\<rparr>],
        nextSeq := nextSeq s + 1, curOff := curOff s + length b\<rparr>,
      Inr (nextSeq s))"

definition new_record :: "io_env \<Rightarrow> tenant \<Rightarrow> byte \<Rightarrow> byte list \<Rightarrow> store \<Rightarrow> jrecord" where
  "new_record env t ty p s =
     \<lparr>rec_seq = of_nat (nextSeq s), rec_tstamp = of_int (io_now env), rec_type = ty,
      rec_tenant = t, rec_payload = p\<rparr>"

text \<open>The payload comes marshalled: \<open>None\<close> is a failed \<^verbatim>\<open>json.Marshal\<close>.\<close>

definition Append ::
  "io_env \<Rightarrow> tenant \<Rightarrow> byte \<Rightarrow> byte list option \<Rightarrow> store \<Rightarrow> store \<times> (jerror + nat)" where
  "Append env t ty payload s =
     (case payload of
        None \<Rightarrow> (s, Inl ErrMarshal)
      | Some p \<Rightarrow>
          let b = Encode (new_record env t ty p s)
          in case (if int (curOff s) + int (length b) > SegmentMax (opt s)
                   then openSegment (io_open env) (curSeg s + 1) s else (s, None)) of
               (s1, Some e) \<Rightarrow> (s1, Inl e)
             | (s1, None) \<Rightarrow>
                 (case write_cur (io_write env) b s1 of
                    (s2, False) \<Rightarrow> (s2, Inl ErrWrite)
                  | (s2, True) \<Rightarrow>
                      if FsyncEvery (opt s2) = 0 \<or> io_sync_now env - lastSync s2 \<ge> FsyncEvery (opt s2)
                      then if io_sync env then commit b (s2\<lparr>lastSync := io_sync_now env\<rparr>)
                           else (s2, Inl ErrSync)
                      else commit b s2))"

section \<open>Reading and scanning\<close>

definition read_at :: "disk \<Rightarrow> location \<Rightarrow> jerror + byte list" where
  "read_at d loc =
     (case map_of d (loc_seg loc) of
        None \<Rightarrow> Inl ErrOpen
      | Some content \<Rightarrow>
          if loc_off loc + loc_size loc > length content then Inl ErrRead
          else Inr (take (loc_size loc) (drop (loc_off loc) content)))"

definition Read :: "store \<Rightarrow> nat \<Rightarrow> jerror + jrecord" where
  "Read s seq =
     (if seq = 0 \<or> seq > length (keydir s) then Inl (ErrNotFound seq)
      else case read_at (files s) (keydir s ! (seq - 1)) of
             Inl e \<Rightarrow> Inl e
           | Inr b \<Rightarrow>
               let h = DecodeHeader (take HeaderSize b); payload = drop HeaderSize b
               in if crc_update (checksum_ieee (drop 4 (take HeaderSize b))) payload \<noteq> hdr_crc h
                  then Inl ErrCorrupt
                  else Inr \<lparr>rec_seq = of_nat seq, rec_tstamp = hdr_tstamp h, rec_type = hdr_type h,
                            rec_tenant = hdr_tenant h, rec_payload = payload\<rparr>)"

definition ReadNextSeq :: "store \<Rightarrow> nat" where
  "ReadNextSeq s = nextSeq s"

record rec_filter =
  flt_tenant :: "tenant option"
  flt_type :: "byte option"

definition passes :: "rec_filter \<Rightarrow> jrecord \<Rightarrow> bool" where
  "passes f r \<longleftrightarrow>
     (case flt_tenant f of None \<Rightarrow> True | Some t \<Rightarrow> rec_tenant r = t) \<and>
     (case flt_type f of None \<Rightarrow> True | Some y \<Rightarrow> rec_type r = y)"

text \<open>
  The callback threads an accumulator and answers whether to go on; the scan also stops with
  the first read error.
\<close>

fun scan_seqs ::
  "store \<Rightarrow> rec_filter \<Rightarrow> (jrecord \<Rightarrow> 'a \<Rightarrow> 'a \<times> bool) \<Rightarrow> nat list \<Rightarrow> 'a \<Rightarrow> 'a \<times> jerror option" where
  "scan_seqs s f fn [] a = (a, None)"
| "scan_seqs s f fn (i # is) a =
     (case Read s i of
        Inl e \<Rightarrow> (a, Some e)
      | Inr r \<Rightarrow>
          if \<not> passes f r then scan_seqs s f fn is a
          else case fn r a of
                 (a', True) \<Rightarrow> scan_seqs s f fn is a'
               | (a', False) \<Rightarrow> (a', None))"

definition Scan ::
  "store \<Rightarrow> rec_filter \<Rightarrow> (jrecord \<Rightarrow> 'a \<Rightarrow> 'a \<times> bool) \<Rightarrow> 'a \<Rightarrow> 'a \<times> jerror option" where
  "Scan s f fn a = scan_seqs s f fn [1..<length (keydir s) + 1] a"

definition ScanReverse ::
  "store \<Rightarrow> rec_filter \<Rightarrow> (jrecord \<Rightarrow> 'a \<Rightarrow> 'a \<times> bool) \<Rightarrow> 'a \<Rightarrow> 'a \<times> jerror option" where
  "ScanReverse s f fn a = scan_seqs s f fn (rev [1..<length (keydir s) + 1]) a"

section \<open>Recovery\<close>

definition max_payload :: "options \<Rightarrow> nat" where
  "max_payload o' = min (nat ((SegmentMax o' - int HeaderSize) mod 2 ^ 32)) (16 * 2 ^ 20)"

text \<open>
  One segment: the offsets and sizes of the frames accepted, where the scan stopped, and
  whether it stopped at a frame that is torn, over-long or fails its checksum (and not at the
  end of the file).
\<close>

function scan_segment :: "nat \<Rightarrow> byte list \<Rightarrow> nat \<Rightarrow> (nat \<times> nat) list \<times> nat \<times> bool" where
  "scan_segment mx b off =
     (if b = [] then ([], off, False)
      else if length b < HeaderSize then ([], off, True)
      else let h = DecodeHeader (take HeaderSize b); n = unat (hdr_payloadLen h) in
        if n > mx then ([], off, True)
        else if length b < HeaderSize + n then ([], off, True)
        else if crc_update (checksum_ieee (drop 4 (take HeaderSize b))) (take n (drop HeaderSize b))
                \<noteq> hdr_crc h then ([], off, True)
        else let (locs, e, bad) = scan_segment mx (drop (HeaderSize + n) b) (off + (HeaderSize + n))
             in ((off, HeaderSize + n) # locs, e, bad))"
  by pat_completeness auto
termination
  by (relation "measure (\<lambda>(mx, b, off). length b)") (auto simp: HeaderSize_def)

declare scan_segment.simps [simp del]

fun recover_segs :: "bool \<Rightarrow> nat list \<Rightarrow> store \<Rightarrow> store \<times> jerror option" where
  "recover_segs trunc_ok [] s = (s, None)"
| "recover_segs trunc_ok (seg # segs) s =
     (case map_of (files s) seg of
        None \<Rightarrow> (s, Some ErrOpen)
      | Some content \<Rightarrow>
          let (locs, off, bad) = scan_segment (max_payload (opt s)) content 0;
              s1 = s\<lparr>keydir := keydir s @
                       map (\<lambda>(o', n). \<lparr>loc_seg = seg, loc_off = o', loc_size = n\<rparr>) locs,
                     nextSeq := nextSeq s + length locs\<rparr>
          in if bad then
               if segs = [] then
                 if trunc_ok
                 then recover_segs trunc_ok segs
                        (s1\<lparr>files := AList.update seg (take off content) (files s), curSeg := seg\<rparr>)
                 else (s1, Some ErrTruncate)
               else (s1, Some ErrCorrupt)
             else recover_segs trunc_ok segs (s1\<lparr>curSeg := seg\<rparr>))"

definition recover :: "bool \<Rightarrow> store \<Rightarrow> store \<times> jerror option" where
  "recover trunc_ok s = recover_segs trunc_ok (sort (map fst (files s))) s"

record open_env =
  oe_mkdir :: bool
  oe_readdir :: bool
  oe_truncate :: bool
  oe_open :: open_result

definition Open :: "open_env \<Rightarrow> disk \<Rightarrow> options \<Rightarrow> jerror + store" where
  "Open env d o' =
     (let o'' = (if SegmentMax o' = 0 then o'\<lparr>SegmentMax := 256 * 2 ^ 20\<rparr> else o');
          s = \<lparr>files = d, opt = o'', cur = None, curSeg = 0, curOff = 0, nextSeq = 1,
               keydir = [], lastSync = 0\<rparr>
      in if \<not> oe_mkdir env then Inl ErrMkdir
         else if \<not> oe_readdir env then Inl ErrReadDir
         else case recover (oe_truncate env) s of
                (_, Some e) \<Rightarrow> Inl e
              | (s1, None) \<Rightarrow>
                  (case openSegment (oe_open env) (curSeg s1) s1 of
                     (_, Some e) \<Rightarrow> Inl e
                   | (s2, None) \<Rightarrow> Inr s2))"

definition Close :: "bool \<Rightarrow> store \<Rightarrow> store \<times> jerror option" where
  "Close sync_ok s =
     (case cur s of
        None \<Rightarrow> (s, Some ErrSync)
      | Some _ \<Rightarrow> if sync_ok then (s\<lparr>cur := None\<rparr>, None) else (s, Some ErrSync))"

section \<open>The log a directory holds\<close>

text \<open>
  The abstract journal is a list of segments, each with its records in order; \<open>hist\<close> forgets
  the segments. \<open>repr s gs\<close>: the files are exactly the encoded segments, the key directory is
  their layout, and the writer stands at the end of the last segment.
\<close>

type_synonym segments = "(nat \<times> jrecord list) list"

definition enc_all :: "jrecord list \<Rightarrow> byte list" where
  "enc_all rs = concat (map Encode rs)"

fun layout :: "nat \<Rightarrow> nat \<Rightarrow> jrecord list \<Rightarrow> location list" where
  "layout seg off [] = []"
| "layout seg off (r # rs) =
     \<lparr>loc_seg = seg, loc_off = off, loc_size = length (Encode r)\<rparr>
     # layout seg (off + length (Encode r)) rs"

definition hist :: "segments \<Rightarrow> jrecord list" where
  "hist gs = concat (map snd gs)"

definition disk_of :: "segments \<Rightarrow> disk" where
  "disk_of gs = map (\<lambda>(seg, rs). (seg, enc_all rs)) gs"

definition keydir_of :: "segments \<Rightarrow> location list" where
  "keydir_of gs = concat (map (\<lambda>(seg, rs). layout seg 0 rs) gs)"

definition numbered :: "jrecord list \<Rightarrow> bool" where
  "numbered rs \<longleftrightarrow> map rec_seq rs = map of_nat [1..<Suc (length rs)]"

definition repr :: "store \<Rightarrow> segments \<Rightarrow> bool" where
  "repr s gs \<longleftrightarrow>
     gs \<noteq> [] \<and> sorted_wrt (<) (map fst gs) \<and> files s = disk_of gs \<and> keydir s = keydir_of gs \<and>
     nextSeq s = Suc (length (hist gs)) \<and> curSeg s = fst (last gs) \<and>
     curOff s = length (enc_all (snd (last gs))) \<and> cur s = Some (curSeg s, curOff s) \<and>
     numbered (hist gs)"

definition add_record :: "bool \<Rightarrow> jrecord \<Rightarrow> segments \<Rightarrow> segments" where
  "add_record roll r gs =
     (if roll then gs @ [(fst (last gs) + 1, [r])]
      else butlast gs @ [(fst (last gs), snd (last gs) @ [r])])"

lemma enc_all_simps [simp]:
  "enc_all [] = []" "enc_all (r # rs) = Encode r @ enc_all rs"
  "enc_all (rs @ rs') = enc_all rs @ enc_all rs'"
  by (simp_all add: enc_all_def)

lemma layout_append:
  "layout seg off (rs @ rs') = layout seg off rs @ layout seg (off + length (enc_all rs)) rs'"
  by (induction rs arbitrary: off) (simp_all add: add.assoc)

lemma length_layout [simp]: "length (layout seg off rs) = length rs"
  by (induction rs arbitrary: off) simp_all

lemma hist_simps [simp]:
  "hist [] = []" "hist ((seg, rs) # gs) = rs @ hist gs" "hist (gs @ gs') = hist gs @ hist gs'"
  by (simp_all add: hist_def)

lemma disk_of_simps [simp]:
  "disk_of [] = []" "disk_of ((seg, rs) # gs) = (seg, enc_all rs) # disk_of gs"
  "disk_of (gs @ gs') = disk_of gs @ disk_of gs'"
  by (simp_all add: disk_of_def)

lemma keydir_of_simps [simp]:
  "keydir_of [] = []" "keydir_of ((seg, rs) # gs) = layout seg 0 rs @ keydir_of gs"
  "keydir_of (gs @ gs') = keydir_of gs @ keydir_of gs'"
  by (simp_all add: keydir_of_def)

lemma map_fst_disk_of [simp]: "map fst (disk_of gs) = map fst gs"
  by (induction gs) auto

lemma length_keydir_of [simp]: "length (keydir_of gs) = length (hist gs)"
  by (induction gs) auto

lemma numbered_append1:
  "numbered (rs @ [r]) \<longleftrightarrow> numbered rs \<and> rec_seq r = of_nat (Suc (length rs))"
  by (simp add: numbered_def)

lemma numbered_append2:
  "numbered (xs @ ys @ [r]) \<longleftrightarrow> numbered (xs @ ys) \<and> rec_seq r = of_nat (Suc (length xs + length ys))"
  using numbered_append1 [of "xs @ ys" r] by simp

lemma numbered_nth: "numbered rs \<Longrightarrow> i < length rs \<Longrightarrow> rec_seq (rs ! i) = of_nat (Suc i)"
proof -
  assume n: "numbered rs" and i: "i < length rs"
  have "map rec_seq rs ! i = map of_nat [1..<Suc (length rs)] ! i"
    using n by (simp only: numbered_def)
  then show ?thesis using i by (simp add: nth_upt del: upt_Suc)
qed

lemma map_of_last: "k \<notin> fst ` set xs \<Longrightarrow> map_of (xs @ [(k, v)]) k = Some v"
  by (simp add: map_add_def map_of_eq_None_iff [symmetric])

lemma update_last: "k \<notin> fst ` set xs \<Longrightarrow> AList.update k v (xs @ [(k, w)]) = xs @ [(k, v)]"
  by (induction xs) auto

section \<open>A committed record is read back\<close>

definition read_frame :: "byte list \<Rightarrow> nat \<Rightarrow> jerror + jrecord" where
  "read_frame b seq =
     (let h = DecodeHeader (take HeaderSize b); payload = drop HeaderSize b
      in if crc_update (checksum_ieee (drop 4 (take HeaderSize b))) payload \<noteq> hdr_crc h
         then Inl ErrCorrupt
         else Inr \<lparr>rec_seq = of_nat seq, rec_tstamp = hdr_tstamp h, rec_type = hdr_type h,
                   rec_tenant = hdr_tenant h, rec_payload = payload\<rparr>)"

lemma Read_frame:
  "Read s seq =
     (if seq = 0 \<or> seq > length (keydir s) then Inl (ErrNotFound seq)
      else case read_at (files s) (keydir s ! (seq - 1)) of
             Inl e \<Rightarrow> Inl e | Inr b \<Rightarrow> read_frame b seq)"
  by (simp add: Read_def read_frame_def cong: sum.case_cong)

lemma read_frame_Encode: "read_frame (Encode r) seq = Inr (r\<lparr>rec_seq := of_nat seq\<rparr>)"
proof -
  have hd: "DecodeHeader (take HeaderSize (Encode r)) = DecodeHeader (Encode r)"
    by (simp add: DecodeHeader_take length_Encode)
  have "drop HeaderSize (Encode r) = rec_payload r"
    using Encode_split(2) [of r "[]"] length_Encode [of r] by simp
  with hd show ?thesis
    using DecodeHeader_Encode [of r "[]"] Encode_crc [of r "[]"]
    by (simp add: read_frame_def Let_def)
qed

lemma read_frame_changed_byte:
  assumes "i < length (Encode r)" and "b' \<noteq> Encode r ! i"
  shows "read_frame ((Encode r)[i := b']) seq = Inl ErrCorrupt"
proof -
  let ?e = "Encode r"
  let ?x = "?e[i := b']"
  have len: "HeaderSize \<le> length ?x" by (simp add: length_Encode)
  have hd: "hdr_crc (DecodeHeader (take HeaderSize ?x)) = get_le (take 4 ?x)"
    using len by (simp add: DecodeHeader_take) (simp add: DecodeHeader_def byte_range_def)
  have "drop 4 (take HeaderSize ?x @ drop HeaderSize ?x) = drop 4 (take HeaderSize ?x) @ drop HeaderSize ?x"
    using len by (simp only: drop_append) (simp add: HeaderSize_def)
  then have body: "drop 4 (take HeaderSize ?x) @ drop HeaderSize ?x = drop 4 ?x"
    by (simp only: append_take_drop_id)
  have e: "take 4 ?e = put_le 4 (checksum_ieee (frame_body r))" "drop 4 ?e = frame_body r"
    by (simp_all add: Encode_def)
  have "checksum_ieee (drop 4 ?x) \<noteq> get_le (take 4 ?x)"
  proof (cases "i < 4")
    case True
    then have d: "drop 4 ?x = frame_body r" using e by (simp add: drop_update_cancel)
    have t: "take 4 ?x = (take 4 ?e)[i := b']" by (simp add: take_update_swap)
    have "take 4 ?x \<noteq> take 4 ?e"
      unfolding t using assms True by (metis nth_list_update_eq nth_take length_take min_less_iff_conj)
    then have "(get_le (take 4 ?x) :: u32) \<noteq> get_le (take 4 ?e)"
      using get_le_inj [of "take 4 ?x" "take 4 ?e", where 'a = 32] by auto
    then show ?thesis using e(1) d by (simp add: get_put_le)
  next
    case False
    then have t: "take 4 ?x = put_le 4 (checksum_ieee (frame_body r))"
      using e(1) by (simp add: take_update_cancel)
    define k where "k = i - 4"
    have k: "i = 4 + k" using False by (simp add: k_def)
    have kl: "k < length (frame_body r)"
      using assms(1) k by (simp add: length_Encode length_frame_body HeaderSize_def)
    have f: "frame_body r = take k (frame_body r) @ frame_body r ! k # drop (Suc k) (frame_body r)"
      using kl by (rule id_take_nth_drop)
    have "drop 4 ?x = (frame_body r)[k := b']" using e(2) k by (simp add: drop_update_swap)
    then have d: "drop 4 ?x = take k (frame_body r) @ b' # drop (Suc k) (frame_body r)"
      using kl by (simp add: upd_conv_take_nth_drop)
    have "frame_body r ! k = Encode r ! i"
      using e(2) k by (metis nth_drop assms(1) nat_less_le less_imp_le_nat le_add1 le_trans order_less_imp_le)
    then have "checksum_ieee (drop 4 ?x) \<noteq> checksum_ieee (frame_body r)"
      using checksum_detects_byte [of b' "frame_body r ! k"] assms(2) d f by metis
    then show ?thesis using t by (simp add: get_put_le)
  qed
  then show ?thesis
    by (simp add: read_frame_def Let_def hd checksum_append body)
qed

lemma layout_read_at:
  assumes "map_of d seg = Some (pre @ enc_all rs @ post)"
  shows "list_all2 (\<lambda>loc r. read_at d loc = Inr (Encode r)) (layout seg (length pre) rs) rs"
  using assms
proof (induction rs arbitrary: pre)
  case (Cons r rs)
  have "list_all2 (\<lambda>loc r. read_at d loc = Inr (Encode r))
          (layout seg (length (pre @ Encode r)) rs) rs"
    by (rule Cons.IH) (use Cons.prems in simp)
  then show ?case using Cons.prems by (simp add: read_at_def)
qed simp

lemma list_all2_mono_mem:
  "list_all2 P xs ys \<Longrightarrow> (\<And>x y. x \<in> set xs \<Longrightarrow> P x y \<Longrightarrow> Q x y) \<Longrightarrow> list_all2 Q xs ys"
  by (induction rule: list_all2_induct) auto

lemma loc_seg_layout: "loc \<in> set (layout seg off rs) \<Longrightarrow> loc_seg loc = seg"
  by (induction rs arbitrary: off) auto

lemma loc_seg_keydir_of: "loc \<in> set (keydir_of gs) \<Longrightarrow> loc_seg loc \<in> fst ` set gs"
  by (force simp: keydir_of_def dest: loc_seg_layout)

lemma keydir_of_reads:
  "distinct (map fst gs) \<Longrightarrow>
   list_all2 (\<lambda>loc r. read_at (disk_of gs) loc = Inr (Encode r)) (keydir_of gs) (hist gs)"
proof (induction gs)
  case (Cons g gs)
  obtain seg rs where g: "g = (seg, rs)" by (cases g)
  have seg: "seg \<notin> fst ` set gs" using Cons.prems g by simp
  have "list_all2 (\<lambda>loc r. read_at (disk_of gs) loc = Inr (Encode r)) (keydir_of gs) (hist gs)"
    by (rule Cons.IH) (use Cons.prems in simp)
  then have "list_all2 (\<lambda>loc r. read_at (disk_of (g # gs)) loc = Inr (Encode r))
               (keydir_of gs) (hist gs)"
    by (rule list_all2_mono_mem)
       (use seg g in \<open>auto simp: read_at_def dest: loc_seg_keydir_of\<close>)
  moreover have "list_all2 (\<lambda>loc r. read_at (disk_of (g # gs)) loc = Inr (Encode r))
                   (layout seg 0 rs) rs"
    using layout_read_at [of "disk_of (g # gs)" seg "[]" rs "[]"] g by simp
  ultimately show ?case using g by (simp add: list_all2_appendI)
qed simp

lemma repr_distinct: "repr s gs \<Longrightarrow> distinct (map fst gs)"
  unfolding repr_def using sorted_wrt_less_distinct [of id "map fst gs"] by simp

lemma Read_repr:
  assumes "repr s gs"
  shows "Read s seq =
    (if seq = 0 \<or> seq > length (hist gs) then Inl (ErrNotFound seq) else Inr (hist gs ! (seq - 1)))"
proof (cases "seq = 0 \<or> seq > length (hist gs)")
  case False
  then have i: "seq - 1 < length (hist gs)" and suc: "Suc (seq - 1) = seq" by auto
  have k: "keydir s = keydir_of gs" "files s = disk_of gs" and n: "numbered (hist gs)"
    using assms by (auto simp: repr_def)
  have "read_at (files s) (keydir s ! (seq - 1)) = Inr (Encode (hist gs ! (seq - 1)))"
    using list_all2_nthD2 [OF keydir_of_reads [OF repr_distinct [OF assms]] i] k by simp
  then show ?thesis
    using False k numbered_nth [OF n i] suc by (simp add: Read_frame read_frame_Encode)
qed (use assms in \<open>auto simp: Read_frame repr_def\<close>)

section \<open>Append adds one record at the end\<close>

definition rolls :: "store \<Rightarrow> byte list \<Rightarrow> bool" where
  "rolls s b \<longleftrightarrow> int (curOff s) + int (length b) > SegmentMax (opt s)"

definition io_ok :: "io_env \<Rightarrow> bool" where
  "io_ok env \<longleftrightarrow> io_open env = OpenOk \<and> io_write env = None \<and> io_sync env"

lemma repr_decomp:
  assumes "repr s gs"
  obtains gs0 rs where
    "gs = gs0 @ [(curSeg s, rs)]" "sorted_wrt (<) (map fst gs0)" "\<forall>k \<in> fst ` set gs0. k < curSeg s"
    "files s = disk_of gs0 @ [(curSeg s, enc_all rs)]" "curOff s = length (enc_all rs)"
    "cur s = Some (curSeg s, length (enc_all rs))" "keydir s = keydir_of gs"
    "nextSeq s = Suc (length (hist gs))" "numbered (hist gs)" "curSeg s \<notin> fst ` set (disk_of gs0)"
proof -
  from assms have ne: "gs \<noteq> []" by (simp add: repr_def)
  obtain seg rs where l: "last gs = (seg, rs)" by (cases "last gs")
  have gs: "gs = butlast gs @ [(seg, rs)]" using append_butlast_last_id [OF ne] l by simp
  have seg: "curSeg s = seg" using assms l by (simp add: repr_def)
  have srt: "sorted_wrt (<) (map fst gs)" using assms by (simp add: repr_def)
  then have "sorted_wrt (<) (map fst (butlast gs @ [(seg, rs)]))" using gs by simp
  then have lt: "\<forall>k \<in> fst ` set (butlast gs). k < seg" and s0: "sorted_wrt (<) (map fst (butlast gs))"
    by (auto simp: sorted_wrt_append)
  have f: "files s = disk_of (butlast gs) @ [(seg, enc_all rs)]"
    using assms disk_of_simps(3) [of "butlast gs" "[(seg, rs)]"] gs by (simp add: repr_def)
  have "fst ` set (disk_of (butlast gs)) = fst ` set (butlast gs)"
    using arg_cong [OF map_fst_disk_of [of "butlast gs"], of set] by (simp only: set_map)
  with lt have "seg \<notin> fst ` set (disk_of (butlast gs))" by auto
  then show thesis
    by (intro that [of "butlast gs" rs]) (use assms gs seg lt s0 f l in \<open>auto simp: repr_def\<close>)
qed

text \<open>The state before the write: the old one, or a fresh segment.\<close>

definition before_write :: "io_env \<Rightarrow> byte list \<Rightarrow> store \<Rightarrow> store \<times> jerror option" where
  "before_write env b s =
     (if rolls s b then openSegment (io_open env) (curSeg s + 1) s else (s, None))"

lemma openSegment_next:
  assumes "repr s gs"
  shows "openSegment OpenOk (curSeg s + 1) s =
    (s\<lparr>files := disk_of gs @ [(curSeg s + 1, [])], cur := Some (curSeg s + 1, 0),
       curSeg := curSeg s + 1, curOff := 0\<rparr>, None)"
  using assms
proof (cases rule: repr_decomp)
  case (1 gs0 rs)
  have f: "files s = disk_of gs" using assms by (simp add: repr_def)
  have n: "curSeg s + 1 \<notin> fst ` set gs" using 1(1,3) by auto
  have "fst ` set (disk_of gs) = fst ` set gs"
    using arg_cong [OF map_fst_disk_of [of gs], of set] by (simp only: set_map)
  then have m: "curSeg s + 1 \<notin> fst ` set (disk_of gs)" using n by simp
  then have "map_of (disk_of gs) (curSeg s + 1) = None" by (rule iffD2 [OF map_of_eq_None_iff])
  then show ?thesis using f map_of_last [OF m]
    by (simp add: openSegment_def touch_def Let_def)
qed

lemma write_commit_last:
  assumes "cur s = Some (seg, length c)" "files s = d @ [(seg, c)]" "seg \<notin> fst ` set d"
  shows "write_cur None b s = (s\<lparr>files := d @ [(seg, c @ b)], cur := Some (seg, length c + length b)\<rparr>, True)"
  using assms map_of_last [OF assms(3), of c] update_last [OF assms(3)]
  by (simp add: write_cur_def Let_def write_at_def)

lemma Append_io_ok:
  assumes "io_ok env" and "before_write env (Encode (new_record env t ty p s)) s = (s1, None)"
    and "write_cur None (Encode (new_record env t ty p s)) s1 = (s2, True)"
  shows "\<exists>l. Append env t ty (Some p) s = commit (Encode (new_record env t ty p s)) (s2\<lparr>lastSync := l\<rparr>)"
proof -
  let ?b = "Encode (new_record env t ty p s)"
  have "\<exists>l. commit ?b s2 = commit ?b (s2\<lparr>lastSync := l\<rparr>)" by (intro exI [of _ "lastSync s2"]) simp
  then show ?thesis using assms
    by (auto simp: Append_def before_write_def rolls_def io_ok_def Let_def split: prod.splits)
qed

lemma Append_repr:
  assumes r: "repr s gs" and io: "io_ok env"
  shows "repr (fst (Append env t ty (Some p) s))
            (add_record (rolls s (Encode (new_record env t ty p s))) (new_record env t ty p s) gs)"
    and "snd (Append env t ty (Some p) s) = Inr (nextSeq s)"
proof -
  let ?r = "new_record env t ty p s"
  let ?b = "Encode ?r"
  have op: "io_open env = OpenOk" using io by (simp add: io_ok_def)
  have seq: "rec_seq ?r = of_nat (nextSeq s)" by (simp add: new_record_def)
  have "repr (fst (Append env t ty (Some p) s)) (add_record (rolls s ?b) ?r gs) \<and>
        snd (Append env t ty (Some p) s) = Inr (nextSeq s)"
    using r
  proof (cases rule: repr_decomp)
    case (1 gs0 rs)
    show ?thesis
    proof (cases "rolls s ?b")
      case True
      define s1 where "s1 = fst (openSegment OpenOk (curSeg s + 1) s)"
      have b: "before_write env ?b s = (s1, None)"
        using True op openSegment_next [OF r] by (simp add: before_write_def s1_def)
      have ks: "fst ` set (disk_of gs) = fst ` set gs"
        using arg_cong [OF map_fst_disk_of [of gs], of set] by (simp only: set_map)
      have "curSeg s + 1 \<notin> fst ` set (disk_of gs)" unfolding ks using 1(1,3) by auto
      then have w: "write_cur None ?b s1 =
          (s1\<lparr>files := disk_of gs @ [(curSeg s + 1, ?b)], cur := Some (curSeg s + 1, length ?b)\<rparr>, True)"
        using write_commit_last [of s1 "curSeg s + 1" "[]" "disk_of gs" ?b] openSegment_next [OF r]
        by (simp add: s1_def)
      obtain l where "Append env t ty (Some p) s = commit ?b
          (s1\<lparr>files := disk_of gs @ [(curSeg s + 1, ?b)], cur := Some (curSeg s + 1, length ?b), lastSync := l\<rparr>)"
        using Append_io_ok [OF io b w] by auto
      moreover have "sorted_wrt (<) (map fst gs @ [curSeg s + 1])"
        using r 1(1,3) by (fastforce simp: repr_def sorted_wrt_append)
      ultimately show ?thesis using True r openSegment_next [OF r] 1(1,8) seq
        by (simp add: commit_def s1_def repr_def add_record_def numbered_append1 numbered_append2)
    next
      case False
      have b: "before_write env ?b s = (s, None)" using False by (simp add: before_write_def)
      note w = write_commit_last [OF 1(6,4,10), of ?b]
      obtain l where "Append env t ty (Some p) s = commit ?b
          (s\<lparr>files := disk_of gs0 @ [(curSeg s, enc_all rs @ ?b)],
             cur := Some (curSeg s, length (enc_all rs) + length ?b), lastSync := l\<rparr>)"
        using Append_io_ok [OF io b w] by auto
      moreover have "sorted_wrt (<) (map fst gs0 @ [curSeg s])"
        using 1(2,3) by (simp add: sorted_wrt_append)
      ultimately show ?thesis using False 1 seq
        by (simp add: commit_def repr_def add_record_def layout_append numbered_append1 numbered_append2)
    qed
  qed
  then show "repr (fst (Append env t ty (Some p) s)) (add_record (rolls s ?b) ?r gs)"
    and "snd (Append env t ty (Some p) s) = Inr (nextSeq s)" by auto
qed

lemma hist_add_record: "gs \<noteq> [] \<Longrightarrow> hist (add_record roll r gs) = hist gs @ [r]"
proof -
  assume "gs \<noteq> []"
  then have "hist gs = hist (butlast gs) @ hist [last gs]"
    by (metis append_butlast_last_id hist_simps(3))
  then show ?thesis by (cases "last gs") (simp add: add_record_def)
qed

section \<open>Scanning is folding over the filtered history\<close>

fun fold_until :: "(jrecord \<Rightarrow> 'a \<Rightarrow> 'a \<times> bool) \<Rightarrow> jrecord list \<Rightarrow> 'a \<Rightarrow> 'a" where
  "fold_until fn [] a = a"
| "fold_until fn (r # rs) a =
     (case fn r a of (a', True) \<Rightarrow> fold_until fn rs a' | (a', False) \<Rightarrow> a')"

lemma scan_seqs_fold:
  assumes "list_all2 (\<lambda>i r. Read s i = Inr r) is rs"
  shows "scan_seqs s f fn is a = (fold_until fn (filter (passes f) rs) a, None)"
  using assms
  by (induction arbitrary: a rule: list_all2_induct) (auto split: prod.split bool.split)

lemma repr_reads_all:
  assumes "repr s gs"
  shows "list_all2 (\<lambda>i r. Read s i = Inr r) [1..<length (keydir s) + 1] (hist gs)"
  using assms
  by (auto simp: list_all2_conv_all_nth Read_repr [OF assms] repr_def nth_upt simp del: upt_Suc)

section \<open>Recovery reads back what was written\<close>

text \<open>A torn tail: nothing, or a proper prefix of some frame (what a crash in a write leaves).\<close>

definition torn :: "byte list \<Rightarrow> bool" where
  "torn j \<longleftrightarrow> j = [] \<or> (\<exists>r. strict_prefix j (Encode r) \<and> length (rec_payload r) < 2 ^ 32)"

text \<open>What recovery refuses: nothing at all, or bytes no first frame of which is accepted.\<close>

definition rejected :: "nat \<Rightarrow> byte list \<Rightarrow> bool" where
  "rejected mx j \<longleftrightarrow> (\<forall>off. scan_segment mx j off = ([], off, j \<noteq> []))"

definition fits :: "options \<Rightarrow> jrecord \<Rightarrow> bool" where
  "fits o' r \<longleftrightarrow> length (rec_payload r) \<le> max_payload o'"

lemma max_payload_bound: "max_payload o' \<le> 16777216"
  by (simp add: max_payload_def)

lemma scan_segment_torn:
  assumes "torn j"
  shows "scan_segment mx j off = ([], off, j \<noteq> [])"
proof (cases "j = []")
  case False
  then obtain r where sp: "strict_prefix j (Encode r)" and len: "length (rec_payload r) < 2 ^ 32"
    using assms by (auto simp: torn_def)
  from sp obtain z where z: "Encode r = j @ z" "z \<noteq> []" by (auto simp: strict_prefix_def prefix_def)
  have lj: "length j < HeaderSize + length (rec_payload r)"
    using arg_cong [OF z(1), of length] z(2) by (simp add: length_Encode)
  show ?thesis
  proof (cases "length j < HeaderSize")
    case True
    then show ?thesis using False by (subst scan_segment.simps) simp
  next
    case c: False
    then have "DecodeHeader (take HeaderSize j) = DecodeHeader (Encode r)"
      using DecodeHeader_take [of HeaderSize "Encode r"] z(1) by (simp add: length_Encode [symmetric])
    then have "unat (hdr_payloadLen (DecodeHeader (take HeaderSize j))) = length (rec_payload r)"
      using DecodeHeader_Encode [of r "[]"] len by (simp add: unat_of_nat take_bit_nat_eq_self)
    then show ?thesis using False c lj by (subst scan_segment.simps) (simp add: Let_def)
  qed
qed (subst scan_segment.simps, simp)

lemma torn_rejected: "torn j \<Longrightarrow> rejected mx j"
  by (simp add: rejected_def scan_segment_torn)

lemma rejected_Nil [simp]: "rejected mx []"
  by (simp add: torn_rejected torn_def)

lemma oversize_rejected:
  assumes "mx < length (rec_payload r)" and "length (rec_payload r) < 2 ^ 32"
  shows "rejected mx (Encode r)"
proof -
  have "DecodeHeader (take HeaderSize (Encode r)) = DecodeHeader (Encode r)"
    by (simp add: DecodeHeader_take length_Encode)
  then have "unat (hdr_payloadLen (DecodeHeader (take HeaderSize (Encode r)))) = length (rec_payload r)"
    using DecodeHeader_Encode [of r "[]"] assms(2) by (simp add: unat_of_nat take_bit_nat_eq_self)
  then show ?thesis unfolding rejected_def
    using assms by (subst scan_segment.simps) (simp add: length_Encode Let_def)
qed

lemma scan_segment_frame:
  assumes "length (rec_payload r) \<le> mx" and "mx < 2 ^ 32"
  shows "scan_segment mx (Encode r @ rest) off =
    (let (locs, e, bad) = scan_segment mx rest (off + length (Encode r))
     in ((off, length (Encode r)) # locs, e, bad))"
proof -
  define b where "b = Encode r @ rest"
  have len: "b \<noteq> []" "length b = HeaderSize + length (rec_payload r) + length rest"
    by (simp_all add: b_def length_Encode)
  then have hd: "DecodeHeader (take HeaderSize b) = DecodeHeader b"
    using DecodeHeader_take [of HeaderSize b] by simp
  have n: "unat (hdr_payloadLen (DecodeHeader b)) = length (rec_payload r)"
    using assms by (simp add: b_def DecodeHeader_Encode unat_of_nat take_bit_nat_eq_self)
  have crc: "crc_update (checksum_ieee (drop 4 (take HeaderSize b)))
      (take (length (rec_payload r)) (drop HeaderSize b)) = hdr_crc (DecodeHeader b)"
    using Encode_crc [of r rest] Encode_split(2) [of r rest] by (simp only: b_def DecodeHeader_Encode header.select_convs)
  have dr: "drop (HeaderSize + length (rec_payload r)) b = rest" by (simp add: b_def length_Encode)
  have "scan_segment mx b off =
    (let (locs, e, bad) = scan_segment mx rest (off + length (Encode r))
     in ((off, length (Encode r)) # locs, e, bad))"
    using assms(1) len by (subst scan_segment.simps) (simp add: hd n crc dr length_Encode Let_def)
  then show ?thesis by (simp only: b_def)
qed

lemma scan_segment_frames:
  assumes "\<forall>r \<in> set rs. length (rec_payload r) \<le> mx" and "mx < 2 ^ 32" and "rejected mx j"
  shows "scan_segment mx (enc_all rs @ j) off =
    (map (\<lambda>loc. (loc_off loc, loc_size loc)) (layout seg off rs), off + length (enc_all rs), j \<noteq> [])"
  using assms(1)
proof (induction rs arbitrary: off)
  case (Cons r rs)
  then show ?case using scan_segment_frame [OF _ assms(2), of r "enc_all rs @ j" off]
    by (simp add: add.assoc)
qed (use assms(3) in \<open>simp add: rejected_def\<close>)

lemma map_layout:
  "map ((\<lambda>(o', n). \<lparr>loc_seg = seg, loc_off = o', loc_size = n\<rparr>) \<circ> (\<lambda>loc. (loc_off loc, loc_size loc)))
     (layout seg off rs) = layout seg off rs"
  by (induction rs arbitrary: off) auto

text \<open>The segments before the last, as \<^verbatim>\<open>recover\<close> goes through them.\<close>

definition recovered :: "store \<Rightarrow> segments \<Rightarrow> disk \<Rightarrow> store" where
  "recovered s gs d =
     s\<lparr>files := d, keydir := keydir s @ keydir_of gs, nextSeq := nextSeq s + length (hist gs),
       curSeg := (if gs = [] then curSeg s else fst (last gs))\<rparr>"

lemma recover_segs_ok:
  assumes "\<forall>r \<in> set (hist gs). fits (opt s) r" and "sorted_wrt (<) (map fst gs)"
    and "\<forall>(seg, rs) \<in> set gs. map_of (files s) seg = Some (enc_all rs)"
  shows "recover_segs tr (map fst gs @ segs) s =
         recover_segs tr segs (recovered s gs (files s))"
  using assms
proof (induction gs arbitrary: s)
  case Nil
  then show ?case by (simp add: recovered_def)
next
  case (Cons g gs)
  obtain seg rs where g: "g = (seg, rs)" by (cases g)
  let ?s1 = "s\<lparr>keydir := keydir s @ layout seg 0 rs, nextSeq := nextSeq s + length rs, curSeg := seg\<rparr>"
  have m: "map_of (files s) seg = Some (enc_all rs)" using Cons.prems(3) g by auto
  have "scan_segment (max_payload (opt s)) (enc_all rs) 0 =
    (map (\<lambda>loc. (loc_off loc, loc_size loc)) (layout seg 0 rs), length (enc_all rs), False)"
    using scan_segment_frames [of rs "max_payload (opt s)" "[]" 0 seg] Cons.prems(1) g
      max_payload_bound [of "opt s"] by (auto simp: fits_def)
  then have step: "recover_segs tr (map fst (g # gs) @ segs) s = recover_segs tr (map fst gs @ segs) ?s1"
    using m g by (simp add: map_layout)
  also have "\<dots> = recover_segs tr segs (recovered ?s1 gs (files s))"
    using Cons.IH [of ?s1] Cons.prems by auto
  also have "recovered ?s1 gs (files s) = recovered s (g # gs) (files s)"
    using g by (simp add: recovered_def)
  finally show ?case .
qed

lemma recover_segs_torn:
  assumes "\<forall>r \<in> set rs. fits (opt s) r" and "rejected (max_payload (opt s)) j" and "map_of (files s) seg = Some (enc_all rs @ j)"
  shows "recover_segs True [seg] s =
    (s\<lparr>files := (if j = [] then files s else AList.update seg (enc_all rs) (files s)),
       keydir := keydir s @ layout seg 0 rs, nextSeq := nextSeq s + length rs, curSeg := seg\<rparr>, None)"
proof -
  have "scan_segment (max_payload (opt s)) (enc_all rs @ j) 0 =
    (map (\<lambda>loc. (loc_off loc, loc_size loc)) (layout seg 0 rs), length (enc_all rs), j \<noteq> [])"
    using scan_segment_frames [of rs "max_payload (opt s)" j 0 seg] assms(1,2)
      max_payload_bound [of "opt s"] by (auto simp: fits_def)
  then show ?thesis using assms(3) by (simp add: map_layout)
qed

definition with_tail :: "segments \<Rightarrow> byte list \<Rightarrow> disk" where
  "with_tail gs j = disk_of (butlast gs) @ [(fst (last gs), enc_all (snd (last gs)) @ j)]"

definition opened_opt :: "options \<Rightarrow> options" where
  "opened_opt o' = (if SegmentMax o' = 0 then o'\<lparr>SegmentMax := 256 * 2 ^ 20\<rparr> else o')"

definition open_env_ok :: "open_env \<Rightarrow> bool" where
  "open_env_ok env \<longleftrightarrow> oe_mkdir env \<and> oe_readdir env \<and> oe_truncate env \<and> oe_open env = OpenOk"

lemma Open_with_tail:
  assumes env: "open_env_ok env" and ne: "gs \<noteq> []" and srt: "sorted_wrt (<) (map fst gs)"
    and fit: "\<forall>r \<in> set (hist gs). fits (opened_opt o') r" and num: "numbered (hist gs)" and tn: "rejected (max_payload (opened_opt o')) j"
  shows "\<exists>s. Open env (with_tail gs j) o' = Inr s \<and> repr s gs \<and> opt s = opened_opt o'"
proof -
  obtain seg rs where l: "last gs = (seg, rs)" by (cases "last gs")
  define gs0 where "gs0 = butlast gs"
  have gs: "gs = gs0 @ [(seg, rs)]" using append_butlast_last_id [OF ne] l by (simp add: gs0_def)
  let ?d = "disk_of gs0 @ [(seg, enc_all rs @ j)]"
  have d: "with_tail gs j = ?d" using l by (simp add: with_tail_def gs0_def)
  let ?s = "\<lparr>files = ?d, opt = opened_opt o', cur = None, curSeg = 0, curOff = 0, nextSeq = 1,
             keydir = [], lastSync = 0\<rparr>"
  have s0: "sorted_wrt (<) (map fst gs0)" and lt: "\<forall>k \<in> fst ` set gs0. k < seg"
    using srt gs by (auto simp: sorted_wrt_append)
  have ks: "fst ` set (disk_of gs0) = fst ` set gs0"
    using arg_cong [OF map_fst_disk_of [of gs0], of set] by (simp only: set_map)
  have seg: "seg \<notin> fst ` set (disk_of gs0)" using lt ks by auto
  have keys: "map fst ?d = map fst gs" using gs by simp
  have dk: "distinct (map fst ?d)" unfolding keys
    using sorted_wrt_less_distinct [of id "map fst gs"] srt by simp
  have sorted: "sort (map fst ?d) = map fst gs0 @ [seg]"
    using keys gs srt by (simp add: sorted_sort_id strict_sorted_imp_sorted)
  have look: "\<forall>(k, rs') \<in> set gs0. map_of (files ?s) k = Some (enc_all rs')"
  proof (clarsimp, goal_cases)
    case (1 k rs')
    have "(k, enc_all rs') \<in> set ?d" using 1 by (force simp: disk_of_def)
    then have "map_of ?d k = Some (enc_all rs')" using dk by (metis map_of_eq_Some_iff)
    then show ?case by simp
  qed
  have r1: "recover True ?s = recover_segs True [seg] (recovered ?s gs0 ?d)"
    using recover_segs_ok [of gs0 ?s True "[seg]"] fit gs s0 look sorted by (simp add: recover_def)
  have m: "map_of ?d seg = Some (enc_all rs @ j)" by (rule map_of_last [OF seg])
  let ?d' = "disk_of gs"
  let ?s1 = "?s\<lparr>files := ?d', keydir := keydir_of gs, nextSeq := Suc (length (hist gs)), curSeg := seg\<rparr>"
  have r2: "recover True ?s = (?s1, None)"
    using recover_segs_torn [of rs "recovered ?s gs0 ?d" j seg] r1 tn fit gs m update_last [OF seg]
    by (simp add: recovered_def)
  have m': "map_of ?d' seg = Some (enc_all rs)" using gs map_of_last [OF seg] by simp
  then have "openSegment OpenOk (curSeg ?s1) ?s1 =
      (?s1\<lparr>cur := Some (seg, length (enc_all rs)), curSeg := seg, curOff := length (enc_all rs)\<rparr>, None)"
    by (simp add: openSegment_def touch_def Let_def)
  then have "Open env ?d o' =
      Inr (?s1\<lparr>cur := Some (seg, length (enc_all rs)), curSeg := seg, curOff := length (enc_all rs)\<rparr>)"
    using env r2 by (simp add: Open_def open_env_ok_def Let_def opened_opt_def [symmetric])
  then show ?thesis
    unfolding d using gs srt num l by (intro exI conjI) (assumption, simp_all add: repr_def)
qed

lemma Open_empty:
  assumes "open_env_ok env"
  shows "\<exists>s. Open env [] o' = Inr s \<and> repr s [(0, [])]"
proof -
  have "recover True \<lparr>files = [], opt = opened_opt o', cur = None, curSeg = 0, curOff = 0,
      nextSeq = 1, keydir = [], lastSync = 0\<rparr> =
    (\<lparr>files = [], opt = opened_opt o', cur = None, curSeg = 0, curOff = 0,
      nextSeq = 1, keydir = [], lastSync = 0\<rparr>, None)"
    by (simp add: recover_def)
  then show ?thesis using assms
    by (simp add: Open_def open_env_ok_def Let_def opened_opt_def [symmetric] openSegment_def
        touch_def repr_def numbered_def)
qed

section \<open>A committed record is never overwritten\<close>

text \<open>
  The open file's position is its end; then a write only appends, whatever fails.
\<close>

definition at_end :: "store \<Rightarrow> bool" where
  "at_end s \<longleftrightarrow>
     (case cur s of None \<Rightarrow> True
      | Some (seg, pos) \<Rightarrow> (case map_of (files s) seg of None \<Rightarrow> False | Some c \<Rightarrow> pos = length c))"

definition extends :: "disk \<Rightarrow> disk \<Rightarrow> bool" where
  "extends d d' \<longleftrightarrow> (\<forall>k c. map_of d k = Some c \<longrightarrow> (\<exists>x. map_of d' k = Some (c @ x)))"

lemma extends_refl [simp, intro]: "extends d d"
  by (simp add: extends_def)

lemma extends_trans: "extends a b \<Longrightarrow> extends b c \<Longrightarrow> extends a c"
  by (simp add: extends_def) (metis append_assoc)

lemma read_at_extends: "extends d d' \<Longrightarrow> read_at d loc = Inr b \<Longrightarrow> read_at d' loc = Inr b"
proof -
  assume e: "extends d d'" and r: "read_at d loc = Inr b"
  obtain c where c: "map_of d (loc_seg loc) = Some c" "loc_off loc + loc_size loc \<le> length c"
    "b = take (loc_size loc) (drop (loc_off loc) c)"
    using r by (auto simp: read_at_def split: option.splits if_splits)
  moreover obtain x where "map_of d' (loc_seg loc) = Some (c @ x)"
    using e c(1) unfolding extends_def by blast
  ultimately show ?thesis by (simp add: read_at_def)
qed

lemma touch_extends [simp]: "extends d (touch seg d)"
  by (auto simp: extends_def touch_def map_add_def split: option.splits)

lemma openSegment_safe:
  "at_end s \<Longrightarrow> at_end (fst (openSegment res seg s)) \<and>
     extends (files s) (files (fst (openSegment res seg s))) \<and>
     keydir (fst (openSegment res seg s)) = keydir s"
proof -
  have "\<exists>c. map_of (touch seg (files s)) seg = Some c"
    by (cases "map_of (files s) seg") (simp_all add: touch_def map_add_def)
  then show ?thesis
    by (auto simp: openSegment_def at_end_def Let_def split: open_result.split)
qed

lemma write_cur_safe:
  "at_end s \<Longrightarrow> at_end (fst (write_cur res b s)) \<and>
     extends (files s) (files (fst (write_cur res b s))) \<and>
     keydir (fst (write_cur res b s)) = keydir s"
  by (auto simp: at_end_def write_cur_def write_at_def extends_def update_conv Let_def
      split: option.splits)

lemma Append_safe:
  assumes "at_end s"
  shows "at_end (fst (Append env t ty p s)) \<and> extends (files s) (files (fst (Append env t ty p s))) \<and>
     (\<exists>ls. keydir (fst (Append env t ty p s)) = keydir s @ ls)"
proof (cases p)
  case None
  then show ?thesis using assms by (simp add: Append_def)
next
  case (Some q)
  define b where "b = Encode (new_record env t ty q s)"
  obtain s1 e where o': "(if rolls s b then openSegment (io_open env) (curSeg s + 1) s else (s, None)) = (s1, e)"
    by (metis surj_pair)
  have a1: "at_end s1 \<and> extends (files s) (files s1) \<and> keydir s1 = keydir s"
    using openSegment_safe [OF assms, of "io_open env" "curSeg s + 1"] o' assms
    by (auto split: if_splits)
  obtain s2 ok where w: "write_cur (io_write env) b s1 = (s2, ok)" by (metis surj_pair)
  have a2: "at_end s2 \<and> extends (files s) (files s2) \<and> keydir s2 = keydir s"
    using write_cur_safe [of s1 "io_write env" b] a1 w by (auto intro: extends_trans)
  have c: "at_end (fst (commit b x)) \<and> files (fst (commit b x)) = files x \<and>
           (\<exists>ls. keydir (fst (commit b x)) = keydir x @ ls)" if "at_end x" for x
    using that by (cases "cur x") (auto simp: commit_def at_end_def)
  have at_l: "at_end (s2\<lparr>lastSync := l\<rparr>)" for l using a2 by (cases "cur s2") (auto simp: at_end_def)
  show ?thesis
    using Some a1 a2 o' w c [of s2] c [OF at_l [of "io_sync_now env"]]
    by (auto simp: Append_def Let_def b_def [symmetric] rolls_def split: option.splits bool.splits)
qed

lemma Read_extends:
  assumes "Read s seq = Inr r" and "extends (files s) (files s')" and "keydir s' = keydir s @ ls"
  shows "Read s' seq = Inr r"
proof -
  have b: "seq \<noteq> 0" "seq \<le> length (keydir s)" using assms(1) by (auto simp: Read_frame split: if_splits)
  then obtain b where "read_at (files s) (keydir s ! (seq - 1)) = Inr b" and f: "read_frame b seq = Inr r"
    using assms(1) by (auto simp: Read_frame split: sum.splits)
  then have "read_at (files s') (keydir s ! (seq - 1)) = Inr b"
    using read_at_extends [OF assms(2)] by blast
  moreover have "keydir s' ! (seq - 1) = keydir s ! (seq - 1)"
    using b assms(3) by (simp add: nth_append)
  ultimately show ?thesis using b f assms(3) by (simp add: Read_frame)
qed

lemma repr_at_end:
  assumes "repr s gs"
  shows "at_end s"
  using assms
proof (cases rule: repr_decomp)
  case (1 gs0 rs)
  then show ?thesis using map_of_last [OF 1(10)] by (simp add: at_end_def)
qed

section \<open>Writes that fail\<close>

definition start_segs :: "bool \<Rightarrow> segments \<Rightarrow> segments" where
  "start_segs roll gs = (if roll then gs @ [(fst (last gs) + 1, [])] else gs)"

lemma start_segs_simps [simp]:
  "hist (start_segs roll gs) = hist gs" "gs \<noteq> [] \<Longrightarrow> start_segs roll gs \<noteq> []"
  by (simp_all add: start_segs_def)

lemma before_write_repr:
  assumes r: "repr s gs" and op: "io_open env = OpenOk"
  shows "\<exists>s1. before_write env b s = (s1, None) \<and> repr s1 (start_segs (rolls s b) gs) \<and>
           opt s1 = opt s \<and> nextSeq s1 = nextSeq s"
  using r
proof (cases rule: repr_decomp)
  case (1 gs0 rs)
  have "sorted_wrt (<) (map fst gs @ [Suc (curSeg s)])"
    using r 1(1,3) by (fastforce simp: repr_def sorted_wrt_append)
  then show ?thesis using r 1(1) op openSegment_next [OF r]
    by (simp add: before_write_def start_segs_def repr_def)
qed

lemma write_cur_tail:
  assumes "repr s gs"
  shows "write_cur res b s =
    (let b' = (case res of None \<Rightarrow> b | Some n \<Rightarrow> take n b)
     in (s\<lparr>files := with_tail gs b', cur := Some (curSeg s, curOff s + length b')\<rparr>, res = None))"
  using assms
proof (cases rule: repr_decomp)
  case (1 gs0 rs)
  then show ?thesis using map_of_last [OF 1(10), of "enc_all rs"] update_last [OF 1(10)]
    by (simp add: write_cur_def write_at_def with_tail_def Let_def)
qed

lemma Append_write_fails:
  assumes "repr s gs" and "io_open env = OpenOk" and "io_write env = Some n"
  shows "\<exists>s'. Append env t ty (Some p) s = (s', Inl ErrWrite) \<and>
    files s' = with_tail (start_segs (rolls s (Encode (new_record env t ty p s))) gs)
                 (take n (Encode (new_record env t ty p s)))"
proof -
  let ?b = "Encode (new_record env t ty p s)"
  obtain s1 where s1: "before_write env ?b s = (s1, None)" "repr s1 (start_segs (rolls s ?b) gs)"
    using before_write_repr [OF assms(1,2)] by blast
  then show ?thesis using assms(3) write_cur_tail [OF s1(2), of "Some n" ?b]
    by (auto simp: Append_def before_write_def rolls_def Let_def split: prod.splits)
qed

lemma torn_take: "n < length (Encode r) \<Longrightarrow> length (rec_payload r) < 2 ^ 32 \<Longrightarrow> torn (take n (Encode r))"
  unfolding torn_def strict_prefix_def
  by (intro disjI2 exI [of _ r]) (auto simp: take_is_prefix dest: arg_cong [where f = length])

lemma repr_sorted: "repr s gs \<Longrightarrow> gs \<noteq> [] \<and> sorted_wrt (<) (map fst gs) \<and> numbered (hist gs)"
  by (simp add: repr_def)

lemma with_tail_Nil: "gs \<noteq> [] \<Longrightarrow> with_tail gs [] = disk_of gs"
proof -
  assume "gs \<noteq> []"
  then have "disk_of gs = disk_of (butlast gs) @ disk_of [last gs]"
    by (metis append_butlast_last_id disk_of_simps(3))
  then show ?thesis by (cases "last gs") (simp add: with_tail_def)
qed

lemma Open_repr_tail:
  assumes "repr s gs" and "open_env_ok env" and "\<forall>r \<in> set (hist gs). fits (opened_opt o') r"
    and "rejected (max_payload (opened_opt o')) j"
  shows "\<exists>s'. Open env (with_tail gs j) o' = Inr s' \<and> repr s' gs"
  using Open_with_tail [OF assms(2) _ _ assms(3) _ assms(4)] repr_sorted [OF assms(1)] by blast

lemma with_tail_add:
  "gs \<noteq> [] \<Longrightarrow> disk_of (add_record roll r gs) = with_tail (start_segs roll gs) (Encode r)"
proof -
  assume ne: "gs \<noteq> []"
  obtain seg rs where "last gs = (seg, rs)" by (cases "last gs")
  then show ?thesis by (simp add: add_record_def with_tail_def start_segs_def)
qed

text \<open>A state whose file is one frame ahead of \<open>curOff\<close>: what a failed sync leaves.\<close>

lemma Append_sync_fails:
  assumes "repr s gs" and "io_open env = OpenOk" and "io_write env = None" and "\<not> io_sync env"
    and "FsyncEvery (opt s) = 0"
  shows "\<exists>s1. Append env t ty (Some p) s =
      (s1\<lparr>files := with_tail (start_segs (rolls s (Encode (new_record env t ty p s))) gs)
                    (Encode (new_record env t ty p s)),
          cur := Some (curSeg s1, curOff s1 + length (Encode (new_record env t ty p s)))\<rparr>, Inl ErrSync) \<and>
      repr s1 (start_segs (rolls s (Encode (new_record env t ty p s))) gs) \<and> opt s1 = opt s"
proof -
  let ?b = "Encode (new_record env t ty p s)"
  obtain s1 where s1: "before_write env ?b s = (s1, None)" "repr s1 (start_segs (rolls s ?b) gs)"
    "opt s1 = opt s"
    using before_write_repr [OF assms(1,2)] by blast
  then show ?thesis using assms(3-5) write_cur_tail [OF s1(2), of None ?b]
    by (intro exI [of _ s1]) (simp add: Append_def before_write_def rolls_def Let_def)
qed

lemma read_past_failed_sync:
  fixes b1 b2
  assumes r: "repr s gs" and len: "length b2 = length b1" and b1: "b1 = Encode r1"
    and s2: "s2 = s\<lparr>files := with_tail gs b1, cur := Some (curSeg s, curOff s + length b1)\<rparr>"
    and s3: "s3 = fst (commit b2 ((fst (write_cur None b2 s2))\<lparr>lastSync := l\<rparr>))"
  shows "Read s3 (nextSeq s) = Inr (r1\<lparr>rec_seq := of_nat (nextSeq s)\<rparr>)"
  using r
proof (cases rule: repr_decomp)
  case (1 gs0 rs)
  have f2: "files s2 = disk_of gs0 @ [(curSeg s, enc_all rs @ b1)]"
    and c2: "cur s2 = Some (curSeg s, length (enc_all rs @ b1))"
    using 1 s2 by (simp_all add: with_tail_def)
  have "fst (write_cur None b2 s2) = s2\<lparr>files := disk_of gs0 @ [(curSeg s, (enc_all rs @ b1) @ b2)],
      cur := Some (curSeg s, length (enc_all rs @ b1) + length b2)\<rparr>"
    using write_commit_last [OF c2 f2 1(10)] by simp
  then have f3: "files s3 = disk_of gs0 @ [(curSeg s, enc_all rs @ b1 @ b2)]"
    and k3: "keydir s3 = keydir s @ [\<lparr>loc_seg = curSeg s, loc_off = length (enc_all rs), loc_size = length b1\<rparr>]"
    using s2 s3 1(5) len by (simp_all add: commit_def)
  have "read_at (files s3) (keydir s3 ! (nextSeq s - 1)) = Inr b1"
    using 1(7,8) k3 f3 map_of_last [OF 1(10), of "enc_all rs @ b1 @ b2"]
    by (simp add: nth_append read_at_def)
  then show ?thesis using 1(7,8) k3 b1 by (simp add: Read_frame read_frame_Encode)
qed

section \<open>The properties of the journal\<close>

text \<open>A store with one record and an environment in which nothing fails, for the witnesses.\<close>

definition ex_record :: jrecord where
  "ex_record = \<lparr>rec_seq = 1, rec_tstamp = 5, rec_type = 1, rec_tenant = 3, rec_payload = [65, 66]\<rparr>"

definition ex_store :: store where
  "ex_store = \<lparr>files = [(0, Encode ex_record)], opt = \<lparr>SegmentMax = 100, FsyncEvery = 0\<rparr>,
     cur = Some (0, 29), curSeg = 0, curOff = 29, nextSeq = 2,
     keydir = [\<lparr>loc_seg = 0, loc_off = 0, loc_size = 29\<rparr>], lastSync = 0\<rparr>"

definition ex_env :: io_env where
  "ex_env = \<lparr>io_now = 7, io_open = OpenOk, io_write = None, io_sync = True, io_sync_now = 8\<rparr>"

definition ex_open :: open_env where
  "ex_open = \<lparr>oe_mkdir = True, oe_readdir = True, oe_truncate = True, oe_open = OpenOk\<rparr>"

lemma repr_ex: "repr ex_store [(0, [ex_record])]"
  by (simp add: repr_def numbered_def ex_store_def ex_record_def length_Encode HeaderSize_def)

lemma ex_simps [simp]:
  "io_ok ex_env" "open_env_ok ex_open" "opt ex_store = \<lparr>SegmentMax = 100, FsyncEvery = 0\<rparr>"
  "curOff ex_store = 29" "nextSeq ex_store = 2" "io_open ex_env = OpenOk" "io_write ex_env = None"
  "rec_tenant ex_record = 3" "rec_type ex_record = 1" "rec_payload ex_record = [65, 66]"
  by (simp_all add: io_ok_def ex_env_def open_env_ok_def ex_open_def ex_store_def ex_record_def)



text \<open>Tenant isolation of the log: on a represented store, Scan with a tenant and type
  filter never fails and calls the callback on exactly the matching records of the history, in
  order of their numbers, until the callback says stop; ScanReverse does the same from the
  newest. A callback never sees another tenant's record.\<close>
theorem Scan_refines:
  assumes "repr s gs"
  shows "Scan s f fn a = (fold_until fn (filter (passes f) (hist gs)) a, None) \<and>
         ScanReverse s f fn a = (fold_until fn (filter (passes f) (rev (hist gs))) a, None)"
proof -
  note all = repr_reads_all [OF assms]
  have "list_all2 (\<lambda>i r. Read s i = Inr r) (rev [1..<length (keydir s) + 1]) (rev (hist gs))"
    using all by (simp only: list_all2_rev)
  then show ?thesis unfolding Scan_def ScanReverse_def
    by (intro conjI scan_seqs_fold all)
qed

theorem Scan_refines_witness:
  "Scan ex_store \<lparr>flt_tenant = Some 3, flt_type = None\<rparr> (\<lambda>r n. (n + 1, True)) (0 :: nat) = (1, None) \<and>
   Scan ex_store \<lparr>flt_tenant = Some 4, flt_type = None\<rparr> (\<lambda>r n. (n + 1, True)) (0 :: nat) = (0, None)"
  using Scan_refines [OF repr_ex, of "\<lparr>flt_tenant = Some 3, flt_type = None\<rparr>" "\<lambda>r n. (n + 1, True)" "0 :: nat"]
    Scan_refines [OF repr_ex, of "\<lparr>flt_tenant = Some 4, flt_type = None\<rparr>" "\<lambda>r n. (n + 1, True)" "0 :: nat"]
  by (simp add: passes_def)

text \<open>Nothing that goes wrong later damages what was committed: from any store whose file
  position is at the end of its file (which every append keeps), an append with any outcome,
  failed opens, seeks, short writes and syncs included, leaves every readable record reading
  the same.\<close>
theorem Append_keeps_reads:
  assumes "at_end s"
  shows "at_end (fst (Append env t ty p s)) \<and>
         (Read s seq = Inr r \<longrightarrow> Read (fst (Append env t ty p s)) seq = Inr r)"
proof -
  obtain ls where "at_end (fst (Append env t ty p s))"
    and x: "extends (files s) (files (fst (Append env t ty p s)))"
    "keydir (fst (Append env t ty p s)) = keydir s @ ls"
    using Append_safe [OF assms] by blast
  then show ?thesis using Read_extends [OF _ x] by blast
qed

theorem Append_keeps_reads_witness:
  "Read (fst (Append (ex_env\<lparr>io_write := Some 5\<rparr>) 3 1 (Some [65]) ex_store)) 1 = Inr ex_record"
  using Append_keeps_reads [OF repr_at_end [OF repr_ex], of "ex_env\<lparr>io_write := Some 5\<rparr>" 3 1 "Some [65]" 1]
    Read_repr [OF repr_ex, of 1] by simp

text \<open>C2. Crash recovery: when an append dies after writing only a part of its frame (also into
  the fresh file of a new segment), opening the directory again truncates the torn frame and
  restores exactly the committed history, whose records all read back.\<close>
theorem Append_crash_recovery:
  assumes "repr s gs" and "\<forall>r \<in> set (hist gs). fits (opened_opt o') r"
    and "io_open env = OpenOk" and "io_write env = Some n"
    and "n < length (Encode (new_record env t ty p s))" and "length p < 2 ^ 32" and "open_env_ok oenv"
  shows "snd (Append env t ty (Some p) s) = Inl ErrWrite \<and>
    (\<exists>s' gs'. Open oenv (files (fst (Append env t ty (Some p) s))) o' = Inr s' \<and>
       repr s' gs' \<and> hist gs' = hist gs \<and> (\<forall>seq. Read s' seq = Read s seq))"
proof -
  let ?b = "Encode (new_record env t ty p s)" and ?gs = "start_segs (rolls s (Encode (new_record env t ty p s))) gs"
  obtain s' where a: "Append env t ty (Some p) s = (s', Inl ErrWrite)"
    "files s' = with_tail ?gs (take n ?b)"
    using Append_write_fails [OF assms(1,3,4), of t ty p] by blast
  obtain s1 where s1: "repr s1 ?gs" using before_write_repr [OF assms(1,3)] by blast
  have "rejected (max_payload (opened_opt o')) (take n ?b)"
    by (intro torn_rejected torn_take) (use assms in \<open>simp_all add: new_record_def\<close>)
  then obtain s2 where o2: "Open oenv (with_tail ?gs (take n ?b)) o' = Inr s2" and r2: "repr s2 ?gs"
    using Open_repr_tail [OF s1 assms(7), of o' "take n ?b"] assms(2)
    by (simp only: start_segs_simps(1)) blast
  have "Read s2 seq = Read s seq" for seq
    using Read_repr [OF r2] Read_repr [OF assms(1)] by simp
  then show ?thesis using a o2 r2 by (auto intro!: exI [of _ s2] exI [of _ ?gs])
qed

theorem Append_crash_recovery_witness:
  "\<exists>s'. Open ex_open (files (fst (Append (ex_env\<lparr>io_write := Some 5\<rparr>) 4 2 (Some [65]) ex_store)))
     \<lparr>SegmentMax = 100, FsyncEvery = 0\<rparr> = Inr s' \<and> Read s' 1 = Inr ex_record"
proof -
  have "\<forall>r \<in> set (hist [(0, [ex_record])]). fits (opened_opt \<lparr>SegmentMax = 100, FsyncEvery = 0\<rparr>) r"
    by (simp add: fits_def max_payload_def opened_opt_def HeaderSize_def)
  then show ?thesis
    using Append_crash_recovery [OF repr_ex, of "\<lparr>SegmentMax = 100, FsyncEvery = 0\<rparr>"
        "ex_env\<lparr>io_write := Some 5\<rparr>" 5 4 2 "[65]" ex_open] Read_repr [OF repr_ex, of 1]
    by (auto simp: length_Encode new_record_def HeaderSize_def)
qed

text \<open>C5. Durability of acknowledged records: a record whose payload is within the recovery
  limit and that Append acknowledged is there after closing and reopening the directory under
  the same options, with the whole history before it.\<close>
theorem Append_durable:
  assumes "repr s gs" and "\<forall>r \<in> set (hist gs). fits (opened_opt o') r" and "io_ok env"
    and "length p \<le> max_payload (opened_opt o')" and "open_env_ok oenv"
  shows "\<exists>s'. Open oenv (files (fst (Append env t ty (Some p) s))) o' = Inr s' \<and>
           Read s' (nextSeq s) = Inr (new_record env t ty p s) \<and>
           (\<forall>seq \<le> length (hist gs). Read s' seq = Read s seq) \<and>
           ReadNextSeq s' = Suc (nextSeq s)"
proof -
  let ?r = "new_record env t ty p s"
  let ?gs = "add_record (rolls s (Encode ?r)) ?r gs"
  have ne: "gs \<noteq> []" using repr_sorted [OF assms(1)] by simp
  have r: "repr (fst (Append env t ty (Some p) s)) ?gs" by (rule Append_repr(1) [OF assms(1,3)])
  have "\<forall>r \<in> set (hist ?gs). fits (opened_opt o') r"
    using assms(2,4) by (simp add: hist_add_record [OF ne] fits_def new_record_def)
  then obtain s' where s': "Open oenv (with_tail ?gs []) o' = Inr s'" and r': "repr s' ?gs"
    using Open_repr_tail [OF r assms(5) _ rejected_Nil] by blast
  have f: "files (fst (Append env t ty (Some p) s)) = with_tail ?gs []"
    using r with_tail_Nil repr_sorted [OF r] by (simp add: repr_def)
  show ?thesis
    using s' f Read_repr [OF r'] Read_repr [OF assms(1)] assms(1) r'
    by (intro exI [of _ s']) (auto simp: hist_add_record [OF ne] nth_append repr_def ReadNextSeq_def)
qed

theorem Append_durable_witness:
  "\<exists>s'. Open ex_open (files (fst (Append ex_env 4 2 (Some [65]) ex_store)))
     \<lparr>SegmentMax = 100, FsyncEvery = 0\<rparr> = Inr s' \<and> Read s' 2 = Inr (new_record ex_env 4 2 [65] ex_store)"
proof -
  have "\<forall>r \<in> set (hist [(0, [ex_record])]). fits (opened_opt \<lparr>SegmentMax = 100, FsyncEvery = 0\<rparr>) r"
    by (simp add: fits_def max_payload_def opened_opt_def HeaderSize_def)
  then show ?thesis
    using Append_durable [OF repr_ex, of "\<lparr>SegmentMax = 100, FsyncEvery = 0\<rparr>" ex_env "[65]" ex_open 4 2]
    by (auto simp: max_payload_def opened_opt_def HeaderSize_def)
qed

text \<open>Corruption is detected: if any one byte of a committed record's frame, header and
  stored checksum included, is changed on disk, reading that record reports corruption and never
  returns wrong data.\<close>
theorem changed_byte_detected:
  assumes "repr s gs" and "0 < seq" and "seq \<le> length (hist gs)"
    and "loc = keydir s ! (seq - 1)" and "map_of (files s) (loc_seg loc) = Some content"
    and "i < loc_size loc" and "b' \<noteq> content ! (loc_off loc + i)"
  shows "Read (s\<lparr>files := AList.update (loc_seg loc) (content[loc_off loc + i := b']) (files s)\<rparr>) seq
         = Inl ErrCorrupt"
proof -
  let ?r = "hist gs ! (seq - 1)" and ?d = "AList.update (loc_seg loc) (content[loc_off loc + i := b']) (files s)"
  have k: "keydir s = keydir_of gs" "files s = disk_of gs" using assms(1) by (auto simp: repr_def)
  have "seq - 1 < length (hist gs)" using assms(2,3) by simp
  from list_all2_nthD2 [OF keydir_of_reads [OF repr_distinct [OF assms(1)]] this]
  have ra: "read_at (files s) loc = Inr (Encode ?r)" using k assms(4) by simp
  then have e: "take (loc_size loc) (drop (loc_off loc) content) = Encode ?r"
    and bnd: "loc_off loc + loc_size loc \<le> length content"
    using assms(5) by (auto simp: read_at_def split: if_splits)
  have li: "i < length (Encode ?r)" using assms(6) bnd arg_cong [OF e, of length] by simp
  have "read_at ?d loc = Inr ((take (loc_size loc) (drop (loc_off loc) content))[i := b'])"
    using bnd by (simp add: read_at_def update_conv drop_update_swap take_update_swap)
  then have ru: "read_at ?d loc = Inr ((Encode ?r)[i := b'])" by (simp only: e)
  have "Encode ?r ! i = content ! (loc_off loc + i)"
    unfolding e [symmetric] using assms(6) bnd by simp
  then have "b' \<noteq> Encode ?r ! i" using assms(7) by simp
  then show ?thesis
    using ru assms(2-4) k read_frame_changed_byte [OF li] by (simp add: Read_frame)
qed

theorem changed_byte_detected_witness:
  "Read (ex_store\<lparr>files := AList.update 0 ((Encode ex_record)[28 := 67]) (files ex_store)\<rparr>) 1 = Inl ErrCorrupt"
proof -
  have "Encode ex_record ! 28 = 66"
    by (simp add: Encode_def frame_body_def nth_append ex_record_def)
  then show ?thesis
    using changed_byte_detected [OF repr_ex, of 1 _ "Encode ex_record" 28 67] by (simp add: ex_store_def)
qed

text \<open>What a failed sync leads to: an append whose sync fails reports the error, but its
  bytes stay in the file while \<open>curOff\<close> is not advanced. The next append of a payload of
  the same length, for any tenant, is acknowledged with the same number, and reading that number
  returns the first, never acknowledged record with its tenant and payload.\<close>
theorem failed_sync_misread:
  assumes "repr s gs" and "io_ok env2" and "io_open env1 = OpenOk" and "io_write env1 = None"
    and "\<not> io_sync env1" and "FsyncEvery (opt s) = 0" and "length p2 = length p1"
    and "int (curOff s) + int (HeaderSize + length p1) \<le> SegmentMax (opt s)"
    and "s2 = fst (Append env1 t1 ty1 (Some p1) s)"
  shows "snd (Append env1 t1 ty1 (Some p1) s) = Inl ErrSync \<and>
         snd (Append env2 t2 ty2 (Some p2) s2) = Inr (nextSeq s) \<and>
         Read (fst (Append env2 t2 ty2 (Some p2) s2)) (nextSeq s) = Inr (new_record env1 t1 ty1 p1 s)"
proof -
  let ?r1 = "new_record env1 t1 ty1 p1 s"
  let ?b1 = "Encode ?r1"
  have nr: "\<not> rolls s ?b1" using assms(8) by (simp add: rolls_def length_Encode new_record_def)
  have w1: "write_cur None ?b1 s =
      (s\<lparr>files := with_tail gs ?b1, cur := Some (curSeg s, curOff s + length ?b1)\<rparr>, True)"
    using write_cur_tail [OF assms(1), of None ?b1] by (simp add: Let_def)
  have a1: "Append env1 t1 ty1 (Some p1) s =
      (s\<lparr>files := with_tail gs ?b1, cur := Some (curSeg s, curOff s + length ?b1)\<rparr>, Inl ErrSync)"
    using nr w1 assms(4-6) by (simp add: Append_def rolls_def Let_def)
  have s2: "s2 = s\<lparr>files := with_tail gs ?b1, cur := Some (curSeg s, curOff s + length ?b1)\<rparr>"
    using assms(9) a1 by simp
  let ?r2 = "new_record env2 t2 ty2 p2 s2"
  have len: "length (Encode ?r2) = length ?b1"
    using assms(7) by (simp add: length_Encode new_record_def)
  have "before_write env2 (Encode ?r2) s2 = (s2, None)"
    using nr len s2 by (simp add: before_write_def rolls_def)
  moreover obtain s3 where w2: "write_cur None (Encode ?r2) s2 = (s3, True)"
    using s2 by (simp add: write_cur_def Let_def)
  ultimately obtain l where a2: "Append env2 t2 ty2 (Some p2) s2 = commit (Encode ?r2) (s3\<lparr>lastSync := l\<rparr>)"
    using Append_io_ok [OF assms(2)] by blast
  have "Read (fst (commit (Encode ?r2) (s3\<lparr>lastSync := l\<rparr>))) (nextSeq s) = Inr (?r1\<lparr>rec_seq := of_nat (nextSeq s)\<rparr>)"
    by (rule read_past_failed_sync [OF assms(1) len refl s2]) (simp add: w2)
  moreover have "nextSeq s3 = nextSeq s" using w2 s2 by (auto simp: write_cur_def Let_def)
  ultimately show ?thesis using a1 a2 by (simp add: commit_def new_record_def)
qed

theorem failed_sync_misread_witness:
  "let s2 = fst (Append (ex_env\<lparr>io_sync := False\<rparr>) 3 1 (Some [65]) ex_store)
   in snd (Append ex_env 4 1 (Some [66]) s2) = Inr 2 \<and>
      Read (fst (Append ex_env 4 1 (Some [66]) s2)) 2 =
        Inr \<lparr>rec_seq = 2, rec_tstamp = 7, rec_type = 1, rec_tenant = 3, rec_payload = [65]\<rparr>"
  using failed_sync_misread [OF repr_ex, of ex_env "ex_env\<lparr>io_sync := False\<rparr>" "[66]" "[65]" _ 3 1 4 1, OF _ _ _ _ _ _ _ refl]
  by (simp add: HeaderSize_def Let_def new_record_def) (simp add: ex_env_def)

text \<open>Append and recovery disagree on the largest record: Append accepts a payload longer
  than recovery's limit (16 MiB, or what fits a segment) and acknowledges it, and the record
  reads back; after reopening the directory it is gone and its number is given out again.\<close>
theorem oversize_lost_on_reopen:
  assumes "repr s gs" and "\<forall>r \<in> set (hist gs). fits (opened_opt o') r" and "io_ok env"
    and "max_payload (opened_opt o') < length p" and "length p < 2 ^ 32" and "open_env_ok oenv"
    and "s1 = fst (Append env t ty (Some p) s)"
  shows "snd (Append env t ty (Some p) s) = Inr (nextSeq s) \<and>
         Read s1 (nextSeq s) = Inr (new_record env t ty p s) \<and>
         (\<exists>s'. Open oenv (files s1) o' = Inr s' \<and>
            Read s' (nextSeq s) = Inl (ErrNotFound (nextSeq s)) \<and> ReadNextSeq s' = nextSeq s)"
proof -
  let ?r = "new_record env t ty p s"
  let ?roll = "rolls s (Encode ?r)"
  have ne: "gs \<noteq> []" using repr_sorted [OF assms(1)] by simp
  have r: "repr s1 (add_record ?roll ?r gs)" using Append_repr(1) [OF assms(1,3)] assms(7) by simp
  obtain s0 where s0: "repr s0 (start_segs ?roll gs)"
    using before_write_repr [OF assms(1)] assms(3) by (auto simp: io_ok_def)
  have "rejected (max_payload (opened_opt o')) (Encode ?r)"
    by (rule oversize_rejected) (use assms(4,5) in \<open>simp_all add: new_record_def\<close>)
  then obtain s' where s': "Open oenv (with_tail (start_segs ?roll gs) (Encode ?r)) o' = Inr s'"
    and r': "repr s' (start_segs ?roll gs)"
    using Open_repr_tail [OF s0 assms(6), of o' "Encode ?r"] assms(2)
    by (simp only: start_segs_simps(1)) blast
  have "files s1 = with_tail (start_segs ?roll gs) (Encode ?r)"
    using r with_tail_add [OF ne] by (simp add: repr_def)
  then show ?thesis
    using s' Append_repr(2) [OF assms(1,3)] Read_repr [OF r] Read_repr [OF r'] assms(1) r'
    by (auto simp: hist_add_record [OF ne] repr_def ReadNextSeq_def)
qed

theorem oversize_lost_on_reopen_witness:
  "\<exists>s'. Open ex_open (files (fst (Append ex_env 4 2 (Some (replicate 74 65)) ex_store)))
     \<lparr>SegmentMax = 100, FsyncEvery = 0\<rparr> = Inr s' \<and> Read s' 2 = Inl (ErrNotFound 2)"
proof -
  have "\<forall>r \<in> set (hist [(0, [ex_record])]). fits (opened_opt \<lparr>SegmentMax = 100, FsyncEvery = 0\<rparr>) r"
    by (simp add: fits_def max_payload_def opened_opt_def HeaderSize_def)
  then show ?thesis
    using oversize_lost_on_reopen [OF repr_ex, of "\<lparr>SegmentMax = 100, FsyncEvery = 0\<rparr>" ex_env
        "replicate 74 65" ex_open _ 4 2, OF _ _ _ _ _ refl]
    by (auto simp: max_payload_def opened_opt_def HeaderSize_def)
qed

end
