(* ===== verification/EventLog.thy ===== *)
theory EventLog
  imports Journal
begin

text \<open>
  The journal as its clients see it: a list of typed records, each with the sequence number, time
  stamp and tenant that \<^verbatim>\<open>Append\<close> gave it. The registry, the semantic memory, the blob store and
  the coordination space share one journal, so the numbers a client's own records get are
  increasing but not consecutive: \<open>el_skip\<close> is another client's append. The JSON coding of the
  payload (\<^verbatim>\<open>MarshalPayload\<close>, \<^verbatim>\<open>UnmarshalPayload\<close>) is the typed event itself.

  The locale \<open>append_log\<close> is the contract of an append-only log; it holds of the typed log and of
  the byte-level journal. The locale \<open>event_sourced\<close> is the contract of a store that keeps its
  state in RAM and rebuilds it from the log when it starts.
\<close>

section \<open>The contract of an append-only log\<close>

locale append_log =
  fixes rep :: "'s \<Rightarrow> 'r list \<Rightarrow> bool"
    and app :: "'e \<Rightarrow> 's \<Rightarrow> 's \<times> nat option"
    and mk :: "'e \<Rightarrow> 's \<Rightarrow> 'r"
    and seq_of :: "'r \<Rightarrow> nat"
    and get :: "'s \<Rightarrow> nat \<Rightarrow> 'r option"
  assumes app_rep: "rep s h \<Longrightarrow> app e s = (s', Some n) \<Longrightarrow> rep s' (h @ [mk e s])"
    and app_seq: "rep s h \<Longrightarrow> app e s = (s', Some n) \<Longrightarrow> seq_of (mk e s) = n"
    and app_fresh: "rep s h \<Longrightarrow> app e s = (s', Some n) \<Longrightarrow> r \<in> set h \<Longrightarrow> seq_of r < n"
    and get_rep: "rep s h \<Longrightarrow> get s n = find (\<lambda>r. seq_of r = n) h"
begin

lemma find_append: "find p (xs @ ys) = (case find p xs of None \<Rightarrow> find p ys | Some x \<Rightarrow> Some x)"
  by (induction xs) auto

text \<open>What an append returns is read back under its number; nothing else changes.\<close>

lemma get_after_app:
  assumes "rep s h" and "app e s = (s', Some n)"
  shows "get s' m = (if m = n then Some (mk e s) else get s m)"
proof -
  have "find (\<lambda>r. seq_of r = n) h = None"
    using app_fresh [OF assms] by (auto simp: find_None_iff)
  then show ?thesis
    using get_rep [OF assms(1), of m] get_rep [OF app_rep [OF assms], of m] app_seq [OF assms]
    by (auto simp: find_append split: option.splits)
qed

fun app_all :: "'e list \<Rightarrow> 's \<Rightarrow> 's \<times> nat list option" where
  "app_all [] s = (s, Some [])"
| "app_all (e # es) s =
     (case app e s of
        (s', None) \<Rightarrow> (s', None)
      | (s', Some n) \<Rightarrow> (case app_all es s' of (s'', ns) \<Rightarrow> (s'', map_option (Cons n) ns)))"

lemma app_all_rep:
  assumes "rep s h" and "app_all es s = (s', Some ns)"
  shows "\<exists>rs. rep s' (h @ rs) \<and> map seq_of rs = ns"
  using assms
proof (induction es arbitrary: s h ns)
  case (Cons e es)
  obtain s1 n where a: "app e s = (s1, Some n)"
    using Cons.prems(2) by (auto split: prod.splits option.splits)
  obtain ns' where b: "app_all es s1 = (s', Some ns')" "ns = n # ns'"
    using Cons.prems(2) a by (auto split: prod.splits)
  obtain rs where "rep s' ((h @ [mk e s]) @ rs)" "map seq_of rs = ns'"
    using Cons.IH [OF app_rep [OF Cons.prems(1) a] b(1)] by blast
  then show ?case using app_seq [OF Cons.prems(1) a] b(2)
    by (intro exI [of _ "mk e s # rs"]) simp
qed (auto intro: exI [of _ "[]"])

end

section \<open>The typed log\<close>

record 'e lrec =
  lr_seq :: nat
  lr_time :: int
  lr_tenant :: tenant
  lr_event :: 'e

record 'e elog =
  el_recs :: "'e lrec list"
  el_next :: nat

definition el_empty :: "'e elog" where
  "el_empty = \<lparr>el_recs = [], el_next = 1\<rparr>"

text \<open>The first argument is the clock reading, or \<open>None\<close> when the append fails.\<close>

definition el_append :: "int option \<Rightarrow> tenant \<Rightarrow> 'e \<Rightarrow> 'e elog \<Rightarrow> 'e elog \<times> nat option" where
  "el_append env t e l =
     (case env of
        None \<Rightarrow> (l, None)
      | Some now \<Rightarrow>
          (\<lparr>el_recs = el_recs l @ [\<lparr>lr_seq = el_next l, lr_time = now, lr_tenant = t, lr_event = e\<rparr>],
            el_next = el_next l + 1\<rparr>, Some (el_next l)))"

definition el_skip :: "nat \<Rightarrow> 'e elog \<Rightarrow> 'e elog" where
  "el_skip k l = l\<lparr>el_next := el_next l + k\<rparr>"

definition el_ok :: "'e elog \<Rightarrow> bool" where
  "el_ok l \<longleftrightarrow> sorted_wrt (<) (map lr_seq (el_recs l)) \<and> (\<forall>r \<in> set (el_recs l). lr_seq r < el_next l) \<and>
     0 < el_next l"

lemma el_ok_empty [simp]: "el_ok el_empty"
  by (simp add: el_ok_def el_empty_def)

lemma el_ok_append [simp]: "el_ok l \<Longrightarrow> el_ok (fst (el_append env t e l))"
  by (auto simp: el_ok_def el_append_def sorted_wrt_append split: option.split)

lemma el_ok_skip [simp]: "el_ok l \<Longrightarrow> el_ok (el_skip k l)"
  by (auto simp: el_ok_def el_skip_def)

lemma el_append_Some:
  "el_append env t e l = (l', Some n) \<longleftrightarrow>
     (\<exists>now. env = Some now \<and> n = el_next l \<and>
        l' = \<lparr>el_recs = el_recs l @ [\<lparr>lr_seq = n, lr_time = now, lr_tenant = t, lr_event = e\<rparr>],
              el_next = n + 1\<rparr>)"
  by (auto simp: el_append_def split: option.splits)

lemma el_append_None: "el_append env t e l = (l', None) \<longleftrightarrow> env = None \<and> l' = l"
  by (auto simp: el_append_def split: option.splits)

definition el_get :: "'e elog \<Rightarrow> nat \<Rightarrow> 'e lrec option" where
  "el_get l n = find (\<lambda>r. lr_seq r = n) (el_recs l)"

text \<open>\<^verbatim>\<open>Scan\<close> with a type filter: the records of one kind, in order.\<close>

definition el_scan :: "('e \<Rightarrow> bool) \<Rightarrow> 'e elog \<Rightarrow> 'e lrec list" where
  "el_scan p l = filter (\<lambda>r. p (lr_event r)) (el_recs l)"

section \<open>Both logs keep the contract\<close>

type_synonym 'e entry_req = "int option \<times> tenant \<times> 'e"

definition typed_app :: "'e entry_req \<Rightarrow> 'e elog \<Rightarrow> 'e elog \<times> nat option" where
  "typed_app = (\<lambda>(env, t, e) l. el_append env t e l)"

definition typed_mk :: "'e entry_req \<Rightarrow> 'e elog \<Rightarrow> 'e lrec" where
  "typed_mk = (\<lambda>(env, t, e) l. \<lparr>lr_seq = el_next l, lr_time = the env, lr_tenant = t, lr_event = e\<rparr>)"

interpretation typed_log: append_log
  "\<lambda>l h. el_ok l \<and> el_recs l = h" typed_app typed_mk lr_seq el_get
proof
  fix l h and e :: "'a entry_req" and l' n
  assume r: "el_ok l \<and> el_recs l = h" and a: "typed_app e l = (l', Some n)"
  show "el_ok l' \<and> el_recs l' = h @ [typed_mk e l]"
    using r a
    by (auto simp: typed_app_def typed_mk_def el_append_Some el_ok_def sorted_wrt_append less_Suc_eq split: prod.splits)
  show "lr_seq (typed_mk e l) = n"
    using a by (auto simp: typed_app_def typed_mk_def el_append_Some split: prod.splits)
next
  fix l h and e :: "'a entry_req" and l' n r
  assume "el_ok l \<and> el_recs l = h" and "typed_app e l = (l', Some n)" and "r \<in> set h"
  then show "lr_seq r < n"
    by (auto simp: typed_app_def el_append_Some el_ok_def split: prod.splits)
next
  fix l :: "'a elog" and h n
  assume "el_ok l \<and> el_recs l = h"
  then show "el_get l n = find (\<lambda>r. lr_seq r = n) h" by (simp add: el_get_def)
qed

type_synonym byte_req = "io_env \<times> tenant \<times> byte \<times> byte list"

definition byte_app :: "byte_req \<Rightarrow> store \<Rightarrow> store \<times> nat option" where
  "byte_app = (\<lambda>(env, t, ty, p) s.
     case Append env t ty (Some p) s of (s', Inr n) \<Rightarrow> (s', Some n) | (s', Inl _) \<Rightarrow> (s', None))"

definition byte_mk :: "byte_req \<Rightarrow> store \<Rightarrow> nat \<times> jrecord" where
  "byte_mk = (\<lambda>(env, t, ty, p) s. (nextSeq s, new_record env t ty p s))"

definition byte_get :: "store \<Rightarrow> nat \<Rightarrow> (nat \<times> jrecord) option" where
  "byte_get s n = (case Read s n of Inl _ \<Rightarrow> None | Inr r \<Rightarrow> Some (n, r))"

definition byte_rep :: "store \<Rightarrow> (nat \<times> jrecord) list \<Rightarrow> bool" where
  "byte_rep s h \<longleftrightarrow> (\<exists>gs. repr s gs \<and> h = enumerate 1 (hist gs))"

text \<open>An append that answers a number met no error, so it is the append of the good case.\<close>

lemma Append_acked:
  assumes "snd (Append env t ty (Some p) s) = Inr n"
  shows "\<exists>env'. io_ok env' \<and> io_now env' = io_now env \<and>
           Append env' t ty (Some p) s = Append env t ty (Some p) s"
proof -
  let ?env = "env\<lparr>io_open := OpenOk, io_write := None, io_sync := True\<rparr>"
  have nr: "new_record ?env t ty p s = new_record env t ty p s" by (simp add: new_record_def)
  define b where "b = Encode (new_record env t ty p s)"
  obtain s1 e where s1: "before_write env b s = (s1, e)" by (metis surj_pair)
  have e: "e = None" using assms s1
    by (cases e) (auto simp: Append_def Let_def before_write_def rolls_def b_def [symmetric])
  obtain s2 ok where s2: "write_cur (io_write env) b s1 = (s2, ok)" by (metis surj_pair)
  have ok: "ok" using assms s1 e s2
    by (cases ok) (auto simp: Append_def Let_def before_write_def rolls_def b_def [symmetric])
  have s1': "before_write ?env b s = (s1, None)" using s1 e
    by (auto simp: before_write_def openSegment_def split: if_splits open_result.splits)
  have s2': "write_cur None b s1 = (s2, True)" using s2 ok
    by (auto simp: write_cur_def split: option.splits)
  have "Append ?env t ty (Some p) s = Append env t ty (Some p) s"
    using assms s1 s1' s2 s2' e ok
    by (simp add: Append_def Let_def before_write_def rolls_def nr b_def [symmetric] split: if_splits)
  moreover have "io_ok ?env" by (simp add: io_ok_def)
  ultimately show ?thesis by (intro exI [of _ ?env]) simp
qed

lemma byte_app_Some:
  assumes "byte_app (env, t, ty, p) s = (s', Some n)" and "repr s gs"
  shows "n = nextSeq s \<and> (\<exists>gs'. repr s' gs' \<and> hist gs' = hist gs @ [new_record env t ty p s])"
proof -
  have a: "Append env t ty (Some p) s = (s', Inr n)"
    using assms(1) by (auto simp: byte_app_def split: prod.splits sum.splits)
  then obtain env' where e: "io_ok env'" "io_now env' = io_now env"
    "Append env' t ty (Some p) s = (s', Inr n)"
    using Append_acked [of env t ty p s n] by auto
  have "new_record env' t ty p s = new_record env t ty p s" using e(2) by (simp add: new_record_def)
  then show ?thesis
    using Append_repr [OF assms(2) e(1), of t ty p] e(3) hist_add_record repr_sorted [OF assms(2)]
    by (metis fst_conv snd_conv sum.inject(2))
qed

lemma find_enumerate:
  "find (\<lambda>r. fst r = n) (enumerate k xs) = (if k \<le> n \<and> n < k + length xs then Some (n, xs ! (n - k)) else None)"
  by (induction xs arbitrary: k) (auto simp: nth_Cons')

interpretation byte_log: append_log byte_rep byte_app byte_mk fst byte_get
proof
  fix s h e s' n
  assume r: "byte_rep s h" and a: "byte_app e s = (s', Some n)"
  obtain env t ty p where e: "e = (env, t, ty, p)" by (cases e)
  obtain gs where gs: "repr s gs" "h = enumerate 1 (hist gs)" using r by (auto simp: byte_rep_def)
  note b = byte_app_Some [OF a [unfolded e] gs(1)]
  have ns: "nextSeq s = Suc (length (hist gs))" using gs(1) by (simp add: repr_def)
  show "byte_rep s' (h @ [byte_mk e s])"
    using b gs ns e by (auto simp: byte_rep_def byte_mk_def enumerate_append_eq)
  show "fst (byte_mk e s) = n" using b e by (simp add: byte_mk_def)
  show "fst r < n" if "r \<in> set h" for r
    using that b gs(2) ns by (auto simp: in_set_enumerate_eq)
next
  fix s h n
  assume "byte_rep s h"
  then obtain gs where gs: "repr s gs" "h = enumerate 1 (hist gs)" by (auto simp: byte_rep_def)
  show "byte_get s n = find (\<lambda>r. fst r = n) h"
    using Read_repr [OF gs(1), of n] gs(2) by (auto simp: byte_get_def find_enumerate)
qed

section \<open>The contract of an event-sourced store\<close>

text \<open>
  \<open>log_of\<close> is what the operation left in the journal, \<open>view\<close> the RAM state, \<open>play\<close> what the
  start-up code does with one record. If every operation moves the RAM state the way the records
  it appended would, then the state is at any time what a restart would rebuild.
\<close>

locale event_sourced =
  fixes step :: "'op \<Rightarrow> 's \<Rightarrow> 's"
    and good :: "'s \<Rightarrow> bool"
    and log_of :: "'s \<Rightarrow> 'r list"
    and view :: "'s \<Rightarrow> 'v"
    and play :: "'r \<Rightarrow> 'v \<Rightarrow> 'v"
    and v0 :: 'v
  assumes step_good: "good s \<Longrightarrow> good (step x s)"
    and step_log: "good s \<Longrightarrow> \<exists>rs. log_of (step x s) = log_of s @ rs \<and> view (step x s) = fold play rs (view s)"
begin

definition run :: "'op list \<Rightarrow> 's \<Rightarrow> 's" where
  "run xs s = fold step xs s"

lemma run_good: "good s \<Longrightarrow> good (run xs s)"
  by (induction xs arbitrary: s) (auto simp: run_def step_good)

lemma run_log:
  assumes "good s"
  shows "\<exists>rs. log_of (run xs s) = log_of s @ rs \<and> view (run xs s) = fold play rs (view s)"
  using assms
proof (induction xs arbitrary: s)
  case (Cons x xs)
  obtain rs where rs: "log_of (step x s) = log_of s @ rs" "view (step x s) = fold play rs (view s)"
    using step_log [OF Cons.prems] by blast
  obtain rs' where rs': "log_of (run xs (step x s)) = log_of (step x s) @ rs'"
    "view (run xs (step x s)) = fold play rs' (view (step x s))"
    using Cons.IH [OF step_good [OF Cons.prems]] by blast
  show ?case using rs rs' by (intro exI [of _ "rs @ rs'"]) (simp add: run_def)
qed (simp add: run_def)

text \<open>A restart rebuilds the state, after any operations.\<close>

lemma replay_run:
  "good s \<Longrightarrow> view s = fold play (log_of s) v0 \<Longrightarrow>
   view (run xs s) = fold play (log_of (run xs s)) v0"
  using run_log [of s xs] by auto

lemma log_grows: "good s \<Longrightarrow> prefix (log_of s) (log_of (run xs s))"
  using run_log [of s xs] by auto

end

end
