(* ===== verification/PathRegistry.thy ===== *)
theory PathRegistry
  imports EventLog
begin

text \<open>
  The path dictionary of \<^verbatim>\<open>sentry/registry.go\<close>: file paths to sequential item ids per tenant,
  persisted as EventPathMap records and rebuilt from them. A Go map is a partial function, a
  missing counter reads 0. An event that does not decode as a PathMapPayload is \<open>BadPathMap\<close>.
\<close>

section \<open>State and operations\<close>

datatype reg_event = PathMap nat gostring | BadPathMap | AccessEv nat gostring

record registry =
  reg_journal :: "reg_event elog"
  reg_paths :: "tenant \<rightharpoonup> gostring \<rightharpoonup> nat"
  reg_nextID :: "tenant \<rightharpoonup> nat"

type_synonym reg_maps = "(tenant \<rightharpoonup> gostring \<rightharpoonup> nat) \<times> (tenant \<rightharpoonup> nat)"

definition get0 :: "('k \<rightharpoonup> nat) \<Rightarrow> 'k \<Rightarrow> nat" where
  "get0 m k = (case m k of None \<Rightarrow> 0 | Some n \<Rightarrow> n)"

definition reg_put :: "tenant \<Rightarrow> gostring \<Rightarrow> nat \<Rightarrow> reg_maps \<Rightarrow> reg_maps" where
  "reg_put t path i = (\<lambda>(ps, ids).
     (let m = (case ps t of None \<Rightarrow> Map.empty | Some m \<Rightarrow> m) in ps(t \<mapsto> m(path \<mapsto> i)),
      if i > get0 ids t then ids(t \<mapsto> i) else ids))"

definition reg_lookup :: "registry \<Rightarrow> tenant \<Rightarrow> gostring \<Rightarrow> nat option" where
  "reg_lookup r t path = (case reg_paths r t of None \<Rightarrow> None | Some m \<Rightarrow> m path)"

definition Resolve :: "int option \<Rightarrow> tenant \<Rightarrow> gostring \<Rightarrow> registry \<Rightarrow> registry \<times> nat option" where
  "Resolve env t path r =
     (case reg_lookup r t path of
        Some i \<Rightarrow> (r, Some i)
      | None \<Rightarrow>
          let i = get0 (reg_nextID r) t + 1
          in case el_append env t (PathMap i path) (reg_journal r) of
               (_, None) \<Rightarrow> (r, None)
             | (l, Some _) \<Rightarrow>
                 case reg_put t path i (reg_paths r, reg_nextID r) of
                   (ps, ids) \<Rightarrow> (r\<lparr>reg_journal := l, reg_paths := ps, reg_nextID := ids\<rparr>, Some i))"

text \<open>The id (0 when it could not be resolved), the sequence number, and whether there is no error.\<close>

definition RecordAccess ::
  "int option \<Rightarrow> int option \<Rightarrow> tenant \<Rightarrow> gostring \<Rightarrow> gostring \<Rightarrow> registry \<Rightarrow> registry \<times> nat \<times> nat \<times> bool" where
  "RecordAccess env1 env2 t path source r =
     (case Resolve env1 t path r of
        (r1, None) \<Rightarrow> (r1, 0, 0, False)
      | (r1, Some i) \<Rightarrow>
          (case el_append env2 t (AccessEv i source) (reg_journal r1) of
             (_, None) \<Rightarrow> (r1, i, 0, False)
           | (l, Some seq) \<Rightarrow> (r1\<lparr>reg_journal := l\<rparr>, i, seq, True)))"

fun is_path_map :: "reg_event \<Rightarrow> bool" where
  "is_path_map (PathMap _ _) = True"
| "is_path_map BadPathMap = True"
| "is_path_map (AccessEv _ _) = False"

fun reg_replay :: "reg_event lrec \<Rightarrow> reg_maps \<Rightarrow> reg_maps" where
  "reg_replay rec m =
     (case lr_event rec of PathMap i path \<Rightarrow> reg_put (lr_tenant rec) path i m | _ \<Rightarrow> m)"

definition NewRegistry :: "reg_event elog \<Rightarrow> registry" where
  "NewRegistry l =
     (case fold reg_replay (el_scan is_path_map l) (Map.empty, Map.empty) of
        (ps, ids) \<Rightarrow> \<lparr>reg_journal = l, reg_paths = ps, reg_nextID = ids\<rparr>)"

section \<open>Event sourcing\<close>

datatype reg_op =
  OpResolve "int option" tenant gostring
| OpRecord "int option" "int option" tenant gostring gostring
| OpOther nat \<comment> \<open>appends of the journal's other clients\<close>

fun reg_step :: "reg_op \<Rightarrow> registry \<Rightarrow> registry" where
  "reg_step (OpResolve env t path) r = fst (Resolve env t path r)"
| "reg_step (OpRecord env1 env2 t path src) r = fst (RecordAccess env1 env2 t path src r)"
| "reg_step (OpOther k) r = r\<lparr>reg_journal := el_skip k (reg_journal r)\<rparr>"

definition reg_view :: "registry \<Rightarrow> reg_maps" where
  "reg_view r = (reg_paths r, reg_nextID r)"

definition reg_log :: "registry \<Rightarrow> reg_event lrec list" where
  "reg_log r = el_scan is_path_map (reg_journal r)"

text \<open>What an operation on a registry does to the dictionary and to its records.\<close>

definition reg_grows :: "registry \<Rightarrow> registry \<Rightarrow> bool" where
  "reg_grows r r' \<longleftrightarrow> (\<exists>rs. reg_log r' = reg_log r @ rs \<and> reg_view r' = fold reg_replay rs (reg_view r))"

lemma reg_grows_refl [simp, intro]: "reg_grows r r"
  by (auto simp: reg_grows_def)

lemma reg_grows_trans: "reg_grows a b \<Longrightarrow> reg_grows b c \<Longrightarrow> reg_grows a c"
  unfolding reg_grows_def by (metis append_assoc fold_append comp_apply)

lemma Resolve_cases:
  obtains (Known) i where "reg_lookup r t path = Some i" "Resolve env t path r = (r, Some i)"
  | (Fails) "reg_lookup r t path = None" "env = None" "Resolve env t path r = (r, None)"
  | (Fresh) now i r' where "reg_lookup r t path = None" "env = Some now"
      "i = get0 (reg_nextID r) t + 1" "Resolve env t path r = (r', Some i)"
      "reg_view r' = reg_put t path i (reg_view r)"
      "reg_log r' = reg_log r @
         [\<lparr>lr_seq = el_next (reg_journal r), lr_time = now, lr_tenant = t, lr_event = PathMap i path\<rparr>]"
proof (cases "reg_lookup r t path")
  case None
  show thesis
  proof (cases env)
    case e: None
    then show thesis using None by (intro Fails) (simp_all add: Resolve_def el_append_def)
  next
    case (Some now)
    let ?i = "get0 (reg_nextID r) t + 1"
    obtain ps ids where p: "reg_put t path ?i (reg_paths r, reg_nextID r) = (ps, ids)"
      by (metis surj_pair)
    let ?r = "r\<lparr>reg_journal := fst (el_append env t (PathMap ?i path) (reg_journal r)),
                reg_paths := ps, reg_nextID := ids\<rparr>"
    show thesis
      by (rule Fresh [of now ?i ?r])
         (use None Some p in \<open>simp_all add: Resolve_def el_append_def reg_view_def reg_log_def el_scan_def\<close>)
  qed
next
  case (Some i)
  then show thesis by (intro Known) (simp_all add: Resolve_def)
qed

lemma Resolve_grows: "reg_grows r (fst (Resolve env t path r))"
  by (rule Resolve_cases [of r t path env]) (auto simp: reg_grows_def)

lemma RecordAccess_grows: "reg_grows r (fst (RecordAccess env1 env2 t path src r))"
proof -
  have "reg_grows r1 (r1\<lparr>reg_journal := l\<rparr>)"
    if "el_append env2 t (AccessEv i src) (reg_journal r1) = (l, Some n)" for r1 l n i
    using that by (auto simp: el_append_Some reg_grows_def reg_log_def el_scan_def reg_view_def)
  then show ?thesis using Resolve_grows [of r env1 t path]
    by (auto simp: RecordAccess_def split: prod.split option.split intro: reg_grows_trans)
qed

interpretation reg_es: event_sourced reg_step "\<lambda>_. True" reg_log reg_view reg_replay "(Map.empty, Map.empty)"
proof
  fix r x
  have "reg_grows r (reg_step x r)"
    by (cases x)
       (simp_all add: Resolve_grows RecordAccess_grows, simp add: reg_grows_def reg_log_def el_scan_def
         el_skip_def reg_view_def)
  then show "\<exists>rs. reg_log (reg_step x r) = reg_log r @ rs \<and> reg_view (reg_step x r) = fold reg_replay rs (reg_view r)"
    by (simp add: reg_grows_def)
qed simp

lemma NewRegistry_view: "reg_view (NewRegistry l) = fold reg_replay (el_scan is_path_map l) (Map.empty, Map.empty)"
  by (simp add: NewRegistry_def reg_view_def split: prod.split)

lemma NewRegistry_idem:
  assumes "reg_view r = fold reg_replay (reg_log r) (Map.empty, Map.empty)"
  shows "NewRegistry (reg_journal r) = r"
  using assms [symmetric] by (cases r) (simp add: NewRegistry_def reg_view_def reg_log_def)

section \<open>The dictionary is a numbering\<close>

text \<open>Per tenant the ids in use are exactly 1 to the counter, each for one path.\<close>

definition reg_wf :: "registry \<Rightarrow> bool" where
  "reg_wf r \<longleftrightarrow> (\<forall>t. bij_betw (\<lambda>p. the (reg_lookup r t p)) {p. reg_lookup r t p \<noteq> None}
                     {1..get0 (reg_nextID r) t})"

lemma reg_put_lookup:
  assumes "reg_view r' = reg_put t path i (reg_view r)"
  shows "reg_lookup r' t' p = (if t' = t \<and> p = path then Some i else reg_lookup r t' p)"
    and "get0 (reg_nextID r') t' = (if t' = t then max i (get0 (reg_nextID r) t) else get0 (reg_nextID r) t')"
  using assms
  by (auto simp: reg_put_def reg_view_def reg_lookup_def get0_def Let_def split: if_splits option.splits)

lemma bij_betw_extend:
  fixes n :: nat
  assumes "bij_betw f A {1..n}" and "x \<notin> A"
  shows "bij_betw (f(x := n + 1)) (insert x A) {1..n + 1}"
proof -
  have "bij_betw (f(x := n + 1)) A {1..n}"
    using assms by (subst bij_betw_cong [of A _ f]) auto
  then have "bij_betw (f(x := n + 1)) (insert x A) (insert (n + 1) {1..n})"
    using assms(2) notIn_Un_bij_betw [of x A "f(x := n + 1)" "{1..n}"] by (simp add: Un_commute)
  moreover have "insert (n + 1) {1..n} = {1..n + 1}" by auto
  ultimately show ?thesis by simp
qed

lemma Resolve_wf:
  assumes "reg_wf r"
  shows "reg_wf (fst (Resolve env t path r))"
proof (rule Resolve_cases [of r t path env])
  fix now i r'
  assume n: "reg_lookup r t path = None" and i: "i = get0 (reg_nextID r) t + 1"
    and r': "Resolve env t path r = (r', Some i)" and v: "reg_view r' = reg_put t path i (reg_view r)"
  note look = reg_put_lookup [OF v]
  have "bij_betw (\<lambda>p. the (reg_lookup r' t' p)) {p. reg_lookup r' t' p \<noteq> None}
          {1..get0 (reg_nextID r') t'}" for t'
  proof (cases "t' = t")
    case True
    let ?f = "\<lambda>p. the (reg_lookup r t p)" and ?A = "{p. reg_lookup r t p \<noteq> None}"
    have "bij_betw (?f(path := i)) (insert path ?A) {1..i}"
      unfolding i using assms n by (intro bij_betw_extend) (simp_all add: reg_wf_def)
    moreover have "(\<lambda>p. the (reg_lookup r' t p)) = ?f(path := i)" by (auto simp: look)
    moreover have "{p. reg_lookup r' t p \<noteq> None} = insert path ?A" by (auto simp: look)
    moreover have "get0 (reg_nextID r') t = i" by (simp add: look i)
    ultimately show ?thesis using True by simp
  next
    case False
    then show ?thesis using assms by (simp add: look reg_wf_def)
  qed
  then show ?thesis using r' by (simp add: reg_wf_def)
qed (use assms in simp_all)

lemma reg_step_wf: "reg_wf r \<Longrightarrow> reg_wf (reg_step x r)"
proof -
  assume r: "reg_wf r"
  have j: "reg_wf (r'\<lparr>reg_journal := l\<rparr>) = reg_wf r'" for r' l
    by (simp add: reg_wf_def reg_lookup_def)
  have "reg_wf (fst (RecordAccess env1 env2 t path src r))" for env1 env2 t path src
    using Resolve_wf [OF r, of env1 t path]
    by (auto simp: RecordAccess_def j split: prod.split option.split)
  then show ?thesis using Resolve_wf [OF r] by (cases x) (simp_all add: r j)
qed

lemma reg_run_wf: "reg_wf r \<Longrightarrow> reg_wf (reg_es.run xs r)"
  by (induction xs arbitrary: r) (simp_all add: reg_es.run_def reg_step_wf)

definition reg_empty :: registry where
  "reg_empty = \<lparr>reg_journal = el_empty, reg_paths = Map.empty, reg_nextID = Map.empty\<rparr>"

lemma reg_wf_empty: "reg_wf reg_empty"
  by (simp add: reg_wf_def reg_empty_def reg_lookup_def get0_def bij_betw_def)

lemma Resolve_monotone:
  assumes "reg_lookup r t p = Some i"
  shows "reg_lookup (fst (Resolve env t' p' r)) t p = Some i"
  by (rule Resolve_cases [of r t' p' env]) (use assms in \<open>auto simp: reg_put_lookup(1)\<close>)

lemma reg_step_monotone: "reg_lookup r t p = Some i \<Longrightarrow> reg_lookup (reg_step x r) t p = Some i"
proof -
  assume a: "reg_lookup r t p = Some i"
  have j: "reg_lookup (r'\<lparr>reg_journal := l\<rparr>) = reg_lookup r'" for r' l
    by (simp add: reg_lookup_def fun_eq_iff)
  have "reg_lookup (fst (RecordAccess env1 env2 t' p' src r)) t p = Some i" for env1 env2 t' p' src
    using Resolve_monotone [OF a, of env1 t' p']
    by (auto simp: RecordAccess_def j split: prod.split option.split)
  then show ?thesis using Resolve_monotone [OF a] by (cases x) (simp_all add: a j)
qed

lemma reg_run_monotone: "reg_lookup r t p = Some i \<Longrightarrow> reg_lookup (reg_es.run xs r) t p = Some i"
  by (induction xs arbitrary: r) (simp_all add: reg_es.run_def reg_step_monotone)

lemma reg_run_restored:
  "NewRegistry (reg_journal (fold reg_step xs reg_empty)) = fold reg_step xs reg_empty"
proof -
  have "reg_view reg_empty = fold reg_replay (reg_log reg_empty) (Map.empty, Map.empty)"
    by (simp add: reg_view_def reg_empty_def reg_log_def el_scan_def el_empty_def)
  then show ?thesis
    using reg_es.replay_run [of reg_empty xs] by (intro NewRegistry_idem) (simp add: reg_es.run_def)
qed

section \<open>The properties of the dictionary\<close>

text \<open>A restart loses nothing: after any sequence of operations from the empty journal, with
  any appends failing, rebuilding the registry from the journal gives exactly the registry in
  RAM.\<close>
theorem NewRegistry_restores:
  "NewRegistry (reg_journal (fold reg_step xs reg_empty)) = fold reg_step xs reg_empty"
  by (rule reg_run_restored)

text \<open>Ids are stable and unambiguous: after any operations the ids of a tenant's paths are
  exactly 1 to its counter without gaps and no two paths share one, and a path that was resolved
  once keeps its id through any further operations and a restart.\<close>
theorem Resolve_stable:
  "let r = fold reg_step xs reg_empty; r1 = fst (Resolve env t path r); r2 = fold reg_step ys r1
   in bij_betw (\<lambda>p. the (reg_lookup r t p)) {p. reg_lookup r t p \<noteq> None} {1..get0 (reg_nextID r) t} \<and>
      (\<forall>i. snd (Resolve env t path r) = Some i \<longrightarrow>
         snd (Resolve env' t path r2) = Some i \<and>
         snd (Resolve env' t path (NewRegistry (reg_journal r2))) = Some i)"
proof -
  define r where "r = fold reg_step xs reg_empty"
  define r2 where "r2 = fold reg_step ys (fst (Resolve env t path r))"
  have "r2 = fold reg_step (xs @ OpResolve env t path # ys) reg_empty"
    by (simp add: r2_def r_def)
  then have nr: "NewRegistry (reg_journal r2) = r2"
    by (simp only: reg_run_restored)
  have wf: "reg_wf r" using reg_run_wf [OF reg_wf_empty, of xs] by (simp add: r_def reg_es.run_def)
  have "snd (Resolve env' t path r2) = Some i" if "snd (Resolve env t path r) = Some i" for i
  proof -
    have "reg_lookup (fst (Resolve env t path r)) t path = Some i"
      by (rule Resolve_cases [of r t path env]) (use that in \<open>auto simp: reg_put_lookup(1)\<close>)
    then have "reg_lookup r2 t path = Some i"
      using reg_run_monotone [of "fst (Resolve env t path r)" t path i ys]
      by (simp add: r2_def reg_es.run_def)
    then show ?thesis by (simp add: Resolve_def)
  qed
  then show ?thesis using wf nr by (simp add: Let_def r_def [symmetric] r2_def [symmetric] reg_wf_def)
qed

theorem Resolve_stable_witness:
  "snd (Resolve None 1 ''a'' (NewRegistry (reg_journal (fold reg_step [OpResolve (Some 5) 1 ''b'', OpOther 3]
     (fst (Resolve (Some 4) 1 ''a'' reg_empty)))))) = Some 1"
proof -
  have "snd (Resolve (Some 4) 1 ''a'' reg_empty) = Some 1"
    by (simp add: Resolve_def reg_lookup_def reg_empty_def get0_def el_append_def Let_def split: prod.split)
  then show ?thesis
    using Resolve_stable [of "[]" "Some 4" 1 "''a''" "[OpResolve (Some 5) 1 ''b'', OpOther 3]" None]
    by (simp add: Let_def)
qed

end
