(* ===== verification/Memory.thy ===== *)
theory Memory
  imports EventLog
begin

text \<open>
  The semantic memory of \<^verbatim>\<open>memory/memory.go\<close>: texts with their vectors in RAM, persisted as
  EventMemory records and EventForget tombstones, searched exactly. A float is a value of a type
  with the arithmetic of the source and a linear order (no NaN); nothing is assumed about
  rounding. The embedder is code outside this package: what it answered (\<open>None\<close>: an error)
  is an argument of the operations.
\<close>

section \<open>State\<close>

record 'f mem_payload =
  mp_id :: nat
  mp_text :: gostring
  mp_vector :: "'f list"
  mp_tags :: "gostring list"
  mp_source :: gostring
  mp_supersedes :: nat

record 'f mem_entry =
  me_tenant :: tenant
  me_mem :: "'f mem_payload"

record 'f mem_result =
  mr_id :: nat
  mr_text :: gostring
  mr_tags :: "gostring list"
  mr_source :: gostring
  mr_score :: 'f

datatype 'f mem_event = MemEv "'f mem_payload" | BadMemEv | ForgetEv nat | BadForgetEv

datatype mem_error = EmbedFailed | BadEmbedding nat | AppendFailed | DecodeFailed nat | BadDim nat nat nat

record 'f mem_store =
  ms_journal :: "'f mem_event elog"
  ms_dim :: nat
  ms_entries :: "'f mem_entry list"
  ms_nextID :: nat
  DedupThreshold :: 'f
  RecallGap :: 'f

section \<open>Operations\<close>

definition is_entry :: "tenant \<Rightarrow> nat \<Rightarrow> 'f mem_entry \<Rightarrow> bool" where
  "is_entry t i e \<longleftrightarrow> me_tenant e = t \<and> mp_id (me_mem e) = i"

definition dropEntry :: "tenant \<Rightarrow> nat \<Rightarrow> 'f mem_entry list \<Rightarrow> 'f mem_entry list" where
  "dropEntry t i es = remove_first (is_entry t i) es"

fun hasEntry :: "tenant \<Rightarrow> nat \<Rightarrow> 'f mem_entry list \<Rightarrow> bool" where
  "hasEntry t i [] = False"
| "hasEntry t i (e # es) = (is_entry t i e \<or> hasEntry t i es)"

fun norm_loop :: "gostring list \<Rightarrow> gostring list \<Rightarrow> gostring list" where
  "norm_loop [] out = out"
| "norm_loop (t # ts) out =
     (let n = to_lower (trim_space t)
      in if n = [] \<or> n \<in> set out then norm_loop ts out else norm_loop ts (out @ [n]))"

definition normalizeTags :: "gostring list \<Rightarrow> gostring list" where
  "normalizeTags tags = norm_loop tags []"

fun sq_loop :: "'f::{plus,minus,times} list \<Rightarrow> 'f list \<Rightarrow> 'f \<Rightarrow> 'f" where
  "sq_loop (a # as) (b # bs) d = (let diff = a - b in sq_loop as bs (d + diff * diff))"
| "sq_loop _ _ d = d"

definition sqL2 :: "'f::{plus,minus,times,zero} list \<Rightarrow> 'f list \<Rightarrow> 'f" where
  "sqL2 a b = sq_loop a b 0"

text \<open>The nearest entry of the tenant, the first of equally near ones.\<close>

fun nearest ::
  "tenant \<Rightarrow> 'f::{plus,minus,times,zero,linorder} list \<Rightarrow> 'f mem_entry list \<Rightarrow> (nat \<times> 'f) option \<Rightarrow> (nat \<times> 'f) option" where
  "nearest t v [] best = best"
| "nearest t v (e # es) best =
     (if me_tenant e \<noteq> t then nearest t v es best
      else let d = sqL2 v (mp_vector (me_mem e))
        in case best of
             None \<Rightarrow> nearest t v es (Some (mp_id (me_mem e), d))
           | Some (_, bd) \<Rightarrow>
               nearest t v es (if d < bd then Some (mp_id (me_mem e), d) else best))"

record remember_opts =
  ro_tags :: "gostring list"
  ro_src :: gostring
  ro_supersedes :: nat
  ro_force :: bool

text \<open>\<^verbatim>\<open>Embed\<close> answers the vectors, of which exactly one of the right dimension is accepted.\<close>

definition check_embedding :: "nat \<Rightarrow> 'f list list option \<Rightarrow> mem_error + 'f list" where
  "check_embedding dim vecs =
     (case vecs of
        None \<Rightarrow> Inl EmbedFailed
      | Some [v] \<Rightarrow> if length v = dim then Inr v else Inl (BadEmbedding 1)
      | Some vs \<Rightarrow> Inl (BadEmbedding (length vs)))"

definition new_payload :: "nat \<Rightarrow> gostring \<Rightarrow> 'f list \<Rightarrow> remember_opts \<Rightarrow> nat \<Rightarrow> 'f mem_payload" where
  "new_payload i body v opts old =
     \<lparr>mp_id = i, mp_text = body, mp_vector = v, mp_tags = normalizeTags (ro_tags opts),
      mp_source = ro_src opts, mp_supersedes = old\<rparr>"

text \<open>The answer of Remember: the id, whether it was a duplicate, the superseded id.\<close>

definition Remember ::
  "'f::{plus,minus,times,zero,linorder} list list option \<Rightarrow> int option \<Rightarrow> tenant \<Rightarrow> gostring \<Rightarrow>
   remember_opts \<Rightarrow> 'f mem_store \<Rightarrow> 'f mem_store \<times> (mem_error + nat \<times> bool \<times> nat)" where
  "Remember vecs env t body opts s =
     (case check_embedding (ms_dim s) vecs of
        Inl e \<Rightarrow> (s, Inl e)
      | Inr v \<Rightarrow>
          if ro_supersedes opts \<noteq> 0 \<and> hasEntry t (ro_supersedes opts) (ms_entries s) then
            let p = new_payload (ms_nextID s) body v opts (ro_supersedes opts)
            in case el_append env t (MemEv p) (ms_journal s) of
                 (_, None) \<Rightarrow> (s, Inl AppendFailed)
               | (l, Some _) \<Rightarrow>
                   (s\<lparr>ms_journal := l,
                      ms_entries := dropEntry t (ro_supersedes opts) (ms_entries s) @ [\<lparr>me_tenant = t, me_mem = p\<rparr>],
                      ms_nextID := ms_nextID s + 1\<rparr>,
                    Inr (mp_id p, False, ro_supersedes opts))
          else
            let hit = (if \<not> ro_force opts \<and> DedupThreshold s > 0
                       then case nearest t v (ms_entries s) None of
                              None \<Rightarrow> None
                            | Some (i, d) \<Rightarrow> if d < DedupThreshold s then Some i else None
                       else None)
            in case hit of
                 Some i \<Rightarrow> (s, Inr (i, True, 0))
               | None \<Rightarrow>
                   let p = new_payload (ms_nextID s) body v opts 0
                   in case el_append env t (MemEv p) (ms_journal s) of
                        (_, None) \<Rightarrow> (s, Inl AppendFailed)
                      | (l, Some _) \<Rightarrow>
                          (s\<lparr>ms_journal := l, ms_entries := ms_entries s @ [\<lparr>me_tenant = t, me_mem = p\<rparr>],
                             ms_nextID := ms_nextID s + 1\<rparr>, Inr (mp_id p, False, 0)))"

definition Forget :: "int option \<Rightarrow> tenant \<Rightarrow> nat \<Rightarrow> 'f mem_store \<Rightarrow> 'f mem_store \<times> (mem_error + bool)" where
  "Forget env t i s =
     (if \<not> hasEntry t i (ms_entries s) then (s, Inr False)
      else case el_append env t (ForgetEv i) (ms_journal s) of
             (_, None) \<Rightarrow> (s, Inl AppendFailed)
           | (l, Some _) \<Rightarrow>
               (s\<lparr>ms_journal := l, ms_entries := dropEntry t i (ms_entries s)\<rparr>, Inr True))"

definition score_entry :: "'f::{plus,minus,times,zero} list \<Rightarrow> 'f mem_entry \<Rightarrow> 'f mem_result" where
  "score_entry q e =
     \<lparr>mr_id = mp_id (me_mem e), mr_text = mp_text (me_mem e), mr_tags = mp_tags (me_mem e),
      mr_source = mp_source (me_mem e), mr_score = sqL2 q (mp_vector (me_mem e))\<rparr>"

text \<open>The relevance cliff: the first position whose score exceeds the previous one's by the ratio.\<close>

fun cut_gap :: "'f::{times,linorder} \<Rightarrow> 'f mem_result list \<Rightarrow> 'f mem_result list" where
  "cut_gap g (a # b # rest) = (if mr_score b > mr_score a * g then [a] else a # cut_gap g (b # rest))"
| "cut_gap g rs = rs"

text \<open>\<^verbatim>\<open>sort.Slice\<close> by score, then id; ids are distinct, so the order is determined.\<close>

definition Recall ::
  "'f::{plus,minus,times,zero,one,linorder} list list option \<Rightarrow> tenant \<Rightarrow> int \<Rightarrow> 'f mem_store \<Rightarrow>
   mem_error + 'f mem_result list" where
  "Recall vecs t k s =
     (if k \<le> 0 then Inr []
      else case check_embedding (ms_dim s) vecs of
             Inl e \<Rightarrow> Inl e
           | Inr q \<Rightarrow>
               let scored = sort_key (\<lambda>r. (mr_score r, mr_id r))
                              (map (score_entry q) (filter (\<lambda>e. me_tenant e = t) (ms_entries s)));
                   top = take (nat k) scored
               in Inr (if RecallGap s > 1 then cut_gap (RecallGap s) top else top))"

definition ListMems :: "tenant \<Rightarrow> 'f mem_store \<Rightarrow> 'f mem_payload list" where
  "ListMems t s = map me_mem (filter (\<lambda>e. me_tenant e = t) (ms_entries s))"

definition CountMems :: "tenant \<Rightarrow> 'f mem_store \<Rightarrow> nat" where
  "CountMems t s = fold (\<lambda>e n. if me_tenant e = t then n + 1 else n) (ms_entries s) 0"

section \<open>Rebuilding the index\<close>

fun replay_mems :: "nat \<Rightarrow> 'f mem_event lrec list \<Rightarrow> 'f mem_entry list \<times> nat \<Rightarrow> mem_error + 'f mem_entry list \<times> nat" where
  "replay_mems dim [] st = Inr st"
| "replay_mems dim (r # rs) (es, nid) =
     (case lr_event r of
        MemEv p0 \<Rightarrow>
          if length (mp_vector p0) \<noteq> dim then Inl (BadDim (length (mp_vector p0)) dim (mp_id p0))
          else let p = p0\<lparr>mp_tags := normalizeTags (mp_tags p0)\<rparr>;
                   es1 = es @ [\<lparr>me_tenant = lr_tenant r, me_mem = p\<rparr>];
                   nid1 = (if mp_id p \<ge> nid then mp_id p + 1 else nid);
                   es2 = (if mp_supersedes p \<noteq> 0 then dropEntry (lr_tenant r) (mp_supersedes p) es1 else es1)
               in replay_mems dim rs (es2, nid1)
      | BadMemEv \<Rightarrow> Inl (DecodeFailed (lr_seq r))
      | _ \<Rightarrow> replay_mems dim rs (es, nid))"

fun replay_forgets :: "'f mem_event lrec list \<Rightarrow> 'f mem_entry list \<Rightarrow> mem_error + 'f mem_entry list" where
  "replay_forgets [] es = Inr es"
| "replay_forgets (r # rs) es =
     (case lr_event r of
        ForgetEv i \<Rightarrow> replay_forgets rs (dropEntry (lr_tenant r) i es)
      | BadForgetEv \<Rightarrow> Inl (DecodeFailed (lr_seq r))
      | _ \<Rightarrow> replay_forgets rs es)"

fun is_mem_ev :: "'f mem_event \<Rightarrow> bool" where
  "is_mem_ev (MemEv _) = True" | "is_mem_ev BadMemEv = True" | "is_mem_ev _ = False"

fun is_forget_ev :: "'f mem_event \<Rightarrow> bool" where
  "is_forget_ev (ForgetEv _) = True" | "is_forget_ev BadForgetEv = True" | "is_forget_ev _ = False"

text \<open>\<^verbatim>\<open>New\<close>: the thresholds are set by the caller afterwards and are 0 here.\<close>

definition NewMemory :: "'f mem_event elog \<Rightarrow> nat \<Rightarrow> mem_error + ('f::zero) mem_store" where
  "NewMemory l dim =
     (case replay_mems dim (el_scan is_mem_ev l) ([], 1) of
        Inl e \<Rightarrow> Inl e
      | Inr (es, nid) \<Rightarrow>
          (case replay_forgets (el_scan is_forget_ev l) es of
             Inl e \<Rightarrow> Inl e
           | Inr es' \<Rightarrow>
               Inr \<lparr>ms_journal = l, ms_dim = dim, ms_entries = es', ms_nextID = nid,
                    DedupThreshold = 0, RecallGap = 0\<rparr>))"

section \<open>Facts about the operations\<close>

lemma hasEntry_iff: "hasEntry t i es \<longleftrightarrow> (\<exists>e \<in> set es. is_entry t i e)"
  by (induction es) auto

definition ids_of :: "'f mem_entry list \<Rightarrow> nat list" where
  "ids_of es = map (\<lambda>e. mp_id (me_mem e)) es"

lemma dropEntry_filter: "distinct (ids_of es) \<Longrightarrow> dropEntry t i es = filter (\<lambda>e. \<not> is_entry t i e) es"
  unfolding dropEntry_def ids_of_def
  by (rule remove_first_filter [where f = "\<lambda>e. mp_id (me_mem e)"]) (auto simp: is_entry_def)

definition canonical :: "gostring \<Rightarrow> bool" where
  "canonical n \<longleftrightarrow> n \<noteq> [] \<and> to_lower (trim_space n) = n"

lemma norm_loop_Cons:
  "norm_loop (t # ts) out =
     (if canonical (to_lower (trim_space t)) \<and> to_lower (trim_space t) \<notin> set out
      then norm_loop ts (out @ [to_lower (trim_space t)]) else norm_loop ts out)"
  by (simp add: Let_def canonical_def canon_idem)

lemma norm_loop_spec:
  assumes "distinct out" and "\<forall>n \<in> set out. canonical n"
  shows "distinct (norm_loop ts out) \<and> (\<forall>n \<in> set (norm_loop ts out). canonical n)"
  using assms
proof (induction ts arbitrary: out)
  case (Cons t ts)
  then show ?case using Cons.IH [of "out @ [to_lower (trim_space t)]"] Cons.IH [of out]
    by (simp del: norm_loop.simps add: norm_loop_Cons)
qed simp

lemma set_norm_loop:
  "n \<in> set (norm_loop ts out) \<longleftrightarrow>
     n \<in> set out \<or> canonical n \<and> (\<exists>t \<in> set ts. n = to_lower (trim_space t))"
proof (induction ts arbitrary: out)
  case (Cons t ts)
  show ?case
    unfolding norm_loop_Cons using Cons.IH [of out] Cons.IH [of "out @ [to_lower (trim_space t)]"]
    by (cases "canonical (to_lower (trim_space t)) \<and> to_lower (trim_space t) \<notin> set out") auto
qed simp

lemma norm_loop_id:
  assumes "distinct (out @ ts)" and "\<forall>n \<in> set ts. canonical n"
  shows "norm_loop ts out = out @ ts"
  using assms by (induction ts arbitrary: out) (simp_all add: Let_def canonical_def)

lemma normalizeTags_idem [simp]: "normalizeTags (normalizeTags ts) = normalizeTags ts"
  using norm_loop_id [of "[]" "normalizeTags ts"] norm_loop_spec [of "[]" ts]
  by (simp add: normalizeTags_def)

lemma nearest_spec:
  fixes v :: "'f::{plus,minus,times,zero,linorder} list"
  assumes "nearest t v es None = res"
  shows "case res of
      None \<Rightarrow> \<forall>e \<in> set es. me_tenant e \<noteq> t
    | Some (i, d) \<Rightarrow> (\<exists>e \<in> set es. is_entry t i e \<and> sqL2 v (mp_vector (me_mem e)) = d) \<and>
                     (\<forall>e \<in> set es. me_tenant e = t \<longrightarrow> d \<le> sqL2 v (mp_vector (me_mem e)))"
proof -
  let ?d = "\<lambda>e. sqL2 v (mp_vector (me_mem e))"
  have some: "\<exists>i' d'. nearest t v es (Some (i, d)) = Some (i', d') \<and> d' \<le> d \<and>
      ((i', d') = (i, d) \<or> (\<exists>e \<in> set es. is_entry t i' e \<and> ?d e = d')) \<and>
      (\<forall>e \<in> set es. me_tenant e = t \<longrightarrow> d' \<le> ?d e)" for i d es
  proof (induction es arbitrary: i d)
    case (Cons e es)
    show ?case
    proof (cases "me_tenant e = t \<and> ?d e < d")
      case True
      then have n: "nearest t v (e # es) (Some (i, d)) = nearest t v es (Some (mp_id (me_mem e), ?d e))"
        by (simp add: Let_def)
      obtain i' d' where r: "nearest t v es (Some (mp_id (me_mem e), ?d e)) = Some (i', d')" "d' \<le> ?d e"
        "(i', d') = (mp_id (me_mem e), ?d e) \<or> (\<exists>x \<in> set es. is_entry t i' x \<and> ?d x = d')"
        "\<forall>x \<in> set es. me_tenant x = t \<longrightarrow> d' \<le> ?d x"
        using Cons.IH [of "mp_id (me_mem e)" "?d e"] by blast
      have "\<exists>x \<in> set (e # es). is_entry t i' x \<and> ?d x = d'"
        using r(3) True by (auto simp: is_entry_def)
      moreover have "d' \<le> d" using r(2) True by (meson less_imp_le order_trans)
      ultimately show ?thesis using n r by (intro exI [of _ i'] exI [of _ d']) simp
    next
      case False
      then have n: "nearest t v (e # es) (Some (i, d)) = nearest t v es (Some (i, d))"
        by (simp add: Let_def)
      obtain i' d' where r: "nearest t v es (Some (i, d)) = Some (i', d')" "d' \<le> d"
        "(i', d') = (i, d) \<or> (\<exists>x \<in> set es. is_entry t i' x \<and> ?d x = d')"
        "\<forall>x \<in> set es. me_tenant x = t \<longrightarrow> d' \<le> ?d x"
        using Cons.IH [of i d] by blast
      have "me_tenant e = t \<longrightarrow> d' \<le> ?d e" using False r(2) by auto
      then show ?thesis using n r by (intro exI [of _ i'] exI [of _ d']) (auto simp del: nearest.simps)
    qed
  qed simp
  show ?thesis using assms
  proof (induction es)
    case (Cons e es)
    show ?case
    proof (cases "me_tenant e = t")
      case True
      have "nearest t v (e # es) None = nearest t v es (Some (mp_id (me_mem e), ?d e))"
        using True by (simp add: Let_def)
      moreover obtain i' d' where n: "nearest t v es (Some (mp_id (me_mem e), ?d e)) = Some (i', d')"
        and le: "d' \<le> ?d e" and all: "\<forall>x \<in> set es. me_tenant x = t \<longrightarrow> d' \<le> ?d x"
        and ex: "(i', d') = (mp_id (me_mem e), ?d e) \<or> (\<exists>x \<in> set es. is_entry t i' x \<and> ?d x = d')"
        using some [of es "mp_id (me_mem e)" "?d e"] by blast
      moreover have "\<exists>x \<in> set (e # es). is_entry t i' x \<and> ?d x = d'"
        using ex True by (auto simp: is_entry_def)
      moreover have "\<forall>x \<in> set (e # es). me_tenant x = t \<longrightarrow> d' \<le> ?d x"
        using all le by simp
      ultimately show ?thesis using Cons.prems by (simp del: nearest.simps)
    next
      case False
      then show ?thesis using Cons by (auto split: option.splits)
    qed
  qed auto
qed

text \<open>The three ways Remember ends.\<close>

definition added :: "'f mem_event elog \<Rightarrow> tenant \<Rightarrow> 'f mem_payload \<Rightarrow> 'f mem_store \<Rightarrow> 'f mem_store" where
  "added l t p s =
     s\<lparr>ms_journal := l,
       ms_entries := (if mp_supersedes p \<noteq> 0 then dropEntry t (mp_supersedes p) (ms_entries s) else ms_entries s)
                     @ [\<lparr>me_tenant = t, me_mem = p\<rparr>],
       ms_nextID := ms_nextID s + 1\<rparr>"

lemma Remember_cases:
  obtains (Failed) e where "Remember vecs env t body opts s = (s, Inl e)"
  | (Duplicate) v i d where "Remember vecs env t body opts s = (s, Inr (i, True, 0))"
      "check_embedding (ms_dim s) vecs = Inr v" "nearest t v (ms_entries s) None = Some (i, d)"
      "d < DedupThreshold s"
  | (Added) v now p l where "check_embedding (ms_dim s) vecs = Inr v" "env = Some now"
      "p = new_payload (ms_nextID s) body v opts (mp_supersedes p)"
      "mp_supersedes p = 0 \<or> mp_supersedes p = ro_supersedes opts \<and> hasEntry t (mp_supersedes p) (ms_entries s)"
      "mp_supersedes p = 0 \<and> \<not> ro_force opts \<and> DedupThreshold s > 0 \<Longrightarrow>
         (\<forall>i d. nearest t v (ms_entries s) None = Some (i, d) \<longrightarrow> \<not> d < DedupThreshold s)"
      "el_append env t (MemEv p) (ms_journal s) = (l, Some (el_next (ms_journal s)))"
      "Remember vecs env t body opts s = (added l t p s, Inr (ms_nextID s, False, mp_supersedes p))"
proof (cases "check_embedding (ms_dim s) vecs")
  case (Inl e)
  then show thesis by (intro Failed) (simp add: Remember_def)
next
  case (Inr v)
  show thesis
  proof (cases "ro_supersedes opts \<noteq> 0 \<and> hasEntry t (ro_supersedes opts) (ms_entries s)")
    case True
    let ?p = "new_payload (ms_nextID s) body v opts (ro_supersedes opts)"
    show thesis
    proof (cases env)
      case None
      then show thesis using Inr True by (intro Failed) (simp add: Remember_def el_append_def Let_def)
    next
      case (Some now)
      show thesis
        by (rule Added [of v now ?p "fst (el_append env t (MemEv ?p) (ms_journal s))"])
           (use Inr True Some in \<open>simp_all add: Remember_def el_append_def added_def new_payload_def Let_def\<close>)
    qed
  next
    case ns: False
    define hit where "hit = (if \<not> ro_force opts \<and> DedupThreshold s > 0
       then case nearest t v (ms_entries s) None of
              None \<Rightarrow> None
            | Some (i, d) \<Rightarrow> if d < DedupThreshold s then Some i else None
       else None)"
    show thesis
    proof (cases hit)
      case (Some i)
      then obtain d where "nearest t v (ms_entries s) None = Some (i, d)" "d < DedupThreshold s"
        by (auto simp: hit_def split: if_splits option.splits prod.splits)
      then show thesis using Inr ns Some
        by (intro Duplicate [of i v d]) (simp_all add: Remember_def hit_def [symmetric] Let_def del: de_Morgan_conj)
    next
      case None
      let ?p = "new_payload (ms_nextID s) body v opts 0"
      show thesis
      proof (cases env)
        case e: None
        then show thesis using Inr ns None
          by (intro Failed) (simp add: Remember_def hit_def [symmetric] el_append_def Let_def del: de_Morgan_conj)
      next
        case (Some now)
        have "\<forall>i d. nearest t v (ms_entries s) None = Some (i, d) \<longrightarrow> \<not> d < DedupThreshold s"
          if "\<not> ro_force opts \<and> DedupThreshold s > 0"
          using None that by (auto simp: hit_def split: if_splits)
        then show thesis
          by (intro Added [of v now ?p "fst (el_append env t (MemEv ?p) (ms_journal s))"])
             (use Inr ns Some None in \<open>simp_all add: Remember_def hit_def [symmetric] el_append_def added_def
                new_payload_def Let_def del: de_Morgan_conj\<close>)
      qed
    qed
  qed
qed

section \<open>The index is what the journal says\<close>

definition ekey :: "'f mem_entry \<Rightarrow> tenant \<times> nat" where
  "ekey e = (me_tenant e, mp_id (me_mem e))"

fun created :: "'f mem_event lrec list \<Rightarrow> 'f mem_entry list" where
  "created [] = []"
| "created (r # rs) =
     (case lr_event r of
        MemEv p \<Rightarrow> \<lparr>me_tenant = lr_tenant r, me_mem = p\<lparr>mp_tags := normalizeTags (mp_tags p)\<rparr>\<rparr> # created rs
      | _ \<Rightarrow> created rs)"

fun superseded :: "'f mem_event lrec list \<Rightarrow> (tenant \<times> nat) set" where
  "superseded [] = {}"
| "superseded (r # rs) =
     (case lr_event r of
        MemEv p \<Rightarrow> if mp_supersedes p \<noteq> 0 then insert (lr_tenant r, mp_supersedes p) (superseded rs) else superseded rs
      | _ \<Rightarrow> superseded rs)"

fun forgotten :: "'f mem_event lrec list \<Rightarrow> (tenant \<times> nat) set" where
  "forgotten [] = {}"
| "forgotten (r # rs) =
     (case lr_event r of ForgetEv i \<Rightarrow> insert (lr_tenant r, i) (forgotten rs) | _ \<Rightarrow> forgotten rs)"

definition live_of :: "'f mem_event lrec list \<Rightarrow> 'f mem_entry list" where
  "live_of rs = filter (\<lambda>e. ekey e \<notin> superseded rs \<union> forgotten rs) (created rs)"

definition mem_inv :: "'f mem_store \<Rightarrow> bool" where
  "mem_inv s \<longleftrightarrow>
     (let rs = el_recs (ms_journal s) in
       ms_entries s = live_of rs \<and>
       0 < ms_nextID s \<and> ids_of (created rs) = [1..<ms_nextID s] \<and>
       (\<forall>k \<in> superseded rs \<union> forgotten rs. snd k < ms_nextID s) \<and>
       (\<forall>e \<in> set (created rs). length (mp_vector (me_mem e)) = ms_dim s) \<and>
       replay_mems (ms_dim s) (el_scan is_mem_ev (ms_journal s)) ([], 1) =
         Inr (filter (\<lambda>e. ekey e \<notin> superseded rs) (created rs), ms_nextID s) \<and>
       (\<forall>r \<in> set rs. lr_event r \<noteq> BadForgetEv))"

lemma created_append [simp]: "created (rs @ rs') = created rs @ created rs'"
  by (induction rs) (auto split: mem_event.split)

lemma superseded_append [simp]: "superseded (rs @ rs') = superseded rs \<union> superseded rs'"
  by (induction rs) (auto split: mem_event.split)

lemma forgotten_append [simp]: "forgotten (rs @ rs') = forgotten rs \<union> forgotten rs'"
  by (induction rs) (auto split: mem_event.split)

lemma ids_of_append [simp]: "ids_of (xs @ ys) = ids_of xs @ ids_of ys"
  by (simp add: ids_of_def)

lemma is_entry_ekey: "is_entry t i e \<longleftrightarrow> ekey e = (t, i)"
  by (auto simp: is_entry_def ekey_def)

lemma ids_of_distinct_filter: "distinct (ids_of es) \<Longrightarrow> distinct (ids_of (filter p es))"
  by (induction es) (auto simp: ids_of_def)

lemma replay_mems_append:
  "replay_mems dim (rs @ rs') st =
     (case replay_mems dim rs st of Inl e \<Rightarrow> Inl e | Inr st' \<Rightarrow> replay_mems dim rs' st')"
  by (induction dim rs st rule: replay_mems.induct)
     (auto simp: Let_def split: mem_event.split sum.split)

lemma replay_forgets_filter:
  assumes "\<forall>r \<in> set rs. lr_event r \<noteq> BadForgetEv" and "distinct (ids_of es)"
  shows "replay_forgets rs es = Inr (filter (\<lambda>e. ekey e \<notin> forgotten rs) es)"
  using assms
proof (induction rs arbitrary: es)
  case (Cons r rs)
  have "replay_forgets rs (dropEntry (lr_tenant r) i es) =
      Inr (filter (\<lambda>e. ekey e \<notin> insert (lr_tenant r, i) (forgotten rs)) es)" for i
    using Cons.IH [of "dropEntry (lr_tenant r) i es"] Cons.prems
    by (simp add: dropEntry_filter ids_of_distinct_filter is_entry_ekey conj_commute)
  then show ?case using Cons.IH [of es] Cons.prems by (auto split: mem_event.split)
qed simp

lemma forgotten_scan: "forgotten (filter (\<lambda>r. is_forget_ev (lr_event r)) rs) = forgotten rs"
  by (induction rs) (auto split: mem_event.split)

lemma NewMemory_inv:
  assumes "mem_inv s"
  shows "NewMemory (ms_journal s) (ms_dim s) = Inr (s\<lparr>DedupThreshold := 0, RecallGap := 0\<rparr>)"
proof -
  let ?rs = "el_recs (ms_journal s)"
  have "distinct (ids_of (created ?rs))" using assms by (simp add: mem_inv_def Let_def)
  then have "replay_forgets (el_scan is_forget_ev (ms_journal s))
      (filter (\<lambda>e. ekey e \<notin> superseded ?rs) (created ?rs)) = Inr (ms_entries s)"
    using assms replay_forgets_filter [of "el_scan is_forget_ev (ms_journal s)"
        "filter (\<lambda>e. ekey e \<notin> superseded ?rs) (created ?rs)"]
    by (simp add: mem_inv_def Let_def live_of_def el_scan_def forgotten_scan ids_of_distinct_filter conj_commute)
  then show ?thesis using assms
    by (cases s) (simp add: NewMemory_def mem_inv_def Let_def)
qed

lemma mem_inv_added:
  assumes inv: "mem_inv s" and l: "el_append env t (MemEv p) (ms_journal s) = (l, Some n)"
    and p: "mp_id p = ms_nextID s" "length (mp_vector p) = ms_dim s" "normalizeTags (mp_tags p) = mp_tags p"
    and sup: "mp_supersedes p = 0 \<or> hasEntry t (mp_supersedes p) (ms_entries s)"
  shows "mem_inv (added l t p s)"
proof -
  let ?rs = "el_recs (ms_journal s)" and ?k = "(t, mp_supersedes p)"
  let ?e = "\<lparr>me_tenant = t, me_mem = p\<rparr>"
  obtain now where l': "el_recs l = ?rs @ [\<lparr>lr_seq = n, lr_time = now, lr_tenant = t, lr_event = MemEv p\<rparr>]"
    using l by (auto simp: el_append_Some)
  have pt: "p\<lparr>mp_tags := normalizeTags (mp_tags p)\<rparr> = p" using p(3) by simp
  have i: "ms_entries s = live_of ?rs" "0 < ms_nextID s" "ids_of (created ?rs) = [1..<ms_nextID s]"
    "\<forall>k \<in> superseded ?rs \<union> forgotten ?rs. snd k < ms_nextID s"
    "replay_mems (ms_dim s) (el_scan is_mem_ev (ms_journal s)) ([], 1) =
       Inr (filter (\<lambda>e. ekey e \<notin> superseded ?rs) (created ?rs), ms_nextID s)"
    using inv by (simp_all add: mem_inv_def Let_def)
  have d: "distinct (ids_of (created ?rs))" using i(3) by simp
  have lt: "mp_supersedes p < ms_nextID s"
  proof (cases "mp_supersedes p = 0")
    case False
    then obtain e where "e \<in> set (live_of ?rs)" "mp_id (me_mem e) = mp_supersedes p"
      using sup i(1) by (auto simp: hasEntry_iff is_entry_def)
    then have "mp_supersedes p \<in> set (ids_of (created ?rs))"
      by (force simp: live_of_def ids_of_def)
    then show ?thesis using i(3) by simp
  qed (use i(2) in simp)
  have fresh: "ekey ?e \<notin> superseded ?rs \<union> forgotten ?rs" using i(4) p(1) by (force simp: ekey_def)
  have ne: "ekey ?e \<noteq> ?k" using lt p(1) by (simp add: ekey_def)
  have ids': "ids_of (created ?rs @ [?e]) = [1..<ms_nextID s + 1]"
    using i(2,3) p(1) by (simp add: ids_of_def)
  let ?S = "superseded ?rs \<union> (if mp_supersedes p \<noteq> 0 then {?k} else {})"
  have drop: "(if mp_supersedes p \<noteq> 0 then dropEntry t (mp_supersedes p) es else es) =
      filter (\<lambda>e. mp_supersedes p \<noteq> 0 \<longrightarrow> ekey e \<noteq> ?k) es" if "distinct (ids_of es)" for es
    using that by (simp add: dropEntry_filter is_entry_ekey)
  have entries: "ms_entries (added l t p s) = live_of (el_recs l)"
    using drop [of "ms_entries s"] i(1) d fresh ne l' pt
    by (auto simp: added_def live_of_def ids_of_distinct_filter intro!: filter_cong)
  have "distinct (ids_of (created ?rs @ [?e]))" unfolding ids' by simp
  from ids_of_distinct_filter [OF this, of "\<lambda>e. ekey e \<notin> superseded ?rs"]
  have "distinct (ids_of (filter (\<lambda>e. ekey e \<notin> superseded ?rs) (created ?rs) @ [?e]))"
    using fresh by (simp del: ids_of_append)
  from drop [OF this]
  have replay: "replay_mems (ms_dim s) (el_scan is_mem_ev l) ([], 1) =
      Inr (filter (\<lambda>e. ekey e \<notin> ?S) (created ?rs @ [?e]), ms_nextID s + 1)"
    using i(5) l' p pt fresh ne
    by (auto simp: el_scan_def replay_mems_append Let_def intro!: filter_cong)
  show ?thesis
    unfolding mem_inv_def Let_def
    using entries replay inv i(4) lt ids' l' p pt
    by (auto simp: added_def mem_inv_def Let_def live_of_def less_SucI)
qed

lemma mem_inv_forget:
  assumes inv: "mem_inv s" and has: "hasEntry t i (ms_entries s)"
    and l: "el_append env t (ForgetEv i) (ms_journal s) = (l, Some n)"
  shows "mem_inv (s\<lparr>ms_journal := l, ms_entries := dropEntry t i (ms_entries s)\<rparr>)"
proof -
  let ?rs = "el_recs (ms_journal s)"
  obtain now where l': "el_recs l = ?rs @ [\<lparr>lr_seq = n, lr_time = now, lr_tenant = t, lr_event = ForgetEv i\<rparr>]"
    using l by (auto simp: el_append_Some)
  have i: "ms_entries s = live_of ?rs" "ids_of (created ?rs) = [1..<ms_nextID s]"
    using inv by (simp_all add: mem_inv_def Let_def)
  have "i \<in> set (ids_of (created ?rs))"
    using has i(1) by (force simp: hasEntry_iff live_of_def ids_of_def is_entry_def)
  then have lt: "i < ms_nextID s" using i(2) by simp
  have "distinct (ids_of (created ?rs))" using i(2) by simp
  then have "dropEntry t i (ms_entries s) = live_of (el_recs l)"
    using i(1) l' by (auto simp: live_of_def dropEntry_filter ids_of_distinct_filter is_entry_ekey intro!: filter_cong)
  moreover have "el_scan is_mem_ev l = el_scan is_mem_ev (ms_journal s)" using l' by (simp add: el_scan_def)
  ultimately show ?thesis using inv l' lt by (auto simp: mem_inv_def Let_def)
qed

lemma check_embedding_Inr: "check_embedding dim vecs = Inr v \<Longrightarrow> vecs = Some [v] \<and> length v = dim"
  by (auto simp: check_embedding_def split: option.splits list.splits if_splits)

lemma Remember_inv:
  assumes "mem_inv s"
  shows "mem_inv (fst (Remember vecs env t body opts s))"
proof (rule Remember_cases [of vecs env t body opts s])
  fix v now p l
  assume v: "check_embedding (ms_dim s) vecs = Inr v"
    and p: "p = new_payload (ms_nextID s) body v opts (mp_supersedes p)"
    and sup: "mp_supersedes p = 0 \<or> mp_supersedes p = ro_supersedes opts \<and> hasEntry t (mp_supersedes p) (ms_entries s)"
    and l: "el_append env t (MemEv p) (ms_journal s) = (l, Some (el_next (ms_journal s)))"
    and r: "Remember vecs env t body opts s = (added l t p s, Inr (ms_nextID s, False, mp_supersedes p))"
  have "mp_id p = ms_nextID s" "length (mp_vector p) = ms_dim s" "normalizeTags (mp_tags p) = mp_tags p"
    using check_embedding_Inr [OF v] by (subst p, simp add: new_payload_def)+
  then show ?thesis using mem_inv_added [OF assms l] sup r by auto
qed (use assms in simp_all)

lemma Forget_inv: "mem_inv s \<Longrightarrow> mem_inv (fst (Forget env t i s))"
  using mem_inv_forget [of s t i env] by (auto simp: Forget_def split: prod.split option.split)

datatype 'f mem_op =
  OpRemember "'f list list option" "int option" tenant gostring remember_opts
| OpForget "int option" tenant nat
| OpOther nat \<comment> \<open>appends of the journal's other clients\<close>

fun mem_step :: "'f::{plus,minus,times,zero,linorder} mem_op \<Rightarrow> 'f mem_store \<Rightarrow> 'f mem_store" where
  "mem_step (OpRemember vecs env t body opts) s = fst (Remember vecs env t body opts s)"
| "mem_step (OpForget env t i) s = fst (Forget env t i s)"
| "mem_step (OpOther k) s = s\<lparr>ms_journal := el_skip k (ms_journal s)\<rparr>"

definition mem_empty :: "nat \<Rightarrow> 'f \<Rightarrow> 'f \<Rightarrow> 'f mem_store" where
  "mem_empty dim tau gap =
     \<lparr>ms_journal = el_empty, ms_dim = dim, ms_entries = [], ms_nextID = 1, DedupThreshold = tau, RecallGap = gap\<rparr>"

lemma mem_inv_empty: "mem_inv (mem_empty dim tau gap)"
  by (simp add: mem_inv_def mem_empty_def el_empty_def live_of_def ids_of_def el_scan_def)

lemma mem_step_inv: "mem_inv s \<Longrightarrow> mem_inv (mem_step x s)"
proof (cases x)
  case (OpOther k)
  assume "mem_inv s"
  then show ?thesis using OpOther by (simp add: mem_inv_def Let_def el_skip_def el_scan_def)
qed (simp_all add: Remember_inv Forget_inv)

lemma mem_step_grows:
  "\<exists>rs. el_recs (ms_journal (mem_step x s)) = el_recs (ms_journal s) @ rs"
proof (cases x)
  case (OpRemember vecs env t body opts)
  show ?thesis unfolding OpRemember
    by (rule Remember_cases [of vecs env t body opts s]) (auto simp: added_def el_append_Some)
next
  case (OpForget env t i)
  then show ?thesis by (auto simp: Forget_def el_append_def split: option.split)
qed (auto simp: el_skip_def)

lemma mem_step_config: "ms_dim (mem_step x s) = ms_dim s \<and> DedupThreshold (mem_step x s) = DedupThreshold s
    \<and> RecallGap (mem_step x s) = RecallGap s"
proof (cases x)
  case (OpRemember vecs env t body opts)
  show ?thesis unfolding OpRemember
    by (rule Remember_cases [of vecs env t body opts s]) (auto simp: added_def)
qed (auto simp: Forget_def split: prod.split option.split)

text \<open>
  The RAM index is a function of the records, so the memory is event-sourced with the records
  themselves as the replayed state and \<^const>\<open>live_of\<close> their reading.
\<close>

interpretation mem_es: event_sourced mem_step mem_inv
  "\<lambda>s. el_recs (ms_journal s)" "\<lambda>s. el_recs (ms_journal s)" "\<lambda>r rs. rs @ [r]" "[]"
proof
  fix s :: "'a mem_store" and x
  assume "mem_inv s"
  then show "mem_inv (mem_step x s)" by (rule mem_step_inv)
next
  fix s :: "'a mem_store" and x
  have "fold (\<lambda>r rs. rs @ [r]) rs xs = xs @ rs" for rs xs :: "'a mem_event lrec list"
    by (induction rs arbitrary: xs) auto
  then show "\<exists>rs. el_recs (ms_journal (mem_step x s)) = el_recs (ms_journal s) @ rs \<and>
      el_recs (ms_journal (mem_step x s)) = fold (\<lambda>r rs. rs @ [r]) rs (el_recs (ms_journal s))"
    using mem_step_grows [of x s] by auto
qed

lemma mem_run_inv: "mem_inv (fold mem_step xs (mem_empty dim tau gap))"
  using mem_es.run_good [OF mem_inv_empty, of xs] by (simp add: mem_es.run_def)

lemma mem_run_config:
  "ms_dim (fold mem_step xs s) = ms_dim s \<and> DedupThreshold (fold mem_step xs s) = DedupThreshold s \<and>
   RecallGap (fold mem_step xs s) = RecallGap s"
  by (induction xs arbitrary: s) (simp_all add: mem_step_config)

lemma mem_run_gone:
  assumes "mem_inv s" and "k \<in> superseded (el_recs (ms_journal s)) \<union> forgotten (el_recs (ms_journal s))"
  shows "\<forall>e \<in> set (ms_entries (fold mem_step xs s)). ekey e \<noteq> k"
proof -
  obtain rs where rs: "el_recs (ms_journal (fold mem_step xs s)) = el_recs (ms_journal s) @ rs"
    using mem_es.log_grows [OF assms(1), of xs] by (auto simp: mem_es.run_def prefix_def)
  have "mem_inv (fold mem_step xs s)"
    using mem_es.run_good [OF assms(1), of xs] by (simp add: mem_es.run_def)
  then have "ms_entries (fold mem_step xs s) = live_of (el_recs (ms_journal s) @ rs)"
    using rs by (simp add: mem_inv_def Let_def)
  then show ?thesis using assms(2) by (auto simp: live_of_def)
qed

section \<open>Recall\<close>

lemma cut_gap_prefix: "prefix (cut_gap g rs) rs"
  by (induction g rs rule: cut_gap.induct) auto

lemma cut_gap_hd: "rs \<noteq> [] \<Longrightarrow> cut_gap g rs \<noteq> [] \<and> hd (cut_gap g rs) = hd rs"
  by (induction g rs rule: cut_gap.induct) auto

text \<open>Before the cut no cliff, at the cut one.\<close>

definition cliff :: "'f::{times,linorder} \<Rightarrow> 'f mem_result list \<Rightarrow> nat \<Rightarrow> bool" where
  "cliff g rs i \<longleftrightarrow> mr_score (rs ! i) > mr_score (rs ! (i - 1)) * g"

lemma cut_gap_cliff:
  "(\<forall>i. 0 < i \<and> i < length (cut_gap g rs) \<longrightarrow> \<not> cliff g rs i) \<and>
   (length (cut_gap g rs) < length rs \<longrightarrow> cliff g rs (length (cut_gap g rs)))"
proof (induction g rs rule: cut_gap.induct)
  case (1 g a b rest)
  show ?case
  proof (cases "mr_score b > mr_score a * g")
    case False
    let ?c = "cut_gap g (b # rest)"
    have ne: "?c \<noteq> []" using cut_gap_hd [of "b # rest" g] by simp
    have shift: "cliff g (a # b # rest) (Suc i) = cliff g (b # rest) i" if "0 < i" for i
      using that by (cases i) (simp_all add: cliff_def)
    have "\<not> cliff g (a # b # rest) i" if i: "0 < i" "i < Suc (length ?c)" for i
    proof (cases "i = 1")
      case True
      then show ?thesis using False by (simp add: cliff_def)
    next
      case ne: False
      then obtain j where "i = Suc j" "0 < j" "j < length ?c" using i by (cases i) auto
      then show ?thesis using 1 [OF False] shift [of j] by simp
    qed
    then show ?thesis using False 1 [OF False] ne shift [of "length ?c"] by simp
  qed (simp add: cliff_def)
qed (simp_all add: cliff_def)

section \<open>The properties of the memory\<close>


text \<open>Forgetting is final: once a forget of a live memory succeeded, or a newer memory
  superseded it, that id of that tenant is not live after any further operations, nor after a
  restart, and Recall never returns it again.\<close>
theorem forgotten_stays_forgotten:
  fixes xs ys :: "'f::{plus,minus,times,zero,linorder} mem_op list"
  assumes "s = fold mem_step xs (mem_empty dim tau gap)"
    and "snd (Forget env t i s) = Inr True \<and> s1 = fst (Forget env t i s) \<or>
         snd (Remember vecs env t body opts s) = Inr (j, False, i) \<and> i \<noteq> 0 \<and>
           s1 = fst (Remember vecs env t body opts s)"
    and "s2 = fold mem_step ys s1"
  shows "\<not> hasEntry t i (ms_entries s2) \<and>
         (\<exists>s3. NewMemory (ms_journal s2) dim = Inr s3 \<and> \<not> hasEntry t i (ms_entries s3))"
proof -
  have inv: "mem_inv s" using mem_run_inv assms(1) by simp
  have cfg: "ms_dim s = dim" using mem_run_config [of xs "mem_empty dim tau gap"] assms(1)
    by (simp add: mem_empty_def)
  have s1: "mem_inv s1 \<and> ms_dim s1 = dim \<and>
      (t, i) \<in> superseded (el_recs (ms_journal s1)) \<union> forgotten (el_recs (ms_journal s1))"
    using assms(2)
  proof (elim disjE conjE)
    assume f: "snd (Forget env t i s) = Inr True" and d: "s1 = fst (Forget env t i s)"
    then show ?thesis using Forget_inv [OF inv, of env t i] cfg
      by (auto simp: Forget_def el_append_Some split: if_splits prod.splits option.splits)
  next
    assume r: "snd (Remember vecs env t body opts s) = Inr (j, False, i)" and i: "i \<noteq> 0"
      and d: "s1 = fst (Remember vecs env t body opts s)"
    show ?thesis
      by (rule Remember_cases [of vecs env t body opts s])
         (use r i d Remember_inv [OF inv, of vecs env t body opts] cfg in \<open>auto simp: added_def el_append_Some\<close>)
  qed
  have inv2: "mem_inv s2" using mem_es.run_good [of s1 ys] s1 assms(3) by (simp add: mem_es.run_def)
  have d2: "ms_dim s2 = dim" using mem_run_config [of ys s1] s1 assms(3) by simp
  have "\<not> hasEntry t i (ms_entries s2)"
    using mem_run_gone [of s1 "(t, i)" ys] s1 assms(3) by (auto simp: hasEntry_iff is_entry_ekey)
  then show ?thesis using NewMemory_inv [OF inv2] d2 by simp
qed

definition ex_opts :: remember_opts where
  "ex_opts = \<lparr>ro_tags = [''a''], ro_src = [], ro_supersedes = 0, ro_force = False\<rparr>"

theorem forgotten_stays_forgotten_witness:
  "\<not> hasEntry 1 1 (ms_entries (fold mem_step [OpRemember (Some [[1 :: int]]) (Some 9) 1 ''b'' ex_opts]
     (fst (Forget (Some 8) 1 1
       (fold mem_step [OpRemember (Some [[1]]) (Some 7) 1 ''a'' ex_opts] (mem_empty 1 0 0))))))"
proof -
  have "snd (Forget (Some 8) 1 1
      (fold mem_step [OpRemember (Some [[1 :: int]]) (Some 7) 1 ''a'' ex_opts] (mem_empty 1 0 0))) = Inr True"
    by (simp add: Forget_def Remember_def check_embedding_def mem_empty_def ex_opts_def Let_def
        el_append_def is_entry_def new_payload_def)
  then show ?thesis
    using forgotten_stays_forgotten [OF refl disjI1 [OF conjI [OF _ refl]] refl] by blast
qed

text \<open>C37. Recall is exact and isolated: the answer holds only memories of the asking tenant, in
  the order of distance and id, at most k of them; a live memory of the tenant that the top k leave
  out is no nearer than any answered one; and with the gap filter on, the answer is the longest
  prefix of the top k without a relevance cliff, which is never empty unless there is nothing
  to return.\<close>
theorem Recall_exact:
  fixes s :: "'f::{plus,minus,times,zero,one,linorder} mem_store"
  assumes "0 < k" and "length q = ms_dim s" and "Recall (Some [q]) t k s = Inr res"
  shows "\<exists>top. mset top \<subseteq># mset (map (score_entry q) (filter (\<lambda>e. me_tenant e = t) (ms_entries s))) \<and>
           length top = min (nat k) (CountMems t s) \<and>
           sorted (map (\<lambda>r. (mr_score r, mr_id r)) top) \<and>
           (\<forall>r \<in># mset (map (score_entry q) (filter (\<lambda>e. me_tenant e = t) (ms_entries s))) - mset top.
              \<forall>r' \<in> set top. mr_score r' \<le> mr_score r) \<and>
           prefix res top \<and> (top \<noteq> [] \<longrightarrow> res \<noteq> []) \<and>
           (RecallGap s \<le> 1 \<longrightarrow> res = top) \<and>
           (\<forall>i. 0 < i \<and> i < length res \<and> RecallGap s > 1 \<longrightarrow> \<not> cliff (RecallGap s) top i) \<and>
           (length res < length top \<longrightarrow> cliff (RecallGap s) top (length res))"
proof -
  let ?all = "map (score_entry q) (filter (\<lambda>e. me_tenant e = t) (ms_entries s))"
  let ?key = "\<lambda>r :: 'f mem_result. (mr_score r, mr_id r)"
  define scored where "scored = sort_key ?key ?all"
  define top where "top = take (nat k) scored"
  have res: "res = (if RecallGap s > 1 then cut_gap (RecallGap s) top else top)"
    using assms by (auto simp: Recall_def check_embedding_def top_def scored_def Let_def)
  have srt: "sorted (map ?key scored)" by (simp add: scored_def)
  have m: "mset ?all = mset top + mset (drop (nat k) scored)"
    by (simp only: top_def mset_append [symmetric] append_take_drop_id) (simp add: scored_def)
  have cnt: "CountMems t s = length ?all"
  proof -
    have "fold (\<lambda>e n. if me_tenant e = t then n + 1 else n) es n =
        n + length (filter (\<lambda>e. me_tenant e = t) es)" for es :: "'f mem_entry list" and n :: nat
      by (induction es arbitrary: n) auto
    then show ?thesis by (simp add: CountMems_def)
  qed
  have len: "length top = min (nat k) (CountMems t s)" by (simp add: top_def cnt scored_def min.commute)
  have "sorted (map ?key top @ map ?key (drop (nat k) scored))"
    using srt by (simp only: top_def map_append [symmetric] append_take_drop_id)
  then have st: "sorted (map ?key top)"
    and le: "\<forall>r' \<in> set top. \<forall>r \<in> set (drop (nat k) scored). ?key r' \<le> ?key r"
    by (auto simp: sorted_append)
  have far: "\<forall>r \<in># mset ?all - mset top. \<forall>r' \<in> set top. mr_score r' \<le> mr_score r"
    using le unfolding m by (auto simp: less_eq_prod_def; meson less_imp_le)
  have "mset top \<subseteq># mset ?all" unfolding m by simp
  then show ?thesis
    using len st far res cut_gap_prefix [of "RecallGap s" top] cut_gap_hd [of top "RecallGap s"]
      cut_gap_cliff [of "RecallGap s" top]
    by (intro exI [of _ top]) auto
qed

theorem Recall_exact_witness:
  "let s = fst (Remember (Some [[1 :: int]]) (Some 7) 1 ''a'' ex_opts (mem_empty 1 0 0))
   in \<exists>res top. Recall (Some [[3]]) 1 5 s = Inr res \<and> length top = min 5 (CountMems 1 s) \<and>
        length top = 1 \<and> res = top"
proof -
  define s where "s = fst (Remember (Some [[1 :: int]]) (Some 7) 1 ''a'' ex_opts (mem_empty 1 0 0))"
  have s: "ms_dim s = 1" "RecallGap s = 0" "CountMems 1 s = 1"
    by (simp_all add: s_def Remember_def check_embedding_def mem_empty_def ex_opts_def Let_def el_append_def
        CountMems_def)
  obtain res where res: "Recall (Some [[3]]) 1 5 s = Inr res"
    using s by (simp add: Recall_def check_embedding_def Let_def)
  have "length [3 :: int] = ms_dim s" using s by simp
  from Recall_exact [OF _ this res] s res show ?thesis
    unfolding Let_def s_def [symmetric] by auto
qed

text \<open>The duplicate gate: when Remember answers a duplicate, nothing is stored or journaled
  and the answered id is a live memory of the same tenant, nearer than the threshold and nearest
  of all the tenant's; when it stores although the gate applies (dedup on, not forced, not
  superseding), every live memory of the tenant is at least the threshold away. A stored memory
  gets a fresh id and canonical tags.\<close>
theorem Remember_dedup:
  fixes s :: "'f::{plus,minus,times,zero,linorder} mem_store"
  assumes "mem_inv s" and "length v = ms_dim s" and "Remember (Some [v]) env t body opts s = (s', Inr (i, dup, old))"
  shows "(dup \<longrightarrow> s' = s \<and> old = 0 \<and>
            (\<exists>e \<in> set (ms_entries s). is_entry t i e \<and> sqL2 v (mp_vector (me_mem e)) < DedupThreshold s \<and>
               (\<forall>e' \<in> set (ms_entries s). me_tenant e' = t \<longrightarrow>
                  sqL2 v (mp_vector (me_mem e)) \<le> sqL2 v (mp_vector (me_mem e'))))) \<and>
         (\<not> dup \<longrightarrow> i = ms_nextID s \<and> hasEntry t i (ms_entries s') \<and>
            (\<forall>e \<in> set (ms_entries s). mp_id (me_mem e) < i) \<and>
            (old = 0 \<and> \<not> ro_force opts \<and> DedupThreshold s > 0 \<longrightarrow>
               (\<forall>e \<in> set (ms_entries s). me_tenant e = t \<longrightarrow>
                  \<not> sqL2 v (mp_vector (me_mem e)) < DedupThreshold s)) \<and>
            (old \<noteq> 0 \<longrightarrow> hasEntry t old (ms_entries s) \<and> \<not> hasEntry t old (ms_entries s')))"
proof -
  have v: "check_embedding (ms_dim s) (Some [v]) = Inr v" using assms(2) by (simp add: check_embedding_def)
  have ids: "ids_of (created (el_recs (ms_journal s))) = [1..<ms_nextID s]"
    and en: "ms_entries s = live_of (el_recs (ms_journal s))"
    using assms(1) by (simp_all add: mem_inv_def Let_def)
  have lt: "mp_id (me_mem e) < ms_nextID s" if "e \<in> set (ms_entries s)" for e
  proof -
    have "mp_id (me_mem e) \<in> set (ids_of (created (el_recs (ms_journal s))))"
      using that en by (auto simp: live_of_def ids_of_def)
    then show ?thesis unfolding ids by simp
  qed
  have "distinct (ids_of (created (el_recs (ms_journal s))))" unfolding ids by simp
  then have d: "distinct (ids_of (ms_entries s))" by (simp add: en live_of_def ids_of_distinct_filter)
  show ?thesis
  proof (rule Remember_cases [of "Some [v]" env t body opts s])
    fix v' i' d' assume r: "Remember (Some [v]) env t body opts s = (s, Inr (i', True, 0))"
      and c: "check_embedding (ms_dim s) (Some [v]) = Inr v'"
      and n: "nearest t v' (ms_entries s) None = Some (i', d')" and lt: "d' < DedupThreshold s"
    have "v' = v" using c v by simp
    with nearest_spec [OF n] lt show ?thesis using r assms(3) by auto
  next
    fix v' now p l assume c: "check_embedding (ms_dim s) (Some [v]) = Inr v'"
      and p: "p = new_payload (ms_nextID s) body v' opts (mp_supersedes p)"
      and sup: "mp_supersedes p = 0 \<or> mp_supersedes p = ro_supersedes opts \<and> hasEntry t (mp_supersedes p) (ms_entries s)"
      and far: "mp_supersedes p = 0 \<and> \<not> ro_force opts \<and> DedupThreshold s > 0 \<Longrightarrow>
         (\<forall>i d. nearest t v' (ms_entries s) None = Some (i, d) \<longrightarrow> \<not> d < DedupThreshold s)"
      and r: "Remember (Some [v]) env t body opts s = (added l t p s, Inr (ms_nextID s, False, mp_supersedes p))"
    have vv: "v' = v" using c v by simp
    have pid: "mp_id p = ms_nextID s" by (subst p) (simp add: new_payload_def)
    have a: "i = ms_nextID s" "\<not> dup" "old = mp_supersedes p" "s' = added l t p s"
      using r assms(3) by auto
    have "hasEntry t i (ms_entries s')" using a pid by (auto simp: added_def hasEntry_iff is_entry_def)
    moreover have "\<forall>e \<in> set (ms_entries s). me_tenant e = t \<longrightarrow> \<not> sqL2 v (mp_vector (me_mem e)) < DedupThreshold s"
      if g: "old = 0 \<and> \<not> ro_force opts \<and> DedupThreshold s > 0"
    proof (cases "nearest t v (ms_entries s) None")
      case None
      then show ?thesis using nearest_spec [of t v "ms_entries s" None] by auto
    next
      case (Some x)
      obtain i' d' where x: "x = (i', d')" by (cases x)
      have "mp_supersedes p = 0 \<and> \<not> ro_force opts \<and> DedupThreshold s > 0" using g a(3) by simp
      from far [OF this] have "\<not> d' < DedupThreshold s" using Some x vv by simp
      then show ?thesis using nearest_spec [OF Some] x by (auto simp: not_less intro: order_trans)
    qed
    moreover have "hasEntry t old (ms_entries s) \<and> \<not> hasEntry t old (ms_entries s')" if "old \<noteq> 0"
    proof -
      have h: "hasEntry t old (ms_entries s)" using sup a(3) that by auto
      then have "old < ms_nextID s" using lt by (auto simp: hasEntry_iff is_entry_def)
      then show ?thesis using h that a pid d
        by (auto simp: added_def hasEntry_iff dropEntry_filter is_entry_def)
    qed
    ultimately show ?thesis using a lt by auto
  qed (use assms(3) in auto)
qed

theorem Remember_dedup_witness:
  "\<exists>s'. hasEntry 1 1 (ms_entries s') \<and> Remember (Some [[1 :: int]]) (Some 7) 1 ''a'' ex_opts (mem_empty 1 5 0) =
     (s', Inr (1, False, 0))"
proof -
  have "\<exists>s'. Remember (Some [[1 :: int]]) (Some 7) 1 ''a'' ex_opts (mem_empty 1 5 0) = (s', Inr (1, False, 0))"
    by (simp add: Remember_def check_embedding_def mem_empty_def ex_opts_def Let_def el_append_def new_payload_def)
  then obtain s' where s': "Remember (Some [[1 :: int]]) (Some 7) 1 ''a'' ex_opts (mem_empty 1 5 0) = (s', Inr (1, False, 0))"
    by blast
  have "length [1 :: int] = ms_dim (mem_empty 1 (5 :: int) 0)" by (simp add: mem_empty_def)
  from Remember_dedup [OF mem_inv_empty this s'] s' show ?thesis by auto
qed

section \<open>Every memory is well formed\<close>

lemma created_tags: "e \<in> set (created rs) \<Longrightarrow> \<exists>ts. mp_tags (me_mem e) = normalizeTags ts"
  by (induction rs) (auto split: mem_event.splits)

lemma mem_inv_typed:
  assumes "mem_inv s" and "e \<in> set (ms_entries s)"
  shows "length (mp_vector (me_mem e)) = ms_dim s" "0 < mp_id (me_mem e)" "mp_id (me_mem e) < ms_nextID s"
    "distinct (mp_tags (me_mem e))" "list_all canonical (mp_tags (me_mem e))"
proof -
  let ?rs = "el_recs (ms_journal s)"
  have i: "ms_entries s = live_of ?rs" "ids_of (created ?rs) = [1..<ms_nextID s]"
    "\<forall>e \<in> set (created ?rs). length (mp_vector (me_mem e)) = ms_dim s"
    using assms(1) by (simp_all add: mem_inv_def Let_def)
  have e: "e \<in> set (created ?rs)" using assms(2) i(1) by (simp add: live_of_def)
  then have "mp_id (me_mem e) \<in> set (ids_of (created ?rs))" by (simp add: ids_of_def)
  then show "0 < mp_id (me_mem e)" "mp_id (me_mem e) < ms_nextID s" unfolding i(2) by simp_all
  show "length (mp_vector (me_mem e)) = ms_dim s" using i(3) e by blast
  obtain ts where "mp_tags (me_mem e) = norm_loop ts []" using created_tags [OF e] by (auto simp: normalizeTags_def)
  then show "distinct (mp_tags (me_mem e))" "list_all canonical (mp_tags (me_mem e))"
    using norm_loop_spec [of "[]" ts] by (simp_all add: list_all_iff)
qed

lemma mem_inv_ids: "mem_inv s \<Longrightarrow> distinct (ids_of (ms_entries s))"
  by (simp add: mem_inv_def Let_def live_of_def ids_of_distinct_filter)

text \<open>C36. What the memory holds is well formed. After any operations, whatever texts, tags and vectors they were given
  and whatever failed, every live memory has a vector of exactly the dimension of the store (so a search
  compares whole vectors), an id between 1 and the next id, and tags that are trimmed, lower case, not
  empty and without duplicates; no two live memories have the same id, across all tenants.\<close>
theorem memories_well_formed:
  fixes xs :: "'f::{plus,minus,times,zero,linorder} mem_op list"
  shows "let s = fold mem_step xs (mem_empty dim tau gap)
         in distinct (ids_of (ms_entries s)) \<and>
            list_all (\<lambda>e. length (mp_vector (me_mem e)) = dim \<and> 0 < mp_id (me_mem e) \<and> mp_id (me_mem e) < ms_nextID s \<and>
                          distinct (mp_tags (me_mem e)) \<and> list_all canonical (mp_tags (me_mem e))) (ms_entries s)"
proof -
  define s where "s = fold mem_step xs (mem_empty dim tau gap)"
  have inv: "mem_inv s" unfolding s_def by (rule mem_run_inv)
  have "ms_dim s = dim" using mem_run_config [of xs "mem_empty dim tau gap"] by (simp add: s_def mem_empty_def)
  then show ?thesis
    using mem_inv_typed [OF inv] mem_inv_ids [OF inv] unfolding s_def [symmetric] Let_def by (simp add: list_all_iff)
qed

end
