(* ===== verification/CommsHub.thy ===== *)
theory CommsHub
  imports Prelude
begin

text \<open>
  Messages and the wake-up hub of \<^verbatim>\<open>comms/comms.go\<close> and \<^verbatim>\<open>comms/hub.go\<close>. A subscription's
  channel has room for one nudge: its content is an option. Iterating over the map of
  subscriptions treats each on its own, so the order does not matter and a list is mapped over.
\<close>

section \<open>Messages\<close>

record msg_payload =
  pl_area :: gostring
  pl_from :: gostring
  pl_kind :: gostring
  pl_text :: gostring
  pl_target :: gostring
  pl_ref :: nat
  pl_blob :: gostring
  pl_mime :: gostring
  pl_w :: int
  pl_h :: int
  pl_size :: int
  pl_expires :: int
  pl_deadline :: int

record message =
  m_seq :: nat
  m_tenant :: tenant
  m_ts :: int
  m_area :: gostring
  m_from :: gostring
  m_kind :: gostring
  m_text :: gostring
  m_target :: gostring
  m_ref :: nat
  m_blob :: gostring
  m_mime :: gostring
  m_w :: int
  m_h :: int
  m_size :: int
  m_expires :: int
  m_deadline :: int

definition mk_message :: "nat \<Rightarrow> tenant \<Rightarrow> int \<Rightarrow> msg_payload \<Rightarrow> message" where
  "mk_message q t ts p =
     \<lparr>m_seq = q, m_tenant = t, m_ts = ts, m_area = pl_area p, m_from = pl_from p, m_kind = pl_kind p,
      m_text = pl_text p, m_target = pl_target p, m_ref = pl_ref p, m_blob = pl_blob p,
      m_mime = pl_mime p, m_w = pl_w p, m_h = pl_h p, m_size = pl_size p,
      m_expires = pl_expires p, m_deadline = pl_deadline p\<rparr>"

definition isExpired :: "message \<Rightarrow> int \<Rightarrow> bool" where
  "isExpired m now \<longleftrightarrow> m_expires m > 0 \<and> now > m_expires m"

section \<open>The hub\<close>

record nudge =
  n_seq :: nat
  n_area :: gostring
  n_target :: gostring
  n_kind :: gostring

record comms_filter =
  f_tenant :: tenant
  f_target :: gostring
  f_areas :: "gostring list"

definition matches :: "comms_filter \<Rightarrow> message \<Rightarrow> bool" where
  "matches f m \<longleftrightarrow>
     (if m_tenant m \<noteq> f_tenant f then False
      else if f_target f \<noteq> [] \<and> m_target m = f_target f then True
      else list_ex (\<lambda>a. m_area m = a) (f_areas f))"

record subscription =
  sub_filter :: comms_filter
  sub_ch :: "nudge option"

record hub =
  hub_next :: nat
  hub_subs :: "(nat \<times> subscription) list"

definition newHub :: hub where
  "newHub = \<lparr>hub_next = 0, hub_subs = []\<rparr>"

definition hub_subscribe :: "comms_filter \<Rightarrow> hub \<Rightarrow> hub \<times> nat" where
  "hub_subscribe f h =
     (\<lparr>hub_next = hub_next h + 1,
       hub_subs = AList.update (hub_next h) \<lparr>sub_filter = f, sub_ch = None\<rparr> (hub_subs h)\<rparr>,
      hub_next h)"

text \<open>The cancel function of \<^verbatim>\<open>subscribe\<close>: unregister, drain and close.\<close>

definition hub_cancel :: "nat \<Rightarrow> hub \<Rightarrow> hub" where
  "hub_cancel i h = h\<lparr>hub_subs := AList.delete i (hub_subs h)\<rparr>"

definition to_nudge :: "message \<Rightarrow> nudge" where
  "to_nudge m = \<lparr>n_seq = m_seq m, n_area = m_area m, n_target = m_target m, n_kind = m_kind m\<rparr>"

definition offer :: "message \<Rightarrow> subscription \<Rightarrow> subscription" where
  "offer m s =
     (if \<not> matches (sub_filter s) m then s
      else case sub_ch s of None \<Rightarrow> s\<lparr>sub_ch := Some (to_nudge m)\<rparr> | Some _ \<Rightarrow> s)"

definition hub_publish :: "message \<Rightarrow> hub \<Rightarrow> hub" where
  "hub_publish m h = h\<lparr>hub_subs := map (\<lambda>(i, s). (i, offer m s)) (hub_subs h)\<rparr>"

text \<open>The subscriber's receive (when a nudge is there).\<close>

definition hub_recv :: "nat \<Rightarrow> hub \<Rightarrow> hub \<times> nudge option" where
  "hub_recv i h =
     (case map_of (hub_subs h) i of
        None \<Rightarrow> (h, None)
      | Some s \<Rightarrow> (h\<lparr>hub_subs := AList.update i (s\<lparr>sub_ch := None\<rparr>) (hub_subs h)\<rparr>, sub_ch s))"

lemma map_of_publish:
  "map_of (hub_subs (hub_publish m h)) i = map_option (offer m) (map_of (hub_subs h) i)"
proof -
  have "map_of (map (\<lambda>(i, s). (i, offer m s)) xs) i = map_option (offer m) (map_of xs i)" for xs
    by (induction xs) auto
  then show ?thesis by (simp add: hub_publish_def)
qed

lemma map_of_publish_list:
  "map_of (hub_subs (fold hub_publish ms h)) i = map_option (fold offer ms) (map_of (hub_subs h) i)"
proof (induction ms arbitrary: h)
  case Nil
  then show ?case by (simp add: option.map_id[unfolded id_def])
next
  case (Cons m ms)
  then show ?case by (simp add: map_of_publish option.map_comp comp_def)
qed

lemma fold_offer:
  "fold offer ms s =
     s\<lparr>sub_ch := (case sub_ch s of
         Some n \<Rightarrow> Some n
       | None \<Rightarrow> map_option to_nudge (find (matches (sub_filter s)) ms))\<rparr>"
  by (induction ms arbitrary: s) (auto simp: offer_def split: option.splits)

text \<open>No wake-up is lost and none crosses tenants: a subscriber's channel after any messages
  were published holds a nudge exactly if it held one before or one of the messages matches its
  filter, and then the earliest such nudge; a filter matches messages of its own tenant only.
  Publishing never blocks and never removes or adds a subscription.\<close>
theorem publish_wakes:
  assumes "map_of (hub_subs h) i = Some s"
  shows "map_of (hub_subs (fold hub_publish ms h)) i =
           Some (s\<lparr>sub_ch := (case sub_ch s of
                     Some n \<Rightarrow> Some n
                   | None \<Rightarrow> map_option to_nudge (find (matches (sub_filter s)) ms))\<rparr>) \<and>
         (sub_ch s = None \<longrightarrow>
            (snd (hub_recv i (fold hub_publish ms h)) \<noteq> None \<longleftrightarrow>
               (\<exists>m \<in> set ms. m_tenant m = f_tenant (sub_filter s) \<and> matches (sub_filter s) m)))"
proof -
  have "map_of (hub_subs (fold hub_publish ms h)) i = Some (fold offer ms s)"
    using assms by (simp add: map_of_publish_list)
  moreover have "matches (sub_filter s) m \<Longrightarrow> m_tenant m = f_tenant (sub_filter s)" for m
    by (auto simp: matches_def split: if_splits)
  ultimately show ?thesis by (auto simp: fold_offer hub_recv_def find_None_iff)
qed

definition ex_payload :: msg_payload where
  "ex_payload = \<lparr>pl_area = ''ops'', pl_from = ''a'', pl_kind = ''task'', pl_text = ''x'', pl_target = ''b'',
     pl_ref = 0, pl_blob = [], pl_mime = [], pl_w = 0, pl_h = 0, pl_size = 0, pl_expires = 0, pl_deadline = 0\<rparr>"

theorem publish_wakes_witness:
  "snd (hub_recv 0 (fold hub_publish [mk_message 4 1 0 ex_payload]
     (fst (hub_subscribe \<lparr>f_tenant = 1, f_target = [], f_areas = [''ops'']\<rparr> newHub)))) \<noteq> None"
proof -
  have "map_of (hub_subs (fst (hub_subscribe \<lparr>f_tenant = 1, f_target = [], f_areas = [''ops'']\<rparr> newHub))) 0 =
      Some \<lparr>sub_filter = \<lparr>f_tenant = 1, f_target = [], f_areas = [''ops'']\<rparr>, sub_ch = None\<rparr>"
    by (simp add: hub_subscribe_def newHub_def)
  from publish_wakes [OF this, of "[mk_message 4 1 0 ex_payload]"] show ?thesis
    by (simp add: matches_def mk_message_def ex_payload_def)
qed

end
