(* ===== verification/CommsStore.thy ===== *)
theory CommsStore
  imports EventLog CommsHub
begin

text \<open>
  The coordination space of \<^verbatim>\<open>comms/comms.go\<close> with the task table of \<^verbatim>\<open>comms/state.go\<close>: posting,
  reading, clearing, retention, pins and the rebuild from the journal. Go's maps are association
  lists here. Clock readings are arguments; Post reads the clock twice, once inside the journal's
  Append and once for the message in RAM.
\<close>

section \<open>State\<close>

datatype comms_kind = KMessage | KImage | KClear | KPin | KState

datatype comms_event =
  MessageEv msg_payload
| ImageEv msg_payload
| ClearEv gostring
| PinEv gostring bool
| StateEv nat gostring gostring int
| UndecodableEv comms_kind

fun event_kind :: "comms_event \<Rightarrow> comms_kind" where
  "event_kind (MessageEv _) = KMessage"
| "event_kind (ImageEv _) = KImage"
| "event_kind (ClearEv _) = KClear"
| "event_kind (PinEv _ _) = KPin"
| "event_kind (StateEv _ _ _ _) = KState"
| "event_kind (UndecodableEv k) = k"

datatype comms_error =
  CRequired | CAppend | CNotTask nat | CNotHolder nat gostring | CBadState gostring
| CDecode comms_kind nat

record task_state =
  ts_State :: gostring
  ts_Holder :: gostring
  ts_LeaseUntil :: int
  ts_Deadline :: int

record presence =
  pr_Agent :: gostring
  pr_Area :: gostring
  pr_Status :: gostring
  pr_TS :: int

type_synonym task_map = "(tenant \<times> (nat \<times> task_state) list) list"

record comms_store =
  cs_journal :: "comms_event elog"
  cs_entries :: "message list"
  cs_retainN :: int
  cs_retainAge :: int
  cs_pinned :: "(gostring \<times> tenant list) list"
  cs_hub :: hub
  cs_tasks :: task_map
  cs_presence :: "(tenant \<times> (gostring \<times> presence) list) list"
  cs_leaseTTL :: int
  cs_presenceStale :: int
  cs_ownerLabel :: gostring

section \<open>The task table\<close>

definition inner :: "('k \<times> 'v list) list \<Rightarrow> 'k \<Rightarrow> 'v list" where
  "inner m k = (case map_of m k of None \<Rightarrow> [] | Some b \<Rightarrow> b)"

definition task_at :: "task_map \<Rightarrow> tenant \<Rightarrow> nat \<Rightarrow> task_state option" where
  "task_at tm t q = map_of (inner tm t) q"

definition set_task :: "tenant \<Rightarrow> nat \<Rightarrow> task_state \<Rightarrow> task_map \<Rightarrow> task_map" where
  "set_task t q ts tm = AList.update t (AList.update q ts (inner tm t)) tm"

definition seedTask :: "tenant \<Rightarrow> nat \<Rightarrow> int \<Rightarrow> task_map \<Rightarrow> task_map" where
  "seedTask t q deadline tm =
     (let tm1 = (if map_of tm t = None then AList.update t [] tm else tm)
      in if task_at tm1 t q \<noteq> None then tm1
         else set_task t q \<lparr>ts_State = ''pending'', ts_Holder = [], ts_LeaseUntil = 0, ts_Deadline = deadline\<rparr> tm1)"

definition deleteTask :: "tenant \<Rightarrow> nat \<Rightarrow> task_map \<Rightarrow> task_map" where
  "deleteTask t q tm =
     (case map_of tm t of
        None \<Rightarrow> tm
      | Some byseq \<Rightarrow>
          if map_of byseq q = None then tm
          else let byseq' = AList.delete q byseq
               in if byseq' = [] then AList.delete t tm else AList.update t byseq' tm)"

lemma task_at_Nil [simp]: "task_at [] t q = None"
  by (simp add: task_at_def inner_def)

lemma task_at_set [simp]:
  "task_at (set_task t q ts tm) t' q' = (if t' = t \<and> q' = q then Some ts else task_at tm t' q')"
  by (auto simp: task_at_def set_task_def inner_def update_conv' split: option.split)

lemma task_at_seed [simp]:
  "task_at (seedTask t q d tm) t' q' =
     (if t' = t \<and> q' = q \<and> task_at tm t q = None
      then Some \<lparr>ts_State = ''pending'', ts_Holder = [], ts_LeaseUntil = 0, ts_Deadline = d\<rparr>
      else task_at tm t' q')"
proof -
  have e: "task_at (AList.update t [] tm) = task_at tm" if "map_of tm t = None"
    using that by (auto simp: task_at_def inner_def update_conv' fun_eq_iff split: option.split)
  show ?thesis by (cases "map_of tm t = None") (auto simp: seedTask_def Let_def e)
qed

lemma delete_empty:
  fixes b :: "('a \<times> 'b) list"
  assumes "AList.delete q b = []" and "q' \<noteq> q"
  shows "map_of b q' = None"
proof -
  have "map_of (AList.delete q b) q' = map_of b q'" using assms(2) by (simp add: delete_conv')
  then show ?thesis using assms(1) by simp
qed

lemma task_at_delete [simp]:
  "task_at (deleteTask t q tm) t' q' = (if t' = t \<and> q' = q then None else task_at tm t' q')"
proof (cases "map_of tm t")
  case None
  then show ?thesis by (auto simp: task_at_def deleteTask_def inner_def)
next
  case (Some b)
  show ?thesis
  proof (cases "AList.delete q b = []")
    case True
    show ?thesis using Some True delete_empty [OF True]
      by (auto simp: task_at_def deleteTask_def inner_def delete_conv' Let_def)
  next
    case False
    then show ?thesis using Some
      by (auto simp: task_at_def deleteTask_def inner_def update_conv' delete_conv' Let_def)
  qed
qed

definition delete_tasks :: "message list \<Rightarrow> task_map \<Rightarrow> task_map" where
  "delete_tasks ms tm = fold (\<lambda>m. deleteTask (m_tenant m) (m_seq m)) ms tm"

lemma task_at_delete_tasks:
  "task_at (delete_tasks ms tm) t q =
     (if \<exists>m \<in> set ms. m_tenant m = t \<and> m_seq m = q then None else task_at tm t q)"
  by (induction ms arbitrary: tm) (auto simp: delete_tasks_def)

section \<open>Retention\<close>

text \<open>The marks, walking from the newest entry; \<open>per\<close> counts the kept entries per tenant.\<close>

fun prune_marks :: "int \<Rightarrow> int \<Rightarrow> (tenant \<Rightarrow> int) \<Rightarrow> message list \<Rightarrow> bool list" where
  "prune_marks cutoff n per [] = []"
| "prune_marks cutoff n per (m # ms) =
     (if cutoff > 0 \<and> m_ts m < cutoff then False # prune_marks cutoff n per ms
      else if n > 0 \<and> per (m_tenant m) \<ge> n then False # prune_marks cutoff n per ms
      else True # prune_marks cutoff n (per(m_tenant m := per (m_tenant m) + 1)) ms)"

fun prune_walk :: "(message \<times> bool) list \<Rightarrow> message list \<times> task_map \<Rightarrow> message list \<times> task_map" where
  "prune_walk [] (out, tm) = (out, tm)"
| "prune_walk ((m, k) # ms) (out, tm) =
     (if k then prune_walk ms (out @ [m], tm)
      else prune_walk ms (out, deleteTask (m_tenant m) (m_seq m) tm))"

definition pruneAt :: "int \<Rightarrow> comms_store \<Rightarrow> comms_store" where
  "pruneAt now s =
     (if cs_retainN s \<le> 0 \<and> cs_retainAge s \<le> 0 then s
      else let cutoff = (if cs_retainAge s > 0 then now - cs_retainAge s else 0);
               keep = rev (prune_marks cutoff (cs_retainN s) (\<lambda>_. 0) (rev (cs_entries s)))
           in case prune_walk (zip (cs_entries s) keep) ([], cs_tasks s) of
                (out, tm) \<Rightarrow> s\<lparr>cs_entries := out, cs_tasks := tm\<rparr>)"

definition SetRetention :: "int \<Rightarrow> int \<Rightarrow> int \<Rightarrow> comms_store \<Rightarrow> comms_store" where
  "SetRetention now n age s = pruneAt now (s\<lparr>cs_retainN := n, cs_retainAge := age\<rparr>)"

section \<open>Posting and reading\<close>

definition Post :: "int option \<Rightarrow> int \<Rightarrow> tenant \<Rightarrow> msg_payload \<Rightarrow> comms_store \<Rightarrow> comms_store \<times> (comms_error + nat)" where
  "Post env now t p0 s =
     (if pl_area p0 = [] \<or> pl_from p0 = [] \<or> pl_text p0 = [] then (s, Inl CRequired)
      else let p = (if pl_kind p0 = [] then p0\<lparr>pl_kind := ''note''\<rparr> else p0)
        in case el_append env t (MessageEv p) (cs_journal s) of
             (_, None) \<Rightarrow> (s, Inl CAppend)
           | (l, Some q) \<Rightarrow>
               let msg = mk_message q t now p;
                   s1 = s\<lparr>cs_journal := l, cs_entries := cs_entries s @ [msg],
                          cs_tasks := (if pl_kind p = ''task'' then seedTask t q (pl_deadline p) (cs_tasks s)
                                       else cs_tasks s)\<rparr>;
                   s2 = pruneAt (m_ts msg) s1
               in (s2\<lparr>cs_hub := hub_publish msg (cs_hub s2)\<rparr>, Inr q))"

definition PostImage :: "int option \<Rightarrow> int \<Rightarrow> tenant \<Rightarrow> msg_payload \<Rightarrow> comms_store \<Rightarrow> comms_store \<times> (comms_error + nat)" where
  "PostImage env now t p0 s =
     (if pl_area p0 = [] \<or> pl_from p0 = [] \<or> pl_blob p0 = [] \<or> pl_mime p0 = [] then (s, Inl CRequired)
      else let p = p0\<lparr>pl_kind := ''image''\<rparr>
        in case el_append env t (ImageEv p) (cs_journal s) of
             (_, None) \<Rightarrow> (s, Inl CAppend)
           | (l, Some q) \<Rightarrow>
               let msg = mk_message q t now p;
                   s2 = pruneAt (m_ts msg) (s\<lparr>cs_journal := l, cs_entries := cs_entries s @ [msg]\<rparr>)
               in (s2\<lparr>cs_hub := hub_publish msg (cs_hub s2)\<rparr>, Inr q))"

definition GetBySeq :: "tenant \<Rightarrow> nat \<Rightarrow> comms_store \<Rightarrow> message option" where
  "GetBySeq t q s = find (\<lambda>m. m_tenant m = t \<and> m_seq m = q) (cs_entries s)"

definition GetMsg :: "tenant \<Rightarrow> gostring \<Rightarrow> nat \<Rightarrow> comms_store \<Rightarrow> message option" where
  "GetMsg t area q s = find (\<lambda>m. m_tenant m = t \<and> m_area m = area \<and> m_seq m = q) (cs_entries s)"

definition ReadArea :: "tenant \<Rightarrow> gostring \<Rightarrow> nat \<Rightarrow> comms_store \<Rightarrow> message list" where
  "ReadArea t area since s =
     filter (\<lambda>m. m_tenant m = t \<and> m_area m = area \<and> m_seq m > since) (cs_entries s)"

definition Inbox :: "tenant \<Rightarrow> gostring \<Rightarrow> nat \<Rightarrow> comms_store \<Rightarrow> message list" where
  "Inbox t target since s =
     filter (\<lambda>m. m_tenant m = t \<and> m_target m = target \<and> m_seq m > since) (cs_entries s)"

definition Recent :: "tenant \<Rightarrow> int \<Rightarrow> comms_store \<Rightarrow> message list" where
  "Recent t limit s =
     (let out = filter (\<lambda>m. m_tenant m = t) (cs_entries s)
      in if limit > 0 \<and> int (length out) > limit then last_n (nat limit) out else out)"

fun max_matching :: "comms_filter \<Rightarrow> nat \<Rightarrow> message list \<Rightarrow> nat \<Rightarrow> nat" where
  "max_matching f since [] mx = mx"
| "max_matching f since (m # ms) mx =
     max_matching f since ms (if m_seq m > since \<and> matches f m \<and> m_seq m > mx then m_seq m else mx)"

definition MatchingSince :: "comms_filter \<Rightarrow> nat \<Rightarrow> comms_store \<Rightarrow> nat" where
  "MatchingSince f since s = max_matching f since (cs_entries s) 0"

definition Subscribe :: "comms_filter \<Rightarrow> comms_store \<Rightarrow> comms_store \<times> nat" where
  "Subscribe f s = (case hub_subscribe f (cs_hub s) of (h, i) \<Rightarrow> (s\<lparr>cs_hub := h\<rparr>, i))"

definition in_clear :: "tenant \<Rightarrow> gostring \<Rightarrow> nat \<Rightarrow> message \<Rightarrow> bool" where
  "in_clear t area upto_seq m \<longleftrightarrow> m_tenant m = t \<and> m_area m = area \<and> m_seq m < upto_seq"

definition Clear :: "int option \<Rightarrow> tenant \<Rightarrow> gostring \<Rightarrow> comms_store \<Rightarrow> comms_store \<times> (comms_error + nat)" where
  "Clear env t area s =
     (if area = [] then (s, Inl CRequired)
      else case el_append env t (ClearEv area) (cs_journal s) of
             (_, None) \<Rightarrow> (s, Inl CAppend)
           | (l, Some q) \<Rightarrow>
               (s\<lparr>cs_journal := l, cs_entries := filter (\<lambda>m. \<not> in_clear t area q m) (cs_entries s)\<rparr>,
                Inr (length (filter (in_clear t area q) (cs_entries s)))))"

section \<open>Pins\<close>

definition pin_set :: "gostring \<Rightarrow> tenant \<Rightarrow> bool \<Rightarrow> (gostring \<times> tenant list) list \<Rightarrow> (gostring \<times> tenant list) list" where
  "pin_set b t on ps =
     (if on then AList.update b (List.insert t (inner ps b)) ps
      else if removeAll t (inner ps b) = [] then AList.delete b ps
           else AList.update b (removeAll t (inner ps b)) ps)"

definition Pin :: "int option \<Rightarrow> tenant \<Rightarrow> gostring \<Rightarrow> bool \<Rightarrow> comms_store \<Rightarrow> comms_store \<times> comms_error option" where
  "Pin env t b on s =
     (if b = [] then (s, Some CRequired)
      else case el_append env t (PinEv b on) (cs_journal s) of
             (_, None) \<Rightarrow> (s, Some CAppend)
           | (l, Some _) \<Rightarrow> (s\<lparr>cs_journal := l, cs_pinned := pin_set b t on (cs_pinned s)\<rparr>, None))"

definition LiveBlobIDs :: "comms_store \<Rightarrow> gostring set" where
  "LiveBlobIDs s =
     set (map m_blob (filter (\<lambda>m. m_blob m \<noteq> []) (cs_entries s))) \<union>
     set (map fst (filter (\<lambda>(b, ts). ts \<noteq> []) (cs_pinned s)))"

section \<open>Rebuilding the store (New)\<close>

text \<open>The passes over the journal. A record that does not decode ends the rebuild with an error.\<close>

fun scan_messages :: "int \<Rightarrow> comms_event lrec list \<Rightarrow> message list \<Rightarrow> comms_error + message list" where
  "scan_messages now [] es = Inr es"
| "scan_messages now (r # rs) es =
     (case lr_event r of
        UndecodableEv k \<Rightarrow> Inl (CDecode k (lr_seq r))
      | MessageEv p \<Rightarrow>
          let m = mk_message (lr_seq r) (lr_tenant r) (lr_time r) p
          in if isExpired m now then scan_messages now rs es else scan_messages now rs (es @ [m])
      | ImageEv p \<Rightarrow>
          let m = mk_message (lr_seq r) (lr_tenant r) (lr_time r) p
          in if isExpired m now then scan_messages now rs es else scan_messages now rs (es @ [m])
      | _ \<Rightarrow> scan_messages now rs es)"

fun scan_clears :: "comms_event lrec list \<Rightarrow> message list \<Rightarrow> comms_error + message list" where
  "scan_clears [] es = Inr es"
| "scan_clears (r # rs) es =
     (case lr_event r of
        UndecodableEv k \<Rightarrow> Inl (CDecode k (lr_seq r))
      | ClearEv area \<Rightarrow> scan_clears rs (filter (\<lambda>m. \<not> in_clear (lr_tenant r) area (lr_seq r) m) es)
      | _ \<Rightarrow> scan_clears rs es)"

fun scan_pins :: "comms_event lrec list \<Rightarrow> (gostring \<times> tenant list) list \<Rightarrow> comms_error + (gostring \<times> tenant list) list" where
  "scan_pins [] ps = Inr ps"
| "scan_pins (r # rs) ps =
     (case lr_event r of
        UndecodableEv k \<Rightarrow> Inl (CDecode k (lr_seq r))
      | PinEv b on \<Rightarrow> scan_pins rs (pin_set b (lr_tenant r) on ps)
      | _ \<Rightarrow> scan_pins rs ps)"

definition seed_all :: "message list \<Rightarrow> task_map \<Rightarrow> task_map" where
  "seed_all ms tm =
     fold (\<lambda>m tm. if m_kind m = ''task'' then seedTask (m_tenant m) (m_seq m) (m_deadline m) tm else tm) ms tm"

definition apply_state :: "gostring \<Rightarrow> gostring \<Rightarrow> int \<Rightarrow> task_state \<Rightarrow> task_state" where
  "apply_state st who lease ts = ts\<lparr>ts_State := st, ts_Holder := who, ts_LeaseUntil := lease\<rparr>"

fun replayState :: "comms_event lrec list \<Rightarrow> task_map \<Rightarrow> comms_error + task_map" where
  "replayState [] tm = Inr tm"
| "replayState (r # rs) tm =
     (case lr_event r of
        UndecodableEv k \<Rightarrow> Inl (CDecode k (lr_seq r))
      | StateEv q st who lease \<Rightarrow>
          (case task_at tm (lr_tenant r) q of
             None \<Rightarrow> replayState rs tm
           | Some ts \<Rightarrow> replayState rs (set_task (lr_tenant r) q (apply_state st who lease ts) tm))
      | _ \<Rightarrow> replayState rs tm)"

definition of_kind :: "comms_kind \<Rightarrow> comms_event elog \<Rightarrow> comms_event lrec list" where
  "of_kind k l = el_scan (\<lambda>e. event_kind e = k) l"

definition NewComms :: "comms_event elog \<Rightarrow> int \<Rightarrow> comms_error + comms_store" where
  "NewComms l now =
     (case scan_messages now (of_kind KMessage l) [] of Inl e \<Rightarrow> Inl e | Inr es1 \<Rightarrow>
      (case scan_messages now (of_kind KImage l) es1 of Inl e \<Rightarrow> Inl e | Inr es2 \<Rightarrow>
       (case scan_clears (of_kind KClear l) (sort_key m_seq es2) of Inl e \<Rightarrow> Inl e | Inr es3 \<Rightarrow>
        (case scan_pins (of_kind KPin l) [] of Inl e \<Rightarrow> Inl e | Inr ps \<Rightarrow>
         (case replayState (of_kind KState l) (seed_all es3 []) of Inl e \<Rightarrow> Inl e | Inr tm \<Rightarrow>
            Inr \<lparr>cs_journal = l, cs_entries = es3, cs_retainN = 0, cs_retainAge = 0, cs_pinned = ps,
                 cs_hub = newHub, cs_tasks = tm, cs_presence = [], cs_leaseTTL = 0,
                 cs_presenceStale = 0, cs_ownerLabel = []\<rparr>)))))"

end
