(* ===== verification/CommsTasks.thy ===== *)
theory CommsTasks
  imports CommsStore
begin

text \<open>
  Claiming and resolving tasks (\<^verbatim>\<open>comms/state.go\<close>) and the life cycle of one task as a step
  relation, of which the handlers are instances.
\<close>

section \<open>The handlers\<close>

definition claimable :: "gostring \<Rightarrow> int \<Rightarrow> task_state \<Rightarrow> bool" where
  "claimable who now ts \<longleftrightarrow>
     ts_State ts = ''pending'' \<or>
     ((ts_State ts = ''claimed'' \<or> ts_State ts = ''overdue'') \<and>
      (now > ts_LeaseUntil ts \<or> ts_Holder ts = who))"

definition no_task :: task_state where
  "no_task = \<lparr>ts_State = [], ts_Holder = [], ts_LeaseUntil = 0, ts_Deadline = 0\<rparr>"

text \<open>The answer: the task state, whether the claim succeeded, and the error.\<close>

definition Claim ::
  "int option \<Rightarrow> tenant \<Rightarrow> nat \<Rightarrow> gostring \<Rightarrow> int \<Rightarrow> comms_store \<Rightarrow>
   comms_store \<times> task_state \<times> bool \<times> comms_error option" where
  "Claim env t q who now s =
     (if who = [] then (s, no_task, False, Some CRequired)
      else case task_at (cs_tasks s) t q of
             None \<Rightarrow> (s, no_task, False, Some (CNotTask q))
           | Some ts \<Rightarrow>
               if \<not> claimable who now ts then (s, ts, False, None)
               else let lease = now + cs_leaseTTL s
                 in case el_append env t (StateEv q ''claimed'' who lease) (cs_journal s) of
                      (_, None) \<Rightarrow> (s, ts, False, Some CAppend)
                    | (l, Some _) \<Rightarrow>
                        let ts' = apply_state ''claimed'' who lease ts
                        in (s\<lparr>cs_journal := l, cs_tasks := set_task t q ts' (cs_tasks s)\<rparr>, ts', True, None))"

definition ResolveTask ::
  "int option \<Rightarrow> tenant \<Rightarrow> nat \<Rightarrow> gostring \<Rightarrow> gostring \<Rightarrow> comms_store \<Rightarrow> comms_store \<times> comms_error option" where
  "ResolveTask env t q who st0 s =
     (if who = [] then (s, Some CRequired)
      else let st = (if st0 = [] then ''done'' else st0)
        in if st \<noteq> ''done'' \<and> st \<noteq> ''cancel'' then (s, Some (CBadState st))
           else case task_at (cs_tasks s) t q of
                  None \<Rightarrow> (s, Some (CNotTask q))
                | Some ts \<Rightarrow>
                    let isOwner = (cs_ownerLabel s \<noteq> [] \<and> who = cs_ownerLabel s)
                    in if who \<noteq> ts_Holder ts \<and> \<not> isOwner then (s, Some (CNotHolder q (ts_Holder ts)))
                       else case el_append env t (StateEv q st who 0) (cs_journal s) of
                              (_, None) \<Rightarrow> (s, Some CAppend)
                            | (l, Some _) \<Rightarrow>
                                (s\<lparr>cs_journal := l,
                                   cs_tasks := set_task t q (apply_state st who 0 ts) (cs_tasks s)\<rparr>, None))"

definition TaskOf :: "tenant \<Rightarrow> nat \<Rightarrow> comms_store \<Rightarrow> task_state option" where
  "TaskOf t q s = task_at (cs_tasks s) t q"

definition SetOwnerLabel :: "gostring \<Rightarrow> comms_store \<Rightarrow> comms_store" where
  "SetOwnerLabel label s = s\<lparr>cs_ownerLabel := label\<rparr>"

definition SetLeaseTTL :: "int \<Rightarrow> comms_store \<Rightarrow> comms_store" where
  "SetLeaseTTL d s = (if d \<le> 0 then s else s\<lparr>cs_leaseTTL := d\<rparr>)"

section \<open>The life cycle of a task\<close>

inductive task_step :: "gostring \<Rightarrow> int \<Rightarrow> task_state \<Rightarrow> task_state \<Rightarrow> bool" for owner where
  claim: "who \<noteq> [] \<Longrightarrow> claimable who now ts \<Longrightarrow>
    task_step owner now ts (apply_state ''claimed'' who lease ts)"
| expire: "ts_State ts = ''claimed'' \<Longrightarrow> now > ts_LeaseUntil ts \<Longrightarrow>
    task_step owner now ts (apply_state ''pending'' [] 0 ts)"
| overdue: "ts_State ts \<notin> {''done'', ''cancel'', ''overdue''} \<Longrightarrow> ts_Deadline ts > 0 \<Longrightarrow> now > ts_Deadline ts \<Longrightarrow>
    task_step owner now ts (ts\<lparr>ts_State := ''overdue''\<rparr>)"
| resolve: "who \<noteq> [] \<Longrightarrow> st \<in> {''done'', ''cancel''} \<Longrightarrow>
    who = ts_Holder ts \<or> owner \<noteq> [] \<and> who = owner \<Longrightarrow>
    task_step owner now ts (apply_state st who 0 ts)"

inductive_cases task_stepE: "task_step owner now ts ts'"

definition terminal :: "task_state \<Rightarrow> bool" where
  "terminal ts \<longleftrightarrow> ts_State ts = ''done'' \<or> ts_State ts = ''cancel''"

definition task_ok :: "task_state \<Rightarrow> bool" where
  "task_ok ts \<longleftrightarrow> ts_State ts \<in> {''pending'', ''claimed'', ''done'', ''cancel'', ''overdue''} \<and>
     (ts_State ts = ''pending'' \<longrightarrow> ts_Holder ts = [] \<and> ts_LeaseUntil ts = 0) \<and>
     (ts_State ts \<in> {''claimed'', ''done'', ''cancel''} \<longrightarrow> ts_Holder ts \<noteq> []) \<and>
     (terminal ts \<longrightarrow> ts_LeaseUntil ts = 0)"

lemma apply_state_simps [simp]:
  "ts_State (apply_state st who l ts) = st" "ts_Holder (apply_state st who l ts) = who"
  "ts_LeaseUntil (apply_state st who l ts) = l" "ts_Deadline (apply_state st who l ts) = ts_Deadline ts"
  by (simp_all add: apply_state_def)

lemma task_step_ok: "task_step owner now ts ts' \<Longrightarrow> task_ok ts \<Longrightarrow> task_ok ts'"
  by (erule task_stepE) (auto simp: task_ok_def terminal_def claimable_def)

lemma task_step_terminal: "task_step owner now ts ts' \<Longrightarrow> terminal ts \<Longrightarrow> terminal ts'"
  by (erule task_stepE) (auto simp: terminal_def claimable_def)

lemma task_step_deadline: "task_step owner now ts ts' \<Longrightarrow> ts_Deadline ts' = ts_Deadline ts"
  by (erule task_stepE) auto

text \<open>What a live lease guarantees: until it ends, only the holder or the owner moves the task on.\<close>

definition held_by :: "gostring \<Rightarrow> int \<Rightarrow> task_state \<Rightarrow> bool" where
  "held_by who until ts \<longleftrightarrow>
     terminal ts \<or>
     (ts_State ts = ''claimed'' \<or> ts_State ts = ''overdue'') \<and> ts_Holder ts = who \<and> until \<le> ts_LeaseUntil ts"

lemma held_not_claimable:
  "held_by who until ts \<Longrightarrow> now \<le> until \<Longrightarrow> other \<noteq> who \<Longrightarrow> \<not> claimable other now ts"
  by (auto simp: held_by_def claimable_def terminal_def)

lemma task_step_held:
  assumes "task_step owner now ts ts'" and "held_by who until ts" and "now \<le> until"
    and "\<And>lease. ts' = apply_state ''claimed'' who lease ts \<Longrightarrow> until \<le> lease"
  shows "held_by who until ts'"
  using assms(1)
proof (cases rule: task_step.cases)
  case (claim who' lease)
  then have "who' = who" using held_not_claimable [OF assms(2,3)] by auto
  moreover have "until \<le> lease" using assms(4) claim calculation by simp
  ultimately show ?thesis using claim by (simp add: held_by_def)
qed (use assms in \<open>auto simp: held_by_def terminal_def\<close>)

lemma Claim_step:
  assumes "Claim env t q who now s = (s', ts', True, err)"
  shows "\<exists>ts n. err = None \<and> task_at (cs_tasks s) t q = Some ts \<and> task_step (cs_ownerLabel s) now ts ts' \<and>
    claimable who now ts \<and> who \<noteq> [] \<and>
    ts' = apply_state ''claimed'' who (now + cs_leaseTTL s) ts \<and> 
    el_append env t (StateEv q ''claimed'' who (now + cs_leaseTTL s)) (cs_journal s) = (cs_journal s', Some n) \<and>
    s' = s\<lparr>cs_journal := cs_journal s', cs_tasks := set_task t q ts' (cs_tasks s)\<rparr>"
  using assms
  by (auto simp: Claim_def Let_def split: if_splits option.splits prod.splits intro: task_step.claim)

lemma Claim_fails: "Claim env t q who now s = (s', ts', False, err) \<Longrightarrow> s' = s"
  by (auto simp: Claim_def Let_def split: if_splits option.splits prod.splits)

lemma Resolve_step:
  assumes "ResolveTask env t q who st s = (s', None)"
  shows "\<exists>ts ts' n st'. task_at (cs_tasks s) t q = Some ts \<and> task_step (cs_ownerLabel s) now ts ts' \<and>
    ts' = apply_state st' who 0 ts \<and> st' \<in> {''done'', ''cancel''} \<and>
    el_append env t (StateEv q st' who 0) (cs_journal s) = (cs_journal s', Some n) \<and>
    s' = s\<lparr>cs_journal := cs_journal s', cs_tasks := set_task t q ts' (cs_tasks s)\<rparr>"
proof -
  define st' where "st' = (if st = [] then ''done'' else st)"
  have st': "st' \<in> {''done'', ''cancel''}" and who: "who \<noteq> []"
    using assms by (auto simp: ResolveTask_def st'_def [symmetric] Let_def split: if_splits)
  obtain ts where ts: "task_at (cs_tasks s) t q = Some ts"
    using assms st' who
    by (cases "task_at (cs_tasks s) t q") (auto simp: ResolveTask_def st'_def [symmetric] Let_def split: if_splits)
  have own: "who = ts_Holder ts \<or> cs_ownerLabel s \<noteq> [] \<and> who = cs_ownerLabel s"
    using assms st' who ts by (auto simp: ResolveTask_def st'_def [symmetric] Let_def split: if_splits)
  obtain l r where a: "el_append env t (StateEv q st' who 0) (cs_journal s) = (l, r)" by (metis surj_pair)
  obtain n where r: "r = Some n"
    using assms st' who ts own a
    by (cases r) (auto simp: ResolveTask_def st'_def [symmetric] Let_def split: if_splits)
  have "s' = s\<lparr>cs_journal := l, cs_tasks := set_task t q (apply_state st' who 0 ts) (cs_tasks s)\<rparr>"
    using assms st' who ts own a r
    by (auto simp: ResolveTask_def st'_def [symmetric] Let_def split: if_splits)
  then show ?thesis using ts st' who own a r
    by (intro exI [of _ ts] exI [of _ "apply_state st' who 0 ts"] exI [of _ n] exI [of _ st'])
       (simp add: task_step.resolve)
qed

lemma Resolve_fails: "ResolveTask env t q who st s = (s', Some e) \<Longrightarrow> s' = s"
  by (auto simp: ResolveTask_def Let_def split: if_splits option.splits prod.splits)

section \<open>Properties of claiming\<close>

text \<open>Claim is a compare-and-swap with append before commit: it succeeds exactly when the caller
  names itself, the task exists, it is pending or its lease has passed or the caller already
  holds it (never when it is done or cancelled), and the journal takes the event; then the event
  is the last record, and the task is claimed by the caller until now plus the lease time. In
  every other case nothing changes, in RAM or in the journal.\<close>
theorem Claim_cas:
  "let (s', ts', ok, err) = Claim env t q who now s
   in (ok \<longleftrightarrow> who \<noteq> [] \<and> env \<noteq> None \<and> (\<exists>ts. task_at (cs_tasks s) t q = Some ts \<and> claimable who now ts)) \<and>
      (ok \<longrightarrow> err = None \<and> TaskOf t q s' = Some ts' \<and> ts_State ts' = ''claimed'' \<and> ts_Holder ts' = who \<and>
              ts_LeaseUntil ts' = now + cs_leaseTTL s \<and>
              lr_event (last (el_recs (cs_journal s'))) = StateEv q ''claimed'' who (now + cs_leaseTTL s) \<and>
              (\<forall>t' q'. (t', q') \<noteq> (t, q) \<longrightarrow> TaskOf t' q' s' = TaskOf t' q' s)) \<and>
      (\<not> ok \<longrightarrow> s' = s)"
proof -
  obtain s' ts' ok err where c: "Claim env t q who now s = (s', ts', ok, err)" by (metis surj_pair)
  have iff: "ok \<longleftrightarrow> who \<noteq> [] \<and> env \<noteq> None \<and> (\<exists>ts. task_at (cs_tasks s) t q = Some ts \<and> claimable who now ts)"
    using c by (auto simp: Claim_def Let_def el_append_def split: if_splits option.splits)
  show ?thesis
  proof (cases ok)
    case True
    obtain ts n where "err = None" "ts' = apply_state ''claimed'' who (now + cs_leaseTTL s) ts"
      and a: "el_append env t (StateEv q ''claimed'' who (now + cs_leaseTTL s)) (cs_journal s) = (cs_journal s', Some n)"
      and s': "s' = s\<lparr>cs_journal := cs_journal s', cs_tasks := set_task t q ts' (cs_tasks s)\<rparr>"
      using Claim_step [of env t q who now s s' ts' err] c True by auto
    moreover have "TaskOf t' q' s' = (if t' = t \<and> q' = q then Some ts' else TaskOf t' q' s)" for t' q'
      by (subst s') (simp add: TaskOf_def)
    moreover have "lr_event (last (el_recs (cs_journal s'))) = StateEv q ''claimed'' who (now + cs_leaseTTL s)"
      using a by (auto simp: el_append_Some)
    ultimately show ?thesis using c iff True by auto
  next
    case False
    then have "s' = s" using c Claim_fails [of env t q who now s s' ts' err] by simp
    then show ?thesis unfolding c Let_def prod.case using iff False by blast
  qed
qed

theorem Claim_cas_witness:
  "let s = \<lparr>cs_journal = el_empty, cs_entries = [], cs_retainN = 0, cs_retainAge = 0, cs_pinned = [],
            cs_hub = newHub, cs_tasks = seedTask 1 4 0 [], cs_presence = [], cs_leaseTTL = 10,
            cs_presenceStale = 0, cs_ownerLabel = []\<rparr>
   in fst (snd (snd (Claim (Some 5) 1 4 ''ann'' 6 s)))"
proof -
  define s :: comms_store where "s = \<lparr>cs_journal = el_empty, cs_entries = [], cs_retainN = 0, cs_retainAge = 0, cs_pinned = [],
            cs_hub = newHub, cs_tasks = seedTask 1 4 0 [], cs_presence = [], cs_leaseTTL = 10,
            cs_presenceStale = 0, cs_ownerLabel = []\<rparr>"
  have "\<exists>ts. task_at (cs_tasks s) 1 4 = Some ts \<and> claimable ''ann'' 6 ts"
    by (simp add: s_def claimable_def)
  then show ?thesis
    using Claim_cas [of "Some 5" 1 4 "''ann''" 6 s] unfolding s_def [symmetric] Let_def
    by (auto simp: split_beta)
qed

text \<open>Only legal transitions: from a well-formed task, any number of life-cycle steps lead to a
  well-formed task with the same deadline; once it is done or cancelled it stays so, and then
  nobody can claim it.\<close>
theorem task_life_cycle:
  assumes "rtranclp (\<lambda>ts ts'. \<exists>now. task_step owner now ts ts') ts ts'" and "task_ok ts"
  shows "task_ok ts' \<and> ts_Deadline ts' = ts_Deadline ts \<and>
         (terminal ts \<longrightarrow> terminal ts' \<and> (\<forall>who now. \<not> claimable who now ts'))"
proof -
  have nt: "terminal x \<Longrightarrow> \<not> claimable who now x" for x who now
    by (auto simp: terminal_def claimable_def)
  have "task_ok ts' \<and> ts_Deadline ts' = ts_Deadline ts \<and> (terminal ts \<longrightarrow> terminal ts')"
    using assms
    by (induction rule: rtranclp_induct) (auto dest: task_step_ok task_step_deadline task_step_terminal)
  then show ?thesis using nt by blast
qed

theorem task_life_cycle_witness:
  "terminal \<lparr>ts_State = ''cancel'', ts_Holder = ''ann'', ts_LeaseUntil = 0, ts_Deadline = 0\<rparr>"
proof -
  let ?a = "\<lparr>ts_State = ''done'', ts_Holder = ''ann'', ts_LeaseUntil = 0, ts_Deadline = 0\<rparr>"
  have "task_step [] 0 ?a (apply_state ''cancel'' ''ann'' 0 ?a)" by (rule task_step.resolve) simp_all
  then have "rtranclp (\<lambda>ts ts'. \<exists>now. task_step [] now ts ts') ?a (apply_state ''cancel'' ''ann'' 0 ?a)"
    by blast
  from task_life_cycle [OF this] show ?thesis
    by (simp add: task_ok_def terminal_def apply_state_def)
qed

end
