(* ===== verification/CommsSweep.thy ===== *)
theory CommsSweep
  imports CommsTasks
begin

text \<open>
  Presence slots (\<^verbatim>\<open>comms/presence.go\<close>), the periodic sweep (\<^verbatim>\<open>comms/sweep.go\<close>) and what retention
  keeps. The order in which the sweep visits the task map is an argument (Go's map order is
  unspecified), as are the outcomes of its journal appends, one function for the lease events and
  one for the overdue events.
\<close>

section \<open>Presence\<close>

definition Heartbeat :: "tenant \<Rightarrow> gostring \<Rightarrow> gostring \<Rightarrow> gostring \<Rightarrow> int \<Rightarrow> comms_store \<Rightarrow> comms_store \<times> comms_error option" where
  "Heartbeat t agent area status now s =
     (if agent = [] \<or> status = [] then (s, Some CRequired)
      else (s\<lparr>cs_presence := AList.update t
               (AList.update agent \<lparr>pr_Agent = agent, pr_Area = area, pr_Status = status, pr_TS = now\<rparr>
                  (inner (cs_presence s) t)) (cs_presence s)\<rparr>, None))"

definition PresenceList :: "tenant \<Rightarrow> comms_store \<Rightarrow> presence list" where
  "PresenceList t s = sort_key pr_Agent (map snd (inner (cs_presence s) t))"

definition SetPresenceStale :: "int \<Rightarrow> comms_store \<Rightarrow> comms_store" where
  "SetPresenceStale d s = (if d \<le> 0 then s else s\<lparr>cs_presenceStale := d\<rparr>)"

definition prunePresence :: "int \<Rightarrow> comms_store \<Rightarrow> comms_store" where
  "prunePresence now s =
     (if cs_presenceStale s \<le> 0 then s
      else s\<lparr>cs_presence :=
        filter (\<lambda>(t, slots). slots \<noteq> [])
          (map (\<lambda>(t, slots). (t, filter (\<lambda>(a, p). \<not> now - pr_TS p > cs_presenceStale s) slots)) (cs_presence s))\<rparr>)"

section \<open>The sweep\<close>

type_synonym task_key = "tenant \<times> nat"
type_synonym sweep_state = "comms_event elog \<times> task_map \<times> message list"

definition nudge_for :: "message list \<Rightarrow> task_key \<Rightarrow> message list" where
  "nudge_for es k =
     (case find (\<lambda>m. (m_tenant m, m_seq m) = k) (rev es) of None \<Rightarrow> [] | Some m \<Rightarrow> [m])"

text \<open>The second half of the loop body: flag a task whose deadline has passed.\<close>

definition sweep_deadline :: "int option \<Rightarrow> int \<Rightarrow> message list \<Rightarrow> task_key \<Rightarrow> task_state \<Rightarrow> sweep_state \<Rightarrow> sweep_state" where
  "sweep_deadline env now es k ts = (\<lambda>(l, tm, ns).
     if ts_State ts \<noteq> ''done'' \<and> ts_State ts \<noteq> ''cancel'' \<and> ts_State ts \<noteq> ''overdue'' \<and>
        ts_Deadline ts > 0 \<and> now > ts_Deadline ts
     then case el_append env (fst k) (StateEv (snd k) ''overdue'' (ts_Holder ts) (ts_LeaseUntil ts)) l of
            (_, None) \<Rightarrow> (l, tm, ns)
          | (l', Some _) \<Rightarrow>
              (l', set_task (fst k) (snd k) (ts\<lparr>ts_State := ''overdue''\<rparr>) tm, ns @ nudge_for es k)
     else (l, tm, ns))"

definition sweep_task :: "int option \<Rightarrow> int option \<Rightarrow> int \<Rightarrow> message list \<Rightarrow> task_key \<Rightarrow> sweep_state \<Rightarrow> sweep_state" where
  "sweep_task env1 env2 now es k = (\<lambda>(l, tm, ns).
     case task_at tm (fst k) (snd k) of
       None \<Rightarrow> (l, tm, ns)
     | Some ts \<Rightarrow>
         if ts_State ts = ''claimed'' \<and> now > ts_LeaseUntil ts
         then case el_append env1 (fst k) (StateEv (snd k) ''pending'' [] 0) l of
                (_, None) \<Rightarrow> (l, tm, ns)
              | (l', Some _) \<Rightarrow>
                  let ts' = apply_state ''pending'' [] 0 ts
                  in sweep_deadline env2 now es k ts'
                       (l', set_task (fst k) (snd k) ts' tm, ns @ nudge_for es k)
         else sweep_deadline env2 now es k ts (l, tm, ns))"

definition sweep_tasks :: "(task_key \<Rightarrow> int option) \<Rightarrow> (task_key \<Rightarrow> int option) \<Rightarrow> int \<Rightarrow> message list \<Rightarrow>
    task_key list \<Rightarrow> sweep_state \<Rightarrow> sweep_state" where
  "sweep_tasks env1 env2 now es ks st = fold (\<lambda>k. sweep_task (env1 k) (env2 k) now es k) ks st"

definition sweepOnce :: "(task_key \<Rightarrow> int option) \<Rightarrow> (task_key \<Rightarrow> int option) \<Rightarrow> int \<Rightarrow> task_key list \<Rightarrow>
    comms_store \<Rightarrow> comms_store \<times> message list" where
  "sweepOnce env1 env2 now ks s =
     (case sweep_tasks env1 env2 now (cs_entries s) ks (cs_journal s, cs_tasks s, []) of
        (l, tm, nudges) \<Rightarrow>
          let s1 = s\<lparr>cs_journal := l,
                     cs_tasks := delete_tasks (filter (\<lambda>m. isExpired m now) (cs_entries s)) tm,
                     cs_entries := filter (\<lambda>m. \<not> isExpired m now) (cs_entries s)\<rparr>
          in (pruneAt now (prunePresence now s1), nudges))"

text \<open>One tick of \<^verbatim>\<open>Start\<close>: sweep, then publish the nudges.\<close>

definition sweep_tick :: "(task_key \<Rightarrow> int option) \<Rightarrow> (task_key \<Rightarrow> int option) \<Rightarrow> int \<Rightarrow> task_key list \<Rightarrow>
    comms_store \<Rightarrow> comms_store" where
  "sweep_tick env1 env2 now ks s =
     (case sweepOnce env1 env2 now ks s of (s', ns) \<Rightarrow> s'\<lparr>cs_hub := fold hub_publish ns (cs_hub s')\<rparr>)"

text \<open>The keys a sweep must visit.\<close>

definition task_keys :: "task_map \<Rightarrow> task_key set" where
  "task_keys tm = {(t, q). task_at tm t q \<noteq> None}"

section \<open>What retention keeps\<close>

fun keep_marked :: "message list \<Rightarrow> bool list \<Rightarrow> message list" where
  "keep_marked (m # ms) (k # ks) = (if k then m # keep_marked ms ks else keep_marked ms ks)"
| "keep_marked _ _ = []"

lemma length_prune_marks [simp]: "length (prune_marks c n per ms) = length ms"
  by (induction ms arbitrary: per) auto

lemma keep_marked_append:
  "length ms = length ks \<Longrightarrow> keep_marked (ms @ ms') (ks @ ks') = keep_marked ms ks @ keep_marked ms' ks'"
  by (induction ms ks rule: list_induct2) auto

lemma rev_keep_marked:
  "length ms = length ks \<Longrightarrow> rev (keep_marked ms ks) = keep_marked (rev ms) (rev ks)"
  by (induction ms ks rule: list_induct2) (auto simp: keep_marked_append)

lemma prune_walk_eq:
  "length ms = length ks \<Longrightarrow>
   prune_walk (zip ms ks) (out, tm) = (out @ keep_marked ms ks, delete_tasks (keep_marked ms (map Not ks)) tm)"
  by (induction ms ks arbitrary: out tm rule: list_induct2) (auto simp: delete_tasks_def)

text \<open>The specification: of each tenant, the newest n of the entries that are not too old.\<close>

definition fresh_enough :: "int \<Rightarrow> message \<Rightarrow> bool" where
  "fresh_enough cutoff m \<longleftrightarrow> \<not> (cutoff > 0 \<and> m_ts m < cutoff)"

lemma keep_marks_tenant:
  assumes "0 \<le> per t"
  shows "filter (\<lambda>m. m_tenant m = t) (keep_marked ms (prune_marks c n per ms)) =
    (let fr = filter (\<lambda>m. m_tenant m = t \<and> fresh_enough c m) ms
     in if n > 0 then take (nat (n - per t)) fr else fr)"
  using assms
proof (induction ms arbitrary: per)
  case (Cons m ms)
  show ?case
  proof (cases "fresh_enough c m")
    case False
    then show ?thesis using Cons by (simp add: fresh_enough_def)
  next
    case True
    then have nc: "\<not> (c > 0 \<and> m_ts m < c)" by (simp add: fresh_enough_def)
    show ?thesis
    proof (cases "n > 0 \<and> per (m_tenant m) \<ge> n")
      case drop: True
      then show ?thesis using Cons nc True by (cases "m_tenant m = t") (auto simp: Let_def)
    next
      case keep: False
      define per' where "per' = per(m_tenant m := per (m_tenant m) + 1)"
      have le: "0 \<le> per' t" and p': "per' t = (if m_tenant m = t then per t + 1 else per t)"
        using Cons.prems by (auto simp: per'_def)
      have step: "keep_marked (m # ms) (prune_marks c n per (m # ms)) = m # keep_marked ms (prune_marks c n per' ms)"
        using nc keep by (auto simp: per'_def)
      have "nat (n - per t) = Suc (nat (n - (per t + 1)))" if "n > 0" "\<not> per t \<ge> n"
        using that by simp
      then show ?thesis using Cons.IH [of per'] le True keep p'
        unfolding step by (cases "m_tenant m = t") (auto simp: Let_def)
    qed
  qed
qed simp

definition prune_cutoff :: "int \<Rightarrow> comms_store \<Rightarrow> int" where
  "prune_cutoff now s = (if cs_retainAge s > 0 then now - cs_retainAge s else 0)"

lemma pruneAt_eq:
  "\<not> (cs_retainN s \<le> 0 \<and> cs_retainAge s \<le> 0) \<Longrightarrow>
   pruneAt now s =
     (let ks = prune_marks (prune_cutoff now s) (cs_retainN s) (\<lambda>_. 0) (rev (cs_entries s))
      in s\<lparr>cs_entries := rev (keep_marked (rev (cs_entries s)) ks),
           cs_tasks := delete_tasks (keep_marked (cs_entries s) (map Not (rev ks))) (cs_tasks s)\<rparr>)"
  by (auto simp: pruneAt_def prune_cutoff_def Let_def prune_walk_eq rev_keep_marked)

lemma take_rev_drop: "rev (take n (rev xs)) = drop (length xs - n) xs"
  by (simp add: take_rev)

lemma prune_tenant:
  "\<not> (cs_retainN s \<le> 0 \<and> cs_retainAge s \<le> 0) \<Longrightarrow>
   filter (\<lambda>m. m_tenant m = t) (cs_entries (pruneAt now s)) =
     (let fr = filter (\<lambda>m. m_tenant m = t \<and> fresh_enough (prune_cutoff now s) m) (cs_entries s)
      in if cs_retainN s > 0 then drop (length fr - nat (cs_retainN s)) fr else fr)"
  using keep_marks_tenant [of "\<lambda>_. 0" t "rev (cs_entries s)" "prune_cutoff now s" "cs_retainN s"]
  by (auto simp: pruneAt_eq Let_def rev_filter [symmetric] take_rev_drop)

lemma keep_marked_split:
  "length ms = length ks \<Longrightarrow> distinct ms \<Longrightarrow>
   set (keep_marked ms (map Not ks)) = set ms - set (keep_marked ms ks)"
proof (induction ms ks rule: list_induct2)
  case (Cons m ms k ks)
  have "set (keep_marked ms ks') \<subseteq> set ms" for ks'
    by (induction ms ks' rule: keep_marked.induct) auto
  then show ?case using Cons by auto
qed simp

text \<open>Retention is per tenant: after a prune, each tenant's messages in the index are exactly the
  newest n of its own messages that are young enough (n or the age limit may be off), in their
  old order, so what another tenant posted never evicts one; and exactly the tasks of dropped
  messages lose their state.\<close>
theorem pruneAt_per_tenant:
  assumes "cs_retainN s > 0 \<or> cs_retainAge s > 0" and "distinct (map (\<lambda>m. (m_tenant m, m_seq m)) (cs_entries s))"
  shows "filter (\<lambda>m. m_tenant m = t) (cs_entries (pruneAt now s)) =
           (let fr = filter (\<lambda>m. m_tenant m = t \<and>
                              \<not> (cs_retainAge s > 0 \<and> now - cs_retainAge s > 0 \<and> m_ts m < now - cs_retainAge s))
                        (cs_entries s)
            in if cs_retainN s > 0 then last_n (nat (cs_retainN s)) fr else fr) \<and>
         TaskOf t q (pruneAt now s) =
           (if \<exists>m \<in> set (cs_entries s) - set (cs_entries (pruneAt now s)). m_tenant m = t \<and> m_seq m = q
            then None else TaskOf t q s)"
proof -
  have on: "\<not> (cs_retainN s \<le> 0 \<and> cs_retainAge s \<le> 0)" using assms(1) by auto
  have d: "distinct (cs_entries s)" using assms(2) by (simp add: distinct_map)
  let ?ks = "prune_marks (prune_cutoff now s) (cs_retainN s) (\<lambda>_. 0) (rev (cs_entries s))"
  have "set (cs_entries (pruneAt now s)) = set (keep_marked (cs_entries s) (rev ?ks))"
    using rev_keep_marked [of "rev (cs_entries s)" ?ks] by (simp add: pruneAt_eq [OF on] Let_def)
  then have "set (keep_marked (cs_entries s) (map Not (rev ?ks))) =
      set (cs_entries s) - set (cs_entries (pruneAt now s))"
    using keep_marked_split [of "cs_entries s" "rev ?ks"] d by simp
  then have "TaskOf t q (pruneAt now s) =
      (if \<exists>m \<in> set (cs_entries s) - set (cs_entries (pruneAt now s)). m_tenant m = t \<and> m_seq m = q
       then None else TaskOf t q s)"
    by (auto simp: pruneAt_eq [OF on] Let_def TaskOf_def task_at_delete_tasks)
  moreover have "fresh_enough (prune_cutoff now s) m \<longleftrightarrow>
      \<not> (cs_retainAge s > 0 \<and> now - cs_retainAge s > 0 \<and> m_ts m < now - cs_retainAge s)" for m
    by (simp add: fresh_enough_def prune_cutoff_def)
  moreover have "drop (length fr - nat n) fr = last_n (nat n) fr" for fr :: "message list" and n
    by (simp add: last_n_def)
  ultimately show ?thesis using prune_tenant [OF on, of t now] by (simp add: Let_def)
qed

definition ex_comms :: comms_store where
  "ex_comms = \<lparr>cs_journal = \<lparr>el_recs = [], el_next = 9\<rparr>,
     cs_entries = [mk_message 4 1 10 ex_payload, mk_message 5 2 11 ex_payload, mk_message 6 2 12 ex_payload],
     cs_retainN = 1, cs_retainAge = 0, cs_pinned = [], cs_hub = newHub,
     cs_tasks = seedTask 2 6 20 (seedTask 2 5 0 (seedTask 1 4 0 [])), cs_presence = [], cs_leaseTTL = 5,
     cs_presenceStale = 0, cs_ownerLabel = []\<rparr>"

theorem pruneAt_per_tenant_witness:
  "filter (\<lambda>m. m_tenant m = 2) (cs_entries (pruneAt 20 ex_comms)) = [mk_message 6 2 12 ex_payload] \<and>
   filter (\<lambda>m. m_tenant m = 1) (cs_entries (pruneAt 20 ex_comms)) = [mk_message 4 1 10 ex_payload]"
  using pruneAt_per_tenant [of ex_comms 2 20] pruneAt_per_tenant [of ex_comms 1 20]
  by (simp add: ex_comms_def mk_message_def last_n_def)

end
