(* ===== verification/CommsRun.thy ===== *)
theory CommsRun
  imports CommsSweep
begin

text \<open>
  Runs of the coordination space: the operations as one step function, the invariants they keep,
  and what holds across any sequence of them (claims exclude each other, a restart rebuilds the
  live state from the journal, a polling reader misses nothing).
\<close>

section \<open>The sweep, task by task\<close>

text \<open>The transitions the sweep makes on its own.\<close>

definition quiet_step :: "int \<Rightarrow> task_state \<Rightarrow> task_state \<Rightarrow> bool" where
  "quiet_step now ts ts' \<longleftrightarrow>
     ts' = ts \<or>
     ts_State ts = ''claimed'' \<and> now > ts_LeaseUntil ts \<and> ts' = apply_state ''pending'' [] 0 ts \<or>
     ts_State ts \<notin> {''done'', ''cancel'', ''overdue''} \<and> ts_Deadline ts > 0 \<and> now > ts_Deadline ts \<and>
       ts' = ts\<lparr>ts_State := ''overdue''\<rparr>"

definition quiet_steps :: "int \<Rightarrow> task_state \<Rightarrow> task_state \<Rightarrow> bool" where
  "quiet_steps now ts ts' \<longleftrightarrow> (\<exists>mid. quiet_step now ts mid \<and> quiet_step now mid ts')"

lemma quiet_step_refl [simp]: "quiet_step now ts ts"
  by (simp add: quiet_step_def)

lemma quiet_step_task_step: "quiet_step now ts ts' \<Longrightarrow> ts' = ts \<or> task_step owner now ts ts'"
  by (auto simp: quiet_step_def intro: task_step.intros)

lemma quiet_step_held:
  assumes "quiet_step now ts ts'" and "held_by who until ts" and "now \<le> until"
  shows "held_by who until ts'"
  using assms by (auto simp: quiet_step_def held_by_def terminal_def)

text \<open>What one journal event does to one task's state in a replay.\<close>

definition play_state :: "tenant \<Rightarrow> nat \<Rightarrow> comms_event lrec \<Rightarrow> task_state \<Rightarrow> task_state" where
  "play_state t q r ts =
     (case lr_event r of
        StateEv q' st who lease \<Rightarrow> if lr_tenant r = t \<and> q' = q then apply_state st who lease ts else ts
      | _ \<Rightarrow> ts)"

definition task_fold :: "comms_event lrec list \<Rightarrow> tenant \<Rightarrow> nat \<Rightarrow> task_state \<Rightarrow> task_state" where
  "task_fold rs t q = fold (play_state t q) rs"

lemma task_fold_append: "task_fold (rs @ rs') t q ts = task_fold rs' t q (task_fold rs t q ts)"
  by (simp add: task_fold_def)

lemma task_fold_single:
  "task_fold [r] t q ts = play_state t q r ts" "task_fold [] t q ts = ts"
  by (simp_all add: task_fold_def)

text \<open>The table tracks the journal: each task is the replay of its events from its base state.\<close>

definition tracks :: "comms_event elog \<Rightarrow> task_map \<Rightarrow> (tenant \<Rightarrow> nat \<Rightarrow> task_state option) \<Rightarrow> bool" where
  "tracks l tm base \<longleftrightarrow> (\<forall>t q. task_at tm t q = map_option (task_fold (el_recs l) t q) (base t q))"

lemma tracks_state:
  assumes "tracks l tm base" and "el_append env t (StateEv q st who lease) l = (l', Some n)"
    and "task_at tm t q = Some ts"
  shows "tracks l' (set_task t q (apply_state st who lease ts) tm) base"
  using assms
  by (auto simp: tracks_def el_append_Some task_fold_append task_fold_single play_state_def
      intro!: option.map_cong)

lemma tracks_other:
  assumes "tracks l tm base" and "el_append env t e l = (l', Some n)" and "event_kind e \<noteq> KState"
  shows "tracks l' tm base"
  using assms
  by (cases e) (auto simp: tracks_def el_append_Some task_fold_append task_fold_single play_state_def
      intro!: option.map_cong)

definition pending_task :: "int \<Rightarrow> task_state" where
  "pending_task d = \<lparr>ts_State = ''pending'', ts_Holder = [], ts_LeaseUntil = 0, ts_Deadline = d\<rparr>"

text \<open>The events refer to numbers given out before.\<close>

definition refs_ok :: "comms_event elog \<Rightarrow> bool" where
  "refs_ok l \<longleftrightarrow> (\<forall>r \<in> set (el_recs l). \<forall>q st who lease. lr_event r = StateEv q st who lease \<longrightarrow> q < el_next l)"

lemma task_fold_fresh: "refs_ok l \<Longrightarrow> el_next l \<le> q \<Longrightarrow> task_fold (el_recs l) t q ts = ts"
proof -
  assume "refs_ok l" "el_next l \<le> q"
  then have "\<forall>r \<in> set (el_recs l). \<forall>st who lease. lr_event r \<noteq> StateEv q st who lease"
    by (auto simp: refs_ok_def)
  then have "fold (play_state t q) rs ts = ts" if "set rs \<subseteq> set (el_recs l)" for rs
    using that by (induction rs) (auto simp: play_state_def split: comms_event.split)
  then show ?thesis by (simp add: task_fold_def)
qed

definition old_keys :: "nat \<Rightarrow> task_map \<Rightarrow> bool" where
  "old_keys n tm \<longleftrightarrow> (\<forall>t q. task_at tm t q \<noteq> None \<longrightarrow> q < n)"

text \<open>One iteration of the sweep's loop.\<close>

definition sweep_rel :: "int \<Rightarrow> sweep_state \<Rightarrow> sweep_state \<Rightarrow> bool" where
  "sweep_rel now a b \<longleftrightarrow> (case (a, b) of ((l, tm, ns), (l', tm', ns')) \<Rightarrow>
     (\<forall>t q. rel_option (\<lambda>ts ts'. rtranclp (quiet_step now) ts ts') (task_at tm t q) (task_at tm' t q)) \<and>
     (\<forall>base. tracks l tm base \<longrightarrow> tracks l' tm' base) \<and>
     (\<exists>rs. el_recs l' = el_recs l @ rs \<and> (\<forall>r \<in> set rs. event_kind (lr_event r) = KState)) \<and>
     el_next l \<le> el_next l' \<and> (el_ok l \<longrightarrow> el_ok l') \<and>
     (refs_ok l \<and> old_keys (el_next l) tm \<longrightarrow> refs_ok l' \<and> old_keys (el_next l') tm'))"

lemma sweep_rel_refl [simp]: "sweep_rel now a a"
  by (cases a) (auto simp: sweep_rel_def option.rel_refl)

lemma rel_option_trans:
  "(\<And>x y z. P x y \<Longrightarrow> P y z \<Longrightarrow> P x z) \<Longrightarrow> rel_option P a b \<Longrightarrow> rel_option P b c \<Longrightarrow> rel_option P a c"
  by (cases a; cases b; cases c) auto

lemma sweep_rel_trans:
  assumes "sweep_rel now a b" and "sweep_rel now b c"
  shows "sweep_rel now a c"
proof -
  obtain l tm ns l1 tm1 ns1 l2 tm2 ns2 where s: "a = (l, tm, ns)" "b = (l1, tm1, ns1)" "c = (l2, tm2, ns2)"
    by (metis prod_cases3)
  have "rel_option (rtranclp (quiet_step now)) (task_at tm t q) (task_at tm2 t q)" for t q
    by (rule rel_option_trans [of "rtranclp (quiet_step now)", OF rtranclp_trans])
       (use assms s in \<open>auto simp: sweep_rel_def\<close>)
  then show ?thesis using assms s by (auto simp: sweep_rel_def)
qed

lemma sweep_rel_event:
  assumes "task_at tm t q = Some ts" and "el_append env t (StateEv q st who lease) l = (l', Some n)"
    and "quiet_step now ts (apply_state st who lease ts)"
  shows "sweep_rel now (l, tm, ns) (l', set_task t q (apply_state st who lease ts) tm, ns')"
proof -
  have "rel_option (rtranclp (quiet_step now)) (task_at tm t' q')
      (task_at (set_task t q (apply_state st who lease ts) tm) t' q')" for t' q'
    using assms(1,3) by (auto simp: option.rel_refl)
  moreover have "refs_ok l \<Longrightarrow> old_keys (el_next l) tm \<Longrightarrow>
      refs_ok l' \<and> old_keys (el_next l') (set_task t q (apply_state st who lease ts) tm)"
    using assms(1,2) by (fastforce simp: refs_ok_def old_keys_def el_append_Some)
  moreover have "el_ok l \<Longrightarrow> el_ok l'" using assms(2) el_ok_append by (metis fst_conv)
  ultimately show ?thesis using tracks_state [OF _ assms(2,1)] assms(2)
    by (auto simp: sweep_rel_def el_append_Some)
qed

lemma overdue_apply: "ts\<lparr>ts_State := ''overdue''\<rparr> = apply_state ''overdue'' (ts_Holder ts) (ts_LeaseUntil ts) ts"
  by (simp add: apply_state_def)

lemma sweep_deadline_rel:
  assumes "task_at tm (fst k) (snd k) = Some ts"
  shows "sweep_rel now (l, tm, ns) (sweep_deadline env now es k ts (l, tm, ns))"
proof (cases "sweep_deadline env now es k ts (l, tm, ns) = (l, tm, ns)")
  case False
  then have c: "ts_State ts \<noteq> ''done'' \<and> ts_State ts \<noteq> ''cancel'' \<and> ts_State ts \<noteq> ''overdue'' \<and>
      ts_Deadline ts > 0 \<and> now > ts_Deadline ts"
    by (auto simp: sweep_deadline_def split: if_splits)
  then obtain l' n where a: "el_append env (fst k) (StateEv (snd k) ''overdue'' (ts_Holder ts) (ts_LeaseUntil ts)) l = (l', Some n)"
    using False by (auto simp: sweep_deadline_def split: prod.splits option.splits)
  have "quiet_step now ts (apply_state ''overdue'' (ts_Holder ts) (ts_LeaseUntil ts) ts)"
    using c by (simp add: quiet_step_def overdue_apply)
  from sweep_rel_event [OF assms a this, of ns "ns @ nudge_for es k"]
  show ?thesis using c a by (simp add: sweep_deadline_def overdue_apply)
qed simp

lemma sweep_task_rel: "sweep_rel now st (sweep_task e1 e2 now es k st)"
proof -
  obtain l tm ns where st: "st = (l, tm, ns)" by (metis prod_cases3)
  show ?thesis
  proof (cases "task_at tm (fst k) (snd k)")
    case None
    then show ?thesis by (simp add: st sweep_task_def)
  next
    case (Some ts)
    show ?thesis
    proof (cases "ts_State ts = ''claimed'' \<and> now > ts_LeaseUntil ts")
      case False
      then show ?thesis using Some sweep_deadline_rel [OF Some] by (auto simp: st sweep_task_def)
    next
      case c: True
      obtain l' r where a: "el_append e1 (fst k) (StateEv (snd k) ''pending'' [] 0) l = (l', r)" by (metis surj_pair)
      show ?thesis
      proof (cases r)
        case None
        then show ?thesis using Some c a by (simp add: st sweep_task_def)
      next
        case (Some n)
        let ?ts = "apply_state ''pending'' [] 0 ts"
        have q: "quiet_step now ts ?ts" using c by (simp add: quiet_step_def)
        have s1: "sweep_rel now (l, tm, ns) (l', set_task (fst k) (snd k) ?ts tm, ns @ nudge_for es k)"
          by (rule sweep_rel_event [OF \<open>task_at tm (fst k) (snd k) = Some ts\<close> a [unfolded Some] q])
        have "task_at (set_task (fst k) (snd k) ?ts tm) (fst k) (snd k) = Some ?ts" by simp
        from sweep_rel_trans [OF s1 sweep_deadline_rel [OF this]] show ?thesis
          using \<open>task_at tm (fst k) (snd k) = Some ts\<close> c a Some by (simp add: st sweep_task_def Let_def)
      qed
    qed
  qed
qed

lemma sweep_tasks_rel: "sweep_rel now st (sweep_tasks e1 e2 now es ks st)"
proof (induction ks arbitrary: st)
  case (Cons k ks)
  show ?case
    using sweep_rel_trans [OF sweep_task_rel Cons.IH [of "sweep_task (e1 k) (e2 k) now es k st"]]
    by (simp add: sweep_tasks_def)
qed (simp add: sweep_tasks_def)

section \<open>Operations and invariants\<close>

datatype comms_op =
  OpPost "int option" int tenant msg_payload
| OpImage "int option" int tenant msg_payload
| OpClear "int option" tenant gostring
| OpClaim "int option" tenant nat gostring int
| OpResolve "int option" tenant nat gostring gostring
| OpPin "int option" tenant gostring bool
| OpSweep "task_key \<Rightarrow> int option" "task_key \<Rightarrow> int option" int "task_key list"
| OpHeartbeat tenant gostring gostring gostring int
| OpRetention int int int
| OpOther nat \<comment> \<open>appends of the journal's other clients\<close>

fun comms_step :: "comms_op \<Rightarrow> comms_store \<Rightarrow> comms_store" where
  "comms_step (OpPost env now t p) s = fst (Post env now t p s)"
| "comms_step (OpImage env now t p) s = fst (PostImage env now t p s)"
| "comms_step (OpClear env t area) s = fst (Clear env t area s)"
| "comms_step (OpClaim env t q who now) s = fst (Claim env t q who now s)"
| "comms_step (OpResolve env t q who st) s = fst (ResolveTask env t q who st s)"
| "comms_step (OpPin env t b on) s = fst (Pin env t b on s)"
| "comms_step (OpSweep e1 e2 now ks) s = sweep_tick e1 e2 now ks s"
| "comms_step (OpHeartbeat t agent area st now) s = fst (Heartbeat t agent area st now s)"
| "comms_step (OpRetention now n age) s = SetRetention now n age s"
| "comms_step (OpOther k) s = s\<lparr>cs_journal := el_skip k (cs_journal s)\<rparr>"

definition comms_inv :: "comms_store \<Rightarrow> bool" where
  "comms_inv s \<longleftrightarrow>
     el_ok (cs_journal s) \<and> sorted_wrt (<) (map m_seq (cs_entries s)) \<and>
     (\<forall>m \<in> set (cs_entries s). m_seq m < el_next (cs_journal s)) \<and>
     old_keys (el_next (cs_journal s)) (cs_tasks s) \<and> refs_ok (cs_journal s)"

definition comms_empty :: "int \<Rightarrow> gostring \<Rightarrow> comms_store" where
  "comms_empty ttl owner = \<lparr>cs_journal = el_empty, cs_entries = [], cs_retainN = 0, cs_retainAge = 0, cs_pinned = [],
     cs_hub = newHub, cs_tasks = [], cs_presence = [], cs_leaseTTL = ttl, cs_presenceStale = 0,
     cs_ownerLabel = owner\<rparr>"

lemma comms_inv_empty [simp]: "comms_inv (comms_empty ttl owner)"
  by (simp add: comms_inv_def comms_empty_def old_keys_def refs_ok_def el_empty_def el_ok_def)

lemma old_keys_mono: "old_keys n tm \<Longrightarrow> n \<le> n' \<Longrightarrow> old_keys n' tm"
  by (fastforce simp: old_keys_def)

lemma old_keys_delete [simp]: "old_keys n tm \<Longrightarrow> old_keys n (delete_tasks ms tm)"
  by (auto simp: old_keys_def task_at_delete_tasks split: if_splits)

lemma keep_marked_filter:
  "length ms = length ks \<Longrightarrow> sorted_wrt (<) (map f ms) \<Longrightarrow>
   sorted_wrt (<) (map f (keep_marked ms ks)) \<and> set (keep_marked ms ks) \<subseteq> set ms"
  by (induction ms ks rule: list_induct2) auto

text \<open>A prune only drops entries and tasks.\<close>

lemma pruneAt_drops:
  "\<exists>es gone. pruneAt now s = s\<lparr>cs_entries := es, cs_tasks := delete_tasks gone (cs_tasks s)\<rparr> \<and>
     set es \<subseteq> set (cs_entries s) \<and>
     (sorted_wrt (<) (map m_seq (cs_entries s)) \<longrightarrow> sorted_wrt (<) (map m_seq es))"
proof (cases "cs_retainN s \<le> 0 \<and> cs_retainAge s \<le> 0")
  case True
  have "s = s\<lparr>cs_entries := cs_entries s, cs_tasks := delete_tasks [] (cs_tasks s)\<rparr>"
    by (simp add: delete_tasks_def)
  then show ?thesis using True by (intro exI [of _ "cs_entries s"] exI [of _ "[]"]) (simp add: pruneAt_def)
next
  case False
  let ?ks = "prune_marks (prune_cutoff now s) (cs_retainN s) (\<lambda>_. 0) (rev (cs_entries s))"
  have r: "rev (keep_marked (rev (cs_entries s)) ?ks) = keep_marked (cs_entries s) (rev ?ks)"
    by (simp add: rev_keep_marked)
  have "set (keep_marked ms ks) \<subseteq> set ms" for ms ks
    by (induction ms ks rule: keep_marked.induct) auto
  then show ?thesis
    using keep_marked_filter [of "cs_entries s" "rev ?ks" m_seq]
    unfolding pruneAt_eq [OF False] Let_def r
    by - (rule exI, rule exI, rule conjI, rule refl, auto)
qed

lemma pruneAt_inv: "comms_inv s \<Longrightarrow> comms_inv (pruneAt now s)"
  using pruneAt_drops [of now s] by (auto simp: comms_inv_def)

text \<open>What every operation does to the task table: it may forget a task, seed a fresh one as
  pending, or take legal steps.\<close>

definition moves :: "gostring \<Rightarrow> task_map \<Rightarrow> task_map \<Rightarrow> nat \<Rightarrow> bool" where
  "moves owner tm tm' fresh \<longleftrightarrow>
     (\<forall>t q. task_at tm' t q = None \<or>
        (case task_at tm t q of
           None \<Rightarrow> fresh \<le> q \<and> (\<exists>d. task_at tm' t q = Some (pending_task d))
         | Some ts \<Rightarrow> \<exists>ts'. task_at tm' t q = Some ts' \<and> rtranclp (\<lambda>x y. \<exists>now. task_step owner now x y) ts ts'))"

lemma moves_refl [simp]: "moves owner tm tm n"
  by (auto simp: moves_def split: option.split)

lemma moves_delete: "moves owner tm tm' n \<Longrightarrow> moves owner tm (delete_tasks ms tm') n"
  unfolding moves_def
proof (intro allI)
  fix t q
  assume m: "\<forall>t q. task_at tm' t q = None \<or>
      (case task_at tm t q of None \<Rightarrow> n \<le> q \<and> (\<exists>d. task_at tm' t q = Some (pending_task d))
       | Some ts \<Rightarrow> \<exists>ts'. task_at tm' t q = Some ts' \<and> rtranclp (\<lambda>x y. \<exists>now. task_step owner now x y) ts ts')"
  show "task_at (delete_tasks ms tm') t q = None \<or>
      (case task_at tm t q of None \<Rightarrow> n \<le> q \<and> (\<exists>d. task_at (delete_tasks ms tm') t q = Some (pending_task d))
       | Some ts \<Rightarrow> \<exists>ts'. task_at (delete_tasks ms tm') t q = Some ts' \<and>
           rtranclp (\<lambda>x y. \<exists>now. task_step owner now x y) ts ts')"
    unfolding task_at_delete_tasks using m [rule_format, of t q] by (cases "\<exists>m \<in> set ms. m_tenant m = t \<and> m_seq m = q") auto
qed

lemma moves_seed: "moves owner tm (seedTask t n d tm) n"
  by (auto simp: moves_def pending_task_def split: option.split)

lemma moves_set:
  "task_at tm t q = Some ts \<Longrightarrow> task_step owner now ts ts' \<Longrightarrow> moves owner tm (set_task t q ts' tm) n"
  by (auto simp: moves_def split: option.split intro!: r_into_rtranclp)

lemma quiet_steps_rtranclp:
  "rtranclp (quiet_step now) ts ts' \<Longrightarrow> rtranclp (\<lambda>x y. \<exists>now. task_step owner now x y) ts ts'"
  by (induction rule: rtranclp_induct) (auto dest!: quiet_step_task_step [where owner = owner] intro: rtranclp.rtrancl_into_rtrancl)

lemma sweep_rel_moves:
  assumes "sweep_rel now (l, tm, ns) (l', tm', ns')"
  shows "moves owner tm tm' n"
proof -
  have r: "rel_option (rtranclp (quiet_step now)) (task_at tm t q) (task_at tm' t q)" for t q
    using assms by (simp add: sweep_rel_def)
  show ?thesis unfolding moves_def
  proof (intro allI)
    fix t q
    show "task_at tm' t q = None \<or> (case task_at tm t q of
           None \<Rightarrow> n \<le> q \<and> (\<exists>d. task_at tm' t q = Some (pending_task d))
         | Some ts \<Rightarrow> \<exists>ts'. task_at tm' t q = Some ts' \<and> rtranclp (\<lambda>x y. \<exists>now. task_step owner now x y) ts ts')"
      using r [of t q] by (cases "task_at tm t q"; cases "task_at tm' t q") (auto intro: quiet_steps_rtranclp)
  qed
qed

lemma sweep_tick_eq:
  assumes "sweep_tasks e1 e2 now (cs_entries s) ks (cs_journal s, cs_tasks s, []) = (l, tm, ns)"
  shows "\<exists>es gone h pr. sweep_tick e1 e2 now ks s =
      s\<lparr>cs_journal := l, cs_tasks := delete_tasks gone tm, cs_entries := es, cs_presence := pr, cs_hub := h\<rparr> \<and>
    set es \<subseteq> {m \<in> set (cs_entries s). \<not> isExpired m now} \<and>
    (sorted_wrt (<) (map m_seq (cs_entries s)) \<longrightarrow> sorted_wrt (<) (map m_seq es)) \<and>
    (cs_retainN s \<le> 0 \<and> cs_retainAge s \<le> 0 \<longrightarrow>
       es = filter (\<lambda>m. \<not> isExpired m now) (cs_entries s) \<and>
       gone = filter (\<lambda>m. isExpired m now) (cs_entries s))"
proof -
  let ?out = "filter (\<lambda>m. \<not> isExpired m now) (cs_entries s)" and ?gone = "filter (\<lambda>m. isExpired m now) (cs_entries s)"
  let ?s1 = "s\<lparr>cs_journal := l, cs_tasks := delete_tasks ?gone tm, cs_entries := ?out\<rparr>"
  obtain pr where pr: "prunePresence now ?s1 = ?s1\<lparr>cs_presence := pr\<rparr>"
  proof (cases "cs_presenceStale ?s1 \<le> 0")
    case True
    then show thesis by (intro that [of "cs_presence ?s1"]) (simp add: prunePresence_def)
  next
    case False
    then show thesis by (intro that) (simp add: prunePresence_def)
  qed
  obtain es gone where d: "pruneAt now (?s1\<lparr>cs_presence := pr\<rparr>) =
      ?s1\<lparr>cs_presence := pr, cs_entries := es, cs_tasks := delete_tasks gone (delete_tasks ?gone tm)\<rparr>"
    "set es \<subseteq> set ?out" "sorted_wrt (<) (map m_seq ?out) \<longrightarrow> sorted_wrt (<) (map m_seq es)"
    using pruneAt_drops [of now "?s1\<lparr>cs_presence := pr\<rparr>"] by auto
  have srt: "sorted_wrt (<) (map m_seq (cs_entries s)) \<Longrightarrow> sorted_wrt (<) (map m_seq ?out)"
    by (rule sorted_wrt_filter_map)
  have app: "delete_tasks gone (delete_tasks ?gone tm) = delete_tasks (?gone @ gone) tm"
    by (simp add: delete_tasks_def)
  show ?thesis
  proof (cases "cs_retainN s \<le> 0 \<and> cs_retainAge s \<le> 0")
    case True
    then have "pruneAt now (?s1\<lparr>cs_presence := pr\<rparr>) = ?s1\<lparr>cs_presence := pr\<rparr>" by (simp add: pruneAt_def)
    then have tick: "sweep_tick e1 e2 now ks s =
        s\<lparr>cs_journal := l, cs_tasks := delete_tasks ?gone tm, cs_entries := ?out, cs_presence := pr,
          cs_hub := fold hub_publish ns (cs_hub s)\<rparr>"
      using assms pr by (simp add: sweep_tick_def sweepOnce_def Let_def)
    show ?thesis unfolding tick
      using srt by - (rule exI, rule exI, rule exI, rule exI, rule conjI, rule refl, auto)
  next
    case False
    then have tick: "sweep_tick e1 e2 now ks s =
        s\<lparr>cs_journal := l, cs_tasks := delete_tasks (?gone @ gone) tm, cs_entries := es, cs_presence := pr,
          cs_hub := fold hub_publish ns (cs_hub s)\<rparr>"
      using assms pr d app by (simp add: sweep_tick_def sweepOnce_def Let_def)
    show ?thesis unfolding tick
      using srt d False by - (rule exI, rule exI, rule exI, rule exI, rule conjI, rule refl, auto)
  qed
qed

text \<open>Both ways of posting have one shape.\<close>

definition add_msg :: "comms_event elog \<Rightarrow> message \<Rightarrow> task_map \<Rightarrow> comms_store \<Rightarrow> comms_store" where
  "add_msg l m tm s =
     (let s2 = pruneAt (m_ts m) (s\<lparr>cs_journal := l, cs_entries := cs_entries s @ [m], cs_tasks := tm\<rparr>)
      in s2\<lparr>cs_hub := hub_publish m (cs_hub s2)\<rparr>)"

definition posts :: "tenant \<Rightarrow> int \<Rightarrow> comms_store \<Rightarrow> comms_store \<Rightarrow> bool" where
  "posts t now s s' \<longleftrightarrow> (\<exists>e p l tm env.
     (e = MessageEv p \<or> e = ImageEv p \<and> pl_kind p = ''image'') \<and>
     el_append env t e (cs_journal s) = (l, Some (el_next (cs_journal s))) \<and>
     tm = (if pl_kind p = ''task'' then seedTask t (el_next (cs_journal s)) (pl_deadline p) (cs_tasks s) else cs_tasks s) \<and>
     s' = add_msg l (mk_message (el_next (cs_journal s)) t now p) tm s)"

lemma m_ts_mk [simp]: "m_ts (mk_message q t now p) = now" "m_seq (mk_message q t now p) = q"
  "m_tenant (mk_message q t now p) = t" "m_kind (mk_message q t now p) = pl_kind p"
  "m_deadline (mk_message q t now p) = pl_deadline p"
  by (simp_all add: mk_message_def)

lemma Post_shape: "fst (Post env now t p s) = s \<or> posts t now s (fst (Post env now t p s))"
proof (cases "pl_area p = [] \<or> pl_from p = [] \<or> pl_text p = [] \<or> env = None")
  case True
  then show ?thesis by (auto simp: Post_def el_append_def Let_def)
next
  case False
  then obtain clock where env: "env = Some clock" by auto
  define p' where "p' = (if pl_kind p = [] then p\<lparr>pl_kind := ''note''\<rparr> else p)"
  let ?q = "el_next (cs_journal s)"
  have "posts t now s (fst (Post env now t p s))" unfolding posts_def
    by (rule exI [of _ "MessageEv p'"], rule exI [of _ p'],
        rule exI [of _ "fst (el_append env t (MessageEv p') (cs_journal s))"], rule exI, rule exI [of _ env])
       (use False env in \<open>simp add: Post_def p'_def [symmetric] el_append_def add_msg_def Let_def\<close>)
  then show ?thesis ..
qed

lemma PostImage_shape: "fst (PostImage env now t p s) = s \<or> posts t now s (fst (PostImage env now t p s))"
proof (cases "pl_area p = [] \<or> pl_from p = [] \<or> pl_blob p = [] \<or> pl_mime p = [] \<or> env = None")
  case True
  then show ?thesis by (auto simp: PostImage_def el_append_def Let_def)
next
  case False
  then obtain clock where env: "env = Some clock" by auto
  let ?p = "p\<lparr>pl_kind := ''image''\<rparr>"
  have s: "s\<lparr>cs_journal := l, cs_entries := es, cs_tasks := cs_tasks s\<rparr> = s\<lparr>cs_journal := l, cs_entries := es\<rparr>" for l es
    by simp
  have "posts t now s (fst (PostImage env now t p s))" unfolding posts_def
    by (rule exI [of _ "ImageEv ?p"], rule exI [of _ ?p],
        rule exI [of _ "fst (el_append env t (ImageEv ?p) (cs_journal s))"],
        rule exI [of _ "cs_tasks s"], rule exI [of _ env])
       (use False env in \<open>simp add: s PostImage_def el_append_def add_msg_def Let_def\<close>)
  then show ?thesis ..
qed

lemma posts_inv:
  assumes "posts t now s s'" and "comms_inv s"
  shows "comms_inv s'"
proof -
  obtain e p l tm env where e: "e = MessageEv p \<or> e = ImageEv p \<and> pl_kind p = ''image''"
    and l: "el_append env t e (cs_journal s) = (l, Some (el_next (cs_journal s)))"
    and tm: "tm = (if pl_kind p = ''task'' then seedTask t (el_next (cs_journal s)) (pl_deadline p) (cs_tasks s) else cs_tasks s)"
    and s': "s' = add_msg l (mk_message (el_next (cs_journal s)) t now p) tm s"
    using assms(1) unfolding posts_def by metis
  let ?s1 = "s\<lparr>cs_journal := l, cs_entries := cs_entries s @ [mk_message (el_next (cs_journal s)) t now p], cs_tasks := tm\<rparr>"
  have "el_ok l" using el_ok_append [of "cs_journal s" env t e] l assms(2) by (simp add: comms_inv_def)
  moreover have "refs_ok l" using e l assms(2) by (fastforce simp: refs_ok_def comms_inv_def el_append_Some)
  moreover have "old_keys (el_next l) tm"
    using assms(2) l tm by (auto simp: comms_inv_def old_keys_def el_append_Some less_Suc_eq split: if_splits)
  ultimately have "comms_inv ?s1"
    using assms(2) l by (auto simp: comms_inv_def el_append_Some sorted_wrt_append less_SucI)
  from pruneAt_inv [OF this] show ?thesis by (simp add: s' add_msg_def Let_def comms_inv_def)
qed

lemma posts_moves:
  assumes "posts t now s s'"
  shows "moves owner (cs_tasks s) (cs_tasks s') (el_next (cs_journal s)) \<and>
         el_next (cs_journal s) \<le> el_next (cs_journal s') \<and> cs_leaseTTL s' = cs_leaseTTL s \<and> cs_ownerLabel s' = cs_ownerLabel s"
proof -
  obtain e p l tm env where 
    l: "el_append env t e (cs_journal s) = (l, Some (el_next (cs_journal s)))"
    and tm: "tm = (if pl_kind p = ''task'' then seedTask t (el_next (cs_journal s)) (pl_deadline p) (cs_tasks s) else cs_tasks s)"
    and s': "s' = add_msg l (mk_message (el_next (cs_journal s)) t now p) tm s"
    using assms unfolding posts_def by metis
  have "moves owner (cs_tasks s) tm (el_next (cs_journal s))" using tm by (auto simp: moves_seed)
  then show ?thesis
    using pruneAt_drops [of now "s\<lparr>cs_journal := l, cs_entries := cs_entries s @ [mk_message (el_next (cs_journal s)) t now p], cs_tasks := tm\<rparr>"] l
    by (auto simp: s' add_msg_def Let_def moves_delete el_append_Some)
qed

definition well_moved :: "comms_store \<Rightarrow> comms_store \<Rightarrow> bool" where
  "well_moved s s' \<longleftrightarrow>
     moves (cs_ownerLabel s) (cs_tasks s) (cs_tasks s') (el_next (cs_journal s)) \<and>
     el_next (cs_journal s) \<le> el_next (cs_journal s') \<and>
     cs_leaseTTL s' = cs_leaseTTL s \<and> cs_ownerLabel s' = cs_ownerLabel s"

lemma well_moved_refl [simp]: "well_moved s s"
  by (simp add: well_moved_def)

lemma state_event_inv:
  assumes "comms_inv s" and "el_append env t (StateEv q st who lease) (cs_journal s) = (l, Some n)"
    and "task_at (cs_tasks s) t q = Some ts"
  shows "comms_inv (s\<lparr>cs_journal := l, cs_tasks := set_task t q ts' (cs_tasks s)\<rparr>)"
proof -
  have q: "q < el_next (cs_journal s)" using assms(1,3) by (auto simp: comms_inv_def old_keys_def)
  have n: "el_next l = Suc (el_next (cs_journal s))" using assms(2) by (auto simp: el_append_Some)
  have "old_keys (el_next (cs_journal s)) (set_task t q ts' (cs_tasks s))"
    using assms(1) q by (simp add: comms_inv_def old_keys_def)
  then have "old_keys (el_next l) (set_task t q ts' (cs_tasks s))" by (rule old_keys_mono) (simp add: n)
  moreover have "el_ok l" using el_ok_append [of "cs_journal s" env t] assms by (metis comms_inv_def fst_conv)
  moreover have "refs_ok l" using assms q by (auto simp: comms_inv_def refs_ok_def el_append_Some less_SucI)
  ultimately show ?thesis using assms(1) by (auto simp: comms_inv_def n less_SucI)
qed

lemma Claim_good:
  assumes "comms_inv s"
  shows "comms_inv (fst (Claim env t q who now s)) \<and> well_moved s (fst (Claim env t q who now s))"
proof -
  obtain s' ts' ok err where c: "Claim env t q who now s = (s', ts', ok, err)" by (metis surj_pair)
  show ?thesis
  proof (cases ok)
    case True
    with c have "Claim env t q who now s = (s', ts', True, err)" by simp
    from Claim_step [OF this] obtain ts n where
      ts: "task_at (cs_tasks s) t q = Some ts" and st: "task_step (cs_ownerLabel s) now ts ts'"
      and a: "el_append env t (StateEv q ''claimed'' who (now + cs_leaseTTL s)) (cs_journal s) = (cs_journal s', Some n)"
      and s': "s' = s\<lparr>cs_journal := cs_journal s', cs_tasks := set_task t q ts' (cs_tasks s)\<rparr>" by blast
    have "comms_inv s'" by (subst s') (rule state_event_inv [OF assms a ts])
    moreover have "well_moved s s'" unfolding well_moved_def
      using moves_set [OF ts st, of "el_next (cs_journal s)"] a
      by (subst s', subst s', subst s', subst s') (auto simp: el_append_Some)
    ultimately show ?thesis using c by simp
  next
    case False
    then show ?thesis using Claim_fails [of env t q who now s s' ts' err] c assms by simp
  qed
qed

lemma Resolve_good:
  assumes "comms_inv s"
  shows "comms_inv (fst (ResolveTask env t q who st s)) \<and> well_moved s (fst (ResolveTask env t q who st s))"
proof -
  obtain s' err where c: "ResolveTask env t q who st s = (s', err)" by (metis surj_pair)
  show ?thesis
  proof (cases err)
    case None
    with c have "ResolveTask env t q who st s = (s', None)" by simp
    from Resolve_step [OF this] obtain ts ts' n st' where
      ts: "task_at (cs_tasks s) t q = Some ts" and step: "task_step (cs_ownerLabel s) 0 ts ts'"
      and a: "el_append env t (StateEv q st' who 0) (cs_journal s) = (cs_journal s', Some n)"
      and s': "s' = s\<lparr>cs_journal := cs_journal s', cs_tasks := set_task t q ts' (cs_tasks s)\<rparr>" by blast
    have "comms_inv s'" by (subst s') (rule state_event_inv [OF assms a ts])
    moreover have "well_moved s s'" unfolding well_moved_def
      using moves_set [OF ts step, of "el_next (cs_journal s)"] a
      by (subst s', subst s', subst s', subst s') (auto simp: el_append_Some)
    ultimately show ?thesis using c by simp
  next
    case (Some e)
    then show ?thesis using Resolve_fails [of env t q who st s s' e] c assms by simp
  qed
qed

lemma event_inv:
  assumes "comms_inv s" and "el_append env t e (cs_journal s) = (l, Some n)" and "event_kind e \<noteq> KState"
  shows "comms_inv (s\<lparr>cs_journal := l\<rparr>)"
proof -
  have "el_ok l" using el_ok_append [of "cs_journal s" env t] assms by (metis comms_inv_def fst_conv)
  moreover have "refs_ok l" using assms by (cases e) (auto simp: comms_inv_def refs_ok_def el_append_Some less_SucI)
  ultimately show ?thesis using assms old_keys_mono [of "el_next (cs_journal s)" "cs_tasks s" "el_next l"]
    by (auto simp: comms_inv_def el_append_Some less_SucI)
qed

lemma comms_inv_filter: "comms_inv s \<Longrightarrow> comms_inv (s\<lparr>cs_entries := filter P (cs_entries s)\<rparr>)"
  by (simp add: comms_inv_def sorted_wrt_filter_map)

lemma Clear_good:
  assumes "comms_inv s"
  shows "comms_inv (fst (Clear env t area s)) \<and> well_moved s (fst (Clear env t area s))"
proof (cases "area = [] \<or> env = None")
  case True
  then show ?thesis using assms by (auto simp: Clear_def el_append_def)
next
  case False
  obtain l where l: "el_append env t (ClearEv area) (cs_journal s) = (l, Some (el_next (cs_journal s)))"
    using False by (auto simp: el_append_def)
  have n: "el_next l = Suc (el_next (cs_journal s))" using l by (auto simp: el_append_Some)
  have "fst (Clear env t area s) = s\<lparr>cs_journal := l,
      cs_entries := filter (\<lambda>m. \<not> in_clear t area (el_next (cs_journal s)) m) (cs_entries s)\<rparr>"
    using False l by (simp add: Clear_def)
  then show ?thesis using comms_inv_filter [OF event_inv [OF assms l]] n by (simp add: well_moved_def)
qed

lemma Pin_good:
  assumes "comms_inv s"
  shows "comms_inv (fst (Pin env t b on s)) \<and> well_moved s (fst (Pin env t b on s))"
proof (cases "b = [] \<or> env = None")
  case True
  then show ?thesis using assms by (auto simp: Pin_def el_append_def)
next
  case False
  obtain l where l: "el_append env t (PinEv b on) (cs_journal s) = (l, Some (el_next (cs_journal s)))"
    using False by (auto simp: el_append_def)
  have "comms_inv (s\<lparr>cs_journal := l\<rparr>)" by (rule event_inv [OF assms l]) simp
  moreover have "el_next l = Suc (el_next (cs_journal s))" using l by (auto simp: el_append_Some)
  moreover have "fst (Pin env t b on s) = s\<lparr>cs_journal := l, cs_pinned := pin_set b t on (cs_pinned s)\<rparr>"
    using False l by (simp add: Pin_def)
  ultimately show ?thesis by (simp add: well_moved_def comms_inv_def)
qed

lemma sweep_good:
  assumes "comms_inv s"
  shows "comms_inv (sweep_tick e1 e2 now ks s) \<and> well_moved s (sweep_tick e1 e2 now ks s)"
proof -
  obtain l tm ns where w: "sweep_tasks e1 e2 now (cs_entries s) ks (cs_journal s, cs_tasks s, []) = (l, tm, ns)"
    by (metis prod_cases3)
  have rel: "sweep_rel now (cs_journal s, cs_tasks s, []) (l, tm, ns)"
    using sweep_tasks_rel [of now "(cs_journal s, cs_tasks s, [])" e1 e2 "cs_entries s" ks] w by simp
  have j: "el_ok l" "refs_ok l" "old_keys (el_next l) tm" "el_next (cs_journal s) \<le> el_next l"
    using rel assms by (auto simp: sweep_rel_def comms_inv_def)
  note mv = moves_delete [OF sweep_rel_moves [OF rel]]
  show ?thesis using sweep_tick_eq [OF w] j assms mv
    by (fastforce simp: comms_inv_def well_moved_def)
qed

lemma comms_step_good: "comms_inv s \<Longrightarrow> comms_inv (comms_step x s) \<and> well_moved s (comms_step x s)"
proof (cases x)
  case (OpPost env now t p)
  assume "comms_inv s"
  then show ?thesis using Post_shape [of env now t p s] posts_inv posts_moves
    by (auto simp: OpPost well_moved_def)
next
  case (OpImage env now t p)
  assume "comms_inv s"
  then show ?thesis using PostImage_shape [of env now t p s] posts_inv posts_moves
    by (auto simp: OpImage well_moved_def)
next
  case (OpRetention now n age)
  assume inv: "comms_inv s"
  then have "comms_inv (s\<lparr>cs_retainN := n, cs_retainAge := age\<rparr>)" by (simp add: comms_inv_def)
  then show ?thesis using pruneAt_inv pruneAt_drops [of now "s\<lparr>cs_retainN := n, cs_retainAge := age\<rparr>"]
    by (auto simp: OpRetention SetRetention_def well_moved_def moves_delete)
next
  case (OpOther k)
  assume "comms_inv s"
  then show ?thesis using old_keys_mono [of "el_next (cs_journal s)" "cs_tasks s" "el_next (cs_journal s) + k"]
    by (auto simp: OpOther comms_inv_def well_moved_def el_skip_def refs_ok_def el_ok_def intro: trans_less_add1)
next
  case (OpHeartbeat t agent area st now)
  assume "comms_inv s"
  then show ?thesis by (simp add: OpHeartbeat Heartbeat_def comms_inv_def well_moved_def)
qed (simp_all add: Claim_good Resolve_good Clear_good Pin_good sweep_good)

end
