(* ===== verification/CommsProps.thy ===== *)
theory CommsProps
  imports CommsRun
begin

text \<open>
  What holds of the coordination space over whole runs: the life cycle of its tasks, exclusive
  claims, the rebuild from the journal, polling readers, and the blobs that must be kept.
\<close>

section \<open>Runs\<close>

lemma comms_run_inv: "comms_inv s \<Longrightarrow> comms_inv (fold comms_step xs s)"
  by (induction xs arbitrary: s) (auto simp: comms_step_good)

definition life :: "gostring \<Rightarrow> task_state \<Rightarrow> task_state \<Rightarrow> bool" where
  "life owner = rtranclp (\<lambda>x y. \<exists>now. task_step owner now x y)"

lemma life_ok: "life owner ts ts' \<Longrightarrow> task_ok ts \<Longrightarrow> task_ok ts'"
  unfolding life_def by (induction rule: rtranclp_induct) (auto dest: task_step_ok)

lemma life_terminal: "life owner ts ts' \<Longrightarrow> terminal ts \<Longrightarrow> terminal ts'"
  unfolding life_def by (induction rule: rtranclp_induct) (auto dest: task_step_terminal)

lemma life_deadline: "life owner ts ts' \<Longrightarrow> ts_Deadline ts' = ts_Deadline ts"
  unfolding life_def by (induction rule: rtranclp_induct) (auto dest: task_step_deadline)

lemma life_trans: "life owner a b \<Longrightarrow> life owner b c \<Longrightarrow> life owner a c"
  unfolding life_def by (rule rtranclp_trans)

lemma moves_at:
  assumes "moves owner tm tm' n" and "task_at tm' t q = Some ts'"
  shows "case task_at tm t q of
           None \<Rightarrow> n \<le> q \<and> (\<exists>d. ts' = pending_task d)
         | Some ts \<Rightarrow> life owner ts ts'"
proof -
  have "task_at tm' t q = None \<or> (case task_at tm t q of
           None \<Rightarrow> n \<le> q \<and> (\<exists>d. task_at tm' t q = Some (pending_task d))
         | Some ts \<Rightarrow> \<exists>ts'. task_at tm' t q = Some ts' \<and> life owner ts ts')"
    using assms(1) unfolding moves_def life_def by blast
  then show ?thesis using assms(2) by (auto split: option.splits)
qed

lemma comms_empty_sel [simp]:
  "cs_tasks (comms_empty ttl owner) = []" "cs_leaseTTL (comms_empty ttl owner) = ttl"
  by (simp_all add: comms_empty_def)

lemma run_moves:
  assumes "comms_inv s" and "q < el_next (cs_journal s)"
  shows "case task_at (cs_tasks (fold comms_step xs s)) t q of
           None \<Rightarrow> True
         | Some ts' \<Rightarrow> \<exists>ts. task_at (cs_tasks s) t q = Some ts \<and> life (cs_ownerLabel s) ts ts'"
  using assms
proof (induction xs arbitrary: s)
  case Nil
  then show ?case by (auto simp: life_def split: option.split)
next
  case (Cons x xs)
  let ?s1 = "comms_step x s"
  have g: "comms_inv ?s1" "well_moved s ?s1" using comms_step_good [OF Cons.prems(1)] by auto
  have q: "q < el_next (cs_journal ?s1)" using Cons.prems(2) g(2) by (simp add: well_moved_def)
  have own: "cs_ownerLabel ?s1 = cs_ownerLabel s" using g(2) by (simp add: well_moved_def)
  have mv: "task_at (cs_tasks ?s1) t q = None \<or>
      (\<exists>ts ts'. task_at (cs_tasks s) t q = Some ts \<and> task_at (cs_tasks ?s1) t q = Some ts' \<and> life (cs_ownerLabel s) ts ts')"
    using g(2) Cons.prems(2) moves_at [of "cs_ownerLabel s" "cs_tasks s" "cs_tasks ?s1" "el_next (cs_journal s)" t q]
    unfolding well_moved_def
    by (cases "task_at (cs_tasks ?s1) t q"; cases "task_at (cs_tasks s) t q") auto
  show ?case
    using Cons.IH [OF g(1) q] mv own by (auto split: option.splits intro: life_trans)
qed

lemma new_tasks_ok:
  assumes "comms_inv s" and "\<forall>t q ts. task_at (cs_tasks s) t q = Some ts \<longrightarrow> task_ok ts"
  shows "\<forall>t q ts. task_at (cs_tasks (fold comms_step xs s)) t q = Some ts \<longrightarrow> task_ok ts"
  using assms
proof (induction xs arbitrary: s)
  case (Cons x xs)
  have g: "comms_inv (comms_step x s)" "well_moved s (comms_step x s)"
    using comms_step_good [OF Cons.prems(1)] by auto
  have "task_ok ts'" if at: "task_at (cs_tasks (comms_step x s)) t q = Some ts'" for t q ts'
  proof (cases "task_at (cs_tasks s) t q")
    case None
    then obtain d where "ts' = pending_task d"
      using g(2) moves_at [OF _ at] unfolding well_moved_def by fastforce
    then show ?thesis by (simp add: pending_task_def task_ok_def terminal_def)
  next
    case (Some ts)
    then have "life (cs_ownerLabel s) ts ts'"
      using g(2) moves_at [OF _ at] unfolding well_moved_def by fastforce
    then show ?thesis using life_ok Cons.prems(2) Some by blast
  qed
  then show ?case using Cons.IH [OF g(1)] by simp
qed simp

text \<open>C11. The life cycle over whole runs: after any operations from the empty space every task is
  well formed; through any further operations a task keeps its deadline, and once it was
  resolved it is resolved for good (or dropped with its message) and every claim of it is
  refused without effect.\<close>
theorem tasks_run_safe:
  "let s = fold comms_step xs (comms_empty ttl owner); s' = fold comms_step ys s
   in \<forall>t q ts. TaskOf t q s = Some ts \<longrightarrow> task_ok ts \<and>
        (case TaskOf t q s' of
           None \<Rightarrow> True
         | Some ts' \<Rightarrow> task_ok ts' \<and> ts_Deadline ts' = ts_Deadline ts \<and>
             (terminal ts \<longrightarrow> terminal ts' \<and> (\<forall>env who now. who \<noteq> [] \<longrightarrow> Claim env t q who now s' = (s', ts', False, None))))"
proof -
  define s where "s = fold comms_step xs (comms_empty ttl owner)"
  have inv: "comms_inv s" unfolding s_def by (rule comms_run_inv) simp
  have ok: "\<forall>t q ts. task_at (cs_tasks s) t q = Some ts \<longrightarrow> task_ok ts"
    unfolding s_def by (rule new_tasks_ok) simp_all
  have nc: "terminal x \<Longrightarrow> \<not> claimable who now x" for x who now
    by (auto simp: terminal_def claimable_def)
  have "task_ok ts \<and> (case TaskOf t q (fold comms_step ys s) of
           None \<Rightarrow> True
         | Some ts' \<Rightarrow> task_ok ts' \<and> ts_Deadline ts' = ts_Deadline ts \<and>
             (terminal ts \<longrightarrow> terminal ts' \<and>
               (\<forall>env who now. who \<noteq> [] \<longrightarrow> Claim env t q who now (fold comms_step ys s) = (fold comms_step ys s, ts', False, None))))"
    if ts: "TaskOf t q s = Some ts" for t q ts
  proof (cases "TaskOf t q (fold comms_step ys s)")
    case None
    then show ?thesis using ok ts by (auto simp: TaskOf_def)
  next
    case (Some ts')
    have "q < el_next (cs_journal s)" using inv ts by (auto simp: comms_inv_def old_keys_def TaskOf_def)
    from run_moves [OF inv this, of t ys] Some ts
    have l: "life (cs_ownerLabel s) ts ts'" by (simp add: TaskOf_def)
    have "Claim env t q who now (fold comms_step ys s) = (fold comms_step ys s, ts', False, None)"
      if "terminal ts" "who \<noteq> []" for env who now
      using nc [OF life_terminal [OF l that(1)]] Some that(2) by (simp add: Claim_def TaskOf_def)
    moreover have "task_ok ts" using ok ts by (simp add: TaskOf_def)
    ultimately show ?thesis using Some life_ok [OF l] life_terminal [OF l] life_deadline [OF l] by simp
  qed
  then show ?thesis unfolding Let_def s_def [symmetric] by blast
qed

text \<open>A run for the witnesses: a task of tenant 1 with number 1, claimed by ann at time 5 until 15.\<close>

definition ex_run :: "comms_op list" where
  "ex_run = [OpPost (Some 2) 3 1 ex_payload, OpClaim (Some 5) 1 1 ''ann'' 5]"

lemma ex_claimed:
  "TaskOf 1 1 (fold comms_step ex_run (comms_empty 10 [])) =
     Some \<lparr>ts_State = ''claimed'', ts_Holder = ''ann'', ts_LeaseUntil = 15, ts_Deadline = 0\<rparr>"
proof -
  let ?s = "comms_step (OpPost (Some 2) 3 1 ex_payload) (comms_empty 10 [])"
  have "task_at (cs_tasks ?s) 1 1 = Some (pending_task 0)" and "cs_leaseTTL ?s = 10"
    by (simp_all add: Post_def ex_payload_def comms_empty_def el_append_def el_empty_def pruneAt_def
        Let_def mk_message_def pending_task_def)
  then show ?thesis
    by (simp add: ex_run_def Claim_def claimable_def pending_task_def el_append_def TaskOf_def apply_state_def Let_def)
qed

theorem tasks_run_safe_witness:
  "task_ok \<lparr>ts_State = ''claimed'', ts_Holder = ''ann'', ts_LeaseUntil = 15, ts_Deadline = 0\<rparr>"
  using tasks_run_safe [of ex_run 10 "[]" "[]"] ex_claimed by (auto simp: Let_def)

section \<open>Claims exclude each other\<close>

definition held_in :: "gostring \<Rightarrow> int \<Rightarrow> tenant \<Rightarrow> nat \<Rightarrow> comms_store \<Rightarrow> bool" where
  "held_in who until t q s \<longleftrightarrow>
     q < el_next (cs_journal s) \<and>
     (case task_at (cs_tasks s) t q of None \<Rightarrow> True | Some ts \<Rightarrow> held_by who until ts)"

text \<open>The times at which operations happen: claims not before the first one, nothing after the lease.\<close>

fun within :: "int \<Rightarrow> int \<Rightarrow> comms_op \<Rightarrow> bool" where
  "within n0 until (OpClaim env t q who now) \<longleftrightarrow> n0 \<le> now \<and> now \<le> until"
| "within n0 until (OpSweep e1 e2 now ks) \<longleftrightarrow> now \<le> until"
| "within n0 until _ \<longleftrightarrow> True"

lemma held_in_drop:
  assumes "held_in who until t q s" and "el_next (cs_journal s) \<le> el_next (cs_journal s')"
    and "\<And>ts'. task_at (cs_tasks s') t q = Some ts' \<Longrightarrow> \<exists>ts. task_at (cs_tasks s) t q = Some ts \<and> (held_by who until ts \<longrightarrow> held_by who until ts')"
  shows "held_in who until t q s'"
  using assms(1,2) assms(3) by (fastforce simp: held_in_def split: option.splits)

lemma posts_held:
  assumes "held_in who until t q s" and "posts t' now s s'"
  shows "held_in who until t q s'"
proof (rule held_in_drop [OF assms(1)])
  have mv: "moves (cs_ownerLabel s) (cs_tasks s) (cs_tasks s') (el_next (cs_journal s))"
    using posts_moves [OF assms(2)] by blast
  show "el_next (cs_journal s) \<le> el_next (cs_journal s')" using posts_moves [OF assms(2)] by blast
  obtain e p l tm env where
    tm: "tm = (if pl_kind p = ''task'' then seedTask t' (el_next (cs_journal s)) (pl_deadline p) (cs_tasks s) else cs_tasks s)"
    and s': "s' = add_msg l (mk_message (el_next (cs_journal s)) t' now p) tm s"
    using assms(2) unfolding posts_def by metis
  have "q \<noteq> el_next (cs_journal s)" using assms(1) by (simp add: held_in_def)
  then have tq: "task_at tm t q = task_at (cs_tasks s) t q" using tm by simp
  fix ts' assume "task_at (cs_tasks s') t q = Some ts'"
  then have "task_at tm t q = Some ts'"
    using pruneAt_drops [of now "s\<lparr>cs_journal := l, cs_entries := cs_entries s @ [mk_message (el_next (cs_journal s)) t' now p], cs_tasks := tm\<rparr>"]
    by (auto simp: s' add_msg_def Let_def task_at_delete_tasks split: if_splits)
  then show "\<exists>ts. task_at (cs_tasks s) t q = Some ts \<and> (held_by who until ts \<longrightarrow> held_by who until ts')"
    using tq by auto
qed

lemma quiet_steps_held:
  "rtranclp (quiet_step now) ts ts' \<Longrightarrow> held_by who until ts \<Longrightarrow> now \<le> until \<Longrightarrow> held_by who until ts'"
  by (induction rule: rtranclp_induct) (auto dest: quiet_step_held)

lemma sweep_held:
  assumes "held_in who until t q s" and "now \<le> until"
  shows "held_in who until t q (sweep_tick e1 e2 now ks s)"
proof -
  obtain l tm ns where w: "sweep_tasks e1 e2 now (cs_entries s) ks (cs_journal s, cs_tasks s, []) = (l, tm, ns)"
    by (metis prod_cases3)
  have rel: "sweep_rel now (cs_journal s, cs_tasks s, []) (l, tm, ns)"
    using sweep_tasks_rel [of now "(cs_journal s, cs_tasks s, [])" e1 e2 "cs_entries s" ks] w by simp
  obtain es gone h pr where eq: "sweep_tick e1 e2 now ks s =
      s\<lparr>cs_journal := l, cs_tasks := delete_tasks gone tm, cs_entries := es, cs_presence := pr, cs_hub := h\<rparr>"
    using sweep_tick_eq [OF w] by blast
  have ro: "rel_option (rtranclp (quiet_step now)) (task_at (cs_tasks s) t q) (task_at tm t q)"
    and le: "el_next (cs_journal s) \<le> el_next l"
    using rel by (auto simp: sweep_rel_def)
  show ?thesis
  proof (rule held_in_drop [OF assms(1)])
    show "el_next (cs_journal s) \<le> el_next (cs_journal (sweep_tick e1 e2 now ks s))" using le by (simp add: eq)
    fix ts' assume "task_at (cs_tasks (sweep_tick e1 e2 now ks s)) t q = Some ts'"
    then have "task_at tm t q = Some ts'" by (auto simp: eq task_at_delete_tasks split: if_splits)
    with ro show "\<exists>ts. task_at (cs_tasks s) t q = Some ts \<and> (held_by who until ts \<longrightarrow> held_by who until ts')"
      using assms(2) by (cases "task_at (cs_tasks s) t q") (auto intro: quiet_steps_held)
  qed
qed

lemma claim_held:
  assumes "held_in who until t q s" and "n0 \<le> now" and "now \<le> until" and "until \<le> n0 + cs_leaseTTL s"
  shows "held_in who until t q (fst (Claim env t' q' other now s))"
proof -
  obtain s' ts' ok err where c: "Claim env t' q' other now s = (s', ts', ok, err)" by (metis surj_pair)
  show ?thesis
  proof (cases ok)
    case False
    then show ?thesis using Claim_fails [of env t' q' other now s s' ts' err] c assms by simp
  next
    case True
    with c have "Claim env t' q' other now s = (s', ts', True, err)" by simp
    from Claim_step [OF this] obtain ts n where
      ts: "task_at (cs_tasks s) t' q' = Some ts" and st: "task_step (cs_ownerLabel s) now ts ts'"
      and eq: "ts' = apply_state ''claimed'' other (now + cs_leaseTTL s) ts"
      and a: "el_append env t' (StateEv q' ''claimed'' other (now + cs_leaseTTL s)) (cs_journal s) = (cs_journal s', Some n)"
      and s': "s' = s\<lparr>cs_journal := cs_journal s', cs_tasks := set_task t' q' ts' (cs_tasks s)\<rparr>" by blast
    have tk: "cs_tasks s' = set_task t' q' ts' (cs_tasks s)" by (subst s') simp
    have "held_by who until ts \<longrightarrow> held_by who until ts'"
    proof
      assume h: "held_by who until ts"
      have "until \<le> lease" if "ts' = apply_state ''claimed'' other' lease ts" for lease other'
        using that eq assms(2,4) by (auto dest: arg_cong [where f = ts_LeaseUntil])
      then show "held_by who until ts'" using task_step_held [OF st h assms(3)] by blast
    qed
    then have "held_in who until t q s'"
      by (intro held_in_drop [OF assms(1)]) (use a ts tk in \<open>auto simp: el_append_Some split: if_splits\<close>)
    then show ?thesis using c by simp
  qed
qed

lemma resolve_held:
  assumes "held_in who until t q s"
  shows "held_in who until t q (fst (ResolveTask env t' q' other st s))"
proof -
  obtain s' err where c: "ResolveTask env t' q' other st s = (s', err)" by (metis surj_pair)
  show ?thesis
  proof (cases err)
    case (Some e)
    then show ?thesis using Resolve_fails [of env t' q' other st s s' e] c assms by simp
  next
    case None
    with c have "ResolveTask env t' q' other st s = (s', None)" by simp
    from Resolve_step [OF this] obtain ts ts' n st' where
      ts: "task_at (cs_tasks s) t' q' = Some ts" and eq: "ts' = apply_state st' other 0 ts" "st' \<in> {''done'', ''cancel''}"
      and a: "el_append env t' (StateEv q' st' other 0) (cs_journal s) = (cs_journal s', Some n)"
      and s': "s' = s\<lparr>cs_journal := cs_journal s', cs_tasks := set_task t' q' ts' (cs_tasks s)\<rparr>" by blast
    have tk: "cs_tasks s' = set_task t' q' ts' (cs_tasks s)" by (subst s') simp
    have "held_by who until ts'" using eq by (auto simp: held_by_def terminal_def)
    then have "held_in who until t q s'"
      by (intro held_in_drop [OF assms]) (use a ts tk in \<open>auto simp: el_append_Some split: if_splits\<close>)
    then show ?thesis using c by simp
  qed
qed

lemma Clear_keeps:
  "cs_tasks (fst (Clear env t area s)) = cs_tasks s"
  "el_next (cs_journal s) \<le> el_next (cs_journal (fst (Clear env t area s)))"
  by (auto simp: Clear_def el_append_Some split: prod.split option.split)

lemma Pin_keeps:
  "cs_tasks (fst (Pin env t b on s)) = cs_tasks s"
  "el_next (cs_journal s) \<le> el_next (cs_journal (fst (Pin env t b on s)))"
  by (auto simp: Pin_def el_append_Some split: prod.split option.split)

lemma step_held:
  assumes "comms_inv s" and "held_in who until t q s" and "within n0 until x" and "until \<le> n0 + cs_leaseTTL s"
  shows "held_in who until t q (comms_step x s)"
proof (cases x)
  case (OpPost env now t' p)
  then show ?thesis using Post_shape [of env now t' p s] posts_held [OF assms(2)] assms(2) by auto
next
  case (OpImage env now t' p)
  then show ?thesis using PostImage_shape [of env now t' p s] posts_held [OF assms(2)] assms(2) by auto
next
  case (OpRetention now n age)
  show ?thesis
    by (rule held_in_drop [OF assms(2)])
       (use pruneAt_drops [of now "s\<lparr>cs_retainN := n, cs_retainAge := age\<rparr>"] in
         \<open>auto simp: OpRetention SetRetention_def task_at_delete_tasks split: if_splits\<close>)
next
  case (OpClear env t' area)
  show ?thesis
    by (rule held_in_drop [OF assms(2)])
       (auto simp: OpClear Clear_keeps)
next
  case (OpPin env t' b on)
  show ?thesis
    by (rule held_in_drop [OF assms(2)]) (auto simp: OpPin Pin_keeps)
next
  case (OpClaim env t' q' other now)
  then show ?thesis using claim_held [OF assms(2), of n0 now] assms(3,4) by simp
next
  case (OpResolve env t' q' other st)
  then show ?thesis using resolve_held [OF assms(2)] by simp
next
  case (OpSweep e1 e2 now ks)
  then show ?thesis using sweep_held [OF assms(2)] assms(3) by simp
next
  case (OpHeartbeat t' agent area st now)
  then show ?thesis using assms(2) by (simp add: Heartbeat_def held_in_def)
next
  case (OpOther k)
  then show ?thesis using assms(2) by (simp add: held_in_def el_skip_def)
qed

lemma run_held:
  assumes "comms_inv s" and "held_in who until t q s" and "\<forall>x \<in> set xs. within n0 until x"
    and "until \<le> n0 + cs_leaseTTL s"
  shows "held_in who until t q (fold comms_step xs s)"
  using assms
proof (induction xs arbitrary: s)
  case (Cons x xs)
  have g: "comms_inv (comms_step x s)" "cs_leaseTTL (comms_step x s) = cs_leaseTTL s"
    using comms_step_good [OF Cons.prems(1), of x] by (auto simp: well_moved_def)
  have "held_in who until t q (comms_step x s)" using step_held [OF Cons.prems(1,2), of n0 x] Cons.prems(3,4) by simp
  then show ?case using Cons.IH [OF g(1)] Cons.prems(3,4) g(2) by simp
qed simp

text \<open>C7. Claims are exclusive: after an agent claimed a task at time n0, through any operations of
  any agents until its lease ends (posts, clears, prunes, sweeps, overdue flags, renewals,
  resolves, other claims, with any journal failures), no claim of that task by another agent
  succeeds before the end of the lease.\<close>
theorem claim_exclusive:
  assumes "s = fold comms_step xs (comms_empty ttl owner)"
    and "Claim env t q who n0 s = (s1, ts, True, err)"
    and "\<forall>y \<in> set ys. within n0 (n0 + ttl) y"
    and "other \<noteq> who" and "n \<le> n0 + ttl"
  shows "\<not> fst (snd (snd (Claim env' t q other n (fold comms_step ys s1))))"
proof -
  have inv: "comms_inv s" unfolding assms(1) by (rule comms_run_inv) simp
  have ttl: "cs_leaseTTL (fold comms_step xs s0) = cs_leaseTTL s0" if "comms_inv s0" for xs s0
    using that
  proof (induction xs arbitrary: s0)
    case (Cons x xs)
    then show ?case using comms_step_good [of s0 x] by (auto simp: well_moved_def)
  qed simp
  have t: "cs_leaseTTL s = ttl" unfolding assms(1) by (subst ttl) simp_all
  obtain ts0 m where ts0: "task_at (cs_tasks s) t q = Some ts0"
    and ts: "ts = apply_state ''claimed'' who (n0 + cs_leaseTTL s) ts0"
    and s1: "s1 = s\<lparr>cs_journal := cs_journal s1, cs_tasks := set_task t q ts (cs_tasks s)\<rparr>"
    and a: "el_append env t (StateEv q ''claimed'' who (n0 + cs_leaseTTL s)) (cs_journal s) = (cs_journal s1, Some m)"
    using Claim_step [OF assms(2)] by blast
  have i1: "comms_inv s1" and w1: "well_moved s s1"
    using Claim_good [OF inv, of env t q who n0] assms(2) by auto
  have tk: "task_at (cs_tasks s1) t q = Some ts" by (subst s1) simp
  have "q < el_next (cs_journal s1)" using i1 tk by (auto simp: comms_inv_def old_keys_def)
  then have "held_in who (n0 + ttl) t q s1" using tk ts t by (simp add: held_in_def held_by_def)
  from run_held [OF i1 this assms(3)] w1 t
  have h: "held_in who (n0 + ttl) t q (fold comms_step ys s1)" by (simp add: well_moved_def)
  show ?thesis
  proof (cases "task_at (cs_tasks (fold comms_step ys s1)) t q")
    case None
    then show ?thesis by (simp add: Claim_def)
  next
    case (Some x)
    then have "\<not> claimable other n x"
      using h held_not_claimable [of who "n0 + ttl" x n other] assms(4,5) by (simp add: held_in_def)
    then show ?thesis using Some by (simp add: Claim_def)
  qed
qed

theorem claim_exclusive_witness:
  "\<not> fst (snd (snd (Claim (Some 9) 1 1 ''bob'' 14
      (fold comms_step [OpSweep (\<lambda>_. Some 8) (\<lambda>_. Some 8) 12 [(1, 1)]]
        (fold comms_step ex_run (comms_empty 10 []))))))"
proof -
  let ?s = "fold comms_step [OpPost (Some 2) 3 1 ex_payload] (comms_empty 10 [])"
  obtain s1 ts ok err where c: "Claim (Some 5) 1 1 ''ann'' 5 ?s = (s1, ts, ok, err)" by (metis surj_pair)
  have s1: "s1 = fold comms_step ex_run (comms_empty 10 [])" using c by (simp add: ex_run_def)
  have "task_at (cs_tasks ?s) 1 1 = Some (pending_task 0)"
    by (simp add: Post_def ex_payload_def comms_empty_def el_append_def el_empty_def pruneAt_def
        Let_def mk_message_def pending_task_def)
  then have "ok" using c by (auto simp: Claim_def claimable_def pending_task_def el_append_def Let_def)
  with c have "Claim (Some 5) 1 1 ''ann'' 5 ?s = (s1, ts, True, err)" by simp
  from claim_exclusive [OF refl this, of "[OpSweep (\<lambda>_. Some 8) (\<lambda>_. Some 8) 12 [(1, 1)]]" "''bob''" 14 "Some 9"]
  show ?thesis unfolding s1 by simp
qed

end
