(* ===== verification/CommsRestart.thy ===== *)
theory CommsRestart
  imports CommsProps
begin

text \<open>
  Rebuilding the coordination space: what \<^verbatim>\<open>New\<close> computes from the journal, and that it is what RAM
  holds, up to the second clock reading of a post and the messages that have expired.
\<close>

section \<open>What the passes compute\<close>

definition msg_of :: "comms_event lrec \<Rightarrow> message option" where
  "msg_of r = (case lr_event r of
     MessageEv p \<Rightarrow> Some (mk_message (lr_seq r) (lr_tenant r) (lr_time r) p)
   | ImageEv p \<Rightarrow> Some (mk_message (lr_seq r) (lr_tenant r) (lr_time r) p)
   | _ \<Rightarrow> None)"

definition posted :: "comms_event lrec list \<Rightarrow> message list" where
  "posted rs = List.map_filter msg_of rs"

definition cleared :: "comms_event lrec list \<Rightarrow> message \<Rightarrow> bool" where
  "cleared rs m \<longleftrightarrow>
     (\<exists>r \<in> set rs. \<exists>area. lr_event r = ClearEv area \<and> in_clear (lr_tenant r) area (lr_seq r) m)"

definition pins_of :: "comms_event lrec list \<Rightarrow> (gostring \<times> tenant list) list" where
  "pins_of rs = fold (\<lambda>r ps. case lr_event r of PinEv b on \<Rightarrow> pin_set b (lr_tenant r) on ps | _ \<Rightarrow> ps) rs []"

definition decodable :: "comms_event lrec list \<Rightarrow> bool" where
  "decodable rs \<longleftrightarrow> (\<forall>r \<in> set rs. \<forall>k. lr_event r \<noteq> UndecodableEv k)"

definition kind_recs :: "comms_kind \<Rightarrow> comms_event lrec list \<Rightarrow> comms_event lrec list" where
  "kind_recs k rs = filter (\<lambda>r. event_kind (lr_event r) = k) rs"

lemma posted_simps [simp]:
  "posted [] = []"
  "posted (r # rs) = (case msg_of r of None \<Rightarrow> posted rs | Some m \<Rightarrow> m # posted rs)"
  "posted (rs @ rs') = posted rs @ posted rs'"
  by (auto simp: posted_def List.map_filter_def split: option.split)

lemma decodable_kind [simp]: "decodable rs \<Longrightarrow> decodable (kind_recs k rs)"
  by (auto simp: decodable_def kind_recs_def)

lemma scan_messages_eq:
  "decodable rs \<Longrightarrow> scan_messages now rs es = Inr (es @ filter (\<lambda>m. \<not> isExpired m now) (posted rs))"
  by (induction rs arbitrary: es)
     (auto simp: decodable_def msg_of_def Let_def split: comms_event.split)

lemma scan_clears_eq:
  "decodable rs \<Longrightarrow> scan_clears rs es = Inr (filter (\<lambda>m. \<not> cleared rs m) es)"
proof (induction rs arbitrary: es)
  case Nil
  then show ?case by (simp add: cleared_def)
next
  case (Cons r rs)
  have d: "decodable rs" using Cons.prems by (simp add: decodable_def)
  show ?case
  proof (cases "\<exists>area. lr_event r = ClearEv area")
    case True
    then obtain area where a: "lr_event r = ClearEv area" by blast
    have "cleared (r # rs) m \<longleftrightarrow> in_clear (lr_tenant r) area (lr_seq r) m \<or> cleared rs m" for m
      using a by (auto simp: cleared_def)
    then show ?thesis using Cons.IH [OF d] a by (simp add: conj_commute)
  next
    case False
    then have "cleared (r # rs) m \<longleftrightarrow> cleared rs m" for m by (auto simp: cleared_def)
    then show ?thesis using Cons.IH [OF d] Cons.prems False
      by (auto simp: decodable_def split: comms_event.split)
  qed
qed

lemma scan_pins_eq:
  "decodable rs \<Longrightarrow> scan_pins rs ps =
     Inr (fold (\<lambda>r ps. case lr_event r of PinEv b on \<Rightarrow> pin_set b (lr_tenant r) on ps | _ \<Rightarrow> ps) rs ps)"
  by (induction rs arbitrary: ps) (auto simp: decodable_def split: comms_event.split)

lemma replayState_eq:
  "decodable rs \<Longrightarrow> \<exists>tm'. replayState rs tm = Inr tm' \<and>
     (\<forall>t q. task_at tm' t q = map_option (task_fold rs t q) (task_at tm t q))"
proof (induction rs arbitrary: tm)
  case Nil
  then show ?case by (simp add: task_fold_def option.map_ident)
next
  case (Cons r rs)
  have d: "decodable rs" using Cons.prems by (simp add: decodable_def)
  have nd: "lr_event r \<noteq> UndecodableEv k" for k using Cons.prems by (simp add: decodable_def)
  have fold: "map_option (task_fold (r # rs) t q) x =
      map_option (task_fold rs t q) (map_option (play_state t q r) x)" for t q x
    by (cases x) (simp_all add: task_fold_def)
  show ?case
  proof (cases "lr_event r")
    case (StateEv q st who lease)
    show ?thesis
    proof (cases "task_at tm (lr_tenant r) q")
      case None
      have "map_option (play_state t' q' r) (task_at tm t' q') = task_at tm t' q'" for t' q'
        using None StateEv by (cases "task_at tm t' q'") (auto simp: play_state_def)
      then show ?thesis using Cons.IH [OF d, of tm] StateEv None
        by (simp add: fold del: option.map_comp)
    next
      case (Some ts)
      let ?tm = "set_task (lr_tenant r) q (apply_state st who lease ts) tm"
      have "map_option (play_state t' q' r) (task_at tm t' q') = task_at ?tm t' q'" for t' q'
        using Some StateEv by (cases "task_at tm t' q'") (auto simp: play_state_def)
      then show ?thesis using Cons.IH [OF d, of ?tm] StateEv Some
        by (simp add: fold del: task_at_set option.map_comp)
    qed
  qed (use Cons.IH [OF d, of tm] nd in \<open>auto simp: task_fold_def play_state_def\<close>)
qed

lemma kind_posted_mset:
  "mset (posted rs) = mset (posted (kind_recs KMessage rs)) + mset (posted (kind_recs KImage rs))"
  if "decodable rs"
  using that
  by (induction rs) (auto simp: kind_recs_def msg_of_def decodable_def split: comms_event.split)

lemma kind_cleared: "cleared (kind_recs KClear rs) = cleared rs"
  by (auto simp: cleared_def kind_recs_def fun_eq_iff intro!: bexI)

lemma kind_pins: "decodable rs \<Longrightarrow> pins_of (kind_recs KPin rs) = pins_of rs"
proof -
  assume "decodable rs"
  then have "fold (\<lambda>r ps. case lr_event r of PinEv b on \<Rightarrow> pin_set b (lr_tenant r) on ps | _ \<Rightarrow> ps) (kind_recs KPin rs) ps =
      fold (\<lambda>r ps. case lr_event r of PinEv b on \<Rightarrow> pin_set b (lr_tenant r) on ps | _ \<Rightarrow> ps) rs ps" for ps
    by (induction rs arbitrary: ps) (auto simp: kind_recs_def decodable_def split: comms_event.split)
  then show ?thesis by (simp add: pins_of_def)
qed

lemma kind_state: "decodable rs \<Longrightarrow> task_fold (kind_recs KState rs) t q = task_fold rs t q"
proof -
  assume "decodable rs"
  then have "fold (play_state t q) (kind_recs KState rs) ts = fold (play_state t q) rs ts" for ts
    by (induction rs arbitrary: ts) (auto simp: kind_recs_def decodable_def play_state_def split: comms_event.split)
  then show ?thesis by (simp add: task_fold_def fun_eq_iff)
qed

lemma sorted_posted: "sorted_wrt (<) (map lr_seq rs) \<Longrightarrow> sorted_wrt (<) (map m_seq (posted rs))"
proof (induction rs)
  case (Cons r rs)
  have "m_seq ` set (posted rs) \<subseteq> lr_seq ` set rs"
    by (induction rs) (auto simp: msg_of_def split: comms_event.split)
  then have "\<forall>x \<in> set (map m_seq (posted rs)). lr_seq r < x" using Cons.prems by auto
  then show ?case using Cons by (auto simp: msg_of_def split: comms_event.split)
qed simp

lemma seed_all_at:
  "task_at (seed_all ms tm) t q =
     (case task_at tm t q of
        Some ts \<Rightarrow> Some ts
      | None \<Rightarrow> map_option (\<lambda>m. pending_task (m_deadline m))
                 (find (\<lambda>m. m_kind m = ''task'' \<and> m_tenant m = t \<and> m_seq m = q) ms))"
  by (induction ms arbitrary: tm) (auto simp: seed_all_def pending_task_def split: option.splits)

text \<open>The rebuilt store in closed form.\<close>

definition live_at :: "comms_event lrec list \<Rightarrow> int \<Rightarrow> message list" where
  "live_at rs now = filter (\<lambda>m. \<not> cleared rs m) (filter (\<lambda>m. \<not> isExpired m now) (posted rs))"

lemma NewComms_eq:
  assumes "decodable (el_recs l)" and "el_ok l"
  shows "\<exists>s. NewComms l now = Inr s \<and> cs_entries s = live_at (el_recs l) now \<and>
    cs_pinned s = pins_of (el_recs l) \<and> cs_journal s = l \<and>
    (\<forall>t q. task_at (cs_tasks s) t q =
       map_option (\<lambda>m. task_fold (el_recs l) t q (pending_task (m_deadline m)))
         (find (\<lambda>m. m_kind m = ''task'' \<and> m_tenant m = t \<and> m_seq m = q) (live_at (el_recs l) now)))"
proof -
  let ?rs = "el_recs l" and ?ne = "\<lambda>m. \<not> isExpired m now"
  have k: "of_kind k l = kind_recs k ?rs" for k by (simp add: of_kind_def kind_recs_def el_scan_def)
  let ?es = "filter ?ne (posted (kind_recs KMessage ?rs)) @ filter ?ne (posted (kind_recs KImage ?rs))"
  have srt: "sorted_wrt (<) (map m_seq (filter ?ne (posted ?rs)))"
    using assms(2) by (intro sorted_wrt_filter_map sorted_posted) (simp add: el_ok_def)
  have "mset ?es = mset (filter ?ne (posted ?rs))"
    by (simp add: kind_posted_mset [OF assms(1)])
  moreover have "sorted (map m_seq (filter ?ne (posted ?rs)))" using srt by (rule strict_sorted_imp_sorted)
  moreover have "inj_on m_seq (set (filter ?ne (posted ?rs)))"
    using sorted_wrt_less_distinct [OF srt] by (simp only: distinct_map)
  ultimately have es: "sort_key m_seq ?es = filter ?ne (posted ?rs)"
    by (metis sort_key_inj_key_eq set_mset_mset)
  have c: "scan_clears (kind_recs KClear ?rs) (filter ?ne (posted ?rs)) = Inr (live_at ?rs now)"
    using scan_clears_eq [of "kind_recs KClear ?rs"] assms(1) by (simp add: kind_cleared live_at_def)
  have p: "scan_pins (kind_recs KPin ?rs) [] = Inr (pins_of ?rs)"
    using scan_pins_eq [of "kind_recs KPin ?rs" "[]"] kind_pins [OF assms(1)] assms(1) by (simp add: pins_of_def)
  obtain tm where tm: "replayState (kind_recs KState ?rs) (seed_all (live_at ?rs now) []) = Inr tm"
    "\<forall>t q. task_at tm t q = map_option (task_fold ?rs t q) (task_at (seed_all (live_at ?rs now) []) t q)"
    using replayState_eq [of "kind_recs KState ?rs" "seed_all (live_at ?rs now) []"] assms(1)
    by (auto simp: kind_state)
  show ?thesis
    using tm c p es assms(1)
    by (simp add: NewComms_def k scan_messages_eq seed_all_at option.map_comp comp_def)
qed

section \<open>RAM and journal agree\<close>

definition untimed :: "message \<Rightarrow> message" where
  "untimed m = m\<lparr>m_ts := 0\<rparr>"

lemma untimed_simps [simp]:
  "m_seq (untimed m) = m_seq m" "m_tenant (untimed m) = m_tenant m" "m_kind (untimed m) = m_kind m"
  "m_deadline (untimed m) = m_deadline m" "isExpired (untimed m) = isExpired m" "m_blob (untimed m) = m_blob m"
  "in_clear t area q (untimed m) = in_clear t area q m"
  by (simp_all add: untimed_def isExpired_def in_clear_def fun_eq_iff)

text \<open>\<open>since\<close> is the time of the last sweep: later, RAM and journal show the same live messages.\<close>

definition agrees :: "int \<Rightarrow> comms_store \<Rightarrow> bool" where
  "agrees since s \<longleftrightarrow>
     decodable (el_recs (cs_journal s)) \<and> cs_pinned s = pins_of (el_recs (cs_journal s)) \<and>
     cs_retainN s \<le> 0 \<and> cs_retainAge s \<le> 0 \<and>
     (\<forall>now \<ge> since. map untimed (filter (\<lambda>m. \<not> isExpired m now) (cs_entries s)) =
        map untimed (live_at (el_recs (cs_journal s)) now)) \<and>
     (\<exists>base. tracks (cs_journal s) (cs_tasks s) base \<and>
        (\<forall>m \<in> set (cs_entries s). m_kind m = ''task'' \<longrightarrow>
           base (m_tenant m) (m_seq m) = Some (pending_task (m_deadline m))))"

fun keeps_retention :: "comms_op \<Rightarrow> bool" where
  "keeps_retention (OpRetention _ _ _) = False"
| "keeps_retention _ = True"

fun sweep_time :: "comms_op \<Rightarrow> int \<Rightarrow> int" where
  "sweep_time (OpSweep _ _ now _) since = max now since"
| "sweep_time _ since = since"

lemma agrees_events:
  assumes a: "agrees since s" and l: "el_recs l = el_recs (cs_journal s) @ rs"
    and ev: "\<forall>r \<in> set rs. event_kind (lr_event r) = KState \<and> (\<forall>k. lr_event r \<noteq> UndecodableEv k)"
  shows "decodable (el_recs l)" "pins_of (el_recs l) = pins_of (el_recs (cs_journal s))"
    "live_at (el_recs l) now = live_at (el_recs (cs_journal s)) now"
proof -
  show "decodable (el_recs l)" using a ev l by (auto simp: agrees_def decodable_def)
  have p: "posted rs = []" using ev by (induction rs) (auto simp: msg_of_def split: comms_event.splits)
  have "cleared (el_recs l) = cleared (el_recs (cs_journal s))"
    using ev l by (auto simp: cleared_def fun_eq_iff)
  then show "live_at (el_recs l) now = live_at (el_recs (cs_journal s)) now"
    using l p by (simp add: live_at_def)
  have "fold (\<lambda>r ps. case lr_event r of PinEv b on \<Rightarrow> pin_set b (lr_tenant r) on ps | _ \<Rightarrow> ps) rs ps = ps" for ps
    using ev by (induction rs arbitrary: ps) (auto split: comms_event.splits)
  then show "pins_of (el_recs l) = pins_of (el_recs (cs_journal s))" using l by (simp add: pins_of_def)
qed

lemma comms_inv_unique:
  assumes "comms_inv s" and "m \<in> set (cs_entries s)" and "m' \<in> set (cs_entries s)" and "m_seq m = m_seq m'"
  shows "m = m'"
proof -
  have "distinct (map m_seq (cs_entries s))"
    using assms(1) by (intro sorted_wrt_less_distinct) (simp add: comms_inv_def)
  then show ?thesis using assms(2-4) by (auto simp: distinct_map inj_on_def)
qed

lemma agrees_state_event:
  assumes a: "agrees since s" and inv: "comms_inv s"
    and l: "el_append env t (StateEv q st who lease) (cs_journal s) = (l, Some n)"
    and ts: "task_at (cs_tasks s) t q = Some ts"
  shows "agrees since (s\<lparr>cs_journal := l, cs_tasks := set_task t q (apply_state st who lease ts) (cs_tasks s)\<rparr>)"
proof -
  obtain base where b: "tracks (cs_journal s) (cs_tasks s) base"
    "\<forall>m \<in> set (cs_entries s). m_kind m = ''task'' \<longrightarrow> base (m_tenant m) (m_seq m) = Some (pending_task (m_deadline m))"
    using a by (auto simp: agrees_def)
  obtain r where r: "el_recs l = el_recs (cs_journal s) @ [r]" "lr_event r = StateEv q st who lease"
    using l by (auto simp: el_append_Some)
  have "\<forall>x \<in> set [r]. event_kind (lr_event x) = KState \<and> (\<forall>k. lr_event x \<noteq> UndecodableEv k)" using r(2) by simp
  note e = agrees_events [OF a r(1) this]
  show ?thesis using a b tracks_state [OF b(1) l ts] e by (auto simp: agrees_def)
qed

lemma agrees_claim:
  assumes "agrees since s" and "comms_inv s"
  shows "agrees since (fst (Claim env t q who now s))"
proof -
  obtain s' ts' ok err where c: "Claim env t q who now s = (s', ts', ok, err)" by (metis surj_pair)
  show ?thesis
  proof (cases ok)
    case True
    with c have "Claim env t q who now s = (s', ts', True, err)" by simp
    from Claim_step [OF this] obtain ts n where
      ts: "task_at (cs_tasks s) t q = Some ts" "ts' = apply_state ''claimed'' who (now + cs_leaseTTL s) ts"
      and a: "el_append env t (StateEv q ''claimed'' who (now + cs_leaseTTL s)) (cs_journal s) = (cs_journal s', Some n)"
      and s': "s' = s\<lparr>cs_journal := cs_journal s', cs_tasks := set_task t q ts' (cs_tasks s)\<rparr>" by blast
    have "agrees since s'" by (subst s', subst ts(2)) (rule agrees_state_event [OF assms a ts(1)])
    then show ?thesis using c by simp
  next
    case False
    then show ?thesis using Claim_fails [of env t q who now s s' ts' err] c assms by simp
  qed
qed

lemma agrees_resolve:
  assumes "agrees since s" and "comms_inv s"
  shows "agrees since (fst (ResolveTask env t q who st s))"
proof -
  obtain s' err where c: "ResolveTask env t q who st s = (s', err)" by (metis surj_pair)
  show ?thesis
  proof (cases err)
    case None
    with c have "ResolveTask env t q who st s = (s', None)" by simp
    from Resolve_step [OF this] obtain ts ts' n st' where
      ts: "task_at (cs_tasks s) t q = Some ts" "ts' = apply_state st' who 0 ts"
      and a: "el_append env t (StateEv q st' who 0) (cs_journal s) = (cs_journal s', Some n)"
      and s': "s' = s\<lparr>cs_journal := cs_journal s', cs_tasks := set_task t q ts' (cs_tasks s)\<rparr>" by blast
    have "agrees since s'" by (subst s', subst ts(2)) (rule agrees_state_event [OF assms a ts(1)])
    then show ?thesis using c by simp
  next
    case (Some e)
    then show ?thesis using Resolve_fails [of env t q who st s s' e] c assms by simp
  qed
qed

lemma agrees_posts:
  assumes a: "agrees since s" and inv: "comms_inv s" and p: "posts t now s s'"
  shows "agrees since s'"
proof -
  let ?q = "el_next (cs_journal s)" and ?rs = "el_recs (cs_journal s)"
  obtain e p l tm env where e: "e = MessageEv p \<or> e = ImageEv p \<and> pl_kind p = ''image''"
    and l: "el_append env t e (cs_journal s) = (l, Some ?q)"
    and tm: "tm = (if pl_kind p = ''task'' then seedTask t ?q (pl_deadline p) (cs_tasks s) else cs_tasks s)"
    and s': "s' = add_msg l (mk_message ?q t now p) tm s"
    using p unfolding posts_def by metis
  obtain clock where l': "el_recs l = ?rs @ [\<lparr>lr_seq = ?q, lr_time = clock, lr_tenant = t, lr_event = e\<rparr>]"
    using l by (auto simp: el_append_Some)
  obtain base where b: "tracks (cs_journal s) (cs_tasks s) base"
    "\<forall>m \<in> set (cs_entries s). m_kind m = ''task'' \<longrightarrow> base (m_tenant m) (m_seq m) = Some (pending_task (m_deadline m))"
    using a by (auto simp: agrees_def)
  have ret: "cs_retainN s \<le> 0 \<and> cs_retainAge s \<le> 0" using a by (simp add: agrees_def)
  have s'': "cs_journal s' = l" "cs_entries s' = cs_entries s @ [mk_message ?q t now p]" "cs_tasks s' = tm"
    "cs_pinned s' = cs_pinned s" "cs_retainN s' = cs_retainN s" "cs_retainAge s' = cs_retainAge s"
    using ret by (simp_all add: s' add_msg_def pruneAt_def Let_def)
  have seqs: "\<forall>r \<in> set ?rs. lr_seq r < ?q" using inv by (simp add: comms_inv_def el_ok_def)
  have nc: "\<not> cleared (el_recs l) (mk_message ?q t clock p)"
    using seqs l' e by (force simp: cleared_def in_clear_def)
  have cl: "cleared (el_recs l) m = cleared ?rs m" for m using l' e by (auto simp: cleared_def)
  have "posted (el_recs l) = posted ?rs @ [mk_message ?q t clock p]"
    using e by (auto simp: l' msg_of_def)
  then have live: "live_at (el_recs l) n = live_at ?rs n @ (if isExpired (mk_message ?q t clock p) n then [] else [mk_message ?q t clock p])" for n
    using nc by (simp add: live_at_def cl)
  have un: "untimed (mk_message ?q t clock p) = untimed (mk_message ?q t now p)"
    and ex: "isExpired (mk_message ?q t clock p) n = isExpired (mk_message ?q t now p) n" for n
    by (simp_all add: untimed_def mk_message_def isExpired_def)
  have v: "map untimed (filter (\<lambda>m. \<not> isExpired m n) (cs_entries s')) = map untimed (live_at (el_recs l) n)" if "since \<le> n" for n
    using a that by (simp add: agrees_def s'' live un ex)
  have dec: "decodable (el_recs l)" using a e l' by (auto simp: agrees_def decodable_def)
  have pins: "pins_of (el_recs l) = pins_of ?rs" using e l' by (auto simp: pins_of_def)
  let ?base = "if pl_kind p = ''task'' then base(t := (base t)(?q := Some (pending_task (pl_deadline p)))) else base"
  have none: "task_at (cs_tasks s) t ?q = None" using inv by (fastforce simp: comms_inv_def old_keys_def)
  have fresh: "task_fold (el_recs l) t ?q ts = ts" for ts
    using task_fold_fresh [of "cs_journal s" ?q t ts] inv e
    by (auto simp: l' task_fold_append task_fold_single play_state_def comms_inv_def)
  have "event_kind e \<noteq> KState" using e by auto
  from tracks_other [OF b(1) l this] have tr: "tracks l (cs_tasks s) base" .
  have "tracks l tm ?base"
    using tr none fresh by (auto simp: tracks_def tm pending_task_def)
  moreover have "\<forall>m \<in> set (cs_entries s'). m_kind m = ''task'' \<longrightarrow> ?base (m_tenant m) (m_seq m) = Some (pending_task (m_deadline m))"
    using b(2) inv by (auto simp: s'' comms_inv_def)
  ultimately have "\<exists>base. tracks (cs_journal s') (cs_tasks s') base \<and>
      (\<forall>m \<in> set (cs_entries s'). m_kind m = ''task'' \<longrightarrow>
         base (m_tenant m) (m_seq m) = Some (pending_task (m_deadline m)))"
    by (intro exI [of _ ?base]) (simp only: s'')
  moreover have "\<forall>n \<ge> since. map untimed (filter (\<lambda>m. \<not> isExpired m n) (cs_entries s')) =
      map untimed (live_at (el_recs (cs_journal s')) n)"
    using v by (simp only: s''(1)) blast
  moreover have "cs_pinned s' = pins_of (el_recs (cs_journal s'))"
    using a pins by (simp only: s'' agrees_def)
  ultimately show ?thesis using ret dec s''(1,5,6) by (simp only: agrees_def)
qed

lemma agrees_clear:
  assumes a: "agrees since s" and inv: "comms_inv s"
  shows "agrees since (fst (Clear env t area s))"
proof (cases "area = [] \<or> env = None")
  case True
  then show ?thesis using a by (auto simp: Clear_def el_append_def)
next
  case False
  let ?q = "el_next (cs_journal s)" and ?rs = "el_recs (cs_journal s)"
  obtain l where l: "el_append env t (ClearEv area) (cs_journal s) = (l, Some ?q)" using False by (auto simp: el_append_def)
  obtain clock where l': "el_recs l = ?rs @ [\<lparr>lr_seq = ?q, lr_time = clock, lr_tenant = t, lr_event = ClearEv area\<rparr>]"
    using l by (auto simp: el_append_Some)
  have s': "fst (Clear env t area s) = s\<lparr>cs_journal := l, cs_entries := filter (\<lambda>m. \<not> in_clear t area ?q m) (cs_entries s)\<rparr>"
    using False l by (simp add: Clear_def)
  have cl: "cleared (el_recs l) m \<longleftrightarrow> cleared ?rs m \<or> in_clear t area ?q m" for m using l' by (auto simp: cleared_def)
  have live: "live_at (el_recs l) n = filter (\<lambda>m. \<not> in_clear t area ?q m) (live_at ?rs n)" for n
    using l' cl by (simp add: live_at_def msg_of_def conj_commute conj_left_commute)
  have filt: "map untimed (filter (\<lambda>m. \<not> in_clear t area ?q m) xs) = filter (\<lambda>m. \<not> in_clear t area ?q m) (map untimed xs)" for xs
    by (simp add: filter_map comp_def)
  have v: "map untimed (filter (\<lambda>m. \<not> isExpired m n) (filter (\<lambda>m. \<not> in_clear t area ?q m) (cs_entries s))) =
      map untimed (live_at (el_recs l) n)" if "since \<le> n" for n
  proof -
    have "filter (\<lambda>m. \<not> isExpired m n) (filter (\<lambda>m. \<not> in_clear t area ?q m) (cs_entries s)) =
        filter (\<lambda>m. \<not> in_clear t area ?q m) (filter (\<lambda>m. \<not> isExpired m n) (cs_entries s))"
      by (rule filter_commute)
    moreover have "map untimed (filter (\<lambda>m. \<not> isExpired m n) (cs_entries s)) = map untimed (live_at ?rs n)"
      using a that by (simp add: agrees_def)
    ultimately show ?thesis by (simp only: live filt)
  qed
  obtain base where b: "tracks (cs_journal s) (cs_tasks s) base"
    "\<forall>m \<in> set (cs_entries s). m_kind m = ''task'' \<longrightarrow> base (m_tenant m) (m_seq m) = Some (pending_task (m_deadline m))"
    using a by (auto simp: agrees_def)
  have "tracks l (cs_tasks s) base" by (rule tracks_other [OF b(1) l]) simp
  then show ?thesis using a v b(2) l' unfolding s'
    by (auto simp: agrees_def decodable_def pins_of_def)
qed

lemma agrees_pin:
  assumes a: "agrees since s"
  shows "agrees since (fst (Pin env t b on s))"
proof (cases "b = [] \<or> env = None")
  case True
  then show ?thesis using a by (auto simp: Pin_def el_append_def)
next
  case False
  let ?q = "el_next (cs_journal s)" and ?rs = "el_recs (cs_journal s)"
  obtain l where l: "el_append env t (PinEv b on) (cs_journal s) = (l, Some ?q)" using False by (auto simp: el_append_def)
  obtain clock where l': "el_recs l = ?rs @ [\<lparr>lr_seq = ?q, lr_time = clock, lr_tenant = t, lr_event = PinEv b on\<rparr>]"
    using l by (auto simp: el_append_Some)
  have s': "fst (Pin env t b on s) = s\<lparr>cs_journal := l, cs_pinned := pin_set b t on (cs_pinned s)\<rparr>"
    using False l by (simp add: Pin_def)
  have "cleared (el_recs l) = cleared ?rs" using l' by (auto simp: cleared_def fun_eq_iff)
  then have live: "live_at (el_recs l) n = live_at ?rs n" for n using l' by (simp add: live_at_def msg_of_def)
  obtain base where b: "tracks (cs_journal s) (cs_tasks s) base"
    "\<forall>m \<in> set (cs_entries s). m_kind m = ''task'' \<longrightarrow> base (m_tenant m) (m_seq m) = Some (pending_task (m_deadline m))"
    using a by (auto simp: agrees_def)
  have "tracks l (cs_tasks s) base" by (rule tracks_other [OF b(1) l]) simp
  then show ?thesis using a live b(2) l' unfolding s'
    by (auto simp: agrees_def decodable_def pins_of_def)
qed

lemma tracks_delete:
  assumes "tracks l tm base"
  shows "tracks l (delete_tasks ms tm) (\<lambda>t q. if \<exists>m \<in> set ms. m_tenant m = t \<and> m_seq m = q then None else base t q)"
  using assms by (auto simp: tracks_def task_at_delete_tasks)

lemma filter_expired_later:
  "n \<le> n' \<Longrightarrow> filter (\<lambda>m. \<not> isExpired m n') (filter (\<lambda>m. \<not> isExpired m n) xs) = filter (\<lambda>m. \<not> isExpired m n') xs"
  by (rule filter_absorb) (auto simp: isExpired_def)

text \<open>The sweep appends only events that decode.\<close>

lemma sweep_task_decodable:
  "decodable (el_recs (fst st)) \<Longrightarrow> decodable (el_recs (fst (sweep_task f1 f2 now es k st)))"
  by (cases st)
     (auto simp: sweep_task_def sweep_deadline_def el_append_def decodable_def Let_def split: option.splits)

lemma sweep_tasks_decodable:
  "decodable (el_recs (fst st)) \<Longrightarrow> decodable (el_recs (fst (sweep_tasks e1 e2 now es ks st)))"
  by (induction ks arbitrary: st) (simp_all add: sweep_tasks_def sweep_task_decodable)

lemma agrees_sweep:
  assumes a: "agrees since s" and inv: "comms_inv s"
  shows "agrees (max now since) (sweep_tick e1 e2 now ks s)"
proof -
  obtain l tm ns where w: "sweep_tasks e1 e2 now (cs_entries s) ks (cs_journal s, cs_tasks s, []) = (l, tm, ns)"
    by (metis prod_cases3)
  have rel: "sweep_rel now (cs_journal s, cs_tasks s, []) (l, tm, ns)"
    using sweep_tasks_rel [of now "(cs_journal s, cs_tasks s, [])" e1 e2 "cs_entries s" ks] w by simp
  let ?gone = "filter (\<lambda>m. isExpired m now) (cs_entries s)"
  have ret: "cs_retainN s \<le> 0 \<and> cs_retainAge s \<le> 0" using a by (simp add: agrees_def)
  obtain h pr where eq: "sweep_tick e1 e2 now ks s =
      s\<lparr>cs_journal := l, cs_tasks := delete_tasks ?gone tm,
        cs_entries := filter (\<lambda>m. \<not> isExpired m now) (cs_entries s), cs_presence := pr, cs_hub := h\<rparr>"
    using sweep_tick_eq [OF w] ret by blast
  obtain rs where rs: "el_recs l = el_recs (cs_journal s) @ rs" "\<forall>r \<in> set rs. event_kind (lr_event r) = KState"
    using rel by (auto simp: sweep_rel_def)
  obtain base where b: "tracks (cs_journal s) (cs_tasks s) base"
    "\<forall>m \<in> set (cs_entries s). m_kind m = ''task'' \<longrightarrow> base (m_tenant m) (m_seq m) = Some (pending_task (m_deadline m))"
    using a by (auto simp: agrees_def)
  have tr: "tracks l tm base" using rel b(1) by (simp add: sweep_rel_def)
  have un: "\<forall>r \<in> set rs. \<forall>k. lr_event r \<noteq> UndecodableEv k"
    using sweep_tasks_decodable [of "(cs_journal s, cs_tasks s, [])" e1 e2 now "cs_entries s" ks] w rs(1) a
    by (auto simp: agrees_def decodable_def)
  note e = agrees_events [OF a rs(1)]
  have v: "map untimed (filter (\<lambda>m. \<not> isExpired m n) (filter (\<lambda>m. \<not> isExpired m now) (cs_entries s))) =
      map untimed (live_at (el_recs l) n)" if "max now since \<le> n" for n
    using a that filter_expired_later [of now n "cs_entries s"] e(3) [of n] rs(2) un
    by (simp add: agrees_def del: filter_filter)
  let ?base = "\<lambda>t q. if \<exists>m \<in> set ?gone. m_tenant m = t \<and> m_seq m = q then None else base t q"
  have "\<forall>m \<in> set (filter (\<lambda>m. \<not> isExpired m now) (cs_entries s)). m_kind m = ''task'' \<longrightarrow>
      ?base (m_tenant m) (m_seq m) = Some (pending_task (m_deadline m))"
  proof (intro ballI impI)
    fix m assume m: "m \<in> set (filter (\<lambda>m. \<not> isExpired m now) (cs_entries s))" and k: "m_kind m = ''task''"
    have "\<not> (\<exists>m' \<in> set ?gone. m_tenant m' = m_tenant m \<and> m_seq m' = m_seq m)"
    proof
      assume "\<exists>m' \<in> set ?gone. m_tenant m' = m_tenant m \<and> m_seq m' = m_seq m"
      then obtain m' where "m' \<in> set (cs_entries s)" "isExpired m' now" "m_seq m' = m_seq m" by auto
      then show False using comms_inv_unique [OF inv, of m' m] m by auto
    qed
    then show "?base (m_tenant m) (m_seq m) = Some (pending_task (m_deadline m))" using b(2) m k by simp
  qed
  then show ?thesis using a v tracks_delete [OF tr, of ?gone] e(1,2) rs(2) un unfolding eq
    by (auto simp: agrees_def simp del: filter_filter)
qed

lemma agrees_step:
  assumes "agrees since s" and "comms_inv s" and "keeps_retention x"
  shows "agrees (sweep_time x since) (comms_step x s)"
proof (cases x)
  case (OpPost env now t p)
  then show ?thesis using Post_shape [of env now t p s] agrees_posts [OF assms(1,2)] assms(1) by auto
next
  case (OpImage env now t p)
  then show ?thesis using PostImage_shape [of env now t p s] agrees_posts [OF assms(1,2)] assms(1) by auto
next
  case (OpHeartbeat t agent area st now)
  then show ?thesis using assms(1) by (simp add: Heartbeat_def agrees_def)
next
  case (OpOther k)
  then show ?thesis using assms(1) by (simp add: agrees_def el_skip_def tracks_def)
next
  case (OpRetention now n age)
  then show ?thesis using assms(3) by simp
qed (simp_all add: assms agrees_claim agrees_resolve agrees_clear agrees_pin agrees_sweep)

lemma agrees_empty: "agrees since (comms_empty ttl owner)"
  by (auto simp: agrees_def comms_empty_def el_empty_def decodable_def pins_of_def live_at_def tracks_def
      intro!: exI [of _ "\<lambda>_ _. None"])

lemma agrees_run:
  assumes "agrees since s" and "comms_inv s" and "\<forall>x \<in> set xs. keeps_retention x"
  shows "agrees (fold sweep_time xs since) (fold comms_step xs s)"
  using assms
proof (induction xs arbitrary: s since)
  case (Cons x xs)
  have "agrees (sweep_time x since) (comms_step x s)" using agrees_step [OF Cons.prems(1,2)] Cons.prems(3) by simp
  then show ?case using Cons.IH comms_step_good [OF Cons.prems(2), of x] Cons.prems(3) by simp
qed simp

lemma find_untimed:
  assumes "map untimed xs = map untimed ys" and "\<And>m. P (untimed m) = P m"
  shows "map_option untimed (find P xs) = map_option untimed (find P ys)"
  using assms(1)
proof (induction xs arbitrary: ys)
  case (Cons x xs)
  then obtain y ys' where y: "ys = y # ys'" "untimed x = untimed y" "map untimed xs = map untimed ys'"
    by (cases ys) auto
  have "P x = P y" using assms(2) y(2) by metis
  then show ?case using Cons.IH [OF y(3)] y by simp
qed simp

lemma NewComms_facts:
  assumes "\<forall>x \<in> set xs. keeps_retention x" and "fold sweep_time xs start \<le> now"
    and "s = fold comms_step xs (comms_empty ttl owner)"
  shows "\<exists>s'. NewComms (cs_journal s) now = Inr s' \<and>
    map untimed (cs_entries s') = map untimed (filter (\<lambda>m. \<not> isExpired m now) (cs_entries s)) \<and>
    cs_pinned s' = cs_pinned s \<and>
    (\<forall>t q. TaskOf t q s' =
       (if \<exists>m \<in> set (cs_entries s). m_kind m = ''task'' \<and> m_tenant m = t \<and> m_seq m = q \<and> \<not> isExpired m now
        then TaskOf t q s else None))"
proof -
  have ag: "agrees (fold sweep_time xs start) s" unfolding assms(3)
    by (rule agrees_run [OF agrees_empty]) (simp_all add: assms(1))
  have inv: "comms_inv s" unfolding assms(3) by (rule comms_run_inv) simp
  let ?rs = "el_recs (cs_journal s)"
  have v: "map untimed (filter (\<lambda>m. \<not> isExpired m now) (cs_entries s)) = map untimed (live_at ?rs now)"
    using ag assms(2) by (simp add: agrees_def)
  obtain base where b: "tracks (cs_journal s) (cs_tasks s) base"
    "\<forall>m \<in> set (cs_entries s). m_kind m = ''task'' \<longrightarrow> base (m_tenant m) (m_seq m) = Some (pending_task (m_deadline m))"
    using ag by (auto simp: agrees_def)
  have "decodable ?rs" "el_ok (cs_journal s)" using ag inv by (simp_all add: agrees_def comms_inv_def)
  from NewComms_eq [OF this, of now] obtain s' where s': "NewComms (cs_journal s) now = Inr s'"
    "cs_entries s' = live_at ?rs now" "cs_pinned s' = pins_of ?rs"
    "\<And>t q. task_at (cs_tasks s') t q =
       map_option (\<lambda>m. task_fold ?rs t q (pending_task (m_deadline m)))
         (find (\<lambda>m. m_kind m = ''task'' \<and> m_tenant m = t \<and> m_seq m = q) (live_at ?rs now))" by blast
  have "TaskOf t q s' =
       (if \<exists>m \<in> set (cs_entries s). m_kind m = ''task'' \<and> m_tenant m = t \<and> m_seq m = q \<and> \<not> isExpired m now
        then TaskOf t q s else None)" for t q
  proof -
    let ?P = "\<lambda>m. m_kind m = ''task'' \<and> m_tenant m = t \<and> m_seq m = q"
    let ?es = "filter (\<lambda>m. \<not> isExpired m now) (cs_entries s)"
    have f: "map_option untimed (find ?P ?es) = map_option untimed (find ?P (live_at ?rs now))"
      by (rule find_untimed [OF v]) simp
    show ?thesis
    proof (cases "find ?P ?es")
      case None
      then have "find ?P (live_at ?rs now) = None" using f by simp
      then show ?thesis using None s'(4) by (auto simp: TaskOf_def find_None_iff)
    next
      case (Some m)
      then obtain m' where m': "find ?P (live_at ?rs now) = Some m'" "untimed m' = untimed m"
        using f by (cases "find ?P (live_at ?rs now)") auto
      have mm: "m \<in> set (cs_entries s)" "?P m" "\<not> isExpired m now" using Some by (auto simp: find_Some_iff dest: nth_mem)
      have "m_deadline m' = m_deadline m" using m'(2) untimed_simps(4) by metis
      then have "TaskOf t q s' = Some (task_fold ?rs t q (pending_task (m_deadline m)))"
        using s'(4) m'(1) by (simp add: TaskOf_def)
      also have "\<dots> = TaskOf t q s" using b mm by (auto simp: TaskOf_def tracks_def)
      finally show ?thesis using mm by auto
    qed
  qed
  then show ?thesis using s' v ag by (auto simp: agrees_def)
qed



end
