(* ===== verification/CommsReaders.thy ===== *)
theory CommsReaders
  imports CommsRestart
begin

text \<open>
  What the readers of the coordination space may rely on: polling with a cursor, the effect of a
  sweep, pins, and what clearing an area leaves behind.
\<close>

section \<open>Old messages never appear later\<close>

lemma posts_entries:
  assumes "posts t now s s'" and "m \<in> set (cs_entries s')"
  shows "m \<in> set (cs_entries s) \<or> el_next (cs_journal s) \<le> m_seq m"
proof -
  obtain p l tm where s': "s' = add_msg l (mk_message (el_next (cs_journal s)) t now p) tm s"
    using assms(1) unfolding posts_def by metis
  show ?thesis
    using assms(2) pruneAt_drops [of now "s\<lparr>cs_journal := l,
        cs_entries := cs_entries s @ [mk_message (el_next (cs_journal s)) t now p], cs_tasks := tm\<rparr>"]
    by (auto simp: s' add_msg_def Let_def)
qed

lemma nonpost_entries:
  assumes "\<And>env now t p. x \<noteq> OpPost env now t p" and "\<And>env now t p. x \<noteq> OpImage env now t p"
  shows "set (cs_entries (comms_step x s)) \<subseteq> set (cs_entries s)"
proof (cases x)
  case (OpPost env now t p)
  then show ?thesis using assms(1) by blast
next
  case (OpImage env now t p)
  then show ?thesis using assms(2) by blast
next
  case (OpClear env t area)
  then show ?thesis by (auto simp: Clear_def split: if_splits prod.splits option.splits)
next
  case (OpClaim env t q who now)
  then show ?thesis
    by (auto simp: Claim_def Let_def split: if_splits prod.splits option.splits)
next
  case (OpResolve env t q who st)
  obtain s' err where c: "ResolveTask env t q who st s = (s', err)" by (metis surj_pair)
  have "cs_entries s' = cs_entries s"
  proof (cases err)
    case None
    with c have "ResolveTask env t q who st s = (s', None)" by simp
    from Resolve_step [OF this] obtain ts' where
      "s' = s\<lparr>cs_journal := cs_journal s', cs_tasks := set_task t q ts' (cs_tasks s)\<rparr>" by blast
    from arg_cong [OF this, of cs_entries] show ?thesis by simp
  next
    case (Some e)
    then show ?thesis using Resolve_fails c by blast
  qed
  then show ?thesis using OpResolve c by simp
next
  case (OpPin env t b on)
  then show ?thesis by (auto simp: Pin_def split: if_splits prod.splits option.splits)
next
  case (OpSweep e1 e2 now ks)
  obtain l tm ns where w: "sweep_tasks e1 e2 now (cs_entries s) ks (cs_journal s, cs_tasks s, []) = (l, tm, ns)"
    by (metis prod_cases3)
  show ?thesis using sweep_tick_eq [OF w] OpSweep by auto
next
  case (OpHeartbeat t agent area st now)
  then show ?thesis by (simp add: Heartbeat_def)
next
  case (OpRetention now n age)
  then show ?thesis using pruneAt_drops [of now "s\<lparr>cs_retainN := n, cs_retainAge := age\<rparr>"]
    by (auto simp: SetRetention_def)
next
  case (OpOther k)
  then show ?thesis by simp
qed

lemma step_entries:
  assumes "m \<in> set (cs_entries (comms_step x s))"
  shows "m \<in> set (cs_entries s) \<or> el_next (cs_journal s) \<le> m_seq m"
proof -
  consider (post) env now t p where "x = OpPost env now t p" | (image) env now t p where "x = OpImage env now t p"
    | (other) "set (cs_entries (comms_step x s)) \<subseteq> set (cs_entries s)"
    using nonpost_entries [of x s] by blast
  then show ?thesis
  proof cases
    case post
    then show ?thesis using assms Post_shape [of env now t p s] posts_entries [of t now s "comms_step x s" m] by auto
  next
    case image
    then show ?thesis using assms PostImage_shape [of env now t p s] posts_entries [of t now s "comms_step x s" m] by auto
  qed (use assms in blast)
qed

lemma run_entries:
  assumes "comms_inv s" and "m \<in> set (cs_entries (fold comms_step xs s))"
  shows "m \<in> set (cs_entries s) \<or> el_next (cs_journal s) \<le> m_seq m"
  using assms
proof (induction xs arbitrary: s)
  case (Cons x xs)
  have g: "comms_inv (comms_step x s)" "el_next (cs_journal s) \<le> el_next (cs_journal (comms_step x s))"
    using comms_step_good [OF Cons.prems(1), of x] by (auto simp: well_moved_def)
  then show ?case using Cons.IH [OF g(1)] Cons.prems(2) step_entries [of m x s] by force
qed simp

section \<open>Polling with a cursor\<close>

text \<open>A poll: the messages after the cursor, and the cursor for the next time.\<close>

definition next_cursor :: "nat \<Rightarrow> message list \<Rightarrow> nat" where
  "next_cursor c ms = (if ms = [] then c else m_seq (last ms))"

lemma last_max:
  "sorted_wrt (<) (map m_seq ms) \<Longrightarrow> m \<in> set ms \<Longrightarrow> m_seq m \<le> m_seq (last ms)"
  by (induction ms) (auto simp: less_imp_le)

lemma poll_filter:
  assumes inv: "comms_inv s" and s2: "s2 = fold comms_step ys s"
    and r1: "r1 = filter (\<lambda>m. P m \<and> m_seq m > c) (cs_entries s)"
    and r2: "r2 = filter (\<lambda>m. P m \<and> m_seq m > next_cursor c r1) (cs_entries s2)"
  shows "sorted_wrt (<) (map m_seq (r1 @ r2)) \<and> (\<forall>m \<in> set (r1 @ r2). P m \<and> c < m_seq m) \<and>
         (\<forall>m \<in> set (cs_entries s2). P m \<and> c < m_seq m \<longrightarrow> m \<in> set r1 \<union> set r2)"
proof -
  have inv2: "comms_inv s2" unfolding s2 by (rule comms_run_inv [OF inv])
  have so1: "sorted_wrt (<) (map m_seq r1)" unfolding r1
    by (rule sorted_wrt_filter_map) (use inv in \<open>simp add: comms_inv_def\<close>)
  have so2: "sorted_wrt (<) (map m_seq r2)" unfolding r2
    by (rule sorted_wrt_filter_map) (use inv2 in \<open>simp add: comms_inv_def\<close>)
  have le1: "m_seq m \<le> next_cursor c r1" if "m \<in> set r1" for m
    using last_max [OF so1 that] that by (auto simp: next_cursor_def)
  have lt: "m_seq m < m_seq m'" if "m \<in> set r1" "m' \<in> set r2" for m m'
    using le1 [OF that(1)] that(2) r2 by auto
  have cc: "c \<le> next_cursor c r1"
  proof (cases "r1 = []")
    case False
    then have "last r1 \<in> set r1" by simp
    then show ?thesis using False r1 by (simp add: next_cursor_def)
  qed (simp add: next_cursor_def)
  have all: "m \<in> set r1 \<union> set r2" if m: "m \<in> set (cs_entries s2)" "P m" "c < m_seq m" for m
  proof (cases "m_seq m > next_cursor c r1")
    case True
    then show ?thesis using m r2 by simp
  next
    case False
    then have ne: "r1 \<noteq> []" using m(3) by (auto simp: next_cursor_def)
    then have "last r1 \<in> set (cs_entries s)" using r1 by (metis filter_is_subset last_in_set subsetD)
    then have "m_seq (last r1) < el_next (cs_journal s)" using inv by (simp add: comms_inv_def)
    then have "m_seq m < el_next (cs_journal s)" using False ne by (simp add: next_cursor_def)
    then have "m \<in> set (cs_entries s)" using run_entries [OF inv, of m ys] m(1) s2 by auto
    then show ?thesis using m r1 by simp
  qed
  have "sorted_wrt (<) (map m_seq (r1 @ r2))" using so1 so2 lt by (auto simp: sorted_wrt_append)
  moreover have "\<forall>m \<in> set (r1 @ r2). P m \<and> c < m_seq m" using cc r1 r2 by auto
  ultimately show ?thesis using all by blast
qed

text \<open>Polling misses nothing and repeats nothing: an agent reads an area (or its inbox) after
  cursor c, keeps the number of the last message as its cursor, and reads again after any
  further operations of anyone; the two answers together are in strictly increasing order,
  hold only messages of its own tenant and area (or target) after c, and contain every such
  message that is in the index at the second read.\<close>
theorem polling_complete:
  assumes "s = fold comms_step xs (comms_empty ttl owner)" and "s2 = fold comms_step ys s"
    and "read = ReadArea t area \<or> read = Inbox t area"
    and "r1 = read c s" and "r2 = read (next_cursor c r1) s2"
  shows "sorted_wrt (<) (map m_seq (r1 @ r2)) \<and>
         (\<forall>m \<in> set (r1 @ r2). m_tenant m = t \<and> c < m_seq m \<and> (m_area m = area \<or> m_target m = area)) \<and>
         (\<forall>m \<in> set (read c s2). m \<in> set r1 \<union> set r2)"
proof -
  have inv: "comms_inv s" unfolding assms(1) by (rule comms_run_inv) simp
  show ?thesis using assms(3)
  proof
    assume rd: "read = ReadArea t area"
    have r: "r1 = filter (\<lambda>m. (m_tenant m = t \<and> m_area m = area) \<and> m_seq m > c) (cs_entries s)"
      "r2 = filter (\<lambda>m. (m_tenant m = t \<and> m_area m = area) \<and> m_seq m > next_cursor c r1) (cs_entries s2)"
      using assms(4,5) rd by (simp_all add: ReadArea_def)
    note p = poll_filter [OF inv assms(2) r]
    have "set (read c s2) = {m \<in> set (cs_entries s2). (m_tenant m = t \<and> m_area m = area) \<and> c < m_seq m}"
      unfolding rd ReadArea_def by auto
    with p show ?thesis by blast
  next
    assume rd: "read = Inbox t area"
    have r: "r1 = filter (\<lambda>m. (m_tenant m = t \<and> m_target m = area) \<and> m_seq m > c) (cs_entries s)"
      "r2 = filter (\<lambda>m. (m_tenant m = t \<and> m_target m = area) \<and> m_seq m > next_cursor c r1) (cs_entries s2)"
      using assms(4,5) rd by (simp_all add: Inbox_def)
    note p = poll_filter [OF inv assms(2) r]
    have "set (read c s2) = {m \<in> set (cs_entries s2). (m_tenant m = t \<and> m_target m = area) \<and> c < m_seq m}"
      unfolding rd Inbox_def by auto
    with p show ?thesis by blast
  qed
qed

theorem polling_complete_witness:
  "let s = fold comms_step ex_run (comms_empty 10 []); r1 = ReadArea 1 ''ops'' 0 s;
       r2 = ReadArea 1 ''ops'' (next_cursor 0 r1) (fold comms_step [OpPost (Some 6) 7 1 ex_payload] s)
   in sorted_wrt (<) (map m_seq (r1 @ r2))"
  unfolding Let_def
  by (rule polling_complete [where xs = ex_run and ttl = 10 and owner = "[]" and t = 1 and area = "''ops''"
        and read = "ReadArea 1 ''ops''" and c = 0, OF refl refl disjI1 [OF refl] refl refl, THEN conjunct1])

section \<open>What a sweep achieves\<close>

definition settled :: "int \<Rightarrow> task_state \<Rightarrow> bool" where
  "settled now ts \<longleftrightarrow>
     \<not> (ts_State ts = ''claimed'' \<and> now > ts_LeaseUntil ts) \<and>
     \<not> (ts_State ts \<notin> {''done'', ''cancel'', ''overdue''} \<and> ts_Deadline ts > 0 \<and> now > ts_Deadline ts)"

lemma sweep_task_none: "task_at tm (fst k) (snd k) = None \<Longrightarrow> sweep_task e1 e2 now es k (l, tm, ns) = (l, tm, ns)"
  by (simp add: sweep_task_def)

lemma sweep_task_settles:
  assumes "sweep_task (Some c1) (Some c2) now es k (l, tm, ns) = (l', tm', ns')"
  shows "(\<forall>ts. task_at tm' (fst k) (snd k) = Some ts \<longrightarrow> settled now ts) \<and>
         (\<forall>t q. (t, q) \<noteq> k \<longrightarrow> task_at tm' t q = task_at tm t q)"
proof (cases k)
  case (Pair t0 q0)
  show ?thesis
  proof (cases "task_at tm t0 q0")
    case None
    then show ?thesis using assms Pair sweep_task_none [of tm k] by auto
  next
    case (Some ts)
    then show ?thesis using assms Pair
      by (auto simp: sweep_task_def sweep_deadline_def el_append_def Let_def settled_def split: if_splits)
  qed
qed

lemma sweep_tasks_settle:
  assumes "sweep_tasks (\<lambda>k. Some (c1 k)) (\<lambda>k. Some (c2 k)) now es ks (l, tm, ns) = (l', tm', ns')"
    and "task_at tm' t q = Some ts" and "(t, q) \<in> set ks \<or> (\<forall>x. task_at tm t q = Some x \<longrightarrow> settled now x)"
  shows "settled now ts"
  using assms
proof (induction ks arbitrary: l tm ns)
  case (Cons k ks)
  obtain l1 tm1 ns1 where s1: "sweep_task (Some (c1 k)) (Some (c2 k)) now es k (l, tm, ns) = (l1, tm1, ns1)"
    by (metis prod_cases3)
  note st = sweep_task_settles [OF s1]
  have rest: "sweep_tasks (\<lambda>k. Some (c1 k)) (\<lambda>k. Some (c2 k)) now es ks (l1, tm1, ns1) = (l', tm', ns')"
    using Cons.prems(1) s1 by (simp add: sweep_tasks_def)
  have "(t, q) \<in> set ks \<or> (\<forall>x. task_at tm1 t q = Some x \<longrightarrow> settled now x)"
    using Cons.prems(3) st by (cases "(t, q) = k") auto
  then show ?case using Cons.IH [OF rest Cons.prems(2)] by blast
qed (simp add: sweep_tasks_def)

text \<open>What a sweep achieves: when the journal takes its events and it visits every task (in any
  order), afterwards no claimed task has a lapsed lease, every task past its deadline is
  resolved or flagged overdue, no expired message is in the index, and a task without a message that
  expired or was pruned is still there.\<close>
theorem sweep_settles:
  assumes "set ks = task_keys (cs_tasks s)"
    and "sweepOnce (\<lambda>k. Some (c1 k)) (\<lambda>k. Some (c2 k)) now ks s = (s', nudges)"
  shows "(\<forall>t q ts. TaskOf t q s' = Some ts \<longrightarrow>
            \<not> (ts_State ts = ''claimed'' \<and> now > ts_LeaseUntil ts) \<and>
            (ts_Deadline ts > 0 \<and> now > ts_Deadline ts \<longrightarrow> ts_State ts \<in> {''done'', ''cancel'', ''overdue''})) \<and>
         (\<forall>m \<in> set (cs_entries s'). \<not> isExpired m now \<and> m \<in> set (cs_entries s))"
proof -
  obtain l tm ns where w: "sweep_tasks (\<lambda>k. Some (c1 k)) (\<lambda>k. Some (c2 k)) now (cs_entries s) ks (cs_journal s, cs_tasks s, []) = (l, tm, ns)"
    by (metis prod_cases3)
  obtain es gone h pr where e: "sweep_tick (\<lambda>k. Some (c1 k)) (\<lambda>k. Some (c2 k)) now ks s =
      s\<lparr>cs_journal := l, cs_tasks := delete_tasks gone tm, cs_entries := es, cs_presence := pr, cs_hub := h\<rparr>"
    "set es \<subseteq> {m \<in> set (cs_entries s). \<not> isExpired m now}"
    using sweep_tick_eq [OF w] by blast
  have t': "cs_tasks s' = delete_tasks gone tm" "cs_entries s' = es"
    using arg_cong [OF e(1), of cs_tasks] arg_cong [OF e(1), of cs_entries] assms(2) by (simp_all add: sweep_tick_def)
  have "settled now ts" if "TaskOf t q s' = Some ts" for t q ts
  proof -
    have "task_at tm t q = Some ts" using that t' by (auto simp: TaskOf_def task_at_delete_tasks split: if_splits)
    then show ?thesis
      using sweep_tasks_settle [OF w, of t q ts] assms(1) by (auto simp: task_keys_def)
  qed
  then show ?thesis using e(2) t' by (force simp: settled_def)
qed

theorem sweep_settles_witness:
  "\<exists>s' ns. sweepOnce (\<lambda>_. Some 1) (\<lambda>_. Some 1) 99 [(1, 4)] (ex_comms\<lparr>cs_tasks := seedTask 1 4 20 []\<rparr>) = (s', ns) \<and>
     (\<forall>ts. TaskOf 1 4 s' = Some ts \<longrightarrow> ts_Deadline ts > 0 \<and> 99 > ts_Deadline ts \<longrightarrow> ts_State ts \<in> {''done'', ''cancel'', ''overdue''})"
proof -
  let ?s = "ex_comms\<lparr>cs_tasks := seedTask 1 4 20 []\<rparr>"
  obtain s' ns where w: "sweepOnce (\<lambda>_. Some 1) (\<lambda>_. Some 1) 99 [(1, 4)] ?s = (s', ns)" by (metis surj_pair)
  have "set [(1, 4)] = task_keys (cs_tasks ?s)" by (auto simp: task_keys_def)
  from sweep_settles [OF this w] w show ?thesis by blast
qed

section \<open>Pins\<close>

lemma inner_pin_set:
  "inner (pin_set b t on ps) b' =
     (if b' = b then (if on then List.insert t (inner ps b) else removeAll t (inner ps b)) else inner ps b')"
  by (auto simp: pin_set_def inner_def update_conv' delete_conv' split: option.splits)

fun unpins :: "tenant \<Rightarrow> gostring \<Rightarrow> comms_op \<Rightarrow> bool" where
  "unpins t b (OpPin env t' b' on) \<longleftrightarrow> t' = t \<and> b' = b \<and> \<not> on"
| "unpins t b _ \<longleftrightarrow> False"

lemma cs_pinned_prune [simp]: "cs_pinned (pruneAt now s) = cs_pinned s"
  using pruneAt_drops [of now s] by auto

lemma posts_pinned: "posts t now s s' \<Longrightarrow> cs_pinned s' = cs_pinned s"
  by (auto simp: posts_def add_msg_def Let_def)

lemma step_pinned:
  assumes "t \<in> set (inner (cs_pinned s) b)" and "\<not> unpins t b x"
  shows "t \<in> set (inner (cs_pinned (comms_step x s)) b)"
proof (cases x)
  case (OpPost env now t p)
  then show ?thesis using assms(1) Post_shape [of env now t p s] posts_pinned by auto
next
  case (OpImage env now t p)
  then show ?thesis using assms(1) PostImage_shape [of env now t p s] posts_pinned by auto
next
  case (OpClear env t area)
  then show ?thesis using assms by (auto simp: Clear_def split: prod.split option.split)
next
  case (OpClaim env t q who now)
  then show ?thesis using assms by (auto simp: Claim_def Let_def split: prod.split option.split)
next
  case (OpResolve env t q who st)
  then show ?thesis using assms by (auto simp: ResolveTask_def Let_def split: prod.split option.split)
next
  case (OpPin env t' b' on)
  then show ?thesis using assms by (auto simp: Pin_def inner_pin_set split: prod.split option.split)
next
  case (OpSweep e1 e2 now ks)
  then show ?thesis using assms(1)
    by (auto simp: sweep_tick_def sweepOnce_def prunePresence_def Let_def split: prod.split)
next
  case (OpHeartbeat t agent area st now)
  then show ?thesis using assms by (simp add: Heartbeat_def)
next
  case (OpRetention now n age)
  then show ?thesis using assms by (simp add: SetRetention_def)
next
  case (OpOther k)
  then show ?thesis using assms by simp
qed

lemma run_pinned:
  "t \<in> set (inner (cs_pinned s) b) \<Longrightarrow> \<forall>x \<in> set xs. \<not> unpins t b x \<Longrightarrow>
   t \<in> set (inner (cs_pinned (fold comms_step xs s)) b)"
  by (induction xs arbitrary: s) (auto simp: step_pinned)

lemma pinned_live: "t \<in> set (inner (cs_pinned s) b) \<Longrightarrow> b \<in> LiveBlobIDs s"
proof -
  assume t: "t \<in> set (inner (cs_pinned s) b)"
  then obtain ts where ts: "map_of (cs_pinned s) b = Some ts" "t \<in> set ts"
    by (cases "map_of (cs_pinned s) b") (auto simp: inner_def)
  then have "(b, ts) \<in> set (filter (\<lambda>(b, ts). ts \<noteq> []) (cs_pinned s))"
    by (auto dest: map_of_SomeD)
  from imageI [OF this, of fst] have "b \<in> set (map fst (filter (\<lambda>(b, ts). ts \<noteq> []) (cs_pinned s)))"
    by (simp only: set_map fst_conv)
  then show ?thesis unfolding LiveBlobIDs_def by (rule UnI2)
qed

text \<open>Pins are per tenant and blobs in use are kept: a blob one tenant pinned stays in the
  keep-set of the garbage collection through any further operations in which that tenant does
  not unpin it, whatever other tenants unpin, clear, or let expire; and the blob of every message
  in the index is in the keep-set.\<close>
theorem pinned_blob_kept:
  assumes "snd (Pin env t b True s) = None" and "\<forall>x \<in> set xs. \<not> unpins t b x"
  shows "b \<in> LiveBlobIDs (fold comms_step xs (fst (Pin env t b True s))) \<and>
         (\<forall>s'. \<forall>m \<in> set (cs_entries s'). m_blob m \<noteq> [] \<longrightarrow> m_blob m \<in> LiveBlobIDs s')"
proof -
  have "t \<in> set (inner (cs_pinned (fst (Pin env t b True s))) b)"
    using assms(1) by (auto simp: Pin_def inner_pin_set split: if_splits prod.splits option.splits)
  from pinned_live [OF run_pinned [OF this assms(2)]] show ?thesis by (auto simp: LiveBlobIDs_def)
qed

theorem pinned_blob_kept_witness:
  "''ab'' \<in> LiveBlobIDs (fold comms_step [OpPin (Some 2) 2 ''ab'' False, OpClear (Some 3) 1 ''ops'']
     (fst (Pin (Some 1) 1 ''ab'' True ex_comms)))"
proof -
  have "snd (Pin (Some 1) 1 ''ab'' True ex_comms) = None" by (simp add: Pin_def el_append_def)
  moreover have "\<forall>x \<in> set [OpPin (Some 2) 2 ''ab'' False, OpClear (Some 3) 1 ''ops'']. \<not> unpins 1 ''ab'' x" by simp
  ultimately show ?thesis by (rule pinned_blob_kept [THEN conjunct1])
qed

section \<open>What clearing an area leaves behind\<close>

text \<open>Clearing an area does not clear its tasks: after a successful Clear the pending task's message
  is gone from the index, yet the task is still claimable, for good as far as RAM goes; only a
  restart (rebuilding from the journal) forgets it, and then the same claim is an error.\<close>
theorem clear_leaves_task:
  assumes "\<forall>x \<in> set xs. keeps_retention x" and "s = fold comms_step xs (comms_empty ttl owner)"
    and "m \<in> set (cs_entries s)" and "m_area m \<noteq> []" and "TaskOf (m_tenant m) (m_seq m) s = Some ts"
    and "claimable who now ts" and "who \<noteq> []"
    and "s1 = fst (Clear (Some clock) (m_tenant m) (m_area m) s)" and "fold sweep_time xs start \<le> now"
  shows "GetBySeq (m_tenant m) (m_seq m) s1 = None \<and>
         fst (snd (snd (Claim (Some clock) (m_tenant m) (m_seq m) who now s1))) \<and>
         (\<exists>s2. NewComms (cs_journal s1) now = Inr s2 \<and>
            snd (snd (snd (Claim (Some clock) (m_tenant m) (m_seq m) who now s2))) = Some (CNotTask (m_seq m)))"
proof -
  have inv: "comms_inv s" unfolding assms(2) by (rule comms_run_inv) simp
  have ag: "agrees (fold sweep_time xs start) s" unfolding assms(2)
    by (rule agrees_run [OF agrees_empty]) (simp_all add: assms(1))
  have inv1: "comms_inv s1" unfolding assms(8) using Clear_good [OF inv] by blast
  have ag1: "agrees (fold sweep_time xs start) s1" unfolding assms(8) by (rule agrees_clear [OF ag inv])
  have s1: "s1 = s\<lparr>cs_journal := cs_journal s1,
      cs_entries := filter (\<lambda>x. \<not> in_clear (m_tenant m) (m_area m) (el_next (cs_journal s)) x) (cs_entries s)\<rparr>"
    using assms(4,8) by (simp add: Clear_def el_append_def)
  have e1: "cs_entries s1 = filter (\<lambda>x. \<not> in_clear (m_tenant m) (m_area m) (el_next (cs_journal s)) x) (cs_entries s)"
    by (subst s1) simp
  have t1: "cs_tasks s1 = cs_tasks s" by (subst s1) simp
  have lt: "m_seq m < el_next (cs_journal s)" using inv assms(3) by (simp add: comms_inv_def)
  have gone: "\<not> (m_tenant x = m_tenant m \<and> m_seq x = m_seq m)" if "x \<in> set (cs_entries s1)" for x
  proof
    assume k: "m_tenant x = m_tenant m \<and> m_seq x = m_seq m"
    have "x \<in> set (cs_entries s)" using that e1 by simp
    then have "x = m" using comms_inv_unique [OF inv _ assms(3)] k by simp
    then show False using that e1 lt by (simp add: in_clear_def)
  qed
  have "GetBySeq (m_tenant m) (m_seq m) s1 = None"
    using gone by (auto simp: GetBySeq_def find_None_iff)
  moreover have "fst (snd (snd (Claim (Some clock) (m_tenant m) (m_seq m) who now s1)))"
    using assms(5-7) t1 by (simp add: Claim_def TaskOf_def el_append_def Let_def)
  moreover have "\<exists>s2. NewComms (cs_journal s1) now = Inr s2 \<and> task_at (cs_tasks s2) (m_tenant m) (m_seq m) = None"
  proof -
    have "decodable (el_recs (cs_journal s1))" "el_ok (cs_journal s1)"
      using ag1 inv1 by (simp_all add: agrees_def comms_inv_def)
    from NewComms_eq [OF this, of now] obtain s2 where s2: "NewComms (cs_journal s1) now = Inr s2"
      "\<forall>t q. task_at (cs_tasks s2) t q =
         map_option (\<lambda>m. task_fold (el_recs (cs_journal s1)) t q (pending_task (m_deadline m)))
           (find (\<lambda>m. m_kind m = ''task'' \<and> m_tenant m = t \<and> m_seq m = q) (live_at (el_recs (cs_journal s1)) now))"
      by blast
    have "map untimed (filter (\<lambda>m. \<not> isExpired m now) (cs_entries s1)) = map untimed (live_at (el_recs (cs_journal s1)) now)"
      using ag1 assms(9) by (simp add: agrees_def)
    note fu = find_untimed [OF this, of "\<lambda>x. m_kind x = ''task'' \<and> m_tenant x = m_tenant m \<and> m_seq x = m_seq m"]
    have "find (\<lambda>x. m_kind x = ''task'' \<and> m_tenant x = m_tenant m \<and> m_seq x = m_seq m)
        (filter (\<lambda>m. \<not> isExpired m now) (cs_entries s1)) = None"
      using gone by (auto simp: find_None_iff)
    with fu have "find (\<lambda>x. m_kind x = ''task'' \<and> m_tenant x = m_tenant m \<and> m_seq x = m_seq m) (live_at (el_recs (cs_journal s1)) now) = None"
      by simp
    then show ?thesis using s2 by (intro exI [of _ s2]) simp
  qed
  ultimately show ?thesis using assms(7) by (auto simp: Claim_def)
qed

theorem clear_leaves_task_witness:
  "fst (snd (snd (Claim (Some 9) 1 1 ''bob'' 30
     (fst (Clear (Some 9) 1 ''ops'' (fold comms_step ex_run (comms_empty 10 [])))))))"
proof -
  let ?s = "fold comms_step ex_run (comms_empty 10 [])"
  have r: "\<forall>x \<in> set ex_run. keeps_retention x" and f: "fold sweep_time ex_run 0 \<le> 30" by (simp_all add: ex_run_def)
  have m: "mk_message 1 1 3 ex_payload \<in> set (cs_entries ?s)"
    by (simp add: ex_run_def Post_def ex_payload_def comms_empty_def el_append_def el_empty_def pruneAt_def
        Let_def mk_message_def Claim_def split: option.split)
  have area: "m_area (mk_message 1 1 3 ex_payload) = ''ops''" by (simp add: mk_message_def ex_payload_def)
  have "TaskOf (m_tenant (mk_message 1 1 3 ex_payload)) (m_seq (mk_message 1 1 3 ex_payload)) ?s =
      Some \<lparr>ts_State = ''claimed'', ts_Holder = ''ann'', ts_LeaseUntil = 15, ts_Deadline = 0\<rparr>"
    using ex_claimed by simp
  from clear_leaves_task [OF r refl m _ this, of "''bob''" 30 _ 9] f area show ?thesis
    by (simp add: claimable_def)
qed

end
