(* ===== verification/Blob.thy ===== *)
theory Blob
  imports Prelude
begin

text \<open>
  The content-addressed blob store of \<^verbatim>\<open>blob/blob.go\<close>. The directory is an association list from
  file names to contents, in-progress temp files included. SHA-256 is a parameter of the
  operations that hash; the hex coding is written out. What the file system answers is an
  argument of each operation.
\<close>

section \<open>Names\<close>

definition hex_digit :: "nat \<Rightarrow> char" where
  "hex_digit n = ''0123456789abcdef'' ! n"

definition hex_encode :: "byte list \<Rightarrow> gostring" where
  "hex_encode bs = concat (map (\<lambda>b. [hex_digit (unat b div 16), hex_digit (unat b mod 16)]) bs)"

definition is_hex :: "char \<Rightarrow> bool" where
  "is_hex c \<longleftrightarrow> c \<in> set ''0123456789abcdef''"

definition validSHA :: "gostring \<Rightarrow> bool" where
  "validSHA s \<longleftrightarrow> length s = 64 \<and> list_all is_hex s"

lemma hex_digit_ok [simp]: "n < 16 \<Longrightarrow> is_hex (hex_digit n)"
  unfolding is_hex_def hex_digit_def by (rule nth_mem) simp

lemma hex_digit_inj: "m < 16 \<Longrightarrow> n < 16 \<Longrightarrow> hex_digit m = hex_digit n \<Longrightarrow> m = n"
proof -
  assume "m < 16" "n < 16" "hex_digit m = hex_digit n"
  moreover have "distinct ''0123456789abcdef''" by simp
  ultimately show "m = n" unfolding hex_digit_def by (subst (asm) nth_eq_iff_index_eq) simp_all
qed

lemma byte_nibbles: "unat (b :: byte) div 16 < 16" "unat (b :: byte) mod 16 < 16"
proof -
  have "unat b < 2 ^ LENGTH(8)" by (rule unsigned_less)
  then show "unat b div 16 < 16" "unat b mod 16 < 16" by simp_all
qed

lemma length_hex_encode [simp]: "length (hex_encode bs) = 2 * length bs"
  by (induction bs) (simp_all add: hex_encode_def)

lemma hex_encode_hex: "list_all is_hex (hex_encode bs)"
  by (induction bs) (simp_all add: hex_encode_def byte_nibbles)

lemma hex_encode_inj: "hex_encode xs = hex_encode ys \<Longrightarrow> xs = ys"
proof (induction xs arbitrary: ys)
  case Nil
  then show ?case by (cases ys) (simp_all add: hex_encode_def)
next
  case (Cons x xs)
  then obtain y ys' where ys: "ys = y # ys'" by (cases ys) (simp_all add: hex_encode_def)
  have e: "hex_digit (unat x div 16) = hex_digit (unat y div 16)"
    "hex_digit (unat x mod 16) = hex_digit (unat y mod 16)" "hex_encode xs = hex_encode ys'"
    using Cons.prems by (simp_all add: ys hex_encode_def)
  have "unat x div 16 = unat y div 16" "unat x mod 16 = unat y mod 16"
    using e(1,2) by (auto intro: hex_digit_inj simp: byte_nibbles)
  then have "unat x = unat y" by (metis div_mult_mod_eq)
  then show ?case using Cons.IH [OF e(3)] ys by (simp add: word_unat_eq_iff)
qed

lemma validSHA_hex: "length d = 32 \<Longrightarrow> validSHA (hex_encode d)"
  by (simp add: validSHA_def hex_encode_hex)

section \<open>The store\<close>

type_synonym blob_dir = "(gostring \<times> byte list) list"

datatype blob_error = BlobIO | BlobNotFound

text \<open>How far a Put gets: where it fails, how much a failing write left, whether removing works.\<close>

datatype put_result = PutOk | CreateFails | WriteFails nat bool | CloseFails bool | RenameFails bool

record put_env =
  pe_stat :: bool \<comment> \<open>whether Stat works on an existing file\<close>
  pe_tmp :: gostring
  pe_result :: put_result

definition leave_tmp :: "bool \<Rightarrow> gostring \<Rightarrow> byte list \<Rightarrow> blob_dir \<Rightarrow> blob_dir" where
  "leave_tmp removed tmp data d = (if removed then d else AList.update tmp data d)"

definition BlobPut ::
  "(byte list \<Rightarrow> byte list) \<Rightarrow> put_env \<Rightarrow> byte list \<Rightarrow> blob_dir \<Rightarrow> blob_dir \<times> (blob_error + gostring)" where
  "BlobPut sha256 env data d =
     (let sha = hex_encode (sha256 data)
      in if pe_stat env \<and> map_of d sha \<noteq> None then (d, Inr sha)
         else case pe_result env of
                CreateFails \<Rightarrow> (d, Inl BlobIO)
              | WriteFails n rm \<Rightarrow> (leave_tmp rm (pe_tmp env) (take n data) d, Inl BlobIO)
              | CloseFails rm \<Rightarrow> (leave_tmp rm (pe_tmp env) data d, Inl BlobIO)
              | RenameFails rm \<Rightarrow> (leave_tmp rm (pe_tmp env) data d, Inl BlobIO)
              | PutOk \<Rightarrow> (AList.update sha data d, Inr sha))"

definition BlobGet :: "bool \<Rightarrow> gostring \<Rightarrow> blob_dir \<Rightarrow> blob_error + byte list" where
  "BlobGet read_ok sha d =
     (if \<not> validSHA sha then Inl BlobNotFound
      else case map_of d sha of
             None \<Rightarrow> Inl BlobNotFound
           | Some b \<Rightarrow> if read_ok then Inr b else Inl BlobIO)"

definition BlobDelete :: "bool \<Rightarrow> gostring \<Rightarrow> blob_dir \<Rightarrow> blob_dir \<times> blob_error option" where
  "BlobDelete rm_ok sha d =
     (if \<not> validSHA sha then (d, None)
      else case map_of d sha of
             None \<Rightarrow> (d, None)
           | Some _ \<Rightarrow> if rm_ok then (AList.delete sha d, None) else (d, Some BlobIO))"

text \<open>\<^verbatim>\<open>os.ReadDir\<close> sorts by file name.\<close>

definition BlobList :: "bool \<Rightarrow> blob_dir \<Rightarrow> blob_error + gostring list" where
  "BlobList dir_ok d = (if dir_ok then Inr (filter validSHA (sort (map fst d))) else Inl BlobIO)"

fun sweep_blobs :: "(gostring \<Rightarrow> bool) \<Rightarrow> (gostring \<Rightarrow> bool) \<Rightarrow> gostring list \<Rightarrow> nat \<Rightarrow> blob_dir \<Rightarrow>
    blob_dir \<times> nat \<times> blob_error option" where
  "sweep_blobs rm_ok keep [] n d = (d, n, None)"
| "sweep_blobs rm_ok keep (sha # shas) n d =
     (if keep sha then sweep_blobs rm_ok keep shas n d
      else case BlobDelete (rm_ok sha) sha d of
             (d', Some e) \<Rightarrow> (d', n, Some e)
           | (d', None) \<Rightarrow> sweep_blobs rm_ok keep shas (n + 1) d')"

definition BlobSweep :: "bool \<Rightarrow> (gostring \<Rightarrow> bool) \<Rightarrow> (gostring \<Rightarrow> bool) \<Rightarrow> blob_dir \<Rightarrow>
    blob_dir \<times> nat \<times> blob_error option" where
  "BlobSweep dir_ok rm_ok keep d =
     (case BlobList dir_ok d of
        Inl e \<Rightarrow> (d, 0, Some e)
      | Inr shas \<Rightarrow> sweep_blobs rm_ok keep shas 0 d)"

section \<open>Content addressing\<close>

text \<open>Every blob is filed under the hash of its contents; one name, one file.\<close>

definition blob_inv :: "(byte list \<Rightarrow> byte list) \<Rightarrow> blob_dir \<Rightarrow> bool" where
  "blob_inv sha256 d \<longleftrightarrow> distinct (map fst d) \<and>
     (\<forall>sha b. map_of d sha = Some b \<longrightarrow> validSHA sha \<longrightarrow> sha = hex_encode (sha256 b))"

lemma blob_inv_update:
  "blob_inv sha256 d \<Longrightarrow> (validSHA k \<longrightarrow> k = hex_encode (sha256 b)) \<Longrightarrow> blob_inv sha256 (AList.update k b d)"
  by (auto simp: blob_inv_def update_conv' distinct_update split: if_splits)

lemma blob_inv_delete: "blob_inv sha256 d \<Longrightarrow> blob_inv sha256 (AList.delete k d)"
  by (auto simp: blob_inv_def delete_conv' distinct_delete split: if_splits)

lemma BlobPut_inv:
  assumes "blob_inv sha256 d" and "\<not> validSHA (pe_tmp env)"
  shows "blob_inv sha256 (fst (BlobPut sha256 env data d))"
  using assms by (auto simp: BlobPut_def leave_tmp_def Let_def blob_inv_update split: put_result.split)

lemma sweep_blobs_eq:
  assumes "\<forall>s \<in> set shas. validSHA s" and "distinct shas" and "set shas \<subseteq> fst ` set d"
  shows "\<exists>shas'. prefix shas' shas \<and>
     fst (sweep_blobs rm_ok keep shas n d) = fold AList.delete (filter (\<lambda>s. \<not> keep s) shas') d \<and>
     fst (snd (sweep_blobs rm_ok keep shas n d)) = n + length (filter (\<lambda>s. \<not> keep s) shas') \<and>
     (snd (snd (sweep_blobs rm_ok keep shas n d)) = None \<longrightarrow> shas' = shas)"
  using assms
proof (induction shas arbitrary: n d)
  case (Cons s shas)
  show ?case
  proof (cases "keep s")
    case True
    obtain shas' where "prefix shas' shas"
      "fst (sweep_blobs rm_ok keep shas n d) = fold AList.delete (filter (\<lambda>s. \<not> keep s) shas') d"
      "fst (snd (sweep_blobs rm_ok keep shas n d)) = n + length (filter (\<lambda>s. \<not> keep s) shas')"
      "snd (snd (sweep_blobs rm_ok keep shas n d)) = None \<longrightarrow> shas' = shas"
      using Cons.IH [of d n] Cons.prems by auto
    then show ?thesis using True by (intro exI [of _ "s # shas'"]) simp
  next
    case False
    have s: "validSHA s" "map_of d s \<noteq> None" using Cons.prems by (auto simp: map_of_eq_None_iff)
    show ?thesis
    proof (cases "rm_ok s")
      case True
      have "set shas \<subseteq> fst ` set (AList.delete s d)"
        using Cons.prems(2,3) by (simp only: set_map [symmetric] delete_keys) auto
      then obtain shas' where "prefix shas' shas"
        "fst (sweep_blobs rm_ok keep shas (n + 1) (AList.delete s d)) = fold AList.delete (filter (\<lambda>s. \<not> keep s) shas') (AList.delete s d)"
        "fst (snd (sweep_blobs rm_ok keep shas (n + 1) (AList.delete s d))) = n + 1 + length (filter (\<lambda>s. \<not> keep s) shas')"
        "snd (snd (sweep_blobs rm_ok keep shas (n + 1) (AList.delete s d))) = None \<longrightarrow> shas' = shas"
        using Cons.IH [of "AList.delete s d" "n + 1"] Cons.prems by auto
      then show ?thesis using False True s by (intro exI [of _ "s # shas'"]) (auto simp: BlobDelete_def)
    next
      case rm: False
      then show ?thesis using False s by (intro exI [of _ "[]"]) (auto simp: BlobDelete_def)
    qed
  qed
qed simp

lemma map_of_fold_delete:
  "map_of (fold AList.delete ks d) k = (if k \<in> set ks then None else map_of d k)"
  by (induction ks arbitrary: d) (auto simp: delete_conv')

section \<open>Properties\<close>

text \<open>Content addressing is sound: from a store in which every blob is filed under the hash of its
  contents, a Put with any outcome keeps that invariant and changes no other blob; when it
  answers a name, Get under that name returns data with the hash of what was put (the data
  itself unless another blob with the same hash was there first); when it fails no valid blob
  has changed.\<close>
theorem BlobPut_sound:
  assumes "blob_inv sha256 d" and "\<not> validSHA (pe_tmp env)" and "\<And>b. length (sha256 b) = 32"
  shows "let (d', res) = BlobPut sha256 env data d
         in blob_inv sha256 d' \<and>
            (case res of
               Inr sha \<Rightarrow> sha = hex_encode (sha256 data) \<and>
                  (\<exists>b. BlobGet True sha d' = Inr b \<and> sha256 b = sha256 data \<and>
                       (BlobGet True sha d = Inl BlobNotFound \<longrightarrow> b = data)) \<and>
                  (\<forall>k. k \<noteq> sha \<longrightarrow> BlobGet True k d' = BlobGet True k d)
             | Inl _ \<Rightarrow> \<forall>k. BlobGet True k d' = BlobGet True k d)"
proof -
  let ?sha = "hex_encode (sha256 data)"
  obtain d' res where p: "BlobPut sha256 env data d = (d', res)" by (metis surj_pair)
  have inv: "blob_inv sha256 d'" using BlobPut_inv [OF assms(1,2), of data] p by simp
  have v: "validSHA ?sha" using assms(3) by (rule validSHA_hex)
  have tmp: "BlobGet True k (leave_tmp rm (pe_tmp env) x d) = BlobGet True k d" for k rm x
    using assms(2) by (auto simp: BlobGet_def leave_tmp_def update_conv')
  have "case res of
      Inr sha \<Rightarrow> sha = ?sha \<and> (\<exists>b. BlobGet True sha d' = Inr b \<and> sha256 b = sha256 data \<and>
           (BlobGet True sha d = Inl BlobNotFound \<longrightarrow> b = data)) \<and>
         (\<forall>k. k \<noteq> sha \<longrightarrow> BlobGet True k d' = BlobGet True k d)
    | Inl _ \<Rightarrow> \<forall>k. BlobGet True k d' = BlobGet True k d"
  proof (cases "pe_stat env \<and> map_of d ?sha \<noteq> None")
    case True
    then obtain b where b: "map_of d ?sha = Some b" by blast
    then have "?sha = hex_encode (sha256 b)" using assms(1) v by (simp add: blob_inv_def)
    then have "sha256 b = sha256 data" by (metis hex_encode_inj)
    moreover have "d' = d" "res = Inr ?sha" using p True by (auto simp: BlobPut_def Let_def)
    ultimately show ?thesis using b v by (auto simp: BlobGet_def)
  next
    case False
    then have r: "BlobPut sha256 env data d = (case pe_result env of
                CreateFails \<Rightarrow> (d, Inl BlobIO)
              | WriteFails n rm \<Rightarrow> (leave_tmp rm (pe_tmp env) (take n data) d, Inl BlobIO)
              | CloseFails rm \<Rightarrow> (leave_tmp rm (pe_tmp env) data d, Inl BlobIO)
              | RenameFails rm \<Rightarrow> (leave_tmp rm (pe_tmp env) data d, Inl BlobIO)
              | PutOk \<Rightarrow> (AList.update ?sha data d, Inr ?sha))"
      unfolding BlobPut_def Let_def by (rule if_not_P)
    show ?thesis
    proof (cases "pe_result env = PutOk")
      case True
      then have "d' = AList.update ?sha data d" "res = Inr ?sha" using p r by auto
      then show ?thesis using v by (auto simp: BlobGet_def update_conv')
    next
      case False
      then show ?thesis using p r tmp by (auto split: put_result.splits)
    qed
  qed
  then show ?thesis using inv by (simp add: p)
qed

theorem BlobPut_sound_witness:
  "\<exists>d'. BlobPut (\<lambda>b. replicate 32 (of_nat (length b))) \<lparr>pe_stat = True, pe_tmp = ''.tmp-1'', pe_result = PutOk\<rparr> [7, 8] [] =
     (d', Inr (hex_encode (replicate 32 2))) \<and> BlobGet True (hex_encode (replicate 32 2)) d' = Inr [7, 8]"
proof -
  let ?h = "\<lambda>b :: byte list. replicate 32 (of_nat (length b)) :: byte list"
  let ?env = "\<lparr>pe_stat = True, pe_tmp = ''.tmp-1'', pe_result = PutOk\<rparr>"
  have i: "blob_inv ?h []" and t: "\<not> validSHA (pe_tmp ?env)" by (simp_all add: blob_inv_def validSHA_def)
  obtain d' res where p: "BlobPut ?h ?env [7, 8] [] = (d', res)" by (metis surj_pair)
  have r: "res = Inr (hex_encode (replicate 32 2))" using p by (auto simp: BlobPut_def Let_def)
  have n: "BlobGet True (hex_encode (replicate 32 2)) [] = Inl BlobNotFound" by (simp add: BlobGet_def)
  have l: "\<And>b. length (?h b) = 32" by simp
  show ?thesis using BlobPut_sound [OF i t l, of "[7, 8]"] p r n by auto
qed

lemma BlobSweep_facts:
  assumes "blob_inv sha256 d" and "BlobSweep True rm_ok keep d = (d', n, err)"
  shows "(\<forall>k. keep k \<longrightarrow> BlobGet True k d' = BlobGet True k d) \<and>
         (\<forall>k. BlobGet True k d' = BlobGet True k d \<or> BlobGet True k d' = Inl BlobNotFound) \<and>
         (err = None \<longrightarrow>
            (\<forall>k. validSHA k \<longrightarrow> (BlobGet True k d' \<noteq> Inl BlobNotFound \<longleftrightarrow> keep k \<and> BlobGet True k d \<noteq> Inl BlobNotFound)) \<and>
            n = length (filter (\<lambda>k. validSHA k \<and> \<not> keep k) (map fst d)))"
proof -
  let ?shas = "filter validSHA (sort (map fst d))"
  have dist: "distinct (map fst d)" using assms(1) by (simp add: blob_inv_def)
  then have "\<forall>s \<in> set ?shas. validSHA s" "distinct ?shas" "set ?shas \<subseteq> fst ` set d" by auto
  from sweep_blobs_eq [OF this, of rm_ok keep 0] obtain shas' where s: "prefix shas' ?shas"
    "d' = fold AList.delete (filter (\<lambda>s. \<not> keep s) shas') d" "n = length (filter (\<lambda>s. \<not> keep s) shas')"
    "err = None \<longrightarrow> shas' = ?shas"
    using assms(2) by (auto simp: BlobSweep_def BlobList_def)
  have m: "map_of d' k = (if k \<in> set shas' \<and> \<not> keep k then None else map_of d k)" for k
    by (auto simp: s(2) map_of_fold_delete)
  have cnt: "length (filter (\<lambda>s. \<not> keep s) ?shas) = length (filter (\<lambda>k. validSHA k \<and> \<not> keep k) (map fst d))"
  proof -
    have "filter (\<lambda>s. \<not> keep s) ?shas = filter (\<lambda>k. validSHA k \<and> \<not> keep k) (sort (map fst d))"
      by simp
    moreover have "mset (filter (\<lambda>k. validSHA k \<and> \<not> keep k) (sort (map fst d))) =
        mset (filter (\<lambda>k. validSHA k \<and> \<not> keep k) (map fst d))"
      by (simp only: mset_filter mset_sort)
    ultimately show ?thesis by (simp only:) (rule mset_eq_length)
  qed
  have "\<forall>k. validSHA k \<longrightarrow> (BlobGet True k d' \<noteq> Inl BlobNotFound \<longleftrightarrow> keep k \<and> BlobGet True k d \<noteq> Inl BlobNotFound)"
    if "err = None"
  proof (intro allI impI)
    fix k assume v: "validSHA k"
    have "k \<in> set shas' \<longleftrightarrow> map_of d k \<noteq> None"
      using s(4) that v by (auto simp: map_of_eq_None_iff)
    then show "BlobGet True k d' \<noteq> Inl BlobNotFound \<longleftrightarrow> keep k \<and> BlobGet True k d \<noteq> Inl BlobNotFound"
      using v m [of k] by (auto simp: BlobGet_def split: option.splits if_splits)
  qed
  then show ?thesis using m s(3,4) cnt by (auto simp: BlobGet_def)
qed

text \<open>The sweep deletes garbage and nothing else: whatever deletions fail, every blob in the
  keep-set still reads the same, and no other blob changes except by being deleted; when
  the sweep reports no error, exactly the kept blobs remain listed, and the count is the
  number of deleted ones.\<close>
theorem BlobSweep_exact:
  assumes "blob_inv sha256 d" and "BlobSweep True rm_ok keep d = (d', n, err)"
  shows "(\<forall>k. keep k \<longrightarrow> BlobGet True k d' = BlobGet True k d) \<and>
         (\<forall>k. BlobGet True k d' = BlobGet True k d \<or> BlobGet True k d' = Inl BlobNotFound) \<and>
         (err = None \<longrightarrow>
            (\<forall>k. validSHA k \<longrightarrow> (BlobGet True k d' \<noteq> Inl BlobNotFound \<longleftrightarrow> keep k \<and> BlobGet True k d \<noteq> Inl BlobNotFound)) \<and>
            n = length (filter (\<lambda>k. validSHA k \<and> \<not> keep k) (map fst d)))"
  by (rule BlobSweep_facts [OF assms])

theorem BlobSweep_exact_witness:
  "BlobGet True (hex_encode (replicate 32 1))
     (fst (BlobSweep True (\<lambda>_. True) (\<lambda>k. k = hex_encode (replicate 32 1)) [(hex_encode (replicate 32 1), [5])])) = Inr [5]"
proof -
  let ?k = "hex_encode (replicate 32 1)"
  have i: "blob_inv (\<lambda>_. replicate 32 1) [(?k, [5])]" by (simp add: blob_inv_def)
  obtain d' n err where w: "BlobSweep True (\<lambda>_. True) (\<lambda>k. k = ?k) [(?k, [5])] = (d', n, err)" by (metis prod_cases3)
  have "validSHA ?k" by (rule validSHA_hex) simp
  then have "BlobGet True ?k [(?k, [5])] = Inr [5]" by (simp add: BlobGet_def)
  then show ?thesis using BlobSweep_exact [OF i w] w by simp
qed

end
