(* ===== verification/Predictor.thy ===== *)
theory Predictor
  imports Prelude
begin

text \<open>
  The online access predictor of \<^verbatim>\<open>internal/refine/predict.go\<close> and the predictability measure of
  \<^verbatim>\<open>internal/refine/streamlift.go\<close>. Go maps are association lists with distinct keys; where the
  source ranges over one, the loop runs over the list and a lemma shows that the order does not
  matter. Floating-point numbers are any type with division and subtraction, the conversion from
  int being a parameter.
\<close>

section \<open>Counters\<close>

type_synonym counters = "(int \<times> nat) list"

definition count_of :: "counters \<Rightarrow> int \<Rightarrow> nat" where
  "count_of row i = (case map_of row i of None \<Rightarrow> 0 | Some n \<Rightarrow> n)"

definition bump :: "int \<Rightarrow> counters \<Rightarrow> counters" where
  "bump i row = AList.update i (count_of row i + 1) row"

lemma count_of_bump [simp]: "count_of (bump i row) j = (if j = i then count_of row i + 1 else count_of row j)"
  by (simp add: bump_def count_of_def update_conv')

lemma distinct_bump [simp]: "distinct (map fst row) \<Longrightarrow> distinct (map fst (bump i row))"
  by (simp add: bump_def distinct_update)

lemma keys_bump [simp]: "fst ` set (bump i row) = insert i (fst ` set row)"
  using dom_update [of i _ row] by (simp add: bump_def)

section \<open>The Markov predictor\<close>

type_synonym markov = "(int \<times> counters) list"

definition NewMarkov :: markov where
  "NewMarkov = []"

definition row_of :: "markov \<Rightarrow> int \<Rightarrow> counters" where
  "row_of m i = (case map_of m i of None \<Rightarrow> [] | Some r \<Rightarrow> r)"

definition Observe :: "int \<Rightarrow> int \<Rightarrow> markov \<Rightarrow> markov" where
  "Observe i j m = AList.update i (bump j (row_of m i)) m"

text \<open>Higher counts first, then the lower id; ids of a row are distinct, so the sort is determined.\<close>

definition Predict :: "int \<Rightarrow> nat \<Rightarrow> markov \<Rightarrow> int list" where
  "Predict i k m =
     (let row = row_of m i
      in if row = [] then []
         else take (min k (length row)) (sort_key (\<lambda>id. (- int (count_of row id), id)) (map fst row)))"

lemma row_of_Observe: "row_of (Observe i j m) i' = (if i' = i then bump j (row_of m i) else row_of m i')"
  by (simp add: row_of_def Observe_def update_conv')

definition markov_ok :: "markov \<Rightarrow> bool" where
  "markov_ok m \<longleftrightarrow> (\<forall>i. distinct (map fst (row_of m i)))"

lemma markov_ok_New [simp]: "markov_ok NewMarkov"
  by (simp add: markov_ok_def NewMarkov_def row_of_def)

lemma markov_ok_Observe [simp]: "markov_ok m \<Longrightarrow> markov_ok (Observe i j m)"
  by (simp add: markov_ok_def row_of_Observe)

text \<open>Training on a stream: one observation per step.\<close>

fun train :: "int list \<Rightarrow> markov \<Rightarrow> markov" where
  "train (a # b # xs) m = train (b # xs) (Observe a b m)"
| "train _ m = m"

fun transitions :: "int \<Rightarrow> int \<Rightarrow> int list \<Rightarrow> nat" where
  "transitions i j (a # b # xs) = (if a = i \<and> b = j then 1 else 0) + transitions i j (b # xs)"
| "transitions i j _ = 0"

lemma train_counts:
  "markov_ok m \<Longrightarrow> markov_ok (train xs m) \<and>
     count_of (row_of (train xs m) i) j = count_of (row_of m i) j + transitions i j xs"
  by (induction xs m rule: train.induct) (auto simp: row_of_Observe)

lemma train_keys:
  "fst ` set (row_of (train xs m) i) = fst ` set (row_of m i) \<union> {j. transitions i j xs > 0}"
  by (induction xs m rule: train.induct) (auto simp: row_of_Observe)

section \<open>The most frequent id\<close>

text \<open>The marginal baseline's loop, starting from id -1 with count -1.\<close>

fun best_loop :: "counters \<Rightarrow> int \<times> int \<Rightarrow> int \<times> int" where
  "best_loop [] b = b"
| "best_loop ((i, n) # row) (bi, bn) =
     best_loop row (if int n > bn then (i, int n) else if int n = bn \<and> i < bi then (i, bn) else (bi, bn))"

definition best_marginal :: "counters \<Rightarrow> int" where
  "best_marginal row = fst (best_loop row (-1, -1))"

definition best_ok :: "counters \<Rightarrow> int \<times> int \<Rightarrow> int \<times> int \<Rightarrow> bool" where
  "best_ok row b r \<longleftrightarrow>
     (r = b \<or> (\<exists>k. (fst r, k) \<in> set row \<and> snd r = int k)) \<and>
     (snd b < snd r \<or> snd b = snd r \<and> fst r \<le> fst b) \<and>
     (\<forall>j k. (j, k) \<in> set row \<longrightarrow> int k < snd r \<or> int k = snd r \<and> fst r \<le> j)"

lemma best_ok_Cons:
  assumes "best_ok row (if int n > bn then (i, int n) else if int n = bn \<and> i < bi then (i, bn) else (bi, bn)) r"
  shows "best_ok ((i, n) # row) (bi, bn) r"
proof -
  obtain r1 r2 where r: "r = (r1, r2)" by (cases r)
  consider "int n > bn" | "int n = bn" "i < bi" | "\<not> int n > bn" "\<not> (int n = bn \<and> i < bi)" by blast
  then show ?thesis
  proof cases
    case 1
    with assms show ?thesis by (auto simp: best_ok_def r)
  next
    case 2
    with assms show ?thesis by (auto simp: best_ok_def r)
  next
    case 3
    with assms show ?thesis by (auto simp: best_ok_def r)
  qed
qed

lemma best_loop_spec: "best_ok row b (best_loop row b)"
proof (induction row b rule: best_loop.induct)
  case (2 i n row bi bn)
  then show ?case unfolding best_loop.simps(2) by (rule best_ok_Cons)
qed (simp add: best_ok_def)

lemma best_marginal_spec:
  assumes "row \<noteq> []"
  shows "(\<exists>k. (best_marginal row, k) \<in> set row \<and>
            (\<forall>(j, n) \<in> set row. n < k \<or> n = k \<and> best_marginal row \<le> j))"
proof -
  obtain i n where r: "best_loop row (-1, -1) = (i, n)" by (cases "best_loop row (-1, -1)")
  have s: "((i, n) = (-1, -1) \<or> (\<exists>k. (i, k) \<in> set row \<and> n = int k)) \<and>
      (\<forall>(j, k) \<in> set row. int k < n \<or> int k = n \<and> i \<le> j)"
    using best_loop_spec [of row "(-1, -1)"] by (simp add: best_ok_def r split_beta)
  obtain j k where "(j, k) \<in> set row" using assms by (cases row) auto
  then have "n \<noteq> -1" using s by auto
  then obtain k where "(i, k) \<in> set row" "n = int k" using s by auto
  then show ?thesis using s r by (auto simp: best_marginal_def intro!: exI [of _ k])
qed

lemma best_marginal_order:
  assumes "mset row = mset row'"
  shows "best_marginal row = best_marginal row'"
proof (cases "row = []")
  case False
  then have ne: "row' \<noteq> []" using assms by auto
  have st: "set row = set row'" using assms by (rule mset_eq_setD)
  obtain k where k: "(best_marginal row, k) \<in> set row"
    "\<forall>(j, n) \<in> set row. n < k \<or> n = k \<and> best_marginal row \<le> j" using best_marginal_spec [OF False] by blast
  obtain k' where k': "(best_marginal row', k') \<in> set row'"
    "\<forall>(j, n) \<in> set row'. n < k' \<or> n = k' \<and> best_marginal row' \<le> j" using best_marginal_spec [OF ne] by blast
  have "k < k' \<or> k = k' \<and> best_marginal row' \<le> best_marginal row" using k(1) k'(2) st by blast
  moreover have "k' < k \<or> k' = k \<and> best_marginal row \<le> best_marginal row'" using k'(1) k(2) st by blast
  ultimately show ?thesis by linarith
qed (use assms in simp)

section \<open>The lift of a stream\<close>

record lift_state =
  ls_markov :: markov
  ls_marginal :: counters
  ls_markovHits :: nat
  ls_marginalHits :: nat
  ls_predictable :: nat

definition lift_step :: "int \<Rightarrow> int \<Rightarrow> lift_state \<Rightarrow> lift_state" where
  "lift_step prev_item cur_item st =
     (let pred = Predict prev_item 1 (ls_markov st)
      in \<lparr>ls_markov = Observe prev_item cur_item (ls_markov st),
          ls_marginal = bump cur_item (ls_marginal st),
          ls_markovHits = ls_markovHits st + (if pred \<noteq> [] \<and> hd pred = cur_item then 1 else 0),
          ls_marginalHits = ls_marginalHits st + (if best_marginal (ls_marginal st) = cur_item then 1 else 0),
          ls_predictable = ls_predictable st + (if pred \<noteq> [] then 1 else 0)\<rparr>)"

fun lift_loop :: "int list \<Rightarrow> lift_state \<Rightarrow> lift_state" where
  "lift_loop (prev_item # cur_item # items) st = lift_loop (cur_item # items) (lift_step prev_item cur_item st)"
| "lift_loop _ st = st"

record 'f lift =
  lf_Total :: nat
  lf_Predictable :: nat
  lf_MarkovHit :: 'f
  lf_MarginalHit :: 'f
  lf_Lift :: 'f
  lf_Coverage :: 'f

definition lift_init :: lift_state where
  "lift_init = \<lparr>ls_markov = NewMarkov, ls_marginal = [], ls_markovHits = 0, ls_marginalHits = 0, ls_predictable = 0\<rparr>"

definition StreamLift :: "(nat \<Rightarrow> 'f::{zero,divide,minus}) \<Rightarrow> int list \<Rightarrow> 'f lift" where
  "StreamLift f64 items =
     (if length items < 2
      then \<lparr>lf_Total = length items, lf_Predictable = 0, lf_MarkovHit = 0, lf_MarginalHit = 0, lf_Lift = 0, lf_Coverage = 0\<rparr>
      else let st = lift_loop items lift_init
        in if ls_predictable st = 0
           then \<lparr>lf_Total = length items, lf_Predictable = 0, lf_MarkovHit = 0, lf_MarginalHit = 0, lf_Lift = 0, lf_Coverage = 0\<rparr>
           else let mk = f64 (ls_markovHits st) div f64 (ls_predictable st);
                    mg = f64 (ls_marginalHits st) div f64 (length items - 1);
                    cv = f64 (ls_predictable st) div f64 (length items - 1)
             in \<lparr>lf_Total = length items, lf_Predictable = ls_predictable st, lf_MarkovHit = mk,
                 lf_MarginalHit = mg, lf_Lift = mk - mg, lf_Coverage = cv\<rparr>)"

section \<open>What the measure counts\<close>

text \<open>A step is predictable when its state was left before; the specification counts positions.\<close>

definition seen_before :: "int list \<Rightarrow> nat \<Rightarrow> bool" where
  "seen_before xs t \<longleftrightarrow> xs ! t \<in> set (take t xs)"

definition predictable_positions :: "int list \<Rightarrow> nat list" where
  "predictable_positions xs = filter (seen_before xs) [0..<length xs - 1]"

lemma Predict_Nil_iff: "Predict i (Suc k) m = [] \<longleftrightarrow> row_of m i = []"
  by (simp add: Predict_def Let_def) (metis length_0_conv length_map length_sort)

lemma sorted_take_split:
  assumes "sorted (map key zs)" and "distinct zs"
    and ids: "ids = take n zs"
  shows "distinct ids \<and> sorted (map key ids) \<and> set ids \<subseteq> set zs \<and>
     (\<forall>x \<in> set ids. \<forall>y \<in> set zs - set ids. key x \<le> (key y :: 'k::linorder) \<and> x \<noteq> y)"
proof -
  define rest where "rest = drop n zs"
  have zs: "zs = ids @ rest" by (simp add: ids rest_def)
  show ?thesis using assms(1,2) unfolding zs by (auto simp: sorted_append)
qed

lemma Predict_best:
  assumes "markov_ok m" and "Predict i k m = ids"
  shows "distinct ids \<and> set ids \<subseteq> fst ` set (row_of m i) \<and> length ids = min k (length (row_of m i)) \<and>
     sorted (map (\<lambda>id. (- int (count_of (row_of m i) id), id)) ids) \<and>
     (\<forall>x \<in> set ids. \<forall>y \<in> fst ` set (row_of m i) - set ids.
        count_of (row_of m i) y < count_of (row_of m i) x \<or> count_of (row_of m i) y = count_of (row_of m i) x \<and> x < y)"
proof (cases "row_of m i = []")
  case True
  then show ?thesis using assms(2) by (auto simp: Predict_def)
next
  case False
  define key where "key = (\<lambda>id. (- int (count_of (row_of m i) id), id))"
  define zs where "zs = sort_key key (map fst (row_of m i))"
  have ids: "ids = take (min k (length (row_of m i))) zs"
    using assms(2) False by (simp add: Predict_def Let_def zs_def key_def)
  have "sorted (map key zs)" "distinct zs" and set: "set zs = fst ` set (row_of m i)"
    and len: "length zs = length (row_of m i)"
    using assms(1) by (simp_all add: zs_def markov_ok_def)
  from sorted_take_split [OF this(1,2) ids]
  have spec: "distinct ids \<and> sorted (map key ids) \<and> set ids \<subseteq> set zs \<and>
     (\<forall>x \<in> set ids. \<forall>y \<in> set zs - set ids. key x \<le> key y \<and> x \<noteq> y)" .
  have key: "key x \<le> key y \<and> x \<noteq> y \<Longrightarrow> count_of (row_of m i) y < count_of (row_of m i) x \<or>
      count_of (row_of m i) y = count_of (row_of m i) x \<and> x < y" for x y
    by (auto simp: key_def less_eq_prod_def)
  show ?thesis using spec key len unfolding set by (auto simp: ids key_def)
qed

lemma row_nonempty: "row_of (train xs NewMarkov) i \<noteq> [] \<longleftrightarrow> (\<exists>j. transitions i j xs > 0)"
proof -
  have "fst ` set (row_of (train xs NewMarkov) i) = {j. transitions i j xs > 0}"
    using train_keys [of xs NewMarkov i] by (simp add: NewMarkov_def row_of_def)
  then show ?thesis by (metis (mono_tags, lifting) Collect_empty_eq image_is_empty set_empty)
qed

lemma lift_loop_bounds:
  assumes "ls_markovHits st \<le> ls_predictable st" and "ls_predictable st \<le> n" and "ls_marginalHits st \<le> n"
  shows "let st' = lift_loop xs st; n' = n + (length xs - 1)
         in ls_markovHits st' \<le> ls_predictable st' \<and> ls_predictable st' \<le> n' \<and> ls_marginalHits st' \<le> n'"
  using assms
proof (induction xs st arbitrary: n rule: lift_loop.induct)
  case (1 a b xs st)
  have "let st' = lift_loop (b # xs) (lift_step a b st); n' = (n + 1) + (length (b # xs) - 1)
        in ls_markovHits st' \<le> ls_predictable st' \<and> ls_predictable st' \<le> n' \<and> ls_marginalHits st' \<le> n'"
    by (rule 1(1)) (use 1(2-4) in \<open>auto simp: lift_step_def Let_def\<close>)
  then show ?case by (simp add: Let_def)
qed (auto simp: Let_def)

lemma lift_loop_markov: "ls_markov (lift_loop xs st) = train xs (ls_markov st)"
  by (induction xs st rule: lift_loop.induct) (auto simp: lift_step_def Let_def)

lemma transitions_iff: "(\<exists>j. transitions i j xs > 0) \<longleftrightarrow> i \<in> set (butlast xs)"
proof (induction xs rule: induct_list012)
  case (3 a b xs)
  have "(\<exists>j. transitions i j (a # b # xs) > 0) \<longleftrightarrow> a = i \<or> (\<exists>j. transitions i j (b # xs) > 0)" by auto
  then show ?case using 3 by auto
qed auto

lemma lift_loop_snoc: "lift_loop (xs @ [a, b]) st = lift_step a b (lift_loop (xs @ [a]) st)"
proof (induction xs arbitrary: st)
  case (Cons x xs)
  then show ?case by (cases xs) simp_all
qed simp

lemma lift_loop_predictable:
  "ls_predictable (lift_loop xs lift_init) = length (predictable_positions xs)"
proof (induction xs rule: rev_induct)
  case Nil
  then show ?case by (simp add: lift_init_def predictable_positions_def)
next
  case (snoc b ys)
  show ?case
  proof (cases ys rule: rev_cases)
    case Nil
    then show ?thesis by (simp add: lift_init_def predictable_positions_def)
  next
    case (snoc zs a)
    let ?st = "lift_loop (zs @ [a]) lift_init"
    have row: "row_of (ls_markov ?st) a \<noteq> [] \<longleftrightarrow> a \<in> set zs"
      using row_nonempty [of "zs @ [a]" a] transitions_iff [of a "zs @ [a]"]
      by (simp add: lift_loop_markov lift_init_def)
    have "filter (seen_before (zs @ [a, b])) [0..<length zs] = filter (seen_before (zs @ [a])) [0..<length zs]"
      by (rule filter_cong) (auto simp: seen_before_def nth_append)
    then have "length (predictable_positions (zs @ [a, b])) =
        length (predictable_positions (zs @ [a])) + (if a \<in> set zs then 1 else 0)"
      by (simp add: predictable_positions_def seen_before_def nth_append)
    then show ?thesis
      using \<open>ls_predictable (lift_loop ys lift_init) = length (predictable_positions ys)\<close> row snoc Predict_Nil_iff [of a 0 "ls_markov ?st"]
      by (simp add: lift_loop_snoc lift_step_def Let_def)
  qed
qed

section \<open>Properties\<close>

text \<open>The predictor is exact: after training on any stream, Predict answers the up-to-k most
  frequent successors of the state, by the true number of transitions in the stream, higher
  counts first and ties to the lower id; ids left out are never more frequent, and an unseen
  state yields nothing.\<close>
theorem Predict_exact:
  "let m = train xs NewMarkov; ids = Predict i k m
   in distinct ids \<and> length ids = min k (card {j. transitions i j xs > 0}) \<and>
      (\<forall>x \<in> set ids. transitions i x xs > 0) \<and>
      sorted (map (\<lambda>x. (- int (transitions i x xs), x)) ids) \<and>
      (\<forall>x \<in> set ids. \<forall>y. y \<notin> set ids \<and> transitions i y xs > 0 \<longrightarrow>
         transitions i y xs < transitions i x xs \<or> transitions i y xs = transitions i x xs \<and> x < y)"
proof -
  define m where "m = train xs NewMarkov"
  have ok: "markov_ok m" and cnt: "count_of (row_of m i) j = transitions i j xs" for j
    using train_counts [OF markov_ok_New, of xs i j]
    by (simp_all add: m_def, simp add: NewMarkov_def row_of_def count_of_def)
  have keys: "fst ` set (row_of m i) = {j. transitions i j xs > 0}"
    using train_keys [of xs NewMarkov i] by (simp add: m_def NewMarkov_def row_of_def)
  have "length (row_of m i) = card (set (map fst (row_of m i)))"
    using ok by (metis distinct_card length_map markov_ok_def)
  then have len: "length (row_of m i) = card {j. transitions i j xs > 0}" by (simp add: keys)
  show ?thesis
    using Predict_best [OF ok refl, of i k] unfolding cnt keys len m_def [symmetric] Let_def by auto
qed

theorem Predict_exact_witness:
  "let xs = [1, 2, 1, 3, 1, 2, 1, 4]; ids = Predict 1 2 (train xs NewMarkov)
   in ids = [2, 3] \<and> transitions 1 4 xs = transitions 1 3 xs \<and>
      (transitions 1 4 xs < transitions 1 3 xs \<or> transitions 1 4 xs = transitions 1 3 xs \<and> 3 < (4::int))"
proof -
  have p: "Predict 1 2 (train [1, 2, 1, 3, 1, 2, 1, 4] NewMarkov) = [2, 3]" by code_simp
  have t: "transitions 1 4 [1, 2, 1, 3, 1, 2, 1, 4] = 1" "transitions 1 3 [1, 2, 1, 3, 1, 2, 1, 4] = 1" by simp_all
  show ?thesis using Predict_exact [where i = 1 and k = 2 and xs = "[1, 2, 1, 3, 1, 2, 1, 4]"]
    unfolding Let_def p by (simp add: t)
qed

text \<open>The measure's accounting is sound: the online loop trains exactly the predictor of the whole
  stream; a step counts as predictable exactly when its state occurred before it in the stream;
  it scores at most one hit per predictable step and one marginal hit per step; and the baseline's
  most frequent id does not depend on the order in which the map of counts is visited.\<close>
theorem StreamLift_counts:
  "let st = lift_loop items lift_init
   in ls_markov st = train items NewMarkov \<and>
      ls_predictable st = length (predictable_positions items) \<and>
      ls_markovHits st \<le> ls_predictable st \<and> ls_predictable st \<le> length items - 1 \<and>
      ls_marginalHits st \<le> length items - 1 \<and>
      lf_Predictable (StreamLift f64 items) = (if length items < 2 then 0 else ls_predictable st) \<and>
      (\<forall>row. mset row = mset (ls_marginal st) \<longrightarrow> best_marginal row = best_marginal (ls_marginal st))"
proof -
  have "ls_markovHits lift_init \<le> ls_predictable lift_init" "ls_predictable lift_init \<le> 0" "ls_marginalHits lift_init \<le> 0"
    by (simp_all add: lift_init_def)
  from lift_loop_bounds [OF this, of items]
  have b: "ls_markovHits (lift_loop items lift_init) \<le> ls_predictable (lift_loop items lift_init)"
    "ls_predictable (lift_loop items lift_init) \<le> length items - 1"
    "ls_marginalHits (lift_loop items lift_init) \<le> length items - 1" by (simp_all add: Let_def)
  have m: "ls_markov (lift_loop items lift_init) = train items NewMarkov"
    by (simp add: lift_loop_markov lift_init_def)
  have p: "lf_Predictable (StreamLift f64 items) =
      (if length items < 2 then 0 else ls_predictable (lift_loop items lift_init))"
    by (simp add: StreamLift_def Let_def)
  show ?thesis unfolding Let_def using b m p lift_loop_predictable [of items] best_marginal_order by blast
qed

theorem StreamLift_counts_witness:
  "best_marginal [(4, 2), (3, 2)] = best_marginal (ls_marginal (lift_loop [1, 3, 4, 3, 4] lift_init))"
proof -
  have "mset [(4, 2), (3, 2)] = mset (ls_marginal (lift_loop [1, 3, 4, 3, 4] lift_init))"
    by (simp add: lift_init_def lift_step_def Let_def bump_def count_of_def add_mset_commute numeral_2_eq_2)
  then show ?thesis using StreamLift_counts [of "[1, 3, 4, 3, 4]"] unfolding Let_def by blast
qed

end
