(* ===== verification/Caches.thy ===== *)
theory Caches
  imports Predictor
begin

text \<open>
  The cache policies of \<^verbatim>\<open>internal/cache/cache.go\<close> (LRU, LFU and the Markov prefetcher) and the
  exact tier of \<^verbatim>\<open>internal/cache/tier.go\<close> that mirrors a policy's membership with vectors. The
  \<^verbatim>\<open>Cache\<close>/\<^verbatim>\<open>Lister\<close> interface is the locale \<open>cache_policy\<close>, interpreted for the three policies.
  Capacities are naturals: with a negative capacity the eviction loop of the LRU indexes an empty
  slice and panics.
\<close>

section \<open>LRU\<close>

record lru =
  lru_cap :: nat
  lru_order :: "int list"
  lru_set :: "int set"

definition NewLRU :: "nat \<Rightarrow> lru" where
  "NewLRU capacity = \<lparr>lru_cap = capacity, lru_order = [], lru_set = {}\<rparr>"

definition lru_touch :: "int \<Rightarrow> lru \<Rightarrow> lru" where
  "lru_touch item c = c\<lparr>lru_order := item # remove_first (\<lambda>x. x = item) (lru_order c)\<rparr>"

function lru_evict :: "lru \<Rightarrow> lru" where
  "lru_evict c =
     (if length (lru_order c) > lru_cap c
      then lru_evict (c\<lparr>lru_order := butlast (lru_order c), lru_set := lru_set c - {last (lru_order c)}\<rparr>)
      else c)"
  by pat_completeness auto
termination by (relation "measure (\<lambda>c. length (lru_order c))") auto

declare lru_evict.simps [simp del]

definition lru_admit :: "int \<Rightarrow> lru \<Rightarrow> lru" where
  "lru_admit item c =
     (if item \<in> lru_set c then lru_touch item c
      else lru_evict (c\<lparr>lru_set := insert item (lru_set c), lru_order := item # lru_order c\<rparr>))"

definition lru_Access :: "int \<Rightarrow> lru \<Rightarrow> bool \<times> lru" where
  "lru_Access item c =
     (if item \<in> lru_set c then (True, lru_touch item c) else (False, lru_admit item c))"

definition lru_Items :: "lru \<Rightarrow> int list" where
  "lru_Items c = sort (lru_order c)"

text \<open>The eviction loop keeps a prefix of the order and forgets the rest.\<close>

lemma lru_evict_eq:
  "lru_evict c = c\<lparr>lru_order := take (lru_cap c) (lru_order c),
                   lru_set := lru_set c - set (drop (lru_cap c) (lru_order c))\<rparr>"
proof (induction c rule: lru_evict.induct)
  case (1 c)
  show ?case
  proof (cases "length (lru_order c) > lru_cap c")
    case True
    obtain xs x where xs: "lru_order c = xs @ [x]"
      using True by (cases "lru_order c" rule: rev_cases) auto
    have "lru_cap c \<le> length xs" using True xs by simp
    then show ?thesis using 1 [OF True] True
      by (subst lru_evict.simps) (simp add: xs Diff_insert2 [symmetric])
  qed (subst lru_evict.simps, simp)
qed

definition lru_ok :: "lru \<Rightarrow> bool" where
  "lru_ok c \<longleftrightarrow> distinct (lru_order c) \<and> set (lru_order c) = lru_set c \<and> length (lru_order c) \<le> lru_cap c"

lemma lru_ok_New [simp]: "lru_ok (NewLRU n)"
  by (simp add: lru_ok_def NewLRU_def)

lemma touch_order: "lru_ok c \<Longrightarrow> lru_order (lru_touch i c) = i # filter (\<lambda>x. x \<noteq> i) (lru_order c)"
  by (simp add: lru_touch_def remove_first_eq lru_ok_def)

lemma touch_other [simp]: "lru_set (lru_touch i c) = lru_set c" "lru_cap (lru_touch i c) = lru_cap c"
  by (simp_all add: lru_touch_def)

lemma lru_ok_touch: "lru_ok c \<Longrightarrow> i \<in> lru_set c \<Longrightarrow> lru_ok (lru_touch i c)"
proof -
  assume ok: "lru_ok c" and i: "i \<in> lru_set c"
  have "length (filter (\<lambda>x. x \<noteq> i) (lru_order c)) < length (lru_order c)"
    by (rule length_filter_less [of i]) (use ok i in \<open>auto simp: lru_ok_def\<close>)
  then show ?thesis using ok i by (auto simp: lru_ok_def touch_order)
qed

lemma lru_ok_admit: "lru_ok c \<Longrightarrow> lru_ok (lru_admit i c)"
proof (cases "i \<in> lru_set c")
  case False
  assume ok: "lru_ok c"
  let ?o = "i # lru_order c"
  have d: "distinct ?o" and s: "set ?o = insert i (lru_set c)" using ok False by (auto simp: lru_ok_def)
  have "distinct (take n ?o @ drop n ?o)" and "set ?o = set (take n ?o) \<union> set (drop n ?o)" for n
    using d by (simp, metis append_take_drop_id set_append)
  then have "insert i (lru_set c) - set (drop n ?o) = set (take n ?o)" for n
    using s unfolding distinct_append by blast
  then show ?thesis using False d by (simp add: lru_admit_def lru_evict_eq lru_ok_def)
qed (simp add: lru_admit_def lru_ok_touch)

lemma lru_cap_admit [simp]: "lru_cap (lru_admit i c) = lru_cap c"
  by (simp add: lru_admit_def lru_evict_eq)

lemma lru_ok_Access: "lru_ok c \<Longrightarrow> lru_ok (snd (lru_Access i c))"
  by (simp add: lru_Access_def lru_ok_touch lru_ok_admit)

lemma lru_Items_set: "lru_ok c \<Longrightarrow> set (lru_Items c) = lru_set c"
  by (simp add: lru_Items_def lru_ok_def)

text \<open>One access in terms of the recency order.\<close>

lemma take_filter_front:
  assumes "i \<notin> set (take n xs)"
  shows "take n (filter (\<lambda>x. x \<noteq> i) xs) = take n xs"
  using assms by (induction xs arbitrary: n) (auto simp: take_Cons' split: if_splits)

lemma lru_Access_recency:
  assumes ok: "lru_ok c" and d: "distinct r" and o: "lru_order c = take (lru_cap c) r"
  shows "lru_order (snd (lru_Access i c)) = take (lru_cap c) (i # filter (\<lambda>x. x \<noteq> i) r)"
proof (cases "i \<in> lru_set c")
  case True
  then have "i \<in> set (take (lru_cap c) r)" using ok o by (simp add: lru_ok_def)
  then obtain as bs where tk: "take (lru_cap c) r = as @ i # bs" by (metis split_list)
  define cs where "cs = drop (lru_cap c) r"
  have r: "r = as @ i # bs @ cs" using tk append_take_drop_id [of "lru_cap c" r] by (simp add: cs_def)
  have ni: "i \<notin> set as" "i \<notin> set bs" "i \<notin> set cs" using d r by auto
  have fil: "filter (\<lambda>x. x \<noteq> i) xs = xs" if "i \<notin> set xs" for xs
    using that by (induction xs) auto
  have len: "cs = [] \<or> lru_cap c = Suc (length as + length bs)"
    using tk r by (metis add_Suc_right cs_def drop_eq_Nil length_Cons length_append length_take min.absorb2 nat_le_linear)
  have "length (as @ bs) < lru_cap c" using tk by (metis add_Suc_right length_Cons length_append length_take less_eq_Suc_le min.cobounded2)
  then have "take (lru_cap c) (i # as @ bs @ cs) = i # as @ bs"
    using len by (cases "lru_cap c") auto
  then show ?thesis using True ok o
    by (simp add: lru_Access_def touch_order tk) (simp add: r fil ni)
next
  case False
  then have ni: "i \<notin> set (take (lru_cap c) r)" using ok o by (simp add: lru_ok_def)
  show ?thesis
  proof (cases "lru_cap c")
    case (Suc n)
    have "set (take n r) \<subseteq> set (take (lru_cap c) r)" using Suc by (intro set_take_subset_set_take) simp
    then have "i \<notin> set (take n r)" using ni by blast
    then show ?thesis using False o Suc
      by (simp add: lru_Access_def lru_admit_def lru_evict_eq take_filter_front)
  qed (use False in \<open>simp add: lru_Access_def lru_admit_def lru_evict_eq\<close>)
qed

section \<open>LFU\<close>

definition maxInt :: int where
  "maxInt = 2 ^ 63 - 1"

record lfu =
  lfu_cap :: nat
  lfu_freq :: "(int \<times> nat) list"

definition NewLFU :: "nat \<Rightarrow> lfu" where
  "NewLFU capacity = \<lparr>lfu_cap = capacity, lfu_freq = []\<rparr>"

fun lfu_min :: "(int \<times> nat) list \<Rightarrow> int \<times> int \<Rightarrow> int \<times> int" where
  "lfu_min [] b = b"
| "lfu_min ((it, f) # row) (minItem, minF) =
     lfu_min row (if int f < minF \<or> int f = minF \<and> it < minItem then (it, int f) else (minItem, minF))"

definition lfu_evict :: "lfu \<Rightarrow> lfu" where
  "lfu_evict c = c\<lparr>lfu_freq := AList.delete (fst (lfu_min (lfu_freq c) (maxInt, maxInt))) (lfu_freq c)\<rparr>"

definition lfu_Access :: "int \<Rightarrow> lfu \<Rightarrow> bool \<times> lfu" where
  "lfu_Access item c =
     (case map_of (lfu_freq c) item of
        Some f \<Rightarrow> (True, c\<lparr>lfu_freq := AList.update item (f + 1) (lfu_freq c)\<rparr>)
      | None \<Rightarrow>
          (let c' = (if length (lfu_freq c) \<ge> lfu_cap c then lfu_evict c else c)
           in (False, c'\<lparr>lfu_freq := AList.update item 1 (lfu_freq c')\<rparr>)))"

definition lfu_Items :: "lfu \<Rightarrow> int list" where
  "lfu_Items c = sort (map fst (lfu_freq c))"

text \<open>
  Frequencies are Go ints: \<open>lfu_ok b\<close> says that \<open>b\<close> more accesses keep them below the largest
  int, which is also the value the search for the least frequent item starts from.
\<close>

definition lfu_ok :: "nat \<Rightarrow> lfu \<Rightarrow> bool" where
  "lfu_ok b c \<longleftrightarrow> distinct (map fst (lfu_freq c)) \<and> length (lfu_freq c) \<le> max 1 (lfu_cap c) \<and>
     (\<forall>(i, f) \<in> set (lfu_freq c). int f + int b < maxInt) \<and> int b < maxInt"

definition least_of :: "(int \<times> nat) list \<Rightarrow> int \<times> int \<Rightarrow> int \<times> int \<Rightarrow> bool" where
  "least_of row b r \<longleftrightarrow>
     (r = b \<or> (\<exists>f. (fst r, f) \<in> set row \<and> snd r = int f)) \<and>
     (snd r < snd b \<or> snd r = snd b \<and> fst r \<le> fst b) \<and>
     (\<forall>j f. (j, f) \<in> set row \<longrightarrow> snd r < int f \<or> snd r = int f \<and> fst r \<le> j)"

lemma least_of_Cons:
  assumes "least_of row (if int f < bn \<or> int f = bn \<and> i < bi then (i, int f) else (bi, bn)) r"
  shows "least_of ((i, f) # row) (bi, bn) r"
proof -
  obtain r1 r2 where r: "r = (r1, r2)" by (cases r)
  show ?thesis
  proof (cases "int f < bn \<or> int f = bn \<and> i < bi")
    case True
    with assms show ?thesis by (auto simp: least_of_def r)
  next
    case False
    with assms show ?thesis by (auto simp: least_of_def r)
  qed
qed

lemma lfu_min_spec: "least_of row b (lfu_min row b)"
proof (induction row b rule: lfu_min.induct)
  case (2 i f row bi bn)
  then show ?case unfolding lfu_min.simps(2) by (rule least_of_Cons)
qed (simp add: least_of_def)

lemma lfu_min_in:
  assumes "row \<noteq> []" and "\<forall>(i, f) \<in> set row. int f < maxInt"
  defines "v \<equiv> lfu_min row (maxInt, maxInt)"
  shows "\<exists>f. (fst v, f) \<in> set row \<and> (\<forall>j g. (j, g) \<in> set row \<longrightarrow> f < g \<or> f = g \<and> fst v \<le> j)"
proof -
  have s: "least_of row (maxInt, maxInt) v" unfolding v_def by (rule lfu_min_spec)
  obtain j g where jg: "(j, g) \<in> set row" using assms(1) by (cases row) auto
  then have "snd v \<le> int g" "int g < maxInt" using s assms(2) by (force simp: least_of_def, blast)
  then have "v \<noteq> (maxInt, maxInt)" by auto
  then obtain f where f: "(fst v, f) \<in> set row" "snd v = int f" using s by (auto simp: least_of_def)
  then show ?thesis using s by (auto simp: least_of_def)
qed

lemma delete_filter: "AList.delete i row = filter (\<lambda>x. fst x \<noteq> i) row"
  by (induction row) auto

lemma length_delete_less:
  assumes "i \<in> fst ` set row"
  shows "length (AList.delete i row) < length row"
proof -
  obtain x where "x \<in> set row" "fst x = i" using assms by auto
  then show ?thesis unfolding delete_filter by (intro length_filter_less [of x]) auto
qed

lemma length_update: "length (AList.update i v row) = (if i \<in> fst ` set row then length row else Suc (length row))"
  by (induction row) auto

lemma set_update_sub: "set (AList.update i v row) \<subseteq> insert (i, v) (set row)"
  by (induction row) auto

lemma lfu_evict_ok:
  assumes ok: "lfu_ok b c" and full: "length (lfu_freq c) \<ge> lfu_cap c"
  shows "length (lfu_freq (lfu_evict c)) < max 1 (lfu_cap c)"
proof (cases "lfu_freq c = []")
  case False
  have "\<forall>(i, f) \<in> set (lfu_freq c). int f < maxInt" using ok by (force simp: lfu_ok_def)
  from lfu_min_in [OF False this] have "fst (lfu_min (lfu_freq c) (maxInt, maxInt)) \<in> fst ` set (lfu_freq c)"
    by force
  from length_delete_less [OF this] show ?thesis using ok by (simp add: lfu_evict_def lfu_ok_def)
qed (simp add: lfu_evict_def)

lemma lfu_ok_put:
  assumes "lfu_ok (Suc b) c" and "length (AList.update i f (lfu_freq c)) \<le> max 1 (lfu_cap c)"
    and "int f + int b < maxInt"
  shows "lfu_ok b (c\<lparr>lfu_freq := AList.update i f (lfu_freq c)\<rparr>)"
proof -
  have "\<forall>(j, g) \<in> insert (i, f) (set (lfu_freq c)). int g + int b < maxInt"
    using assms(1,3) by (fastforce simp: lfu_ok_def)
  then have "\<forall>(j, g) \<in> set (AList.update i f (lfu_freq c)). int g + int b < maxInt"
    using set_update_sub [of i f "lfu_freq c"] by blast
  then show ?thesis using assms by (simp add: lfu_ok_def distinct_update)
qed

lemma lfu_ok_evict: "lfu_ok b c \<Longrightarrow> lfu_ok b (lfu_evict c)"
  unfolding lfu_ok_def lfu_evict_def delete_filter
  by (auto simp: distinct_map_filter intro: le_trans [OF length_filter_le])

lemma lfu_ok_Access:
  assumes ok: "lfu_ok (Suc b) c"
  shows "lfu_ok b (snd (lfu_Access i c))"
proof (cases "map_of (lfu_freq c) i")
  case (Some f)
  then have "(i, f) \<in> set (lfu_freq c)" by (rule map_of_SomeD)
  then have "int (f + 1) + int b < maxInt" and "i \<in> fst ` set (lfu_freq c)" using ok by (force simp: lfu_ok_def)+
  then show ?thesis using Some lfu_ok_put [OF ok, of i "f + 1"] ok
    by (simp add: lfu_Access_def length_update) (simp add: lfu_ok_def)
next
  case None
  define c' where "c' = (if length (lfu_freq c) \<ge> lfu_cap c then lfu_evict c else c)"
  have ok': "lfu_ok (Suc b) c'" using ok by (simp add: c'_def lfu_ok_evict)
  have "length (lfu_freq c') < max 1 (lfu_cap c')"
    using lfu_evict_ok [OF ok] by (auto simp: c'_def lfu_evict_def)
  then have "length (AList.update i 1 (lfu_freq c')) \<le> max 1 (lfu_cap c')" by (simp add: length_update)
  moreover have "int 1 + int b < maxInt" using ok by (simp add: lfu_ok_def)
  ultimately have "lfu_ok b (c'\<lparr>lfu_freq := AList.update i 1 (lfu_freq c')\<rparr>)" using lfu_ok_put [OF ok'] by blast
  then show ?thesis using None by (simp add: lfu_Access_def c'_def Let_def)
qed

section \<open>Markov prefetch\<close>

record markovPrefetch =
  mp_lru :: lru
  mp_mk :: markov
  mp_prev :: int
  mp_started :: bool
  mp_prefetches :: nat
  mp_prefetchLoads :: nat

definition NewMarkovPrefetch :: "nat \<Rightarrow> markovPrefetch" where
  "NewMarkovPrefetch capacity =
     \<lparr>mp_lru = NewLRU capacity, mp_mk = NewMarkov, mp_prev = 0, mp_started = False,
      mp_prefetches = 0, mp_prefetchLoads = 0\<rparr>"

definition mp_Access :: "int \<Rightarrow> markovPrefetch \<Rightarrow> bool \<times> markovPrefetch" where
  "mp_Access item c =
     (let (hit, l) = lru_Access item (mp_lru c);
          mk = (if mp_started c then Observe (mp_prev c) item (mp_mk c) else mp_mk c);
          c' = c\<lparr>mp_lru := l, mp_mk := mk, mp_prev := item, mp_started := True\<rparr>
      in case Predict item 1 mk of
           [] \<Rightarrow> (hit, c')
         | p # _ \<Rightarrow> (hit, c'\<lparr>mp_prefetches := mp_prefetches c + 1,
                         mp_prefetchLoads := mp_prefetchLoads c + (if p \<notin> lru_set l then 1 else 0),
                         mp_lru := lru_admit p l\<rparr>))"

definition mp_Items :: "markovPrefetch \<Rightarrow> int list" where
  "mp_Items c = lru_Items (mp_lru c)"

definition mp_prefetchStats :: "markovPrefetch \<Rightarrow> nat \<times> nat" where
  "mp_prefetchStats c = (mp_prefetches c, mp_prefetchLoads c)"

lemma mp_ok_Access: "lru_ok (mp_lru c) \<Longrightarrow> lru_ok (mp_lru (snd (mp_Access i c)))"
  by (auto simp: mp_Access_def Let_def split_beta lru_ok_Access lru_ok_admit split: list.splits)

lemma fst_mp_Access: "fst (mp_Access i c) = fst (lru_Access i (mp_lru c))"
  by (auto simp: mp_Access_def Let_def split_beta split: list.splits)

lemma lru_cap_Access [simp]: "lru_cap (snd (lru_Access i c)) = lru_cap c"
  by (simp add: lru_Access_def)

lemma mp_cap_Access: "lru_cap (mp_lru (snd (mp_Access i c))) = lru_cap (mp_lru c)"
  by (auto simp: mp_Access_def Let_def split_beta split: list.splits)

section \<open>Replaying a stream\<close>

record stats =
  st_Accesses :: nat
  st_Hits :: nat
  st_Prefetches :: nat
  st_PrefetchLoads :: nat

fun replay_loop :: "(int \<Rightarrow> 'c \<Rightarrow> bool \<times> 'c) \<Rightarrow> int list \<Rightarrow> 'c \<Rightarrow> nat \<times> 'c" where
  "replay_loop access [] c = (0, c)"
| "replay_loop access (it # stream) c =
     (let (hit, c') = access it c; (n, c'') = replay_loop access stream c'
      in ((if hit then Suc n else n), c''))"

definition Replay :: "(int \<Rightarrow> 'c \<Rightarrow> bool \<times> 'c) \<Rightarrow> ('c \<Rightarrow> nat \<times> nat) option \<Rightarrow> 'c \<Rightarrow> int list \<Rightarrow> stats" where
  "Replay access prefetchStats c stream =
     (let (hits, c') = replay_loop access stream c;
          (p, l) = (case prefetchStats of None \<Rightarrow> (0, 0) | Some ps \<Rightarrow> ps c')
      in \<lparr>st_Accesses = length stream, st_Hits = hits, st_Prefetches = p, st_PrefetchLoads = l\<rparr>)"

definition HitRatio :: "(nat \<Rightarrow> 'f::{zero,divide}) \<Rightarrow> stats \<Rightarrow> 'f" where
  "HitRatio f64 s = (if st_Accesses s = 0 then 0 else f64 (st_Hits s) div f64 (st_Accesses s))"

definition HitRate :: "(nat \<Rightarrow> 'f::{zero,divide}) \<Rightarrow> (int \<Rightarrow> 'c \<Rightarrow> bool \<times> 'c) \<Rightarrow> 'c \<Rightarrow> int list \<Rightarrow> 'f" where
  "HitRate f64 access c stream =
     (if stream = [] then 0 else f64 (fst (replay_loop access stream c)) div f64 (length stream))"

text \<open>The items in order of last use, most recent first.\<close>

definition recency :: "int list \<Rightarrow> int list" where
  "recency stream = rev (remdups stream)"

lemma remdups_snoc: "remdups (xs @ [x]) = filter (\<lambda>y. y \<noteq> x) (remdups xs) @ [x]"
  by (induction xs) auto

lemma recency_snoc: "recency (xs @ [x]) = x # filter (\<lambda>y. y \<noteq> x) (recency xs)"
  by (simp add: recency_def remdups_snoc rev_filter)

lemma recency_other [simp]: "recency [] = []" "distinct (recency xs)" "set (recency xs) = set xs"
  by (simp_all add: recency_def)

definition lru_after :: "nat \<Rightarrow> int list \<Rightarrow> lru" where
  "lru_after cap stream = snd (replay_loop lru_Access stream (NewLRU cap))"

lemma replay_loop_append:
  "replay_loop access (xs @ ys) c =
     (let (n, c') = replay_loop access xs c; (m, c'') = replay_loop access ys c' in (n + m, c''))"
  by (induction xs arbitrary: c) (auto simp: Let_def split_beta)

lemma lru_after_snoc: "lru_after cap (xs @ [x]) = snd (lru_Access x (lru_after cap xs))"
  by (simp add: lru_after_def replay_loop_append Let_def split_beta)

lemma lru_after_spec:
  "lru_ok (lru_after cap xs) \<and> lru_cap (lru_after cap xs) = cap \<and>
   lru_order (lru_after cap xs) = take cap (recency xs)"
proof (induction xs rule: rev_induct)
  case Nil
  then show ?case by (simp add: lru_after_def) (simp add: NewLRU_def)
next
  case (snoc x xs)
  then have "lru_order (lru_after cap (xs @ [x])) = take cap (x # filter (\<lambda>y. y \<noteq> x) (recency xs))"
    using lru_Access_recency [of "lru_after cap xs" "recency xs" x] by (simp add: lru_after_snoc)
  then show ?case using snoc by (simp add: lru_after_snoc lru_ok_Access recency_snoc)
qed

lemma lru_hit_iff: "fst (lru_Access x (lru_after cap xs)) \<longleftrightarrow> x \<in> set (take cap (recency xs))"
  using lru_after_spec [of cap xs] by (auto simp: lru_Access_def lru_ok_def)

lemma lru_hits_snoc:
  "fst (replay_loop lru_Access (xs @ [x]) (NewLRU cap)) =
     fst (replay_loop lru_Access xs (NewLRU cap)) + (if x \<in> set (take cap (recency xs)) then 1 else 0)"
  using lru_hit_iff [of x cap xs] by (simp add: replay_loop_append Let_def split_beta lru_after_def)

section \<open>The exact tier\<close>

record ('c, 'v) tier =
  t_policy :: 'c
  t_vecs :: "(int \<times> 'v) list"
  t_fetches :: nat

definition NewExactTier :: "'c \<Rightarrow> ('c, 'v) tier" where
  "NewExactTier policy = \<lparr>t_policy = policy, t_vecs = [], t_fetches = 0\<rparr>"

fun fetch_missing :: "(int \<Rightarrow> 'v) \<Rightarrow> int list \<Rightarrow> (int \<times> 'v) list \<times> nat \<Rightarrow> (int \<times> 'v) list \<times> nat" where
  "fetch_missing fetch [] s = s"
| "fetch_missing fetch (it # cur) (vecs, n) =
     fetch_missing fetch cur (if map_of vecs it = None then (AList.update it (fetch it) vecs, n + 1) else (vecs, n))"

definition reconcile :: "('c \<Rightarrow> int list) \<Rightarrow> (int \<Rightarrow> 'v) \<Rightarrow> ('c, 'v) tier \<Rightarrow> ('c, 'v) tier" where
  "reconcile items fetch t =
     (let cur = items (t_policy t);
          (vecs, n) = fetch_missing fetch cur (t_vecs t, t_fetches t)
      in t\<lparr>t_vecs := filter (\<lambda>(it, _). it \<in> set cur) vecs, t_fetches := n\<rparr>)"

definition tier_Access ::
  "(int \<Rightarrow> 'c \<Rightarrow> bool \<times> 'c) \<Rightarrow> ('c \<Rightarrow> int list) \<Rightarrow> (int \<Rightarrow> 'v) \<Rightarrow> int \<Rightarrow> ('c, 'v) tier \<Rightarrow> bool \<times> ('c, 'v) tier" where
  "tier_Access access items fetch item t =
     (let (hit, p) = access item (t_policy t) in (hit, reconcile items fetch (t\<lparr>t_policy := p\<rparr>)))"

definition Members :: "('c, 'v) tier \<Rightarrow> int list" where
  "Members t = sort (map fst (t_vecs t))"

definition Vec :: "('c, 'v) tier \<Rightarrow> int \<Rightarrow> 'v option" where
  "Vec t item = map_of (t_vecs t) item"

definition tier_Range :: "('c, 'v) tier \<Rightarrow> (int \<times> 'v option) list" where
  "tier_Range t = map (\<lambda>it. (it, Vec t it)) (Members t)"

lemma fetch_missing_spec:
  "map_of (fst (fetch_missing fetch cur (vecs, n))) i =
     (case map_of vecs i of Some v \<Rightarrow> Some v | None \<Rightarrow> if i \<in> set cur then Some (fetch i) else None)"
  by (induction cur arbitrary: vecs n) (auto simp: update_conv' split: option.splits)

lemma fetch_missing_distinct:
  "distinct (map fst vecs) \<Longrightarrow> distinct (map fst (fst (fetch_missing fetch cur (vecs, n))))"
  by (induction cur arbitrary: vecs n) (auto simp: distinct_update)

lemma fetch_missing_count:
  "distinct cur \<Longrightarrow> snd (fetch_missing fetch cur (vecs, n)) = n + length (filter (\<lambda>i. map_of vecs i = None) cur)"
proof (induction cur arbitrary: vecs n)
  case (Cons it cur)
  have "filter (\<lambda>i. map_of (AList.update it (fetch it) vecs) i = None) cur = filter (\<lambda>i. map_of vecs i = None) cur"
    by (rule filter_cong) (use Cons.prems in \<open>auto simp: update_conv'\<close>)
  then show ?case using Cons by auto
qed simp

text \<open>The tier holds what the policy lists, each item with the vector fetched for it.\<close>

definition tier_ok :: "('c \<Rightarrow> int list) \<Rightarrow> (int \<Rightarrow> 'v) \<Rightarrow> ('c, 'v) tier \<Rightarrow> bool" where
  "tier_ok items fetch t \<longleftrightarrow> distinct (map fst (t_vecs t)) \<and>
     (\<forall>i. Vec t i = (if i \<in> set (items (t_policy t)) then Some (fetch i) else None))"

definition tier_src :: "(int \<Rightarrow> 'v) \<Rightarrow> ('c, 'v) tier \<Rightarrow> bool" where
  "tier_src fetch t \<longleftrightarrow> distinct (map fst (t_vecs t)) \<and> (\<forall>i v. Vec t i = Some v \<longrightarrow> v = fetch i)"

lemma map_of_filter_keys: "map_of (filter (\<lambda>(i, _). P i) xs) i = (if P i then map_of xs i else None)"
  by (induction xs) auto

lemma reconcile_ok:
  assumes "tier_src fetch t"
  shows "tier_ok items fetch (reconcile items fetch t)"
proof -
  let ?cur = "items (t_policy t)"
  have d: "distinct (map fst (fst (fetch_missing fetch ?cur (t_vecs t, t_fetches t))))"
    using assms by (intro fetch_missing_distinct) (simp add: tier_src_def)
  have "map_of (filter (\<lambda>(it, _). it \<in> set ?cur) (fst (fetch_missing fetch ?cur (t_vecs t, t_fetches t)))) i =
      (if i \<in> set ?cur then Some (fetch i) else None)" for i
    using assms by (auto simp: map_of_filter_keys fetch_missing_spec tier_src_def Vec_def split: option.splits)
  then show ?thesis using d
    by (simp add: tier_ok_def reconcile_def Let_def split_beta Vec_def distinct_map_filter)
qed

lemma tier_ok_src: "tier_ok items fetch t \<Longrightarrow> tier_src fetch t"
  by (auto simp: tier_ok_def tier_src_def split: if_splits)

lemma tier_ok_members: "tier_ok items fetch t \<Longrightarrow> set (Members t) = set (items (t_policy t))"
proof -
  assume ok: "tier_ok items fetch t"
  have "i \<in> fst ` set (t_vecs t) \<longleftrightarrow> i \<in> set (items (t_policy t))" for i
    using ok map_of_eq_None_iff [of "t_vecs t" i] by (auto simp: tier_ok_def Vec_def split: if_splits)
  then show ?thesis by (auto simp: Members_def)
qed

lemma tier_policy_Access [simp]: "t_policy (snd (tier_Access access items fetch i t)) = snd (access i (t_policy t))"
  by (simp add: tier_Access_def reconcile_def Let_def split_beta)

lemma fst_tier_Access: "fst (tier_Access access items fetch i t) = fst (access i (t_policy t))"
  by (simp add: tier_Access_def split_beta)

text \<open>What it means for a tier over a policy to be exact after a stream, at the next access.\<close>

definition tier_exact ::
  "(int \<Rightarrow> 'c \<Rightarrow> bool \<times> 'c) \<Rightarrow> ('c \<Rightarrow> int list) \<Rightarrow> (int \<Rightarrow> 'v) \<Rightarrow> 'c \<Rightarrow> nat \<Rightarrow> int list \<Rightarrow> int \<Rightarrow> bool" where
  "tier_exact access items fetch p bound xs i \<longleftrightarrow>
     (let t = snd (replay_loop (tier_Access access items fetch) xs (NewExactTier p));
          (hit, t') = tier_Access access items fetch i t
      in Members t = items (t_policy t) \<and> length (Members t) \<le> bound \<and>
         (hit \<longleftrightarrow> Vec t i = Some (fetch i)) \<and> (\<not> hit \<longleftrightarrow> Vec t i = None) \<and>
         t_fetches t' = t_fetches t + card (set (items (t_policy t')) - set (items (t_policy t))))"

section \<open>The policy interface\<close>

text \<open>
  What \<^verbatim>\<open>ExactTier\<close> and the replays rely on: \<open>ok b\<close> is a policy that can take \<open>b\<close> more accesses; a hit
  is an access to a listed item; the list is sorted and without duplicates, and bounded.
\<close>

locale cache_policy =
  fixes access :: "int \<Rightarrow> 'c \<Rightarrow> bool \<times> 'c"
    and items :: "'c \<Rightarrow> int list"
    and ok :: "nat \<Rightarrow> 'c \<Rightarrow> bool"
    and cap :: "'c \<Rightarrow> nat"
  assumes ok_access: "ok (Suc b) c \<Longrightarrow> ok b (snd (access i c))"
    and hit_iff: "ok b c \<Longrightarrow> fst (access i c) \<longleftrightarrow> i \<in> set (items c)"
    and items_sorted: "ok b c \<Longrightarrow> sorted (items c) \<and> distinct (items c)"
    and items_bound: "ok b c \<Longrightarrow> length (items c) \<le> max 1 (cap c)"
    and cap_access: "cap (snd (access i c)) = cap c"
begin

lemma replay_ok: "ok (length xs + b) c \<Longrightarrow> ok b (snd (replay_loop access xs c))"
proof (induction xs arbitrary: c)
  case (Cons x xs)
  then have "ok (length xs + b) (snd (access x c))" using ok_access [of "length xs + b" c x] by simp
  from Cons.IH [OF this] show ?case by (simp add: Let_def split_beta)
qed simp

lemma replay_cap: "cap (snd (replay_loop access xs c)) = cap c"
  by (induction xs arbitrary: c) (simp_all add: Let_def split_beta cap_access)

lemma tier_loop_ok:
  assumes "ok (length xs + b) (t_policy t)" and "tier_ok items fetch t"
  shows "let t' = snd (replay_loop (tier_Access access items fetch) xs t)
         in ok b (t_policy t') \<and> tier_ok items fetch t' \<and> cap (t_policy t') = cap (t_policy t)"
  using assms
proof (induction xs arbitrary: t)
  case (Cons x xs)
  let ?t = "snd (tier_Access access items fetch x t)"
  have "ok (length xs + b) (t_policy ?t)" using Cons.prems ok_access [of "length xs + b"] by simp
  moreover have "tier_ok items fetch ?t"
  proof -
    have "tier_src fetch (t\<lparr>t_policy := snd (access x (t_policy t))\<rparr>)"
      using tier_ok_src [OF Cons.prems(2)] by (simp add: tier_src_def Vec_def)
    from reconcile_ok [OF this] show ?thesis by (simp add: tier_Access_def split_beta)
  qed
  ultimately show ?case using Cons.IH [of ?t] by (simp add: Let_def split_beta cap_access)
qed (simp add: Let_def)

text \<open>The tier after any stream mirrors the policy, and the next access hits iff the vector is there.\<close>

lemma tier_mirror:
  fixes fetch :: "int \<Rightarrow> 'v"
  assumes ok: "ok (Suc (length xs)) p" and empty: "items p = []"
  defines "t \<equiv> snd (replay_loop (tier_Access access items fetch) xs (NewExactTier p))"
  shows "Members t = items (t_policy t)"
    and "fst (tier_Access access items fetch i t) \<longleftrightarrow> Vec t i = Some (fetch i)"
    and "Vec t i = None \<or> Vec t i = Some (fetch i)"
    and "length (Members t) \<le> max 1 (cap p)"
    and "t_fetches (snd (tier_Access access items fetch i t)) =
           t_fetches t + card (set (items (snd (access i (t_policy t)))) - set (items (t_policy t)))"
proof -
  have "tier_ok items fetch (NewExactTier p)" using empty by (simp add: tier_ok_def NewExactTier_def Vec_def)
  with tier_loop_ok [of xs 1 "NewExactTier p" fetch] ok
  have t: "ok 1 (t_policy t)" "tier_ok items fetch t" "cap (t_policy t) = cap p"
    unfolding t_def by (simp_all add: Let_def NewExactTier_def)
  have mem: "set (Members t) = set (items (t_policy t))" by (rule tier_ok_members [OF t(2)])
  have "sorted (Members t)" "distinct (Members t)" using t(2) by (simp_all add: Members_def tier_ok_def)
  then show m: "Members t = items (t_policy t)"
    using mem items_sorted [OF t(1)] by (intro sorted_distinct_set_unique) auto
  show "fst (tier_Access access items fetch i t) \<longleftrightarrow> Vec t i = Some (fetch i)"
    using t(2) hit_iff [OF t(1)] by (simp add: fst_tier_Access tier_ok_def)
  show "Vec t i = None \<or> Vec t i = Some (fetch i)" using t(2) by (auto simp: tier_ok_def)
  show "length (Members t) \<le> max 1 (cap p)" using items_bound [OF t(1)] m t(3) by simp
  let ?cur = "items (snd (access i (t_policy t)))"
  have d: "distinct ?cur" using items_sorted ok_access [of 0 "t_policy t" i] t(1) by simp
  have "t_fetches (snd (tier_Access access items fetch i t)) =
      t_fetches t + length (filter (\<lambda>j. map_of (t_vecs t) j = None) ?cur)"
    by (simp add: tier_Access_def reconcile_def Let_def split_beta fetch_missing_count [OF d])
  also have "length (filter (\<lambda>j. map_of (t_vecs t) j = None) ?cur) =
      card (set (filter (\<lambda>j. map_of (t_vecs t) j = None) ?cur))" using d by (metis distinct_card distinct_filter)
  also have "set (filter (\<lambda>j. map_of (t_vecs t) j = None) ?cur) = set ?cur - set (items (t_policy t))"
    using t(2) by (auto simp: tier_ok_def Vec_def split: if_splits)
  finally show "t_fetches (snd (tier_Access access items fetch i t)) =
      t_fetches t + card (set ?cur - set (items (t_policy t)))" .
qed

lemma tier_exact_policy:
  assumes "ok (Suc (length xs)) p" and "items p = []"
  shows "tier_exact access items fetch p (max 1 (cap p)) xs i"
  using tier_mirror(1) [OF assms, of fetch] tier_mirror(2) [OF assms, where fetch = fetch and i = i]
    tier_mirror(3) [OF assms, where fetch = fetch and i = i] tier_mirror(4) [OF assms, of fetch] tier_mirror(5) [OF assms, where fetch = fetch and i = i]
  unfolding tier_exact_def Let_def split_beta tier_policy_Access by auto

end

lemma lru_Items_laws:
  "lru_ok c \<Longrightarrow> sorted (lru_Items c) \<and> distinct (lru_Items c) \<and> length (lru_Items c) \<le> max 1 (lru_cap c)"
  by (auto simp: lru_ok_def lru_Items_def)

lemma lfu_Items_laws:
  "lfu_ok b c \<Longrightarrow> sorted (lfu_Items c) \<and> distinct (lfu_Items c) \<and> length (lfu_Items c) \<le> max 1 (lfu_cap c)"
  by (auto simp: lfu_ok_def lfu_Items_def)

interpretation lru: cache_policy lru_Access lru_Items "\<lambda>_. lru_ok" lru_cap
proof
  show "fst (lru_Access i c) \<longleftrightarrow> i \<in> set (lru_Items c)" if "lru_ok c" for i c
    using lru_Items_set [OF that] by (simp add: lru_Access_def)
qed (use lru_Items_laws in \<open>auto simp: lru_ok_Access\<close>)

interpretation markovp: cache_policy mp_Access mp_Items "\<lambda>_ c. lru_ok (mp_lru c)" "\<lambda>c. lru_cap (mp_lru c)"
proof
  show "fst (mp_Access i c) \<longleftrightarrow> i \<in> set (mp_Items c)" if "lru_ok (mp_lru c)" for i c
    using lru.hit_iff [OF that] by (simp add: fst_mp_Access mp_Items_def)
qed (use lru.items_sorted lru.items_bound in \<open>simp_all add: mp_ok_Access mp_Items_def mp_cap_Access\<close>)

interpretation lfu: cache_policy lfu_Access lfu_Items lfu_ok lfu_cap
proof
  show "fst (lfu_Access i c) \<longleftrightarrow> i \<in> set (lfu_Items c)" for i c
    using map_of_eq_None_iff [of "lfu_freq c" i]
    by (auto simp: lfu_Access_def lfu_Items_def Let_def split: option.splits)
  show "lfu_cap (snd (lfu_Access i c)) = lfu_cap c" for i c
    by (auto simp: lfu_Access_def Let_def lfu_evict_def split: option.splits)
qed (use lfu_Items_laws in \<open>auto simp: lfu_ok_Access\<close>)

section \<open>Properties\<close>

text \<open>LRU keeps exactly the most recently used items: after any stream from an empty cache the
  order is the first cap items by recency; an access hits iff its item is one of them; so a larger
  capacity keeps everything a smaller one keeps and never has fewer hits on the same stream.\<close>
theorem LRU_stack:
  assumes "cap \<le> cap'"
  shows "lru_order (lru_after cap stream) = take cap (recency stream) \<and>
     (fst (lru_Access x (lru_after cap stream)) \<longleftrightarrow> x \<in> set (take cap (recency stream))) \<and>
     set (lru_Items (lru_after cap stream)) \<subseteq> set (lru_Items (lru_after cap' stream)) \<and>
     st_Hits (Replay lru_Access None (NewLRU cap) stream) \<le> st_Hits (Replay lru_Access None (NewLRU cap') stream)"
proof -
  have sub: "set (take cap (recency xs)) \<subseteq> set (take cap' (recency xs))" for xs
    using assms by (rule set_take_subset_set_take)
  have hits: "fst (replay_loop lru_Access xs (NewLRU cap)) \<le> fst (replay_loop lru_Access xs (NewLRU cap'))" for xs
  proof (induction xs rule: rev_induct)
    case (snoc x xs)
    then show ?case using sub [of xs] by (auto simp: lru_hits_snoc)
  qed simp
  show ?thesis
    using lru_after_spec [of cap stream] lru_after_spec [of cap' stream] sub [of stream] hits [of stream]
    by (simp add: lru_hit_iff lru_Items_def Replay_def Let_def split_beta)
qed

theorem LRU_stack_witness:
  "st_Hits (Replay lru_Access None (NewLRU 1) [1, 2, 1, 1]) = 1 \<and>
   1 \<le> st_Hits (Replay lru_Access None (NewLRU 2) [1, 2, 1, 1])"
proof -
  have "st_Hits (Replay lru_Access None (NewLRU 1) [1, 2, 1, 1]) = 1"
    by (simp add: Replay_def NewLRU_def lru_Access_def lru_admit_def lru_evict_eq lru_touch_def)
  then show ?thesis using LRU_stack [of 1 2 "[1, 2, 1, 1]"] by simp
qed

text \<open>The exact tier is exact over each of the three policies: after any stream its members are
  the policy's, at most the capacity of them; an access is a hit iff the item's own vector is
  resident, and a miss iff no vector is; and an access loads one vector per newly admitted item.\<close>
theorem ExactTier_mirrors:
  assumes "int (length xs) + 1 < maxInt"
  shows "tier_exact lru_Access lru_Items fetch (NewLRU cap) (max 1 cap) xs i \<and>
     tier_exact mp_Access mp_Items fetch (NewMarkovPrefetch cap) (max 1 cap) xs i \<and>
     tier_exact lfu_Access lfu_Items fetch (NewLFU cap) (max 1 cap) xs i"
proof -
  have f: "lfu_ok (Suc (length xs)) (NewLFU cap)" "lfu_Items (NewLFU cap) = []"
    using assms by (simp_all add: lfu_ok_def NewLFU_def lfu_Items_def)
  have l: "lru_ok (NewLRU cap)" "lru_Items (NewLRU cap) = []"
    by simp (simp add: NewLRU_def lru_Items_def)
  have m: "lru_ok (mp_lru (NewMarkovPrefetch cap))" "mp_Items (NewMarkovPrefetch cap) = []"
    by (simp add: NewMarkovPrefetch_def) (simp add: NewMarkovPrefetch_def mp_Items_def NewLRU_def lru_Items_def)
  show ?thesis
    using lru.tier_exact_policy [OF l, of fetch xs i] markovp.tier_exact_policy [OF m, of fetch xs i]
      lfu.tier_exact_policy [OF f, of fetch i]
    by (simp add: NewLRU_def NewMarkovPrefetch_def NewLFU_def)
qed

theorem ExactTier_mirrors_witness:
  "tier_exact mp_Access mp_Items (\<lambda>i. i * i) (NewMarkovPrefetch 2) 2 [1, 2, 1, 2] 1"
  using ExactTier_mirrors [of "[1, 2, 1, 2]" "\<lambda>i. i * i" 2 1] by (simp add: maxInt_def numeral_2_eq_2)

text \<open>LFU evicts the least frequently used item, the lower id on ties, and only when the cache
  is full and the item absent; every other counter is kept, and the new item enters with count 1.\<close>
theorem LFU_evicts_least:
  assumes ok: "lfu_ok (Suc b) c" and miss: "i \<notin> set (lfu_Items c)"
  shows "if length (lfu_freq c) < lfu_cap c \<or> lfu_freq c = []
     then map_of (lfu_freq (snd (lfu_Access i c))) = (map_of (lfu_freq c))(i \<mapsto> 1)
     else \<exists>v f. map_of (lfu_freq c) v = Some f \<and>
        (\<forall>j g. map_of (lfu_freq c) j = Some g \<longrightarrow> f < g \<or> f = g \<and> v \<le> j) \<and>
        map_of (lfu_freq (snd (lfu_Access i c))) = ((map_of (lfu_freq c))(v := None))(i \<mapsto> 1)"
proof -
  have none: "map_of (lfu_freq c) i = None" using miss by (simp add: lfu_Items_def map_of_eq_None_iff)
  have d: "distinct (map fst (lfu_freq c))" using ok by (simp add: lfu_ok_def)
  define v where "v = fst (lfu_min (lfu_freq c) (maxInt, maxInt))"
  have acc: "map_of (lfu_freq (snd (lfu_Access i c))) =
      (if length (lfu_freq c) \<ge> lfu_cap c then (map_of (lfu_freq c))(v := None) else map_of (lfu_freq c))(i \<mapsto> 1)"
    using none by (simp add: lfu_Access_def Let_def update_conv' lfu_evict_def delete_conv' v_def)
  show ?thesis
  proof (cases "length (lfu_freq c) < lfu_cap c \<or> lfu_freq c = []")
    case True
    then show ?thesis unfolding acc by auto
  next
    case False
    have "\<forall>(i, f) \<in> set (lfu_freq c). int f < maxInt" using ok by (force simp: lfu_ok_def)
    from lfu_min_in [OF _ this] False obtain f where f: "(v, f) \<in> set (lfu_freq c)"
      "\<forall>j g. (j, g) \<in> set (lfu_freq c) \<longrightarrow> f < g \<or> f = g \<and> v \<le> j" by (auto simp: v_def)
    then have "map_of (lfu_freq c) v = Some f" using d by simp
    moreover have "\<forall>j g. map_of (lfu_freq c) j = Some g \<longrightarrow> f < g \<or> f = g \<and> v \<le> j"
      using f(2) by (blast dest: map_of_SomeD)
    ultimately show ?thesis using False unfolding acc by auto
  qed
qed

theorem LFU_evicts_least_witness:
  "\<exists>v f. map_of [(7, 2), (5, 1), (3, 1 :: nat)] v = Some f \<and>
     (\<forall>j g. map_of [(7, 2), (5, 1), (3, 1 :: nat)] j = Some g \<longrightarrow> f < g \<or> f = g \<and> v \<le> j) \<and>
     map_of (lfu_freq (snd (lfu_Access 9 \<lparr>lfu_cap = 3, lfu_freq = [(7, 2), (5, 1), (3, 1)]\<rparr>))) =
       ((map_of [(7, 2), (5, 1), (3, 1 :: nat)])(v := None))(9 \<mapsto> 1)"
proof -
  have "lfu_ok (Suc 0) \<lparr>lfu_cap = 3, lfu_freq = [(7, 2), (5, 1), (3, 1)]\<rparr>" by (simp add: lfu_ok_def maxInt_def)
  from LFU_evicts_least [OF this, of 9] show ?thesis by (simp add: lfu_Items_def)
qed

end
