(* ===== verification/Strings.thy ===== *)
theory Strings
  imports Prelude
begin

text \<open>
  More of Go's string functions, for the text protocols: \<^verbatim>\<open>strings.Split\<close> on a byte,
  \<^verbatim>\<open>TrimPrefix\<close> and \<^verbatim>\<open>TrimSuffix\<close>, \<^verbatim>\<open>FieldsFunc\<close>, decimal output of integers (\<^verbatim>\<open>%d\<close>) and
  \<^verbatim>\<open>strconv.ParseUint(s, 10, 64)\<close>.
\<close>

section \<open>Splitting\<close>

fun split_on :: "char \<Rightarrow> gostring \<Rightarrow> gostring list" where
  "split_on c [] = [[]]"
| "split_on c (x # xs) = (if x = c then [] # split_on c xs
     else case split_on c xs of [] \<Rightarrow> [[x]] | y # ys \<Rightarrow> (x # y) # ys)"

lemma split_on_nonempty [simp]: "split_on c s \<noteq> []"
  by (cases s) (auto split: list.split)

lemma split_on_none: "c \<notin> set s \<Longrightarrow> split_on c s = [s]"
  by (induction s) auto

lemma split_on_append: "c \<notin> set a \<Longrightarrow> split_on c (a @ c # b) = a # split_on c b"
  by (induction a) auto

fun join_with :: "gostring \<Rightarrow> gostring list \<Rightarrow> gostring" where
  "join_with sep [] = []"
| "join_with sep [x] = x"
| "join_with sep (x # y # ys) = x @ sep @ join_with sep (y # ys)"

text \<open>\<^verbatim>\<open>strings.FieldsFunc\<close>: the maximal runs of characters that are no separators.\<close>

fun fields_func :: "(char \<Rightarrow> bool) \<Rightarrow> gostring \<Rightarrow> gostring list" where
  "fields_func p [] = []"
| "fields_func p (x # xs) =
     (if p x then fields_func p xs
      else case xs of
             [] \<Rightarrow> [[x]]
           | y # _ \<Rightarrow> if p y then [x] # fields_func p xs
                      else case fields_func p xs of [] \<Rightarrow> [[x]] | f # fs \<Rightarrow> (x # f) # fs)"

definition trim_prefix :: "gostring \<Rightarrow> gostring \<Rightarrow> gostring" where
  "trim_prefix p s = (if prefix p s then drop (length p) s else s)"

definition trim_suffix :: "gostring \<Rightarrow> gostring \<Rightarrow> gostring" where
  "trim_suffix p s = (if suffix p s then take (length s - length p) s else s)"

definition trim_right_char :: "char \<Rightarrow> gostring \<Rightarrow> gostring" where
  "trim_right_char c s = rev (dropWhile (\<lambda>x. x = c) (rev s))"

lemma trim_prefix_append [simp]: "trim_prefix p (p @ s) = s"
  by (simp add: trim_prefix_def)

lemma trim_suffix_append [simp]: "trim_suffix p (s @ p) = s"
  by (simp add: trim_suffix_def suffix_def)

section \<open>Cutting around a separator\<close>

text \<open>The first occurrence is found when the separator's first byte does not occur later in it.\<close>

lemma cut_first:
  assumes "sep = c # cs" and "c \<notin> set cs" and "\<not> sublist sep a"
  shows "cut sep (a @ sep @ b) = Some (a, b)"
  using assms(3)
proof (induction a)
  case Nil
  then show ?case by (subst cut.simps) simp
next
  case (Cons x a)
  have "\<not> prefix sep (x # a @ sep @ b)"
  proof
    assume p: "prefix sep (x # a @ sep @ b)"
    show False
    proof (cases "length sep \<le> Suc (length a)")
      case True
      then have "prefix sep (x # a)" using p
        by (metis append_Cons length_Cons prefix_length_prefix prefixI)
      then show False using Cons.prems by (auto simp: sublist_Cons_right)
    next
      case False
      then have "c = (x # a @ sep @ b) ! Suc (length a)" and "Suc (length a) < length sep"
        using assms(1) by (simp_all add: nth_append)
      then have "sep ! Suc (length a) = c"
        using p by (metis prefix_def nth_append)
      then have "cs ! length a = c" and "length a < length cs"
        using \<open>Suc (length a) < length sep\<close> assms(1) by auto
      then show False using assms(2) by (metis nth_mem)
    qed
  qed
  moreover have "\<not> sublist sep a" using Cons.prems by (auto simp: sublist_Cons_right)
  ultimately show ?case using Cons.IH by (subst cut.simps) simp
qed

lemma cut_char: "c \<notin> set a \<Longrightarrow> cut [c] (a @ c # b) = Some (a, b)"
  using cut_first [of "[c]" c "[]" a b] by (fastforce simp: sublist_def)

lemma cut_none: "\<not> sublist sep s \<Longrightarrow> cut sep s = None"
proof (induction s)
  case Nil
  then show ?case by (subst cut.simps) simp
next
  case (Cons x s)
  then have "\<not> prefix sep (x # s)" and "\<not> sublist sep s" by (auto simp: sublist_Cons_right)
  then show ?case using Cons.IH by (subst cut.simps) simp
qed

section \<open>Decimal numbers\<close>

definition digit_char :: "nat \<Rightarrow> char" where
  "digit_char d = char_of (48 + d)"

fun show_nat :: "nat \<Rightarrow> gostring" where
  "show_nat n = (if n < 10 then [digit_char n] else show_nat (n div 10) @ [digit_char (n mod 10)])"

declare show_nat.simps [simp del]

definition show_int :: "int \<Rightarrow> gostring" where
  "show_int i = (if i < 0 then CHR ''-'' # show_nat (nat (- i)) else show_nat (nat i))"

definition is_digit :: "char \<Rightarrow> bool" where
  "is_digit c \<longleftrightarrow> 48 \<le> (of_char c :: nat) \<and> (of_char c :: nat) \<le> 57"

definition digits_val :: "gostring \<Rightarrow> nat" where
  "digits_val s = foldl (\<lambda>v c. v * 10 + (of_char c - 48)) 0 s"

definition parse_uint64 :: "gostring \<Rightarrow> nat option" where
  "parse_uint64 s =
     (if s \<noteq> [] \<and> list_all is_digit s \<and> digits_val s < 2 ^ 64 then Some (digits_val s) else None)"

lemma of_digit_char: "d < 10 \<Longrightarrow> (of_char (digit_char d) :: nat) = 48 + d"
  by (simp add: digit_char_def of_char_mod_256)

lemma show_nat_digits: "list_all is_digit (show_nat n) \<and> show_nat n \<noteq> [] \<and> digits_val (show_nat n) = n"
proof (induction n rule: show_nat.induct)
  case (1 n)
  show ?case
  proof (cases "n < 10")
    case True
    then show ?thesis
      by (subst (1 2 3) show_nat.simps) (simp add: is_digit_def of_digit_char digits_val_def)
  next
    case False
    have d: "is_digit (digit_char (n mod 10))" "digits_val [digit_char (n mod 10)] = n mod 10"
      by (simp_all add: is_digit_def of_digit_char digits_val_def)
    have app: "digits_val (xs @ [digit_char (n mod 10)]) = digits_val xs * 10 + n mod 10" for xs
      by (simp add: digits_val_def of_digit_char)
    show ?thesis using 1 [OF False] False d by (subst (1 2 3) show_nat.simps) (simp add: app)
  qed
qed

lemma show_nat_inj: "show_nat m = show_nat n \<longleftrightarrow> m = n"
  using show_nat_digits by metis

lemma parse_show: "n < 2 ^ 64 \<Longrightarrow> parse_uint64 (show_nat n) = Some n"
  using show_nat_digits [of n] by (simp add: parse_uint64_def)

lemma show_nat_set: "c \<in> set (show_nat n) \<Longrightarrow> is_digit c"
  using show_nat_digits [of n] by (auto simp: list_all_iff)

end
