(* ===== verification/Tokens.thy ===== *)
theory Tokens
  imports Prelude
begin

text \<open>
  The credential registry of \<^verbatim>\<open>cmd/sentrymcp/tenants.go\<close>: the owner's secret and the team entries of
  the tokens file, and the lookup from a presented secret to its tenant. Reading and decoding the
  file is outside: its outcome is an argument. \<^verbatim>\<open>subtle.ConstantTimeCompare\<close> is equality.
\<close>

record token_entry =
  te_Secret :: gostring
  te_Tenant :: tenant
  te_Label :: gostring

type_synonym token_registry = "token_entry list"

text \<open>No path given, an unreadable or undecodable file, or the decoded entries.\<close>

datatype tokens_file = NoFile | Unreadable | Undecodable | TeamEntries "token_entry list"

datatype tokens_error =
  TRead | TParse | TEmptyOrZero gostring | TReusesOwner gostring | TReused gostring

fun load_teams ::
  "gostring \<Rightarrow> token_entry list \<Rightarrow> gostring set \<Rightarrow> token_registry \<Rightarrow> tokens_error + token_registry" where
  "load_teams ownerSecret [] seen r = Inr r"
| "load_teams ownerSecret (e # teams) seen r =
     (if te_Secret e = [] \<or> te_Tenant e = 0 then Inl (TEmptyOrZero (te_Label e))
      else if ownerSecret \<noteq> [] \<and> te_Secret e = ownerSecret then Inl (TReusesOwner (te_Label e))
      else if te_Secret e \<in> seen then Inl (TReused (te_Label e))
      else load_teams ownerSecret teams (insert (te_Secret e) seen) (r @ [e]))"

definition loadTokenRegistry ::
  "tokens_file \<Rightarrow> gostring \<Rightarrow> tenant \<Rightarrow> tokens_error + token_registry" where
  "loadTokenRegistry file ownerSecret ownerTenant =
     (let r = (if ownerSecret \<noteq> []
               then [\<lparr>te_Secret = ownerSecret, te_Tenant = ownerTenant, te_Label = ''owner''\<rparr>] else [])
      in case file of
           NoFile \<Rightarrow> Inr r
         | Unreadable \<Rightarrow> Inl TRead
         | Undecodable \<Rightarrow> Inl TParse
         | TeamEntries teams \<Rightarrow> load_teams ownerSecret teams {} r)"

fun find_tenant :: "gostring \<Rightarrow> token_entry list \<Rightarrow> tenant option" where
  "find_tenant secret [] = None"
| "find_tenant secret (e # es) = (if secret = te_Secret e then Some (te_Tenant e) else find_tenant secret es)"

definition token_Tenant :: "token_registry \<Rightarrow> gostring \<Rightarrow> tenant option" where
  "token_Tenant r secret = (if secret = [] then None else find_tenant secret r)"

section \<open>Lemmas\<close>

definition entry_map :: "token_entry list \<Rightarrow> gostring \<Rightarrow> tenant option" where
  "entry_map es = map_of (map (\<lambda>e. (te_Secret e, te_Tenant e)) es)"

lemma find_tenant_map: "find_tenant s es = entry_map es s"
  by (induction es) (auto simp: entry_map_def)

lemma entry_map_Cons: "entry_map (e # es) = (entry_map es)(te_Secret e \<mapsto> te_Tenant e)"
  by (simp add: entry_map_def)

lemma entry_map_Nil: "entry_map [] = Map.empty"
  by (simp add: entry_map_def)

text \<open>What a successful load returns.\<close>

lemma load_teams_spec:
  assumes "load_teams ownerSecret teams seen r = Inr r'"
  shows "r' = r @ teams \<and> distinct (map te_Secret teams) \<and> te_Secret ` set teams \<inter> seen = {} \<and>
     (\<forall>e \<in> set teams. te_Secret e \<noteq> [] \<and> te_Tenant e \<noteq> 0 \<and> te_Secret e \<noteq> ownerSecret)"
  using assms
proof (induction teams arbitrary: seen r)
  case (Cons e teams)
  then have e: "te_Secret e \<noteq> []" "te_Tenant e \<noteq> 0" "te_Secret e \<noteq> ownerSecret" "te_Secret e \<notin> seen"
    and l: "load_teams ownerSecret teams (insert (te_Secret e) seen) (r @ [e]) = Inr r'"
    by (auto split: if_splits)
  from Cons.IH [OF l] e show ?case by auto
qed simp

lemma load_teams_total:
  assumes "distinct (map te_Secret teams)" and "te_Secret ` set teams \<inter> seen = {}"
    and "\<forall>e \<in> set teams. te_Secret e \<noteq> [] \<and> te_Tenant e \<noteq> 0 \<and> te_Secret e \<noteq> ownerSecret"
  shows "load_teams ownerSecret teams seen r = Inr (r @ teams)"
  using assms by (induction teams arbitrary: seen r) auto

section \<open>Properties\<close>

text \<open>Routing by credential is unambiguous: the registry loads exactly when every team entry has
  a secret and a tenant and no secret is used twice or is the owner's; then the owner's secret
  leads to the owner's tenant, each team's secret to that team's tenant, and any other secret (the
  empty one included) to none.\<close>
theorem token_routing:
  "(case loadTokenRegistry (TeamEntries teams) owner t0 of
      Inl _ \<Rightarrow> \<not> distinct (map te_Secret teams) \<or>
        (\<exists>e \<in> set teams. te_Secret e = [] \<or> te_Tenant e = 0 \<or> te_Secret e = owner)
    | Inr r \<Rightarrow> distinct (map te_Secret teams) \<and>
        (\<forall>e \<in> set teams. te_Secret e \<noteq> [] \<and> te_Tenant e \<noteq> 0 \<and> te_Secret e \<noteq> owner) \<and>
        (\<forall>s. token_Tenant r s = (if s = [] then None else if s = owner then Some t0 else entry_map teams s)))"
proof (cases "loadTokenRegistry (TeamEntries teams) owner t0")
  case (Inl e)
  show ?thesis
  proof (rule ccontr)
    assume "\<not> ?thesis"
    then have "distinct (map te_Secret teams)"
      and "\<forall>e \<in> set teams. te_Secret e \<noteq> [] \<and> te_Tenant e \<noteq> 0 \<and> te_Secret e \<noteq> owner"
      using Inl by auto
    from load_teams_total [OF this(1) _ this(2), of "{}"] Inl show False
      by (simp add: loadTokenRegistry_def Let_def)
  qed
next
  case (Inr r)
  define r0 where "r0 = (if owner \<noteq> [] then [\<lparr>te_Secret = owner, te_Tenant = t0, te_Label = ''owner''\<rparr>] else [])"
  have l: "load_teams owner teams {} r0 = Inr r" using Inr by (simp add: loadTokenRegistry_def Let_def r0_def)
  note sp = load_teams_spec [OF l]
  then have r: "r = r0 @ teams" by blast
  have "token_Tenant r s = (if s = [] then None else if s = owner then Some t0 else entry_map teams s)" for s
    by (simp add: token_Tenant_def find_tenant_map r r0_def entry_map_Cons)
  then show ?thesis using Inr sp by simp
qed

theorem token_routing_witness:
  "let teams = [\<lparr>te_Secret = ''blue'', te_Tenant = 2, te_Label = ''b''\<rparr>];
       reg = [\<lparr>te_Secret = ''own'', te_Tenant = 1, te_Label = ''owner''\<rparr>] @ teams
   in loadTokenRegistry (TeamEntries teams) ''own'' 1 = Inr reg \<and>
      token_Tenant reg ''blue'' = Some 2 \<and> token_Tenant reg ''own'' = Some 1"
  using token_routing [of "[\<lparr>te_Secret = ''blue'', te_Tenant = 2, te_Label = ''b''\<rparr>]" "''own''" 1]
  by (auto simp: loadTokenRegistry_def Let_def entry_map_def)

end
