(* ===== verification/OAuth.thy ===== *)
theory OAuth
  imports Strings Tokens
begin

text \<open>
  The OAuth 2.1 authorization server of \<^verbatim>\<open>cmd/sentrymcp/oauth.go\<close> and the request's tenant
  (\<^verbatim>\<open>resolveTenant\<close> of \<^verbatim>\<open>main.go\<close>). Hashing, base64, JSON and URL parsing are the record
  \<open>golib\<close>, an argument of the definitions; the clock readings and the random bytes of a request
  are arguments too. A handler takes the request and the provider's state and returns the
  response with the new state.
\<close>

section \<open>What is taken from the standard library\<close>

record url =
  url_scheme :: gostring
  url_host :: gostring
  url_hostname :: gostring
  url_user :: bool

record jwtClaims =
  cl_Sub :: gostring
  cl_Iss :: gostring
  cl_Kind :: gostring
  cl_Iat :: int
  cl_Exp :: int
  cl_Tnt :: tenant

record golib =
  lib_sha256 :: "gostring \<Rightarrow> gostring"
  lib_hmac :: "gostring \<Rightarrow> gostring \<Rightarrow> gostring"
  lib_b64 :: "gostring \<Rightarrow> gostring"
  lib_unb64 :: "gostring \<Rightarrow> gostring option"
  lib_marshal :: "jwtClaims \<Rightarrow> gostring"
  lib_unmarshal :: "gostring \<Rightarrow> jwtClaims option"
  lib_parse :: "gostring \<Rightarrow> url option"
  lib_setQuery :: "gostring \<Rightarrow> (gostring \<times> gostring) list \<Rightarrow> gostring"

definition unix :: "int \<Rightarrow> int" where
  "unix now = now div 10 ^ 9"

section \<open>Requests and responses\<close>

record request =
  rq_method :: gostring
  rq_origin :: gostring
  rq_form :: "(gostring \<times> gostring) list"

definition form_get :: "request \<Rightarrow> gostring \<Rightarrow> gostring" where
  "form_get rq k = (case map_of (rq_form rq) k of None \<Rightarrow> [] | Some v \<Rightarrow> v)"

datatype jval = JStr gostring | JStrs "gostring list" | JInt int

datatype resp_body =
  BNone | BText gostring | BConsent "(gostring \<times> gostring) list" | BJson "(gostring \<times> jval) list"

record response =
  rs_status :: nat
  rs_headers :: "(gostring \<times> gostring) list"
  rs_body :: resp_body

definition cors_headers :: "request \<Rightarrow> (gostring \<times> gostring) list" where
  "cors_headers rq =
     [(''Access-Control-Allow-Origin'', if rq_origin rq = [] then ''*'' else rq_origin rq),
      (''Vary'', ''Origin''),
      (''Access-Control-Allow-Methods'', ''GET, POST, OPTIONS''),
      (''Access-Control-Allow-Headers'', ''Authorization, Content-Type, Mcp-Session-Id, Mcp-Protocol-Version'')]"

definition cors :: "request \<Rightarrow> response option" where
  "cors rq = (if rq_method rq = ''OPTIONS''
     then Some \<lparr>rs_status = 204, rs_headers = cors_headers rq, rs_body = BNone\<rparr> else None)"

definition writeJSON :: "request \<Rightarrow> nat \<Rightarrow> (gostring \<times> jval) list \<Rightarrow> response" where
  "writeJSON rq code v =
     \<lparr>rs_status = code, rs_headers = cors_headers rq @ [(''Content-Type'', ''application/json'')], rs_body = BJson v\<rparr>"

definition http_Error :: "request \<Rightarrow> gostring \<Rightarrow> nat \<Rightarrow> response" where
  "http_Error rq msg code =
     \<lparr>rs_status = code,
      rs_headers = cors_headers rq @ [(''Content-Type'', ''text/plain; charset=utf-8''), (''X-Content-Type-Options'', ''nosniff'')],
      rs_body = BText (msg @ [CHR 0x0A])\<rparr>"

section \<open>The provider\<close>

record authCode =
  ac_clientID :: gostring
  ac_redirectURI :: gostring
  ac_codeChallenge :: gostring
  ac_scope :: gostring
  ac_expiry :: "int option"
  ac_tenant :: tenant

record oauthProvider =
  oa_issuer :: gostring
  oa_approveSecret :: gostring
  oa_signKey :: gostring
  oa_codes :: "(gostring \<times> authCode) list"
  oa_extraHosts :: "gostring list"

definition accessTokenTTL :: int where "accessTokenTTL = 30 * 24 * 3600 * 10 ^ 9"
definition refreshTokenTTL :: int where "refreshTokenTTL = 365 * 24 * 3600 * 10 ^ 9"
definition authCodeTTL :: int where "authCodeTTL = 5 * 60 * 10 ^ 9"

definition newOAuth :: "golib \<Rightarrow> gostring \<Rightarrow> gostring \<Rightarrow> oauthProvider" where
  "newOAuth lib issuer approveSecret =
     \<lparr>oa_issuer = trim_right_char CHR ''/'' issuer, oa_approveSecret = approveSecret,
      oa_signKey = lib_sha256 lib (''matrix-sentry-oauth-v1|'' @ approveSecret),
      oa_codes = [], oa_extraHosts = []\<rparr>"

definition setExtraRedirectHosts :: "gostring \<Rightarrow> oauthProvider \<Rightarrow> oauthProvider" where
  "setExtraRedirectHosts list oa =
     oa\<lparr>oa_extraHosts := filter (\<lambda>h. h \<noteq> [])
        (map (\<lambda>f. to_lower (trim_space f)) (fields_func (\<lambda>r. r = CHR '','' \<or> r = CHR '' '' \<or> r = CHR 0x09) list))\<rparr>"

definition randToken :: "golib \<Rightarrow> gostring \<Rightarrow> gostring" where
  "randToken lib rnd = lib_b64 lib rnd"

definition allowedRedirect :: "golib \<Rightarrow> oauthProvider \<Rightarrow> gostring \<Rightarrow> bool" where
  "allowedRedirect lib oa raw =
     (case lib_parse lib raw of
        None \<Rightarrow> False
      | Some u \<Rightarrow>
          if url_host u = [] \<or> url_user u then False
          else let host = url_hostname u
               in if url_scheme u = ''https'' \<and> (host = ''claude.ai'' \<or> host = ''claude.com'') then True
                  else if (url_scheme u = ''http'' \<or> url_scheme u = ''https'') \<and>
                          (host = ''localhost'' \<or> host = ''127.0.0.1'' \<or> host = ''::1'') then True
                  else url_scheme u = ''https'' \<and> host \<in> set (oa_extraHosts oa))"

definition verifyPKCE :: "golib \<Rightarrow> gostring \<Rightarrow> gostring \<Rightarrow> bool" where
  "verifyPKCE lib verifier challenge \<longleftrightarrow> lib_b64 lib (lib_sha256 lib verifier) = challenge"

section \<open>Tokens\<close>

definition jwt_header :: gostring where
  "jwt_header = ''{\"alg\":\"HS256\",\"typ\":\"JWT\"}''"

definition token_claims :: "oauthProvider \<Rightarrow> gostring \<Rightarrow> gostring \<Rightarrow> int \<Rightarrow> tenant \<Rightarrow> int \<Rightarrow> jwtClaims" where
  "token_claims oa subject kind ttl tnt now =
     \<lparr>cl_Sub = subject, cl_Iss = oa_issuer oa, cl_Kind = kind, cl_Iat = unix now, cl_Exp = unix (now + ttl), cl_Tnt = tnt\<rparr>"

definition signToken :: "golib \<Rightarrow> oauthProvider \<Rightarrow> gostring \<Rightarrow> gostring \<Rightarrow> int \<Rightarrow> tenant \<Rightarrow> int \<Rightarrow> gostring" where
  "signToken lib oa subject kind ttl tnt now =
     (let hdr = lib_b64 lib jwt_header;
          payload = lib_b64 lib (lib_marshal lib (token_claims oa subject kind ttl tnt now));
          signing = hdr @ ''.'' @ payload;
          sig = lib_b64 lib (lib_hmac lib (oa_signKey oa) signing)
      in signing @ ''.'' @ sig)"

definition verifyToken :: "golib \<Rightarrow> oauthProvider \<Rightarrow> gostring \<Rightarrow> gostring \<Rightarrow> int \<Rightarrow> jwtClaims option" where
  "verifyToken lib oa tok kind now =
     (case split_on CHR ''.'' tok of
        [p0, p1, p2] \<Rightarrow>
          let signing = p0 @ ''.'' @ p1;
              want = lib_b64 lib (lib_hmac lib (oa_signKey oa) signing)
          in if want \<noteq> p2 then None
             else case lib_unb64 lib p1 of
                    None \<Rightarrow> None
                  | Some cb \<Rightarrow>
                      case lib_unmarshal lib cb of
                        None \<Rightarrow> None
                      | Some cl \<Rightarrow>
                          if cl_Kind cl \<noteq> kind \<or> cl_Iss cl \<noteq> oa_issuer oa \<or> unix now \<ge> cl_Exp cl then None
                          else Some cl
      | _ \<Rightarrow> None)"

section \<open>Authorization codes\<close>

definition issueCode :: "golib \<Rightarrow> gostring \<Rightarrow> int \<Rightarrow> authCode \<Rightarrow> oauthProvider \<Rightarrow> gostring \<times> oauthProvider" where
  "issueCode lib rnd now c oa =
     (let c' = (if ac_expiry c = None then c\<lparr>ac_expiry := Some (now + authCodeTTL)\<rparr> else c);
          code = randToken lib rnd
      in (code, oa\<lparr>oa_codes := AList.update code c' (oa_codes oa)\<rparr>))"

definition consumeCode :: "int \<Rightarrow> gostring \<Rightarrow> oauthProvider \<Rightarrow> authCode option \<times> oauthProvider" where
  "consumeCode now code oa =
     (case map_of (oa_codes oa) code of
        None \<Rightarrow> (None, oa)
      | Some c \<Rightarrow>
          let oa' = oa\<lparr>oa_codes := AList.delete code (oa_codes oa)\<rparr>
          in if (case ac_expiry c of None \<Rightarrow> True | Some e \<Rightarrow> now > e) then (None, oa') else (Some c, oa'))"

section \<open>Handlers\<close>

definition handleProtectedResource :: "request \<Rightarrow> oauthProvider \<Rightarrow> response" where
  "handleProtectedResource rq oa =
     (case cors rq of Some r \<Rightarrow> r
      | None \<Rightarrow> writeJSON rq 200
          [(''resource'', JStr (oa_issuer oa)), (''authorization_servers'', JStrs [oa_issuer oa])])"

definition handleAuthServerMeta :: "request \<Rightarrow> oauthProvider \<Rightarrow> response" where
  "handleAuthServerMeta rq oa =
     (case cors rq of Some r \<Rightarrow> r
      | None \<Rightarrow> writeJSON rq 200
          [(''issuer'', JStr (oa_issuer oa)),
           (''authorization_endpoint'', JStr (oa_issuer oa @ ''/authorize'')),
           (''token_endpoint'', JStr (oa_issuer oa @ ''/token'')),
           (''registration_endpoint'', JStr (oa_issuer oa @ ''/register'')),
           (''response_types_supported'', JStrs [''code'']),
           (''grant_types_supported'', JStrs [''authorization_code'', ''refresh_token'']),
           (''code_challenge_methods_supported'', JStrs [''S256'']),
           (''token_endpoint_auth_methods_supported'', JStrs [''none'']),
           (''scopes_supported'', JStrs [''mcp''])])"

text \<open>The decoded registration request: both fields are empty when the body does not decode.\<close>

definition handleRegister :: "golib \<Rightarrow> gostring \<Rightarrow> gostring list \<Rightarrow> gostring \<Rightarrow> request \<Rightarrow> response" where
  "handleRegister lib rnd redirectURIs clientName rq =
     (case cors rq of Some r \<Rightarrow> r
      | None \<Rightarrow> writeJSON rq 201
          [(''client_id'', JStr (''ms-'' @ randToken lib rnd)),
           (''redirect_uris'', JStrs redirectURIs),
           (''client_name'', JStr clientName),
           (''token_endpoint_auth_method'', JStr ''none''),
           (''grant_types'', JStrs [''authorization_code'', ''refresh_token'']),
           (''response_types'', JStrs [''code''])])"

text \<open>In the 401 branch the content type is set after the status line was written: no effect.\<close>

definition handleAuthorize ::
  "golib \<Rightarrow> (gostring \<Rightarrow> tenant option) \<Rightarrow> gostring \<Rightarrow> int \<Rightarrow> request \<Rightarrow> oauthProvider \<Rightarrow> response \<times> oauthProvider" where
  "handleAuthorize lib tenantFor rnd now rq oa =
     (case cors rq of Some r \<Rightarrow> (r, oa)
      | None \<Rightarrow>
          let ru = form_get rq ''redirect_uri''
          in if ru = [] \<or> \<not> allowedRedirect lib oa ru
             then (http_Error rq ''invalid_request: redirect_uri not allowed'' 400, oa)
             else if rq_method rq = ''GET''
             then (\<lparr>rs_status = 200, rs_headers = cors_headers rq @ [(''Content-Type'', ''text/html; charset=utf-8'')],
                    rs_body = BConsent
                      [(''ResponseType'', form_get rq ''response_type''), (''ClientID'', form_get rq ''client_id''),
                       (''RedirectURI'', ru),
                       (''RedirectHost'', case lib_parse lib ru of None \<Rightarrow> [] | Some u \<Rightarrow> url_hostname u),
                       (''CodeChallenge'', form_get rq ''code_challenge''),
                       (''CodeChallengeMethod'', form_get rq ''code_challenge_method''),
                       (''State'', form_get rq ''state''), (''Scope'', form_get rq ''scope'')]\<rparr>, oa)
             else let challenge = form_get rq ''code_challenge''
             in if challenge = [] \<or> form_get rq ''code_challenge_method'' \<noteq> ''S256''
                then (http_Error rq ''invalid_request: PKCE S256 required'' 400, oa)
                else case tenantFor (form_get rq ''passphrase'') of
                  None \<Rightarrow> (\<lparr>rs_status = 401, rs_headers = cors_headers rq,
                          rs_body = BText ''<p>Incorrect passphrase. <a href=\"javascript:history.back()\">Try again</a>.</p>''\<rparr>, oa)
                | Some tnt \<Rightarrow>
                    let (code, oa') = issueCode lib rnd now
                          (\<lparr>ac_clientID = form_get rq ''client_id'', ac_redirectURI = ru, ac_codeChallenge = challenge,
                           ac_scope = form_get rq ''scope'', ac_expiry = None, ac_tenant = tnt\<rparr>) oa
                    in case lib_parse lib ru of
                         None \<Rightarrow> (http_Error rq ''invalid_request: bad redirect_uri'' 400, oa')
                       | Some u \<Rightarrow>
                           let st = form_get rq ''state''
                           in (\<lparr>rs_status = 302,
                                rs_headers = cors_headers rq @
                                  [(''Location'', lib_setQuery lib ru
                                     ([(''code'', code)] @ (if st \<noteq> [] then [(''state'', st)] else [])))],
                                rs_body = BNone\<rparr>, oa'))"

definition emitTokens :: "golib \<Rightarrow> request \<Rightarrow> gostring \<Rightarrow> tenant \<Rightarrow> int \<Rightarrow> int \<Rightarrow> oauthProvider \<Rightarrow> response" where
  "emitTokens lib rq subject tnt nowA nowR oa =
     writeJSON rq 200
       [(''access_token'', JStr (signToken lib oa subject ''access'' accessTokenTTL tnt nowA)),
        (''refresh_token'', JStr (signToken lib oa subject ''refresh'' refreshTokenTTL tnt nowR)),
        (''token_type'', JStr ''Bearer''),
        (''expires_in'', JInt (accessTokenTTL div 10 ^ 9)),
        (''scope'', JStr ''mcp'')]"

definition invalid_grant :: "request \<Rightarrow> gostring \<Rightarrow> response" where
  "invalid_grant rq desc =
     writeJSON rq 400 ([(''error'', JStr ''invalid_grant'')] @ (if desc = [] then [] else [(''error_description'', JStr desc)]))"

definition handleToken ::
  "golib \<Rightarrow> int \<Rightarrow> int \<Rightarrow> int \<Rightarrow> request \<Rightarrow> oauthProvider \<Rightarrow> response \<times> oauthProvider" where
  "handleToken lib now nowA nowR rq oa =
     (case cors rq of Some r \<Rightarrow> (r, oa)
      | None \<Rightarrow>
          if form_get rq ''grant_type'' = ''authorization_code''
          then case consumeCode now (form_get rq ''code'') oa of
                 (None, oa') \<Rightarrow> (invalid_grant rq [], oa')
               | (Some c, oa') \<Rightarrow>
                   if ac_redirectURI c \<noteq> [] \<and> form_get rq ''redirect_uri'' \<noteq> ac_redirectURI c
                   then (invalid_grant rq ''redirect_uri mismatch'', oa')
                   else if ac_clientID c \<noteq> [] \<and> form_get rq ''client_id'' \<noteq> ac_clientID c
                   then (invalid_grant rq ''client_id mismatch'', oa')
                   else if \<not> verifyPKCE lib (form_get rq ''code_verifier'') (ac_codeChallenge c)
                   then (invalid_grant rq ''PKCE verification failed'', oa')
                   else (emitTokens lib rq ''owner'' (ac_tenant c) nowA nowR oa', oa')
          else if form_get rq ''grant_type'' = ''refresh_token''
          then case verifyToken lib oa (form_get rq ''refresh_token'') ''refresh'' now of
                 None \<Rightarrow> (invalid_grant rq [], oa)
               | Some cl \<Rightarrow> (emitTokens lib rq (cl_Sub cl) (cl_Tnt cl) nowA nowR oa, oa)
          else (writeJSON rq 400 [(''error'', JStr ''unsupported_grant_type'')], oa))"

definition wwwAuthenticate :: "oauthProvider \<Rightarrow> gostring" where
  "wwwAuthenticate oa = ''Bearer resource_metadata=\"'' @ oa_issuer oa @ ''/.well-known/oauth-protected-resource\"''"

text \<open>The tenant of an HTTP request: \<open>srvTenant\<close> is the server's default tenant.\<close>

definition resolveTenant ::
  "golib \<Rightarrow> token_registry \<Rightarrow> oauthProvider option \<Rightarrow> gostring \<Rightarrow> tenant \<Rightarrow> gostring \<Rightarrow> int \<Rightarrow> tenant option" where
  "resolveTenant lib tokens oauth srvToken srvTenant auth now =
     (let bearer =
        (if prefix ''Bearer '' auth
         then let secret = trim_prefix ''Bearer '' auth
              in case token_Tenant tokens secret of
                   Some t \<Rightarrow> Some t
                 | None \<Rightarrow>
                     case oauth of None \<Rightarrow> None
                     | Some oa \<Rightarrow>
                         case verifyToken lib oa secret ''access'' now of None \<Rightarrow> None
                         | Some cl \<Rightarrow> Some (if cl_Tnt cl \<noteq> 0 then cl_Tnt cl else srvTenant)
         else None)
      in case bearer of
           Some t \<Rightarrow> Some t
         | None \<Rightarrow> if srvToken = [] \<and> oauth = None \<and> tokens = [] then Some srvTenant else None)"

section \<open>Runs of the endpoints that touch the codes\<close>

datatype oauth_step =
  SAuthorize gostring int request
| SToken int int int request

fun oauth_do :: "golib \<Rightarrow> (gostring \<Rightarrow> tenant option) \<Rightarrow> oauth_step \<Rightarrow> oauthProvider \<Rightarrow> response \<times> oauthProvider" where
  "oauth_do lib tf (SAuthorize rnd now rq) oa = handleAuthorize lib tf rnd now rq oa"
| "oauth_do lib tf (SToken now nowA nowR rq) oa = handleToken lib now nowA nowR rq oa"

fun oauth_run :: "golib \<Rightarrow> (gostring \<Rightarrow> tenant option) \<Rightarrow> oauth_step list \<Rightarrow> oauthProvider \<Rightarrow> oauthProvider" where
  "oauth_run lib tf [] oa = oa"
| "oauth_run lib tf (s # ss) oa = oauth_run lib tf ss (snd (oauth_do lib tf s oa))"

text \<open>The step is a submitted consent form, with a passphrase of the code's tenant, that issued the code.\<close>

fun consented :: "golib \<Rightarrow> (gostring \<Rightarrow> tenant option) \<Rightarrow> oauthProvider \<Rightarrow> gostring \<Rightarrow> authCode \<Rightarrow> oauth_step \<Rightarrow> bool" where
  "consented lib tf oa code c (SAuthorize rnd now rq) \<longleftrightarrow>
     rq_method rq \<noteq> ''OPTIONS'' \<and> rq_method rq \<noteq> ''GET'' \<and>
     tf (form_get rq ''passphrase'') = Some (ac_tenant c) \<and>
     ac_redirectURI c = form_get rq ''redirect_uri'' \<and> ac_redirectURI c \<noteq> [] \<and> allowedRedirect lib oa (ac_redirectURI c) \<and>
     ac_codeChallenge c = form_get rq ''code_challenge'' \<and> ac_codeChallenge c \<noteq> [] \<and>
     form_get rq ''code_challenge_method'' = ''S256'' \<and>
     ac_clientID c = form_get rq ''client_id'' \<and> ac_expiry c = Some (now + authCodeTTL) \<and>
     code = randToken lib rnd"
| "consented lib tf oa code c (SToken _ _ _ _) \<longleftrightarrow> False"

fun redeems :: "gostring \<Rightarrow> oauth_step \<Rightarrow> bool" where
  "redeems code (SAuthorize _ _ _) \<longleftrightarrow> False"
| "redeems code (SToken _ _ _ rq) \<longleftrightarrow> rq_method rq \<noteq> ''OPTIONS'' \<and>
     form_get rq ''grant_type'' = ''authorization_code'' \<and> form_get rq ''code'' = code"

section \<open>Lemmas\<close>

text \<open>Only the codes change: the configuration is the same all along a run.\<close>

definition same_config :: "oauthProvider \<Rightarrow> oauthProvider \<Rightarrow> bool" where
  "same_config oa oa' \<longleftrightarrow> oa_issuer oa' = oa_issuer oa \<and> oa_signKey oa' = oa_signKey oa \<and> oa_extraHosts oa' = oa_extraHosts oa"

lemma same_config_refl [simp]: "same_config oa oa" and same_config_codes [simp]: "same_config oa (oa\<lparr>oa_codes := cs\<rparr>)"
  by (simp_all add: same_config_def)

lemma same_config_trans: "same_config a b \<Longrightarrow> same_config b c \<Longrightarrow> same_config a c"
  by (simp add: same_config_def)

lemma allowedRedirect_config: "same_config oa oa' \<Longrightarrow> allowedRedirect lib oa' raw = allowedRedirect lib oa raw"
  by (simp add: allowedRedirect_def same_config_def split: option.split)

lemma consented_config: "same_config oa oa' \<Longrightarrow> consented lib tf oa' code c s = consented lib tf oa code c s"
  by (cases s) (simp_all add: allowedRedirect_config)

lemma signToken_config: "same_config oa oa' \<Longrightarrow> signToken lib oa' sub kind ttl t now = signToken lib oa sub kind ttl t now"
  by (simp add: signToken_def token_claims_def same_config_def)

lemma emitTokens_config: "same_config oa oa' \<Longrightarrow> emitTokens lib rq sub t nA nR oa' = emitTokens lib rq sub t nA nR oa"
  by (simp add: emitTokens_def signToken_config)

lemma consumeCode_state: "snd (consumeCode now code oa) = oa\<lparr>oa_codes := AList.delete code (oa_codes oa)\<rparr>"
proof (cases "map_of (oa_codes oa) code")
  case None
  then have "AList.delete code (oa_codes oa) = oa_codes oa"
    by (simp add: map_of_eq_None_iff delete_idem)
  then show ?thesis using None by (simp add: consumeCode_def)
qed (simp add: consumeCode_def Let_def split: option.split)

lemma consumeCode_Some:
  "fst (consumeCode now code oa) = Some c \<Longrightarrow>
     map_of (oa_codes oa) code = Some c \<and> (\<exists>e. ac_expiry c = Some e \<and> now \<le> e)"
  by (auto simp: consumeCode_def Let_def split: option.splits if_splits)

lemma handleToken_state:
  "snd (handleToken lib now nA nR rq oa) =
     (if rq_method rq \<noteq> ''OPTIONS'' \<and> form_get rq ''grant_type'' = ''authorization_code''
      then oa\<lparr>oa_codes := AList.delete (form_get rq ''code'') (oa_codes oa)\<rparr> else oa)"
proof (cases "rq_method rq \<noteq> ''OPTIONS'' \<and> form_get rq ''grant_type'' = ''authorization_code''")
  case True
  obtain x oa' where c: "consumeCode now (form_get rq ''code'') oa = (x, oa')" by (cases "consumeCode now (form_get rq ''code'') oa")
  have "snd (handleToken lib now nA nR rq oa) = oa'"
    using True by (cases x) (simp_all add: handleToken_def cors_def c)
  moreover have "oa' = oa\<lparr>oa_codes := AList.delete (form_get rq ''code'') (oa_codes oa)\<rparr>"
    using consumeCode_state [of now "form_get rq ''code''" oa] c by simp
  ultimately show ?thesis using True by simp
next
  case False
  have "snd (handleToken lib now nA nR rq oa) = oa"
  proof (cases "rq_method rq = ''OPTIONS''")
    case True
    then show ?thesis by (simp add: handleToken_def cors_def)
  next
    case no: False
    then have "form_get rq ''grant_type'' \<noteq> ''authorization_code''" using False by simp
    then show ?thesis using no by (simp add: handleToken_def cors_def split: option.split)
  qed
  then show ?thesis unfolding if_not_P [OF False] .
qed

lemma handleAuthorize_state:
  "snd (handleAuthorize lib tf rnd now rq oa) = oa \<or>
   (\<exists>c. consented lib tf oa (randToken lib rnd) c (SAuthorize rnd now rq) \<and>
        snd (handleAuthorize lib tf rnd now rq oa) = oa\<lparr>oa_codes := AList.update (randToken lib rnd) c (oa_codes oa)\<rparr>)"
proof (cases "rq_method rq = ''OPTIONS'' \<or> form_get rq ''redirect_uri'' = [] \<or>
    \<not> allowedRedirect lib oa (form_get rq ''redirect_uri'') \<or> rq_method rq = ''GET'' \<or>
    form_get rq ''code_challenge'' = [] \<or> form_get rq ''code_challenge_method'' \<noteq> ''S256'' \<or>
    tf (form_get rq ''passphrase'') = None")
  case True
  then have "snd (handleAuthorize lib tf rnd now rq oa) = oa"
    unfolding handleAuthorize_def cors_def Let_def by (elim disjE) (simp_all split: option.split)
  then show ?thesis ..
next
  case False
  then obtain tnt where t: "tf (form_get rq ''passphrase'') = Some tnt" by auto
  let ?c = "\<lparr>ac_clientID = form_get rq ''client_id'', ac_redirectURI = form_get rq ''redirect_uri'',
    ac_codeChallenge = form_get rq ''code_challenge'', ac_scope = form_get rq ''scope'',
    ac_expiry = Some (now + authCodeTTL), ac_tenant = tnt\<rparr>"
  have "snd (handleAuthorize lib tf rnd now rq oa) = oa\<lparr>oa_codes := AList.update (randToken lib rnd) ?c (oa_codes oa)\<rparr>"
    using False t by (simp add: handleAuthorize_def cors_def Let_def issueCode_def split: option.split)
  moreover have "consented lib tf oa (randToken lib rnd) ?c (SAuthorize rnd now rq)" using False t by simp
  ultimately show ?thesis by blast
qed

lemma handleAuthorize_codes:
  "map_of (oa_codes (snd (handleAuthorize lib tf rnd now rq oa))) code = Some c \<Longrightarrow>
     consented lib tf oa code c (SAuthorize rnd now rq) \<or> map_of (oa_codes oa) code = Some c"
  using handleAuthorize_state [of lib tf rnd now rq oa] by (auto simp: update_conv' split: if_splits)

lemma handleAuthorize_config: "same_config oa (snd (handleAuthorize lib tf rnd now rq oa))"
  using handleAuthorize_state [of lib tf rnd now rq oa] by (auto simp: same_config_def)

lemma do_config: "same_config oa (snd (oauth_do lib tf s oa))"
  by (cases s) (simp_all add: handleAuthorize_config handleToken_state)

lemma run_config: "same_config oa (oauth_run lib tf xs oa)"
proof (induction xs arbitrary: oa)
  case (Cons s xs)
  show ?case using same_config_trans [OF do_config [of oa lib tf s] Cons.IH] by simp
qed simp

lemma run_snoc: "oauth_run lib tf (xs @ [s]) oa = snd (oauth_do lib tf s (oauth_run lib tf xs oa))"
  by (induction xs arbitrary: oa) auto

lemma do_codes:
  assumes "map_of (oa_codes (snd (oauth_do lib tf s oa))) code = Some c"
  shows "consented lib tf oa code c s \<or> (map_of (oa_codes oa) code = Some c \<and> \<not> redeems code s)"
proof (cases s)
  case (SAuthorize rnd now rq)
  then show ?thesis using handleAuthorize_codes assms by force
next
  case (SToken now nA nR rq)
  then show ?thesis using assms by (auto simp: handleToken_state delete_conv' split: if_splits)
qed

text \<open>A stored code was issued by a consent, and not presented since.\<close>

lemma stored_code:
  assumes "oa_codes oa = []" and "map_of (oa_codes (oauth_run lib tf xs oa)) code = Some c"
  shows "\<exists>j < length xs. consented lib tf oa code c (xs ! j) \<and> (\<forall>k. j < k \<and> k < length xs \<longrightarrow> \<not> redeems code (xs ! k))"
  using assms(2)
proof (induction xs rule: rev_induct)
  case Nil
  then show ?case using assms(1) by simp
next
  case (snoc s xs)
  from do_codes [OF snoc.prems [unfolded run_snoc]]
  consider "consented lib tf oa code c s" | "map_of (oa_codes (oauth_run lib tf xs oa)) code = Some c" "\<not> redeems code s"
    using consented_config [OF run_config] by blast
  then show ?case
  proof cases
    case 1
    then show ?thesis by (intro exI [of _ "length xs"]) auto
  next
    case 2
    from snoc.IH [OF 2(1)] obtain j where j: "j < length xs" "consented lib tf oa code c (xs ! j)"
      "\<forall>k. j < k \<and> k < length xs \<longrightarrow> \<not> redeems code (xs ! k)" by blast
    have "\<not> redeems code ((xs @ [s]) ! k)" if "j < k" "k < length (xs @ [s])" for k
      using j(3) 2(2) that by (cases "k = length xs") (auto simp: nth_append)
    then show ?thesis using j(1,2) by (intro exI [of _ j]) (auto simp: nth_append)
  qed
qed

text \<open>The only way to 200 for a code: it is stored and unexpired, and every binding holds.\<close>

lemma handleToken_200:
  assumes "rs_status (fst (handleToken lib now nA nR rq oa)) = 200"
    and "form_get rq ''grant_type'' = ''authorization_code''"
  shows "\<exists>c e. map_of (oa_codes oa) (form_get rq ''code'') = Some c \<and> ac_expiry c = Some e \<and> now \<le> e \<and>
     (ac_redirectURI c = [] \<or> form_get rq ''redirect_uri'' = ac_redirectURI c) \<and>
     (ac_clientID c = [] \<or> form_get rq ''client_id'' = ac_clientID c) \<and>
     verifyPKCE lib (form_get rq ''code_verifier'') (ac_codeChallenge c) \<and>
     fst (handleToken lib now nA nR rq oa) = emitTokens lib rq ''owner'' (ac_tenant c) nA nR oa"
proof -
  let ?code = "form_get rq ''code''"
  have m: "rq_method rq \<noteq> ''OPTIONS''" using assms(1) by (auto simp: handleToken_def cors_def)
  obtain c oa' where c: "consumeCode now ?code oa = (Some c, oa')"
  proof (cases "consumeCode now ?code oa")
    case (Pair x oa')
    then show ?thesis using that assms m
      by (cases x) (auto simp: handleToken_def cors_def invalid_grant_def writeJSON_def)
  qed
  then have st: "map_of (oa_codes oa) ?code = Some c \<and> (\<exists>e. ac_expiry c = Some e \<and> now \<le> e)"
    using consumeCode_Some [of now ?code oa c] by simp
  have cfg: "same_config oa oa'" using consumeCode_state [of now ?code oa] c by simp
  show ?thesis using assms m c st emitTokens_config [OF cfg]
    by (auto simp: handleToken_def cors_def invalid_grant_def writeJSON_def split: if_splits)
qed

text \<open>The text of a token splits into its three parts, as none of them has a dot.\<close>

definition dotless :: "golib \<Rightarrow> bool" where
  "dotless lib \<longleftrightarrow> (\<forall>y. CHR ''.'' \<notin> set (lib_b64 lib y))"

lemma split_token:
  "CHR ''.'' \<notin> set a \<Longrightarrow> CHR ''.'' \<notin> set b \<Longrightarrow> CHR ''.'' \<notin> set c \<Longrightarrow>
     split_on CHR ''.'' ((a @ ''.'' @ b) @ ''.'' @ c) = [a, b, c]"
  by (simp add: split_on_append split_on_none)

text \<open>What the encoders must do on the claims of the token at hand.\<close>

definition decodes :: "golib \<Rightarrow> jwtClaims \<Rightarrow> bool" where
  "decodes lib cl \<longleftrightarrow> lib_unb64 lib (lib_b64 lib (lib_marshal lib cl)) = Some (lib_marshal lib cl) \<and>
     lib_unmarshal lib (lib_marshal lib cl) = Some cl"

lemma verify_signed:
  assumes "dotless lib" and "decodes lib (token_claims oa sub kind ttl t now)"
  shows "verifyToken lib oa (signToken lib oa sub kind ttl t now) kind' now' =
     (if kind' = kind \<and> unix now' < unix (now + ttl) then Some (token_claims oa sub kind ttl t now) else None)"
proof -
  define cl where "cl = token_claims oa sub kind ttl t now"
  define a where "a = lib_b64 lib jwt_header"
  define b where "b = lib_b64 lib (lib_marshal lib cl)"
  define c where "c = lib_b64 lib (lib_hmac lib (oa_signKey oa) (a @ ''.'' @ b))"
  have "signToken lib oa sub kind ttl t now = (a @ ''.'' @ b) @ ''.'' @ c"
    by (simp add: signToken_def Let_def a_def b_def c_def cl_def)
  moreover have "split_on CHR ''.'' ((a @ ''.'' @ b) @ ''.'' @ c) = [a, b, c]"
    by (rule split_token) (use assms(1) in \<open>simp_all add: dotless_def a_def b_def c_def\<close>)
  moreover have "lib_unb64 lib b = Some (lib_marshal lib cl)" "lib_unmarshal lib (lib_marshal lib cl) = Some cl"
    using assms(2) by (simp_all add: decodes_def b_def cl_def)
  ultimately have "verifyToken lib oa (signToken lib oa sub kind ttl t now) kind' now' =
      (if cl_Kind cl \<noteq> kind' \<or> cl_Iss cl \<noteq> oa_issuer oa \<or> unix now' \<ge> cl_Exp cl then None else Some cl)"
    by (simp add: verifyToken_def Let_def c_def)
  then show ?thesis by (auto simp: cl_def token_claims_def)
qed

lemma split_on_join: "join_with [c] (split_on c s) = s"
proof (induction s)
  case (Cons x s)
  obtain y ys where "split_on c s = y # ys" by (cases "split_on c s") auto
  then show ?case using Cons by (cases ys) auto
qed simp

lemma verifyToken_Some:
  assumes "verifyToken lib oa tok kind now = Some cl"
  shows "\<exists>h p cb. tok = h @ ''.'' @ p @ ''.'' @ lib_b64 lib (lib_hmac lib (oa_signKey oa) (h @ ''.'' @ p)) \<and>
     lib_unb64 lib p = Some cb \<and> lib_unmarshal lib cb = Some cl \<and>
     cl_Kind cl = kind \<and> cl_Iss cl = oa_issuer oa \<and> unix now < cl_Exp cl"
proof -
  obtain h p g where sp: "split_on CHR ''.'' tok = [h, p, g]"
    using assms by (auto simp: verifyToken_def split: list.splits)
  then have "tok = h @ ''.'' @ p @ ''.'' @ g" using split_on_join [of "CHR ''.''" tok] by simp
  then show ?thesis using assms sp
    by (auto simp: verifyToken_def Let_def split: if_splits option.splits)
qed

lemma code_grant_facts:
  assumes "oa0 = setExtraRedirectHosts hosts (newOAuth lib issuer secret)"
    and "fst (handleToken lib now nowA nowR rq (oauth_run lib tf xs oa0)) = r" and "rs_status r = 200"
    and "form_get rq ''grant_type'' = ''authorization_code''"
  shows "\<exists>j < length xs. \<exists>c issued.
     (\<exists>rnd at q. xs ! j = SAuthorize rnd at q) \<and> consented lib tf oa0 (form_get rq ''code'') c (xs ! j) \<and>
     (\<forall>k. j < k \<and> k < length xs \<longrightarrow> \<not> redeems (form_get rq ''code'') (xs ! k)) \<and>
     ac_expiry c = Some (issued + authCodeTTL) \<and> now \<le> issued + authCodeTTL \<and>
     form_get rq ''redirect_uri'' = ac_redirectURI c \<and>
     (ac_clientID c = [] \<or> form_get rq ''client_id'' = ac_clientID c) \<and>
     lib_b64 lib (lib_sha256 lib (form_get rq ''code_verifier'')) = ac_codeChallenge c \<and>
     r = emitTokens lib rq ''owner'' (ac_tenant c) nowA nowR oa0"
proof -
  let ?oa = "oauth_run lib tf xs oa0"
  have "oa_codes oa0 = []" by (simp add: assms(1) setExtraRedirectHosts_def newOAuth_def)
  moreover from handleToken_200 [of lib now nowA nowR rq ?oa] assms(2-4)
  obtain c e where c: "map_of (oa_codes ?oa) (form_get rq ''code'') = Some c" "ac_expiry c = Some e" "now \<le> e"
    "ac_redirectURI c = [] \<or> form_get rq ''redirect_uri'' = ac_redirectURI c"
    "ac_clientID c = [] \<or> form_get rq ''client_id'' = ac_clientID c"
    "verifyPKCE lib (form_get rq ''code_verifier'') (ac_codeChallenge c)"
    "r = emitTokens lib rq ''owner'' (ac_tenant c) nowA nowR ?oa" by blast
  ultimately obtain j where j: "j < length xs" "consented lib tf oa0 (form_get rq ''code'') c (xs ! j)"
    "\<forall>k. j < k \<and> k < length xs \<longrightarrow> \<not> redeems (form_get rq ''code'') (xs ! k)" using stored_code by blast
  obtain rnd at q where xj: "xs ! j = SAuthorize rnd at q" using j(2) by (cases "xs ! j") auto
  then have "ac_expiry c = Some (at + authCodeTTL)" "ac_redirectURI c \<noteq> []" using j(2) by auto
  then show ?thesis using j c emitTokens_config [OF run_config]
    unfolding verifyPKCE_def by (intro exI [of _ j] conjI exI [of _ c] exI [of _ at]) (use xj in auto)
qed

lemma registry_zero:
  assumes "loadTokenRegistry (TeamEntries teams) owner t0 = Inr reg" and "token_Tenant reg s = Some t"
  shows "t \<noteq> 0 \<or> t0 = 0"
proof -
  define r0 where "r0 = (if owner \<noteq> [] then [\<lparr>te_Secret = owner, te_Tenant = t0, te_Label = ''owner''\<rparr>] else [])"
  have "load_teams owner teams {} r0 = Inr reg" using assms(1) by (simp add: loadTokenRegistry_def Let_def r0_def)
  note sp = load_teams_spec [OF this]
  have "find_tenant s reg = Some t" using assms(2) by (simp add: token_Tenant_def split: if_splits)
  then have "t \<in> te_Tenant ` set reg" by (auto simp: find_tenant_map entry_map_def dest!: map_of_SomeD)
  then show ?thesis using sp by (auto simp: r0_def split: if_splits)
qed

lemma resolve_bearer:
  "token_Tenant tokens s = None \<Longrightarrow>
     resolveTenant lib tokens (Some oa) srvToken srvTenant (''Bearer '' @ s) now =
       map_option (\<lambda>cl. if cl_Tnt cl \<noteq> 0 then cl_Tnt cl else srvTenant) (verifyToken lib oa s ''access'' now)"
  unfolding resolveTenant_def trim_prefix_append by (simp split: option.split)

section \<open>A library instance for examples\<close>

text \<open>Base64 stands as a dot-free two-letter coding here, JSON as comma-separated fields.\<close>

definition demo_b64 :: "gostring \<Rightarrow> gostring" where
  "demo_b64 s = concat (map (\<lambda>c. if c = CHR ''.'' then ''db'' else [c, CHR ''a'']) s)"

fun demo_unb64 :: "gostring \<Rightarrow> gostring option" where
  "demo_unb64 [] = Some []"
| "demo_unb64 [x] = None"
| "demo_unb64 (x # y # s) = map_option (\<lambda>r. (if y = CHR ''b'' then CHR ''.'' else x) # r) (demo_unb64 s)"

definition demo_marshal :: "jwtClaims \<Rightarrow> gostring" where
  "demo_marshal cl = join_with '','' [cl_Sub cl, cl_Iss cl, cl_Kind cl, show_int (cl_Iat cl), show_int (cl_Exp cl), show_nat (unat (cl_Tnt cl))]"

definition demo_unmarshal :: "gostring \<Rightarrow> jwtClaims option" where
  "demo_unmarshal s =
     (case split_on CHR '','' s of
        [a, b, c, d, e, f] \<Rightarrow>
          (case (parse_uint64 d, parse_uint64 e, parse_uint64 f) of
             (Some d', Some e', Some f') \<Rightarrow>
               Some \<lparr>cl_Sub = a, cl_Iss = b, cl_Kind = c, cl_Iat = int d', cl_Exp = int e', cl_Tnt = of_nat f'\<rparr>
           | _ \<Rightarrow> None)
      | _ \<Rightarrow> None)"

definition demo_lib :: golib where
  "demo_lib =
     \<lparr>lib_sha256 = rev, lib_hmac = (\<lambda>k m. k @ rev m), lib_b64 = demo_b64, lib_unb64 = demo_unb64,
      lib_marshal = demo_marshal, lib_unmarshal = demo_unmarshal,
      lib_parse = (\<lambda>raw. if prefix ''https://claude.ai/'' raw
         then Some \<lparr>url_scheme = ''https'', url_host = ''claude.ai'', url_hostname = ''claude.ai'', url_user = False\<rparr> else None),
      lib_setQuery = (\<lambda>raw q. raw @ ''?'' @ concat (map (\<lambda>(k, v). k @ ''='' @ v @ ''&'') q))\<rparr>"

lemma demo_dotless: "dotless demo_lib"
  by (auto simp: dotless_def demo_lib_def demo_b64_def split: if_splits)

lemma demo_unb64_b64: "demo_unb64 (demo_b64 s) = Some s"
  by (induction s) (auto simp: demo_b64_def)

lemma show_no_comma: "CHR '','' \<notin> set (show_nat n)"
  by (auto dest!: show_nat_set simp: is_digit_def)

lemma demo_decodes:
  assumes "CHR '','' \<notin> set (cl_Sub cl)" "CHR '','' \<notin> set (cl_Iss cl)" "CHR '','' \<notin> set (cl_Kind cl)"
    and "0 \<le> cl_Iat cl" "cl_Iat cl < 2 ^ 64" "0 \<le> cl_Exp cl" "cl_Exp cl < 2 ^ 64"
  shows "decodes demo_lib cl"
proof -
  have "unat (cl_Tnt cl) < 2 ^ LENGTH(16)" by (rule unsigned_less)
  then have t: "unat (cl_Tnt cl) < 2 ^ 64" by simp
  have "split_on CHR '','' (demo_marshal cl) =
      [cl_Sub cl, cl_Iss cl, cl_Kind cl, show_nat (nat (cl_Iat cl)), show_nat (nat (cl_Exp cl)), show_nat (unat (cl_Tnt cl))]"
    using assms by (simp add: demo_marshal_def split_on_append split_on_none show_no_comma show_int_def)
  moreover have "nat (cl_Iat cl) < 2 ^ 64" "nat (cl_Exp cl) < 2 ^ 64" using assms by auto
  ultimately have "demo_unmarshal (demo_marshal cl) = Some cl"
    using assms t by (simp add: demo_unmarshal_def parse_show)
  then show ?thesis by (simp add: decodes_def demo_lib_def demo_unb64_b64)
qed

definition demo_consent :: oauth_step where
  "demo_consent = SAuthorize ''r'' 0
     \<lparr>rq_method = ''POST'', rq_origin = [],
      rq_form = [(''redirect_uri'', ''https://claude.ai/cb''), (''code_challenge'', ''va''),
        (''code_challenge_method'', ''S256''), (''client_id'', ''c''), (''passphrase'', ''own'')]\<rparr>"

definition demo_exchange :: request where
  "demo_exchange =
     \<lparr>rq_method = ''POST'', rq_origin = [],
      rq_form = [(''grant_type'', ''authorization_code''), (''code'', ''ra''), (''redirect_uri'', ''https://claude.ai/cb''),
        (''client_id'', ''c''), (''code_verifier'', ''v'')]\<rparr>"

lemma demo_status:
  assumes "tf ''own'' = Some 7"
  shows "rs_status (fst (handleToken demo_lib 1 2 3 demo_exchange
     (oauth_run demo_lib tf [demo_consent] (setExtraRedirectHosts [] (newOAuth demo_lib ''i'' ''k''))))) = 200"
proof -
  let ?c = "\<lparr>ac_clientID = ''c'', ac_redirectURI = ''https://claude.ai/cb'', ac_codeChallenge = ''va'', ac_scope = [],
     ac_expiry = Some authCodeTTL, ac_tenant = 7\<rparr>"
  let ?oa = "setExtraRedirectHosts [] (newOAuth demo_lib ''i'' ''k'')"
  have "oauth_run demo_lib tf [demo_consent] ?oa = ?oa\<lparr>oa_codes := [(''ra'', ?c)]\<rparr>"
    by (simp add: assms demo_consent_def handleAuthorize_def cors_def form_get_def allowedRedirect_def demo_lib_def Let_def
        issueCode_def randToken_def demo_b64_def setExtraRedirectHosts_def newOAuth_def)
  moreover have "fst (consumeCode 1 ''ra'' (?oa\<lparr>oa_codes := [(''ra'', ?c)]\<rparr>)) = Some ?c"
    by (simp add: consumeCode_def authCodeTTL_def)
  ultimately show ?thesis
    by (simp add: handleToken_def cors_def demo_exchange_def form_get_def split_beta verifyPKCE_def demo_lib_def demo_b64_def
        emitTokens_def writeJSON_def)
qed

section \<open>Properties\<close>



text \<open>Tokens verify exactly: a token the server signed is accepted under its own kind until it
  expires, with the claims it was signed for, and never under another kind; and anything accepted
  is the dot-joined header and payload with the HMAC of exactly these under the server's key, its
  claims of the asked kind, from this issuer, unexpired.\<close>
theorem token_exact:
  assumes "dotless lib" and "decodes lib (token_claims oa sub kind ttl t now)"
  shows "verifyToken lib oa (signToken lib oa sub kind ttl t now) kind' now' =
       (if kind' = kind \<and> unix now' < unix (now + ttl) then Some (token_claims oa sub kind ttl t now) else None) \<and>
     (\<forall>tok cl. verifyToken lib oa tok kind' now' = Some cl \<longrightarrow>
       (\<exists>h p. tok = h @ ''.'' @ p @ ''.'' @ lib_b64 lib (lib_hmac lib (oa_signKey oa) (h @ ''.'' @ p)) \<and>
          cl_Kind cl = kind' \<and> cl_Iss cl = oa_issuer oa \<and> unix now' < cl_Exp cl))"
  using verify_signed [OF assms] verifyToken_Some by blast

theorem token_exact_witness:
  "let oa = newOAuth demo_lib ''i'' ''k''; tok = signToken demo_lib oa ''owner'' ''access'' accessTokenTTL 7 0
   in verifyToken demo_lib oa tok ''access'' 1 = Some (token_claims oa ''owner'' ''access'' accessTokenTTL 7 0) \<and>
      verifyToken demo_lib oa tok ''refresh'' 1 = None"
proof -
  let ?oa = "newOAuth demo_lib ''i'' ''k''"
  have d: "decodes demo_lib (token_claims ?oa ''owner'' ''access'' accessTokenTTL 7 0)"
    by (rule demo_decodes) (simp_all add: token_claims_def newOAuth_def trim_right_char_def unix_def accessTokenTTL_def)
  have "unix 1 < unix (0 + accessTokenTTL)" by (simp add: unix_def accessTokenTTL_def)
  then show ?thesis
    using token_exact [OF demo_dotless d, of "''access''" 1] token_exact [OF demo_dotless d, of "''refresh''" 1]
    by (simp add: Let_def)
qed

text \<open>C9. From the consent to the tenant: when the passphrases are the secrets of the loaded registry,
  the access token granted for a code resolves, until it expires, to the tenant of the passphrase
  typed into the consent form the code came from, the server's own for the owner's; the refresh
  token granted with it is no bearer credential at all.\<close>
theorem consent_to_tenant:
  assumes reg: "loadTokenRegistry (TeamEntries teams) owner srvTenant = Inr reg"
    and oa0: "oa0 = setExtraRedirectHosts hosts (newOAuth lib issuer secret)"
    and r: "fst (handleToken lib now nowA nowR rq (oauth_run lib (token_Tenant reg) xs oa0)) = r" "rs_status r = 200"
      "form_get rq ''grant_type'' = ''authorization_code''"
    and lib: "dotless lib" "\<forall>t. decodes lib (token_claims oa0 ''owner'' ''access'' accessTokenTTL t nowA)"
      "\<forall>t. decodes lib (token_claims oa0 ''owner'' ''refresh'' refreshTokenTTL t nowR)"
    and fresh: "\<forall>kind ttl t n. token_Tenant reg (signToken lib oa0 ''owner'' kind ttl t n) = None"
    and time: "unix later < unix (nowA + accessTokenTTL)"
  shows "\<exists>j < length xs. \<exists>rnd at q access refresh.
     xs ! j = SAuthorize rnd at q \<and> randToken lib rnd = form_get rq ''code'' \<and>
     (\<exists>rest. rs_body r = BJson ((''access_token'', JStr access) # (''refresh_token'', JStr refresh) # rest)) \<and>
     token_Tenant reg (form_get q ''passphrase'') \<noteq> None \<and>
     resolveTenant lib reg (Some oa0) srvToken srvTenant (''Bearer '' @ access) later =
       token_Tenant reg (form_get q ''passphrase'') \<and>
     resolveTenant lib reg (Some oa0) srvToken srvTenant (''Bearer '' @ refresh) later = None"
proof -
  from code_grant_facts [OF oa0 r] obtain j c rnd at q where j: "j < length xs" "xs ! j = SAuthorize rnd at q"
    "consented lib (token_Tenant reg) oa0 (form_get rq ''code'') c (xs ! j)"
    "r = emitTokens lib rq ''owner'' (ac_tenant c) nowA nowR oa0" by blast
  let ?t = "ac_tenant c"
  define access where "access = signToken lib oa0 ''owner'' ''access'' accessTokenTTL ?t nowA"
  define refresh where "refresh = signToken lib oa0 ''owner'' ''refresh'' refreshTokenTTL ?t nowR"
  have p: "token_Tenant reg (form_get q ''passphrase'') = Some ?t" "randToken lib rnd = form_get rq ''code''"
    using j(2,3) by auto
  have zero: "?t \<noteq> 0 \<or> srvTenant = 0" using p(1) registry_zero [OF reg] by blast
  have "token_Tenant reg access = None" "token_Tenant reg refresh = None"
    using fresh unfolding access_def refresh_def by blast+
  note fr = this
  have "verifyToken lib oa0 access ''access'' later = Some (token_claims oa0 ''owner'' ''access'' accessTokenTTL ?t nowA)"
    using verify_signed [OF lib(1) lib(2) [rule_format], of ?t] time by (simp add: access_def)
  moreover have "verifyToken lib oa0 refresh ''access'' later = None"
    using verify_signed [OF lib(1) lib(3) [rule_format], of ?t] by (simp add: refresh_def)
  ultimately have res: "resolveTenant lib reg (Some oa0) srvToken srvTenant (''Bearer '' @ access) later = Some ?t"
    "resolveTenant lib reg (Some oa0) srvToken srvTenant (''Bearer '' @ refresh) later = None"
    using zero unfolding resolve_bearer [OF fr(1)]
      resolve_bearer [OF fr(2)] by (auto simp: token_claims_def)
  have "\<exists>rest. rs_body r = BJson ((''access_token'', JStr access) # (''refresh_token'', JStr refresh) # rest)"
    by (simp add: j(4) emitTokens_def writeJSON_def access_def refresh_def)
  then show ?thesis using j(1,2) p res by (metis option.distinct(1))
qed

theorem consent_to_tenant_witness:
  "\<exists>access reg. loadTokenRegistry (TeamEntries []) ''own'' 7 = Inr reg \<and>
     resolveTenant demo_lib reg (Some (newOAuth demo_lib ''i'' ''k'')) [] 7 (''Bearer '' @ access) 5 = Some 7"
proof -
  define reg where "reg = [\<lparr>te_Secret = ''own'', te_Tenant = 7 :: tenant, te_Label = ''owner''\<rparr>]"
  define oa where "oa = setExtraRedirectHosts [] (newOAuth demo_lib ''i'' ''k'')"
  have reg: "loadTokenRegistry (TeamEntries []) ''own'' 7 = Inr reg" by (simp add: loadTokenRegistry_def Let_def reg_def)
  have own: "token_Tenant reg ''own'' = Some 7" by (simp add: reg_def token_Tenant_def)
  have st: "rs_status (fst (handleToken demo_lib 1 2 3 demo_exchange (oauth_run demo_lib (token_Tenant reg) [demo_consent] oa))) = 200"
    unfolding oa_def using own by (rule demo_status [of "token_Tenant reg"])
  have gt: "form_get demo_exchange ''grant_type'' = ''authorization_code''" by (simp add: demo_exchange_def form_get_def)
  have d: "\<forall>t. decodes demo_lib (token_claims oa ''owner'' ''access'' accessTokenTTL t 2)"
    "\<forall>t. decodes demo_lib (token_claims oa ''owner'' ''refresh'' refreshTokenTTL t 3)"
    by (auto intro!: demo_decodes simp: oa_def setExtraRedirectHosts_def token_claims_def newOAuth_def trim_right_char_def
        unix_def accessTokenTTL_def refreshTokenTTL_def)
  have "token_Tenant reg (signToken demo_lib oa u k l t n) = None" for u k l t n
  proof -
    have dot: "CHR ''.'' \<in> set (signToken demo_lib oa u k l t n)" by (simp add: signToken_def Let_def)
    have "signToken demo_lib oa u k l t n \<noteq> ''own''"
    proof
      assume "signToken demo_lib oa u k l t n = ''own''"
      from dot [unfolded this] show False by simp
    qed
    then show ?thesis by (simp add: reg_def token_Tenant_def)
  qed
  then have fresh: "\<forall>kind ttl t n. token_Tenant reg (signToken demo_lib oa ''owner'' kind ttl t n) = None" by simp
  have t: "unix 5 < unix (2 + accessTokenTTL)" by (simp add: unix_def accessTokenTTL_def)
  from consent_to_tenant [OF reg oa_def refl st gt demo_dotless d fresh t, of "[]"]
  obtain access q where "token_Tenant reg (form_get q ''passphrase'') \<noteq> None"
    "resolveTenant demo_lib reg (Some oa) [] 7 (''Bearer '' @ access) 5 = token_Tenant reg (form_get q ''passphrase'')"
    by blast
  then have "resolveTenant demo_lib reg (Some oa) [] 7 (''Bearer '' @ access) 5 = Some 7"
    by (auto simp: reg_def token_Tenant_def split: if_splits)
  moreover have "oa = newOAuth demo_lib ''i'' ''k''" by (simp add: oa_def setExtraRedirectHosts_def newOAuth_def)
  ultimately show ?thesis using reg by blast
qed

end
