(* ===== verification/ToolArgs.thy ===== *)
theory ToolArgs
  imports Complex_Main Strings
begin

text \<open>
  The arguments of a tool call and what the handlers of \<^verbatim>\<open>cmd/sentrymcp/main.go\<close> read from them: strings,
  numbers, lists, and the durations of \<^verbatim>\<open>ttl\<close> and \<^verbatim>\<open>deadline\<close>, with Go's \<^verbatim>\<open>strconv.Atoi\<close> and
  \<^verbatim>\<open>time.ParseDuration\<close>. Durations are int64 nanoseconds, so products and sums wrap around.
\<close>

section \<open>Values\<close>

text \<open>A JSON number is decoded to a float64, here its exact value; \<open>JNumber\<close> is a \<^verbatim>\<open>json.Number\<close> with its \<^verbatim>\<open>Int64()\<close>.\<close>

datatype jval = JStr gostring | JNum rat | JNumber "int option" | JBool bool | JArr "jval list" | JObj | JNull

type_synonym targs = "gostring \<rightharpoonup> jval"

definition wrap64 :: "int \<Rightarrow> int" where
  "wrap64 x = (x + 2 ^ 63) mod 2 ^ 64 - 2 ^ 63"

lemma wrap64_id: "- (2 ^ 63) \<le> x \<Longrightarrow> x < 2 ^ 63 \<Longrightarrow> wrap64 x = x"
  by (simp add: wrap64_def)

lemma wrap64_range: "- (2 ^ 63) \<le> wrap64 x \<and> wrap64 x < 2 ^ 63"
  by (simp add: wrap64_def)

text \<open>Conversions truncate; out of range Go leaves the result to the implementation (amd64 is written here).\<close>

definition f64_to_u64 :: "rat \<Rightarrow> nat" where
  "f64_to_u64 v = (if v < 2 ^ 64 then nat \<lfloor>v\<rfloor> else 2 ^ 63)"

definition f64_to_i64 :: "rat \<Rightarrow> int" where
  "f64_to_i64 v =
     (let i = (if v < 0 then \<lceil>v\<rceil> else \<lfloor>v\<rfloor>) in if - (2 ^ 63) \<le> i \<and> i < 2 ^ 63 then i else - (2 ^ 63))"

section \<open>Arguments\<close>

definition strArg :: "targs \<Rightarrow> gostring \<Rightarrow> gostring \<times> bool" where
  "strArg args key = (case args key of Some (JStr s) \<Rightarrow> (s, True) | _ \<Rightarrow> ([], False))"

definition numArg :: "targs \<Rightarrow> gostring \<Rightarrow> rat \<times> bool" where
  "numArg args key = (case args key of Some (JNum v) \<Rightarrow> (v, True) | _ \<Rightarrow> (0, False))"

definition boolArg :: "targs \<Rightarrow> gostring \<Rightarrow> bool" where
  "boolArg args key = (case args key of Some (JBool b) \<Rightarrow> b | _ \<Rightarrow> False)"

definition uintArg :: "targs \<Rightarrow> gostring \<Rightarrow> nat" where
  "uintArg args key =
     (case args key of
        Some (JNum v) \<Rightarrow> if v > 0 then f64_to_u64 v else 0
      | Some (JNumber (Some n)) \<Rightarrow> if n > 0 then nat n else 0
      | _ \<Rightarrow> 0)"

fun nonempty_strings :: "jval list \<Rightarrow> gostring list" where
  "nonempty_strings [] = []"
| "nonempty_strings (v # vs) =
     (case v of JStr s \<Rightarrow> if s \<noteq> [] then s # nonempty_strings vs else nonempty_strings vs | _ \<Rightarrow> nonempty_strings vs)"

definition pathArgs :: "targs \<Rightarrow> gostring list" where
  "pathArgs args =
     (case strArg args ''path'' of (p, ok) \<Rightarrow> if ok \<and> p \<noteq> [] then [p] else []) @
     (case args ''paths'' of Some (JArr vs) \<Rightarrow> nonempty_strings vs | _ \<Rightarrow> [])"

definition stringsArg :: "targs \<Rightarrow> gostring \<Rightarrow> gostring list" where
  "stringsArg args key = (case args key of Some (JArr vs) \<Rightarrow> nonempty_strings vs | _ \<Rightarrow> [])"

section \<open>Durations\<close>

definition atoi :: "gostring \<Rightarrow> int option" where
  "atoi s =
     (let neg = (case s of c # _ \<Rightarrow> c = CHR ''-'' | [] \<Rightarrow> False);
          ds = (case s of c # r \<Rightarrow> if c = CHR ''-'' \<or> c = CHR ''+'' then r else s | [] \<Rightarrow> s);
          n = (if neg then - int (digits_val ds) else int (digits_val ds))
      in if ds \<noteq> [] \<and> list_all is_digit ds \<and> - (2 ^ 63) \<le> n \<and> n < 2 ^ 63 then Some n else None)"

definition unit_of :: "gostring \<Rightarrow> nat option" where
  "unit_of u =
     (if u = ''ns'' then Some 1
      else if u = ''us'' \<or> u = [CHR 0xC2, CHR 0xB5, CHR ''s''] \<or> u = [CHR 0xCE, CHR 0xBC, CHR ''s''] then Some 1000
      else if u = ''ms'' then Some 1000000
      else if u = ''s'' then Some 1000000000
      else if u = ''m'' then Some 60000000000
      else if u = ''h'' then Some 3600000000000 else None)"

text \<open>\<^verbatim>\<open>leadingFraction\<close>: value and scale; digits past the overflow are skipped.\<close>

fun fraction_digits :: "gostring \<Rightarrow> nat \<Rightarrow> nat \<Rightarrow> bool \<Rightarrow> nat \<times> nat" where
  "fraction_digits [] x scale ovf = (x, scale)"
| "fraction_digits (c # cs) x scale ovf =
     (if ovf \<or> x > (2 ^ 63 - 1) div 10 \<or> x * 10 + (of_char c - 48) > 2 ^ 63 then fraction_digits cs x scale True
      else fraction_digits cs (x * 10 + (of_char c - 48)) (scale * 10) False)"

text \<open>One number with its unit, and the rest. The product with the fraction is taken exactly.\<close>

definition parse_one :: "gostring \<Rightarrow> (nat \<times> gostring) option" where
  "parse_one s =
     (let ds = takeWhile is_digit s; v = digits_val ds; s1 = dropWhile is_digit s;
          dot = (case s1 of c # _ \<Rightarrow> c = CHR ''.'' | [] \<Rightarrow> False);
          fs = (if dot then takeWhile is_digit (tl s1) else []);
          s2 = (if dot then dropWhile is_digit (tl s1) else s1);
          u = takeWhile (\<lambda>c. c \<noteq> CHR ''.'' \<and> \<not> is_digit c) s2;
          s3 = dropWhile (\<lambda>c. c \<noteq> CHR ''.'' \<and> \<not> is_digit c) s2
      in if v > 2 ^ 63 \<or> (ds = [] \<and> fs = []) \<or> u = [] then None
         else case unit_of u of None \<Rightarrow> None
              | Some unit \<Rightarrow>
                  if v > 2 ^ 63 div unit then None
                  else (case fraction_digits fs 0 1 False of (f, scale) \<Rightarrow>
                          if f > 0 \<and> v * unit + f * unit div scale > 2 ^ 63 then None
                          else Some (v * unit + f * unit div scale, s3)))"

lemma parse_one_shorter [termination_simp]: "parse_one s = Some (v, r) \<Longrightarrow> length r < length s"
proof -
  assume p: "parse_one s = Some (v, r)"
  define s1 where "s1 = dropWhile is_digit s"
  define s2 where "s2 = (if (case s1 of c # _ \<Rightarrow> c = CHR ''.'' | [] \<Rightarrow> False) then dropWhile is_digit (tl s1) else s1)"
  let ?p = "\<lambda>c. c \<noteq> CHR ''.'' \<and> \<not> is_digit c"
  have r: "r = dropWhile ?p s2" "takeWhile ?p s2 \<noteq> []"
    using p by (auto simp: parse_one_def Let_def s1_def s2_def split: if_splits option.splits prod.splits)
  have "length s2 \<le> length s1"
    using length_dropWhile_le [of is_digit "tl s1"] by (auto simp: s2_def)
  also have "length s1 \<le> length s" by (simp add: s1_def length_dropWhile_le)
  finally have "length s2 \<le> length s" .
  moreover have "length r < length s2"
  proof -
    have "length (takeWhile ?p s2) + length r = length s2" unfolding r(1) by (metis length_append takeWhile_dropWhile_id)
    then show ?thesis using r(2) by (cases "takeWhile ?p s2") auto
  qed
  ultimately show ?thesis by simp
qed

function parse_units :: "gostring \<Rightarrow> nat \<Rightarrow> nat option" where
  "parse_units s d =
     (if s = [] then Some d
      else case parse_one s of None \<Rightarrow> None
           | Some (v, r) \<Rightarrow> if d + v > 2 ^ 63 then None else parse_units r (d + v))"
  by pat_completeness auto
termination
  by (relation "measure (length \<circ> fst)") (auto dest: parse_one_shorter)

declare parse_units.simps [simp del]

definition parse_duration :: "gostring \<Rightarrow> int option" where
  "parse_duration s =
     (let neg = (case s of c # _ \<Rightarrow> c = CHR ''-'' | [] \<Rightarrow> False);
          r = (case s of c # r \<Rightarrow> if c = CHR ''-'' \<or> c = CHR ''+'' then r else s | [] \<Rightarrow> s)
      in if r = ''0'' then Some 0
         else if r = [] then None
         else case parse_units r 0 of None \<Rightarrow> None
              | Some d \<Rightarrow> if neg then Some (- int d) else if d > 2 ^ 63 - 1 then None else Some (int d))"

definition nanos :: int where "nanos = 1000000000"

definition parseDur :: "gostring \<Rightarrow> int option" where
  "parseDur s = (case atoi s of Some n \<Rightarrow> Some (wrap64 (n * nanos)) | None \<Rightarrow> parse_duration s)"

text \<open>The absolute time in nanoseconds and whether one was given; \<open>None\<close> is an error.\<close>

definition durArg :: "targs \<Rightarrow> gostring \<Rightarrow> int \<Rightarrow> (int \<times> bool) option" where
  "durArg args key now =
     (let upon = (\<lambda>d. Some (wrap64 (now + d), True))
      in case args key of
           None \<Rightarrow> Some (0, False)
         | Some (JStr v) \<Rightarrow>
             if trim_space v = [] then Some (0, False)
             else (case parseDur (trim_space v) of None \<Rightarrow> None | Some d \<Rightarrow> upon d)
         | Some (JNum v) \<Rightarrow> if v \<le> 0 then Some (0, False) else upon (wrap64 (f64_to_i64 v * nanos))
         | Some (JNumber n) \<Rightarrow>
             (case n of None \<Rightarrow> None | Some i \<Rightarrow> if i \<le> 0 then Some (0, False) else upon (wrap64 (i * nanos)))
         | Some _ \<Rightarrow> None)"

section \<open>Properties\<close>

lemma show_nat_sign: "hd (show_nat n) \<noteq> CHR ''-''" "hd (show_nat n) \<noteq> CHR ''+''"
proof -
  have "is_digit (hd (show_nat n))" using show_nat_digits [of n] by (cases "show_nat n") auto
  then show "hd (show_nat n) \<noteq> CHR ''-''" "hd (show_nat n) \<noteq> CHR ''+''" by (auto simp: is_digit_def)
qed

lemma atoi_show: "n < 2 ^ 63 \<Longrightarrow> atoi (show_nat n) = Some (int n)"
  using show_nat_digits [of n] show_nat_sign [of n]
  by (cases "show_nat n") (auto simp: atoi_def)

lemma show_nat_trim: "trim_space (show_nat n) = show_nat n"
proof (rule trim_space_idle)
  have "\<not> is_space c" if "c \<in> set (show_nat n)" for c
    using show_nat_set [OF that] by (auto simp: is_digit_def is_space_def)
  then show "show_nat n = [] \<or> \<not> is_space (hd (show_nat n)) \<and> \<not> is_space (last (show_nat n))"
    by (cases "show_nat n = []") (simp_all add: hd_in_set last_in_set)
qed

text \<open>A ttl or deadline is the promised time while it fits, and silently another one when it does not:
  a whole number of seconds, given as a number or as its decimal string, of at most 9223372036
  (292 years) is added exactly to the current time as long as the sum fits int64; beyond that the
  product with 10^9 wraps, so a ttl of 18446744074 seconds (585 years) expires 0.29 seconds after
  now, while the same duration written with its unit is refused.\<close>
theorem durArg_exact_or_wraps:
  fixes now :: int and n :: nat
  assumes "0 \<le> now" and "now < 2 ^ 62" and "0 < n"
    and "args = [''ttl'' \<mapsto> JNum (of_nat n)] \<or> args = [''ttl'' \<mapsto> JStr (show_nat n)]"
  shows "(n \<le> 9223372036 \<and> now + int n * nanos < 2 ^ 63 \<longrightarrow> durArg args ''ttl'' now = Some (now + int n * nanos, True)) \<and>
     (n = 18446744074 \<longrightarrow> durArg args ''ttl'' now = Some (now + 290448384, True)) \<and>
     durArg [''ttl'' \<mapsto> JStr ''18446744074s''] ''ttl'' now = None"
proof -
  have num: "durArg args ''ttl'' now = Some (wrap64 (now + wrap64 (int n * nanos)), True)" if "n < 2 ^ 63"
    using assms(4)
  proof
    assume "args = [''ttl'' \<mapsto> JNum (of_nat n)]"
    moreover have "f64_to_i64 (of_nat n) = int n" using that by (simp add: f64_to_i64_def)
    ultimately show ?thesis using assms(3) by (simp add: durArg_def)
  next
    assume "args = [''ttl'' \<mapsto> JStr (show_nat n)]"
    then show ?thesis using show_nat_digits [of n]
      by (simp add: durArg_def show_nat_trim parseDur_def atoi_show [OF that])
  qed
  have "durArg args ''ttl'' now = Some (now + int n * nanos, True)" if "n \<le> 9223372036" "now + int n * nanos < 2 ^ 63"
  proof -
    have "int n * nanos < 2 ^ 63" using that(1) by (simp add: nanos_def)
    then have "wrap64 (int n * nanos) = int n * nanos" by (intro wrap64_id) (simp_all add: nanos_def)
    moreover have "wrap64 (now + int n * nanos) = now + int n * nanos"
      using assms(1) that(2) by (intro wrap64_id) (simp_all add: nanos_def)
    ultimately show ?thesis using num that(1) by simp
  qed
  moreover have "durArg args ''ttl'' now = Some (now + 290448384, True)" if "n = 18446744074"
  proof -
    have "wrap64 (int n * nanos) = 290448384" by (simp add: that nanos_def wrap64_def)
    moreover have "wrap64 (now + 290448384) = now + 290448384" using assms(1,2) by (intro wrap64_id) simp_all
    ultimately show ?thesis using num that by simp
  qed
  moreover have "durArg [''ttl'' \<mapsto> JStr ''18446744074s''] ''ttl'' now = None"
  proof -
    have t: "trim_space ''18446744074s'' = ''18446744074s''" by (rule trim_space_idle) (simp add: is_space_def)
    have "atoi ''18446744074s'' = None" by (simp add: atoi_def is_digit_def)
    moreover have "parse_one ''18446744074s'' = None"
      by (simp add: parse_one_def is_digit_def unit_of_def digits_val_def)
    then have "parse_duration ''18446744074s'' = None" by (simp add: parse_duration_def parse_units.simps)
    ultimately show ?thesis by (simp add: durArg_def t parseDur_def)
  qed
  ultimately show ?thesis by blast
qed

theorem durArg_exact_or_wraps_witness:
  "durArg [''ttl'' \<mapsto> JNum (of_nat 18446744074)] ''ttl'' 1000 = Some (1000 + 290448384, True)"
  using durArg_exact_or_wraps [of 1000 18446744074 "[''ttl'' \<mapsto> JNum (of_nat 18446744074)]"] by simp

end
