(* ===== verification/McpComms.thy ===== *)
theory McpComms
  imports ToolArgs CommsReaders Blob
begin

text \<open>
  The handlers of the coordination tools in \<^verbatim>\<open>server.callTool\<close> (\<^verbatim>\<open>cmd/sentrymcp/main.go\<close>): \<^verbatim>\<open>post\<close>, \<^verbatim>\<open>read\<close>,
  \<^verbatim>\<open>comms_clear\<close>, \<^verbatim>\<open>inbox\<close>, \<^verbatim>\<open>claim\<close>, \<^verbatim>\<open>resolve\<close>, \<^verbatim>\<open>heartbeat\<close>, \<^verbatim>\<open>post_image\<close>, \<^verbatim>\<open>get_image\<close>, \<^verbatim>\<open>pin_image\<close> and
  \<^verbatim>\<open>blob_gc\<close>, over the message store and the blob store, with the text they answer. The clock, the
  append outcomes, SHA-256, base64, image decoding, the local clock format (\<open>hhmm\<close>, \<^verbatim>\<open>Format("15:04")\<close>)
  and \<^verbatim>\<open>%q\<close> (\<open>quote\<close>) are arguments. The audit log (\<^verbatim>\<open>moko\<close>) is left out.
\<close>

section \<open>Text\<close>

definition arrow :: gostring where "arrow = [CHR 0xE2, CHR 0x86, CHR 0x92]"
definition middot :: gostring where "middot = [CHR 0xC2, CHR 0xB7]"
definition lbracket :: gostring where "lbracket = [CHR 0xE2, CHR 0x9F, CHR 0xA8]"
definition rbracket :: gostring where "rbracket = [CHR 0xE2, CHR 0x9F, CHR 0xA9]"
definition nl :: gostring where "nl = [CHR 0x0A]"

definition compactAge :: "int \<Rightarrow> gostring" where
  "compactAge ns =
     (let d = (if ns < 0 then 0 else ns)
      in if d < 60 * nanos then show_int (d div nanos) @ ''s''
         else if d < 3600 * nanos then show_int (d div (60 * nanos)) @ ''m''
         else show_int (d div (3600 * nanos)) @ ''h'')"

definition presence_line :: "int \<Rightarrow> presence \<Rightarrow> gostring" where
  "presence_line now p =
     ''~ '' @ pr_Agent p @ (if pr_Area p \<noteq> [] then '' ['' @ pr_Area p @ '']'' else []) @
     '': '' @ pr_Status p @ '' ('' @ compactAge (now - pr_TS p) @ '')'' @ nl"

definition writePresence :: "int \<Rightarrow> presence list \<Rightarrow> gostring" where
  "writePresence now slots = concat (map (presence_line now) slots)"

definition taskSuffix :: "(int \<Rightarrow> gostring) \<Rightarrow> task_state \<Rightarrow> gostring" where
  "taskSuffix hhmm ts =
     (if ts_State ts = [] then []
      else
        let head = (if ts_State ts = ''claimed'' \<or> ts_State ts = ''overdue''
                    then [if ts_Holder ts \<noteq> [] then ts_State ts @ '' by '' @ ts_Holder ts else ts_State ts] @
                         (if ts_LeaseUntil ts > 0 then [''lease '' @ hhmm (ts_LeaseUntil ts)] else [])
                    else [ts_State ts]);
            due = (if ts_Deadline ts > 0 \<and> ts_State ts \<noteq> ''done'' \<and> ts_State ts \<noteq> ''cancel''
                   then [''due '' @ hhmm (ts_Deadline ts)] else [])
        in ''  '' @ lbracket @ join_with ('' '' @ middot @ '' '') (head @ due) @ rbracket)"

section \<open>Answers\<close>

record image_obj =
  io_blob :: gostring
  io_mime :: gostring
  io_w :: int
  io_h :: int
  io_size :: "int option"

record task_obj =
  to_state :: gostring
  to_holder :: "gostring option"
  to_lease :: "int option"
  to_deadline :: "int option"

record struct_msg =
  sm_seq :: nat
  sm_area :: "gostring option"
  sm_from :: gostring
  sm_target :: gostring
  sm_text :: gostring
  sm_kind :: gostring
  sm_image :: "image_obj option"
  sm_task :: "task_obj option"

record slot_obj =
  so_agent :: gostring
  so_status :: gostring
  so_age :: int
  so_area :: "gostring option"

definition presenceStruct :: "int \<Rightarrow> presence list \<Rightarrow> slot_obj list" where
  "presenceStruct now slots =
     map (\<lambda>p. \<lparr>so_agent = pr_Agent p, so_status = pr_Status p,
               so_age = (let age = (now - pr_TS p) div nanos in if age < 0 then 0 else age),
               so_area = (if pr_Area p \<noteq> [] then Some (pr_Area p) else None)\<rparr>) slots"

definition taskStruct :: "task_state \<Rightarrow> task_obj" where
  "taskStruct ts =
     \<lparr>to_state = ts_State ts, to_holder = (if ts_Holder ts \<noteq> [] then Some (ts_Holder ts) else None),
      to_lease = (if ts_LeaseUntil ts > 0 then Some (ts_LeaseUntil ts) else None),
      to_deadline = (if ts_Deadline ts > 0 then Some (ts_Deadline ts) else None)\<rparr>"

datatype tool_error =
  Provide gostring
| InvalidTTL
| InvalidDeadline
| StoreFailed comms_error
| BlobFailed blob_error
| NotImageMime gostring
| TooLarge
| NotBase64
| MsgNotFound nat
| MsgNotImage nat
| NotOwner

datatype tool_result =
  ToolErr tool_error
| ToolText gostring
| ToolImage gostring gostring gostring
| ReadResult gostring nat "slot_obj list" "struct_msg list"
| InboxResult gostring nat nat "struct_msg list"
| ClaimResult gostring nat bool task_state
| ResolveResult gostring nat gostring

record mcp_server =
  sv_chat :: comms_store
  sv_blobs :: blob_dir
  sv_tenant :: tenant

abbreviation arg_str :: "targs \<Rightarrow> gostring \<Rightarrow> gostring" where
  "arg_str args key \<equiv> fst (strArg args key)"

section \<open>Posting and reading\<close>

definition post_payload :: "int \<Rightarrow> targs \<Rightarrow> tool_error + msg_payload" where
  "post_payload now args =
     (let area = arg_str args ''area''; from = arg_str args ''from''; body = arg_str args ''text''
      in if area = [] \<or> from = [] \<or> body = [] then Inl (Provide ''area, from and text'')
         else
           let kind = arg_str args ''kind''; target = arg_str args ''target''; ref = uintArg args ''ref''
           in case durArg args ''ttl'' now of None \<Rightarrow> Inl InvalidTTL | Some (expires, _) \<Rightarrow>
              (case durArg args ''deadline'' now of None \<Rightarrow> Inl InvalidDeadline | Some (dl, _) \<Rightarrow>
               let deadline = (if kind = ''task'' then dl else 0)
               in Inr \<lparr>pl_area = area, pl_from = from, pl_kind = kind, pl_text = body, pl_target = target, pl_ref = ref,
                       pl_blob = [], pl_mime = [], pl_w = 0, pl_h = 0, pl_size = 0, pl_expires = expires, pl_deadline = deadline\<rparr>))"

definition post_tool :: "int option \<Rightarrow> int \<Rightarrow> tenant \<Rightarrow> targs \<Rightarrow> mcp_server \<Rightarrow> mcp_server \<times> tool_result" where
  "post_tool env now t args sv =
     (case post_payload now args of
        Inl e \<Rightarrow> (sv, ToolErr e)
      | Inr p \<Rightarrow>
          (case Post env now t p (sv_chat sv) of
             (c, Inl e) \<Rightarrow> (sv\<lparr>sv_chat := c\<rparr>, ToolErr (StoreFailed e))
           | (c, Inr q) \<Rightarrow> (sv\<lparr>sv_chat := c\<rparr>, ToolText (''posted message #'' @ show_nat q @ '' in '' @ pl_area p))))"

definition readCap :: nat where "readCap = 100"

definition shown_target :: "message \<Rightarrow> gostring" where
  "shown_target m = (if m_target m = [] then ''all'' else m_target m)"

definition task_text :: "(int \<Rightarrow> gostring) \<Rightarrow> tenant \<Rightarrow> message \<Rightarrow> comms_store \<Rightarrow> gostring" where
  "task_text hhmm t m c = (case TaskOf t (m_seq m) c of None \<Rightarrow> [] | Some ts \<Rightarrow> taskSuffix hhmm ts)"

definition get_image_text :: "message \<Rightarrow> gostring" where
  "get_image_text m = middot @ '' get_image('' @ show_nat (m_seq m) @ '')]''"

definition read_line :: "(int \<Rightarrow> gostring) \<Rightarrow> tenant \<Rightarrow> comms_store \<Rightarrow> message \<Rightarrow> gostring" where
  "read_line hhmm t c m =
     (if m_blob m \<noteq> []
      then ''#'' @ show_nat (m_seq m) @ '' [image] '' @ m_from m @ arrow @ shown_target m @ '': '' @ m_text m @ '' ['' @
           m_mime m @ '' '' @ show_int (m_w m) @ ''x'' @ show_int (m_h m) @ '' '' @ show_int (m_size m) @ ''B '' @
           get_image_text m @ nl
      else ''#'' @ show_nat (m_seq m) @ '' ['' @ m_kind m @ ''] '' @ m_from m @ arrow @ shown_target m @ '': '' @ m_text m @
           task_text hhmm t m c @ nl)"

definition read_struct :: "tenant \<Rightarrow> comms_store \<Rightarrow> message \<Rightarrow> struct_msg" where
  "read_struct t c m =
     \<lparr>sm_seq = m_seq m, sm_area = None, sm_from = m_from m, sm_target = m_target m, sm_text = m_text m,
      sm_kind = (if m_blob m \<noteq> [] then ''image'' else m_kind m),
      sm_image = (if m_blob m \<noteq> []
                  then Some \<lparr>io_blob = m_blob m, io_mime = m_mime m, io_w = m_w m, io_h = m_h m, io_size = Some (m_size m)\<rparr>
                  else None),
      sm_task = (if m_blob m \<noteq> [] then None else map_option taskStruct (TaskOf t (m_seq m) c))\<rparr>"

definition for_target :: "gostring \<Rightarrow> message \<Rightarrow> bool" where
  "for_target target m \<longleftrightarrow> \<not> (target \<noteq> [] \<and> m_target m \<noteq> [] \<and> m_target m \<noteq> target)"

definition cursor_after :: "nat \<Rightarrow> message list \<Rightarrow> nat" where
  "cursor_after since ms = fold (\<lambda>m c. if m_seq m > c then m_seq m else c) ms since"

definition read_tool :: "(int \<Rightarrow> gostring) \<Rightarrow> int \<Rightarrow> tenant \<Rightarrow> targs \<Rightarrow> mcp_server \<Rightarrow> tool_result" where
  "read_tool hhmm now t args sv =
     (let area = arg_str args ''area''
      in if area = [] then ToolErr (Provide ''area'')
         else
           let since = uintArg args ''since''; target = arg_str args ''target''; c = sv_chat sv;
               msgs = last_n readCap (ReadArea t area since c);
               slots = PresenceList t c; head = writePresence now slots;
               shown = filter (for_target target) msgs;
               last_seq = cursor_after since shown;
               body = (if shown = [] then ''no new messages in '' @ area @ '' since #'' @ show_nat since
                       else concat (map (read_line hhmm t c) shown) @ ''(cursor: #'' @ show_nat last_seq @ '')'')
           in ReadResult (head @ body) last_seq (presenceStruct now slots) (map (read_struct t c) shown))"

definition clear_tool :: "int option \<Rightarrow> tenant \<Rightarrow> (gostring \<Rightarrow> gostring) \<Rightarrow> targs \<Rightarrow> mcp_server \<Rightarrow> mcp_server \<times> tool_result" where
  "clear_tool env t quote args sv =
     (let area = arg_str args ''area''
      in if area = [] then (sv, ToolErr (Provide ''area''))
         else case Clear env t area (sv_chat sv) of
                (c, Inl e) \<Rightarrow> (sv\<lparr>sv_chat := c\<rparr>, ToolErr (StoreFailed e))
              | (c, Inr n) \<Rightarrow>
                  (sv\<lparr>sv_chat := c\<rparr>,
                   ToolText (''cleared '' @ show_nat n @ '' message(s) from area '' @ quote area @ '' (journal retained)'')))"

definition inbox_line :: "(int \<Rightarrow> gostring) \<Rightarrow> tenant \<Rightarrow> comms_store \<Rightarrow> message \<Rightarrow> gostring" where
  "inbox_line hhmm t c m =
     (if m_blob m \<noteq> []
      then ''#'' @ show_nat (m_seq m) @ '' ['' @ ''image'' @ ''] '' @ m_from m @ arrow @ shown_target m @ '' @'' @ m_area m @ '': '' @
           (m_text m @ '' ['' @ m_mime m @ '' '' @ show_int (m_w m) @ ''x'' @ show_int (m_h m) @ '' '' @ get_image_text m) @ nl
      else ''#'' @ show_nat (m_seq m) @ '' ['' @ m_kind m @ ''] '' @ m_from m @ arrow @ shown_target m @ '' @'' @ m_area m @ '': '' @
           (m_text m @ task_text hhmm t m c) @ nl)"

definition inbox_struct :: "tenant \<Rightarrow> comms_store \<Rightarrow> message \<Rightarrow> struct_msg" where
  "inbox_struct t c m =
     (read_struct t c m)\<lparr>sm_area := Some (m_area m),
        sm_image := map_option (\<lambda>i. i\<lparr>io_size := None\<rparr>) (sm_image (read_struct t c m))\<rparr>"

definition inbox_text :: "(int \<Rightarrow> gostring) \<Rightarrow> (gostring \<Rightarrow> gostring) \<Rightarrow> int \<Rightarrow> tenant \<Rightarrow> gostring \<Rightarrow> nat \<Rightarrow> comms_store \<Rightarrow> gostring" where
  "inbox_text hhmm quote now t target since c =
     (let msgs = Inbox t target since c
      in writePresence now (PresenceList t c) @
         (if msgs = [] then ''inbox empty for '' @ quote target @ '' (since #'' @ show_nat since @ '')''
          else show_nat (length msgs) @ '' message(s) for '' @ quote target @ '':'' @ nl @
               concat (map (inbox_line hhmm t c) msgs) @ ''(cursor: #'' @ show_nat (cursor_after since msgs) @ '')''))"

definition inbox_tool :: "(int \<Rightarrow> gostring) \<Rightarrow> (gostring \<Rightarrow> gostring) \<Rightarrow> int \<Rightarrow> tenant \<Rightarrow> targs \<Rightarrow> mcp_server \<Rightarrow> tool_result" where
  "inbox_tool hhmm quote now t args sv =
     (let target = arg_str args ''target''
      in if target = [] then ToolErr (Provide ''target'')
         else
           let since = (case numArg args ''since'' of (v, ok) \<Rightarrow> if ok \<and> v > 0 then f64_to_u64 v else 0);
               c = sv_chat sv; msgs = Inbox t target since c
           in InboxResult (inbox_text hhmm quote now t target since c) (cursor_after since msgs) (length msgs)
                (map (inbox_struct t c) msgs))"

section \<open>Tasks and presence\<close>

definition claim_tool :: "int option \<Rightarrow> (int \<Rightarrow> gostring) \<Rightarrow> int \<Rightarrow> tenant \<Rightarrow> targs \<Rightarrow> mcp_server \<Rightarrow> mcp_server \<times> tool_result" where
  "claim_tool env hhmm now t args sv =
     (let q = uintArg args ''seq''; who = arg_str args ''by''
      in if q = 0 \<or> who = [] then (sv, ToolErr (Provide ''seq and by''))
         else case Claim env t q who now (sv_chat sv) of
                (c, _, _, Some e) \<Rightarrow> (sv\<lparr>sv_chat := c\<rparr>, ToolErr (StoreFailed e))
              | (c, ts, ok, None) \<Rightarrow>
                  (sv\<lparr>sv_chat := c\<rparr>,
                   if \<not> ok
                   then ClaimResult (''DENIED: #'' @ show_nat q @ '' held by '' @ ts_Holder ts @ '' until '' @ hhmm (ts_LeaseUntil ts)) q False ts
                   else ClaimResult (''claimed #'' @ show_nat q @ '' by '' @ who @ '', lease until '' @ hhmm (ts_LeaseUntil ts)) q True ts))"

definition resolve_tool :: "int option \<Rightarrow> tenant \<Rightarrow> targs \<Rightarrow> mcp_server \<Rightarrow> mcp_server \<times> tool_result" where
  "resolve_tool env t args sv =
     (let q = uintArg args ''seq''; who = arg_str args ''by''
      in if q = 0 \<or> who = [] then (sv, ToolErr (Provide ''seq and by''))
         else
           let st = (if arg_str args ''state'' = [] then ''done'' else arg_str args ''state'')
           in case ResolveTask env t q who st (sv_chat sv) of
                (c, Some e) \<Rightarrow> (sv\<lparr>sv_chat := c\<rparr>, ToolErr (StoreFailed e))
              | (c, None) \<Rightarrow> (sv\<lparr>sv_chat := c\<rparr>, ResolveResult (''resolved #'' @ show_nat q @ '' as '' @ st) q st))"

definition heartbeat_tool :: "int \<Rightarrow> tenant \<Rightarrow> targs \<Rightarrow> mcp_server \<Rightarrow> mcp_server \<times> tool_result" where
  "heartbeat_tool now t args sv =
     (let from = arg_str args ''from''; status = arg_str args ''status''
      in if from = [] \<or> status = [] then (sv, ToolErr (Provide ''from and status''))
         else case Heartbeat t from (arg_str args ''area'') status now (sv_chat sv) of
                (c, Some e) \<Rightarrow> (sv\<lparr>sv_chat := c\<rparr>, ToolErr (StoreFailed e))
              | (c, None) \<Rightarrow> (sv\<lparr>sv_chat := c\<rparr>, ToolText (''presence updated for '' @ from)))"

section \<open>Images\<close>

text \<open>What the image tools use from outside: SHA-256, the base64 coding, the dimensions of an image.\<close>

record image_env =
  ig_sha256 :: "byte list \<Rightarrow> byte list"
  ig_decode :: "gostring \<Rightarrow> byte list option"
  ig_encode :: "byte list \<Rightarrow> gostring"
  ig_dims :: "byte list \<Rightarrow> int \<times> int"

definition maxImage :: nat where "maxImage = 15 * 2 ^ 20"

text \<open>The checks before the critical section: the bytes, and the payload but for the blob.\<close>

definition image_payload :: "image_env \<Rightarrow> targs \<Rightarrow> tool_error + byte list \<times> msg_payload" where
  "image_payload ie args =
     (let area = arg_str args ''area''; from = arg_str args ''from''; mime = arg_str args ''mime''; b64 = arg_str args ''data''
      in if area = [] \<or> from = [] \<or> mime = [] \<or> b64 = [] then Inl (Provide ''area, from, mime and base64 data'')
         else if \<not> prefix ''image/'' mime then Inl (NotImageMime mime)
         else if length b64 > (maxImage + 2) div 3 * 4 + 16 then Inl TooLarge
         else case ig_decode ie b64 of None \<Rightarrow> Inl NotBase64 | Some raw \<Rightarrow>
           if length raw > maxImage then Inl TooLarge
           else
             let w0 = wrap64 (int (uintArg args ''w'')); h0 = wrap64 (int (uintArg args ''h''));
                 (w, h) = (if w0 = 0 \<and> h0 = 0 then ig_dims ie raw else (w0, h0))
             in Inr (raw,
                  \<lparr>pl_area = area, pl_from = from, pl_kind = [], pl_text = arg_str args ''caption'',
                   pl_target = arg_str args ''target'', pl_ref = 0, pl_blob = [], pl_mime = mime, pl_w = w, pl_h = h,
                   pl_size = int (length raw), pl_expires = 0, pl_deadline = 0\<rparr>))"

definition posted_image :: "nat \<Rightarrow> msg_payload \<Rightarrow> gostring" where
  "posted_image q p =
     ''posted image #'' @ show_nat q @ '' in '' @ pl_area p @ '' ('' @ pl_mime p @ '', '' @ show_int (pl_w p) @ ''x'' @
     show_int (pl_h p) @ '', '' @ show_int (pl_size p) @ '' bytes) '' @ [CHR 0xE2, CHR 0x80, CHR 0x94] @
     '' fetch with get_image('' @ show_nat q @ '')''"

definition post_image_tool ::
    "image_env \<Rightarrow> put_env \<Rightarrow> int option \<Rightarrow> int \<Rightarrow> tenant \<Rightarrow> targs \<Rightarrow> mcp_server \<Rightarrow> mcp_server \<times> tool_result" where
  "post_image_tool ie penv env now t args sv =
     (case image_payload ie args of
        Inl e \<Rightarrow> (sv, ToolErr e)
      | Inr (raw, p) \<Rightarrow>
          (case BlobPut (ig_sha256 ie) penv raw (sv_blobs sv) of
             (d, Inl e) \<Rightarrow> (sv\<lparr>sv_blobs := d\<rparr>, ToolErr (BlobFailed e))
           | (d, Inr sha) \<Rightarrow>
               (case PostImage env now t (p\<lparr>pl_blob := sha\<rparr>) (sv_chat sv) of
                  (c, Inl e) \<Rightarrow> (sv\<lparr>sv_blobs := d, sv_chat := c\<rparr>, ToolErr (StoreFailed e))
                | (c, Inr q) \<Rightarrow> (sv\<lparr>sv_blobs := d, sv_chat := c\<rparr>, ToolText (posted_image q p)))))"

definition get_image_tool :: "image_env \<Rightarrow> bool \<Rightarrow> tenant \<Rightarrow> targs \<Rightarrow> mcp_server \<Rightarrow> tool_result" where
  "get_image_tool ie read_ok t args sv =
     (let q = uintArg args ''seq''
      in if q = 0 then ToolErr (Provide ''seq'')
         else case GetBySeq t q (sv_chat sv) of None \<Rightarrow> ToolErr (MsgNotFound q)
              | Some m \<Rightarrow>
                  if m_blob m = [] then ToolErr (MsgNotImage q)
                  else case BlobGet read_ok (m_blob m) (sv_blobs sv) of Inl e \<Rightarrow> ToolErr (BlobFailed e)
                       | Inr raw \<Rightarrow> ToolImage (ig_encode ie raw) (m_mime m) (m_text m))"

text \<open>\<^verbatim>\<open>pin_image\<close> and \<^verbatim>\<open>unpin_image\<close> look the message up and then pin its blob; no lock spans the two.\<close>

definition pin_lookup :: "tenant \<Rightarrow> targs \<Rightarrow> mcp_server \<Rightarrow> tool_error + nat \<times> gostring" where
  "pin_lookup t args sv =
     (let q = uintArg args ''seq''
      in if q = 0 then Inl (Provide ''seq'')
         else case GetBySeq t q (sv_chat sv) of None \<Rightarrow> Inl (MsgNotFound q)
              | Some m \<Rightarrow> if m_blob m = [] then Inl (MsgNotFound q) else Inr (q, m_blob m))"

definition pin_apply :: "int option \<Rightarrow> tenant \<Rightarrow> bool \<Rightarrow> nat \<Rightarrow> gostring \<Rightarrow> mcp_server \<Rightarrow> mcp_server \<times> tool_result" where
  "pin_apply env t on q b sv =
     (case Pin env t b on (sv_chat sv) of
        (c, Some e) \<Rightarrow> (sv\<lparr>sv_chat := c\<rparr>, ToolErr (StoreFailed e))
      | (c, None) \<Rightarrow> (sv\<lparr>sv_chat := c\<rparr>, ToolText ((if on then ''pinned'' else ''unpinned'') @ '' image #'' @ show_nat q)))"

definition blob_gc_tool :: "bool \<Rightarrow> (gostring \<Rightarrow> bool) \<Rightarrow> tenant \<Rightarrow> mcp_server \<Rightarrow> mcp_server \<times> tool_result" where
  "blob_gc_tool dir_ok rm_ok t sv =
     (if t \<noteq> sv_tenant sv then (sv, ToolErr NotOwner)
      else case BlobSweep dir_ok rm_ok (\<lambda>b. b \<in> LiveBlobIDs (sv_chat sv)) (sv_blobs sv) of
             (d, n, Some e) \<Rightarrow> (sv\<lparr>sv_blobs := d\<rparr>, ToolErr (BlobFailed e))
           | (d, n, None) \<Rightarrow>
               (sv\<lparr>sv_blobs := d\<rparr>, ToolText (''deleted '' @ show_nat n @ '' orphan blob(s) (journal retained)'')))"

end
