(* ===== verification/McpProps.thy ===== *)
theory McpProps
  imports McpComms
begin

text \<open>
  Runs of tool calls: what holds across the message store and the blob store, and what a reader that
  polls with the returned cursor sees.
\<close>

section \<open>Runs\<close>

datatype tool_call =
  TPost "int option" int tenant targs
| TClear "int option" tenant "gostring \<Rightarrow> gostring" targs
| TClaim "int option" "int \<Rightarrow> gostring" int tenant targs
| TResolve "int option" tenant targs
| THeartbeat int tenant targs
| TImage put_env "int option" int tenant targs
| TPin "int option" tenant bool nat gostring
| TGc bool "gostring \<Rightarrow> bool" tenant
| TSweep "task_key \<Rightarrow> int option" "task_key \<Rightarrow> int option" int "task_key list"

text \<open>\<open>TPin\<close> is the second half of \<^verbatim>\<open>pin_image\<close>, for whatever blob an earlier lookup found.\<close>

fun tool_step :: "image_env \<Rightarrow> tool_call \<Rightarrow> mcp_server \<Rightarrow> mcp_server" where
  "tool_step ie (TPost env now t args) sv = fst (post_tool env now t args sv)"
| "tool_step ie (TClear env t quote args) sv = fst (clear_tool env t quote args sv)"
| "tool_step ie (TClaim env hhmm now t args) sv = fst (claim_tool env hhmm now t args sv)"
| "tool_step ie (TResolve env t args) sv = fst (resolve_tool env t args sv)"
| "tool_step ie (THeartbeat now t args) sv = fst (heartbeat_tool now t args sv)"
| "tool_step ie (TImage penv env now t args) sv = fst (post_image_tool ie penv env now t args sv)"
| "tool_step ie (TPin env t on q b) sv = fst (pin_apply env t on q b sv)"
| "tool_step ie (TGc dir_ok rm_ok t) sv = fst (blob_gc_tool dir_ok rm_ok t sv)"
| "tool_step ie (TSweep e1 e2 now ks) sv = sv\<lparr>sv_chat := sweep_tick e1 e2 now ks (sv_chat sv)\<rparr>"

definition empty_server :: "int \<Rightarrow> gostring \<Rightarrow> tenant \<Rightarrow> mcp_server" where
  "empty_server ttl label owner = \<lparr>sv_chat = comms_empty ttl label, sv_blobs = [], sv_tenant = owner\<rparr>"

fun tmp_ok :: "tool_call \<Rightarrow> bool" where
  "tmp_ok (TImage penv env now t args) \<longleftrightarrow> \<not> validSHA (pe_tmp penv)"
| "tmp_ok _ \<longleftrightarrow> True"

text \<open>Every message with a blob has it on disk, filed under its hash.\<close>

definition stored :: "mcp_server \<Rightarrow> gostring \<Rightarrow> bool" where
  "stored sv b \<longleftrightarrow> validSHA b \<and> map_of (sv_blobs sv) b \<noteq> None"

definition server_inv :: "(byte list \<Rightarrow> byte list) \<Rightarrow> mcp_server \<Rightarrow> bool" where
  "server_inv sha256 sv \<longleftrightarrow>
     comms_inv (sv_chat sv) \<and> blob_inv sha256 (sv_blobs sv) \<and>
     (\<forall>m \<in> set (cs_entries (sv_chat sv)). 0 < m_seq m \<and> (m_blob m \<noteq> [] \<longrightarrow> stored sv (m_blob m)))"

lemma server_inv_empty: "server_inv sha256 (empty_server ttl label owner)"
  using comms_inv_empty [of ttl label] by (simp add: server_inv_def empty_server_def blob_inv_def) (simp add: comms_empty_def)

section \<open>The two stores\<close>

lemma post_entries_blob: "set (cs_entries (fst (Post env now t p s))) \<subseteq> set (cs_entries s) \<union> {m. m_blob m = pl_blob p}"
proof -
  have prune: "set (cs_entries (pruneAt n c)) \<subseteq> set (cs_entries c)" for n c using pruneAt_drops [of n c] by auto
  show ?thesis
    by (auto simp: Post_def Let_def mk_message_def split: prod.split option.split dest!: subsetD [OF prune])
qed

lemma image_entries_blob: "set (cs_entries (fst (PostImage env now t p s))) \<subseteq> set (cs_entries s) \<union> {m. m_blob m = pl_blob p}"
proof -
  have prune: "set (cs_entries (pruneAt n c)) \<subseteq> set (cs_entries c)" for n c using pruneAt_drops [of n c] by auto
  show ?thesis
    by (auto simp: PostImage_def Let_def mk_message_def split: prod.split option.split dest!: subsetD [OF prune])
qed

text \<open>A chat step that adds only messages whose blobs are stored keeps the invariant.\<close>

lemma server_inv_chat:
  assumes inv: "server_inv sha256 sv"
    and sub: "set (cs_entries (comms_step x (sv_chat sv))) \<subseteq> set (cs_entries (sv_chat sv)) \<union> {m. m_blob m = [] \<or> stored sv (m_blob m)}"
  shows "server_inv sha256 (sv\<lparr>sv_chat := comms_step x (sv_chat sv)\<rparr>)"
proof -
  have c: "comms_inv (sv_chat sv)" using inv by (simp add: server_inv_def)
  then have c': "comms_inv (comms_step x (sv_chat sv))" using comms_step_good by blast
  have "0 < m_seq m \<and> (m_blob m \<noteq> [] \<longrightarrow> stored sv (m_blob m))" if m: "m \<in> set (cs_entries (comms_step x (sv_chat sv)))" for m
  proof
    have "0 < el_next (cs_journal (sv_chat sv))" using c by (simp add: comms_inv_def el_ok_def)
    then show "0 < m_seq m" using step_entries [OF m] inv by (auto simp: server_inv_def)
    show "m_blob m \<noteq> [] \<longrightarrow> stored sv (m_blob m)" using sub m inv by (auto simp: server_inv_def)
  qed
  then show ?thesis using inv c' by (simp add: server_inv_def stored_def)
qed

text \<open>A change of the blobs that keeps what the messages refer to.\<close>

lemma server_inv_blobs:
  assumes "server_inv sha256 sv" "blob_inv sha256 d"
    and "\<And>b. b \<in> LiveBlobIDs (sv_chat sv) \<Longrightarrow> stored sv b \<Longrightarrow> map_of d b \<noteq> None"
  shows "server_inv sha256 (sv\<lparr>sv_blobs := d\<rparr>)"
proof -
  have "m_blob m \<in> LiveBlobIDs (sv_chat sv)" if "m \<in> set (cs_entries (sv_chat sv))" "m_blob m \<noteq> []" for m
    using that by (auto simp: LiveBlobIDs_def)
  then show ?thesis using assms by (auto simp: server_inv_def stored_def)
qed

lemma BlobPut_keeps:
  assumes "\<not> validSHA (pe_tmp penv)" "validSHA k" "map_of d k \<noteq> None"
  shows "map_of (fst (BlobPut sha256 penv data d)) k \<noteq> None"
  using assms by (auto simp: BlobPut_def leave_tmp_def Let_def update_conv' split: put_result.split)

lemma BlobPut_stored:
  assumes "BlobPut sha256 penv data d = (d', Inr sha)" "\<And>b. length (sha256 b) = 32"
  shows "validSHA sha \<and> map_of d' sha \<noteq> None"
  using assms(1) validSHA_hex [OF assms(2), of data]
  by (auto simp: BlobPut_def Let_def update_conv' split: if_splits put_result.splits)

lemma BlobSweep_keeps:
  assumes "blob_inv sha256 d" "BlobSweep dir_ok rm_ok keep d = (d', n, err)"
  shows "blob_inv sha256 d' \<and> (\<forall>k. keep k \<and> validSHA k \<and> map_of d k \<noteq> None \<longrightarrow> map_of d' k \<noteq> None)"
proof (cases dir_ok)
  case False
  then show ?thesis using assms by (simp add: BlobSweep_def BlobList_def)
next
  case True
  have del: "blob_inv sha256 (fst (sweep_blobs rm_ok keep shas n d))" if "blob_inv sha256 d" for shas n d
    using that
  proof (induction shas arbitrary: n d)
    case (Cons s shas)
    then show ?case
      by (auto simp: BlobDelete_def blob_inv_delete split: option.split prod.split)
  qed simp
  have get: "BlobGet True k d' = BlobGet True k d" if "keep k" for k
    using BlobSweep_facts [OF assms(1), of rm_ok keep d' n err] assms(2) True that by simp
  have "map_of d' k \<noteq> None" if "keep k" "validSHA k" "map_of d k \<noteq> None" for k
    using get [OF that(1)] that(2,3) by (cases "map_of d' k") (auto simp: BlobGet_def)
  then have "\<forall>k. keep k \<and> validSHA k \<and> map_of d k \<noteq> None \<longrightarrow> map_of d' k \<noteq> None" by blast
  moreover have "blob_inv sha256 d'"
    using del [OF assms(1), of "filter validSHA (sort (map fst d))" 0] assms(2) True by (simp add: BlobSweep_def BlobList_def)
  ultimately show ?thesis by blast
qed

section \<open>The tools\<close>

lemma tool_chat:
  "fst (post_tool env now t args sv) =
     (case post_payload now args of Inl _ \<Rightarrow> sv | Inr p \<Rightarrow> sv\<lparr>sv_chat := comms_step (OpPost env now t p) (sv_chat sv)\<rparr>)"
  "fst (clear_tool env t quote args sv) =
     (if arg_str args ''area'' = [] then sv else sv\<lparr>sv_chat := comms_step (OpClear env t (arg_str args ''area'')) (sv_chat sv)\<rparr>)"
  "fst (pin_apply env t on q b sv) = sv\<lparr>sv_chat := comms_step (OpPin env t b on) (sv_chat sv)\<rparr>"
  by (simp_all add: post_tool_def clear_tool_def pin_apply_def Let_def split_def split: sum.split option.split)

lemma tool_chat_state:
  "fst (claim_tool env hhmm now t args sv) =
     (if uintArg args ''seq'' = 0 \<or> arg_str args ''by'' = [] then sv
      else sv\<lparr>sv_chat := comms_step (OpClaim env t (uintArg args ''seq'') (arg_str args ''by'') now) (sv_chat sv)\<rparr>)"
  "\<exists>st. fst (resolve_tool env t args sv) =
     (if uintArg args ''seq'' = 0 \<or> arg_str args ''by'' = [] then sv
      else sv\<lparr>sv_chat := comms_step (OpResolve env t (uintArg args ''seq'') (arg_str args ''by'') st) (sv_chat sv)\<rparr>)"
  "fst (heartbeat_tool now t args sv) =
     (if arg_str args ''from'' = [] \<or> arg_str args ''status'' = [] then sv
      else sv\<lparr>sv_chat := comms_step (OpHeartbeat t (arg_str args ''from'') (arg_str args ''area'') (arg_str args ''status'') now) (sv_chat sv)\<rparr>)"
  by (simp_all add: claim_tool_def heartbeat_tool_def Let_def split_def split: option.split)
     (auto simp: resolve_tool_def Let_def split_def split: option.split intro!: exI [of _ "if arg_str args ''state'' = [] then ''done'' else arg_str args ''state''"])

lemma server_inv_nonpost:
  assumes "server_inv sha256 sv" "\<And>env now t p. x \<noteq> OpPost env now t p" "\<And>env now t p. x \<noteq> OpImage env now t p"
  shows "server_inv sha256 (sv\<lparr>sv_chat := comms_step x (sv_chat sv)\<rparr>)"
  using nonpost_entries [OF assms(2,3), of "sv_chat sv"] by (intro server_inv_chat [OF assms(1)]) blast

lemma image_tool_inv:
  assumes inv: "server_inv (ig_sha256 ie) sv" and len: "\<And>b. length (ig_sha256 ie b) = 32" and tmp: "\<not> validSHA (pe_tmp penv)"
  shows "server_inv (ig_sha256 ie) (fst (post_image_tool ie penv env now t args sv))"
proof (cases "image_payload ie args")
  case (Inl e)
  then show ?thesis using inv by (simp add: post_image_tool_def)
next
  case (Inr rp)
  obtain raw p where rp: "rp = (raw, p)" by force
  obtain d res where put: "BlobPut (ig_sha256 ie) penv raw (sv_blobs sv) = (d, res)" by fastforce
  have blobs: "server_inv (ig_sha256 ie) (sv\<lparr>sv_blobs := d\<rparr>)"
  proof (rule server_inv_blobs [OF inv])
    show "blob_inv (ig_sha256 ie) d"
      using BlobPut_inv [OF _ tmp, of "ig_sha256 ie" "sv_blobs sv" raw] inv put by (simp add: server_inv_def)
    show "map_of d b \<noteq> None" if "stored sv b" for b
      using BlobPut_keeps [OF tmp, of b "sv_blobs sv" "ig_sha256 ie" raw] that put by (simp add: stored_def)
  qed
  show ?thesis
  proof (cases res)
    case (Inl e)
    then show ?thesis using Inr rp put blobs by (simp add: post_image_tool_def)
  next
    case (Inr sha)
    let ?sv = "sv\<lparr>sv_blobs := d\<rparr>" and ?p = "p\<lparr>pl_blob := sha\<rparr>"
    have "stored ?sv sha" using BlobPut_stored [of "ig_sha256 ie" penv raw "sv_blobs sv" d sha] put Inr len by (simp add: stored_def)
    then have "server_inv (ig_sha256 ie) (?sv\<lparr>sv_chat := comms_step (OpImage env now t ?p) (sv_chat ?sv)\<rparr>)"
      using image_entries_blob [of env now t ?p "sv_chat sv"] by (intro server_inv_chat [OF blobs]) auto
    moreover have "fst (post_image_tool ie penv env now t args sv) = ?sv\<lparr>sv_chat := comms_step (OpImage env now t ?p) (sv_chat ?sv)\<rparr>"
      using \<open>image_payload ie args = Inr rp\<close> rp put Inr
      by (simp add: post_image_tool_def split_def split: sum.split)
    ultimately show ?thesis by simp
  qed
qed

lemma server_inv_step:
  assumes inv: "server_inv (ig_sha256 ie) sv" and len: "\<And>b. length (ig_sha256 ie b) = 32" and tmp: "tmp_ok c"
  shows "server_inv (ig_sha256 ie) (tool_step ie c sv)"
proof (cases c)
  case (TPost env now t args)
  have "server_inv (ig_sha256 ie) (sv\<lparr>sv_chat := comms_step (OpPost env now t p) (sv_chat sv)\<rparr>)"
    if "post_payload now args = Inr p" for p
  proof -
    have "pl_blob p = []" using that by (auto simp: post_payload_def Let_def split: if_splits option.splits)
    then show ?thesis using post_entries_blob [of env now t p "sv_chat sv"] by (intro server_inv_chat [OF inv]) auto
  qed
  then show ?thesis using TPost inv by (simp add: tool_chat(1) del: comms_step.simps split: sum.split)
next
  case (TResolve env t args)
  obtain st where "fst (resolve_tool env t args sv) =
     (if uintArg args ''seq'' = 0 \<or> arg_str args ''by'' = [] then sv
      else sv\<lparr>sv_chat := comms_step (OpResolve env t (uintArg args ''seq'') (arg_str args ''by'') st) (sv_chat sv)\<rparr>)"
    using tool_chat_state(2) by blast
  then show ?thesis using TResolve inv server_inv_nonpost [OF inv] by (simp del: comms_step.simps)
next
  case (TImage penv env now t args)
  then show ?thesis using image_tool_inv [OF inv len] tmp by simp
next
  case (TGc dir_ok rm_ok t)
  obtain d n err where w: "BlobSweep dir_ok rm_ok (\<lambda>b. b \<in> LiveBlobIDs (sv_chat sv)) (sv_blobs sv) = (d, n, err)"
    by (metis prod_cases3)
  have "blob_inv (ig_sha256 ie) (sv_blobs sv)" using inv by (simp add: server_inv_def)
  from BlobSweep_keeps [OF this w]
  have "server_inv (ig_sha256 ie) (sv\<lparr>sv_blobs := d\<rparr>)" by (intro server_inv_blobs [OF inv]) (auto simp: stored_def)
  then show ?thesis using TGc inv w by (simp add: blob_gc_tool_def split: option.split)
next
  case (TSweep e1 e2 now ks)
  then show ?thesis using server_inv_nonpost [OF inv, of "OpSweep e1 e2 now ks"] by simp
qed (use inv server_inv_nonpost [OF inv] in \<open>simp_all add: tool_chat tool_chat_state del: comms_step.simps\<close>)

lemma server_inv_run:
  assumes "\<And>b. length (ig_sha256 ie b) = 32"
  shows "server_inv (ig_sha256 ie) sv \<Longrightarrow> \<forall>c \<in> set calls. tmp_ok c \<Longrightarrow> server_inv (ig_sha256 ie) (fold (tool_step ie) calls sv)"
  by (induction calls arbitrary: sv) (simp_all add: server_inv_step [OF _ assms])

section \<open>Reading the messages\<close>

lemma cursor_after_ge: "since \<le> cursor_after since ms \<and> (\<forall>m \<in> set ms. m_seq m \<le> cursor_after since ms)"
proof (induction ms arbitrary: since)
  case (Cons m ms)
  let ?c = "if m_seq m > since then m_seq m else since"
  have "cursor_after since (m # ms) = cursor_after ?c ms" by (simp add: cursor_after_def)
  then show ?case using Cons.IH [of ?c] by (auto split: if_splits)
qed (simp add: cursor_after_def)

lemma uintArg_nat: "n < 2 ^ 53 \<Longrightarrow> uintArg [key \<mapsto> JNum (of_nat n)] key = n"
proof -
  assume n: "n < 2 ^ 53"
  have "(of_nat n :: rat) < 2 ^ 64"
  proof -
    have "(of_nat n :: rat) < of_nat (2 ^ 53)" using n by (simp only: of_nat_less_iff)
    also have "\<dots> < 2 ^ 64" by simp
    finally show ?thesis .
  qed
  then show ?thesis by (simp add: uintArg_def f64_to_u64_def)
qed

lemma GetBySeq_unique:
  assumes "sorted_wrt (<) (map m_seq (cs_entries c))" "m \<in> set (cs_entries c)"
  shows "GetBySeq (m_tenant m) (m_seq m) c = Some m"
proof -
  have "distinct (map m_seq (cs_entries c))" using assms(1) by (simp add: strict_sorted_iff)
  then have "x = m" if "x \<in> set (cs_entries c)" "m_seq x = m_seq m" for x
    using that assms(2) by (auto simp: distinct_map dest: inj_onD)
  then have "find (\<lambda>x. m_tenant x = m_tenant m \<and> m_seq x = m_seq m) xs = Some m"
    if "set xs \<subseteq> set (cs_entries c)" "m \<in> set xs" for xs
    using that by (induction xs) auto
  then show ?thesis using assms(2) by (simp add: GetBySeq_def)
qed

section \<open>Properties\<close>

text \<open>C12. An image message can always be fetched: after any sequence of tool calls (posts, clears,
  claims, sweeps, image posts that fail at any point, pins, garbage collections that fail at any
  point), every image message in the index has its blob on disk, filed under its hash, and
  get_image answers with those bytes, the message's type and its caption.\<close>
theorem images_available:
  assumes "\<And>b. length (ig_sha256 ie b) = 32" and "\<forall>c \<in> set calls. tmp_ok c"
    and "sv = fold (tool_step ie) calls (empty_server ttl label owner)"
    and "m \<in> set (cs_entries (sv_chat sv))" and "m_blob m \<noteq> []" and "m_seq m < 2 ^ 53"
  shows "\<exists>raw. hex_encode (ig_sha256 ie raw) = m_blob m \<and>
     get_image_tool ie True (m_tenant m) [''seq'' \<mapsto> JNum (of_nat (m_seq m))] sv = ToolImage (ig_encode ie raw) (m_mime m) (m_text m)"
proof -
  have inv: "server_inv (ig_sha256 ie) sv"
    unfolding assms(3) by (rule server_inv_run [OF assms(1) server_inv_empty assms(2)])
  then have m: "0 < m_seq m" "stored sv (m_blob m)" using assms(4,5) by (auto simp: server_inv_def)
  then obtain raw where raw: "map_of (sv_blobs sv) (m_blob m) = Some raw" "validSHA (m_blob m)" by (auto simp: stored_def)
  then have "m_blob m = hex_encode (ig_sha256 ie raw)" using inv by (simp add: server_inv_def blob_inv_def)
  moreover have "GetBySeq (m_tenant m) (m_seq m) (sv_chat sv) = Some m"
    using inv by (intro GetBySeq_unique assms(4)) (simp add: server_inv_def comms_inv_def)
  ultimately show ?thesis
    using raw m(1) assms(5) by (intro exI [of _ raw]) (simp add: get_image_tool_def uintArg_nat [OF assms(6)] BlobGet_def)
qed

definition ex_ie :: image_env where
  "ex_ie = \<lparr>ig_sha256 = (\<lambda>_. replicate 32 1), ig_decode = (\<lambda>_. Some [7]), ig_encode = (\<lambda>_. ''Bw==''), ig_dims = (\<lambda>_. (1, 1))\<rparr>"

definition ex_image :: tool_call where
  "ex_image = TImage \<lparr>pe_stat = True, pe_tmp = ''.put-1'', pe_result = PutOk\<rparr> (Some 5) 5 2
     [''area'' \<mapsto> JStr ''a'', ''from'' \<mapsto> JStr ''f'', ''mime'' \<mapsto> JStr ''image/png'', ''data'' \<mapsto> JStr ''Bw=='']"

lemma ex_image_entries:
  "\<exists>m. cs_entries (sv_chat (tool_step ex_ie ex_image (empty_server 10 [] 1))) = [m] \<and> m_blob m = hex_encode (replicate 32 1) \<and>
     m_seq m = 1 \<and> m_tenant m = 2 \<and> m_mime m = ''image/png'' \<and> m_text m = []"
proof -
  let ?args = "[''area'' \<mapsto> JStr ''a'', ''from'' \<mapsto> JStr ''f'', ''mime'' \<mapsto> JStr ''image/png'', ''data'' \<mapsto> JStr ''Bw=='']"
  let ?env = "\<lparr>pe_stat = True, pe_tmp = ''.put-1'', pe_result = PutOk\<rparr>"
  have w: "wrap64 0 = 0" by (simp add: wrap64_def)
  obtain p where p: "image_payload ex_ie ?args = Inr ([7], p)" "pl_area p = ''a''" "pl_from p = ''f''" "pl_mime p = ''image/png''" "pl_text p = []"
    by (simp add: image_payload_def strArg_def uintArg_def ex_ie_def maxImage_def w)
  have b: "BlobPut (ig_sha256 ex_ie) ?env [7] [] = ([(hex_encode (replicate 32 1), [7])], Inr (hex_encode (replicate 32 1)))"
    by (simp add: BlobPut_def ex_ie_def Let_def)
  have "length (hex_encode (replicate 32 (1 :: byte))) = 64" by simp
  then have "hex_encode (replicate 32 (1 :: byte)) \<noteq> []" by force
  then show ?thesis
    by (simp add: ex_image_def post_image_tool_def p b empty_server_def comms_empty_def PostImage_def el_append_def el_empty_def
        pruneAt_def mk_message_def Let_def)
qed

theorem images_available_witness:
  "\<exists>m. m \<in> set (cs_entries (sv_chat (fold (tool_step ex_ie) [ex_image] (empty_server 10 [] 1)))) \<and>
     get_image_tool ex_ie True 2 [''seq'' \<mapsto> JNum 1] (fold (tool_step ex_ie) [ex_image] (empty_server 10 [] 1)) =
       ToolImage ''Bw=='' ''image/png'' []"
proof -
  let ?sv = "fold (tool_step ex_ie) [ex_image] (empty_server 10 [] 1)"
  obtain m where m: "cs_entries (sv_chat ?sv) = [m]" "m_blob m = hex_encode (replicate 32 1)" "m_seq m = 1" "m_tenant m = 2"
    "m_mime m = ''image/png''" "m_text m = []" using ex_image_entries by auto
  have len: "length (ig_sha256 ex_ie b) = 32" for b by (simp add: ex_ie_def)
  have ok: "\<forall>c \<in> set [ex_image]. tmp_ok c" by (simp add: ex_image_def validSHA_def)
  have "length (m_blob m) = 64" by (simp add: m)
  then have ne: "m_blob m \<noteq> []" by force
  have mem: "m \<in> set (cs_entries (sv_chat ?sv))" unfolding m(1) by simp
  have small: "m_seq m < 2 ^ 53" by (simp add: m(3))
  from images_available [OF len ok refl mem ne small] obtain raw where
    "get_image_tool ex_ie True (m_tenant m) [''seq'' \<mapsto> JNum (of_nat (m_seq m))] ?sv = ToolImage (ig_encode ex_ie raw) (m_mime m) (m_text m)"
    by blast
  moreover have "ig_encode ex_ie raw = ''Bw==''" by (simp add: ex_ie_def)
  ultimately have "get_image_tool ex_ie True 2 [''seq'' \<mapsto> JNum 1] ?sv = ToolImage ''Bw=='' ''image/png'' []" by (simp add: m)
  then show ?thesis using m(1) by (intro exI [of _ m]) simp
qed

text \<open>What a read shows, and what its cap hides: an area with at most 100 new messages is shown
  completely (filtered by target), and the returned cursor covers everything shown; but the cap is
  applied before the filter and the cursor runs past what it cut off, so a message with 100 newer
  ones in its area is not shown, also when it is the only one for the reader: then either nothing
  is shown, the answer is that there are no new messages and the cursor stands still, or the
  returned cursor is past the message and polling with it never shows it.\<close>
theorem read_cap_hides:
  assumes "sorted_wrt (<) (map m_seq (cs_entries (sv_chat sv)))"
    and "new = ReadArea t area since (sv_chat sv)" and "area \<noteq> []" and "since < 2 ^ 53"
    and "args = [''area'' \<mapsto> JStr area, ''since'' \<mapsto> JNum (of_nat since), ''target'' \<mapsto> JStr target]"
    and "read_tool hhmm now t args sv = ReadResult body cursor slots shown"
  shows "(length new \<le> 100 \<longrightarrow> map sm_seq shown = map m_seq (filter (for_target target) new)) \<and>
     (\<forall>m \<in> set shown. sm_seq m \<le> cursor) \<and>
     (\<forall>m \<in> set (take (length new - 100) new). m_seq m \<notin> set (map sm_seq shown) \<and>
        (if shown = [] then cursor = since \<and> suffix (''no new messages in '' @ area @ '' since #'' @ show_nat since) body
         else m \<notin> set (ReadArea t area cursor (sv_chat sv))))"
proof -
  let ?c = "sv_chat sv"
  define kept where "kept = last_n readCap new"
  have since: "uintArg args ''since'' = since"
    using uintArg_nat [OF assms(4), of "''since''"] by (simp add: assms(5) uintArg_def)
  have vals: "arg_str args ''area'' = area" "arg_str args ''target'' = target" by (simp_all add: assms(5) strArg_def)
  define vis where "vis = filter (for_target target) kept"
  have res: "shown = map (read_struct t ?c) vis" "cursor = cursor_after since vis"
    "vis = [] \<Longrightarrow> body = writePresence now (PresenceList t ?c) @ ''no new messages in '' @ area @ '' since #'' @ show_nat since"
    using assms(6,3) by (simp_all add: read_tool_def Let_def vals since kept_def [symmetric] vis_def [symmetric] assms(2) [symmetric])
  have seqs: "map sm_seq shown = map m_seq vis" by (simp add: res(1) read_struct_def comp_def)
  have small: "map sm_seq shown = map m_seq (filter (for_target target) new)" if "length new \<le> 100"
    using that by (simp add: seqs vis_def kept_def last_n_def readCap_def)
  have cover: "sm_seq m \<le> cursor" if "m \<in> set shown" for m
    using that cursor_after_ge [of since vis] by (auto simp: res read_struct_def)
  have "m_seq m \<notin> set (map sm_seq shown) \<and>
        (if shown = [] then cursor = since \<and> suffix (''no new messages in '' @ area @ '' since #'' @ show_nat since) body
         else m \<notin> set (ReadArea t area cursor ?c))" if m: "m \<in> set (take (length new - 100) new)" for m
  proof -
    have kept: "kept = drop (length new - 100) new" using m by (simp add: kept_def last_n_def readCap_def)
    have "sorted_wrt (<) (map m_seq new)"
      using sorted_wrt_filter assms(1) by (simp add: assms(2) ReadArea_def sorted_wrt_map)
    then have "sorted_wrt (\<lambda>x y. m_seq x < m_seq y) (take (length new - 100) new @ drop (length new - 100) new)"
      by (simp add: sorted_wrt_map)
    then have later: "m_seq m < m_seq x" if "x \<in> set kept" for x
      using that m unfolding kept sorted_wrt_append by blast
    then have no: "m_seq m \<notin> set (map sm_seq shown)" unfolding seqs vis_def by fastforce
    show ?thesis
    proof (cases "vis = []")
      case True
      then show ?thesis using no res(1,2) res(3) [OF True] by (simp add: cursor_after_def suffix_def)
    next
      case False
      then obtain x where x: "x \<in> set vis" by (cases vis) auto
      then have "m_seq m < cursor"
        using later [of x] cursor_after_ge [of since vis] by (force simp: vis_def res(2))
      then have "m \<notin> set (ReadArea t area cursor ?c)" by (simp add: ReadArea_def)
      then show ?thesis using no False res(1) by simp
    qed
  qed
  then show ?thesis using small cover by blast
qed

definition ex_message :: "gostring \<Rightarrow> nat \<Rightarrow> message" where
  "ex_message target q = mk_message q 2 5
     \<lparr>pl_area = ''a'', pl_from = ''f'', pl_kind = ''note'', pl_text = ''x'', pl_target = target, pl_ref = 0, pl_blob = [], pl_mime = [],
      pl_w = 0, pl_h = 0, pl_size = 0, pl_expires = 0, pl_deadline = 0\<rparr>"

definition ex_busy :: mcp_server where
  "ex_busy = (empty_server 10 [] 1)\<lparr>sv_chat := (comms_empty 10 [])
     \<lparr>cs_entries := ex_message ''me'' 1 # map (ex_message ''other'') [2 ..< 102]\<rparr>\<rparr>"

theorem read_cap_hides_witness:
  "\<exists>body. read_tool (\<lambda>_. []) 9 2 [''area'' \<mapsto> JStr ''a'', ''since'' \<mapsto> JNum (of_nat 0), ''target'' \<mapsto> JStr ''me''] ex_busy = ReadResult body 0 [] [] \<and>
     ex_message ''me'' 1 \<in> set (ReadArea 2 ''a'' 0 (sv_chat ex_busy)) \<and>
     suffix (''no new messages in '' @ ''a'' @ '' since #'' @ show_nat 0) body"
proof -
  let ?args = "[''area'' \<mapsto> JStr ''a'', ''since'' \<mapsto> JNum (of_nat 0), ''target'' \<mapsto> JStr ''me'']"
  note upt_rec_numeral [simp del]
  let ?others = "map (ex_message ''other'') [2 ..< 102]"
  have msg: "m_seq (ex_message tg q) = q" "m_area (ex_message tg q) = ''a''" "m_target (ex_message tg q) = tg" "m_tenant (ex_message tg q) = 2" for tg q
    by (simp_all add: ex_message_def mk_message_def)
  have sorted: "sorted_wrt (<) (map m_seq (cs_entries (sv_chat ex_busy)))"
    by (auto simp: ex_busy_def empty_server_def msg comp_def)
  have all: "filter (\<lambda>m. m_tenant m = 2 \<and> m_area m = ''a'' \<and> m_seq m > 0) ?others = ?others"
    by (rule filter_True) (auto simp: msg)
  have new: "ReadArea 2 ''a'' 0 (sv_chat ex_busy) = ex_message ''me'' 1 # ?others"
    using all by (simp add: ReadArea_def ex_busy_def empty_server_def msg)
  have vis: "filter (for_target ''me'') (last_n readCap (ex_message ''me'' 1 # ?others)) = []"
    by (auto simp: last_n_def readCap_def filter_empty_conv for_target_def msg)
  have vals: "uintArg ?args ''since'' = 0" "arg_str ?args ''area'' = ''a''" "arg_str ?args ''target'' = ''me''"
    by (simp_all add: uintArg_def strArg_def)
  have pres: "PresenceList 2 (sv_chat ex_busy) = []"
    by (simp add: PresenceList_def inner_def ex_busy_def comms_empty_def)
  obtain body where r: "read_tool (\<lambda>_. []) 9 2 ?args ex_busy = ReadResult body 0 [] []"
    unfolding read_tool_def Let_def vals new vis pres by (simp add: cursor_after_def presenceStruct_def)
  have "ex_message ''me'' 1 \<in> set (take (length (ex_message ''me'' 1 # ?others) - 100) (ex_message ''me'' 1 # ?others))" by simp
  then have "suffix (''no new messages in '' @ ''a'' @ '' since #'' @ show_nat 0) body"
    using read_cap_hides [OF sorted new [symmetric] _ _ refl r] by simp
  then show ?thesis using r new by auto
qed

text \<open>
  \<^verbatim>\<open>pin_image\<close> looks the message up and pins its blob without the lock that \<^verbatim>\<open>post_image\<close> and \<^verbatim>\<open>blob_gc\<close> share:
  when the message goes and a collection runs in between, the pin succeeds on a blob that is no
  longer there.
\<close>

lemma pin_after_gc_dangles:
  assumes "pin_lookup t args sv0 = Inr (q, b)" and "validSHA b" and "b \<noteq> []" and "b \<notin> LiveBlobIDs (sv_chat sv)"
    and "blob_inv sha256 (sv_blobs sv)" and "blob_gc_tool True rm_ok (sv_tenant sv) sv = (sv', ToolText answer)"
  shows "snd (pin_apply (Some clock) t True q b sv') = ToolText (''pinned'' @ '' image #'' @ show_nat q) \<and>
     b \<in> LiveBlobIDs (sv_chat (fst (pin_apply (Some clock) t True q b sv'))) \<and>
     BlobGet True b (sv_blobs (fst (pin_apply (Some clock) t True q b sv'))) = Inl BlobNotFound"
proof -
  obtain d n err where w: "BlobSweep True rm_ok (\<lambda>b. b \<in> LiveBlobIDs (sv_chat sv)) (sv_blobs sv) = (d, n, err)"
    by (metis prod_cases3)
  then have sv': "sv' = sv\<lparr>sv_blobs := d\<rparr>" "err = None"
    using assms(6) by (auto simp: blob_gc_tool_def split: option.splits)
  then have gone: "BlobGet True b d = Inl BlobNotFound" using BlobSweep_facts [OF assms(5) w] assms(2,4) by blast
  obtain c where c: "Pin (Some clock) t b True (sv_chat sv) = (c, None)" "t \<in> set (inner (cs_pinned c) b)"
    using assms(3) by (simp add: Pin_def el_append_def inner_pin_set)
  have p: "pin_apply (Some clock) t True q b sv' = (sv'\<lparr>sv_chat := c\<rparr>, ToolText (''pinned'' @ '' image #'' @ show_nat q))"
    unfolding pin_apply_def using c(1) sv' by simp
  show ?thesis using pinned_live [OF c(2)] gone sv' unfolding p by simp
qed

end
