(* ===== verification/Wake.thy ===== *)
theory Wake
  imports McpProps
begin

text \<open>
  The Stop hook \<^verbatim>\<open>cmd/sentry-wake/main.go\<close>: it reads its inbox from the server's rendered text, decides
  whether the turn is woken, and persists its cursor per session. JSON coding and the network are
  outside: the hook input, the state file and the reply arrive decoded, and a failed request or an
  undecodable reply is \<open>None\<close>. The inbox text it parses is the one \<open>inbox_text\<close> renders.
\<close>

section \<open>The decision\<close>

definition reflectEvery :: int where "reflectEvery = 40"

datatype action = actWake | actReflect | actClose | actBlockAlert

record wake_state =
  ws_Cursor :: nat
  ws_ReflectCount :: int

record inbox_msg =
  ix_Seq :: nat
  ix_From :: gostring
  ix_Kind :: gostring
  ix_Text :: gostring
  ix_Target :: gostring

definition max_seq :: "inbox_msg list \<Rightarrow> nat" where
  "max_seq ms = fold (\<lambda>m mx. if ix_Seq m > mx then ix_Seq m else mx) ms 0"

definition decide :: "inbox_msg list \<Rightarrow> wake_state \<Rightarrow> bool \<Rightarrow> int \<Rightarrow> action \<times> wake_state" where
  "decide msgs st stopActive toolDelta =
     (let hasNew = list_ex (\<lambda>m. ix_Seq m > ws_Cursor st) msgs
      in if \<not> stopActive \<and> hasNew then (actWake, st\<lparr>ws_Cursor := max_seq msgs\<rparr>)
         else if \<not> stopActive \<and> toolDelta \<ge> reflectEvery then (actReflect, st)
         else if stopActive \<and> hasNew then (actBlockAlert, st)
         else (actClose, st))"

section \<open>The state file\<close>

text \<open>\<^verbatim>\<open>filepath.Clean\<close> of a rooted path and \<^verbatim>\<open>filepath.Base\<close>.\<close>

fun clean_parts :: "gostring list \<Rightarrow> gostring list \<Rightarrow> gostring list" where
  "clean_parts [] acc = rev acc"
| "clean_parts (p # ps) acc =
     (if p = [] \<or> p = ''.'' then clean_parts ps acc
      else if p = ''..'' then clean_parts ps (tl acc)
      else clean_parts ps (p # acc))"

definition clean_rooted :: "gostring \<Rightarrow> gostring" where
  "clean_rooted s = CHR ''/'' # join_with ''/'' (clean_parts (split_on (CHR ''/'') s) [])"

definition path_base :: "gostring \<Rightarrow> gostring" where
  "path_base s =
     (if s = [] then ''.''
      else let b = rev (takeWhile (\<lambda>c. c \<noteq> CHR ''/'') (rev (trim_right_char (CHR ''/'') s)))
           in if b = [] then ''/'' else b)"

definition safeName :: "gostring \<Rightarrow> gostring" where
  "safeName sid =
     (if sid = [] then ''default''
      else let name = path_base (clean_rooted (CHR ''/'' # map (\<lambda>c. if c = CHR ''/'' then CHR ''_'' else c) sid))
           in if name = ''/'' \<or> name = ''.'' \<or> name = [] then ''default'' else name)"

text \<open>The state directory: what each file unmarshals to (the zero state when it is corrupt).\<close>

type_synonym wake_files = "gostring \<rightharpoonup> wake_state"

definition zero_state :: wake_state where
  "zero_state = \<lparr>ws_Cursor = 0, ws_ReflectCount = 0\<rparr>"

definition readState :: "gostring \<Rightarrow> wake_files \<Rightarrow> wake_state" where
  "readState sid fs = (case fs (safeName sid) of Some st \<Rightarrow> st | None \<Rightarrow> zero_state)"

datatype write_outcome = Written | NotWritten | Truncated

definition writeState :: "write_outcome \<Rightarrow> gostring \<Rightarrow> wake_state \<Rightarrow> wake_files \<Rightarrow> wake_files" where
  "writeState w sid st fs =
     (case w of Written \<Rightarrow> fs(safeName sid \<mapsto> st) | NotWritten \<Rightarrow> fs | Truncated \<Rightarrow> fs(safeName sid \<mapsto> zero_state))"

section \<open>Configuration\<close>

record wake_config =
  wc_url :: gostring
  wc_token :: gostring

definition trim_quotes :: "gostring \<Rightarrow> gostring" where
  "trim_quotes s =
     (let q = (\<lambda>c. c = CHR 0x22 \<or> c = CHR 0x27) in rev (dropWhile q (rev (dropWhile q s))))"

definition env_line :: "gostring \<Rightarrow> wake_config \<Rightarrow> wake_config" where
  "env_line line0 c =
     (let line = trim_space line0
      in if line = [] \<or> prefix ''#'' line then c
         else case cut ''='' line of None \<Rightarrow> c
              | Some (k0, v0) \<Rightarrow>
                  let k = trim_space k0; v = trim_quotes (trim_space v0)
                  in if k = ''SENTRY_MCP_URL'' then (if wc_url c = [] then c\<lparr>wc_url := v\<rparr> else c)
                     else if k = ''SENTRY_MCP_TOKEN'' then (if wc_token c = [] then c\<lparr>wc_token := v\<rparr> else c)
                     else c)"

definition loadEnvFile :: "gostring option \<Rightarrow> wake_config \<Rightarrow> wake_config" where
  "loadEnvFile data c = (case data of None \<Rightarrow> c | Some d \<Rightarrow> fold env_line (split_on (CHR 0x0A) d) c)"

text \<open>The environment, and what \<^verbatim>\<open>.matrix-sentry.env\<close> in the home directory holds, if there is one.\<close>

definition loadConfig :: "(gostring \<Rightarrow> gostring) \<Rightarrow> gostring option option \<Rightarrow> wake_config" where
  "loadConfig env home =
     (let c = \<lparr>wc_url = env ''SENTRY_MCP_URL'', wc_token = env ''SENTRY_MCP_TOKEN''\<rparr>
      in if wc_url c = [] then (case home of None \<Rightarrow> c | Some data \<Rightarrow> loadEnvFile data c) else c)"

section \<open>Parsing the inbox\<close>

definition parseInboxLine :: "gostring \<Rightarrow> inbox_msg option" where
  "parseInboxLine row =
     (if \<not> prefix ''#'' row then None
      else case cut '' '' (tl row) of None \<Rightarrow> None | Some (seqStr, rest) \<Rightarrow>
       (case parse_uint64 seqStr of None \<Rightarrow> None | Some q \<Rightarrow>
        if \<not> prefix ''['' rest then None
        else case cut '']'' (tl rest) of None \<Rightarrow> None | Some (kind, rest1) \<Rightarrow>
         (case cut arrow (trim_prefix '' '' rest1) of None \<Rightarrow> None | Some (from, rest2) \<Rightarrow>
          let msg = (\<lambda>target body. Some \<lparr>ix_Seq = q, ix_From = trim_space from, ix_Kind = trim_space kind,
                                        ix_Text = body, ix_Target = trim_space target\<rparr>)
          in case cut '' @'' rest2 of
               Some (tgt, after) \<Rightarrow> (case cut '': '' after of None \<Rightarrow> None | Some (_, body) \<Rightarrow> msg tgt body)
             | None \<Rightarrow> (case cut '': '' rest2 of None \<Rightarrow> None | Some (tgt, body) \<Rightarrow> msg tgt body))))"

definition parse_step :: "gostring \<Rightarrow> inbox_msg list \<times> nat \<Rightarrow> inbox_msg list \<times> nat" where
  "parse_step row0 = (\<lambda>(msgs, cursor).
     let row = trim_space row0
     in if prefix ''(cursor: #'' row
        then (case parse_uint64 (trim_space (trim_suffix '')'' (trim_prefix ''(cursor: #'' row))) of
                Some n \<Rightarrow> (msgs, n) | None \<Rightarrow> (msgs, cursor))
        else case parseInboxLine row of Some m \<Rightarrow> (msgs @ [m], cursor) | None \<Rightarrow> (msgs, cursor))"

definition parseInboxText :: "gostring \<Rightarrow> inbox_msg list \<times> nat" where
  "parseInboxText body = fold parse_step (split_on (CHR 0x0A) body) ([], 0)"

section \<open>What the hook answers\<close>

definition dash :: gostring where "dash = [CHR 0xE2, CHR 0x80, CHR 0x94]"

definition reflectionPrompt :: gostring where
  "reflectionPrompt =
     ''Pause before finishing. Reflect on the work since your last memory checkpoint. '' @
     ''If '' @ dash @ '' and only if '' @ dash @ '' you learned durable knowledge (a decision made, a convention adopted, a gotcha '' @
     ''discovered) that a future session would benefit from, persist it: first call the recall tool to avoid '' @
     ''duplicating what is already stored, then call the remember tool once per genuinely-new fact, each fact '' @
     ''self-contained and concise. If recall surfaces a memory that is now outdated or wrong, call remember '' @
     ''with supersedes set to that memory'' @ [CHR 0x27] @ ''s id to replace it instead of storing a contradicting duplicate. '' @
     ''If remember reports your fact was deduped but it is genuinely distinct (not a restatement of the named '' @
     ''memory), call remember again with force set to true to store it anyway. '' @
     ''Do NOT store transient state, file contents, task progress, or anything already in the code or git. '' @
     ''If nothing durable was learned, store nothing. Be terse '' @ dash @ '' do not narrate this to the user. Then finish.''"

definition reason_line :: "inbox_msg \<Rightarrow> gostring" where
  "reason_line m =
     ''  #'' @ show_nat (ix_Seq m) @ '' ['' @ ix_Kind m @ ''] '' @ ix_From m @ arrow @ ix_Target m @ '': '' @ ix_Text m @ nl"

definition wakeReason :: "inbox_msg list \<Rightarrow> nat \<Rightarrow> gostring" where
  "wakeReason msgs since =
     ''New directed messages in your Matrix Sentry inbox '' @ dash @ '' do not finish yet:'' @ nl @
     concat (map reason_line (filter (\<lambda>m. \<not> ix_Seq m \<le> since) msgs)) @
     ''Process them, then reply with post(area, kind='' @ [CHR 0x22] @ ''answer'' @ [CHR 0x22] @ '', ref=<seq>, target=<from>).''"

definition closeText :: "gostring \<Rightarrow> nat \<Rightarrow> gostring" where
  "closeText sid cursor = ''cierre: '' @ sid @ '' '' @ dash @ '' inbox caught up @cursor #'' @ show_nat cursor"

definition blockAlertText :: "inbox_msg list \<Rightarrow> nat \<Rightarrow> gostring" where
  "blockAlertText msgs cursor =
     ''wake guard: holding, '' @ show_nat (length (filter (\<lambda>m. ix_Seq m > cursor) msgs)) @ '' undelivered @#'' @ show_nat cursor"

text \<open>The count of tool uses is \<open>None\<close> when the transcript cannot be read.\<close>

definition toolActivity :: "int option \<Rightarrow> int \<Rightarrow> int \<times> int" where
  "toolActivity uses reflectCount =
     (case uses of None \<Rightarrow> (0, reflectCount) | Some n \<Rightarrow> (n - reflectCount, n))"

record hook_input =
  hk_SessionID :: gostring
  hk_StopHookActive :: bool
  hk_Cwd :: gostring

text \<open>\<open>we_inbox\<close> is the text the server replies to an inbox request, \<open>we_wd\<close> the working directory.\<close>

record wake_env =
  we_cfg :: wake_config
  we_wd :: gostring
  we_agent :: gostring
  we_area :: gostring
  we_inbox :: "gostring \<Rightarrow> nat \<Rightarrow> gostring option"
  we_count :: "int option"
  we_write :: write_outcome

datatype wake_output = Silent | Block gostring | Note gostring gostring gostring

definition fetchInbox :: "wake_env \<Rightarrow> gostring \<Rightarrow> nat \<Rightarrow> inbox_msg list \<times> nat" where
  "fetchInbox env agent since = (case we_inbox env agent since of None \<Rightarrow> ([], 0) | Some body \<Rightarrow> parseInboxText body)"

text \<open>The agent and area of a run, the state it reads and the messages it gets.\<close>

definition hook_agent :: "hook_input \<Rightarrow> wake_env \<Rightarrow> gostring" where
  "hook_agent h env = (if we_agent env \<noteq> [] then we_agent env else path_base (if hk_Cwd h = [] then we_wd env else hk_Cwd h))"

definition hook_area :: "hook_input \<Rightarrow> wake_env \<Rightarrow> gostring" where
  "hook_area h env = (if we_area env \<noteq> [] then we_area env else path_base (if hk_Cwd h = [] then we_wd env else hk_Cwd h))"

definition hook_msgs :: "hook_input \<Rightarrow> wake_env \<Rightarrow> wake_files \<Rightarrow> inbox_msg list" where
  "hook_msgs h env fs = fst (fetchInbox env (hook_agent h env) (ws_Cursor (readState (hk_SessionID h) fs)))"

definition run :: "hook_input option \<Rightarrow> wake_env \<Rightarrow> wake_files \<Rightarrow> wake_files \<times> wake_output" where
  "run raw env fs =
     (case raw of None \<Rightarrow> (fs, Silent) | Some h \<Rightarrow>
      if wc_url (we_cfg env) = [] then (fs, Silent)
      else
        let agent = hook_agent h env;
            area = hook_area h env;
            st = readState (hk_SessionID h) fs;
            msgs = hook_msgs h env fs;
            (delta, uses) = toolActivity (we_count env) (ws_ReflectCount st)
        in case decide msgs st (hk_StopHookActive h) delta of
             (actWake, ns) \<Rightarrow> (writeState (we_write env) (hk_SessionID h) ns fs, Block (wakeReason msgs (ws_Cursor st)))
           | (actReflect, ns) \<Rightarrow>
               (writeState (we_write env) (hk_SessionID h) (ns\<lparr>ws_ReflectCount := uses\<rparr>) fs, Block reflectionPrompt)
           | (actBlockAlert, _) \<Rightarrow> (fs, Note area agent (blockAlertText msgs (ws_Cursor st)))
           | (actClose, _) \<Rightarrow> (fs, Note area agent (closeText (hk_SessionID h) (ws_Cursor st))))"

section \<open>Names\<close>

text \<open>A session id never leaves the state directory: whatever the id, the file name is a single path
  component, neither empty nor a reference to the directory or its parent.\<close>
theorem safeName_confined:
  "CHR ''/'' \<notin> set (safeName sid) \<and> safeName sid \<noteq> [] \<and> safeName sid \<noteq> ''.'' \<and> safeName sid \<noteq> ''..''"
proof (cases "sid = []")
  case False
  define s where "s = map (\<lambda>c. if c = CHR ''/'' then CHR ''_'' else c) sid"
  have s: "CHR ''/'' \<notin> set s" "s \<noteq> []" using False by (auto simp: s_def)
  have parts: "clean_parts (split_on (CHR ''/'') (CHR ''/'' # s)) [] = (if s = ''.'' \<or> s = ''..'' then [] else [s])"
    using s by (simp add: split_on_none)
  have base: "path_base (CHR ''/'' # x) = (if x = [] then ''/'' else x)" if "CHR ''/'' \<notin> set x" for x
  proof (cases "x = []")
    case True
    then show ?thesis by (simp add: path_base_def trim_right_char_def)
  next
    case x: False
    have "last x \<noteq> CHR ''/''" using that x by (metis last_in_set)
    then have "trim_right_char (CHR ''/'') (CHR ''/'' # x) = CHR ''/'' # x"
      using x by (cases x rule: rev_cases) (simp_all add: trim_right_char_def)
    moreover have "takeWhile (\<lambda>c. c \<noteq> CHR ''/'') (rev x @ [CHR ''/'']) = rev x"
      using that by (subst takeWhile_append2) auto
    ultimately show ?thesis using x by (simp add: path_base_def)
  qed
  have c: "clean_rooted (CHR ''/'' # s) = CHR ''/'' # (if s = ''.'' \<or> s = ''..'' then [] else s)"
    unfolding clean_rooted_def parts by simp
  have "safeName sid = (if s = ''.'' \<or> s = ''..'' then ''default'' else s)"
    unfolding safeName_def s_def [symmetric] c using False s base [of "[]"] base [of s] by (auto simp: Let_def)
  then show ?thesis using s by auto
qed (simp add: safeName_def)

end
