(* ===== verification/WakeProps.thy ===== *)
theory WakeProps
  imports Wake
begin

text \<open>
  The hook against the server: what it parses from the rendered inbox, that no message wakes a session
  twice, and what a message with a line break can do.
\<close>

section \<open>Lines\<close>

lemma parse_message_line:
  assumes "q < 2 ^ 64" "CHR '']'' \<notin> set K" "trim_space K = K" "\<not> sublist arrow F" "trim_space F = F"
    "\<not> sublist '' @'' T" "trim_space T = T" "\<not> sublist '': '' A"
  shows "parseInboxLine (''#'' @ show_nat q @ '' ['' @ K @ ''] '' @ F @ arrow @ T @ '' @'' @ A @ '': '' @ X) =
     Some \<lparr>ix_Seq = q, ix_From = F, ix_Kind = K, ix_Text = X, ix_Target = T\<rparr>"
proof -
  have "CHR '' '' \<notin> set (show_nat q)" using show_nat_set [of "CHR '' ''" q] by (auto simp: is_digit_def)
  then have c1: "cut '' '' (show_nat q @ CHR '' '' # R) = Some (show_nat q, R)" for R by (rule cut_char)
  have c2: "cut '']'' (K @ CHR '']'' # R) = Some (K, R)" for R by (rule cut_char [OF assms(2)])
  have c3: "cut arrow (F @ arrow @ R) = Some (F, R)" for R
    using cut_first [of arrow "CHR 0xE2" "[CHR 0x86, CHR 0x92]" F R] assms(4) by (simp add: arrow_def)
  have c4: "cut '' @'' (T @ CHR '' '' # CHR ''@'' # R) = Some (T, R)" for R
    using cut_first [OF refl _ assms(6), of R] by simp
  have c5: "cut '': '' (A @ CHR '':'' # CHR '' '' # R) = Some (A, R)" for R
    using cut_first [OF refl _ assms(8), of R] by simp
  have p: "trim_prefix '' '' (CHR '' '' # R) = R" for R by (simp add: trim_prefix_def)
  show ?thesis
    by (simp add: parseInboxLine_def c1 parse_show [OF assms(1)] c2 p c3 c4 c5 assms(3,5,7))
qed

lemma split_on_lines:
  "\<forall>l \<in> set ls. c \<notin> set l \<Longrightarrow> split_on c (concat (map (\<lambda>l. l @ [c]) ls) @ t) = ls @ split_on c t"
  by (induction ls) (simp_all add: split_on_append)

lemma skip_line:
  assumes "trim_space l = h # r" "h \<noteq> CHR ''#''" "h \<noteq> CHR ''(''"
  shows "parse_step l st = st"
  using assms by (cases st) (simp add: parse_step_def parseInboxLine_def)

lemma trim_left_idle: "x \<noteq> [] \<Longrightarrow> \<not> is_space (hd x) \<Longrightarrow> \<exists>r. trim_space x = hd x # r"
proof -
  assume x: "x \<noteq> []" "\<not> is_space (hd x)"
  define r where "r = dropWhile is_space (rev x)"
  have t: "trim_space x = rev r" using x by (cases x) (simp_all add: trim_space_def trim_left_def r_def)
  have "hd x \<in> set (rev x)" using x(1) by simp
  then have r: "r \<noteq> []" using x(2) unfolding r_def by (metis dropWhile_eq_Nil_conv)
  have "last (rev x) = last r" using r takeWhile_dropWhile_id [of is_space "rev x"] by (metis last_appendR r_def)
  then have "hd x = last r" using x(1) by (simp add: last_rev)
  then have "trim_space x = hd x # rev (butlast r)" using r unfolding t by (metis append_butlast_last_id rev_eq_Cons_iff rev_rev_ident)
  then show ?thesis by blast
qed

lemma skip_text: "x \<noteq> [] \<Longrightarrow> \<not> is_space (hd x) \<Longrightarrow> hd x \<noteq> CHR ''#'' \<Longrightarrow> hd x \<noteq> CHR ''('' \<Longrightarrow> parse_step x st = st"
  using trim_left_idle [of x] skip_line [of x "hd x"] by blast

lemma cursor_line:
  assumes "n < 2 ^ 64"
  shows "parse_step (''(cursor: #'' @ show_nat n @ '')'') (ms, c) = (ms, n)"
proof -
  have t: "trim_space (''(cursor: #'' @ show_nat n @ '')'') = ''(cursor: #'' @ show_nat n @ '')''"
    by (rule trim_space_idle) (simp add: is_space_def)
  have "trim_suffix '')'' (trim_prefix ''(cursor: #'' (''(cursor: #'' @ show_nat n @ '')'')) = show_nat n"
    unfolding trim_prefix_append by (rule trim_suffix_append)
  then show ?thesis unfolding parse_step_def t Let_def by (simp add: show_nat_trim parse_show [OF assms])
qed

section \<open>Clean messages\<close>

text \<open>
  What a message line shows as kind and text, and when the fields do not contain the separators the
  parser cuts at. (A text may contain them; only a line break in it matters.)
\<close>

definition shown_kind :: "message \<Rightarrow> gostring" where
  "shown_kind m = (if m_blob m \<noteq> [] then ''image'' else m_kind m)"

definition shown_text :: "(int \<Rightarrow> gostring) \<Rightarrow> tenant \<Rightarrow> comms_store \<Rightarrow> message \<Rightarrow> gostring" where
  "shown_text hhmm t c m =
     (if m_blob m \<noteq> []
      then m_text m @ '' ['' @ m_mime m @ '' '' @ show_int (m_w m) @ ''x'' @ show_int (m_h m) @ '' '' @ get_image_text m
      else m_text m @ task_text hhmm t m c)"

definition clean_message :: "(int \<Rightarrow> gostring) \<Rightarrow> tenant \<Rightarrow> comms_store \<Rightarrow> message \<Rightarrow> bool" where
  "clean_message hhmm t c m \<longleftrightarrow>
     m_seq m < 2 ^ 64 \<and> CHR '']'' \<notin> set (shown_kind m) \<and> trim_space (shown_kind m) = shown_kind m \<and>
     \<not> sublist arrow (m_from m) \<and> trim_space (m_from m) = m_from m \<and>
     \<not> sublist '' @'' (shown_target m) \<and> trim_space (shown_target m) = shown_target m \<and>
     \<not> sublist '': '' (m_area m) \<and> shown_text hhmm t c m \<noteq> [] \<and> \<not> is_space (last (shown_text hhmm t c m)) \<and>
     CHR 0x0A \<notin> set (shown_kind m) \<union> set (m_from m) \<union> set (shown_target m) \<union> set (m_area m) \<union> set (shown_text hhmm t c m)"

definition clean_slot :: "presence \<Rightarrow> bool" where
  "clean_slot p \<longleftrightarrow> CHR 0x0A \<notin> set (pr_Agent p) \<union> set (pr_Area p) \<union> set (pr_Status p)"

definition inbox_view :: "(int \<Rightarrow> gostring) \<Rightarrow> tenant \<Rightarrow> comms_store \<Rightarrow> message \<Rightarrow> inbox_msg" where
  "inbox_view hhmm t c m =
     \<lparr>ix_Seq = m_seq m, ix_From = m_from m, ix_Kind = shown_kind m, ix_Text = shown_text hhmm t c m, ix_Target = shown_target m\<rparr>"

definition message_core :: "(int \<Rightarrow> gostring) \<Rightarrow> tenant \<Rightarrow> comms_store \<Rightarrow> message \<Rightarrow> gostring" where
  "message_core hhmm t c m =
     ''#'' @ show_nat (m_seq m) @ '' ['' @ shown_kind m @ ''] '' @ m_from m @ arrow @ shown_target m @ '' @'' @ m_area m @ '': '' @
     shown_text hhmm t c m"

lemma inbox_line_core: "inbox_line hhmm t c m = message_core hhmm t c m @ [CHR 0x0A]"
  by (simp add: inbox_line_def message_core_def shown_kind_def shown_text_def nl_def)

lemma show_nat_nl [simp]: "CHR 0x0A \<notin> set (show_nat n)"
  using show_nat_set [of "CHR 0x0A" n] by (auto simp: is_digit_def)

lemma show_int_nl [simp]: "CHR 0x0A \<notin> set (show_int i)"
  by (simp add: show_int_def)

lemma message_core_nl: "clean_message hhmm t c m \<Longrightarrow> CHR 0x0A \<notin> set (message_core hhmm t c m)"
  by (simp add: clean_message_def message_core_def arrow_def)

lemma parse_core:
  assumes "clean_message hhmm t c m"
  shows "parse_step (message_core hhmm t c m) (ms, k) = (ms @ [inbox_view hhmm t c m], k)"
proof -
  have x: "shown_text hhmm t c m \<noteq> []" "\<not> is_space (last (shown_text hhmm t c m))" using assms by (auto simp: clean_message_def)
  have trim: "trim_space (message_core hhmm t c m) = message_core hhmm t c m"
  proof (rule trim_space_idle)
    have "hd (message_core hhmm t c m) = CHR ''#''" "last (message_core hhmm t c m) = last (shown_text hhmm t c m)"
      using x(1) by (simp_all add: message_core_def)
    then show "message_core hhmm t c m = [] \<or> \<not> is_space (hd (message_core hhmm t c m)) \<and> \<not> is_space (last (message_core hhmm t c m))"
      using x(2) by (simp add: is_space_def)
  qed
  have "parseInboxLine (message_core hhmm t c m) = Some (inbox_view hhmm t c m)"
    unfolding message_core_def inbox_view_def using assms by (intro parse_message_line) (simp_all add: clean_message_def)
  moreover have "\<not> prefix ''(cursor: #'' (message_core hhmm t c m)" by (simp add: message_core_def)
  ultimately show ?thesis by (simp add: parse_step_def trim)
qed

lemma parse_cores:
  "\<forall>m \<in> set msgs. clean_message hhmm t c m \<Longrightarrow>
   fold parse_step (map (message_core hhmm t c) msgs) (ms, k) = (ms @ map (inbox_view hhmm t c) msgs, k)"
  by (induction msgs arbitrary: ms) (simp_all add: parse_core)

section \<open>The whole text\<close>

lemma presence_line_core:
  "\<exists>l. presence_line now p = l @ [CHR 0x0A] \<and> l \<noteq> [] \<and> hd l = CHR ''~'' \<and> (clean_slot p \<longrightarrow> CHR 0x0A \<notin> set l)"
proof -
  have "CHR 0x0A \<notin> set (compactAge a)" for a by (simp add: compactAge_def Let_def)
  then show ?thesis
    by (intro exI [of _ "''~ '' @ pr_Agent p @ (if pr_Area p \<noteq> [] then '' ['' @ pr_Area p @ '']'' else []) @
         '': '' @ pr_Status p @ '' ('' @ compactAge (now - pr_TS p) @ '')''"])
       (simp add: presence_line_def nl_def clean_slot_def)
qed

lemma skip_presence:
  assumes "\<forall>p \<in> set slots. clean_slot p"
  shows "fold parse_step (split_on (CHR 0x0A) (writePresence now slots @ t)) st = fold parse_step (split_on (CHR 0x0A) t) st"
  using assms
proof (induction slots arbitrary: st)
  case (Cons p slots)
  obtain l where l: "presence_line now p = l @ [CHR 0x0A]" "l \<noteq> []" "hd l = CHR ''~''" "CHR 0x0A \<notin> set l"
    using presence_line_core [of now p] Cons.prems by auto
  have "parse_step l st = st" using l(2,3) by (intro skip_text) (simp_all add: is_space_def)
  moreover have "split_on (CHR 0x0A) (writePresence now (p # slots) @ t) = l # split_on (CHR 0x0A) (writePresence now slots @ t)"
    using split_on_append [OF l(4), of "writePresence now slots @ t"] by (simp add: writePresence_def l(1))
  ultimately show ?case using Cons by simp
qed (simp add: writePresence_def)

lemma cursor_after_less: "since < n \<Longrightarrow> \<forall>m \<in> set ms. m_seq m < n \<Longrightarrow> cursor_after since ms < (n :: nat)"
  by (induction ms arbitrary: since) (simp_all add: cursor_after_def)

lemma inbox_parsed:
  assumes "\<forall>m \<in> set (Inbox t target since c). clean_message hhmm t c m" and "\<forall>p \<in> set (PresenceList t c). clean_slot p"
    and "CHR 0x0A \<notin> set (quote target)" and "since < 2 ^ 64"
  shows "parseInboxText (inbox_text hhmm quote now t target since c) =
     (map (inbox_view hhmm t c) (Inbox t target since c),
      if Inbox t target since c = [] then 0 else cursor_after since (Inbox t target since c))"
proof (cases "Inbox t target since c = []")
  case True
  have "parse_step (''inbox empty for '' @ quote target @ '' (since #'' @ show_nat since @ '')'') st = st" for st
    by (rule skip_text) (simp_all add: is_space_def)
  moreover have "split_on (CHR 0x0A) (''inbox empty for '' @ quote target @ '' (since #'' @ show_nat since @ '')'') =
      [''inbox empty for '' @ quote target @ '' (since #'' @ show_nat since @ '')'']"
    using assms(3) by (intro split_on_none) simp
  ultimately show ?thesis
    unfolding parseInboxText_def inbox_text_def Let_def skip_presence [OF assms(2)] using True by simp
next
  case False
  let ?msgs = "Inbox t target since c"
  define head where "head = show_nat (length ?msgs) @ '' message(s) for '' @ quote target @ '':''"
  define last_line where "last_line = ''(cursor: #'' @ show_nat (cursor_after since ?msgs) @ '')''"
  have hd_digit: "is_digit (hd head)" "head \<noteq> []"
    using show_nat_digits [of "length ?msgs"] by (cases "show_nat (length ?msgs)"; simp add: head_def)+
  have head: "parse_step head st = st" for st
    using hd_digit by (intro skip_text) (auto simp: is_digit_def is_space_def)
  have head_nl: "CHR 0x0A \<notin> set head" using assms(3) by (simp add: head_def)
  have cores: "\<forall>l \<in> set (map (message_core hhmm t c) ?msgs). CHR 0x0A \<notin> set l" using assms(1) message_core_nl by auto
  have text_eq: "show_nat (length ?msgs) @ '' message(s) for '' @ quote target @ '':'' @ nl @
        concat (map (inbox_line hhmm t c) ?msgs) @ last_line =
      head @ CHR 0x0A # concat (map (\<lambda>l. l @ [CHR 0x0A]) (map (message_core hhmm t c) ?msgs)) @ last_line"
    by (simp add: head_def nl_def inbox_line_core [abs_def] comp_def)
  have lines: "split_on (CHR 0x0A) (head @ CHR 0x0A # concat (map (\<lambda>l. l @ [CHR 0x0A]) (map (message_core hhmm t c) ?msgs)) @ last_line) =
      head # map (message_core hhmm t c) ?msgs @ [last_line]"
    unfolding split_on_append [OF head_nl] split_on_lines [OF cores] by (simp add: last_line_def split_on_none)
  have "cursor_after since ?msgs < 2 ^ 64" using assms(1,4) by (intro cursor_after_less) (auto simp: clean_message_def)
  then have last_parse: "parse_step last_line (ms, k) = (ms, cursor_after since ?msgs)" for ms k
    unfolding last_line_def by (rule cursor_line)
  have whole: "inbox_text hhmm quote now t target since c = writePresence now (PresenceList t c) @
      (head @ CHR 0x0A # concat (map (\<lambda>l. l @ [CHR 0x0A]) (map (message_core hhmm t c) ?msgs)) @ last_line)"
    using text_eq False unfolding last_line_def inbox_text_def Let_def by simp
  have "parseInboxText (inbox_text hhmm quote now t target since c) =
      fold parse_step (head # map (message_core hhmm t c) ?msgs @ [last_line]) ([], 0)"
    unfolding parseInboxText_def whole skip_presence [OF assms(2)] lines ..
  then show ?thesis using False by (simp add: head parse_cores [OF assms(1)] last_parse)
qed

section \<open>Wakes and the cursor\<close>

text \<open>The messages a run reports in a wake.\<close>

definition reported :: "hook_input \<Rightarrow> wake_env \<Rightarrow> wake_files \<Rightarrow> inbox_msg list" where
  "reported h env fs =
     (if wc_url (we_cfg env) \<noteq> [] \<and> \<not> hk_StopHookActive h
      then filter (\<lambda>m. ws_Cursor (readState (hk_SessionID h) fs) < ix_Seq m) (hook_msgs h env fs) else [])"

lemma max_fold_ge:
  "x \<le> fold (\<lambda>m mx. if ix_Seq m > mx then ix_Seq m else mx) ms x \<and>
   (\<forall>m \<in> set ms. ix_Seq m \<le> fold (\<lambda>m mx. if ix_Seq m > mx then ix_Seq m else mx) ms x)"
proof (induction ms arbitrary: x)
  case (Cons a ms)
  let ?x = "if ix_Seq a > x then ix_Seq a else x"
  show ?case using Cons.IH [of ?x] by (auto split: if_splits)
qed simp

lemma max_seq_ge: "m \<in> set ms \<Longrightarrow> ix_Seq m \<le> max_seq ms"
  using max_fold_ge [where ms = ms and x = 0] by (simp add: max_seq_def)

lemma max_seq_le: "\<forall>m \<in> set ms. ix_Seq m \<le> b \<Longrightarrow> max_seq ms \<le> b"
proof -
  have "\<forall>m \<in> set ms. ix_Seq m \<le> b \<Longrightarrow> x \<le> b \<Longrightarrow> fold (\<lambda>m mx. if ix_Seq m > mx then ix_Seq m else mx) ms x \<le> b" for x
    by (induction ms arbitrary: x) simp_all
  then show "\<forall>m \<in> set ms. ix_Seq m \<le> b \<Longrightarrow> max_seq ms \<le> b" by (simp add: max_seq_def)
qed

abbreviation cursor_of :: "gostring \<Rightarrow> wake_files \<Rightarrow> nat" where
  "cursor_of sid fs \<equiv> ws_Cursor (readState sid fs)"

lemma run_wake:
  assumes "reported h env fs \<noteq> []"
  shows "run (Some h) env fs =
     (writeState (we_write env) (hk_SessionID h)
        ((readState (hk_SessionID h) fs)\<lparr>ws_Cursor := max_seq (hook_msgs h env fs)\<rparr>) fs,
      Block (wakeReason (hook_msgs h env fs) (cursor_of (hk_SessionID h) fs)))"
proof -
  obtain m where "m \<in> set (reported h env fs)" using assms by (cases "reported h env fs") auto
  then have "list_ex (\<lambda>m. cursor_of (hk_SessionID h) fs < ix_Seq m) (hook_msgs h env fs)" "\<not> hk_StopHookActive h" "wc_url (we_cfg env) \<noteq> []"
    by (auto simp: reported_def list_ex_iff split: if_splits)
  then show ?thesis by (simp add: run_def decide_def Let_def split_def)
qed

lemma run_quiet:
  assumes "reported h env fs = []"
  shows "(fst (run (Some h) env fs) = fs \<or>
      (\<exists>n. fst (run (Some h) env fs) =
         writeState (we_write env) (hk_SessionID h) ((readState (hk_SessionID h) fs)\<lparr>ws_ReflectCount := n\<rparr>) fs)) \<and>
     (\<exists>area agent body. snd (run (Some h) env fs) \<in> {Silent, Block reflectionPrompt, Note area agent body})"
proof (cases "wc_url (we_cfg env) = [] \<or> hk_StopHookActive h")
  case True
  then show ?thesis by (auto simp: run_def decide_def Let_def split_def)
next
  case False
  then have "\<not> list_ex (\<lambda>m. cursor_of (hk_SessionID h) fs < ix_Seq m) (hook_msgs h env fs)"
    using assms by (auto simp: reported_def list_ex_iff filter_empty_conv)
  then show ?thesis using False by (auto simp: run_def decide_def Let_def split_def)
qed

lemma cursor_write:
  assumes "w \<noteq> Truncated" "ws_Cursor (readState s0 fs) \<le> ws_Cursor st"
  shows "cursor_of sid fs \<le> cursor_of sid (writeState w s0 st fs)"
  using assms by (cases w) (auto simp: writeState_def readState_def)

lemma cursor_mono:
  assumes "we_write env \<noteq> Truncated"
  shows "cursor_of sid fs \<le> cursor_of sid (fst (run (Some h) env fs))"
proof (cases "reported h env fs = []")
  case True
  have "cursor_of sid fs \<le> cursor_of sid (writeState (we_write env) (hk_SessionID h) ((readState (hk_SessionID h) fs)\<lparr>ws_ReflectCount := n\<rparr>) fs)" for n
    by (rule cursor_write [OF assms]) simp
  then show ?thesis using run_quiet [OF True] by auto
next
  case False
  then obtain m where "m \<in> set (reported h env fs)" by (cases "reported h env fs") auto
  then have "m \<in> set (hook_msgs h env fs)" "cursor_of (hk_SessionID h) fs < ix_Seq m"
    by (auto simp: reported_def split: if_splits)
  then have "cursor_of (hk_SessionID h) fs \<le> max_seq (hook_msgs h env fs)" using max_seq_ge by fastforce
  then show ?thesis unfolding run_wake [OF False] by (simp add: cursor_write [OF assms])
qed

definition hook_runs :: "(hook_input \<times> wake_env) list \<Rightarrow> wake_files \<Rightarrow> wake_files" where
  "hook_runs rs fs = fold (\<lambda>(h, env). fst \<circ> run (Some h) env) rs fs"

lemma cursor_mono_runs:
  "\<forall>(h, env) \<in> set rs. we_write env \<noteq> Truncated \<Longrightarrow> cursor_of sid fs \<le> cursor_of sid (hook_runs rs fs)"
proof (induction rs arbitrary: fs)
  case (Cons r rs)
  obtain h env where r: "r = (h, env)" by force
  have "cursor_of sid fs \<le> cursor_of sid (fst (run (Some h) env fs))" using Cons.prems r by (intro cursor_mono) simp
  also have "\<dots> \<le> cursor_of sid (hook_runs rs (fst (run (Some h) env fs)))" using Cons.prems by (intro Cons.IH) simp
  finally show ?case by (simp add: hook_runs_def r)
qed (simp add: hook_runs_def)

lemma cursor_after_wake:
  assumes "reported h env fs \<noteq> []" "we_write env = Written"
  shows "cursor_of (hk_SessionID h) (fst (run (Some h) env fs)) = max_seq (hook_msgs h env fs)"
  unfolding run_wake [OF assms(1)] by (simp add: assms(2) writeState_def readState_def)

lemma reported_old:
  assumes "x \<in> set (reported h env fs)" "we_write env = Written" "\<forall>(h, env) \<in> set rs. we_write env \<noteq> Truncated"
  shows "ix_Seq x \<le> cursor_of (hk_SessionID h) (hook_runs rs (fst (run (Some h) env fs)))"
proof -
  have "reported h env fs \<noteq> []" using assms(1) by auto
  from cursor_after_wake [OF this assms(2)]
  have "ix_Seq x \<le> cursor_of (hk_SessionID h) (fst (run (Some h) env fs))"
    using assms(1) max_seq_ge by (auto simp: reported_def split: if_splits)
  also have "\<dots> \<le> cursor_of (hk_SessionID h) (hook_runs rs (fst (run (Some h) env fs)))"
    by (rule cursor_mono_runs [OF assms(3)])
  finally show ?thesis .
qed

section \<open>A forged line\<close>

lemma parse_uint_bound: "parse_uint64 s = Some n \<Longrightarrow> n < 2 ^ 64"
  by (simp add: parse_uint64_def split: if_splits)

lemma parse_line_bound:
  assumes "parseInboxLine l = Some m"
  shows "ix_Seq m < 2 ^ 64"
proof -
  obtain a where "parse_uint64 a = Some (ix_Seq m)"
    using assms by (auto simp: parseInboxLine_def Let_def split: if_splits option.splits)
  then show ?thesis by (rule parse_uint_bound)
qed

lemma parse_step_bound:
  "\<forall>m \<in> set (fst st). ix_Seq m < 2 ^ 64 \<Longrightarrow> \<forall>m \<in> set (fst (parse_step l st)). ix_Seq m < 2 ^ 64"
  by (cases st) (auto simp: parse_step_def Let_def split: option.split dest: parse_line_bound [simplified])

lemma parse_bound: "\<forall>m \<in> set (fst (parseInboxText body)). ix_Seq m < 2 ^ 64"
proof -
  have "\<forall>m \<in> set (fst st). ix_Seq m < 2 ^ 64 \<Longrightarrow> \<forall>m \<in> set (fst (fold parse_step ls st)). ix_Seq m < 2 ^ 64" for ls st
  proof (induction ls arbitrary: st)
    case (Cons l ls)
    then show ?case using parse_step_bound [of st l] by simp
  qed simp
  from this [of "([], 0)"] show ?thesis by (simp add: parseInboxText_def)
qed

lemma hook_msgs_bound: "m \<in> set (hook_msgs h env fs) \<Longrightarrow> ix_Seq m < 2 ^ 64"
  using parse_bound by (auto simp: hook_msgs_def fetchInbox_def split: option.splits)

lemma parse_keeps: "m \<in> set (fst st) \<Longrightarrow> m \<in> set (fst (fold parse_step ls st))"
proof (induction ls arbitrary: st)
  case (Cons l ls)
  have "m \<in> set (fst (parse_step l st))"
    using Cons.prems by (cases st) (auto simp: parse_step_def Let_def split: option.split)
  then show ?case using Cons.IH by simp
qed simp

lemma parse_finds:
  assumes "l \<in> set (split_on (CHR 0x0A) body)" "\<And>ms k. parse_step l (ms, k) = (ms @ [m], k)"
  shows "m \<in> set (fst (parseInboxText body))"
proof -
  obtain us vs where "split_on (CHR 0x0A) body = us @ l # vs" using assms(1) by (meson split_list)
  moreover have "m \<in> set (fst (parse_step l st))" for st using assms(2) by (cases st) simp
  ultimately show ?thesis by (simp add: parseInboxText_def parse_keeps)
qed

lemma split_on_cat: "split_on c (pre @ c # r) = split_on c pre @ split_on c r"
proof (induction pre)
  case (Cons x pre)
  then show ?case by (cases "split_on c pre") simp_all
qed simp

lemma split_on_inner: "c \<notin> set l \<Longrightarrow> l \<in> set (split_on c (pre @ c # l @ c # post))"
  by (simp add: split_on_cat split_on_append split_on_none)

text \<open>A line that claims the greatest number there is.\<close>

definition forged_line :: gostring where
  "forged_line = ''#'' @ show_nat (2 ^ 64 - 1) @ '' ['' @ ''note'' @ ''] '' @ ''you'' @ arrow @ ''me'' @ '' @'' @ ''a'' @ '': '' @ ''hi''"

lemma forged_line_parses:
  "\<exists>m. ix_Seq m = 2 ^ 64 - 1 \<and> (\<forall>ms k. parse_step forged_line (ms, k) = (ms @ [m], k))"
proof -
  have "parseInboxLine forged_line = Some \<lparr>ix_Seq = 2 ^ 64 - 1, ix_From = ''you'', ix_Kind = ''note'', ix_Text = ''hi'', ix_Target = ''me''\<rparr>"
    unfolding forged_line_def
    by (rule parse_message_line) (simp_all add: trim_space_idle is_space_def arrow_def sublist_Cons_right)
  moreover have "trim_space forged_line = forged_line"
    by (rule trim_space_idle) (simp add: forged_line_def is_space_def)
  moreover have "\<not> prefix ''(cursor: #'' forged_line" by (simp add: forged_line_def)
  ultimately show ?thesis by (simp add: parse_step_def)
qed

lemma forged_line_nl: "CHR 0x0A \<notin> set forged_line"
  by (simp add: forged_line_def arrow_def)

lemma inbox_line_infix: "\<exists>pre post. inbox_line hhmm t c m = pre @ m_text m @ post"
  by (intro exI [of _ "''#'' @ show_nat (m_seq m) @ '' ['' @ shown_kind m @ ''] '' @ m_from m @ arrow @ shown_target m @ '' @'' @ m_area m @ '': ''"]
        exI [of _ "(if m_blob m \<noteq> [] then '' ['' @ m_mime m @ '' '' @ show_int (m_w m) @ ''x'' @ show_int (m_h m) @ '' '' @ get_image_text m
                    else task_text hhmm t m c) @ nl"])
     (simp add: inbox_line_def shown_kind_def)

lemma inbox_text_infix:
  assumes "m \<in> set (Inbox t target since c)"
  shows "\<exists>pre post. inbox_text hhmm quote now t target since c = pre @ m_text m @ post"
proof -
  obtain us vs where l: "Inbox t target since c = us @ m # vs" using assms by (meson split_list)
  obtain pre post where i: "inbox_line hhmm t c m = pre @ m_text m @ post" using inbox_line_infix by blast
  obtain head where head: "inbox_text hhmm quote now t target since c = head @
      concat (map (inbox_line hhmm t c) (us @ m # vs)) @ ''(cursor: #'' @ show_nat (cursor_after since (us @ m # vs)) @ '')''"
    using l that [of "writePresence now (PresenceList t c) @ show_nat (length (us @ m # vs)) @ '' message(s) for '' @ quote target @ '':'' @ nl"]
    by (simp add: inbox_text_def)
  show ?thesis unfolding head
    by (intro exI [of _ "head @ concat (map (inbox_line hhmm t c) us) @ pre"]
          exI [of _ "post @ concat (map (inbox_line hhmm t c) vs) @ ''(cursor: #'' @ show_nat (cursor_after since (us @ m # vs)) @ '')''"])
       (simp add: i)
qed

section \<open>Properties\<close>


definition ex_wake_env :: "comms_store \<Rightarrow> wake_env" where
  "ex_wake_env c = \<lparr>we_cfg = \<lparr>wc_url = ''u'', wc_token = []\<rparr>, we_wd = ''/w'', we_agent = ''me'', we_area = ''a'',
     we_inbox = (\<lambda>target since. Some (inbox_text (\<lambda>_. []) (\<lambda>s. s) 9 2 target since c)), we_count = None, we_write = Written\<rparr>"

definition ex_hook :: hook_input where
  "ex_hook = \<lparr>hk_SessionID = ''s'', hk_StopHookActive = False, hk_Cwd = []\<rparr>"

definition ex_mail :: "message \<Rightarrow> comms_store" where
  "ex_mail m = (comms_empty 10 [])\<lparr>cs_entries := [m]\<rparr>"

lemma ex_message_sel:
  "m_seq (ex_message tg q) = q" "m_area (ex_message tg q) = ''a''" "m_target (ex_message tg q) = tg" "m_tenant (ex_message tg q) = 2"
  "m_blob (ex_message tg q) = []" "m_kind (ex_message tg q) = ''note''" "m_from (ex_message tg q) = ''f''" "m_text (ex_message tg q) = ''x''"
  by (simp_all add: ex_message_def mk_message_def)

lemma ex_mail_sel:
  "cs_entries (ex_mail m) = [m]" "PresenceList t (ex_mail m) = []" "TaskOf t q (ex_mail m) = None"
  by (simp_all add: ex_mail_def comms_empty_def PresenceList_def inner_def TaskOf_def)

lemma ex_wake_sel:
  "hook_agent ex_hook (ex_wake_env c) = ''me''" "cursor_of (hk_SessionID ex_hook) Map.empty = 0"
  "we_inbox (ex_wake_env c) = (\<lambda>target since. Some (inbox_text (\<lambda>_. []) (\<lambda>s. s) 9 2 target since c))"
  "wc_url (we_cfg (ex_wake_env c)) \<noteq> []" "we_write (ex_wake_env c) = Written" "\<not> hk_StopHookActive ex_hook"
  by (simp_all add: ex_wake_env_def ex_hook_def hook_agent_def readState_def zero_state_def)


text \<open>C22. No message wakes a session twice: a message reported by a later wake has a greater number than
  every message reported by an earlier one that saved its state, whatever the server replied to
  either and whatever runs, of this session or of others, came between, as long as no write
  left a truncated state file.\<close>
theorem no_message_wakes_twice:
  assumes "x \<in> set (reported h env fs)" and "we_write env = Written" and "\<forall>(h, env) \<in> set rs. we_write env \<noteq> Truncated"
    and "hk_SessionID h2 = hk_SessionID h" and "y \<in> set (reported h2 env2 (hook_runs rs (fst (run (Some h) env fs))))"
  shows "ix_Seq x < ix_Seq y"
proof -
  have "cursor_of (hk_SessionID h) (hook_runs rs (fst (run (Some h) env fs))) < ix_Seq y"
    using assms(4,5) by (auto simp: reported_def split: if_splits)
  then show ?thesis using reported_old [OF assms(1-3)] by simp
qed

lemma ex_reported:
  "\<exists>x. reported ex_hook (ex_wake_env (ex_mail (ex_message ''me'' q))) fs = [x] \<and> ix_Seq x = q"
  if "cursor_of ''s'' fs < q" "q < 2 ^ 64"
proof -
  let ?c = "ex_mail (ex_message ''me'' q)"
  have mail: "Inbox 2 ''me'' (cursor_of ''s'' fs) ?c = [ex_message ''me'' q]"
    using that(1) by (simp add: Inbox_def ex_mail_sel ex_message_sel)
  have clean: "\<forall>m \<in> set (Inbox 2 ''me'' (cursor_of ''s'' fs) ?c). clean_message (\<lambda>_. []) 2 ?c m"
    unfolding mail using that(2)
    by (simp add: clean_message_def shown_kind_def shown_text_def shown_target_def task_text_def ex_message_sel ex_mail_sel
        trim_space_idle is_space_def arrow_def sublist_Cons_right)
  have "cursor_of ''s'' fs < 2 ^ 64" using that by simp
  then have "hook_msgs ex_hook (ex_wake_env ?c) fs = map (inbox_view (\<lambda>_. []) 2 ?c) [ex_message ''me'' q]"
    using inbox_parsed [where quote = "\<lambda>s. s" and target = "''me''" and now = 9, OF clean] mail
    unfolding hook_msgs_def fetchInbox_def ex_wake_sel by (simp add: ex_hook_def ex_mail_sel)
  then show ?thesis using that(1) by (simp add: reported_def ex_wake_sel inbox_view_def ex_message_sel) (simp add: ex_hook_def ex_wake_env_def)
qed

theorem no_message_wakes_twice_witness:
  "\<exists>x y. x \<in> set (reported ex_hook (ex_wake_env (ex_mail (ex_message ''me'' 1))) Map.empty) \<and>
     y \<in> set (reported ex_hook (ex_wake_env (ex_mail (ex_message ''me'' 2)))
          (fst (run (Some ex_hook) (ex_wake_env (ex_mail (ex_message ''me'' 1))) Map.empty))) \<and> ix_Seq x < ix_Seq y"
proof -
  let ?e = "\<lambda>q. ex_wake_env (ex_mail (ex_message ''me'' q))" and ?fs = "Map.empty :: wake_files"
  have c0: "cursor_of ''s'' ?fs < 1" by (simp add: readState_def zero_state_def)
  then obtain x where x: "reported ex_hook (?e 1) ?fs = [x]" "ix_Seq x = 1" using ex_reported [of ?fs 1] by auto
  have r: "reported ex_hook (?e 1) ?fs \<noteq> []" unfolding x by simp
  have "set (hook_msgs ex_hook (?e 1) ?fs) \<subseteq> set (reported ex_hook (?e 1) ?fs) \<union> {m. ix_Seq m = 0}"
    using ex_wake_sel(2,4,6) by (auto simp: reported_def)
  then have "\<forall>m \<in> set (hook_msgs ex_hook (?e 1) ?fs). ix_Seq m \<le> 1" using x by fastforce
  then have "cursor_of ''s'' (fst (run (Some ex_hook) (?e 1) ?fs)) \<le> 1"
    using cursor_after_wake [OF r ex_wake_sel(5)] max_seq_le by (simp add: ex_hook_def)
  then obtain y where y: "reported ex_hook (?e 2) (fst (run (Some ex_hook) (?e 1) ?fs)) = [y]"
    using ex_reported [of "fst (run (Some ex_hook) (?e 1) ?fs)" 2] by auto
  have m: "x \<in> set (reported ex_hook (?e 1) ?fs)"
    "y \<in> set (reported ex_hook (?e 2) (hook_runs [] (fst (run (Some ex_hook) (?e 1) ?fs))))"
    unfolding x y hook_runs_def fold.simps id_apply by simp_all
  have "ix_Seq x < ix_Seq y" by (rule no_message_wakes_twice [OF m(1) ex_wake_sel(5) _ refl m(2)]) simp
  then show ?thesis using m unfolding hook_runs_def fold.simps id_apply by blast
qed

text \<open>C40. One message can silence the hook for good: the text of a message may contain line breaks, the inbox
  shows it as it is, and a line of it that looks like a message line is parsed as one. A line that
  claims the greatest number there is sets the cursor to it, and from then on no message ever
  wakes that session, whatever the server replies.\<close>
theorem forged_line_silences_hook:
  assumes "we_inbox env = (\<lambda>target since. Some (inbox_text hhmm quote now t target since c))"
    and "wc_url (we_cfg env) \<noteq> []" and "we_write env = Written" and "\<not> hk_StopHookActive h"
    and "m \<in> set (Inbox t (hook_agent h env) (cursor_of (hk_SessionID h) fs) c)"
    and "m_text m = before @ CHR 0x0A # forged_line @ CHR 0x0A # after" and "cursor_of (hk_SessionID h) fs < 2 ^ 64 - 1"
    and "\<forall>(h, env) \<in> set rs. we_write env \<noteq> Truncated" and "hk_SessionID h2 = hk_SessionID h"
  shows "cursor_of (hk_SessionID h) (fst (run (Some h) env fs)) = 2 ^ 64 - 1 \<and>
     reported h2 env2 (hook_runs rs (fst (run (Some h) env fs))) = []"
proof -
  obtain f where f: "ix_Seq f = 2 ^ 64 - 1" "\<And>ms k. parse_step forged_line (ms, k) = (ms @ [f], k)"
    using forged_line_parses by blast
  let ?body = "inbox_text hhmm quote now t (hook_agent h env) (cursor_of (hk_SessionID h) fs) c"
  obtain pre post where "?body = pre @ m_text m @ post" using inbox_text_infix [OF assms(5)] by blast
  then have "?body = (pre @ before) @ CHR 0x0A # forged_line @ CHR 0x0A # (after @ post)" by (simp add: assms(6))
  then have "forged_line \<in> set (split_on (CHR 0x0A) ?body)" using split_on_inner [OF forged_line_nl] by metis
  then have mem: "f \<in> set (hook_msgs h env fs)"
    using parse_finds f(2) by (auto simp: hook_msgs_def fetchInbox_def assms(1))
  have "max_seq (hook_msgs h env fs) \<le> 2 ^ 64 - 1"
  proof (rule max_seq_le, rule ballI)
    show "ix_Seq x \<le> 2 ^ 64 - 1" if "x \<in> set (hook_msgs h env fs)" for x using hook_msgs_bound [OF that] by linarith
  qed
  then have mx: "max_seq (hook_msgs h env fs) = 2 ^ 64 - 1" using max_seq_ge [OF mem] f(1) by linarith
  have "f \<in> set (reported h env fs)" using mem f(1) assms(2,4,7) by (simp add: reported_def)
  then have r: "reported h env fs \<noteq> []" by auto
  have cur: "cursor_of (hk_SessionID h) (fst (run (Some h) env fs)) = 2 ^ 64 - 1"
    using cursor_after_wake [OF r assms(3)] mx by simp
  have "2 ^ 64 - 1 \<le> cursor_of (hk_SessionID h) (hook_runs rs (fst (run (Some h) env fs)))"
    using cursor_mono_runs [OF assms(8), of "hk_SessionID h" "fst (run (Some h) env fs)"] cur by simp
  then have "\<not> cursor_of (hk_SessionID h2) (hook_runs rs (fst (run (Some h) env fs))) < ix_Seq x"
    if "x \<in> set (hook_msgs h2 env2 (hook_runs rs (fst (run (Some h) env fs))))" for x
    using hook_msgs_bound [OF that] unfolding assms(9) by linarith
  then have "reported h2 env2 (hook_runs rs (fst (run (Some h) env fs))) = []"
    by (auto simp: reported_def filter_empty_conv)
  then show ?thesis using cur by blast
qed

theorem forged_line_silences_hook_witness:
  "\<exists>m. m_text m = ''x'' @ CHR 0x0A # forged_line @ CHR 0x0A # [] \<and>
     reported ex_hook (ex_wake_env (ex_mail (ex_message ''me'' 2)))
       (hook_runs [] (fst (run (Some ex_hook) (ex_wake_env (ex_mail m)) Map.empty))) = []"
proof -
  define m where "m = (ex_message ''me'' 1)\<lparr>m_text := ''x'' @ CHR 0x0A # forged_line @ CHR 0x0A # []\<rparr>"
  have body: "m_text m = ''x'' @ CHR 0x0A # forged_line @ CHR 0x0A # []" by (simp add: m_def)
  have mem: "m \<in> set (Inbox 2 (hook_agent ex_hook (ex_wake_env (ex_mail m))) (cursor_of (hk_SessionID ex_hook) Map.empty) (ex_mail m))"
    unfolding ex_wake_sel by (simp add: Inbox_def ex_mail_sel) (simp add: m_def ex_message_sel)
  have small: "cursor_of (hk_SessionID ex_hook) Map.empty < 2 ^ 64 - 1" unfolding ex_wake_sel by simp
  have none: "\<forall>(h, env) \<in> set ([] :: (hook_input \<times> wake_env) list). we_write env \<noteq> Truncated" by simp
  show ?thesis
    using forged_line_silences_hook [OF ex_wake_sel(3-6) mem body small none refl] body by blast
qed

end
