(* ===== verification/CodexClient.thy ===== *)
theory CodexClient
  imports Strings
begin

text \<open>
  The JSON-RPC client of the Codex app-server, \<^verbatim>\<open>CodexAppServer\<close> in \<^verbatim>\<open>providerbroker/codex_session.go\<close> (with
  \<^verbatim>\<open>rejectServerRequest\<close> of \<^verbatim>\<open>codex_invoke.go\<close>). Several goroutines share it: callers register an id and wait on
  a channel of capacity one, the read loop delivers responses, the process monitor declares the
  server dead. Each locked section is one step. Messages come decoded from JSON.
\<close>

section \<open>Messages\<close>

datatype rpc_id = IdInt int | IdOther

record in_message =
  im_ID :: "rpc_id option" \<comment> \<open>absent or null is \<open>None\<close>\<close>
  im_Method :: gostring
  im_Result :: gostring
  im_Error :: "(int \<times> gostring) option"

datatype client_error = CodexClosed | ProcessError gostring | WriteError | RPCFailed gostring int gostring
| DecodeError gostring | ContextDone

datatype rpc_result = Answer gostring "(int \<times> gostring) option" | Dead client_error

datatype out_message =
  OutCall int gostring
| OutNotify gostring
| OutDecline rpc_id
| OutNoPermissions rpc_id
| OutDenied rpc_id

section \<open>The client\<close>

text \<open>
  \<open>rc_pending\<close> are the keys of the map of channels, \<open>rc_chan\<close> the contents of the channels, and
  \<open>rc_deliver\<close> the results whose channel left the map and whose send has not been executed yet (by the
  read loop or by \<^verbatim>\<open>markDead\<close>). \<open>rc_writing\<close> are the callers between registering and writing, \<open>rc_waiting\<close>
  those in their select statement; both hold their channel. \<open>rc_done\<close> is the closed channel \<^verbatim>\<open>done\<close>.
\<close>

record rpc_client =
  rc_nextID :: int
  rc_pending :: "int list"
  rc_dead :: "client_error option"
  rc_done :: bool
  rc_deliver :: "(int \<times> rpc_result) list"
  rc_chan :: "(int \<times> rpc_result) list"
  rc_writing :: "int list"
  rc_waiting :: "int list"
  rc_out :: "out_message list"

definition new_client :: rpc_client where
  "new_client = \<lparr>rc_nextID = 0, rc_pending = [], rc_dead = None, rc_done = False, rc_deliver = [], rc_chan = [],
     rc_writing = [], rc_waiting = [], rc_out = []\<rparr>"

abbreviation without :: "int \<Rightarrow> int list \<Rightarrow> int list" where
  "without i \<equiv> filter (\<lambda>j. j \<noteq> i)"

text \<open>The head of \<^verbatim>\<open>call\<close>: a fresh id, registered unless the client is dead.\<close>

definition call_register :: "rpc_client \<Rightarrow> rpc_client \<times> (client_error + int)" where
  "call_register c =
     (let i = rc_nextID c + 1; c1 = c\<lparr>rc_nextID := i\<rparr>
      in case rc_dead c1 of
           Some e \<Rightarrow> (c1, Inl e)
         | None \<Rightarrow> (c1\<lparr>rc_pending := i # rc_pending c1, rc_writing := i # rc_writing c1\<rparr>, Inr i))"

text \<open>The write; a failed write unregisters the id.\<close>

definition call_write :: "gostring \<Rightarrow> bool \<Rightarrow> int \<Rightarrow> rpc_client \<Rightarrow> rpc_client \<times> client_error option" where
  "call_write method write_ok i c =
     (let c1 = c\<lparr>rc_writing := without i (rc_writing c)\<rparr>
      in if \<not> write_ok then (c1\<lparr>rc_pending := without i (rc_pending c1)\<rparr>, Some WriteError)
         else (c1\<lparr>rc_out := rc_out c1 @ [OutCall i method], rc_waiting := i # rc_waiting c1\<rparr>, None))"

text \<open>What the caller makes of its result; \<open>decodes\<close> tells whether a value unmarshals into \<open>out\<close>.\<close>

definition call_result :: "gostring \<Rightarrow> (gostring \<Rightarrow> bool) option \<Rightarrow> rpc_result \<Rightarrow> client_error + gostring option" where
  "call_result method decodes r =
     (case r of
        Dead e \<Rightarrow> Inl e
      | Answer res (Some (code, msg)) \<Rightarrow> Inl (RPCFailed method code msg)
      | Answer res None \<Rightarrow>
          (case decodes of
             None \<Rightarrow> Inr None
           | Some d \<Rightarrow> if res = [] \<or> res = ''null'' then Inr None
                       else if d res then Inr (Some res) else Inl (DecodeError method)))"

text \<open>The three arms of the select.\<close>

definition call_take :: "int \<Rightarrow> rpc_client \<Rightarrow> rpc_client \<times> rpc_result option" where
  "call_take i c =
     (c\<lparr>rc_chan := AList.delete i (rc_chan c), rc_waiting := without i (rc_waiting c)\<rparr>, map_of (rc_chan c) i)"

definition call_timeout :: "int \<Rightarrow> rpc_client \<Rightarrow> rpc_client \<times> client_error" where
  "call_timeout i c =
     (c\<lparr>rc_pending := without i (rc_pending c), rc_waiting := without i (rc_waiting c)\<rparr>, ContextDone)"

definition call_dead :: "int \<Rightarrow> rpc_client \<Rightarrow> rpc_client \<times> client_error" where
  "call_dead i c =
     (c\<lparr>rc_waiting := without i (rc_waiting c)\<rparr>, case rc_dead c of None \<Rightarrow> CodexClosed | Some e \<Rightarrow> e)"

definition rpc_notify :: "gostring \<Rightarrow> bool \<Rightarrow> rpc_client \<Rightarrow> rpc_client \<times> client_error option" where
  "rpc_notify method write_ok c =
     (if write_ok then (c\<lparr>rc_out := rc_out c @ [OutNotify method]\<rparr>, None) else (c, Some WriteError))"

definition rejectServerRequest :: "rpc_id \<Rightarrow> gostring \<Rightarrow> rpc_client \<Rightarrow> rpc_client" where
  "rejectServerRequest rid method c =
     c\<lparr>rc_out := rc_out c @
        [if method = ''item/commandExecution/requestApproval'' \<or> method = ''item/fileChange/requestApproval'' then OutDecline rid
         else if method = ''item/permissions/requestApproval'' then OutNoPermissions rid
         else OutDenied rid]\<rparr>"

text \<open>
  One turn of the read loop up to the send: the client, and the notification passed to the handler. A
  line that does not decode is \<open>None\<close>.
\<close>

definition read_message :: "in_message option \<Rightarrow> rpc_client \<Rightarrow> rpc_client \<times> gostring option" where
  "read_message line c =
     (case line of None \<Rightarrow> (c, None)
      | Some m \<Rightarrow>
          (case im_ID m of
             Some rid \<Rightarrow>
               if im_Method m \<noteq> [] then (rejectServerRequest rid (im_Method m) c, None)
               else (case rid of
                       IdOther \<Rightarrow> (c, None)
                     | IdInt i \<Rightarrow>
                         let c1 = c\<lparr>rc_pending := without i (rc_pending c)\<rparr>
                         in if i \<in> set (rc_pending c)
                            then (c1\<lparr>rc_deliver := (i, Answer (im_Result m) (im_Error m)) # rc_deliver c1\<rparr>, None)
                            else (c1, None))
           | None \<Rightarrow> (c, if im_Method m \<noteq> [] then Some (im_Method m) else None)))"

text \<open>The locked section of \<^verbatim>\<open>markDead\<close>, run once, and the closing of \<^verbatim>\<open>done\<close> after its sends.\<close>

definition markDead :: "client_error option \<Rightarrow> rpc_client \<Rightarrow> rpc_client" where
  "markDead err c =
     (if rc_dead c \<noteq> None then c
      else let e = (case err of None \<Rightarrow> CodexClosed | Some e \<Rightarrow> e)
           in c\<lparr>rc_dead := Some e, rc_pending := [],
                rc_deliver := map (\<lambda>i. (i, Dead e)) (rc_pending c) @ rc_deliver c\<rparr>)"

definition markDead_close :: "rpc_client \<Rightarrow> rpc_client" where
  "markDead_close c = c\<lparr>rc_done := True\<rparr>"

text \<open>A send on a channel of capacity one: it goes through when the channel is empty.\<close>

definition deliver :: "int \<Rightarrow> rpc_client \<Rightarrow> rpc_client" where
  "deliver i c =
     (case map_of (rc_deliver c) i of
        None \<Rightarrow> c
      | Some r \<Rightarrow> if map_of (rc_chan c) i \<noteq> None then c
                  else c\<lparr>rc_deliver := AList.delete i (rc_deliver c), rc_chan := (i, r) # rc_chan c\<rparr>)"

section \<open>Runs\<close>

datatype rpc_event =
  ECall
| EWrite gostring bool int
| ETake int
| ETimeout int
| EDone int
| ENotify gostring bool
| ELine "in_message option"
| EDeliver int
| EDead "client_error option"
| EClose

definition is_dead_result :: "rpc_result \<Rightarrow> bool" where
  "is_dead_result r = (case r of Dead _ \<Rightarrow> True | Answer _ _ \<Rightarrow> False)"

text \<open>An arm of the select is enabled only when its channel is ready, \<^verbatim>\<open>done\<close> closes after the sends.\<close>

fun rpc_step :: "rpc_event \<Rightarrow> rpc_client \<Rightarrow> rpc_client" where
  "rpc_step ECall c = fst (call_register c)"
| "rpc_step (EWrite m ok i) c = (if i \<in> set (rc_writing c) then fst (call_write m ok i c) else c)"
| "rpc_step (ETake i) c = (if i \<in> set (rc_waiting c) \<and> map_of (rc_chan c) i \<noteq> None then fst (call_take i c) else c)"
| "rpc_step (ETimeout i) c = (if i \<in> set (rc_waiting c) then fst (call_timeout i c) else c)"
| "rpc_step (EDone i) c = (if i \<in> set (rc_waiting c) \<and> rc_done c then fst (call_dead i c) else c)"
| "rpc_step (ENotify m ok) c = fst (rpc_notify m ok c)"
| "rpc_step (ELine l) c = fst (read_message l c)"
| "rpc_step (EDeliver i) c = deliver i c"
| "rpc_step (EDead e) c = markDead e c"
| "rpc_step EClose c =
     (if rc_dead c \<noteq> None \<and> (\<forall>d \<in> set (rc_deliver c). \<not> is_dead_result (snd d)) then markDead_close c else c)"

section \<open>The invariant\<close>

text \<open>An id is in one place: registered, being delivered, or delivered.\<close>

definition rpc_places :: "rpc_client \<Rightarrow> int list" where
  "rpc_places c = rc_pending c @ map fst (rc_deliver c) @ map fst (rc_chan c)"

definition rpc_inv :: "rpc_client \<Rightarrow> bool" where
  "rpc_inv c \<longleftrightarrow>
     distinct (rpc_places c) \<and> (\<forall>i \<in> set (rpc_places c). i \<le> rc_nextID c) \<and>
     distinct (rc_writing c @ rc_waiting c) \<and>
     set (rc_writing c) \<union> set (rc_waiting c) \<subseteq> set (rpc_places c) \<and>
     (rc_dead c \<noteq> None \<longrightarrow> rc_pending c = []) \<and> (rc_done c \<longrightarrow> rc_dead c \<noteq> None)"

lemma rpc_inv_new [simp]: "rpc_inv new_client"
  by (simp add: rpc_inv_def rpc_places_def new_client_def)

lemma delete_filter_alist: "AList.delete i row = filter (\<lambda>x. fst x \<noteq> i) row"
  by (induction row) auto

lemma map_fst_delete: "map fst (AList.delete i row) = filter (\<lambda>j. j \<noteq> i) (map fst row)"
  by (simp add: delete_filter_alist filter_map comp_def)

text \<open>The invariant over the sets of ids, with the ids of the association lists kept as one term.\<close>

lemma rpc_inv_sets:
  "rpc_inv c \<longleftrightarrow>
     distinct (rc_pending c) \<and> distinct (map fst (rc_deliver c)) \<and> distinct (map fst (rc_chan c)) \<and>
     set (rc_pending c) \<inter> set (map fst (rc_deliver c)) = {} \<and> set (rc_pending c) \<inter> set (map fst (rc_chan c)) = {} \<and>
     set (map fst (rc_deliver c)) \<inter> set (map fst (rc_chan c)) = {} \<and>
     (\<forall>i \<in> set (rc_pending c) \<union> set (map fst (rc_deliver c)) \<union> set (map fst (rc_chan c)). i \<le> rc_nextID c) \<and>
     distinct (rc_writing c) \<and> distinct (rc_waiting c) \<and> set (rc_writing c) \<inter> set (rc_waiting c) = {} \<and>
     set (rc_writing c) \<union> set (rc_waiting c)
       \<subseteq> set (rc_pending c) \<union> set (map fst (rc_deliver c)) \<union> set (map fst (rc_chan c)) \<and>
     (rc_dead c \<noteq> None \<longrightarrow> rc_pending c = []) \<and> (rc_done c \<longrightarrow> rc_dead c \<noteq> None)"
  by (simp add: rpc_inv_def rpc_places_def del: set_map) blast

lemma rpc_inv_register: "rpc_inv c \<Longrightarrow> rpc_inv (fst (call_register c))"
proof -
  assume inv: "rpc_inv c"
  have fresh: "rc_nextID c + 1 \<notin> set (rpc_places c)" using inv by (fastforce simp: rpc_inv_def)
  have le: "i \<le> rc_nextID c + 1" if "i \<in> set (rpc_places c)" for i
    using inv that by (fastforce simp: rpc_inv_def)
  have used: "rc_nextID c + 1 \<notin> set (rc_writing c) \<union> set (rc_waiting c)" using inv fresh by (auto simp: rpc_inv_def)
  show ?thesis
  proof (cases "rc_dead c")
    case None
    then show ?thesis using inv fresh le used
      by (simp add: rpc_inv_sets rpc_places_def call_register_def Let_def del: set_map) blast
  next
    case (Some e)
    then have "rpc_inv (fst (call_register c)) \<longleftrightarrow> rpc_inv (c\<lparr>rc_nextID := rc_nextID c + 1\<rparr>)"
      by (simp add: call_register_def Let_def)
    then show ?thesis using inv le by (simp add: rpc_inv_def rpc_places_def)
  qed
qed

lemma rpc_inv_write:
  assumes "rpc_inv c" "i \<in> set (rc_writing c)"
  shows "rpc_inv (fst (call_write m ok i c))"
proof (cases ok)
  case True
  then show ?thesis using assms by (simp add: rpc_inv_sets call_write_def Let_def del: set_map) blast
next
  case False
  then show ?thesis using assms by (simp add: rpc_inv_sets call_write_def Let_def del: set_map) blast
qed

lemma rpc_inv_leave:
  assumes "rpc_inv c" "i \<notin> set (rc_writing c)"
  shows "rpc_inv (fst (call_take i c))" "rpc_inv (fst (call_timeout i c))" "rpc_inv (fst (call_dead i c))"
proof -
  show "rpc_inv (fst (call_take i c))"
    using assms by (simp add: rpc_inv_sets call_take_def map_fst_delete del: set_map) blast
  show "rpc_inv (fst (call_timeout i c))"
    using assms by (simp add: rpc_inv_sets call_timeout_def del: set_map) blast
  show "rpc_inv (fst (call_dead i c))"
    using assms by (simp add: rpc_inv_sets call_dead_def del: set_map) blast
qed

lemma rpc_inv_cong:
  "rpc_places c' = rpc_places c \<Longrightarrow> rc_nextID c' = rc_nextID c \<Longrightarrow> rc_dead c' = rc_dead c \<Longrightarrow> rc_done c' = rc_done c \<Longrightarrow>
   rc_pending c' = rc_pending c \<Longrightarrow> rc_writing c' = rc_writing c \<Longrightarrow> rc_waiting c' = rc_waiting c \<Longrightarrow> rpc_inv c' = rpc_inv c"
  by (simp add: rpc_inv_def)

lemma rpc_inv_reject: "rpc_inv (rejectServerRequest rid m c) = rpc_inv c"
  by (rule rpc_inv_cong) (simp_all add: rejectServerRequest_def rpc_places_def)

lemma read_answer:
  assumes "im_ID m = Some (IdInt i)" "im_Method m = []"
  shows "fst (read_message (Some m) c) =
     (if i \<in> set (rc_pending c)
      then c\<lparr>rc_pending := without i (rc_pending c), rc_deliver := (i, Answer (im_Result m) (im_Error m)) # rc_deliver c\<rparr>
      else c)"
proof (cases "i \<in> set (rc_pending c)")
  case False
  then have "without i (rc_pending c) = rc_pending c" by (auto simp: filter_id_conv)
  then show ?thesis using assms False by (simp add: read_message_def Let_def)
qed (simp add: assms read_message_def Let_def)

lemma rpc_inv_line: "rpc_inv c \<Longrightarrow> rpc_inv (fst (read_message l c))"
proof -
  assume inv: "rpc_inv c"
  have answer: "rpc_inv (fst (read_message (Some m) c))" if "im_ID m = Some (IdInt i)" "im_Method m = []" for m i
    using inv by (simp add: read_answer that rpc_inv_sets del: set_map) blast
  show ?thesis
  proof (cases l)
    case (Some m)
    show ?thesis
    proof (cases "im_ID m")
      case None
      then show ?thesis using inv Some by (simp add: read_message_def)
    next
      case (Some rid)
      then show ?thesis using inv answer [of m] \<open>l = Some m\<close>
        by (cases rid; cases "im_Method m = []") (simp_all add: read_message_def rpc_inv_reject)
    qed
  qed (simp add: inv read_message_def)
qed

lemma rpc_inv_deliver: "rpc_inv c \<Longrightarrow> rpc_inv (deliver i c)"
proof (cases "map_of (rc_deliver c) i")
  case (Some r)
  assume inv: "rpc_inv c"
  have mem: "i \<in> set (map fst (rc_deliver c))" using Some by (metis map_of_eq_None_iff option.distinct(1) set_map)
  show ?thesis
  proof (cases "map_of (rc_chan c) i")
    case None
    then have "i \<notin> set (map fst (rc_chan c))" by (simp add: map_of_eq_None_iff)
    then show ?thesis using inv Some None mem
      by (simp add: deliver_def rpc_inv_sets map_fst_delete del: set_map) blast
  qed (simp add: inv deliver_def Some)
qed (simp add: deliver_def)

lemma rpc_inv_dead: "rpc_inv c \<Longrightarrow> rpc_inv (markDead e c)"
proof (cases "rc_dead c")
  case None
  assume inv: "rpc_inv c"
  have "map fst (map (\<lambda>i. (i, Dead x)) ps) = ps" for x ps by (simp add: comp_def)
  then have "rpc_places (markDead e c) = rpc_places c" using None by (simp add: rpc_places_def markDead_def Let_def)
  then show ?thesis using inv None by (simp add: rpc_inv_def markDead_def Let_def)
qed (simp add: markDead_def)

lemma rpc_inv_step: "rpc_inv c \<Longrightarrow> rpc_inv (rpc_step e c)"
proof -
  assume inv: "rpc_inv c"
  have w: "i \<in> set (rc_waiting c) \<Longrightarrow> i \<notin> set (rc_writing c)" for i using inv by (auto simp: rpc_inv_def)
  show ?thesis
  proof (cases e)
    case (ENotify m ok)
    have "rpc_inv (fst (rpc_notify m ok c)) = rpc_inv c"
      by (rule rpc_inv_cong) (simp_all add: rpc_notify_def rpc_places_def)
    then show ?thesis using inv ENotify by simp
  next
    case EClose
    have "rpc_inv (markDead_close c)" if "rc_dead c \<noteq> None" using inv that
      by (auto simp: rpc_inv_def rpc_places_def markDead_close_def)
    then show ?thesis using inv EClose by simp
  qed (simp_all add: inv w rpc_inv_register rpc_inv_write rpc_inv_leave rpc_inv_line rpc_inv_deliver rpc_inv_dead)
qed

lemma rpc_inv_run: "rpc_inv c \<Longrightarrow> rpc_inv (fold rpc_step es c)"
  by (induction es arbitrary: c) (simp_all add: rpc_inv_step)

section \<open>Properties\<close>



end
