(* ===== verification/CodexManager.thy ===== *)
theory CodexManager
  imports CodexClient
begin

text \<open>
  The tenant-scoped servers of \<^verbatim>\<open>providerbroker/codex_session.go\<close>: starting a Codex app-server
  (\<^verbatim>\<open>StartCodexAppServer\<close>, \<^verbatim>\<open>codexEnvironment\<close>), installing its hardened profile
  (\<^verbatim>\<open>ensureCodexBrokerProfile\<close> of \<^verbatim>\<open>codex_invoke.go\<close>), and \<^verbatim>\<open>CodexSessionManager\<close>, whose \<^verbatim>\<open>session\<close> looks up, starts and
  stores a server in two locked sections with the start between them. The outcome of every system
  call is an argument; a removal whose error the code ignores succeeds.
\<close>

section \<open>The profile\<close>

definition newline :: gostring where "newline = [CHR 0x0A]"

definition matrixCodexConfig :: gostring where
  "matrixCodexConfig =
     ''# Managed by Matrix Sentry.'' @ newline @
     ''# This provider profile is intentionally text-only. Authentication remains'' @ newline @
     ''# managed by the official Codex client; model-driven local tools are disabled.'' @ newline @ newline @
     ''[features]'' @ newline @ ''apps = false'' @ newline @ ''browser_use = false'' @ newline @
     ''computer_use = false'' @ newline @ ''image_generation = false'' @ newline @ ''multi_agent = false'' @ newline @
     ''plugins = false'' @ newline @ ''shell_tool = false'' @ newline @ ''unified_exec = false'' @ newline @
     ''web_search = false'' @ newline"

record profile_fs =
  pf_config :: "gostring \<rightharpoonup> gostring"
  pf_temp :: "gostring \<rightharpoonup> gostring"

datatype profile_step = MkdirHome | ChmodHome | WriteConfig | ChmodConfig | RenameConfig

definition ensureCodexBrokerProfile ::
    "(profile_step \<Rightarrow> bool) \<Rightarrow> gostring option \<Rightarrow> gostring \<Rightarrow> profile_fs \<Rightarrow> profile_fs \<times> profile_step option" where
  "ensureCodexBrokerProfile ok partial home fs =
     (if \<not> ok MkdirHome then (fs, Some MkdirHome)
      else if \<not> ok ChmodHome then (fs, Some ChmodHome)
      else if \<not> ok WriteConfig then (fs\<lparr>pf_temp := (pf_temp fs)(home := partial)\<rparr>, Some WriteConfig)
      else
        let fs1 = fs\<lparr>pf_temp := (pf_temp fs)(home \<mapsto> matrixCodexConfig)\<rparr>;
            removed = fs1\<lparr>pf_temp := (pf_temp fs1)(home := None)\<rparr>
        in if \<not> ok ChmodConfig then (removed, Some ChmodConfig)
           else if \<not> ok RenameConfig then (removed, Some RenameConfig)
           else (removed\<lparr>pf_config := (pf_config removed)(home := pf_temp fs1 home)\<rparr>, None))"

section \<open>Starting a server\<close>

definition kept_env :: "gostring \<Rightarrow> bool" where
  "kept_env item \<longleftrightarrow>
     (case cut ''='' item of None \<Rightarrow> True
      | Some (key, _) \<Rightarrow> \<not> (key = ''CODEX_HOME'' \<or> key = ''RUST_LOG'' \<or> key = ''LOG_FORMAT''))"

definition codexEnvironment :: "gostring list \<Rightarrow> gostring list option \<Rightarrow> gostring \<Rightarrow> gostring list" where
  "codexEnvironment environ base home =
     filter kept_env (case base of None \<Rightarrow> environ | Some b \<Rightarrow> b) @
       [''CODEX_HOME='' @ home, ''RUST_LOG=warn'', ''LOG_FORMAT=json'']"

record server_config =
  sc_Executable :: gostring
  sc_Home :: gostring
  sc_RequestTimeout :: int

datatype start_step = StartMkdir | StartChmod | StdinPipe | StdoutPipe | StartProcess | Initialize | Acknowledge

datatype start_error = HomeRequired | StartFailed start_step

record app_server =
  as_Executable :: gostring
  as_Env :: "gostring list"
  as_RequestTimeout :: int

definition second :: int where "second = 1000000000"

text \<open>The result, and whether a process is left running. The failures after the start close it.\<close>

definition StartCodexAppServer ::
    "(start_step \<Rightarrow> bool) \<Rightarrow> gostring list \<Rightarrow> gostring list option \<Rightarrow> server_config \<Rightarrow> (start_error + app_server) \<times> bool" where
  "StartCodexAppServer ok environ base cfg =
     (let executable = (if trim_space (sc_Executable cfg) = [] then ''codex'' else trim_space (sc_Executable cfg));
          home = trim_space (sc_Home cfg)
      in if home = [] then (Inl HomeRequired, False)
         else if \<not> ok StartMkdir then (Inl (StartFailed StartMkdir), False)
         else if \<not> ok StartChmod then (Inl (StartFailed StartChmod), False)
         else
           let timeout = (if sc_RequestTimeout cfg \<le> 0 then 20 * second else sc_RequestTimeout cfg);
               env = codexEnvironment environ base home
           in if \<not> ok StdinPipe then (Inl (StartFailed StdinPipe), False)
              else if \<not> ok StdoutPipe then (Inl (StartFailed StdoutPipe), False)
              else if \<not> ok StartProcess then (Inl (StartFailed StartProcess), False)
              else if \<not> ok Initialize then (Inl (StartFailed Initialize), False)
              else if \<not> ok Acknowledge then (Inl (StartFailed Acknowledge), False)
              else (Inr \<lparr>as_Executable = executable, as_Env = env, as_RequestTimeout = timeout\<rparr>, True))"

section \<open>The manager\<close>

record manager_config =
  mc_Root :: gostring
  mc_Executable :: gostring
  mc_RequestTimeout :: int
  mc_InvokeTimeout :: int

datatype manager_error =
  RootRequired | RootAbs | RootMkdir | RootChmod | InvalidTenant | ManagerClosed
| ProfileFailed profile_step | ServerFailed start_error

text \<open>
  Servers are numbered. \<open>mg_sessions\<close> is the map of stored sessions (by their server); \<open>mg_flight\<close> the servers
  that a caller of \<^verbatim>\<open>session\<close> started and has not tried to store yet; \<open>mg_closing\<close> those \<^verbatim>\<open>Close\<close> took
  over; \<open>mg_running\<close> the live processes; \<open>mg_servers\<close> what each was started with.
\<close>

record manager =
  mg_cfg :: manager_config
  mg_closed :: bool
  mg_sessions :: "(tenant \<times> nat) list"
  mg_fs :: profile_fs
  mg_next :: nat
  mg_running :: "nat list"
  mg_flight :: "(tenant \<times> nat) list"
  mg_closing :: "nat list"
  mg_servers :: "nat \<rightharpoonup> app_server"

definition NewCodexSessionManager ::
    "(gostring \<Rightarrow> gostring option) \<Rightarrow> bool \<Rightarrow> bool \<Rightarrow> profile_fs \<Rightarrow> manager_config \<Rightarrow> manager_error + manager" where
  "NewCodexSessionManager absolute mkdir_ok chmod_ok fs cfg =
     (if trim_space (mc_Root cfg) = [] then Inl RootRequired
      else case absolute (trim_space (mc_Root cfg)) of
        None \<Rightarrow> Inl RootAbs
      | Some root \<Rightarrow>
          if \<not> mkdir_ok then Inl RootMkdir else if \<not> chmod_ok then Inl RootChmod
          else Inr \<lparr>mg_cfg = cfg\<lparr>mc_Root := root,
                        mc_Executable := (if trim_space (mc_Executable cfg) = [] then ''codex'' else mc_Executable cfg),
                        mc_RequestTimeout := (if mc_RequestTimeout cfg \<le> 0 then 20 * second else mc_RequestTimeout cfg),
                        mc_InvokeTimeout := (if mc_InvokeTimeout cfg \<le> 0 then 180 * second else mc_InvokeTimeout cfg)\<rparr>,
                    mg_closed = False, mg_sessions = [], mg_fs = fs, mg_next = 0, mg_running = [], mg_flight = [],
                    mg_closing = [], mg_servers = Map.empty\<rparr>)"

text \<open>\<^verbatim>\<open>filepath.Join(root, "tenant-N", "codex")\<close> for an absolute, clean root.\<close>

definition session_home :: "gostring \<Rightarrow> tenant \<Rightarrow> gostring" where
  "session_home root t = (if root = ''/'' then [] else root) @ ''/tenant-'' @ show_nat (unat t) @ ''/codex''"

definition session_lookup :: "tenant \<Rightarrow> manager \<Rightarrow> manager_error + nat option" where
  "session_lookup t m =
     (if t = 0 then Inl InvalidTenant
      else if mg_closed m then Inl ManagerClosed
      else Inr (map_of (mg_sessions m) t))"

definition session_start ::
    "(profile_step \<Rightarrow> bool) \<Rightarrow> gostring option \<Rightarrow> (start_step \<Rightarrow> bool) \<Rightarrow> gostring list \<Rightarrow> gostring list option \<Rightarrow> tenant \<Rightarrow>
     manager \<Rightarrow> manager \<times> (manager_error + nat)" where
  "session_start pok partial sok environ base t m =
     (let home = session_home (mc_Root (mg_cfg m)) t in
      case ensureCodexBrokerProfile pok partial home (mg_fs m) of
        (fs, Some e) \<Rightarrow> (m\<lparr>mg_fs := fs\<rparr>, Inl (ProfileFailed e))
      | (fs, None) \<Rightarrow>
          (case StartCodexAppServer sok environ base
                  \<lparr>sc_Executable = mc_Executable (mg_cfg m), sc_Home = home, sc_RequestTimeout = mc_RequestTimeout (mg_cfg m)\<rparr> of
             (Inl e, _) \<Rightarrow> (m\<lparr>mg_fs := fs\<rparr>, Inl (ServerFailed e))
           | (Inr srv, run) \<Rightarrow>
               let k = mg_next m
               in (m\<lparr>mg_fs := fs, mg_next := k + 1, mg_running := (if run then [k] else []) @ mg_running m,
                     mg_flight := (t, k) # mg_flight m, mg_servers := (mg_servers m)(k \<mapsto> srv)\<rparr>, Inr k)))"

definition close_server :: "nat \<Rightarrow> manager \<Rightarrow> manager" where
  "close_server k m = m\<lparr>mg_running := filter (\<lambda>j. j \<noteq> k) (mg_running m)\<rparr>"

definition session_store :: "tenant \<Rightarrow> nat \<Rightarrow> manager \<Rightarrow> manager \<times> (manager_error + nat)" where
  "session_store t k m =
     (let m1 = m\<lparr>mg_flight := filter (\<lambda>x. snd x \<noteq> k) (mg_flight m)\<rparr>
      in if mg_closed m1 then (close_server k m1, Inl ManagerClosed)
         else case map_of (mg_sessions m1) t of
                Some j \<Rightarrow> (close_server k m1, Inr j)
              | None \<Rightarrow> (m1\<lparr>mg_sessions := (t, k) # mg_sessions m1\<rparr>, Inr k))"

text \<open>\<^verbatim>\<open>Close\<close>: the locked section, then the servers one after the other.\<close>

definition Close_take :: "manager \<Rightarrow> manager" where
  "Close_take m =
     (if mg_closed m then m
      else m\<lparr>mg_closed := True, mg_closing := map snd (mg_sessions m) @ mg_closing m, mg_sessions := []\<rparr>)"

definition Close_next :: "nat \<Rightarrow> manager \<Rightarrow> manager" where
  "Close_next k m = (close_server k m)\<lparr>mg_closing := filter (\<lambda>j. j \<noteq> k) (mg_closing m)\<rparr>"

section \<open>Runs\<close>

datatype manager_event =
  MStart "profile_step \<Rightarrow> bool" "gostring option" "start_step \<Rightarrow> bool" "gostring list" "gostring list option" tenant
| MStore tenant nat
| MClose
| MCloseNext nat
| MCrash nat

fun manager_step :: "manager_event \<Rightarrow> manager \<Rightarrow> manager" where
  "manager_step (MStart pok partial sok environ base t) m = (if t = 0 then m else fst (session_start pok partial sok environ base t m))"
| "manager_step (MStore t k) m = (if (t, k) \<in> set (mg_flight m) then fst (session_store t k m) else m)"
| "manager_step MClose m = Close_take m"
| "manager_step (MCloseNext k) m = (if k \<in> set (mg_closing m) then Close_next k m else m)"
| "manager_step (MCrash k) m = close_server k m"

text \<open>Every server has one owner; every live one has an owner; its home is its tenant's and holds the profile.\<close>

definition owners :: "manager \<Rightarrow> nat list" where
  "owners m = map snd (mg_sessions m) @ map snd (mg_flight m) @ mg_closing m"

definition home_ok :: "manager \<Rightarrow> tenant \<Rightarrow> nat \<Rightarrow> bool" where
  "home_ok m t k \<longleftrightarrow>
     t \<noteq> 0 \<and> pf_config (mg_fs m) (session_home (mc_Root (mg_cfg m)) t) = Some matrixCodexConfig \<and>
     (\<exists>environ base. map_option as_Env (mg_servers m k) =
        Some (codexEnvironment environ base (session_home (mc_Root (mg_cfg m)) t)))"

definition mg_inv :: "manager \<Rightarrow> bool" where
  "mg_inv m \<longleftrightarrow>
     prefix ''/'' (mc_Root (mg_cfg m)) \<and> distinct (owners m) \<and> (\<forall>k \<in> set (owners m). k < mg_next m) \<and>
     set (mg_running m) \<subseteq> set (owners m) \<and> distinct (map fst (mg_sessions m)) \<and>
     (mg_closed m \<longrightarrow> mg_sessions m = []) \<and>
     (\<forall>(t, k) \<in> set (mg_sessions m @ mg_flight m). home_ok m t k)"

lemma profile_facts:
  assumes "ensureCodexBrokerProfile ok partial home fs = (fs', r)"
  shows "pf_config fs h = Some matrixCodexConfig \<Longrightarrow> pf_config fs' h = Some matrixCodexConfig"
    and "r = None \<Longrightarrow> pf_config fs' home = Some matrixCodexConfig"
  using assms by (auto simp: ensureCodexBrokerProfile_def Let_def split: if_splits)

lemma server_facts:
  assumes "StartCodexAppServer ok environ base cfg = (r, run)"
  shows "run \<longleftrightarrow> (\<exists>srv. r = Inr srv)"
    and "r = Inr srv \<Longrightarrow> as_Env srv = codexEnvironment environ base (trim_space (sc_Home cfg))"
  using assms by (auto simp: StartCodexAppServer_def Let_def split: if_splits)

lemma session_home_trim:
  assumes "prefix ''/'' root"
  shows "trim_space (session_home root t) = session_home root t"
proof (rule trim_space_idle)
  have "hd (session_home root t) = CHR ''/''" using assms by (auto simp: session_home_def prefix_def)
  moreover have "last (session_home root t) = CHR ''x''" by (simp add: session_home_def)
  ultimately show "session_home root t = [] \<or> \<not> is_space (hd (session_home root t)) \<and> \<not> is_space (last (session_home root t))"
    by (simp add: is_space_def)
qed

lemma session_home_inj: "session_home root t = session_home root u \<longleftrightarrow> t = u"
  by (auto simp: session_home_def word_unat_eq_iff show_nat_inj)

lemma homes_only:
  "filter (\<lambda>i. \<exists>v. cut ''='' i = Some (''CODEX_HOME'', v)) (codexEnvironment environ base home) = [''CODEX_HOME='' @ home]"
proof -
  have c: "cut ''='' (k @ ''='' @ v) = Some (k, v)" if "CHR ''='' \<notin> set k" for k v
    using cut_char [OF that] by simp
  have h: "cut ''='' (''CODEX_HOME='' @ home) = Some (''CODEX_HOME'', home)" using c [of "''CODEX_HOME''" home] by simp
  have l: "cut ''='' ''RUST_LOG=warn'' = Some (''RUST_LOG'', ''warn'')" using c [of "''RUST_LOG''" "''warn''"] by simp
  have f: "cut ''='' ''LOG_FORMAT=json'' = Some (''LOG_FORMAT'', ''json'')" using c [of "''LOG_FORMAT''" "''json''"] by simp
  have "filter (\<lambda>i. \<exists>v. cut ''='' i = Some (''CODEX_HOME'', v)) (filter kept_env xs) = []" for xs
    by (auto simp: filter_empty_conv kept_env_def)
  then show ?thesis unfolding codexEnvironment_def filter_append filter.simps h l f by simp
qed

lemma home_ok_mono:
  assumes "home_ok m t k" "mg_cfg m' = mg_cfg m" "mg_servers m' k = mg_servers m k"
    "\<And>h. pf_config (mg_fs m) h = Some matrixCodexConfig \<Longrightarrow> pf_config (mg_fs m') h = Some matrixCodexConfig"
  shows "home_ok m' t k"
  using assms by (simp add: home_ok_def)

lemma close_server_simps [simp]:
  "mg_cfg (close_server k m) = mg_cfg m" "mg_closed (close_server k m) = mg_closed m"
  "mg_sessions (close_server k m) = mg_sessions m" "mg_fs (close_server k m) = mg_fs m"
  "mg_next (close_server k m) = mg_next m" "mg_flight (close_server k m) = mg_flight m"
  "mg_closing (close_server k m) = mg_closing m" "mg_servers (close_server k m) = mg_servers m"
  "mg_running (close_server k m) = filter (\<lambda>j. j \<noteq> k) (mg_running m)"
  by (simp_all add: close_server_def)

lemma mg_inv_home: "mg_inv m \<Longrightarrow> (t, k) \<in> set (mg_sessions m) \<union> set (mg_flight m) \<Longrightarrow> home_ok m t k"
  unfolding mg_inv_def by (metis case_prodD set_append)

lemma mg_invI:
  assumes "prefix ''/'' (mc_Root (mg_cfg m))" "distinct (owners m)" "\<And>k. k \<in> set (owners m) \<Longrightarrow> k < mg_next m"
    "set (mg_running m) \<subseteq> set (owners m)" "distinct (map fst (mg_sessions m))" "mg_closed m \<Longrightarrow> mg_sessions m = []"
    "\<And>t k. (t, k) \<in> set (mg_sessions m) \<union> set (mg_flight m) \<Longrightarrow> home_ok m t k"
  shows "mg_inv m"
  unfolding mg_inv_def using assms by (simp add: split_def)

lemma mg_inv_start:
  assumes inv: "mg_inv m" and t: "t \<noteq> 0"
  shows "mg_inv (fst (session_start pok partial sok environ base t m))"
proof -
  define home where "home = session_home (mc_Root (mg_cfg m)) t"
  obtain fs r where p: "ensureCodexBrokerProfile pok partial home (mg_fs m) = (fs, r)" by fastforce
  define cfg where "cfg = \<lparr>sc_Executable = mc_Executable (mg_cfg m), sc_Home = home, sc_RequestTimeout = mc_RequestTimeout (mg_cfg m)\<rparr>"
  obtain res run where s: "StartCodexAppServer sok environ base cfg = (res, run)" by fastforce
  have old: "home_ok (m\<lparr>mg_fs := fs\<rparr>) u k" if "(u, k) \<in> set (mg_sessions m @ mg_flight m)" for u k
  proof (rule home_ok_mono)
    show "home_ok m u k" using mg_inv_home [OF inv] that by simp
  qed (use profile_facts(1) [OF p] in simp_all)
  have fs_only: "mg_inv (m\<lparr>mg_fs := fs\<rparr>)"
    by (rule mg_invI) (use inv old in \<open>simp_all add: mg_inv_def owners_def\<close>)
  show ?thesis
  proof (cases "r = None \<and> (\<exists>srv. res = Inr srv)")
    case False
    then have "fst (session_start pok partial sok environ base t m) = m\<lparr>mg_fs := fs\<rparr>"
      using p s by (auto simp: session_start_def home_def cfg_def Let_def split: option.split sum.split)
    then show ?thesis using fs_only by simp
  next
    case True
    then obtain srv where srv: "res = Inr srv" "r = None" by blast
    let ?k = "mg_next m"
    let ?m = "m\<lparr>mg_fs := fs, mg_next := ?k + 1, mg_running := ?k # mg_running m,
                mg_flight := (t, ?k) # mg_flight m, mg_servers := (mg_servers m)(?k \<mapsto> srv)\<rparr>"
    have m': "fst (session_start pok partial sok environ base t m) = ?m"
      using p s srv server_facts(1) [OF s] by (simp add: session_start_def home_def cfg_def Let_def)
    have "as_Env srv = codexEnvironment environ base home"
      using server_facts(2) [OF s srv(1)] inv session_home_trim by (simp add: cfg_def home_def mg_inv_def)
    then have new: "home_ok ?m t ?k"
      using t profile_facts(2) [OF p srv(2)] by (auto simp: home_ok_def home_def)
    have fresh: "?k \<notin> set (owners m)" using inv by (auto simp: mg_inv_def)
    have "home_ok ?m u j" if "(u, j) \<in> set (mg_sessions m @ mg_flight m)" for u j
    proof -
      have "j \<in> set (owners m)" using that by (force simp: owners_def)
      then have "j \<noteq> ?k" using inv by (auto simp: mg_inv_def)
      then show ?thesis using old [OF that] by (simp add: home_ok_def)
    qed
    then have homes: "\<forall>(u, j) \<in> set (mg_sessions ?m @ mg_flight ?m). home_ok ?m u j" using new by auto
    have own: "set (owners ?m) = insert ?k (set (owners m))" by (simp add: owners_def)
    have "distinct (owners ?m)" using inv fresh by (simp add: mg_inv_def owners_def)
    moreover have "\<forall>k \<in> set (owners ?m). k < mg_next ?m" using inv unfolding own by (auto simp: mg_inv_def)
    moreover have "set (mg_running ?m) \<subseteq> set (owners ?m)" using inv unfolding own by (auto simp: mg_inv_def)
    ultimately show ?thesis using inv homes unfolding m' mg_inv_def by simp
  qed
qed

lemma filter_snd_owners: "map snd (filter (\<lambda>x. snd x \<noteq> k) xs) = filter (\<lambda>j. j \<noteq> k) (map snd xs)"
  by (simp add: filter_map comp_def)

text \<open>An update of the owners that keeps the files, the servers and the configuration.\<close>

lemma mg_inv_move:
  assumes inv: "mg_inv m" and same: "mg_cfg m' = mg_cfg m" "mg_servers m' = mg_servers m" "mg_fs m' = mg_fs m" "mg_next m' = mg_next m"
    and own: "distinct (owners m')" "set (owners m') \<subseteq> set (owners m)" "set (mg_running m') \<subseteq> set (mg_running m) \<inter> set (owners m')"
    and sess: "distinct (map fst (mg_sessions m'))" "mg_closed m' \<Longrightarrow> mg_sessions m' = []"
      "set (mg_sessions m') \<union> set (mg_flight m') \<subseteq> set (mg_sessions m) \<union> set (mg_flight m)"
  shows "mg_inv m'"
proof (rule mg_invI)
  show "k < mg_next m'" if "k \<in> set (owners m')" for k using inv own(2) that same by (auto simp: mg_inv_def)
  show "home_ok m' t k" if "(t, k) \<in> set (mg_sessions m') \<union> set (mg_flight m')" for t k
  proof -
    have "home_ok m t k" using sess(3) that mg_inv_home [OF inv] by blast
    then show ?thesis by (simp add: home_ok_def same)
  qed
qed (use inv same own sess in \<open>simp_all add: mg_inv_def\<close>)

lemma mg_inv_store:
  assumes inv: "mg_inv m" and f: "(t, k) \<in> set (mg_flight m)"
  shows "mg_inv (fst (session_store t k m))"
proof -
  let ?f = "filter (\<lambda>x. snd x \<noteq> k) (mg_flight m)"
  have d: "distinct (owners m)" "set (mg_running m) \<subseteq> set (owners m)" "distinct (map fst (mg_sessions m))"
    "mg_closed m \<longrightarrow> mg_sessions m = []" using inv by (auto simp: mg_inv_def)
  have "k \<in> set (map snd (mg_flight m))" using f by force
  then have k: "k \<in> set (map snd (mg_flight m))" "k \<notin> set (map snd (mg_sessions m))" "k \<notin> set (mg_closing m)"
    using d(1) by (auto simp: owners_def simp del: set_map)
  have "set (owners (m\<lparr>mg_flight := ?f\<rparr>)) = set (owners m) - {k}"
    using k by (auto simp: owners_def filter_snd_owners simp del: set_map)
  then have drop: "mg_inv (close_server k (m\<lparr>mg_flight := ?f\<rparr>))"
    using d by (intro mg_inv_move [OF inv]) (auto simp: owners_def filter_snd_owners simp del: set_map)
  have put: "mg_inv (m\<lparr>mg_flight := ?f, mg_sessions := (t, k) # mg_sessions m\<rparr>)"
    if "map_of (mg_sessions m) t = None" "\<not> mg_closed m"
  proof (rule mg_inv_move [OF inv])
    have o: "set (owners (m\<lparr>mg_flight := ?f, mg_sessions := (t, k) # mg_sessions m\<rparr>)) = set (owners m)"
      using k by (auto simp: owners_def filter_snd_owners simp del: set_map)
    show "set (owners (m\<lparr>mg_flight := ?f, mg_sessions := (t, k) # mg_sessions m\<rparr>)) \<subseteq> set (owners m)" unfolding o ..
    show "set (mg_running (m\<lparr>mg_flight := ?f, mg_sessions := (t, k) # mg_sessions m\<rparr>))
        \<subseteq> set (mg_running m) \<inter> set (owners (m\<lparr>mg_flight := ?f, mg_sessions := (t, k) # mg_sessions m\<rparr>))"
      unfolding o using d(2) by simp
    show "distinct (owners (m\<lparr>mg_flight := ?f, mg_sessions := (t, k) # mg_sessions m\<rparr>))"
      using d(1) k by (auto simp: owners_def filter_snd_owners simp del: set_map)
    show "distinct (map fst (mg_sessions (m\<lparr>mg_flight := ?f, mg_sessions := (t, k) # mg_sessions m\<rparr>)))"
      using d(3) that(1) by (simp add: map_of_eq_None_iff)
  qed (use that f in auto)
  show ?thesis using drop put by (simp add: session_store_def Let_def split: option.split)
qed

lemma mg_inv_step: "mg_inv m \<Longrightarrow> mg_inv (manager_step e m)"
proof -
  assume inv: "mg_inv m"
  have d: "distinct (owners m)" "set (mg_running m) \<subseteq> set (owners m)" "distinct (map fst (mg_sessions m))"
    "mg_closed m \<longrightarrow> mg_sessions m = []" using inv by (auto simp: mg_inv_def)
  show ?thesis
  proof (cases e)
    case (MStart pok partial sok environ base t)
    then show ?thesis using inv mg_inv_start by simp
  next
    case (MStore t k)
    then show ?thesis using inv mg_inv_store by simp
  next
    case MClose
    have o: "set (owners (Close_take m)) = set (owners m)" by (auto simp: Close_take_def owners_def)
    have "mg_inv (Close_take m)"
    proof (rule mg_inv_move [OF inv])
      show "set (mg_running (Close_take m)) \<subseteq> set (mg_running m) \<inter> set (owners (Close_take m))"
        unfolding o using d(2) by (simp add: Close_take_def)
      show "distinct (owners (Close_take m))"
        using d(1) by (auto simp: Close_take_def owners_def simp del: set_map)
      show "set (mg_sessions (Close_take m)) \<union> set (mg_flight (Close_take m)) \<subseteq> set (mg_sessions m) \<union> set (mg_flight m)"
        by (auto simp: Close_take_def)
    qed (use o d in \<open>auto simp: Close_take_def\<close>)
    then show ?thesis using MClose by simp
  next
    case (MCloseNext k)
    have "mg_inv (Close_next k m)" if k: "k \<in> set (mg_closing m)"
    proof -
      have "k \<notin> set (map snd (mg_sessions m))" "k \<notin> set (map snd (mg_flight m))"
        using d(1) k by (auto simp: owners_def simp del: set_map)
      then have o: "set (owners (Close_next k m)) = set (owners m) - {k}"
        by (auto simp: Close_next_def owners_def simp del: set_map)
      show ?thesis
      proof (rule mg_inv_move [OF inv])
        show "set (mg_running (Close_next k m)) \<subseteq> set (mg_running m) \<inter> set (owners (Close_next k m))"
          unfolding o using d(2) by (auto simp: Close_next_def)
        show "distinct (owners (Close_next k m))"
          using d(1) by (auto simp: Close_next_def owners_def simp del: set_map)
      qed (use o d in \<open>auto simp: Close_next_def\<close>)
    qed
    then show ?thesis using MCloseNext inv by simp
  next
    case (MCrash k)
    have "mg_inv (close_server k m)"
      by (rule mg_inv_move [OF inv]) (use d in \<open>auto simp: owners_def simp del: set_map\<close>)
    then show ?thesis using MCrash by simp
  qed
qed

lemma mg_inv_run: "mg_inv m \<Longrightarrow> mg_inv (fold manager_step es m)"
  by (induction es arbitrary: m) (simp_all add: mg_inv_step)

lemma mg_inv_new:
  assumes "NewCodexSessionManager absolute mk ch fs cfg = Inr m" "\<forall>p q. absolute p = Some q \<longrightarrow> prefix ''/'' q"
  shows "mg_inv m"
  using assms
  by (auto simp: NewCodexSessionManager_def mg_inv_def owners_def split: if_splits option.splits)

section \<open>Properties\<close>


definition ex_absolute :: "gostring \<Rightarrow> gostring option" where
  "ex_absolute p = (if prefix ''/'' p then Some p else Some (''/'' @ p))"

definition ex_manager_config :: manager_config where
  "ex_manager_config = \<lparr>mc_Root = ''/srv'', mc_Executable = [], mc_RequestTimeout = 0, mc_InvokeTimeout = 0\<rparr>"

definition ex_manager :: manager where
  "ex_manager = projr (NewCodexSessionManager ex_absolute True True \<lparr>pf_config = Map.empty, pf_temp = Map.empty\<rparr> ex_manager_config)"

lemma ex_manager_new:
  "NewCodexSessionManager ex_absolute True True \<lparr>pf_config = Map.empty, pf_temp = Map.empty\<rparr> ex_manager_config = Inr ex_manager"
  by (simp add: ex_manager_def NewCodexSessionManager_def ex_manager_config_def ex_absolute_def trim_space_idle is_space_def)

lemma ex_absolute_ok: "\<forall>p q. ex_absolute p = Some q \<longrightarrow> prefix ''/'' q"
  by (simp add: ex_absolute_def)

definition ex_start :: "tenant \<Rightarrow> manager_event" where
  "ex_start t = MStart (\<lambda>_. True) None (\<lambda>_. True) [''CODEX_HOME=/root''] None t"

lemma new_manager_empty:
  assumes "NewCodexSessionManager absolute mk ch fs cfg = Inr m"
  shows "mg_sessions m = [] \<and> mg_flight m = [] \<and> mg_closed m = False \<and> mg_next m = 0 \<and> mg_running m = []"
  using assms by (auto simp: NewCodexSessionManager_def split: if_splits option.splits)

lemma ex_manager_init:
  "mg_sessions ex_manager = []" "mg_flight ex_manager = []" "mg_closed ex_manager = False" "mg_next ex_manager = 0"
  "mg_running ex_manager = []" "prefix ''/'' (mc_Root (mg_cfg ex_manager))"
  using new_manager_empty [OF ex_manager_new] mg_inv_new [OF ex_manager_new ex_absolute_ok]
  unfolding mg_inv_def by blast+

lemma start_next:
  assumes "prefix ''/'' (mc_Root (mg_cfg m))" "t \<noteq> 0"
  shows "mg_flight (manager_step (ex_start t) m) = (t, mg_next m) # mg_flight m"
    "mg_sessions (manager_step (ex_start t) m) = mg_sessions m" "mg_closed (manager_step (ex_start t) m) = mg_closed m"
    "mg_running (manager_step (ex_start t) m) = mg_next m # mg_running m"
proof -
  have "session_home (mc_Root (mg_cfg m)) t \<noteq> []" by (simp add: session_home_def)
  then show "mg_flight (manager_step (ex_start t) m) = (t, mg_next m) # mg_flight m"
    "mg_sessions (manager_step (ex_start t) m) = mg_sessions m" "mg_closed (manager_step (ex_start t) m) = mg_closed m"
    "mg_running (manager_step (ex_start t) m) = mg_next m # mg_running m"
    using assms
    by (simp_all add: ex_start_def session_start_def ensureCodexBrokerProfile_def StartCodexAppServer_def Let_def session_home_trim)
qed

lemma ex_stored:
  "map_of (mg_sessions (fold manager_step [ex_start 7, MStore 7 0] ex_manager)) 7 = Some 0"
  "mg_closed (fold manager_step [ex_start 7, MStore 7 0] ex_manager) = False"
  by (simp_all add: start_next ex_manager_init session_store_def Let_def)


lemma crashed_step:
  assumes "mg_inv m" "k < mg_next m" "map_of (mg_sessions m) t = Some k" "k \<notin> set (mg_running m)" "e \<noteq> MClose"
  shows "k < mg_next (manager_step e m) \<and> map_of (mg_sessions (manager_step e m)) t = Some k \<and>
     k \<notin> set (mg_running (manager_step e m)) \<and> mg_closed (manager_step e m) = mg_closed m"
proof (cases e)
  case (MStart pok partial sok environ base u)
  obtain fs r where p: "ensureCodexBrokerProfile pok partial (session_home (mc_Root (mg_cfg m)) u) (mg_fs m) = (fs, r)" by fastforce
  show ?thesis
    using assms p MStart by (auto simp: session_start_def Let_def split: option.split prod.split sum.split)
next
  case (MStore u j)
  then show ?thesis using assms by (auto simp: session_store_def Let_def split: option.split)
qed (use assms in \<open>simp_all add: Close_next_def\<close>)

lemma crashed_run:
  assumes "mg_inv m" "k < mg_next m" "map_of (mg_sessions m) t = Some k" "k \<notin> set (mg_running m)" "MClose \<notin> set es"
  shows "map_of (mg_sessions (fold manager_step es m)) t = Some k \<and> k \<notin> set (mg_running (fold manager_step es m)) \<and>
     mg_closed (fold manager_step es m) = mg_closed m"
  using assms
proof (induction es arbitrary: m)
  case (Cons e es)
  have "mg_inv (manager_step e m)" by (rule mg_inv_step [OF Cons.prems(1)])
  moreover have "e \<noteq> MClose" "MClose \<notin> set es" using Cons.prems(5) by auto
  ultimately show ?case using Cons.IH [of "manager_step e m"] crashed_step [OF Cons.prems(1-4), of e] by auto
qed simp

lemma dead_stays: "rc_dead c \<noteq> None \<Longrightarrow> rc_dead (rpc_step e c) \<noteq> None"
proof (cases e)
  case (ELine l)
  assume "rc_dead c \<noteq> None"
  then show ?thesis using ELine
    by (auto simp: read_message_def rejectServerRequest_def Let_def split: option.split rpc_id.split)
next
  case ECall
  assume "rc_dead c \<noteq> None"
  then show ?thesis using ECall by (auto simp: call_register_def Let_def)
qed (auto simp: call_write_def Let_def call_take_def call_timeout_def call_dead_def rpc_notify_def deliver_def
       markDead_def markDead_close_def split: option.split)

lemma dead_run: "rc_dead c \<noteq> None \<Longrightarrow> rc_dead (fold rpc_step rs c) \<noteq> None"
proof (induction rs arbitrary: c)
  case (Cons e rs)
  then show ?case using dead_stays [of c e] by simp
qed simp

text \<open>A crashed server is never replaced: when the process of a stored session dies, the manager keeps
  handing out the same dead session to its tenant, whatever other callers do, until Close, and
  every call on a client declared dead fails without a server being started.\<close>
theorem crashed_server_never_replaced:
  assumes "NewCodexSessionManager absolute mkdir_ok chmod_ok fs cfg = Inr m0"
    and "\<forall>p q. absolute p = Some q \<longrightarrow> prefix ''/'' q"
    and "m = fold manager_step es m0" and "map_of (mg_sessions m) t = Some k"
    and "MClose \<notin> set later" and "m' = fold manager_step later (manager_step (MCrash k) m)"
    and "rc_dead c \<noteq> None"
  shows "session_lookup t m' = Inr (Some k) \<and> k \<notin> set (mg_running m') \<and>
     (\<exists>e. snd (call_register (fold rpc_step calls c)) = Inl e)"
proof -
  have inv: "mg_inv m" unfolding assms(3) by (rule mg_inv_run [OF mg_inv_new [OF assms(1,2)]])
  have mem: "(t, k) \<in> set (mg_sessions m)" using assms(4) by (rule map_of_SomeD)
  then have "k \<in> set (owners m)" by (force simp: owners_def)
  then have k: "k < mg_next m" using inv by (auto simp: mg_inv_def)
  have open_m: "\<not> mg_closed m" and t: "t \<noteq> 0"
    using inv mem mg_inv_home [OF inv] by (auto simp: mg_inv_def home_ok_def)
  have "map_of (mg_sessions m') t = Some k \<and> k \<notin> set (mg_running m') \<and> \<not> mg_closed m'"
    unfolding assms(6) using crashed_run [OF mg_inv_step [OF inv, of "MCrash k"], of k t later] k assms(4,5) open_m by simp
  moreover have "\<exists>e. snd (call_register (fold rpc_step calls c)) = Inl e"
    using dead_run [OF assms(7), of calls] by (auto simp: call_register_def Let_def)
  ultimately show ?thesis using t by (simp add: session_lookup_def)
qed

theorem crashed_server_never_replaced_witness:
  "session_lookup 7 (fold manager_step [ex_start 9] (manager_step (MCrash 0) (fold manager_step [ex_start 7, MStore 7 0] ex_manager)))
     = Inr (Some 0)"
proof -
  have d: "rc_dead (markDead None new_client) \<noteq> None" by (simp add: markDead_def new_client_def)
  have "MClose \<notin> set [ex_start 9]" by (simp add: ex_start_def)
  then show ?thesis
    using crashed_server_never_replaced [OF ex_manager_new ex_absolute_ok refl ex_stored(1) _ refl d] by blast
qed

end
