(* ===== verification/ProviderRegistry.thy ===== *)
theory ProviderRegistry
  imports Prelude
begin

text \<open>
  Provider metadata and the tenant-isolated connection state, \<^verbatim>\<open>Registry\<close> in \<^verbatim>\<open>providerbroker/registry.go\<close>.
  Every operation is one locked section. \<open>spec_status\<close> reads the answer off the history of
  operations; the refinement shows that the three nested maps implement it.
\<close>

section \<open>Providers and states\<close>

definition StateDisconnected :: gostring where "StateDisconnected = ''disconnected''"
definition StateConnecting :: gostring where "StateConnecting = ''connecting''"
definition StateConnected :: gostring where "StateConnected = ''connected''"

record provider =
  pv_ID :: gostring
  pv_Name :: gostring
  pv_Auth :: gostring
  pv_Capabilities :: "gostring list"

record pstatus =
  ps_State :: gostring
  ps_Account :: gostring

datatype provider_error = InvalidProvider | DuplicateProvider | UnknownProvider

text \<open>The map \<^verbatim>\<open>providers\<close> is the list of its values, one per id, newest first.\<close>

record pregistry =
  rg_providers :: "provider list"
  rg_defaults :: "gostring \<rightharpoonup> pstatus"
  rg_statuses :: "tenant \<rightharpoonup> (gostring \<rightharpoonup> pstatus)"

definition NewProviderRegistry :: pregistry where
  "NewProviderRegistry = \<lparr>rg_providers = [], rg_defaults = Map.empty, rg_statuses = Map.empty\<rparr>"

section \<open>Operations\<close>

definition has_provider :: "gostring \<Rightarrow> pregistry \<Rightarrow> bool" where
  "has_provider p r \<longleftrightarrow> (\<exists>v \<in> set (rg_providers r). pv_ID v = p)"

definition RegisterProvider :: "provider \<Rightarrow> pregistry \<Rightarrow> pregistry \<times> provider_error option" where
  "RegisterProvider p r =
     (let p1 = p\<lparr>pv_ID := trim_space (pv_ID p), pv_Name := trim_space (pv_Name p)\<rparr>
      in if pv_ID p1 = [] \<or> pv_Name p1 = [] then (r, Some InvalidProvider)
         else if has_provider (pv_ID p1) r then (r, Some DuplicateProvider)
         else (r\<lparr>rg_providers := p1 # rg_providers r\<rparr>, None))"

definition ListProviders :: "pregistry \<Rightarrow> provider list" where
  "ListProviders r = sort_key pv_ID (rg_providers r)"

definition status_or_default :: "pstatus \<Rightarrow> pstatus" where
  "status_or_default s = (if ps_State s = [] then s\<lparr>ps_State := StateDisconnected\<rparr> else s)"

definition SetDefaultStatus :: "gostring \<Rightarrow> pstatus \<Rightarrow> pregistry \<Rightarrow> pregistry \<times> provider_error option" where
  "SetDefaultStatus p s r =
     (if \<not> has_provider p r then (r, Some UnknownProvider)
      else (r\<lparr>rg_defaults := (rg_defaults r)(p \<mapsto> status_or_default s)\<rparr>, None))"

definition SetStatus :: "tenant \<Rightarrow> gostring \<Rightarrow> pstatus \<Rightarrow> pregistry \<Rightarrow> pregistry \<times> provider_error option" where
  "SetStatus t p s r =
     (if \<not> has_provider p r then (r, Some UnknownProvider)
      else
        let r1 = (if rg_statuses r t = None then r\<lparr>rg_statuses := (rg_statuses r)(t \<mapsto> Map.empty)\<rparr> else r);
            m = the (rg_statuses r1 t)
        in (r1\<lparr>rg_statuses := (rg_statuses r1)(t \<mapsto> m(p \<mapsto> status_or_default s))\<rparr>, None))"

definition ProviderStatus :: "tenant \<Rightarrow> gostring \<Rightarrow> pregistry \<Rightarrow> pstatus option" where
  "ProviderStatus t p r =
     (if \<not> has_provider p r then None
      else
        let fallback = (case rg_defaults r p of Some s \<Rightarrow> Some s
                        | None \<Rightarrow> Some \<lparr>ps_State = StateDisconnected, ps_Account = []\<rparr>)
        in case rg_statuses r t of
             Some m \<Rightarrow> (case m p of Some s \<Rightarrow> Some s | None \<Rightarrow> fallback)
           | None \<Rightarrow> fallback)"

section \<open>Runs and the specification\<close>

datatype registry_event =
  RegRegister provider
| RegDefault gostring pstatus
| RegStatus tenant gostring pstatus

fun registry_step :: "registry_event \<Rightarrow> pregistry \<Rightarrow> pregistry" where
  "registry_step (RegRegister p) r = fst (RegisterProvider p r)"
| "registry_step (RegDefault p s) r = fst (SetDefaultStatus p s r)"
| "registry_step (RegStatus t p s) r = fst (SetStatus t p s r)"

text \<open>Histories are newest first.\<close>

fun registered :: "gostring \<Rightarrow> registry_event list \<Rightarrow> bool" where
  "registered p [] = False"
| "registered p (RegRegister v # h) = (p \<noteq> [] \<and> trim_space (pv_ID v) = p \<and> trim_space (pv_Name v) \<noteq> [] \<or> registered p h)"
| "registered p (RegDefault _ _ # h) = registered p h"
| "registered p (RegStatus _ _ _ # h) = registered p h"

fun last_default :: "gostring \<Rightarrow> registry_event list \<Rightarrow> pstatus option" where
  "last_default p [] = None"
| "last_default p (RegRegister _ # h) = last_default p h"
| "last_default p (RegStatus _ _ _ # h) = last_default p h"
| "last_default p (RegDefault q s # h) =
     (if q = p \<and> registered p h then Some (status_or_default s) else last_default p h)"

fun last_own :: "tenant \<Rightarrow> gostring \<Rightarrow> registry_event list \<Rightarrow> pstatus option" where
  "last_own t p [] = None"
| "last_own t p (RegRegister _ # h) = last_own t p h"
| "last_own t p (RegDefault _ _ # h) = last_own t p h"
| "last_own t p (RegStatus u q s # h) =
     (if u = t \<and> q = p \<and> registered p h then Some (status_or_default s) else last_own t p h)"

definition spec_status :: "tenant \<Rightarrow> gostring \<Rightarrow> registry_event list \<Rightarrow> pstatus option" where
  "spec_status t p h =
     (if \<not> registered p h then None
      else case last_own t p h of Some s \<Rightarrow> Some s
           | None \<Rightarrow> (case last_default p h of Some s \<Rightarrow> Some s
                      | None \<Rightarrow> Some \<lparr>ps_State = StateDisconnected, ps_Account = []\<rparr>))"

abbreviation run_registry :: "registry_event list \<Rightarrow> pregistry" where
  "run_registry h \<equiv> foldr registry_step h NewProviderRegistry"

definition own_of :: "tenant \<Rightarrow> gostring \<Rightarrow> pregistry \<Rightarrow> pstatus option" where
  "own_of t p r = (case rg_statuses r t of None \<Rightarrow> None | Some m \<Rightarrow> m p)"

lemma registry_abs:
  "has_provider p (run_registry h) = registered p h \<and> rg_defaults (run_registry h) p = last_default p h \<and>
   own_of t p (run_registry h) = last_own t p h"
proof (induction h arbitrary: p t)
  case Nil
  then show ?case by (simp add: NewProviderRegistry_def has_provider_def own_of_def)
next
  case (Cons e h)
  let ?r = "run_registry h"
  have prov: "has_provider q ?r = registered q h" and dflt: "rg_defaults ?r q = last_default q h"
    and own: "own_of u q ?r = last_own u q h" for q u using Cons.IH by auto
  show ?case
  proof (cases e)
    case (RegRegister v)
    then show ?thesis using prov dflt own
      by (auto simp: RegisterProvider_def Let_def has_provider_def own_of_def)
  next
    case (RegDefault q s)
    have "has_provider p (fst (SetDefaultStatus q s ?r)) = has_provider p ?r"
      "own_of t p (fst (SetDefaultStatus q s ?r)) = own_of t p ?r"
      by (simp_all add: SetDefaultStatus_def has_provider_def own_of_def)
    then show ?thesis using RegDefault prov dflt own by (simp add: SetDefaultStatus_def)
  next
    case (RegStatus u q s)
    have "has_provider p (fst (SetStatus u q s ?r)) = has_provider p ?r"
      "rg_defaults (fst (SetStatus u q s ?r)) = rg_defaults ?r"
      by (simp_all add: SetStatus_def Let_def has_provider_def)
    moreover have "own_of t p (fst (SetStatus u q s ?r)) =
        (if u = t \<and> q = p \<and> has_provider q ?r then Some (status_or_default s) else own_of t p ?r)"
      by (auto simp: SetStatus_def Let_def own_of_def)
    ultimately show ?thesis using RegStatus prov dflt own by auto
  qed
qed

lemma providers_wf:
  "distinct (map pv_ID (rg_providers (run_registry h))) \<and>
   (\<forall>v \<in> set (rg_providers (run_registry h)). pv_ID v \<noteq> [] \<and> pv_Name v \<noteq> [] \<and> trim_space (pv_ID v) = pv_ID v)"
proof (induction h)
  case (Cons e h)
  then show ?case
    by (cases e) (auto simp: RegisterProvider_def SetDefaultStatus_def SetStatus_def Let_def has_provider_def)
qed (simp add: NewProviderRegistry_def)

lemma sorted_wrt_less_if_distinct: "sorted xs \<Longrightarrow> distinct xs \<Longrightarrow> sorted_wrt (<) (xs :: 'a :: linorder list)"
  by (simp add: strict_sorted_iff)

section \<open>Properties\<close>

text \<open>The registry implements its history: after any sequence of registrations, default and
  tenant settings, failed ones included, the status a tenant reads for a provider is the last one that tenant
  set for it once it was registered, else the last default, else disconnected, and none for an
  unknown provider. What other tenants set never matters.\<close>
theorem registry_refines:
  "ProviderStatus t p (foldr registry_step h NewProviderRegistry) = spec_status t p h \<and>
   spec_status t p (filter (\<lambda>e. case e of RegStatus u _ _ \<Rightarrow> u = t | _ \<Rightarrow> True) h) = spec_status t p h"
proof
  let ?r = "run_registry h"
  have r: "has_provider p ?r = registered p h" "rg_defaults ?r p = last_default p h" "own_of t p ?r = last_own t p h"
    using registry_abs [of p h t] by auto
  have "ProviderStatus t p ?r =
      (if \<not> has_provider p ?r then None
       else case own_of t p ?r of Some s \<Rightarrow> Some s
            | None \<Rightarrow> (case rg_defaults ?r p of Some s \<Rightarrow> Some s
                       | None \<Rightarrow> Some \<lparr>ps_State = StateDisconnected, ps_Account = []\<rparr>))"
    by (auto simp: ProviderStatus_def own_of_def Let_def split: option.split)
  then show "ProviderStatus t p ?r = spec_status t p h" by (simp add: r spec_status_def split: option.split)
next
  let ?f = "filter (\<lambda>e. case e of RegStatus u _ _ \<Rightarrow> u = t | _ \<Rightarrow> True)"
  have f: "registered q (?f h) = registered q h \<and> last_default q (?f h) = last_default q h \<and> last_own t q (?f h) = last_own t q h"
    for q
  proof (induction h)
    case (Cons e h)
    then show ?case by (cases e) auto
  qed simp
  show "spec_status t p (?f h) = spec_status t p h"
    unfolding spec_status_def f [THEN conjunct1] f [THEN conjunct2, THEN conjunct1] f [THEN conjunct2, THEN conjunct2] ..
qed

text \<open>The listing is a table: strictly sorted by id in byte order, so every provider appears once,
  with trimmed, nonempty ids, and an id is listed exactly when a valid registration of it succeeded.\<close>
theorem registry_list:
  "sorted_wrt (<) (map pv_ID (ListProviders (foldr registry_step h NewProviderRegistry))) \<and>
   set (map pv_ID (ListProviders (foldr registry_step h NewProviderRegistry))) = {p. registered p h} \<and>
   [] \<notin> set (map pv_ID (ListProviders (foldr registry_step h NewProviderRegistry)))"
proof -
  let ?r = "run_registry h"
  have "distinct (map pv_ID (sort_key pv_ID (rg_providers ?r)))"
    using providers_wf [of h] by (simp add: distinct_map)
  then have "sorted_wrt (<) (map pv_ID (ListProviders ?r))"
    unfolding ListProviders_def by (intro sorted_wrt_less_if_distinct) simp_all
  moreover have "pv_ID ` set (rg_providers ?r) = {p. registered p h}"
    using registry_abs [of _ h] by (force simp: has_provider_def)
  moreover have "[] \<notin> pv_ID ` set (rg_providers ?r)" using providers_wf [of h] by auto
  ultimately show ?thesis by (simp add: ListProviders_def)
qed

end
