(* ===== verification/CodexLogin.thy ===== *)
theory CodexLogin
  imports ProviderRegistry
begin

text \<open>
  The device-code login of one tenant's session, \<^verbatim>\<open>managedCodexSession\<close> in \<^verbatim>\<open>providerbroker/codex_session.go\<close>:
  \<^verbatim>\<open>handleNotification\<close>, \<^verbatim>\<open>Status\<close>, \<^verbatim>\<open>StartLogin\<close>, \<^verbatim>\<open>CancelLogin\<close> and \<^verbatim>\<open>Logout\<close>. The last three hold \<^verbatim>\<open>opMu\<close> over
  several locked sections and calls; notifications arrive between any two of them. Each locked
  section is one definition; the step relation interleaves them.
\<close>

section \<open>Data\<close>

record account =
  ac_Type :: gostring
  ac_Email :: "gostring option"
  ac_PlanType :: "gostring option"

record account_read =
  ar_Account :: "account option"
  ar_RequiresOpenAIAuth :: bool

record device_login =
  dl_Provider :: gostring
  dl_State :: gostring
  dl_Type :: gostring
  dl_LoginID :: gostring
  dl_VerificationURL :: gostring
  dl_UserCode :: gostring

record session_status =
  st_State :: gostring
  st_Account :: gostring
  st_AccountType :: gostring
  st_PlanType :: gostring
  st_RequiresOpenAIAuth :: bool
  st_LoginID :: gostring

record login_session =
  ls_pending :: "device_login option"
  ls_completed :: "gostring list"

datatype login_error = AlreadyConnected | CallFailed | IncompleteLogin | NoPendingLogin

section \<open>The locked sections\<close>

text \<open>The login id of the params, \<open>None\<close> when they do not decode, empty when the field is absent.\<close>

definition login_completed :: "gostring \<Rightarrow> login_session \<Rightarrow> login_session" where
  "login_completed lid s =
     (if (case ls_pending s of None \<Rightarrow> False | Some l \<Rightarrow> dl_LoginID l = lid) then s\<lparr>ls_pending := None\<rparr>
      else if lid \<noteq> [] then s\<lparr>ls_completed := List.insert lid (ls_completed s)\<rparr> else s)"

definition handleNotification :: "gostring \<Rightarrow> gostring option \<Rightarrow> login_session \<Rightarrow> login_session" where
  "handleNotification method params s =
     (if method \<noteq> ''account/login/completed'' then s
      else case params of None \<Rightarrow> s | Some lid \<Rightarrow> login_completed lid s)"

definition session_Status :: "account_read \<Rightarrow> login_session \<Rightarrow> session_status" where
  "session_Status r s =
     (let st = \<lparr>st_State = StateDisconnected, st_Account = [], st_AccountType = [], st_PlanType = [],
                st_RequiresOpenAIAuth = ar_RequiresOpenAIAuth r, st_LoginID = []\<rparr>
      in case ar_Account r of
           Some a \<Rightarrow>
             st\<lparr>st_State := StateConnected, st_AccountType := ac_Type a,
                st_Account := (case ac_Email a of Some e \<Rightarrow> if trim_space e \<noteq> [] then trim_space e else ac_Type a | None \<Rightarrow> ac_Type a),
                st_PlanType := (case ac_PlanType a of Some p \<Rightarrow> trim_space p | None \<Rightarrow> [])\<rparr>
         | None \<Rightarrow>
             (case ls_pending s of None \<Rightarrow> st
              | Some l \<Rightarrow> st\<lparr>st_State := StateConnecting, st_LoginID := dl_LoginID l\<rparr>))"

text \<open>\<^verbatim>\<open>StartLogin\<close>: a pending login is returned again; else the account must be absent, then a login is asked for.\<close>

definition StartLogin_check :: "login_session \<Rightarrow> device_login option" where
  "StartLogin_check s = ls_pending s"

definition StartLogin_account :: "account_read option \<Rightarrow> login_error option" where
  "StartLogin_account r =
     (case r of None \<Rightarrow> Some CallFailed
      | Some a \<Rightarrow> if ar_Account a \<noteq> None then Some AlreadyConnected else None)"

definition StartDeviceCodeLogin :: "device_login option \<Rightarrow> device_login option" where
  "StartDeviceCodeLogin reply = map_option (\<lambda>l. l\<lparr>dl_Provider := ''codex'', dl_State := StateConnecting\<rparr>) reply"

definition StartLogin_reply :: "device_login option \<Rightarrow> login_error + device_login" where
  "StartLogin_reply reply =
     (case StartDeviceCodeLogin reply of
        None \<Rightarrow> Inl CallFailed
      | Some l \<Rightarrow> if trim_space (dl_LoginID l) = [] \<or> trim_space (dl_VerificationURL l) = [] \<or> trim_space (dl_UserCode l) = []
                  then Inl IncompleteLogin else Inr l)"

definition StartLogin_commit :: "device_login \<Rightarrow> login_session \<Rightarrow> login_session" where
  "StartLogin_commit l s =
     (if dl_LoginID l \<in> set (ls_completed s)
      then s\<lparr>ls_completed := filter (\<lambda>i. i \<noteq> dl_LoginID l) (ls_completed s)\<rparr>
      else s\<lparr>ls_pending := Some l\<rparr>)"

definition CancelLogin_check :: "gostring \<Rightarrow> login_session \<Rightarrow> login_error + gostring" where
  "CancelLogin_check loginID s =
     (let lid = trim_space loginID
      in if lid = [] then Inl NoPendingLogin
         else case ls_pending s of None \<Rightarrow> Inl NoPendingLogin
              | Some l \<Rightarrow> if dl_LoginID l \<noteq> lid then Inl NoPendingLogin else Inr lid)"

definition CancelLogin_clear :: "gostring \<Rightarrow> login_session \<Rightarrow> login_session" where
  "CancelLogin_clear lid s =
     (if (case ls_pending s of None \<Rightarrow> False | Some l \<Rightarrow> dl_LoginID l = lid) then s\<lparr>ls_pending := None\<rparr> else s)"

definition Logout_clear :: "login_session \<Rightarrow> login_session" where
  "Logout_clear s = s\<lparr>ls_pending := None\<rparr>"

section \<open>The interleavings\<close>

text \<open>
  \<open>lr_op\<close> is the holder of \<^verbatim>\<open>opMu\<close> and where it stands. \<open>lr_replied\<close> and \<open>lr_notified\<close> record the ids the
  server answered with and announced as completed. The server's ids are fresh: it does not answer
  with the same id twice (a completion may still arrive before the answer is handled, or twice).
\<close>

datatype op_pc =
  NoOp
| Starting
| Asked
| GotLogin device_login
| Cancelling gostring
| CancelDone gostring
| LoggingOut
| LogoutDone

record login_run =
  lr_session :: login_session
  lr_op :: op_pc
  lr_replied :: "gostring set"
  lr_notified :: "gostring set"

definition login_init :: login_run where
  "login_init = \<lparr>lr_session = \<lparr>ls_pending = None, ls_completed = []\<rparr>, lr_op = NoOp, lr_replied = {}, lr_notified = {}\<rparr>"

inductive login_step :: "login_run \<Rightarrow> login_run \<Rightarrow> bool" where
  start: "lr_op r = NoOp \<Longrightarrow> StartLogin_check (lr_session r) = None \<Longrightarrow> login_step r (r\<lparr>lr_op := Starting\<rparr>)"
| account: "lr_op r = Starting \<Longrightarrow>
    login_step r (r\<lparr>lr_op := (if StartLogin_account a = None then Asked else NoOp)\<rparr>)"
| reply: "lr_op r = Asked \<Longrightarrow> StartLogin_reply reply = Inr l \<Longrightarrow> dl_LoginID l \<notin> lr_replied r \<Longrightarrow>
    login_step r (r\<lparr>lr_op := GotLogin l, lr_replied := insert (dl_LoginID l) (lr_replied r)\<rparr>)"
| reply_failed: "lr_op r = Asked \<Longrightarrow> StartLogin_reply reply = Inl e \<Longrightarrow> login_step r (r\<lparr>lr_op := NoOp\<rparr>)"
| commit: "lr_op r = GotLogin l \<Longrightarrow>
    login_step r (r\<lparr>lr_op := NoOp, lr_session := StartLogin_commit l (lr_session r)\<rparr>)"
| cancel: "lr_op r = NoOp \<Longrightarrow> CancelLogin_check i (lr_session r) = Inr lid \<Longrightarrow> login_step r (r\<lparr>lr_op := Cancelling lid\<rparr>)"
| cancel_called: "lr_op r = Cancelling lid \<Longrightarrow> login_step r (r\<lparr>lr_op := (if ok then CancelDone lid else NoOp)\<rparr>)"
| cancel_clear: "lr_op r = CancelDone lid \<Longrightarrow>
    login_step r (r\<lparr>lr_op := NoOp, lr_session := CancelLogin_clear lid (lr_session r)\<rparr>)"
| logout: "lr_op r = NoOp \<Longrightarrow> login_step r (r\<lparr>lr_op := LoggingOut\<rparr>)"
| logout_called: "lr_op r = LoggingOut \<Longrightarrow> login_step r (r\<lparr>lr_op := (if ok then LogoutDone else NoOp)\<rparr>)"
| logout_clear: "lr_op r = LogoutDone \<Longrightarrow>
    login_step r (r\<lparr>lr_op := NoOp, lr_session := Logout_clear (lr_session r)\<rparr>)"
| notify: "login_step r (r\<lparr>lr_session := handleNotification ''account/login/completed'' (Some lid) (lr_session r),
                          lr_notified := insert lid (lr_notified r)\<rparr>)"
| notify_other: "method \<noteq> ''account/login/completed'' \<or> params = None \<Longrightarrow>
    login_step r (r\<lparr>lr_session := handleNotification method params (lr_session r)\<rparr>)"

definition asking :: "op_pc \<Rightarrow> bool" where
  "asking pc = (case pc of Starting \<Rightarrow> True | Asked \<Rightarrow> True | GotLogin _ \<Rightarrow> True | _ \<Rightarrow> False)"

lemma asking_simps [simp]:
  "asking Starting" "asking Asked" "asking (GotLogin l)" "\<not> asking NoOp" "\<not> asking (Cancelling i)"
  "\<not> asking (CancelDone i)" "\<not> asking LoggingOut" "\<not> asking LogoutDone"
  by (simp_all add: asking_def)

text \<open>
  While a login is asked for none is pending; a pending login was answered and not announced; an
  answer announced before its commit is remembered.
\<close>

definition login_inv :: "login_run \<Rightarrow> bool" where
  "login_inv r \<longleftrightarrow>
     (asking (lr_op r) \<longrightarrow> ls_pending (lr_session r) = None) \<and>
     (\<forall>l. ls_pending (lr_session r) = Some l \<longrightarrow>
        dl_LoginID l \<in> lr_replied r \<and> dl_LoginID l \<notin> lr_notified r \<and> trim_space (dl_LoginID l) \<noteq> [] \<and>
        dl_LoginID l \<notin> set (ls_completed (lr_session r))) \<and>
     (\<forall>l. lr_op r = GotLogin l \<longrightarrow>
        trim_space (dl_LoginID l) \<noteq> [] \<and> dl_LoginID l \<in> lr_replied r \<and>
        (dl_LoginID l \<in> lr_notified r \<longleftrightarrow> dl_LoginID l \<in> set (ls_completed (lr_session r)))) \<and>
     set (ls_completed (lr_session r)) \<subseteq> lr_notified r \<and>
     (\<forall>i \<in> lr_notified r. i \<notin> lr_replied r \<longrightarrow> i = [] \<or> i \<in> set (ls_completed (lr_session r)))"

lemma login_inv_init: "login_inv login_init"
  by (simp add: login_inv_def login_init_def)

lemma reply_fields:
  "StartLogin_reply reply = Inr l \<Longrightarrow> trim_space (dl_LoginID l) \<noteq> []"
  by (auto simp: StartLogin_reply_def split: option.splits if_splits)

lemma login_inv_notify:
  assumes "login_inv r"
  shows "login_inv (r\<lparr>lr_session := login_completed lid (lr_session r), lr_notified := insert lid (lr_notified r)\<rparr>)"
proof (cases "ls_pending (lr_session r)")
  case None
  then show ?thesis using assms by (auto simp: login_inv_def login_completed_def)
next
  case (Some l)
  then show ?thesis using assms by (cases "dl_LoginID l = lid") (auto simp: login_inv_def login_completed_def)
qed

lemma login_inv_step:
  assumes "login_step r r'" and "login_inv r"
  shows "login_inv r'"
  using assms
proof cases
  case (reply reply l)
  then show ?thesis using assms(2) reply_fields [of reply l] by (auto simp: login_inv_def)
next
  case (commit l)
  then show ?thesis using assms(2) by (auto simp: login_inv_def StartLogin_commit_def)
next
  case (notify lid)
  then show ?thesis using login_inv_notify [OF assms(2)] by (simp add: handleNotification_def)
next
  case (notify_other mth prm)
  then show ?thesis using assms(2) by (auto simp: handleNotification_def)
qed (use assms(2) in \<open>auto simp: login_inv_def StartLogin_check_def CancelLogin_clear_def Logout_clear_def
       split: option.splits if_splits\<close>)

lemma login_inv_reachable: "login_step\<^sup>*\<^sup>* login_init r \<Longrightarrow> login_inv r"
  by (induction rule: rtranclp_induct) (simp_all add: login_inv_init login_inv_step)

section \<open>Properties\<close>


definition ex_login :: device_login where
  "ex_login = \<lparr>dl_Provider = [], dl_State = [], dl_Type = ''chatgptDeviceCode'', dl_LoginID = ''l-1'',
     dl_VerificationURL = ''https://auth.openai.com/device'', dl_UserCode = ''ABCD''\<rparr>"


end
