(* ===== verification/Runes.thy ===== *)
theory Runes
  imports Strings
begin

text \<open>
  Go's conversion between a string and its runes, as far as cutting a string needs it: the UTF-8
  encodings of the runes of a string, one for every invalid byte as well, and \<^verbatim>\<open>truncRunes\<close>.
\<close>

section \<open>Decoding\<close>

definition byte_in :: "nat \<Rightarrow> nat \<Rightarrow> gostring \<Rightarrow> nat \<Rightarrow> bool" where
  "byte_in lo hi s i \<longleftrightarrow> i < length s \<and> lo \<le> of_char (s ! i) \<and> of_char (s ! i) \<le> hi"

text \<open>How many bytes the first rune takes, 0 when its encoding is not valid.\<close>

definition rune_size :: "gostring \<Rightarrow> nat" where
  "rune_size s =
     (if s = [] then 0
      else let b = of_char (hd s) :: nat; more = byte_in 0x80 0xBF s
        in if b < 0x80 then 1
           else if 0xC2 \<le> b \<and> b \<le> 0xDF then (if more 1 then 2 else 0)
           else if 0xE0 \<le> b \<and> b \<le> 0xEF
           then (if byte_in (if b = 0xE0 then 0xA0 else 0x80) (if b = 0xED then 0x9F else 0xBF) s 1 \<and> more 2 then 3 else 0)
           else if 0xF0 \<le> b \<and> b \<le> 0xF4
           then (if byte_in (if b = 0xF0 then 0x90 else 0x80) (if b = 0xF4 then 0x8F else 0xBF) s 1 \<and> more 2 \<and> more 3
                 then 4 else 0)
           else 0)"

definition rune_error :: gostring where
  "rune_error = [CHR 0xEF, CHR 0xBF, CHR 0xBD]"

definition ellipsis :: gostring where
  "ellipsis = [CHR 0xE2, CHR 0x80, CHR 0xA6]"

function runes :: "gostring \<Rightarrow> gostring list" where
  "runes [] = []"
| "runes (c # cs) =
     (let n = rune_size (c # cs)
      in if n = 0 then rune_error # runes cs else take n (c # cs) # runes (drop (n - 1) cs))"
  by pat_completeness auto
termination
  by (relation "measure length") auto

declare runes.simps(2) [simp del]

definition truncRunes :: "gostring \<Rightarrow> nat \<Rightarrow> gostring" where
  "truncRunes s n = (let r = runes s in if length r \<le> n then s else concat (take n r) @ ellipsis)"

section \<open>Facts\<close>

text \<open>A valid string is the concatenation of its runes.\<close>

fun valid_utf8 :: "nat \<Rightarrow> gostring \<Rightarrow> bool" where
  "valid_utf8 0 s \<longleftrightarrow> s = []"
| "valid_utf8 (Suc k) s \<longleftrightarrow> s = [] \<or> rune_size s > 0 \<and> valid_utf8 k (drop (rune_size s) s)"

lemma drop_pred: "n > 0 \<Longrightarrow> drop (n - Suc 0) cs = drop n (c # cs)"
  by (cases n) simp_all

lemma runes_step: "rune_size s > 0 \<Longrightarrow> runes s = take (rune_size s) s # runes (drop (rune_size s) s)"
  using drop_pred [of "rune_size s" "tl s" "hd s"]
  by (cases s) (simp_all add: rune_size_def [of "[]"] runes.simps(2) Let_def)

lemma concat_runes: "valid_utf8 k s \<Longrightarrow> concat (runes s) = s"
proof (induction k arbitrary: s)
  case (Suc k)
  then show ?case by (cases "s = []") (simp_all add: runes_step)
qed simp

lemma ascii_runes: "\<forall>c \<in> set s. of_char c < (0x80 :: nat) \<Longrightarrow> runes s = map (\<lambda>c. [c]) s"
  by (induction s) (simp_all add: runes.simps(2) rune_size_def)

lemma truncRunes_ascii:
  "\<forall>c \<in> set s. of_char c < (0x80 :: nat) \<Longrightarrow>
   truncRunes s n = (if length s \<le> n then s else take n s @ ellipsis)"
  by (simp add: truncRunes_def ascii_runes take_map concat_map_singleton)

end
