(* ===== verification/McpMemory.thy ===== *)
theory McpMemory
  imports Runes PathRegistry Memory Predictor McpComms
begin

text \<open>
  The memory and access tools of \<^verbatim>\<open>server.callTool\<close> (\<^verbatim>\<open>cmd/sentrymcp/main.go\<close>): \<^verbatim>\<open>record_access\<close>,
  \<^verbatim>\<open>analyze_access\<close> (with \<^verbatim>\<open>sentry/access/analyze.go\<close>), \<^verbatim>\<open>analyze_recall\<close>, \<^verbatim>\<open>remember\<close>, \<^verbatim>\<open>recall\<close>, \<^verbatim>\<open>forget\<close>,
  \<^verbatim>\<open>promote\<close> and \<^verbatim>\<open>stats\<close>. Clock readings (\<open>None\<close>: the append fails), the embedder's answers and the number
  formats \<^verbatim>\<open>%q\<close>, \<^verbatim>\<open>%.1f\<close> and \<^verbatim>\<open>%.3f\<close> are arguments. The audit log (\<^verbatim>\<open>moko\<close>) is left out.
\<close>

section \<open>State and answers\<close>

record 'f recall_payload =
  rp_Query :: gostring
  rp_K :: int
  rp_Hits :: "(nat \<times> 'f) list"

type_synonym 'f recall_ring = "(tenant \<times> 'f recall_payload) list"

record 'f memory_server =
  mv_reg :: registry
  mv_mem :: "'f mem_store option"
  mv_recalls :: "'f recall_payload elog"
  mv_ring :: "'f recall_ring"
  mv_logRecall :: bool

text \<open>The formats: \<^verbatim>\<open>%q\<close>; a share in percent and whether it is above 0.05; a distance.\<close>

record ('f, 'g) formats =
  fo_quote :: "gostring \<Rightarrow> gostring"
  fo_percent :: "'g \<Rightarrow> gostring"
  fo_above :: "'g \<Rightarrow> bool"
  fo_dist :: "'f \<Rightarrow> gostring"

datatype mtool_error =
  NoAccess
| AccessAppend
| ScanFailed
| MemDisabled
| NeedArg gostring
| MemFailed mem_error
| NoMessage nat gostring

datatype 'f mtool_result =
  MErr mtool_error
| MText gostring
| MRecall gostring gostring "'f mem_result list"
| MStats gostring nat

definition show_list :: "('a \<Rightarrow> gostring) \<Rightarrow> 'a list \<Rightarrow> gostring" where
  "show_list f xs = ''['' @ join_with '' '' (map f xs) @ '']''"

section \<open>Accesses\<close>

text \<open>A float64 as uint64 (amd64: a negative number wraps).\<close>

definition f64_as_u64 :: "rat \<Rightarrow> nat" where
  "f64_as_u64 v = (if v < 0 then nat (f64_to_i64 v mod 2 ^ 64) else f64_to_u64 v)"

text \<open>The paths in order, up to the first error; \<open>envs i\<close> are the two clock readings of the i-th.\<close>

fun record_paths :: "(nat \<Rightarrow> int option \<times> int option) \<Rightarrow> nat \<Rightarrow> tenant \<Rightarrow> gostring \<Rightarrow> gostring list \<Rightarrow> registry \<Rightarrow>
    registry \<times> nat list option" where
  "record_paths envs n t src [] r = (r, Some [])"
| "record_paths envs n t src (p # ps) r =
     (case RecordAccess (fst (envs n)) (snd (envs n)) t p src r of
        (r1, i, _, ok) \<Rightarrow>
          if \<not> ok then (r1, None)
          else (case record_paths envs (n + 1) t src ps r1 of (r2, ids) \<Rightarrow> (r2, map_option ((#) i) ids)))"

definition record_access_tool :: "(nat \<Rightarrow> int option \<times> int option) \<Rightarrow> (gostring \<Rightarrow> gostring) \<Rightarrow> tenant \<Rightarrow> targs \<Rightarrow>
    'f memory_server \<Rightarrow> 'f memory_server \<times> 'f mtool_result" where
  "record_access_tool envs quote t args sv =
     (let src = arg_str args ''src''; paths = pathArgs args
      in if paths \<noteq> []
         then case record_paths envs 0 t src paths (mv_reg sv) of
                (r, None) \<Rightarrow> (sv\<lparr>mv_reg := r\<rparr>, MErr AccessAppend)
              | (r, Some ids) \<Rightarrow>
                  (sv\<lparr>mv_reg := r\<rparr>,
                   MText (''recorded '' @ show_nat (length paths) @ '' access(es) src='' @ quote src @ '' items='' @
                          show_list show_nat ids))
         else case numArg args ''item'' of
                (_, False) \<Rightarrow> (sv, MErr NoAccess)
              | (item, True) \<Rightarrow>
                  let i = f64_as_u64 item
                  in case el_append (snd (envs 0)) t (AccessEv i src) (reg_journal (mv_reg sv)) of
                       (_, None) \<Rightarrow> (sv, MErr AccessAppend)
                     | (l, Some q) \<Rightarrow>
                         (sv\<lparr>mv_reg := (mv_reg sv)\<lparr>reg_journal := l\<rparr>\<rparr>,
                          MText (''recorded access item='' @ show_nat i @ '' as seq='' @ show_nat q)))"

text \<open>\<^verbatim>\<open>access.Analyze\<close>. Access payloads always decode, since only \<^verbatim>\<open>Append\<close> writes them; \<open>scan_ok\<close> is the scan.\<close>

record 'g access_report =
  ar_Total :: nat
  ar_Scanned :: nat
  ar_Skipped :: nat
  ar_Lift :: 'g
  ar_MarkovHit :: 'g
  ar_MarginalHit :: 'g
  ar_Coverage :: 'g

fun access_item :: "reg_event \<Rightarrow> int list" where
  "access_item (AccessEv i _) = [wrap64 (int i)]"
| "access_item _ = []"

definition access_items :: "tenant \<Rightarrow> reg_event elog \<Rightarrow> int list" where
  "access_items t l = concat (map (\<lambda>r. if lr_tenant r = t then access_item (lr_event r) else []) (el_recs l))"

definition Analyze :: "bool \<Rightarrow> (nat \<Rightarrow> 'g::{zero,divide,minus}) \<Rightarrow> tenant \<Rightarrow> reg_event elog \<Rightarrow> 'g access_report option" where
  "Analyze scan_ok f64 t l =
     (if \<not> scan_ok then None
      else let items = access_items t l; lf = StreamLift f64 items
        in Some \<lparr>ar_Total = lf_Total lf, ar_Scanned = length items, ar_Skipped = 0, ar_Lift = lf_Lift lf,
                 ar_MarkovHit = lf_MarkovHit lf, ar_MarginalHit = lf_MarginalHit lf, ar_Coverage = lf_Coverage lf\<rparr>)"

definition liftVerdict :: "('f, 'g) formats \<Rightarrow> 'g \<Rightarrow> gostring" where
  "liftVerdict fo lift =
     arrow @ (if fo_above fo lift then '' access has exploitable sequential structure (predictive allocation pays off).''
              else '' access looks ~memoryless so far (predictive allocation '' @ [CHR 0xE2, CHR 0x89, CHR 0x88] @
                   '' marginal); collect more or expect flat gains.'')"

definition analyze_access_tool :: "bool \<Rightarrow> (nat \<Rightarrow> 'g::{zero,divide,minus}) \<Rightarrow> ('f, 'g) formats \<Rightarrow> tenant \<Rightarrow>
    'f memory_server \<Rightarrow> 'f mtool_result" where
  "analyze_access_tool scan_ok f64 fo t sv =
     (case Analyze scan_ok f64 t (reg_journal (mv_reg sv)) of
        None \<Rightarrow> MErr ScanFailed
      | Some rep \<Rightarrow>
          MText (''access analysis (tenant '' @ show_nat (unat t) @ ''): total='' @ show_nat (ar_Total rep) @
            ''  markovHit='' @ fo_percent fo (ar_MarkovHit rep) @ ''%  marginalHit='' @ fo_percent fo (ar_MarginalHit rep) @
            ''%  LIFT='' @ fo_percent fo (ar_Lift rep) @ ''%  coverage='' @ fo_percent fo (ar_Coverage rep) @ ''%'' @ nl @
            liftVerdict fo (ar_Lift rep)))"

section \<open>Memories\<close>

definition remember_tool :: "'f::{plus,minus,times,zero,linorder} list list option \<Rightarrow> int option \<Rightarrow> tenant \<Rightarrow> targs \<Rightarrow>
    'f memory_server \<Rightarrow> 'f memory_server \<times> 'f mtool_result" where
  "remember_tool vecs env t args sv =
     (case mv_mem sv of
        None \<Rightarrow> (sv, MErr MemDisabled)
      | Some m \<Rightarrow>
          let body = arg_str args ''text''
          in if body = [] then (sv, MErr (NeedArg ''text''))
             else
               let old = uintArg args ''supersedes'';
                   opts = \<lparr>ro_tags = stringsArg args ''tags'', ro_src = arg_str args ''src'', ro_supersedes = old,
                           ro_force = boolArg args ''force''\<rparr>
               in case Remember vecs env t body opts m of
                    (m', Inl e) \<Rightarrow> (sv\<lparr>mv_mem := Some m'\<rparr>, MErr (MemFailed e))
                  | (m', Inr (i, deduped, oldgone)) \<Rightarrow>
                      (sv\<lparr>mv_mem := Some m'\<rparr>,
                       MText
                         (if oldgone \<noteq> 0
                          then ''remembered as memory #'' @ show_nat i @ '', superseding #'' @ show_nat oldgone
                          else if deduped
                          then ''already known as memory #'' @ show_nat i @ '' (deduped, not stored again)''
                          else if old \<noteq> 0
                          then ''superseded id #'' @ show_nat old @ '' not found for this tenant; remembered as memory #'' @ show_nat i
                          else ''remembered as memory #'' @ show_nat i)))"

definition recallRingCap :: nat where
  "recallRingCap = 500"

definition ring_push :: "tenant \<times> 'f recall_payload \<Rightarrow> 'f recall_ring \<Rightarrow> 'f recall_ring" where
  "ring_push e ring =
     (let r = ring @ [e] in if length r > recallRingCap then drop (length r - recallRingCap) r else r)"

definition plural :: "nat \<Rightarrow> gostring" where
  "plural n = (if n = 1 then ''y'' else ''ies'')"

definition recall_line :: "('f \<Rightarrow> gostring) \<Rightarrow> nat \<times> 'f mem_result \<Rightarrow> gostring" where
  "recall_line fd ih =
     (case ih of (i, h) \<Rightarrow>
        show_nat (i + 1) @ ''. [#'' @ show_nat (mr_id h) @
        (if mr_tags h \<noteq> [] then '' '' @ show_list (\<lambda>x. x) (mr_tags h) else []) @
        '' dist='' @ fd (mr_score h) @ ''] '' @ mr_text h @ nl)"

definition formatRecall :: "('f, 'g) formats \<Rightarrow> gostring \<Rightarrow> 'f mem_result list \<Rightarrow> gostring" where
  "formatRecall fo query hits =
     (if hits = [] then ''no memories found for '' @ fo_quote fo query @ '' (0 stored matches)''
      else trim_right_char (CHR 0x0A)
             (show_nat (length hits) @ '' relevant memor'' @ plural (length hits) @ '' for '' @ fo_quote fo query @
              '' (closest first):'' @ nl @ concat (map (recall_line (fo_dist fo)) (enumerate 0 hits))))"

definition recall_k :: "targs \<Rightarrow> int" where
  "recall_k args = (case numArg args ''k'' of (v, ok) \<Rightarrow> if ok \<and> f64_to_i64 v > 0 then f64_to_i64 v else 5)"

text \<open>The recall is put into the ring also when its append failed. The struct of the answer holds the hits.\<close>

definition log_recall :: "int option \<Rightarrow> tenant \<Rightarrow> gostring \<Rightarrow> int \<Rightarrow> 'f mem_result list \<Rightarrow> 'f memory_server \<Rightarrow> 'f memory_server" where
  "log_recall env t query k hits sv =
     (if \<not> mv_logRecall sv then sv
      else let rp = \<lparr>rp_Query = query, rp_K = k, rp_Hits = map (\<lambda>h. (mr_id h, mr_score h)) hits\<rparr>
        in sv\<lparr>mv_recalls := fst (el_append env t rp (mv_recalls sv)), mv_ring := ring_push (t, rp) (mv_ring sv)\<rparr>)"

definition recall_tool :: "'f::{plus,minus,times,zero,one,linorder} list list option \<Rightarrow> int option \<Rightarrow> ('f, 'g) formats \<Rightarrow>
    tenant \<Rightarrow> targs \<Rightarrow> 'f memory_server \<Rightarrow> 'f memory_server \<times> 'f mtool_result" where
  "recall_tool vecs env fo t args sv =
     (case mv_mem sv of
        None \<Rightarrow> (sv, MErr MemDisabled)
      | Some m \<Rightarrow>
          let query = arg_str args ''query''
          in if query = [] then (sv, MErr (NeedArg ''query''))
             else case Recall vecs t (recall_k args) m of
                    Inl e \<Rightarrow> (sv, MErr (MemFailed e))
                  | Inr hits \<Rightarrow>
                      (log_recall env t query (recall_k args) hits sv, MRecall (formatRecall fo query hits) query hits))"

definition forget_tool :: "int option \<Rightarrow> tenant \<Rightarrow> targs \<Rightarrow> 'f memory_server \<Rightarrow> 'f memory_server \<times> 'f mtool_result" where
  "forget_tool env t args sv =
     (case mv_mem sv of
        None \<Rightarrow> (sv, MErr MemDisabled)
      | Some m \<Rightarrow>
          let i = uintArg args ''id''
          in if i = 0 then (sv, MErr (NeedArg ''id''))
             else case Forget env t i m of
                    (m', Inl e) \<Rightarrow> (sv\<lparr>mv_mem := Some m'\<rparr>, MErr (MemFailed e))
                  | (m', Inr gone) \<Rightarrow>
                      (sv\<lparr>mv_mem := Some m'\<rparr>,
                       MText ((if gone then ''forgot memory #'' @ show_nat i @ '' (removed from recall; still in the journal history)''
                               else ''memory #'' @ show_nat i @ '' not found for this tenant''))))"

text \<open>A message of the coordination space becomes a memory.\<close>

definition promoted_text :: "gostring \<Rightarrow> nat \<Rightarrow> message \<Rightarrow> gostring" where
  "promoted_text area q m = ''['' @ m_from m @ '' '' @ area @ ''#'' @ show_nat q @ ''] '' @ m_text m"

definition promote_tool :: "'f::{plus,minus,times,zero,linorder} list list option \<Rightarrow> int option \<Rightarrow> tenant \<Rightarrow> targs \<Rightarrow>
    comms_store \<Rightarrow> 'f memory_server \<Rightarrow> 'f memory_server \<times> 'f mtool_result" where
  "promote_tool vecs env t args c sv =
     (case mv_mem sv of
        None \<Rightarrow> (sv, MErr MemDisabled)
      | Some m \<Rightarrow>
          let area = arg_str args ''area''; q = uintArg args ''seq''
          in if area = [] \<or> q = 0 then (sv, MErr (NeedArg ''area and seq''))
             else case GetMsg t area q c of
                    None \<Rightarrow> (sv, MErr (NoMessage q area))
                  | Some msg \<Rightarrow>
                      let opts = \<lparr>ro_tags = stringsArg args ''tags'' @ [''promoted''], ro_src = ''promote'',
                                  ro_supersedes = 0, ro_force = False\<rparr>
                      in case Remember vecs env t (promoted_text area q msg) opts m of
                           (m', Inl e) \<Rightarrow> (sv\<lparr>mv_mem := Some m'\<rparr>, MErr (MemFailed e))
                         | (m', Inr (i, _, _)) \<Rightarrow>
                             (sv\<lparr>mv_mem := Some m'\<rparr>,
                              MText (''promoted message #'' @ show_nat q @ '' in '' @ area @ '' '' @ arrow @
                                     '' memory #'' @ show_nat i)))"

section \<open>Recall coverage\<close>

text \<open>\<^verbatim>\<open>pct\<close> for the fractions 0, 0.5 and 0.9, in tenths; the list has at most 500 elements, so that the
  product in float64 truncates to the exact quotient.\<close>

definition pct :: "nat \<Rightarrow> 'f::zero list \<Rightarrow> 'f" where
  "pct tenths tops =
     (if tops = [] then 0
      else let i = tenths * length tops div 10 in tops ! (if i \<ge> length tops then length tops - 1 else i))"

definition own_recalls :: "tenant \<Rightarrow> 'f recall_ring \<Rightarrow> 'f recall_payload list" where
  "own_recalls t ring = map snd (filter (\<lambda>e. fst e = t) ring)"

definition analyze_recall_tool :: "('f::{zero,linorder}, 'g) formats \<Rightarrow> tenant \<Rightarrow> 'f memory_server \<Rightarrow> 'f mtool_result" where
  "analyze_recall_tool fo t sv =
     (let rps = own_recalls t (mv_ring sv); total = length rps;
          blank_ones = length (filter (\<lambda>p. rp_Hits p = []) rps);
          tops = sort (map (\<lambda>p. snd (hd (rp_Hits p))) (filter (\<lambda>p. rp_Hits p \<noteq> []) rps));
          recent = map (\<lambda>p. truncRunes (rp_Query p) 40) (take 8 (rev rps));
          head = ''recall coverage (tenant '' @ show_nat (unat t) @ ''): total=''
      in if total = 0
         then MText (head @ ''0 '' @ [CHR 0xE2, CHR 0x80, CHR 0x94] @ '' no recalls logged yet'')
         else MText (head @ show_nat total @ '' empty='' @ show_nat blank_ones @
                ''  topDist min='' @ fo_dist fo (pct 0 tops) @ '' p50='' @ fo_dist fo (pct 5 tops) @
                '' p90='' @ fo_dist fo (pct 9 tops) @ '' max='' @ fo_dist fo (if tops \<noteq> [] then last tops else 0) @ nl @
                ''recent: '' @ show_list (fo_quote fo) recent))"

definition stats_tool :: "nat \<Rightarrow> 'f mtool_result" where
  "stats_tool nxt = (let events = nxt - 1 in MStats (''journal holds '' @ show_nat events @ '' events'') events)"

end
