(* ===== verification/Http.thy ===== *)
theory Http
  imports Strings
begin

text \<open>
  What the servers and their clients take from Go's \<^verbatim>\<open>encoding/json\<close> and \<^verbatim>\<open>net/http\<close>: JSON values with
  the length of their text, decoding into the fields of a struct, requests, responses, and the
  pattern matching of \<^verbatim>\<open>http.ServeMux\<close>.
\<close>

section \<open>JSON values\<close>

text \<open>\<open>JsNum\<close> is the literal of a number that is not written as an integer.\<close>

datatype js = JsStr gostring | JsBool bool | JsInt int | JsNum gostring | JsNull | JsArr "js list" | JsObj "(gostring \<times> js) list"

definition hex_digit :: "nat \<Rightarrow> char" where
  "hex_digit d = char_of (if d < 10 then 48 + d else 87 + d)"

text \<open>The HTML-safe escaping of \<^verbatim>\<open>json.Marshal\<close>. Bytes from 0x80 on are taken to be valid UTF-8, which is copied.\<close>

definition esc_char :: "char \<Rightarrow> gostring" where
  "esc_char c =
     (let b = of_char c :: nat
      in if c = CHR 0x22 \<or> c = CHR 0x5C then [CHR 0x5C, c]
         else if b = 8 then [CHR 0x5C, CHR ''b'']
         else if b = 12 then [CHR 0x5C, CHR ''f'']
         else if b = 10 then [CHR 0x5C, CHR ''n'']
         else if b = 13 then [CHR 0x5C, CHR ''r'']
         else if b = 9 then [CHR 0x5C, CHR ''t'']
         else if b < 32 \<or> c = CHR ''<'' \<or> c = CHR ''>'' \<or> c = CHR ''&''
         then [CHR 0x5C, CHR ''u'', CHR ''0'', CHR ''0'', hex_digit (b div 16), hex_digit (b mod 16)]
         else [c])"

definition js_quote :: "gostring \<Rightarrow> gostring" where
  "js_quote s = CHR 0x22 # concat (map esc_char s) @ [CHR 0x22]"

fun js_text :: "js \<Rightarrow> gostring" where
  "js_text (JsStr s) = js_quote s"
| "js_text (JsBool b) = (if b then ''true'' else ''false'')"
| "js_text (JsInt i) = show_int i"
| "js_text (JsNum s) = s"
| "js_text JsNull = ''null''"
| "js_text (JsArr vs) = CHR ''['' # join_with '','' (map js_text vs) @ '']''"
| "js_text (JsObj fs) = CHR ''{'' # join_with '','' (map (\<lambda>(k, v). js_quote k @ CHR '':'' # js_text v) fs) @ ''}''"

section \<open>Decoding into a struct\<close>

text \<open>
  Keys match field names up to case, later fields overwrite earlier ones, null changes nothing. A
  value of the wrong type leaves the field and makes the decoding fail in the end: the results are
  the value reached and whether all was well.
\<close>

definition key_is :: "gostring \<Rightarrow> gostring \<Rightarrow> bool" where
  "key_is name k \<longleftrightarrow> to_lower k = to_lower name"

lemma key_is_refl [simp]: "key_is k k"
  by (simp add: key_is_def)

lemma key_is_length [simp]: "length name \<noteq> length k \<Longrightarrow> \<not> key_is name k"
  by (auto simp: key_is_def to_lower_def dest: map_eq_imp_length_eq)

fun str_field :: "gostring \<Rightarrow> (gostring \<times> js) list \<Rightarrow> gostring \<times> bool \<Rightarrow> gostring \<times> bool" where
  "str_field name [] r = r"
| "str_field name ((k, v) # fs) (s, ok) =
     str_field name fs
       (if \<not> key_is name k then (s, ok)
        else case v of JsStr x \<Rightarrow> (x, ok) | JsNull \<Rightarrow> (s, ok) | _ \<Rightarrow> (s, False))"

fun bool_field :: "gostring \<Rightarrow> (gostring \<times> js) list \<Rightarrow> bool \<times> bool \<Rightarrow> bool \<times> bool" where
  "bool_field name [] r = r"
| "bool_field name ((k, v) # fs) (b, ok) =
     bool_field name fs
       (if \<not> key_is name k then (b, ok)
        else case v of JsBool x \<Rightarrow> (x, ok) | JsNull \<Rightarrow> (b, ok) | _ \<Rightarrow> (b, False))"

fun int_field :: "gostring \<Rightarrow> (gostring \<times> js) list \<Rightarrow> int \<times> bool \<Rightarrow> int \<times> bool" where
  "int_field name [] r = r"
| "int_field name ((k, v) # fs) (i, ok) =
     int_field name fs
       (if \<not> key_is name k then (i, ok)
        else case v of JsInt x \<Rightarrow> if - (2 ^ 63) \<le> x \<and> x < 2 ^ 63 then (x, ok) else (i, False)
             | JsNull \<Rightarrow> (i, ok) | _ \<Rightarrow> (i, False))"

text \<open>A struct is decoded from an object, or from null, which has no fields.\<close>

definition js_fields :: "js \<Rightarrow> (gostring \<times> js) list option" where
  "js_fields v = (case v of JsObj fs \<Rightarrow> Some fs | JsNull \<Rightarrow> Some [] | _ \<Rightarrow> None)"

abbreviation get_str :: "gostring \<Rightarrow> (gostring \<times> js) list \<Rightarrow> gostring" where
  "get_str name fs \<equiv> fst (str_field name fs ([], True))"

abbreviation str_ok :: "(gostring \<times> js) list \<Rightarrow> gostring \<Rightarrow> bool" where
  "str_ok fs name \<equiv> snd (str_field name fs ([], True))"

abbreviation get_bool :: "gostring \<Rightarrow> (gostring \<times> js) list \<Rightarrow> bool" where
  "get_bool name fs \<equiv> fst (bool_field name fs (False, True))"

abbreviation bool_ok :: "(gostring \<times> js) list \<Rightarrow> gostring \<Rightarrow> bool" where
  "bool_ok fs name \<equiv> snd (bool_field name fs (False, True))"

abbreviation get_int :: "gostring \<Rightarrow> (gostring \<times> js) list \<Rightarrow> int" where
  "get_int name fs \<equiv> fst (int_field name fs (0, True))"

abbreviation int_ok :: "(gostring \<times> js) list \<Rightarrow> gostring \<Rightarrow> bool" where
  "int_ok fs name \<equiv> snd (int_field name fs (0, True))"

text \<open>A \<^verbatim>\<open>json.RawMessage\<close> field: the last value under the key, null included.\<close>

definition raw_field :: "gostring \<Rightarrow> (gostring \<times> js) list \<Rightarrow> js option" where
  "raw_field name fs = fold (\<lambda>(k, v) r. if key_is name k then Some v else r) fs None"

text \<open>A string field written with \<^verbatim>\<open>omitempty\<close>.\<close>

definition omit_empty :: "gostring \<Rightarrow> gostring \<Rightarrow> (gostring \<times> js) list" where
  "omit_empty name s = (if s = [] then [] else [(name, JsStr s)])"

lemma str_field_omit [simp]:
  "str_field name (omit_empty k s @ fs) (x, ok) =
     str_field name fs (if key_is name k \<and> s \<noteq> [] then s else x, ok)"
  by (simp add: omit_empty_def)

lemma bool_field_omit [simp]:
  "\<not> key_is name k \<Longrightarrow> bool_field name (omit_empty k s @ fs) r = bool_field name fs r"
  by (cases r) (simp add: omit_empty_def)

lemma str_field_omit_last [simp]:
  "str_field name (omit_empty k s) (x, ok) = (if key_is name k \<and> s \<noteq> [] then s else x, ok)"
  using str_field_omit [of name k s "[]"] by simp

lemma bool_field_omit_last [simp]: "\<not> key_is name k \<Longrightarrow> bool_field name (omit_empty k s) r = r"
  using bool_field_omit [of name k s "[]"] by simp

text \<open>Decoding: null is the zero value, a value of a wrong type or out of range fails the whole. A field
  given twice counts by its last value.\<close>

definition dec_field :: "gostring \<Rightarrow> (js \<Rightarrow> 'a option) \<Rightarrow> (gostring \<times> js) list \<Rightarrow> 'a option" where
  "dec_field name dec fs = dec (case raw_field name fs of None \<Rightarrow> JsNull | Some v \<Rightarrow> v)"

fun dec_list :: "(js \<Rightarrow> 'a option) \<Rightarrow> js \<Rightarrow> 'a list option" where
  "dec_list dec (JsArr vs) = those (map dec vs)"
| "dec_list dec JsNull = Some []"
| "dec_list dec _ = None"

fun dec_str :: "js \<Rightarrow> gostring option" where
  "dec_str (JsStr s) = Some s" | "dec_str JsNull = Some []" | "dec_str _ = None"

fun dec_int :: "js \<Rightarrow> int option" where
  "dec_int (JsInt i) = (if - (2 ^ 63) \<le> i \<and> i < 2 ^ 63 then Some i else None)"
| "dec_int JsNull = Some 0"
| "dec_int _ = None"

fun dec_uint :: "js \<Rightarrow> nat option" where
  "dec_uint (JsInt i) = (if 0 \<le> i \<and> i < 2 ^ 64 then Some (nat i) else None)"
| "dec_uint JsNull = Some 0"
| "dec_uint _ = None"

fun dec_float :: "(gostring \<Rightarrow> 'f::zero option) \<Rightarrow> js \<Rightarrow> 'f option" where
  "dec_float num (JsInt i) = num (show_int i)"
| "dec_float num (JsNum s) = num s"
| "dec_float num JsNull = Some 0"
| "dec_float num _ = None"

section \<open>Requests and responses\<close>

text \<open>
  A body is the stream of its JSON values, \<open>None\<close> when it is not JSON. The target is the URL for a
  client and the unescaped path for a server.
\<close>

type_synonym body = "js list option"

record http_request =
  hq_Method :: gostring
  hq_Target :: gostring
  hq_Headers :: "(gostring \<times> gostring) list"
  hq_Body :: body

record http_response =
  hr_Status :: nat
  hr_Headers :: "(gostring \<times> gostring) list"
  hr_Body :: body

text \<open>A client's side of an exchange: the outside state changes, and there is a response or an error.\<close>

type_synonym 's transport = "http_request \<Rightarrow> 's \<Rightarrow> 's \<times> (gostring + http_response)"

definition first_value :: "body \<Rightarrow> js option" where
  "first_value b = (case b of Some (v # _) \<Rightarrow> Some v | _ \<Rightarrow> None)"

definition header_get :: "gostring \<Rightarrow> (gostring \<times> gostring) list \<Rightarrow> gostring" where
  "header_get name hs = (case map_of hs name of None \<Rightarrow> [] | Some v \<Rightarrow> v)"

definition body_length :: "js list \<Rightarrow> nat" where
  "body_length vs = sum_list (map (\<lambda>v. length (js_text v)) vs)"

definition status_text :: "nat \<Rightarrow> gostring" where
  "status_text code =
     (case map_of [(301, ''Moved Permanently''), (400, ''Bad Request''), (401, ''Unauthorized''), (404, ''Not Found''),
        (405, ''Method Not Allowed''), (409, ''Conflict''), (413, ''Request Entity Too Large''),
        (500, ''Internal Server Error''), (502, ''Bad Gateway''), (503, ''Service Unavailable''),
        (504, ''Gateway Timeout'')] code of None \<Rightarrow> [] | Some t \<Rightarrow> t)"

section \<open>The pattern matching of a mux\<close>

text \<open>
  A pattern is a method and segments, one of which may be a wildcard. GET patterns also match HEAD.
  A path that is not clean is redirected, a path that only matches other methods is refused.
  (CONNECT requests, whose paths are not cleaned, are not covered.)
\<close>

datatype seg = Lit gostring | Wild

fun match_path :: "seg list \<Rightarrow> gostring list \<Rightarrow> gostring list option" where
  "match_path [] [] = Some []"
| "match_path (Lit l # ps) (s # ss) = (if l = s then match_path ps ss else None)"
| "match_path (Wild # ps) (s # ss) = (if s = [] then None else map_option ((#) s) (match_path ps ss))"
| "match_path _ _ = None"

definition path_segments :: "gostring \<Rightarrow> gostring list" where
  "path_segments p = tl (split_on CHR ''/'' p)"

definition clean_path :: "gostring \<Rightarrow> bool" where
  "clean_path p \<longleftrightarrow> prefix ''/'' p \<and>
     (let ss = path_segments p in (\<forall>s \<in> set ss. s \<noteq> ''.'' \<and> s \<noteq> ''..'') \<and> [] \<notin> set (butlast ss))"

definition method_matches :: "gostring \<Rightarrow> gostring \<Rightarrow> bool" where
  "method_matches pat m \<longleftrightarrow> pat = m \<or> pat = ''GET'' \<and> m = ''HEAD''"

datatype 'h matched = Redirect | Handler 'h "gostring list" | WrongMethod | NotFound

fun mux_find :: "(gostring \<times> seg list \<times> 'h) list \<Rightarrow> gostring \<Rightarrow> gostring list \<Rightarrow> bool \<Rightarrow> 'h matched" where
  "mux_find [] m ss other = (if other then WrongMethod else NotFound)"
| "mux_find ((pm, pat, h) # ps) m ss other =
     (case match_path pat ss of
        None \<Rightarrow> mux_find ps m ss other
      | Some ws \<Rightarrow> if method_matches pm m then Handler h ws else mux_find ps m ss True)"

definition mux_match :: "(gostring \<times> seg list \<times> 'h) list \<Rightarrow> gostring \<Rightarrow> gostring \<Rightarrow> 'h matched" where
  "mux_match ps m p = (if clean_path p then mux_find ps m (path_segments p) False else Redirect)"

lemma split_on_append_list:
  "c \<notin> set a \<Longrightarrow> split_on c (a @ b) = (a @ hd (split_on c b)) # tl (split_on c b)"
  by (induction a) (auto simp: split: list.split)

lemma esc_char_length: "length (esc_char c) \<le> 6"
  by (simp add: esc_char_def Let_def)

lemma js_quote_length: "length (js_quote s) \<le> 6 * length s + 2"
proof -
  have "length (concat (map esc_char s)) \<le> 6 * length s"
    by (induction s) (use esc_char_length le_trans in \<open>auto intro: add_mono\<close>)
  then show ?thesis by (simp add: js_quote_def)
qed

end
