(* ===== verification/CodexInvoke.thy ===== *)
theory CodexInvoke
  imports Strings
begin

text \<open>
  One text invocation of the Codex app-server, \<^verbatim>\<open>providerbroker/codex_invoke.go\<close>: the invocation's state
  and the notifications that drive it, the validation of the request, and \<^verbatim>\<open>Invoke\<close> with the calls it
  makes on every path. Notifications come decoded (one that does not decode is ignored); they
  arrive in three batches, before the thread id is set, before the turn id is set, and after.
\<close>

section \<open>Limits, errors, items\<close>

definition maxCodexModelBytes :: nat where "maxCodexModelBytes = 256"
definition maxCodexSystemBytes :: nat where "maxCodexSystemBytes = 8 * 1024"
definition maxCodexPromptBytes :: nat where "maxCodexPromptBytes = 48 * 1024"
definition maxCodexOutputBytes :: nat where "maxCodexOutputBytes = 64 * 1024"

definition errOutputTooLarge :: gostring where
  "errOutputTooLarge = ''providerbroker: Codex invocation output exceeds broker limit''"

definition errToolAttempt :: gostring where
  "errToolAttempt = ''providerbroker: Codex attempted a disabled tool''"

text \<open>An item's type and text, both empty when the item does not decode (\<^verbatim>\<open>codexItem\<close>).\<close>

type_synonym codex_item = "gostring \<times> gostring"

definition forbiddenCodexItem :: "gostring \<Rightarrow> bool" where
  "forbiddenCodexItem ty \<longleftrightarrow>
     ty \<in> {''commandExecution'', ''fileChange'', ''mcpToolCall'', ''collabToolCall'', ''webSearch'', ''imageView''}"

datatype notification =
  AgentDelta gostring gostring gostring
| ItemEvent gostring gostring codex_item
| TurnCompleted gostring gostring gostring "codex_item list" "gostring option"
| ErrorNote gostring
| OtherNote

section \<open>The invocation\<close>

record invocation =
  iv_threadID :: gostring
  iv_turnID :: gostring
  iv_deltas :: gostring
  iv_final :: gostring
  iv_status :: gostring
  iv_failure :: gostring
  iv_done :: bool

definition newCodexInvocation :: invocation where
  "newCodexInvocation =
     \<lparr>iv_threadID = [], iv_turnID = [], iv_deltas = [], iv_final = [], iv_status = [], iv_failure = [], iv_done = False\<rparr>"

definition setThreadID :: "gostring \<Rightarrow> invocation \<Rightarrow> invocation" where
  "setThreadID tid i = (if iv_threadID i = [] then i\<lparr>iv_threadID := tid\<rparr> else i)"

definition setTurnID :: "gostring \<Rightarrow> invocation \<Rightarrow> invocation" where
  "setTurnID tid i = (if iv_turnID i = [] then i\<lparr>iv_turnID := tid\<rparr> else i)"

definition acceptIDs :: "gostring \<Rightarrow> gostring \<Rightarrow> invocation \<Rightarrow> bool \<times> invocation" where
  "acceptIDs threadID turnID i =
     (if iv_threadID i \<noteq> [] \<and> threadID \<noteq> [] \<and> iv_threadID i \<noteq> threadID then (False, i)
      else if iv_turnID i \<noteq> [] \<and> turnID \<noteq> [] \<and> iv_turnID i \<noteq> turnID then (False, i)
      else let i1 = (if iv_threadID i = [] \<and> threadID \<noteq> [] then i\<lparr>iv_threadID := threadID\<rparr> else i);
               i2 = (if iv_turnID i1 = [] \<and> turnID \<noteq> [] then i1\<lparr>iv_turnID := turnID\<rparr> else i1)
           in (True, i2))"

definition finish :: "invocation \<Rightarrow> invocation" where
  "finish i = i\<lparr>iv_done := True\<rparr>"

definition take_delta :: "gostring \<Rightarrow> invocation \<Rightarrow> invocation" where
  "take_delta delta i =
     (if length (iv_deltas i) + length delta > maxCodexOutputBytes
      then finish (i\<lparr>iv_failure := errOutputTooLarge\<rparr>)
      else i\<lparr>iv_deltas := iv_deltas i @ delta\<rparr>)"

definition take_item :: "codex_item \<Rightarrow> invocation \<Rightarrow> invocation" where
  "take_item item i =
     (case item of (ty, msg) \<Rightarrow>
        if ty = ''agentMessage'' \<and> msg \<noteq> []
        then if length msg > maxCodexOutputBytes then finish (i\<lparr>iv_failure := errOutputTooLarge\<rparr>)
             else i\<lparr>iv_final := msg\<rparr>
        else if forbiddenCodexItem ty then finish (i\<lparr>iv_failure := errToolAttempt @ '': '' @ ty\<rparr>)
        else i)"

definition turn_item :: "codex_item \<Rightarrow> invocation \<Rightarrow> invocation" where
  "turn_item item i =
     (case item of (ty, msg) \<Rightarrow>
        let i1 = (if ty = ''agentMessage'' \<and> msg \<noteq> []
                  then if length msg > maxCodexOutputBytes then i\<lparr>iv_failure := errOutputTooLarge\<rparr>
                       else i\<lparr>iv_final := msg\<rparr>
                  else i)
        in if forbiddenCodexItem ty then i1\<lparr>iv_failure := errToolAttempt @ '': '' @ ty\<rparr> else i1)"

definition take_turn :: "gostring \<Rightarrow> codex_item list \<Rightarrow> gostring option \<Rightarrow> invocation \<Rightarrow> invocation" where
  "take_turn status items err i =
     (let i1 = i\<lparr>iv_status := status\<rparr>;
          i2 = (case err of None \<Rightarrow> i1
                | Some m \<Rightarrow> if trim_space m \<noteq> [] then i1\<lparr>iv_failure := trim_space m\<rparr> else i1)
      in finish (fold turn_item items i2))"

fun inv_handle :: "notification \<Rightarrow> invocation \<Rightarrow> invocation" where
  "inv_handle (AgentDelta th tu delta) i =
     (case acceptIDs th tu i of (ok, i') \<Rightarrow> if ok then take_delta delta i' else i')"
| "inv_handle (ItemEvent th tu item) i =
     (case acceptIDs th tu i of (ok, i') \<Rightarrow> if ok then take_item item i' else i')"
| "inv_handle (TurnCompleted th tu status items err) i =
     (case acceptIDs th tu i of (ok, i') \<Rightarrow> if ok then take_turn status items err i' else i')"
| "inv_handle (ErrorNote m) i = (if trim_space m = [] then i else i\<lparr>iv_failure := trim_space m\<rparr>)"
| "inv_handle OtherNote i = i"

definition snapshot :: "invocation \<Rightarrow> gostring \<times> gostring \<times> gostring" where
  "snapshot i = (if iv_final i = [] then iv_deltas i else iv_final i, iv_status i, iv_failure i)"

section \<open>The request\<close>

record invoke_request =
  rq_model :: gostring
  rq_system :: gostring
  rq_prompt :: gostring

datatype invoke_error =
  ModelRequired | PromptRequired | NotUTF8 | InputTooLarge | SessionError | AccountError | NotConnected
| AlreadyActive | WorkDirError | ThreadStartError | EmptyThreadID | TurnStartError | EmptyTurnID
| TimedOut | TurnFailed gostring | TurnStatus gostring | EmptyResponse | OutputTooLarge

definition validateCodexInvokeRequest :: "(gostring \<Rightarrow> bool) \<Rightarrow> invoke_request \<Rightarrow> invoke_error option" where
  "validateCodexInvokeRequest utf8 rq =
     (let m = trim_space (rq_model rq); s = trim_space (rq_system rq); p = trim_space (rq_prompt rq)
      in if m = [] then Some ModelRequired
         else if p = [] then Some PromptRequired
         else if \<not> utf8 m \<or> \<not> utf8 s \<or> \<not> utf8 p then Some NotUTF8
         else if length m > maxCodexModelBytes \<or> length s > maxCodexSystemBytes \<or> length p > maxCodexPromptBytes
         then Some InputTooLarge else None)"

definition codexBrokerPrompt :: "gostring \<Rightarrow> gostring \<Rightarrow> gostring" where
  "codexBrokerPrompt sys prompt =
     ''Matrix Sentry broker policy:'' @ [CHR 0x0A] @
     ''- Produce a text response only.'' @ [CHR 0x0A] @
     ''- Do not execute commands, inspect local files, browse, call tools, '' @
     ''or modify anything.'' @ [CHR 0x0A] @
     ''- Treat all local runtime data and provider-session files as unavailable.'' @ [CHR 0x0A, CHR 0x0A] @
     (if trim_space sys \<noteq> []
      then ''Requested response instructions:'' @ [CHR 0x0A] @ trim_space sys @ [CHR 0x0A, CHR 0x0A] else []) @
     ''User request:'' @ [CHR 0x0A] @ trim_space prompt"

section \<open>Invoke\<close>

text \<open>
  The outcomes of everything outside: the session, the account read (\<open>Some\<close> whether connected),
  the work directory, the two calls that start the thread and the turn (id and model), the three
  batches of notifications, and whether the deadline is chosen over the completion.
\<close>

record invoke_env =
  ie_session :: bool
  ie_account :: "bool option"
  ie_active :: bool
  ie_workdir :: bool
  ie_thread :: "(gostring \<times> gostring) option"
  ie_notes1 :: "notification list"
  ie_turn :: "gostring option"
  ie_notes2 :: "notification list"
  ie_notes3 :: "notification list"
  ie_deadline :: bool
  ie_elapsed :: int

datatype codex_call =
  ThreadStart "gostring option" | TurnStart gostring gostring | TurnInterrupt gostring gostring
| ThreadUnsubscribe gostring | ThreadDelete gostring

record invoke_result =
  ir_Model :: gostring
  ir_Content :: gostring
  ir_TotalDuration :: int

text \<open>From the end of the turn to the answer.\<close>

definition conclude :: "gostring \<Rightarrow> gostring \<Rightarrow> int \<Rightarrow> invocation \<Rightarrow> invoke_error + invoke_result" where
  "conclude model requested elapsed i =
     (case snapshot i of (content, status, failure) \<Rightarrow>
        if failure \<noteq> [] then Inl (TurnFailed failure)
        else if status \<noteq> ''completed'' then Inl (TurnStatus status)
        else let c = trim_space content
             in if c = [] then Inl EmptyResponse
                else if length c > maxCodexOutputBytes then Inl OutputTooLarge
                else Inr \<lparr>ir_Model = (if trim_space model = [] then requested else trim_space model),
                          ir_Content = c, ir_TotalDuration = elapsed\<rparr>)"

definition interrupts :: "gostring \<Rightarrow> bool" where
  "interrupts failure \<longleftrightarrow> sublist errToolAttempt failure \<or> sublist errOutputTooLarge failure"

definition cleanup :: "gostring \<Rightarrow> codex_call list" where
  "cleanup tid = [ThreadUnsubscribe tid, ThreadDelete tid]"

text \<open>The calls made come with the result, in order; the deferred cleanup runs last.\<close>

definition Invoke :: "(gostring \<Rightarrow> bool) \<Rightarrow> invoke_env \<Rightarrow> invoke_request \<Rightarrow>
    codex_call list \<times> (invoke_error + invoke_result)" where
  "Invoke utf8 env rq =
     (case validateCodexInvokeRequest utf8 rq of Some e \<Rightarrow> ([], Inl e) | None \<Rightarrow>
      if \<not> ie_session env then ([], Inl SessionError)
      else case ie_account env of None \<Rightarrow> ([], Inl AccountError) | Some connected \<Rightarrow>
      if \<not> connected then ([], Inl NotConnected)
      else if ie_active env then ([], Inl AlreadyActive)
      else if \<not> ie_workdir env then ([], Inl WorkDirError)
      else
        let requested = trim_space (rq_model rq);
            start = ThreadStart (if requested \<noteq> ''default'' then Some requested else None);
            i1 = fold inv_handle (ie_notes1 env) newCodexInvocation
        in case ie_thread env of None \<Rightarrow> ([start], Inl ThreadStartError) | Some (tid0, model) \<Rightarrow>
           let tid = trim_space tid0
           in if tid = [] then ([start], Inl EmptyThreadID)
              else
                let i2 = fold inv_handle (ie_notes2 env) (setThreadID tid i1);
                    turn = TurnStart tid (codexBrokerPrompt (rq_system rq) (rq_prompt rq))
                in case ie_turn env of None \<Rightarrow> ([start, turn] @ cleanup tid, Inl TurnStartError) | Some turn0 \<Rightarrow>
                   let turnID = trim_space turn0
                   in if turnID = [] then ([start, turn] @ cleanup tid, Inl EmptyTurnID)
                      else
                        let i3 = fold inv_handle (ie_notes3 env) (setTurnID turnID i2)
                        in if \<not> iv_done i3 \<or> ie_deadline env
                           then ([start, turn, TurnInterrupt tid turnID] @ cleanup tid, Inl TimedOut)
                           else ([start, turn] @
                                 (if interrupts (iv_failure i3) then [TurnInterrupt tid turnID] else []) @ cleanup tid,
                                 conclude model requested (ie_elapsed env) i3))"

section \<open>Failures stick, outputs are bounded\<close>

lemma trim_space_length: "length (trim_space s) \<le> length s"
proof -
  have "length (trim_left t) \<le> length t" for t by (simp add: trim_left_def length_dropWhile_le)
  then show ?thesis unfolding trim_space_def by (metis le_trans length_rev)
qed

lemma err_nonempty [simp]: "errToolAttempt \<noteq> []" "errOutputTooLarge \<noteq> []"
  by (simp_all add: errToolAttempt_def errOutputTooLarge_def)

lemma acceptIDs_rest [simp]:
  "iv_failure (snd (acceptIDs th tu i)) = iv_failure i" "iv_final (snd (acceptIDs th tu i)) = iv_final i"
  "iv_deltas (snd (acceptIDs th tu i)) = iv_deltas i" "iv_status (snd (acceptIDs th tu i)) = iv_status i"
  "iv_done (snd (acceptIDs th tu i)) = iv_done i"
  by (simp_all add: acceptIDs_def Let_def)

lemma turn_item_failure: "iv_failure i \<noteq> [] \<Longrightarrow> iv_failure (turn_item x i) \<noteq> []"
  by (auto simp: turn_item_def Let_def split: prod.split)

lemma turn_items_failure: "iv_failure i \<noteq> [] \<Longrightarrow> iv_failure (fold turn_item xs i) \<noteq> []"
  by (induction xs arbitrary: i) (auto simp: turn_item_failure)

lemma turn_items_forbidden:
  "\<exists>(ty, msg) \<in> set xs. forbiddenCodexItem ty \<Longrightarrow> iv_failure (fold turn_item xs i) \<noteq> []"
proof (induction xs arbitrary: i)
  case (Cons x xs)
  show ?case
  proof (cases "forbiddenCodexItem (fst x)")
    case True
    then have "iv_failure (turn_item x i) \<noteq> []" by (auto simp: turn_item_def Let_def split: prod.split)
    then show ?thesis by (simp add: turn_items_failure)
  next
    case False
    then show ?thesis using Cons by auto
  qed
qed simp

lemma take_failure:
  "iv_failure i \<noteq> [] \<Longrightarrow> iv_failure (take_delta d i) \<noteq> []"
  "iv_failure i \<noteq> [] \<Longrightarrow> iv_failure (take_item x i) \<noteq> []"
  "iv_failure i \<noteq> [] \<Longrightarrow> iv_failure (take_turn st xs err i) \<noteq> []"
  by (auto simp: take_delta_def take_item_def take_turn_def Let_def finish_def turn_items_failure split: prod.split option.split)

lemma handle_failure: "iv_failure i \<noteq> [] \<Longrightarrow> iv_failure (inv_handle n i) \<noteq> []"
  by (cases n) (auto simp: take_failure split: prod.split dest!: arg_cong [where f = snd])

lemma fold_failure: "iv_failure i \<noteq> [] \<Longrightarrow> iv_failure (fold inv_handle ns i) \<noteq> []"
  by (induction ns arbitrary: i) (auto simp: handle_failure)

text \<open>Everything kept is within the output limit, and comes from the notifications.\<close>

fun note_deltas :: "notification \<Rightarrow> gostring" where
  "note_deltas (AgentDelta _ _ d) = d" | "note_deltas _ = []"

fun note_texts :: "notification \<Rightarrow> gostring set" where
  "note_texts (ItemEvent _ _ (ty, msg)) = (if ty = ''agentMessage'' then {msg} else {})"
| "note_texts (TurnCompleted _ _ _ items _) = {msg. (''agentMessage'', msg) \<in> set items}"
| "note_texts _ = {}"

fun note_status :: "notification \<Rightarrow> gostring set" where
  "note_status (TurnCompleted _ _ st _ _) = {st}" | "note_status _ = {}"

definition iv_ok :: "notification set \<Rightarrow> invocation \<Rightarrow> bool" where
  "iv_ok ns i \<longleftrightarrow> length (iv_deltas i) \<le> maxCodexOutputBytes \<and> length (iv_final i) \<le> maxCodexOutputBytes \<and>
     (iv_final i = [] \<or> (\<exists>n \<in> ns. iv_final i \<in> note_texts n)) \<and>
     (iv_status i = [] \<or> (\<exists>n \<in> ns. iv_status i \<in> note_status n))"

lemma turn_items_ok:
  assumes "length (iv_final i) \<le> maxCodexOutputBytes"
  shows "length (iv_final (fold turn_item xs i)) \<le> maxCodexOutputBytes \<and>
     iv_deltas (fold turn_item xs i) = iv_deltas i \<and> iv_status (fold turn_item xs i) = iv_status i \<and>
     (iv_final (fold turn_item xs i) = iv_final i \<or> (''agentMessage'', iv_final (fold turn_item xs i)) \<in> set xs)"
  using assms
proof (induction xs arbitrary: i)
  case (Cons x xs)
  obtain ty msg where x: "x = (ty, msg)" by (cases x)
  have "length (iv_final (turn_item x i)) \<le> maxCodexOutputBytes" "iv_deltas (turn_item x i) = iv_deltas i"
    "iv_status (turn_item x i) = iv_status i" "iv_final (turn_item x i) = iv_final i \<or> (''agentMessage'', iv_final (turn_item x i)) = x"
    using Cons.prems by (auto simp: turn_item_def x Let_def)
  then show ?case using Cons.IH [of "turn_item x i"] by auto
qed simp

lemma take_turn_ok:
  assumes "iv_ok ns i" and "n = TurnCompleted th tu st items err"
  shows "iv_ok (insert n ns) (take_turn st items err i)"
proof -
  define i2 where "i2 = (case err of None \<Rightarrow> i\<lparr>iv_status := st\<rparr>
      | Some m \<Rightarrow> if trim_space m \<noteq> [] then i\<lparr>iv_status := st, iv_failure := trim_space m\<rparr> else i\<lparr>iv_status := st\<rparr>)"
  have i2: "iv_deltas i2 = iv_deltas i" "iv_final i2 = iv_final i" "iv_status i2 = st"
    by (auto simp: i2_def split: option.split)
  have t: "take_turn st items err i = finish (fold turn_item items i2)"
    by (auto simp: take_turn_def Let_def i2_def split: option.split)
  have "length (iv_final i2) \<le> maxCodexOutputBytes" using assms(1) i2 by (simp add: iv_ok_def)
  note k = turn_items_ok [OF this, of items]
  then have "iv_final (fold turn_item items i2) = [] \<or> (\<exists>m \<in> insert n ns. iv_final (fold turn_item items i2) \<in> note_texts m)"
    using assms i2 by (auto simp: iv_ok_def)
  then show ?thesis using k i2 assms unfolding t by (auto simp: iv_ok_def finish_def)
qed

lemma iv_ok_mono: "iv_ok ns i \<Longrightarrow> ns \<subseteq> ns' \<Longrightarrow> iv_ok ns' i"
  by (auto simp: iv_ok_def)

lemma accept_ok: "iv_ok ns i \<Longrightarrow> iv_ok ns (snd (acceptIDs th tu i))"
  by (simp add: iv_ok_def)

lemma handle_ok:
  assumes "iv_ok ns i"
  shows "iv_ok (insert n ns) (inv_handle n i)"
proof -
  have m: "iv_ok ns i' \<Longrightarrow> iv_ok (insert n ns) i'" for i' by (rule iv_ok_mono) auto
  show ?thesis
  proof (cases n)
    case (AgentDelta th tu d)
    obtain ok i' where a: "acceptIDs th tu i = (ok, i')" by (cases "acceptIDs th tu i")
    then have "iv_ok ns i'" using accept_ok [OF assms, of th tu] by simp
    then have "iv_ok ns (take_delta d i')" by (auto simp: iv_ok_def take_delta_def finish_def)
    then show ?thesis using m AgentDelta a \<open>iv_ok ns i'\<close> by auto
  next
    case (ItemEvent th tu item)
    obtain ok i' where a: "acceptIDs th tu i = (ok, i')" by (cases "acceptIDs th tu i")
    obtain ty msg where it: "item = (ty, msg)" by (cases item)
    have i': "iv_ok ns i'" using accept_ok [OF assms, of th tu] a by simp
    then have "iv_ok (insert n ns) (take_item item i')"
      by (auto simp: iv_ok_def take_item_def finish_def it ItemEvent)
    then show ?thesis using m [OF i'] ItemEvent a by auto
  next
    case (TurnCompleted th tu st items err)
    obtain ok i' where a: "acceptIDs th tu i = (ok, i')" by (cases "acceptIDs th tu i")
    have i': "iv_ok ns i'" using accept_ok [OF assms, of th tu] a by simp
    show ?thesis using m [OF i'] take_turn_ok [OF i' TurnCompleted] a by (simp add: TurnCompleted)
  next
    case (ErrorNote x)
    have "iv_ok ns (inv_handle n i)" using assms by (simp add: ErrorNote iv_ok_def)
    then show ?thesis by (rule m)
  qed (use m [OF assms] in simp)
qed

lemma fold_ok: "iv_ok ns i \<Longrightarrow> iv_ok (set xs \<union> ns) (fold inv_handle xs i)"
proof (induction xs arbitrary: i ns)
  case (Cons x xs)
  have "iv_ok (set xs \<union> insert x ns) (fold inv_handle xs (inv_handle x i))" by (rule Cons.IH [OF handle_ok [OF Cons.prems]])
  then show ?case by simp
qed simp

lemma set_ids_ok [simp]: "iv_ok ns (setThreadID t i) = iv_ok ns i" "iv_ok ns (setTurnID t i) = iv_ok ns i"
  "iv_failure (setThreadID t i) = iv_failure i" "iv_failure (setTurnID t i) = iv_failure i"
  "iv_deltas (setThreadID t i) = iv_deltas i" "iv_deltas (setTurnID t i) = iv_deltas i"
  by (simp_all add: iv_ok_def setThreadID_def setTurnID_def)

section \<open>Notifications of the invocation's own turn\<close>

fun note_ids :: "notification \<Rightarrow> (gostring \<times> gostring) option" where
  "note_ids (AgentDelta th tu _) = Some (th, tu)"
| "note_ids (ItemEvent th tu _) = Some (th, tu)"
| "note_ids (TurnCompleted th tu _ _ _) = Some (th, tu)"
| "note_ids _ = None"

definition own_note :: "gostring \<Rightarrow> gostring \<Rightarrow> notification \<Rightarrow> bool" where
  "own_note th tu n \<longleftrightarrow> (case note_ids n of None \<Rightarrow> True | Some (a, b) \<Rightarrow> (a = [] \<or> a = th) \<and> (b = [] \<or> b = tu))"

definition own_iv :: "gostring \<Rightarrow> gostring \<Rightarrow> invocation \<Rightarrow> bool" where
  "own_iv th tu i \<longleftrightarrow> (iv_threadID i = [] \<or> iv_threadID i = th) \<and> (iv_turnID i = [] \<or> iv_turnID i = tu)"

fun tool_use :: "notification \<Rightarrow> bool" where
  "tool_use (ItemEvent _ _ (ty, msg)) \<longleftrightarrow> forbiddenCodexItem ty"
| "tool_use (TurnCompleted _ _ _ items _) \<longleftrightarrow> (\<exists>(ty, msg) \<in> set items. forbiddenCodexItem ty)"
| "tool_use _ \<longleftrightarrow> False"

lemma own_accept:
  assumes "own_iv th tu i" and "a = [] \<or> a = th" and "b = [] \<or> b = tu"
  shows "fst (acceptIDs a b i) \<and> own_iv th tu (snd (acceptIDs a b i))"
proof -
  have c1: "\<not> (iv_threadID i \<noteq> [] \<and> a \<noteq> [] \<and> iv_threadID i \<noteq> a)"
    and c2: "\<not> (iv_turnID i \<noteq> [] \<and> b \<noteq> [] \<and> iv_turnID i \<noteq> b)"
    using assms unfolding own_iv_def by (metis, metis)
  define i1 where "i1 = (if iv_threadID i = [] \<and> a \<noteq> [] then i\<lparr>iv_threadID := a\<rparr> else i)"
  define i2 where "i2 = (if iv_turnID i1 = [] \<and> b \<noteq> [] then i1\<lparr>iv_turnID := b\<rparr> else i1)"
  have "acceptIDs a b i = (True, i2)"
    unfolding acceptIDs_def if_not_P [OF c1] if_not_P [OF c2] Let_def i2_def i1_def ..
  moreover have "own_iv th tu i1" using assms unfolding own_iv_def i1_def by (cases "iv_threadID i = [] \<and> a \<noteq> []") simp_all
  then have "own_iv th tu i2" using assms(3) unfolding own_iv_def i2_def by (cases "iv_turnID i1 = [] \<and> b \<noteq> []") simp_all
  ultimately show ?thesis by simp
qed

lemma forbidden_not_message: "forbiddenCodexItem ty \<Longrightarrow> ty \<noteq> ''agentMessage''"
  by (auto simp: forbiddenCodexItem_def)

lemma own_cong: "iv_threadID i' = iv_threadID i \<Longrightarrow> iv_turnID i' = iv_turnID i \<Longrightarrow> own_iv th tu i' = own_iv th tu i"
  by (simp add: own_iv_def)

lemma take_own [simp]:
  "own_iv th tu (take_delta d i) = own_iv th tu i" "own_iv th tu (take_item x i) = own_iv th tu i"
  by (rule own_cong; auto simp: take_delta_def take_item_def finish_def split: prod.split)+

lemma take_item_forbidden: "forbiddenCodexItem ty \<Longrightarrow> iv_failure (take_item (ty, msg) i) \<noteq> []"
  using forbidden_not_message [of ty] by (simp add: take_item_def finish_def)

lemma take_turn_forbidden:
  "\<exists>(ty, msg) \<in> set items. forbiddenCodexItem ty \<Longrightarrow> iv_failure (take_turn st items err i) \<noteq> []"
  unfolding take_turn_def Let_def finish_def using turn_items_forbidden by simp

lemma turn_items_ids [simp]:
  "iv_threadID (fold turn_item xs i) = iv_threadID i \<and> iv_turnID (fold turn_item xs i) = iv_turnID i"
  by (induction xs arbitrary: i) (auto simp: turn_item_def Let_def split: prod.split)

lemma take_turn_own [simp]: "own_iv th tu (take_turn st items err i) = own_iv th tu i"
  by (rule own_cong; simp add: take_turn_def Let_def finish_def split: option.split)

lemma handle_own:
  assumes "own_iv th tu i" and "own_note th tu n"
  shows "own_iv th tu (inv_handle n i) \<and> (tool_use n \<longrightarrow> iv_failure (inv_handle n i) \<noteq> [])"
proof (cases "note_ids n")
  case None
  then show ?thesis using assms(1) by (cases n) (auto simp: own_iv_def)
next
  case (Some ab)
  obtain a b where ab: "ab = (a, b)" by (cases ab)
  have "fst (acceptIDs a b i) \<and> own_iv th tu (snd (acceptIDs a b i))"
    by (rule own_accept [OF assms(1)]) (use assms(2) Some ab in \<open>simp_all add: own_note_def\<close>)
  then obtain i' where a: "acceptIDs a b i = (True, i')" "own_iv th tu i'" by (cases "acceptIDs a b i") auto
  show ?thesis
  proof (cases n)
    case (ItemEvent x y item)
    then show ?thesis using Some ab a take_item_forbidden by (cases item) simp
  next
    case (TurnCompleted x y st items err)
    then show ?thesis using Some ab a take_turn_forbidden [of items st err i'] by simp
  qed (use Some ab a in auto)
qed

lemma handle_deltas:
  assumes "own_iv th tu i" and "own_note th tu n" and "iv_failure (inv_handle n i) = []"
  shows "iv_deltas (inv_handle n i) = iv_deltas i @ note_deltas n"
proof (cases n)
  case (AgentDelta a b d)
  have "fst (acceptIDs a b i)"
    using own_accept [OF assms(1), of a b] assms(2) by (simp add: AgentDelta own_note_def)
  then obtain i' where i': "acceptIDs a b i = (True, i')" by (cases "acceptIDs a b i") auto
  then have "iv_deltas i' = iv_deltas i" by (metis acceptIDs_rest(3) snd_conv)
  then show ?thesis using assms(3) i' by (auto simp: AgentDelta take_delta_def finish_def split: if_splits)
next
  case (ItemEvent a b x)
  obtain ok i' where i': "acceptIDs a b i = (ok, i')" by (cases "acceptIDs a b i")
  then have "iv_deltas i' = iv_deltas i" by (metis acceptIDs_rest(3) snd_conv)
  then show ?thesis using i' by (auto simp: ItemEvent take_item_def finish_def split: prod.split)
next
  case (TurnCompleted a b st xs err)
  obtain ok i' where i': "acceptIDs a b i = (ok, i')" by (cases "acceptIDs a b i")
  then have d: "iv_deltas i' = iv_deltas i" by (metis acceptIDs_rest(3) snd_conv)
  have f: "iv_deltas (fold turn_item xs j) = iv_deltas j" for j
    by (induction xs arbitrary: j) (auto simp: turn_item_def Let_def split: prod.split)
  have "iv_deltas (take_turn st xs err i') = iv_deltas i'"
    by (simp add: take_turn_def Let_def finish_def f split: option.split)
  then show ?thesis using i' d by (simp add: TurnCompleted)
qed auto

text \<open>Running the own turn's notifications without a failure.\<close>

lemma fold_own:
  assumes "own_iv th tu i" and "\<forall>n \<in> set ns. own_note th tu n"
  shows "own_iv th tu (fold inv_handle ns i) \<and>
     (iv_failure (fold inv_handle ns i) = [] \<longrightarrow>
        (\<forall>n \<in> set ns. \<not> tool_use n) \<and> iv_deltas (fold inv_handle ns i) = iv_deltas i @ concat (map note_deltas ns))"
  using assms
proof (induction ns arbitrary: i)
  case (Cons n ns)
  have own: "own_iv th tu (inv_handle n i)" and tool: "tool_use n \<longrightarrow> iv_failure (inv_handle n i) \<noteq> []"
    using handle_own [OF Cons.prems(1), of n] Cons.prems(2) by auto
  have IH: "own_iv th tu (fold inv_handle ns (inv_handle n i)) \<and>
     (iv_failure (fold inv_handle ns (inv_handle n i)) = [] \<longrightarrow>
        (\<forall>n \<in> set ns. \<not> tool_use n) \<and>
        iv_deltas (fold inv_handle ns (inv_handle n i)) = iv_deltas (inv_handle n i) @ concat (map note_deltas ns))"
    by (rule Cons.IH [OF own]) (use Cons.prems(2) in simp)
  show ?case
  proof (cases "iv_failure (inv_handle n i) = []")
    case True
    then have "iv_deltas (inv_handle n i) = iv_deltas i @ note_deltas n"
      using handle_deltas [OF Cons.prems(1)] Cons.prems(2) by simp
    then show ?thesis using IH tool True by simp
  next
    case False
    then show ?thesis using IH fold_failure [of "inv_handle n i" ns] by simp
  qed
qed simp

lemma Invoke_Inr:
  assumes "Invoke utf8 env rq = (calls, Inr r)"
  shows "\<exists>tid model turn i3. ie_thread env = Some (tid, model) \<and> ie_turn env = Some turn \<and>
     i3 = fold inv_handle (ie_notes3 env) (setTurnID (trim_space turn)
            (fold inv_handle (ie_notes2 env) (setThreadID (trim_space tid) (fold inv_handle (ie_notes1 env) newCodexInvocation)))) \<and>
     conclude model (trim_space (rq_model rq)) (ie_elapsed env) i3 = Inr r"
proof -
  obtain tid model where t: "ie_thread env = Some (tid, model)"
    using assms by (auto simp: Invoke_def Let_def split: option.splits if_splits)
  obtain turn where u: "ie_turn env = Some turn"
    using assms by (auto simp: Invoke_def Let_def split: option.splits if_splits)
  show ?thesis using assms t u by (auto simp: Invoke_def Let_def split: option.splits if_splits)
qed

lemma Invoke_cleans_up:
  assumes "ie_thread env = Some (tid, model)" and "trim_space tid \<noteq> []"
    and "ThreadStart m \<in> set (fst (Invoke utf8 env rq))"
  shows "\<exists>pre. fst (Invoke utf8 env rq) = pre @ cleanup (trim_space tid)"
  using assms(3) unfolding Invoke_def Let_def assms(1)
  by (auto simp: assms(2) split: option.splits if_splits)

section \<open>Properties\<close>

text \<open>C14. What an invocation answers is the text of its own turn: when Invoke succeeds and every
  notification carried the ids of the thread and turn it started (or none), the turn reported
  itself completed, no item of a disabled tool was seen in any notification, and the content is
  the trimmed text of one of the turn's messages, or else of all its deltas in order; it is
  never empty and never above the output limit.\<close>
theorem Invoke_text_only:
  assumes "Invoke utf8 env rq = (calls, Inr r)" and "ie_thread env = Some (tid, model)" and "ie_turn env = Some turn"
    and "\<forall>n \<in> set (ie_notes1 env @ ie_notes2 env @ ie_notes3 env). own_note (trim_space tid) (trim_space turn) n"
  shows "let ns = ie_notes1 env @ ie_notes2 env @ ie_notes3 env
     in (\<forall>n \<in> set ns. \<not> tool_use n) \<and> (\<exists>n \<in> set ns. ''completed'' \<in> note_status n) \<and>
        (\<exists>s. ir_Content r = trim_space s \<and>
           (s = concat (map note_deltas ns) \<or> (\<exists>n \<in> set ns. s \<in> note_texts n))) \<and>
        ir_Content r \<noteq> [] \<and> length (ir_Content r) \<le> maxCodexOutputBytes"
proof -
  let ?t = "trim_space tid" and ?u = "trim_space turn"
  define i1 where "i1 = fold inv_handle (ie_notes1 env) newCodexInvocation"
  define i2 where "i2 = fold inv_handle (ie_notes2 env) (setThreadID ?t i1)"
  define i3 where "i3 = fold inv_handle (ie_notes3 env) (setTurnID ?u i2)"
  define ns where "ns = ie_notes1 env @ ie_notes2 env @ ie_notes3 env"
  have res: "conclude model (trim_space (rq_model rq)) (ie_elapsed env) i3 = Inr r"
    using Invoke_Inr [OF assms(1)] assms(2,3) by (auto simp: i3_def i2_def i1_def)
  then have fail: "iv_failure i3 = []" and st: "iv_status i3 = ''completed''"
    and content: "ir_Content r = trim_space (if iv_final i3 = [] then iv_deltas i3 else iv_final i3)"
    "ir_Content r \<noteq> []" "length (ir_Content r) \<le> maxCodexOutputBytes"
    by (auto simp: conclude_def snapshot_def Let_def split: if_splits)
  have new: "own_iv ?t ?u newCodexInvocation" "iv_deltas newCodexInvocation = []"
    by (simp_all add: own_iv_def newCodexInvocation_def)
  have set_own: "own_iv ?t ?u (setThreadID ?t i)" "own_iv ?t ?u (setTurnID ?u i)" if "own_iv ?t ?u i" for i
    using that by (auto simp: own_iv_def setThreadID_def setTurnID_def)
  have own1: "own_iv ?t ?u i1" using fold_own [OF new(1), of "ie_notes1 env"] assms(4) by (simp add: i1_def)
  have own2: "own_iv ?t ?u i2" using fold_own [OF set_own(1) [OF own1], of "ie_notes2 env"] assms(4) by (simp add: i2_def)
  have f2: "iv_failure i2 = []" using fail fold_failure [of "setTurnID ?u i2"] by (auto simp: i3_def)
  then have f1: "iv_failure i1 = []" using fold_failure [of "setThreadID ?t i1"] by (auto simp: i2_def)
  have "(\<forall>n \<in> set ns. \<not> tool_use n) \<and> iv_deltas i3 = concat (map note_deltas ns)"
    using fold_own [OF new(1), of "ie_notes1 env"] fold_own [OF set_own(1) [OF own1], of "ie_notes2 env"]
      fold_own [OF set_own(2) [OF own2], of "ie_notes3 env"] assms(4) fail f1 f2 new(2)
    by (auto simp: i1_def [symmetric] i2_def [symmetric] i3_def [symmetric] ns_def)
  moreover have "iv_ok (set ns) i3"
  proof -
    have "iv_ok {} newCodexInvocation" by (simp add: iv_ok_def newCodexInvocation_def)
    from fold_ok [OF this] have "iv_ok (set (ie_notes1 env)) (setThreadID ?t i1)" by (simp add: i1_def)
    from fold_ok [OF this] have "iv_ok (set (ie_notes2 env) \<union> set (ie_notes1 env)) (setTurnID ?u i2)" by (simp add: i2_def)
    from fold_ok [OF this, of "ie_notes3 env"] show ?thesis by (simp add: i3_def ns_def Un_commute Un_left_commute)
  qed
  ultimately show ?thesis using content st unfolding Let_def ns_def [symmetric]
    by (auto simp: iv_ok_def split: if_splits)
qed

definition ex_env :: invoke_env where
  "ex_env = \<lparr>ie_session = True, ie_account = Some True, ie_active = False, ie_workdir = True, ie_thread = Some (''t2'', []),
     ie_notes1 = [], ie_turn = Some ''u2'', ie_notes2 = [AgentDelta ''t2'' ''u2'' ''hel''],
     ie_notes3 = [AgentDelta ''t2'' ''u2'' ''lo'', TurnCompleted ''t2'' ''u2'' ''completed'' [] None],
     ie_deadline = False, ie_elapsed = 5\<rparr>"

definition ex_request :: invoke_request where
  "ex_request = \<lparr>rq_model = ''default'', rq_system = [], rq_prompt = ''hi''\<rparr>"

lemma trim_idle [simp]: "x \<noteq> [] \<Longrightarrow> \<not> is_space (hd x) \<Longrightarrow> \<not> is_space (last x) \<Longrightarrow> trim_space x = x"
  by (rule trim_space_idle) simp

lemmas limits = maxCodexModelBytes_def maxCodexSystemBytes_def maxCodexPromptBytes_def maxCodexOutputBytes_def

lemma ex_valid: "validateCodexInvokeRequest (\<lambda>_. True) ex_request = None"
  by (simp add: validateCodexInvokeRequest_def ex_request_def is_space_def limits Let_def)

lemma ex_invoke: "snd (Invoke (\<lambda>_. True) ex_env ex_request) =
    Inr \<lparr>ir_Model = ''default'', ir_Content = ''hello'', ir_TotalDuration = 5\<rparr>"
proof -
  have i2: "fold inv_handle [AgentDelta ''t2'' ''u2'' ''hel''] (setThreadID ''t2'' newCodexInvocation) =
      newCodexInvocation\<lparr>iv_threadID := ''t2'', iv_turnID := ''u2'', iv_deltas := ''hel''\<rparr>" (is "_ = ?i2")
    by (simp add: setThreadID_def newCodexInvocation_def acceptIDs_def take_delta_def limits)
  have "fold inv_handle [AgentDelta ''t2'' ''u2'' ''lo'', TurnCompleted ''t2'' ''u2'' ''completed'' [] None] (setTurnID ''u2'' ?i2) =
      newCodexInvocation\<lparr>iv_threadID := ''t2'', iv_turnID := ''u2'', iv_deltas := ''hello'', iv_status := ''completed'', iv_done := True\<rparr>"
    (is "_ = ?i3")
    by (simp add: setTurnID_def newCodexInvocation_def acceptIDs_def take_delta_def take_turn_def finish_def limits)
  moreover have "conclude [] ''default'' 5 ?i3 = Inr \<lparr>ir_Model = ''default'', ir_Content = ''hello'', ir_TotalDuration = 5\<rparr>"
    by (simp add: conclude_def snapshot_def newCodexInvocation_def is_space_def limits)
  moreover have "trim_space (rq_model ex_request) = ''default''" by (simp add: ex_request_def is_space_def)
  ultimately show ?thesis using i2 ex_valid by (simp add: Invoke_def ex_env_def is_space_def newCodexInvocation_def Let_def)
qed

theorem Invoke_text_only_witness:
  "\<exists>calls r. Invoke (\<lambda>_. True) ex_env ex_request = (calls, Inr r) \<and> ir_Content r \<noteq> [] \<and>
     length (ir_Content r) \<le> maxCodexOutputBytes"
proof -
  note ex_invoke
  then obtain calls r where i: "Invoke (\<lambda>_. True) ex_env ex_request = (calls, Inr r)" by (metis prod.collapse)
  have "ie_thread ex_env = Some (''t2'', [])" "ie_turn ex_env = Some ''u2''"
    "\<forall>n \<in> set (ie_notes1 ex_env @ ie_notes2 ex_env @ ie_notes3 ex_env). own_note (trim_space ''t2'') (trim_space ''u2'') n"
    by (simp_all add: ex_env_def own_note_def is_space_def)
  from Invoke_text_only [OF i this] i show ?thesis by (auto simp: Let_def)
qed

text \<open>A late notification answers the next prompt: if the completion of an earlier turn, of another
  thread, arrives after the new invocation is registered and before its thread id is known, the
  invocation takes over that thread's id; its own thread's notifications are all ignored, and
  Invoke returns the earlier turn's text as the answer to the new prompt.\<close>
theorem late_turn_answers_next_prompt:
  assumes "validateCodexInvokeRequest utf8 rq = None" and "ie_session env" and "ie_account env = Some True"
    and "\<not> ie_active env" and "ie_workdir env" and "ie_thread env = Some (tid, model)" and "ie_turn env = Some turn"
    and "\<not> ie_deadline env" and "trim_space tid \<noteq> []" and "trim_space turn \<noteq> []"
    and "ie_notes1 env = [TurnCompleted old oldturn ''completed'' [(''agentMessage'', answer)] None]"
    and "old \<noteq> []" and "old \<noteq> trim_space tid" and "trim_space answer \<noteq> []" and "length answer \<le> maxCodexOutputBytes"
    and "\<forall>n \<in> set (ie_notes2 env @ ie_notes3 env). \<exists>b. note_ids n = Some (trim_space tid, b)"
  shows "\<exists>calls r. Invoke utf8 env rq = (calls, Inr r) \<and> ir_Content r = trim_space answer"
proof -
  let ?t = "trim_space tid"
  define i1 where "i1 = fold inv_handle (ie_notes1 env) newCodexInvocation"
  have "answer \<noteq> []" using assms(14) by auto
  then have i1: "iv_threadID i1 = old" "iv_final i1 = answer" "iv_status i1 = ''completed''" "iv_failure i1 = []" "iv_done i1"
    using assms(12,15) by (simp_all add: i1_def assms(11) newCodexInvocation_def acceptIDs_def take_turn_def turn_item_def
      finish_def Let_def forbiddenCodexItem_def)
  have stay: "fold inv_handle ns i = i"
    if "iv_threadID i = old" "\<forall>n \<in> set ns. \<exists>b. note_ids n = Some (?t, b)" for ns i
    using that
  proof (induction ns)
    case (Cons n ns)
    obtain b where b: "note_ids n = Some (?t, b)" using Cons.prems by auto
    have rej: "acceptIDs ?t b i = (False, i)" using Cons.prems(1) assms(9,12,13) by (simp add: acceptIDs_def)
    have "inv_handle n i = i" using b rej by (cases n) simp_all
    then show ?case using Cons by simp
  qed simp
  have "setThreadID ?t i1 = i1" using i1(1) assms(12) by (simp add: setThreadID_def)
  then have i2: "fold inv_handle (ie_notes2 env) (setThreadID ?t i1) = i1" using stay [OF i1(1)] assms(16) by simp
  define i3 where "i3 = setTurnID (trim_space turn) i1"
  have i3: "iv_threadID i3 = old" "iv_final i3 = answer" "iv_status i3 = ''completed''" "iv_failure i3 = []" "iv_done i3"
    using i1 by (simp_all add: i3_def setTurnID_def)
  have n3: "fold inv_handle (ie_notes3 env) i3 = i3" using stay [OF i3(1)] assms(16) by simp
  have "length (trim_space answer) \<le> maxCodexOutputBytes"
    using assms(15) le_trans [OF trim_space_length] by blast
  then have "\<exists>r. conclude model (trim_space (rq_model rq)) (ie_elapsed env) i3 = Inr r \<and> ir_Content r = trim_space answer"
    using i3 assms(14) \<open>answer \<noteq> []\<close> by (simp add: conclude_def snapshot_def Let_def)
  moreover have "snd (Invoke utf8 env rq) = conclude model (trim_space (rq_model rq)) (ie_elapsed env) i3"
    using assms(1-10) i2 n3 i3(5) by (simp add: Invoke_def Let_def i1_def [symmetric] i3_def [symmetric])
  ultimately show ?thesis by (metis prod.collapse)
qed

theorem late_turn_answers_next_prompt_witness:
  "\<exists>calls r. Invoke (\<lambda>_. True)
       (ex_env\<lparr>ie_notes1 := [TurnCompleted ''t1'' ''u1'' ''completed'' [(''agentMessage'', ''old'')] None]\<rparr>) ex_request =
     (calls, Inr r) \<and> ir_Content r = trim_space ''old''"
  by (rule late_turn_answers_next_prompt [where tid = "''t2''" and turn = "''u2''" and model = "[]" and old = "''t1''" and oldturn = "''u1''"])
    (use ex_valid in \<open>simp_all add: ex_env_def is_space_def limits\<close>)

end
