(* ===== verification/ProviderDaemon.thy ===== *)
theory ProviderDaemon
  imports Http CodexLogin CodexInvoke
begin

text \<open>
  The provider daemon, \<^verbatim>\<open>cmd/sentryproviderd/main.go\<close>: the routes of its internal API, the bearer token,
  and one handler per call of the sessions. The interface \<^verbatim>\<open>codexSessions\<close> is the record \<open>sessions\<close>, whose
  methods take and return the state of all sessions; which errors \<^verbatim>\<open>errors.Is\<close> finds in a failure of
  \<^verbatim>\<open>Invoke\<close> is given by the error and whether it wraps \<^verbatim>\<open>context.DeadlineExceeded\<close>.
\<close>

section \<open>The sessions\<close>

record 's sessions =
  sn_Status :: "tenant \<Rightarrow> 's \<Rightarrow> 's \<times> session_status option"
  sn_StartLogin :: "tenant \<Rightarrow> 's \<Rightarrow> 's \<times> (login_error + device_login)"
  sn_CancelLogin :: "tenant \<Rightarrow> gostring \<Rightarrow> 's \<Rightarrow> 's \<times> login_error option"
  sn_Logout :: "tenant \<Rightarrow> 's \<Rightarrow> 's \<times> bool"
  sn_Invoke :: "tenant \<Rightarrow> invoke_request \<Rightarrow> 's \<Rightarrow> 's \<times> (invoke_error \<times> bool + invoke_result)"

record api_server =
  as_token :: gostring

section \<open>Answers\<close>

definition writeJSON :: "nat \<Rightarrow> js \<Rightarrow> http_response" where
  "writeJSON status v =
     \<lparr>hr_Status = status, hr_Headers = [(''Content-Type'', ''application/json''), (''Cache-Control'', ''no-store'')],
      hr_Body = Some [v]\<rparr>"

definition writeError :: "nat \<Rightarrow> gostring \<Rightarrow> http_response" where
  "writeError status message = writeJSON status (JsObj [(''error'', JsStr message)])"

definition status_js :: "session_status \<Rightarrow> js" where
  "status_js st = JsObj
     ([(''provider'', JsStr ''codex''), (''state'', JsStr (st_State st)), (''account'', JsStr (st_Account st))] @
      omit_empty ''accountType'' (st_AccountType st) @ omit_empty ''planType'' (st_PlanType st) @
      [(''requiresOpenaiAuth'', JsBool (st_RequiresOpenAIAuth st))] @ omit_empty ''loginId'' (st_LoginID st))"

definition login_js :: "device_login \<Rightarrow> js" where
  "login_js l = JsObj
     [(''provider'', JsStr (dl_Provider l)), (''state'', JsStr (dl_State l)), (''type'', JsStr (dl_Type l)),
      (''loginId'', JsStr (dl_LoginID l)), (''verificationUrl'', JsStr (dl_VerificationURL l)),
      (''userCode'', JsStr (dl_UserCode l))]"

definition invoke_js :: "invoke_result \<Rightarrow> js" where
  "invoke_js r = JsObj
     [(''provider'', JsStr ''codex''), (''model'', JsStr (ir_Model r)), (''content'', JsStr (ir_Content r)),
      (''done'', JsBool True), (''doneReason'', JsStr ''stop''), (''totalDuration'', JsInt (ir_TotalDuration r)),
      (''loadDuration'', JsInt 0), (''promptTokens'', JsInt 0), (''completionTokens'', JsInt 0)]"

definition disconnected_js :: js where
  "disconnected_js = JsObj [(''provider'', JsStr ''codex''), (''state'', JsStr StateDisconnected)]"

section \<open>Reading a request\<close>

definition parse_uint16 :: "gostring \<Rightarrow> nat option" where
  "parse_uint16 s =
     (if s \<noteq> [] \<and> list_all is_digit s \<and> digits_val s < 2 ^ 16 then Some (digits_val s) else None)"

definition tenantFromRequest :: "gostring \<Rightarrow> http_response + tenant" where
  "tenantFromRequest seg =
     (case parse_uint16 seg of
        None \<Rightarrow> Inl (writeError 400 ''invalid tenant'')
      | Some n \<Rightarrow> if n = 0 then Inl (writeError 400 ''invalid tenant'') else Inr (word_of_nat n))"

definition max_request :: nat where
  "max_request = 64 * 1024"

text \<open>\<^verbatim>\<open>decodeJSON\<close>: the fields of the one value of the body, all of them among \<open>names\<close> and decodable.\<close>

definition decodeJSON :: "gostring list \<Rightarrow> body \<Rightarrow> (gostring \<times> js) list option" where
  "decodeJSON names b =
     (case b of
        Some [v] \<Rightarrow>
          if length (js_text v) > max_request then None
          else (case js_fields v of
                  None \<Rightarrow> None
                | Some fs \<Rightarrow>
                    if (\<forall>(k, _) \<in> set fs. \<exists>n \<in> set names. key_is n k) \<and> (\<forall>n \<in> set names. str_ok fs n)
                    then Some fs else None)
      | _ \<Rightarrow> None)"

definition authorize :: "api_server \<Rightarrow> (http_request \<Rightarrow> 's \<Rightarrow> 's \<times> http_response) \<Rightarrow> http_request \<Rightarrow> 's \<Rightarrow> 's \<times> http_response" where
  "authorize api next_h rq s =
     (if as_token api = [] then next_h rq s
      else let provided = trim_prefix ''Bearer '' (header_get ''Authorization'' (hq_Headers rq))
        in if length provided \<noteq> length (as_token api) \<or> provided \<noteq> as_token api
           then (s, writeError 401 ''unauthorized'') else next_h rq s)"

section \<open>The handlers\<close>

definition handleStatus :: "'s sessions \<Rightarrow> gostring \<Rightarrow> 's \<Rightarrow> 's \<times> http_response" where
  "handleStatus ss seg s =
     (case tenantFromRequest seg of Inl r \<Rightarrow> (s, r) | Inr t \<Rightarrow>
        (case sn_Status ss t s of
           (s', None) \<Rightarrow> (s', writeError 502 ''Codex session unavailable'')
         | (s', Some st) \<Rightarrow> (s', writeJSON 200 (status_js st))))"

definition handleLogin :: "'s sessions \<Rightarrow> gostring \<Rightarrow> 's \<Rightarrow> 's \<times> http_response" where
  "handleLogin ss seg s =
     (case tenantFromRequest seg of Inl r \<Rightarrow> (s, r) | Inr t \<Rightarrow>
        (case sn_StartLogin ss t s of
           (s', Inl e) \<Rightarrow> (s', if e = AlreadyConnected then writeError 409 ''Codex is already connected''
                             else writeError 502 ''unable to start Codex login'')
         | (s', Inr l) \<Rightarrow> (s', writeJSON 200 (login_js l))))"

definition handleCancelLogin :: "'s sessions \<Rightarrow> gostring \<Rightarrow> body \<Rightarrow> 's \<Rightarrow> 's \<times> http_response" where
  "handleCancelLogin ss seg b s =
     (case tenantFromRequest seg of Inl r \<Rightarrow> (s, r) | Inr t \<Rightarrow>
        (case decodeJSON [''loginId''] b of
           None \<Rightarrow> (s, writeError 400 ''invalid request'')
         | Some fs \<Rightarrow>
             (case sn_CancelLogin ss t (get_str ''loginId'' fs) s of
                (s', Some e) \<Rightarrow> (s', if e = NoPendingLogin then writeError 409 ''no matching Codex login is pending''
                                   else writeError 502 ''unable to cancel Codex login'')
              | (s', None) \<Rightarrow> (s', writeJSON 200 disconnected_js))))"

definition handleLogout :: "'s sessions \<Rightarrow> gostring \<Rightarrow> 's \<Rightarrow> 's \<times> http_response" where
  "handleLogout ss seg s =
     (case tenantFromRequest seg of Inl r \<Rightarrow> (s, r) | Inr t \<Rightarrow>
        (case sn_Logout ss t s of
           (s', False) \<Rightarrow> (s', writeError 502 ''unable to disconnect Codex'')
         | (s', True) \<Rightarrow> (s', writeJSON 200 disconnected_js)))"

definition invoke_status :: "invoke_error \<Rightarrow> bool \<Rightarrow> http_response" where
  "invoke_status e deadline =
     (if e = NotConnected then writeError 409 ''Codex is not connected''
      else if e = InputTooLarge then writeError 413 ''Codex invocation input is too large''
      else if deadline then writeError 504 ''Codex invocation timed out''
      else writeError 502 ''Codex invocation failed'')"

definition decoded_invoke :: "(gostring \<times> js) list \<Rightarrow> invoke_request" where
  "decoded_invoke fs = \<lparr>rq_model = get_str ''model'' fs, rq_system = get_str ''system'' fs, rq_prompt = get_str ''prompt'' fs\<rparr>"

definition handleInvoke :: "'s sessions \<Rightarrow> gostring \<Rightarrow> body \<Rightarrow> 's \<Rightarrow> 's \<times> http_response" where
  "handleInvoke ss seg b s =
     (case tenantFromRequest seg of Inl r \<Rightarrow> (s, r) | Inr t \<Rightarrow>
        (case decodeJSON [''model'', ''system'', ''prompt''] b of
           None \<Rightarrow> (s, writeError 400 ''invalid request'')
         | Some fs \<Rightarrow>
             (case sn_Invoke ss t (decoded_invoke fs) s of
                (s', Inl (e, deadline)) \<Rightarrow> (s', invoke_status e deadline)
              | (s', Inr r) \<Rightarrow> (s', writeJSON 200 (invoke_js r)))))"

section \<open>Routes\<close>

datatype route = Healthz | RStatus | RLogin | RCancel | RLogout | RInvoke

definition codex_pat :: "gostring list \<Rightarrow> seg list" where
  "codex_pat suff = [Lit ''v1'', Lit ''tenants'', Wild, Lit ''providers'', Lit ''codex''] @ map Lit suff"

definition daemon_patterns :: "(gostring \<times> seg list \<times> route) list" where
  "daemon_patterns =
     [(''GET'', [Lit ''healthz''], Healthz),
      (''GET'', codex_pat [], RStatus),
      (''POST'', codex_pat [''login''], RLogin),
      (''POST'', codex_pat [''login'', ''cancel''], RCancel),
      (''POST'', codex_pat [''logout''], RLogout),
      (''POST'', codex_pat [''invoke''], RInvoke)]"

definition route_handler :: "'s sessions \<Rightarrow> route \<Rightarrow> gostring \<Rightarrow> http_request \<Rightarrow> 's \<Rightarrow> 's \<times> http_response" where
  "route_handler ss h seg rq s =
     (case h of
        Healthz \<Rightarrow> (s, writeJSON 200 (JsObj [(''status'', JsStr ''ok'')]))
      | RStatus \<Rightarrow> handleStatus ss seg s
      | RLogin \<Rightarrow> handleLogin ss seg s
      | RCancel \<Rightarrow> handleCancelLogin ss seg (hq_Body rq) s
      | RLogout \<Rightarrow> handleLogout ss seg s
      | RInvoke \<Rightarrow> handleInvoke ss seg (hq_Body rq) s)"

definition plain_answer :: "nat \<Rightarrow> http_response" where
  "plain_answer code = \<lparr>hr_Status = code, hr_Headers = [], hr_Body = None\<rparr>"

definition routes :: "api_server \<Rightarrow> 's sessions \<Rightarrow> http_request \<Rightarrow> 's \<Rightarrow> 's \<times> http_response" where
  "routes api ss rq s =
     (case mux_match daemon_patterns (hq_Method rq) (hq_Target rq) of
        Redirect \<Rightarrow> (s, plain_answer 301)
      | WrongMethod \<Rightarrow> (s, plain_answer 405)
      | NotFound \<Rightarrow> (s, plain_answer 404)
      | Handler Healthz ws \<Rightarrow> route_handler ss Healthz [] rq s
      | Handler h ws \<Rightarrow> authorize api (route_handler ss h (hd ws)) rq s)"

section \<open>Which requests reach a session\<close>

lemma match_path_lits: "match_path (map Lit ls) ss = (if ss = ls then Some [] else None)"
proof (induction ls arbitrary: ss)
  case Nil
  then show ?case by (cases ss) simp_all
next
  case (Cons l ls)
  then show ?case by (cases ss) simp_all
qed

lemma match_path_step:
  "match_path (Lit l # ps) ss = (case ss of [] \<Rightarrow> None | s # ss' \<Rightarrow> if l = s then match_path ps ss' else None)"
  "match_path (Wild # ps) ss =
     (case ss of [] \<Rightarrow> None | s # ss' \<Rightarrow> if s = [] then None else map_option ((#) s) (match_path ps ss'))"
  by (cases ss; simp)+

lemma join_split: "join_with [c] (split_on c s) = s"
proof (induction s)
  case (Cons x s)
  obtain y ys where y: "split_on c s = y # ys" using split_on_nonempty by (meson neq_Nil_conv)
  then show ?case using Cons by (cases ys) auto
qed simp

lemma path_of_segments:
  assumes "clean_path p"
  shows "p = CHR ''/'' # join_with ''/'' (path_segments p)"
proof -
  obtain r where r: "p = CHR ''/'' # r" using assms by (auto simp: clean_path_def prefix_def)
  then show ?thesis using join_split [of "CHR ''/''" r] by (simp add: path_segments_def)
qed

lemma match_codex_pat:
  assumes "match_path (codex_pat suff) ss = Some ws"
  obtains seg where "seg \<noteq> []" and "ws = [seg]" and "ss = [''v1'', ''tenants'', seg, ''providers'', ''codex''] @ suff"
  using assms
  by (auto simp: codex_pat_def match_path_step match_path_lits split: list.splits if_splits)

text \<open>The calls of the interface, the path each is reached by, and what it does to the sessions.\<close>

datatype session_call = CallStatus | CallLogin | CallCancel gostring | CallLogout | CallInvoke invoke_request

definition call_path :: "session_call \<Rightarrow> gostring" where
  "call_path c = (case c of CallStatus \<Rightarrow> [] | CallLogin \<Rightarrow> ''/login'' | CallCancel _ \<Rightarrow> ''/login/cancel''
     | CallLogout \<Rightarrow> ''/logout'' | CallInvoke _ \<Rightarrow> ''/invoke'')"

definition call_state :: "'s sessions \<Rightarrow> tenant \<Rightarrow> session_call \<Rightarrow> 's \<Rightarrow> 's" where
  "call_state ss t c s =
     (case c of CallStatus \<Rightarrow> fst (sn_Status ss t s) | CallLogin \<Rightarrow> fst (sn_StartLogin ss t s)
      | CallCancel i \<Rightarrow> fst (sn_CancelLogin ss t i s) | CallLogout \<Rightarrow> fst (sn_Logout ss t s)
      | CallInvoke rq \<Rightarrow> fst (sn_Invoke ss t rq s))"

definition has_token :: "api_server \<Rightarrow> http_request \<Rightarrow> bool" where
  "has_token api rq \<longleftrightarrow> as_token api = [] \<or>
     trim_prefix ''Bearer '' (header_get ''Authorization'' (hq_Headers rq)) = as_token api"

lemma has_token_header:
  "has_token api rq \<Longrightarrow>
   as_token api = [] \<or> header_get ''Authorization'' (hq_Headers rq) \<in> {as_token api, ''Bearer '' @ as_token api}"
  by (auto simp: has_token_def trim_prefix_def prefix_def split: if_splits)

lemma authorize_cases:
  "authorize api h rq s = (if has_token api rq then h rq s else (s, writeError 401 ''unauthorized''))"
  by (simp add: authorize_def has_token_def Let_def)

lemma tenantFromRequest_Inr:
  assumes "tenantFromRequest seg = Inr t"
  shows "t \<noteq> 0 \<and> parse_uint16 seg = Some (unat t)"
proof -
  obtain n where n: "parse_uint16 seg = Some n" "n \<noteq> 0" "t = word_of_nat n"
    using assms by (auto simp: tenantFromRequest_def split: option.splits if_splits)
  then have "n < 2 ^ 16" by (auto simp: parse_uint16_def split: if_splits)
  then have "unat t = n" using n(3) by (simp add: unsigned_of_nat take_bit_nat_eq_self)
  then show ?thesis using n by auto
qed

lemma tenantFromRequest_show:
  assumes "t \<noteq> 0"
  shows "tenantFromRequest (show_nat (unat t)) = Inr t"
proof -
  have "unat t < 2 ^ 16" using unsigned_less [of t] by simp
  moreover have "unat t \<noteq> 0" using assms by (simp add: unat_eq_0)
  ultimately show ?thesis
    using show_nat_digits [of "unat t"] by (simp add: tenantFromRequest_def parse_uint16_def)
qed

text \<open>A handler answers without looking at the sessions, or makes one call for the tenant of the path.\<close>

definition untouched :: "('s sessions \<Rightarrow> 's \<Rightarrow> 's \<times> http_response) \<Rightarrow> bool" where
  "untouched f \<longleftrightarrow> (\<exists>r. \<forall>ss s. f ss s = (s, r))"

definition one_call :: "gostring \<Rightarrow> gostring \<Rightarrow> ('s sessions \<Rightarrow> 's \<Rightarrow> 's \<times> http_response) \<Rightarrow> bool" where
  "one_call seg suff f \<longleftrightarrow>
     (\<exists>t c. t \<noteq> 0 \<and> parse_uint16 seg = Some (unat t) \<and> call_path c = suff \<and>
        (\<forall>ss s. fst (f ss s) = call_state ss t c s))"

lemma untouchedI: "(\<And>ss s. f ss s = (s, r)) \<Longrightarrow> untouched f"
  by (auto simp: untouched_def)

definition at_most_one_call :: "gostring \<Rightarrow> gostring \<Rightarrow> ('s sessions \<Rightarrow> 's \<Rightarrow> 's \<times> http_response) \<Rightarrow> bool" where
  "at_most_one_call seg suff f \<longleftrightarrow> untouched f \<or> one_call seg suff f"

lemma one_callI:
  "tenantFromRequest seg = Inr t \<Longrightarrow> suff = call_path c \<Longrightarrow> (\<And>ss s. fst (f ss s) = call_state ss t c s) \<Longrightarrow>
   at_most_one_call seg suff f"
  using tenantFromRequest_Inr [of seg t] by (auto simp: one_call_def at_most_one_call_def)

lemma handleStatus_one_call: "at_most_one_call seg [] (\<lambda>ss. handleStatus ss seg)"
proof (cases "tenantFromRequest seg")
  case (Inl r)
  then show ?thesis by (simp add: handleStatus_def untouched_def at_most_one_call_def)
next
  case (Inr t)
  show ?thesis
    by (rule one_callI [OF Inr, where c = "CallStatus"]) (auto simp: call_path_def handleStatus_def Inr call_state_def split: prod.splits option.splits)
qed

lemma handleLogin_one_call: "at_most_one_call seg ''/login'' (\<lambda>ss. handleLogin ss seg)"
proof (cases "tenantFromRequest seg")
  case (Inl r)
  then show ?thesis by (simp add: handleLogin_def untouched_def at_most_one_call_def)
next
  case (Inr t)
  show ?thesis
    by (rule one_callI [OF Inr, where c = "CallLogin"]) (auto simp: call_path_def handleLogin_def Inr call_state_def split: prod.splits sum.splits)
qed

lemma handleCancelLogin_one_call: "at_most_one_call seg ''/login/cancel'' (\<lambda>ss. handleCancelLogin ss seg b)"
proof (cases "tenantFromRequest seg"; cases "decodeJSON [''loginId''] b")
  fix t fs assume t: "tenantFromRequest seg = Inr t" and fs: "decodeJSON [''loginId''] b = Some fs"
  show ?thesis
    by (rule one_callI [OF t, where c = "CallCancel (get_str ''loginId'' fs)"]) (auto simp: call_path_def handleCancelLogin_def t fs call_state_def split: prod.splits option.splits)
qed (auto simp: handleCancelLogin_def untouched_def at_most_one_call_def)

lemma handleLogout_one_call: "at_most_one_call seg ''/logout'' (\<lambda>ss. handleLogout ss seg)"
proof (cases "tenantFromRequest seg")
  case (Inl r)
  then show ?thesis by (simp add: handleLogout_def untouched_def at_most_one_call_def)
next
  case (Inr t)
  show ?thesis
    by (rule one_callI [OF Inr, where c = "CallLogout"]) (auto simp: call_path_def handleLogout_def Inr call_state_def split: prod.splits bool.splits)
qed

lemma handleInvoke_one_call: "at_most_one_call seg ''/invoke'' (\<lambda>ss. handleInvoke ss seg b)"
proof (cases "tenantFromRequest seg"; cases "decodeJSON [''model'', ''system'', ''prompt''] b")
  fix t fs assume t: "tenantFromRequest seg = Inr t" and fs: "decodeJSON [''model'', ''system'', ''prompt''] b = Some fs"
  show ?thesis
    by (rule one_callI [OF t, where c = "CallInvoke (decoded_invoke fs)"]) (auto simp: call_path_def handleInvoke_def t fs call_state_def split: prod.splits sum.splits)
qed (auto simp: handleInvoke_def untouched_def at_most_one_call_def)

section \<open>Properties\<close>

definition route_path :: "route \<Rightarrow> gostring" where
  "route_path h = (case h of Healthz \<Rightarrow> [] | RStatus \<Rightarrow> [] | RLogin \<Rightarrow> ''/login'' | RCancel \<Rightarrow> ''/login/cancel''
     | RLogout \<Rightarrow> ''/logout'' | RInvoke \<Rightarrow> ''/invoke'')"

lemma mux_match_daemon:
  assumes "mux_match daemon_patterns m p = Handler h ws" and "h \<noteq> Healthz"
  obtains seg where "ws = [seg]" and "p = ''/v1/tenants/'' @ seg @ ''/providers/codex'' @ route_path h"
proof -
  let ?ss = "path_segments p"
  have clean: "clean_path p" and f: "mux_find daemon_patterns m ?ss False = Handler h ws"
    using assms(1) by (auto simp: mux_match_def split: if_splits)
  have find: "\<exists>pm pat. (pm, pat, h) \<in> set ps \<and> match_path pat ss = Some ws"
    if "mux_find ps m ss other = Handler h ws" for ps ss other
    using that by (induction ps m ss other rule: mux_find.induct) (auto split: option.splits if_splits)
  obtain suff where m: "match_path (codex_pat suff) ?ss = Some ws" and r: "route_path h = concat (map ((#) CHR ''/'') suff)"
    using find [OF f] assms(2) by (auto simp: daemon_patterns_def route_path_def)
  from match_codex_pat [OF m] obtain seg
    where seg: "ws = [seg]" "?ss = [''v1'', ''tenants'', seg, ''providers'', ''codex''] @ suff" by blast
  have j: "join_with ''/'' (x # xs) = x @ concat (map ((#) CHR ''/'') xs)" for x xs
    by (induction xs arbitrary: x) simp_all
  have "p = CHR ''/'' # join_with ''/'' ?ss" by (rule path_of_segments [OF clean])
  then have "p = ''/v1/tenants/'' @ seg @ ''/providers/codex'' @ route_path h" by (simp only: seg r) (simp add: j)
  with seg show ?thesis using that by blast
qed

lemma route_handler_simps:
  "route_handler ss RStatus seg rq = handleStatus ss seg"
  "route_handler ss RLogin seg rq = handleLogin ss seg"
  "route_handler ss RCancel seg rq = handleCancelLogin ss seg (hq_Body rq)"
  "route_handler ss RLogout seg rq = handleLogout ss seg"
  "route_handler ss RInvoke seg rq = handleInvoke ss seg (hq_Body rq)"
  by (simp_all add: route_handler_def fun_eq_iff)

lemma route_handler_one_call:
  "h \<noteq> Healthz \<Longrightarrow> at_most_one_call seg (route_path h) (\<lambda>ss. route_handler ss h seg rq)"
  by (cases h) (simp_all add: route_handler_simps route_path_def handleStatus_one_call handleLogin_one_call
      handleCancelLogin_one_call handleLogout_one_call handleInvoke_one_call)

lemma routes_handler:
  "mux_match daemon_patterns (hq_Method rq) (hq_Target rq) = Handler h ws \<Longrightarrow> h \<noteq> Healthz \<Longrightarrow>
   routes api ss rq s = authorize api (route_handler ss h (hd ws)) rq s"
  by (cases h) (simp_all add: routes_def)

lemma daemon_cases:
  "untouched (\<lambda>ss :: 's sessions. routes api ss rq) \<or>
   (as_token api = [] \<or> header_get ''Authorization'' (hq_Headers rq) \<in> {as_token api, ''Bearer '' @ as_token api}) \<and>
   (\<exists>seg suff. hq_Target rq = ''/v1/tenants/'' @ seg @ ''/providers/codex'' @ suff \<and>
      one_call seg suff (\<lambda>ss :: 's sessions. routes api ss rq))"
proof (cases "mux_match daemon_patterns (hq_Method rq) (hq_Target rq)")
  case (Handler h ws)
  show ?thesis
  proof (cases "h = Healthz \<or> \<not> has_token api rq")
    case True
    then have "untouched (\<lambda>ss :: 's sessions. routes api ss rq)"
      by (cases h) (auto simp: untouched_def routes_def Handler route_handler_def authorize_cases)
    then show ?thesis by simp
  next
    case False
    then obtain seg where seg: "ws = [seg]" "hq_Target rq = ''/v1/tenants/'' @ seg @ ''/providers/codex'' @ route_path h"
      using mux_match_daemon [OF Handler] by blast
    have "(\<lambda>ss :: 's sessions. routes api ss rq) = (\<lambda>ss. route_handler ss h seg rq)"
      using False seg(1) by (simp add: routes_handler [OF Handler] authorize_cases fun_eq_iff)
    then have "at_most_one_call seg (route_path h) (\<lambda>ss :: 's sessions. routes api ss rq)"
      using route_handler_one_call [of h seg rq] False by simp
    then show ?thesis using False has_token_header seg(2) unfolding at_most_one_call_def by blast
  qed
qed (auto simp: untouched_def routes_def)

text \<open>C17. Whatever request the daemon gets, one of two things happens. Either the answer does not depend
  on any session and no session is touched, or the request carries the configured token (bare or
  after Bearer), and the handler makes exactly one call of the sessions: the one its path
  names, for the non-zero tenant whose number is in the path.\<close>
theorem daemon_one_authorized_call:
  "untouched (\<lambda>ss :: 's sessions. routes api ss rq) \<or>
   (as_token api = [] \<or> header_get ''Authorization'' (hq_Headers rq) \<in> {as_token api, ''Bearer '' @ as_token api}) \<and>
   (\<exists>seg suff. hq_Target rq = ''/v1/tenants/'' @ seg @ ''/providers/codex'' @ suff \<and>
      one_call seg suff (\<lambda>ss :: 's sessions. routes api ss rq))"
  by (rule daemon_cases)

end
