(* ===== verification/ProviderClient.thy ===== *)
theory ProviderClient
  imports ProviderDaemon
begin

text \<open>
  The server's client of the provider daemon, \<^verbatim>\<open>cmd/sentrymcp/provider_daemon.go\<close>. The transport is an
  argument: it takes a request and the state behind it to an answer or the text of a failure.
  \<open>daemon_transport\<close> is the transport that reaches the daemon of \<open>ProviderDaemon\<close>; the round trip
  through both is proved for every call. The client is \<open>None\<close> for the nil pointer; \<^verbatim>\<open>invoke\<close> reads a
  field of it first, so it takes one that is there.
\<close>

section \<open>The client\<close>

record daemon_client =
  dc_baseURL :: gostring
  dc_token :: gostring

record daemon_status =
  ds_Provider :: gostring
  ds_State :: gostring
  ds_Account :: gostring
  ds_AccountType :: gostring
  ds_PlanType :: gostring
  ds_RequiresOpenAIAuth :: bool
  ds_LoginID :: gostring

type_synonym daemon_login = device_login

record daemon_invoke_result =
  di_Provider :: gostring
  di_Model :: gostring
  di_Content :: gostring
  di_Done :: bool
  di_DoneReason :: gostring
  di_TotalDuration :: int
  di_LoadDuration :: int
  di_PromptTokens :: int
  di_CompletionTokens :: int

datatype daemon_error = NotConfigured | Unavailable gostring | RemoteError nat gostring | BadResponse

definition providerDaemonMaxResponseBytes :: nat where
  "providerDaemonMaxResponseBytes = 1024 * 1024"

definition newProviderDaemonClient :: "gostring \<Rightarrow> gostring \<Rightarrow> daemon_client option" where
  "newProviderDaemonClient baseURL token =
     (let b = trim_right_char CHR ''/'' (trim_space baseURL)
      in if b = [] then None else Some \<lparr>dc_baseURL = b, dc_token = trim_space token\<rparr>)"

definition codexPath :: "tenant \<Rightarrow> gostring" where
  "codexPath t = ''/v1/tenants/'' @ show_nat (unat t) @ ''/providers/codex''"

section \<open>One exchange\<close>

text \<open>The first value of the body, when its text is within the limit.\<close>

definition limited :: "body \<Rightarrow> js option" where
  "limited b =
     (case b of Some (v # _) \<Rightarrow> if length (js_text v) \<le> providerDaemonMaxResponseBytes then Some v else None
      | _ \<Rightarrow> None)"

definition remote_message :: "http_response \<Rightarrow> gostring" where
  "remote_message r =
     (let e = (case Option.bind (limited (hr_Body r)) js_fields of None \<Rightarrow> [] | Some fs \<Rightarrow> get_str ''error'' fs);
          m = trim_space e
      in if m = [] then status_text (hr_Status r) else m)"

definition daemon_request :: "daemon_client \<Rightarrow> gostring \<Rightarrow> gostring \<Rightarrow> js option \<Rightarrow> http_request" where
  "daemon_request c meth path input =
     \<lparr>hq_Method = meth, hq_Target = dc_baseURL c @ path,
      hq_Headers = [(''Accept'', ''application/json'')] @
        (if input \<noteq> None then [(''Content-Type'', ''application/json'')] else []) @
        (if dc_token c \<noteq> [] then [(''Authorization'', ''Bearer '' @ dc_token c)] else []),
      hq_Body = Some (case input of None \<Rightarrow> [] | Some v \<Rightarrow> [v])\<rparr>"

text \<open>\<open>decode\<close> is the decoding of the output; for the nil output it accepts anything.\<close>

definition doJSONWithClient :: "daemon_client \<Rightarrow> 's transport \<Rightarrow> gostring \<Rightarrow> gostring \<Rightarrow> js option \<Rightarrow>
    (body \<Rightarrow> 'r option) \<Rightarrow> 's \<Rightarrow> 's \<times> (daemon_error + 'r)" where
  "doJSONWithClient c tr meth path input decode s =
     (case tr (daemon_request c meth path input) s of
        (s', Inl e) \<Rightarrow> (s', Inl (Unavailable e))
      | (s', Inr r) \<Rightarrow>
          if hr_Status r < 200 \<or> hr_Status r \<ge> 300 then (s', Inl (RemoteError (hr_Status r) (remote_message r)))
          else case decode (hr_Body r) of None \<Rightarrow> (s', Inl BadResponse) | Some x \<Rightarrow> (s', Inr x))"

definition doJSON :: "daemon_client option \<Rightarrow> 's transport \<Rightarrow> gostring \<Rightarrow> gostring \<Rightarrow> js option \<Rightarrow>
    (body \<Rightarrow> 'r option) \<Rightarrow> 's \<Rightarrow> 's \<times> (daemon_error + 'r)" where
  "doJSON c tr meth path input decode s =
     (case c of None \<Rightarrow> (s, Inl NotConfigured) | Some c \<Rightarrow> doJSONWithClient c tr meth path input decode s)"

section \<open>The calls\<close>

definition decode_status :: "body \<Rightarrow> daemon_status option" where
  "decode_status b =
     (case Option.bind (limited b) js_fields of None \<Rightarrow> None | Some fs \<Rightarrow>
        if list_all (str_ok fs) [''provider'', ''state'', ''account'', ''accountType'', ''planType'', ''loginId''] \<and>
           bool_ok fs ''requiresOpenaiAuth''
        then Some \<lparr>ds_Provider = get_str ''provider'' fs, ds_State = get_str ''state'' fs, ds_Account = get_str ''account'' fs,
                   ds_AccountType = get_str ''accountType'' fs, ds_PlanType = get_str ''planType'' fs,
                   ds_RequiresOpenAIAuth = get_bool ''requiresOpenaiAuth'' fs, ds_LoginID = get_str ''loginId'' fs\<rparr>
        else None)"

definition decode_login :: "body \<Rightarrow> daemon_login option" where
  "decode_login b =
     (case Option.bind (limited b) js_fields of None \<Rightarrow> None | Some fs \<Rightarrow>
        if list_all (str_ok fs) [''provider'', ''state'', ''type'', ''loginId'', ''verificationUrl'', ''userCode'']
        then Some \<lparr>dl_Provider = get_str ''provider'' fs, dl_State = get_str ''state'' fs, dl_Type = get_str ''type'' fs,
                   dl_LoginID = get_str ''loginId'' fs, dl_VerificationURL = get_str ''verificationUrl'' fs,
                   dl_UserCode = get_str ''userCode'' fs\<rparr>
        else None)"

definition decode_invoke :: "body \<Rightarrow> daemon_invoke_result option" where
  "decode_invoke b =
     (case Option.bind (limited b) js_fields of None \<Rightarrow> None | Some fs \<Rightarrow>
        if list_all (str_ok fs) [''provider'', ''model'', ''content'', ''doneReason''] \<and> bool_ok fs ''done'' \<and>
           list_all (int_ok fs) [''totalDuration'', ''loadDuration'', ''promptTokens'', ''completionTokens'']
        then Some \<lparr>di_Provider = get_str ''provider'' fs, di_Model = get_str ''model'' fs, di_Content = get_str ''content'' fs,
                   di_Done = get_bool ''done'' fs, di_DoneReason = get_str ''doneReason'' fs,
                   di_TotalDuration = get_int ''totalDuration'' fs, di_LoadDuration = get_int ''loadDuration'' fs,
                   di_PromptTokens = get_int ''promptTokens'' fs, di_CompletionTokens = get_int ''completionTokens'' fs\<rparr>
        else None)"

definition client_status :: "daemon_client option \<Rightarrow> 's transport \<Rightarrow> tenant \<Rightarrow> 's \<Rightarrow> 's \<times> (daemon_error + daemon_status)" where
  "client_status c tr t = doJSON c tr ''GET'' (codexPath t) None decode_status"

definition client_startLogin :: "daemon_client option \<Rightarrow> 's transport \<Rightarrow> tenant \<Rightarrow> 's \<Rightarrow> 's \<times> (daemon_error + daemon_login)" where
  "client_startLogin c tr t = doJSON c tr ''POST'' (codexPath t @ ''/login'') (Some (JsObj [])) decode_login"

definition client_cancelLogin :: "daemon_client option \<Rightarrow> 's transport \<Rightarrow> tenant \<Rightarrow> gostring \<Rightarrow> 's \<Rightarrow> 's \<times> (daemon_error + unit)" where
  "client_cancelLogin c tr t loginID =
     doJSON c tr ''POST'' (codexPath t @ ''/login/cancel'') (Some (JsObj [(''loginId'', JsStr loginID)])) (\<lambda>_. Some ())"

definition client_logout :: "daemon_client option \<Rightarrow> 's transport \<Rightarrow> tenant \<Rightarrow> 's \<Rightarrow> 's \<times> (daemon_error + unit)" where
  "client_logout c tr t = doJSON c tr ''POST'' (codexPath t @ ''/logout'') (Some (JsObj [])) (\<lambda>_. Some ())"

definition request_js :: "invoke_request \<Rightarrow> js" where
  "request_js rq = JsObj ([(''model'', JsStr (rq_model rq))] @ omit_empty ''system'' (rq_system rq) @
     [(''prompt'', JsStr (rq_prompt rq))])"

definition client_invoke :: "daemon_client \<Rightarrow> 's transport \<Rightarrow> tenant \<Rightarrow> invoke_request \<Rightarrow> 's \<Rightarrow>
    's \<times> (daemon_error + daemon_invoke_result)" where
  "client_invoke c tr t rq = doJSONWithClient c tr ''POST'' (codexPath t @ ''/invoke'') (Some (request_js rq)) decode_invoke"

section \<open>Reaching the daemon\<close>

definition daemon_transport :: "gostring \<Rightarrow> api_server \<Rightarrow> 's sessions \<Rightarrow> 's transport" where
  "daemon_transport base api ss rq s =
     (if prefix base (hq_Target rq)
      then (case routes api ss (rq\<lparr>hq_Target := drop (length base) (hq_Target rq)\<rparr>) s of (s', r) \<Rightarrow> (s', Inr r))
      else (s, Inl ''no such host''))"

lemma segments_codex:
  assumes "CHR ''/'' \<notin> set seg"
  shows "path_segments (''/v1/tenants/'' @ seg @ ''/providers/codex'' @ x) =
    [''v1'', ''tenants'', seg, ''providers'', ''codex'' @ hd (split_on CHR ''/'' x)] @ tl (split_on CHR ''/'' x)"
  using split_on_append_list [OF assms, of "''/providers/codex'' @ x"]
    split_on_append_list [of "CHR ''/''" "''codex''" x]
  by (simp add: path_segments_def)

lemma mux_codex:
  assumes "CHR ''/'' \<notin> set seg" and "seg \<noteq> []" and "seg \<noteq> ''.''" and "seg \<noteq> ''..''"
  shows "mux_match daemon_patterns ''GET'' (''/v1/tenants/'' @ seg @ ''/providers/codex'') = Handler RStatus [seg]"
    and "mux_match daemon_patterns ''POST'' (''/v1/tenants/'' @ seg @ ''/providers/codex/login'') = Handler RLogin [seg]"
    and "mux_match daemon_patterns ''POST'' (''/v1/tenants/'' @ seg @ ''/providers/codex/login/cancel'') = Handler RCancel [seg]"
    and "mux_match daemon_patterns ''POST'' (''/v1/tenants/'' @ seg @ ''/providers/codex/logout'') = Handler RLogout [seg]"
    and "mux_match daemon_patterns ''POST'' (''/v1/tenants/'' @ seg @ ''/providers/codex/invoke'') = Handler RInvoke [seg]"
  using assms segments_codex [OF assms(1), of "[]"] segments_codex [OF assms(1), of "''/login''"]
    segments_codex [OF assms(1), of "''/login/cancel''"] segments_codex [OF assms(1), of "''/logout''"]
    segments_codex [OF assms(1), of "''/invoke''"]
  by (simp_all add: mux_match_def clean_path_def daemon_patterns_def codex_pat_def method_matches_def)

lemma show_nat_segment:
  "CHR ''/'' \<notin> set (show_nat n)" "show_nat n \<noteq> []" "show_nat n \<noteq> ''.''" "show_nat n \<noteq> ''..''"
proof -
  have "\<not> is_digit CHR ''/''" and "\<not> is_digit CHR ''.''" by (simp_all add: is_digit_def)
  then show "CHR ''/'' \<notin> set (show_nat n)" "show_nat n \<noteq> []" "show_nat n \<noteq> ''.''" "show_nat n \<noteq> ''..''"
    using show_nat_digits [of n] show_nat_set [of _ n] by (auto simp del: of_char_eq_iff)
qed

lemmas mux_client = mux_codex [OF show_nat_segment]

text \<open>What a call through the daemon amounts to: the answer of one handler.\<close>

definition through :: "http_response \<Rightarrow> (body \<Rightarrow> 'r option) \<Rightarrow> daemon_error + 'r" where
  "through r decode =
     (if hr_Status r < 200 \<or> hr_Status r \<ge> 300 then Inl (RemoteError (hr_Status r) (remote_message r))
      else case decode (hr_Body r) of None \<Rightarrow> Inl BadResponse | Some x \<Rightarrow> Inr x)"

lemma through_error:
  "code \<ge> 300 \<Longrightarrow> 6 * length m + 26 \<le> providerDaemonMaxResponseBytes \<Longrightarrow> trim_space m = m \<Longrightarrow> m \<noteq> [] \<Longrightarrow>
   through (writeError code m) decode = Inl (RemoteError code m)"
  using js_quote_length [of m]
  by (simp add: through_def writeError_def writeJSON_def remote_message_def limited_def js_fields_def key_is_def
      js_quote_def esc_char_def)

lemma through_json:
  "through (writeJSON 200 v) decode = (case decode (Some [v]) of None \<Rightarrow> Inl BadResponse | Some x \<Rightarrow> Inr x)"
  by (simp add: through_def writeJSON_def)

lemma call_daemon:
  assumes "mux_match daemon_patterns meth path = Handler h [seg]" and "h \<noteq> Healthz" and "dc_token c = as_token api"
  shows "doJSONWithClient c (daemon_transport (dc_baseURL c) api ss) meth path input decode s =
    (case route_handler ss h seg ((daemon_request c meth path input)\<lparr>hq_Target := path\<rparr>) s of (s', r) \<Rightarrow> (s', through r decode))"
proof -
  define rq where "rq = (daemon_request c meth path input)\<lparr>hq_Target := path\<rparr>"
  have "hq_Method rq = meth" "hq_Target rq = path" by (simp_all add: rq_def daemon_request_def)
  then have "routes api ss rq s = authorize api (route_handler ss h seg) rq s"
    using assms(1,2) routes_handler [of rq h "[seg]"] by simp
  moreover have "has_token api rq"
    using assms(3) by (auto simp: has_token_def rq_def daemon_request_def header_get_def trim_prefix_def)
  ultimately have r: "routes api ss rq s = route_handler ss h seg rq s" by (simp add: authorize_cases)
  have "daemon_transport (dc_baseURL c) api ss (daemon_request c meth path input) s =
      (case routes api ss rq s of (s', r) \<Rightarrow> (s', Inr r))"
    by (simp add: daemon_transport_def rq_def daemon_request_def)
  then show ?thesis
    by (simp add: doJSONWithClient_def through_def r flip: rq_def split: prod.splits option.splits)
qed

section \<open>Round trips\<close>

definition status_view :: "session_status \<Rightarrow> daemon_status" where
  "status_view st =
     \<lparr>ds_Provider = ''codex'', ds_State = st_State st, ds_Account = st_Account st, ds_AccountType = st_AccountType st,
      ds_PlanType = st_PlanType st, ds_RequiresOpenAIAuth = st_RequiresOpenAIAuth st, ds_LoginID = st_LoginID st\<rparr>"

definition invoke_view :: "invoke_result \<Rightarrow> daemon_invoke_result" where
  "invoke_view r =
     \<lparr>di_Provider = ''codex'', di_Model = ir_Model r, di_Content = ir_Content r, di_Done = True, di_DoneReason = ''stop'',
      di_TotalDuration = ir_TotalDuration r, di_LoadDuration = 0, di_PromptTokens = 0, di_CompletionTokens = 0\<rparr>"

definition fits :: "js \<Rightarrow> bool" where
  "fits v \<longleftrightarrow> length (js_text v) \<le> providerDaemonMaxResponseBytes"

text \<open>The field names of equal length; those of different length differ anyway.\<close>

lemma field_names [simp]:
  "\<not> key_is ''provider'' ''planType''" "\<not> key_is ''planType'' ''provider''"
  "\<not> key_is ''account'' ''loginId''" "\<not> key_is ''loginId'' ''account''"
  "\<not> key_is ''provider'' ''userCode''" "\<not> key_is ''userCode'' ''provider''"
  "\<not> key_is ''loadDuration'' ''promptTokens''" "\<not> key_is ''promptTokens'' ''loadDuration''"
  "\<not> key_is ''system'' ''prompt''" "\<not> key_is ''prompt'' ''system''"
  by (simp_all add: key_is_def to_lower_def lower_char_def)

lemma decode_status_js: "decode_status (Some [status_js st]) = (if fits (status_js st) then Some (status_view st) else None)"
  by (simp add: decode_status_def limited_def fits_def js_fields_def status_js_def
      status_view_def)

lemma decode_login_js: "decode_login (Some [login_js l]) = (if fits (login_js l) then Some l else None)"
  by (simp add: decode_login_def limited_def fits_def js_fields_def login_js_def)

lemma decode_invoke_js:
  "decode_invoke (Some [invoke_js r]) =
     (if fits (invoke_js r) \<and> - (2 ^ 63) \<le> ir_TotalDuration r \<and> ir_TotalDuration r < 2 ^ 63 then Some (invoke_view r) else None)"
  by (simp add: decode_invoke_def limited_def fits_def js_fields_def invoke_js_def
      invoke_view_def)

lemma decode_cancel:
  "decodeJSON [''loginId''] (Some [JsObj [(''loginId'', JsStr i)]]) =
     (if length (js_text (JsObj [(''loginId'', JsStr i)])) \<le> max_request then Some [(''loginId'', JsStr i)] else None)"
  by (simp add: decodeJSON_def js_fields_def del: js_text.simps)

lemma decode_request_js:
  "decodeJSON [''model'', ''system'', ''prompt''] (Some [request_js rq]) =
     (if length (js_text (request_js rq)) \<le> max_request
      then Some ([(''model'', JsStr (rq_model rq))] @ omit_empty ''system'' (rq_system rq) @ [(''prompt'', JsStr (rq_prompt rq))])
      else None)"
proof -
  have "\<forall>(k, _) \<in> set (omit_empty ''system'' (rq_system rq)). key_is ''system'' k" by (simp add: omit_empty_def)
  then show ?thesis
    by (auto simp: decodeJSON_def js_fields_def request_js_def simp del: js_text.simps)
qed

lemma decoded_request:
  "decoded_invoke ([(''model'', JsStr (rq_model rq))] @ omit_empty ''system'' (rq_system rq) @ [(''prompt'', JsStr (rq_prompt rq))]) = rq"
  by (simp add: decoded_invoke_def)

definition remote_invoke_error :: "invoke_error \<Rightarrow> bool \<Rightarrow> daemon_error" where
  "remote_invoke_error e deadline =
     (if e = NotConnected then RemoteError 409 ''Codex is not connected''
      else if e = InputTooLarge then RemoteError 413 ''Codex invocation input is too large''
      else if deadline then RemoteError 504 ''Codex invocation timed out''
      else RemoteError 502 ''Codex invocation failed'')"

text \<open>The errors the daemon writes.\<close>

definition daemon_messages :: "gostring list" where
  "daemon_messages =
     [''Codex session unavailable'', ''Codex is already connected'', ''unable to start Codex login'', ''invalid request'',
      ''no matching Codex login is pending'', ''unable to cancel Codex login'', ''unable to disconnect Codex'',
      ''Codex is not connected'', ''Codex invocation input is too large'', ''Codex invocation timed out'',
      ''Codex invocation failed'']"

lemma daemon_messages_ok:
  "list_all (\<lambda>m. trim_space m = m \<and> m \<noteq> [] \<and> length m \<le> 100) daemon_messages"
  by code_simp

lemma through_message:
  "m \<in> set daemon_messages \<Longrightarrow> code \<ge> 300 \<Longrightarrow> through (writeError code m) d = Inl (RemoteError code m)"
  using daemon_messages_ok
  by (intro through_error) (auto simp: list_all_iff providerDaemonMaxResponseBytes_def dest!: bspec)

lemma through_errors [simp]:
  "through (writeError 502 ''Codex session unavailable'') d = Inl (RemoteError 502 ''Codex session unavailable'')"
  "through (writeError 409 ''Codex is already connected'') d = Inl (RemoteError 409 ''Codex is already connected'')"
  "through (writeError 502 ''unable to start Codex login'') d = Inl (RemoteError 502 ''unable to start Codex login'')"
  "through (writeError 400 ''invalid request'') d = Inl (RemoteError 400 ''invalid request'')"
  "through (writeError 409 ''no matching Codex login is pending'') d = Inl (RemoteError 409 ''no matching Codex login is pending'')"
  "through (writeError 502 ''unable to cancel Codex login'') d = Inl (RemoteError 502 ''unable to cancel Codex login'')"
  "through (writeError 502 ''unable to disconnect Codex'') d = Inl (RemoteError 502 ''unable to disconnect Codex'')"
  by (rule through_message; simp add: daemon_messages_def)+

lemma through_invoke_status [simp]:
  "through (invoke_status e deadline) d = Inl (remote_invoke_error e deadline)"
  unfolding invoke_status_def remote_invoke_error_def
  by (auto intro!: through_message simp: daemon_messages_def)

lemma daemon_request_body: "hq_Body ((daemon_request c m p i)\<lparr>hq_Target := q\<rparr>) = Some (case i of None \<Rightarrow> [] | Some v \<Rightarrow> [v])"
  by (simp add: daemon_request_def)

lemma mux_path:
  "mux_match daemon_patterns ''GET'' (codexPath t) = Handler RStatus [show_nat (unat t)]"
  "mux_match daemon_patterns ''POST'' (codexPath t @ ''/login'') = Handler RLogin [show_nat (unat t)]"
  "mux_match daemon_patterns ''POST'' (codexPath t @ ''/login/cancel'') = Handler RCancel [show_nat (unat t)]"
  "mux_match daemon_patterns ''POST'' (codexPath t @ ''/logout'') = Handler RLogout [show_nat (unat t)]"
  "mux_match daemon_patterns ''POST'' (codexPath t @ ''/invoke'') = Handler RInvoke [show_nat (unat t)]"
  using mux_client [of "unat t"] by (simp_all add: codexPath_def)

lemma status_roundtrip:
  assumes "t \<noteq> 0" and "dc_token c = as_token api"
  shows "client_status (Some c) (daemon_transport (dc_baseURL c) api ss) t s =
    (case sn_Status ss t s of
       (s', None) \<Rightarrow> (s', Inl (RemoteError 502 ''Codex session unavailable''))
     | (s', Some st) \<Rightarrow> (s', if fits (status_js st) then Inr (status_view st) else Inl BadResponse))"
  by (simp add: call_daemon [OF mux_path(1) _ assms(2)] client_status_def doJSON_def route_handler_simps handleStatus_def
      tenantFromRequest_show [OF assms(1)] through_json decode_status_js split: prod.splits option.splits)

lemma login_roundtrip:
  assumes "t \<noteq> 0" and "dc_token c = as_token api"
  shows "client_startLogin (Some c) (daemon_transport (dc_baseURL c) api ss) t s =
    (case sn_StartLogin ss t s of
       (s', Inl e) \<Rightarrow> (s', Inl (if e = AlreadyConnected then RemoteError 409 ''Codex is already connected''
                           else RemoteError 502 ''unable to start Codex login''))
     | (s', Inr l) \<Rightarrow> (s', if fits (login_js l) then Inr l else Inl BadResponse))"
  by (simp add: call_daemon [OF mux_path(2) _ assms(2)] client_startLogin_def doJSON_def route_handler_simps handleLogin_def
      tenantFromRequest_show [OF assms(1)] through_json decode_login_js split: prod.splits sum.splits)

lemma cancel_roundtrip:
  assumes "t \<noteq> 0" and "dc_token c = as_token api"
  shows "client_cancelLogin (Some c) (daemon_transport (dc_baseURL c) api ss) t i s =
    (if length (js_text (JsObj [(''loginId'', JsStr i)])) > max_request then (s, Inl (RemoteError 400 ''invalid request''))
     else case sn_CancelLogin ss t i s of
       (s', Some e) \<Rightarrow> (s', Inl (if e = NoPendingLogin then RemoteError 409 ''no matching Codex login is pending''
                              else RemoteError 502 ''unable to cancel Codex login''))
     | (s', None) \<Rightarrow> (s', Inr ()))"
  by (simp add: call_daemon [OF mux_path(3) _ assms(2)] client_cancelLogin_def doJSON_def route_handler_simps handleCancelLogin_def
      tenantFromRequest_show [OF assms(1)] daemon_request_body decode_cancel through_json not_le
      split: prod.splits option.splits del: js_text.simps)

lemma logout_roundtrip:
  assumes "t \<noteq> 0" and "dc_token c = as_token api"
  shows "client_logout (Some c) (daemon_transport (dc_baseURL c) api ss) t s =
    (case sn_Logout ss t s of
       (s', ok) \<Rightarrow> (s', if ok then Inr () else Inl (RemoteError 502 ''unable to disconnect Codex'')))"
  by (simp add: call_daemon [OF mux_path(4) _ assms(2)] client_logout_def doJSON_def route_handler_simps handleLogout_def
      tenantFromRequest_show [OF assms(1)] through_json split: prod.splits bool.splits)

lemma invoke_roundtrip:
  assumes "t \<noteq> 0" and "dc_token c = as_token api"
  shows "client_invoke c (daemon_transport (dc_baseURL c) api ss) t rq s =
    (if length (js_text (request_js rq)) > max_request then (s, Inl (RemoteError 400 ''invalid request''))
     else case sn_Invoke ss t rq s of
       (s', Inl (e, deadline)) \<Rightarrow> (s', Inl (remote_invoke_error e deadline))
     | (s', Inr r) \<Rightarrow> (s', if fits (invoke_js r) \<and> - (2 ^ 63) \<le> ir_TotalDuration r \<and> ir_TotalDuration r < 2 ^ 63
                          then Inr (invoke_view r) else Inl BadResponse))"
  by (simp add: call_daemon [OF mux_path(5) _ assms(2)] client_invoke_def route_handler_simps handleInvoke_def tenantFromRequest_show [OF assms(1)]
      daemon_request_body decode_request_js decoded_request through_json decode_invoke_js not_le
      split: prod.splits sum.splits del: js_text.simps append_Cons append_assoc)

section \<open>Properties\<close>

text \<open>C18. The client and the daemon agree: with the same token and for any tenant but 0, each call of the client
  makes exactly the session call of that tenant, and gets back the very record the session answered,
  or, for each failure, the status and message of the daemon. The exceptions are the size limits:
  a request of more than 64 KiB is refused as invalid without a call, an answer of more than 1 MiB
  (or with a duration that is no int64) is not decoded.\<close>
theorem daemon_roundtrip:
  assumes "t \<noteq> 0" and "dc_token c = as_token api"
  shows
    "client_status (Some c) (daemon_transport (dc_baseURL c) api ss) t s =
       (case sn_Status ss t s of
          (s', None) \<Rightarrow> (s', Inl (RemoteError 502 ''Codex session unavailable''))
        | (s', Some st) \<Rightarrow> (s', if fits (status_js st) then Inr (status_view st) else Inl BadResponse)) \<and>
     client_startLogin (Some c) (daemon_transport (dc_baseURL c) api ss) t s =
       (case sn_StartLogin ss t s of
          (s', Inl e) \<Rightarrow> (s', Inl (if e = AlreadyConnected then RemoteError 409 ''Codex is already connected''
                              else RemoteError 502 ''unable to start Codex login''))
        | (s', Inr l) \<Rightarrow> (s', if fits (login_js l) then Inr l else Inl BadResponse)) \<and>
     client_cancelLogin (Some c) (daemon_transport (dc_baseURL c) api ss) t i s =
       (if length (js_text (JsObj [(''loginId'', JsStr i)])) > max_request then (s, Inl (RemoteError 400 ''invalid request''))
        else case sn_CancelLogin ss t i s of
          (s', Some e) \<Rightarrow> (s', Inl (if e = NoPendingLogin then RemoteError 409 ''no matching Codex login is pending''
                                 else RemoteError 502 ''unable to cancel Codex login''))
        | (s', None) \<Rightarrow> (s', Inr ())) \<and>
     client_logout (Some c) (daemon_transport (dc_baseURL c) api ss) t s =
       (case sn_Logout ss t s of
          (s', ok) \<Rightarrow> (s', if ok then Inr () else Inl (RemoteError 502 ''unable to disconnect Codex''))) \<and>
     client_invoke c (daemon_transport (dc_baseURL c) api ss) t rq s =
       (if length (js_text (request_js rq)) > max_request then (s, Inl (RemoteError 400 ''invalid request''))
        else case sn_Invoke ss t rq s of
          (s', Inl (e, deadline)) \<Rightarrow> (s', Inl (remote_invoke_error e deadline))
        | (s', Inr r) \<Rightarrow> (s', if fits (invoke_js r) \<and> - (2 ^ 63) \<le> ir_TotalDuration r \<and> ir_TotalDuration r < 2 ^ 63
                             then Inr (invoke_view r) else Inl BadResponse))"
  by (intro conjI status_roundtrip login_roundtrip cancel_roundtrip logout_roundtrip invoke_roundtrip assms)

text \<open>Sessions that log the tenant of every call.\<close>

definition ex_status :: session_status where
  "ex_status = \<lparr>st_State = ''connected'', st_Account = ''a@b.c'', st_AccountType = [], st_PlanType = ''pro'',
     st_RequiresOpenAIAuth = True, st_LoginID = []\<rparr>"

definition ex_result :: invoke_result where
  "ex_result = \<lparr>ir_Model = ''m'', ir_Content = ''<4>'', ir_TotalDuration = 1200\<rparr>"

definition ex_sessions :: "tenant list sessions" where
  "ex_sessions = \<lparr>sn_Status = (\<lambda>t s. (t # s, Some ex_status)), sn_StartLogin = (\<lambda>t s. (t # s, Inl AlreadyConnected)),
     sn_CancelLogin = (\<lambda>t i s. (t # s, Some NoPendingLogin)), sn_Logout = (\<lambda>t s. (t # s, True)),
     sn_Invoke = (\<lambda>t rq s. (t # s, if rq_prompt rq = ''2+2'' then Inr ex_result else Inl (InputTooLarge, False)))\<rparr>"

definition ex_client :: daemon_client where
  "ex_client = \<lparr>dc_baseURL = ''http://127.0.0.1:8811'', dc_token = ''secret''\<rparr>"

lemma ex_fits: "fits (status_js ex_status)" "fits (invoke_js ex_result)"
  "length (js_text (request_js \<lparr>rq_model = ''m'', rq_system = [], rq_prompt = ''2+2''\<rparr>)) \<le> max_request"
  by (simp_all add: fits_def status_js_def invoke_js_def request_js_def ex_status_def ex_result_def omit_empty_def
      js_quote_def esc_char_def show_int_def show_nat.simps digit_char_def providerDaemonMaxResponseBytes_def max_request_def)

theorem daemon_roundtrip_witness:
  "client_status (Some ex_client) (daemon_transport (dc_baseURL ex_client) \<lparr>as_token = ''secret''\<rparr> ex_sessions) 7 [] =
     ([7], Inr (status_view ex_status)) \<and>
   client_invoke ex_client (daemon_transport (dc_baseURL ex_client) \<lparr>as_token = ''secret''\<rparr> ex_sessions) 7
     \<lparr>rq_model = ''m'', rq_system = [], rq_prompt = ''2+2''\<rparr> [] = ([7], Inr (invoke_view ex_result))"
proof -
  have "dc_token ex_client = as_token \<lparr>as_token = ''secret''\<rparr>" by (simp add: ex_client_def)
  from daemon_roundtrip [OF _ this, of 7 ex_sessions "[]" "[]" "\<lparr>rq_model = ''m'', rq_system = [], rq_prompt = ''2+2''\<rparr>"]
  show ?thesis using ex_fits by (simp add: ex_sessions_def ex_result_def not_less del: js_text.simps)
qed

text \<open>A prompt can pass every limit of the broker and still be refused as an invalid request: JSON writes an
  angle bracket in six bytes, so that a prompt well below 48 KiB makes a body of more than the 64 KiB
  that the daemon reads; no session is called and the status is 400 instead of 413.\<close>
theorem large_prompt_refused:
  "\<exists>rq. validateCodexInvokeRequest (\<lambda>_. True) rq = None \<and>
     (\<forall>c (ss :: 's sessions) s.
        client_invoke c (daemon_transport (dc_baseURL c) \<lparr>as_token = dc_token c\<rparr> ss) 1 rq s =
          (s, Inl (RemoteError 400 ''invalid request'')))"
proof -
  define p where "p = replicate 12000 CHR ''<''"
  define rq where "rq = \<lparr>rq_model = ''m'', rq_system = [], rq_prompt = p\<rparr>"
  have "trim_left (replicate n c) = replicate n c" if "\<not> is_space c" for n and c
    using that by (cases n) (simp_all add: trim_left_def)
  then have trim: "trim_space (replicate n c) = replicate n c" if "\<not> is_space c" for n and c
    using that by (simp add: trim_space_def)
  have "validateCodexInvokeRequest (\<lambda>_. True) rq = None"
    using trim [of "CHR ''<''" 12000] trim [of "CHR ''m''" 1]
    by (simp add: validateCodexInvokeRequest_def rq_def p_def is_space_def maxCodexModelBytes_def maxCodexSystemBytes_def
        maxCodexPromptBytes_def trim_space_def trim_left_def)
  moreover have "length (js_text (request_js rq)) > max_request"
    by (simp add: request_js_def rq_def p_def omit_empty_def js_quote_def length_concat sum_list_replicate esc_char_def
        max_request_def)
  ultimately show ?thesis by (intro exI [of _ rq]) (simp add: invoke_roundtrip)
qed

end
