(* ===== verification/ProviderTools.thy ===== *)
theory ProviderTools
  imports ProviderClient ToolArgs
begin

text \<open>
  The provider tools of the server: \<^verbatim>\<open>provider_tools.go\<close>, \<^verbatim>\<open>provider_invoke.go\<close> and \<^verbatim>\<open>provider_health.go\<close> in
  \<^verbatim>\<open>cmd/sentrymcp\<close>, and the Ollama calls of \<^verbatim>\<open>providerbroker/ollama.go\<close> and \<^verbatim>\<open>ollama_chat.go\<close>. Both HTTP services
  are transports over one outside state. Results are the text and the structured value of the tool
  answer; an error keeps the failure it wraps. The schemas of the tool descriptions are left out.
\<close>

section \<open>Ollama\<close>

text \<open>An answer of Ollama: its status, its text, and the first JSON value of the text within the limit.\<close>

record ollama_answer =
  ol_Status :: nat
  ol_Text :: gostring
  ol_Json :: "js option"

type_synonym 's ollama_transport = "http_request \<Rightarrow> 's \<Rightarrow> 's \<times> (gostring + ollama_answer)"

definition ollama_base :: "gostring \<Rightarrow> gostring" where
  "ollama_base url = trim_right_char CHR ''/'' (trim_space url)"

definition ProbeOllama :: "'s ollama_transport \<Rightarrow> gostring \<Rightarrow> 's \<Rightarrow> 's \<times> pstatus" where
  "ProbeOllama tr url s =
     (let base = ollama_base url; down = \<lparr>ps_State = StateDisconnected, ps_Account = []\<rparr>
      in if base = [] then (s, down)
         else case tr \<lparr>hq_Method = ''GET'', hq_Target = base @ ''/api/tags'', hq_Headers = [], hq_Body = Some []\<rparr> s of
                (s', Inl _) \<Rightarrow> (s', down)
              | (s', Inr a) \<Rightarrow>
                  if ol_Status a < 200 \<or> ol_Status a \<ge> 300 then (s', down)
                  else (s', \<lparr>ps_State = StateConnected, ps_Account = ''local''\<rparr>))"

record chat_request =
  cq_Model :: gostring
  cq_System :: gostring
  cq_Prompt :: gostring
  cq_MaxTokens :: int

record chat_result =
  cr_Model :: gostring
  cr_Content :: gostring
  cr_Done :: bool
  cr_DoneReason :: gostring
  cr_TotalDuration :: int
  cr_LoadDuration :: int
  cr_PromptEvalCount :: int
  cr_PromptEvalDuration :: int
  cr_EvalCount :: int
  cr_EvalDuration :: int

datatype chat_error = NoURL | NoModel | NoPrompt | ChatFailed gostring | ChatStatus nat gostring | ChatDecode

definition defaultOllamaMaxTokens :: int where
  "defaultOllamaMaxTokens = 256"

definition chat_message :: "gostring \<Rightarrow> gostring \<Rightarrow> js" where
  "chat_message role content = JsObj [(''role'', JsStr role), (''content'', JsStr content)]"

definition chat_payload :: "chat_request \<Rightarrow> int \<Rightarrow> js" where
  "chat_payload q maxTokens = JsObj
     [(''model'', JsStr (cq_Model q)),
      (''messages'', JsArr ((if cq_System q \<noteq> [] then [chat_message ''system'' (cq_System q)] else []) @
        [chat_message ''user'' (cq_Prompt q)])),
      (''stream'', JsBool False), (''options'', JsObj [(''num_predict'', JsInt maxTokens)])]"

text \<open>A nested struct: the fields of every object under the name, in order.\<close>

fun sub_fields :: "gostring \<Rightarrow> (gostring \<times> js) list \<Rightarrow> (gostring \<times> js) list \<times> bool" where
  "sub_fields name [] = ([], True)"
| "sub_fields name ((k, v) # fs) =
     (case sub_fields name fs of (rest, ok) \<Rightarrow>
        if \<not> key_is name k then (rest, ok)
        else case v of JsObj gs \<Rightarrow> (gs @ rest, ok) | JsNull \<Rightarrow> (rest, ok) | _ \<Rightarrow> (rest, False))"

definition decode_chat :: "js option \<Rightarrow> chat_result option" where
  "decode_chat v =
     (case Option.bind v js_fields of None \<Rightarrow> None | Some fs \<Rightarrow>
        (case sub_fields ''message'' fs of (ms, ok) \<Rightarrow>
           if ok \<and> list_all (str_ok ms) [''role'', ''content''] \<and> list_all (str_ok fs) [''model'', ''done_reason''] \<and>
              bool_ok fs ''done'' \<and>
              list_all (int_ok fs) [''total_duration'', ''load_duration'', ''prompt_eval_count'', ''prompt_eval_duration'',
                ''eval_count'', ''eval_duration'']
           then Some \<lparr>cr_Model = get_str ''model'' fs, cr_Content = get_str ''content'' ms, cr_Done = get_bool ''done'' fs,
                      cr_DoneReason = get_str ''done_reason'' fs, cr_TotalDuration = get_int ''total_duration'' fs,
                      cr_LoadDuration = get_int ''load_duration'' fs, cr_PromptEvalCount = get_int ''prompt_eval_count'' fs,
                      cr_PromptEvalDuration = get_int ''prompt_eval_duration'' fs, cr_EvalCount = get_int ''eval_count'' fs,
                      cr_EvalDuration = get_int ''eval_duration'' fs\<rparr>
           else None))"

definition InvokeOllama :: "'s ollama_transport \<Rightarrow> gostring \<Rightarrow> chat_request \<Rightarrow> 's \<Rightarrow> 's \<times> (chat_error + chat_result)" where
  "InvokeOllama tr url q0 s =
     (let base = ollama_base url;
          q = q0\<lparr>cq_Model := trim_space (cq_Model q0), cq_System := trim_space (cq_System q0), cq_Prompt := trim_space (cq_Prompt q0)\<rparr>;
          maxTokens = (if cq_MaxTokens q \<le> 0 then defaultOllamaMaxTokens else cq_MaxTokens q)
      in if base = [] then (s, Inl NoURL)
         else if cq_Model q = [] then (s, Inl NoModel)
         else if cq_Prompt q = [] then (s, Inl NoPrompt)
         else
           case tr \<lparr>hq_Method = ''POST'', hq_Target = base @ ''/api/chat'',
                    hq_Headers = [(''Content-Type'', ''application/json''), (''Accept'', ''application/json'')],
                    hq_Body = Some [chat_payload q maxTokens]\<rparr> s of
             (s', Inl e) \<Rightarrow> (s', Inl (ChatFailed e))
           | (s', Inr a) \<Rightarrow>
               if ol_Status a < 200 \<or> ol_Status a \<ge> 300
               then let m = trim_space (ol_Text a)
                    in (s', Inl (ChatStatus (ol_Status a) (if m = [] then status_text (ol_Status a) else m)))
               else case decode_chat (ol_Json a) of
                      None \<Rightarrow> (s', Inl ChatDecode)
                    | Some r \<Rightarrow> (s', Inr r))"

section \<open>Health\<close>

definition refreshOllamaStatus :: "'s ollama_transport \<Rightarrow> gostring \<Rightarrow> pregistry \<Rightarrow> 's \<Rightarrow> pregistry \<times> 's \<times> provider_error option" where
  "refreshOllamaStatus tr url r s =
     (case ProbeOllama tr url s of (s', st) \<Rightarrow>
        (case SetDefaultStatus ''ollama'' st r of (r', e) \<Rightarrow> (r', s', e)))"

text \<open>\<^verbatim>\<open>monitorOllamaStatus\<close>: one refresh at once and one per tick; what happens outside between them is the list.\<close>

fun monitor_ticks :: "'s ollama_transport \<Rightarrow> gostring \<Rightarrow> (pregistry \<times> 's \<Rightarrow> pregistry \<times> 's) list \<Rightarrow> pregistry \<times> 's \<Rightarrow> pregistry \<times> 's" where
  "monitor_ticks tr url [] (r, s) = (r, s)"
| "monitor_ticks tr url (f # fs) (r, s) =
     (case f (r, s) of (r1, s1) \<Rightarrow> (case refreshOllamaStatus tr url r1 s1 of (r2, s2, _) \<Rightarrow> monitor_ticks tr url fs (r2, s2)))"

definition monitorOllamaStatus :: "'s ollama_transport \<Rightarrow> gostring \<Rightarrow> (pregistry \<times> 's \<Rightarrow> pregistry \<times> 's) list \<Rightarrow> pregistry \<times> 's \<Rightarrow> pregistry \<times> 's" where
  "monitorOllamaStatus tr url ticks st =
     (case st of (r, s) \<Rightarrow> (case refreshOllamaStatus tr url r s of (r1, s1, _) \<Rightarrow> monitor_ticks tr url ticks (r1, s1)))"

section \<open>The tools\<close>

record 's provider_server =
  pr_daemon :: "daemon_client option"
  pr_net :: "'s transport"
  pr_ollama :: "'s ollama_transport"
  pr_ollamaURL :: gostring
  pr_ollamaMaxTokens :: int

datatype tool_failure =
  FailText gostring
| FailUnknown gostring
| FailNotManaged gostring
| FailDaemon gostring daemon_error
| FailOllama gostring chat_error

datatype ptool_result =
  PFail tool_failure
| POne gostring "gostring \<rightharpoonup> js"
| PList gostring nat "(gostring \<rightharpoonup> js) list"

definition default_providers :: "provider list" where
  "default_providers =
     [\<lparr>pv_ID = ''ollama'', pv_Name = ''Ollama local'', pv_Auth = ''none'', pv_Capabilities = [''chat'', ''embeddings'']\<rparr>,
      \<lparr>pv_ID = ''codex'', pv_Name = ''Codex CLI'', pv_Auth = ''cli'', pv_Capabilities = [''chat'', ''code'', ''tools'']\<rparr>,
      \<lparr>pv_ID = ''claude'', pv_Name = ''Claude Code'', pv_Auth = ''cli'', pv_Capabilities = [''chat'', ''code'', ''tools'']\<rparr>]"

text \<open>A registration error panics.\<close>

fun register_all :: "provider list \<Rightarrow> pregistry \<Rightarrow> pregistry option" where
  "register_all [] r = Some r"
| "register_all (p # ps) r = (case RegisterProvider p r of (r', None) \<Rightarrow> register_all ps r' | (_, Some _) \<Rightarrow> None)"

definition defaultProviderRegistry :: "pregistry option" where
  "defaultProviderRegistry = register_all default_providers NewProviderRegistry"

definition findProvider :: "pregistry \<Rightarrow> gostring \<Rightarrow> provider option" where
  "findProvider r pid = find (\<lambda>v. pv_ID v = trim_space pid) (ListProviders r)"

definition status_of :: "tenant \<Rightarrow> gostring \<Rightarrow> pregistry \<Rightarrow> pstatus" where
  "status_of t p r = (case ProviderStatus t p r of None \<Rightarrow> \<lparr>ps_State = [], ps_Account = []\<rparr> | Some st \<Rightarrow> st)"

definition providerResult :: "provider \<Rightarrow> pstatus \<Rightarrow> gostring \<rightharpoonup> js" where
  "providerResult v st =
     [''id'' \<mapsto> JsStr (pv_ID v), ''name'' \<mapsto> JsStr (pv_Name v), ''auth'' \<mapsto> JsStr (pv_Auth v),
      ''capabilities'' \<mapsto> JsArr (map JsStr (pv_Capabilities v)), ''state'' \<mapsto> JsStr (ps_State st),
      ''account'' \<mapsto> JsStr (ps_Account st)]"

definition providerActionResult :: "gostring \<Rightarrow> gostring \<Rightarrow> gostring \<rightharpoonup> js" where
  "providerActionResult p state = [''provider'' \<mapsto> JsStr p, ''state'' \<mapsto> JsStr state]"

definition providerResultForTenant :: "'s provider_server \<Rightarrow> tenant \<Rightarrow> provider \<Rightarrow> pregistry \<Rightarrow> 's \<Rightarrow>
    pregistry \<times> 's \<times> (gostring \<rightharpoonup> js)" where
  "providerResultForTenant sv t v r s =
     (let result = providerResult v (status_of t (pv_ID v) r)
      in if pv_ID v \<noteq> ''codex'' \<or> pr_daemon sv = None then (r, s, result)
         else case client_status (pr_daemon sv) (pr_net sv) t s of
                (s', Inl _) \<Rightarrow>
                  (r, s', result(''state'' \<mapsto> JsStr ''error'', ''account'' \<mapsto> JsStr [], ''requiresOpenaiAuth'' \<mapsto> JsBool True))
              | (s', Inr remote) \<Rightarrow>
                  (fst (SetStatus t (pv_ID v) \<lparr>ps_State = ds_State remote, ps_Account = ds_Account remote\<rparr> r), s',
                   result(''state'' \<mapsto> JsStr (ds_State remote), ''account'' \<mapsto> JsStr (ds_Account remote),
                          ''accountType'' \<mapsto> JsStr (ds_AccountType remote), ''planType'' \<mapsto> JsStr (ds_PlanType remote),
                          ''requiresOpenaiAuth'' \<mapsto> JsBool (ds_RequiresOpenAIAuth remote), ''loginId'' \<mapsto> JsStr (ds_LoginID remote))))"

definition str_of :: "(gostring \<rightharpoonup> js) \<Rightarrow> gostring \<Rightarrow> gostring" where
  "str_of m k = (case m k of Some (JsStr x) \<Rightarrow> x | _ \<Rightarrow> [])"

fun list_items :: "'s provider_server \<Rightarrow> tenant \<Rightarrow> provider list \<Rightarrow> pregistry \<Rightarrow> 's \<Rightarrow>
    pregistry \<times> 's \<times> (provider \<times> (gostring \<rightharpoonup> js)) list" where
  "list_items sv t [] r s = (r, s, [])"
| "list_items sv t (v # vs) r s =
     (case providerResultForTenant sv t v r s of (r1, s1, item) \<Rightarrow>
        (case list_items sv t vs r1 s1 of (r2, s2, items) \<Rightarrow> (r2, s2, (v, item) # items)))"

definition list_line :: "provider \<Rightarrow> (gostring \<rightharpoonup> js) \<Rightarrow> gostring" where
  "list_line v item = ''- '' @ pv_Name v @ '' ('' @ pv_ID v @ ''): '' @ str_of item ''state''"

section \<open>Invoking\<close>

definition blank :: "gostring \<times> bool \<Rightarrow> bool" where
  "blank a \<longleftrightarrow> \<not> snd a \<or> trim_space (fst a) = []"

definition chat_struct :: "gostring \<Rightarrow> chat_result \<Rightarrow> gostring \<rightharpoonup> js" where
  "chat_struct p r =
     [''provider'' \<mapsto> JsStr p, ''model'' \<mapsto> JsStr (cr_Model r), ''content'' \<mapsto> JsStr (cr_Content r),
      ''done'' \<mapsto> JsBool (cr_Done r), ''doneReason'' \<mapsto> JsStr (cr_DoneReason r),
      ''totalDuration'' \<mapsto> JsInt (cr_TotalDuration r), ''loadDuration'' \<mapsto> JsInt (cr_LoadDuration r),
      ''promptTokens'' \<mapsto> JsInt (cr_PromptEvalCount r), ''completionTokens'' \<mapsto> JsInt (cr_EvalCount r)]"

definition codex_struct :: "daemon_invoke_result \<Rightarrow> gostring \<rightharpoonup> js" where
  "codex_struct r =
     [''provider'' \<mapsto> JsStr (di_Provider r), ''model'' \<mapsto> JsStr (di_Model r), ''content'' \<mapsto> JsStr (di_Content r),
      ''done'' \<mapsto> JsBool (di_Done r), ''doneReason'' \<mapsto> JsStr (di_DoneReason r),
      ''totalDuration'' \<mapsto> JsInt (di_TotalDuration r), ''loadDuration'' \<mapsto> JsInt (di_LoadDuration r),
      ''promptTokens'' \<mapsto> JsInt (di_PromptTokens r), ''completionTokens'' \<mapsto> JsInt (di_CompletionTokens r)]"

definition invoke_ollama_tool :: "'s provider_server \<Rightarrow> tenant \<Rightarrow> provider \<Rightarrow> gostring \<Rightarrow> gostring \<Rightarrow> gostring \<Rightarrow> pregistry \<Rightarrow> 's \<Rightarrow>
    's \<times> ptool_result" where
  "invoke_ollama_tool sv t v model system prompt r s =
     (if ps_State (status_of t (pv_ID v) r) \<noteq> StateConnected
      then (s, PFail (FailText (''provider '' @ pv_ID v @ '' is not connected'')))
      else case InvokeOllama (pr_ollama sv) (pr_ollamaURL sv)
             \<lparr>cq_Model = model, cq_System = system, cq_Prompt = prompt, cq_MaxTokens = pr_ollamaMaxTokens sv\<rparr> s of
             (s', Inl e) \<Rightarrow> (s', PFail (FailOllama ''provider invocation failed: '' e))
           | (s', Inr res) \<Rightarrow> (s', POne (cr_Content res) (chat_struct (pv_ID v) res)))"

definition invoke_codex_tool :: "'s provider_server \<Rightarrow> tenant \<Rightarrow> gostring \<Rightarrow> gostring \<Rightarrow> gostring \<Rightarrow> 's \<Rightarrow> 's \<times> ptool_result" where
  "invoke_codex_tool sv t model system prompt s =
     (case pr_daemon sv of
        None \<Rightarrow> (s, PFail (FailText ''provider session daemon is not configured''))
      | Some c \<Rightarrow>
          (case client_status (Some c) (pr_net sv) t s of
             (s1, Inl e) \<Rightarrow> (s1, PFail (FailDaemon ''provider status failed: '' e))
           | (s1, Inr st) \<Rightarrow>
               if ds_State st \<noteq> StateConnected then (s1, PFail (FailText ''provider codex is not connected''))
               else case client_invoke c (pr_net sv) t \<lparr>rq_model = model, rq_system = system, rq_prompt = prompt\<rparr> s1 of
                      (s2, Inl e) \<Rightarrow> (s2, PFail (FailDaemon ''provider invocation failed: '' e))
                    | (s2, Inr res) \<Rightarrow> (s2, POne (di_Content res) (codex_struct res))))"

definition handleProviderInvoke :: "'s provider_server \<Rightarrow> tenant \<Rightarrow> targs \<Rightarrow> pregistry \<Rightarrow> 's \<Rightarrow> 's \<times> ptool_result" where
  "handleProviderInvoke sv t args r s =
     (if blank (strArg args ''provider'') then (s, PFail (FailText ''provider is required''))
      else if blank (strArg args ''model'') then (s, PFail (FailText ''model is required''))
      else if blank (strArg args ''prompt'') then (s, PFail (FailText ''prompt is required''))
      else
        let pid = fst (strArg args ''provider''); model = fst (strArg args ''model'');
            prompt = fst (strArg args ''prompt''); system = fst (strArg args ''system'')
        in case findProvider r pid of
             None \<Rightarrow> (s, PFail (FailUnknown pid))
           | Some v \<Rightarrow>
               if pv_ID v = ''ollama'' then invoke_ollama_tool sv t v model system prompt r s
               else if pv_ID v = ''codex'' then invoke_codex_tool sv t model system prompt s
               else (s, PFail (FailText (''provider '' @ pv_ID v @ '' invocation is not implemented''))))"

section \<open>Managing\<close>

definition managedCodexProvider :: "'s provider_server \<Rightarrow> targs \<Rightarrow> pregistry \<Rightarrow> tool_failure option" where
  "managedCodexProvider sv args r =
     (let a = strArg args ''provider''
      in if blank a then Some (FailText ''provider is required'')
         else case findProvider r (fst a) of
                None \<Rightarrow> Some (FailUnknown (fst a))
              | Some v \<Rightarrow>
                  if pv_ID v \<noteq> ''codex'' then Some (FailNotManaged (pv_ID v))
                  else if pr_daemon sv = None then Some (FailText ''provider session daemon is not configured'') else None)"

definition login_struct :: "daemon_login \<Rightarrow> gostring \<rightharpoonup> js" where
  "login_struct l =
     [''provider'' \<mapsto> JsStr (dl_Provider l), ''state'' \<mapsto> JsStr (dl_State l), ''type'' \<mapsto> JsStr (dl_Type l),
      ''loginId'' \<mapsto> JsStr (dl_LoginID l), ''verificationUrl'' \<mapsto> JsStr (dl_VerificationURL l),
      ''userCode'' \<mapsto> JsStr (dl_UserCode l)]"

abbreviation set_codex :: "tenant \<Rightarrow> gostring \<Rightarrow> pregistry \<Rightarrow> pregistry" where
  "set_codex t state r \<equiv> fst (SetStatus t ''codex'' \<lparr>ps_State = state, ps_Account = []\<rparr> r)"

definition tool_list :: "'s provider_server \<Rightarrow> tenant \<Rightarrow> pregistry \<Rightarrow> 's \<Rightarrow> pregistry \<times> 's \<times> ptool_result" where
  "tool_list sv t r s =
     (let vs = ListProviders r
      in case list_items sv t vs r s of (r', s', items) \<Rightarrow>
           (r', s', PList (join_with [CHR 0x0A]
              ((''providers available to tenant '' @ show_nat (unat t) @ '': '' @ show_nat (length vs)) #
               map (\<lambda>(v, item). list_line v item) items)) (length items) (map snd items)))"

definition tool_status :: "'s provider_server \<Rightarrow> tenant \<Rightarrow> targs \<Rightarrow> pregistry \<Rightarrow> 's \<Rightarrow> pregistry \<times> 's \<times> ptool_result" where
  "tool_status sv t args r s =
     (let a = strArg args ''provider''
      in if blank a then (r, s, PFail (FailText ''provider is required''))
         else case findProvider r (fst a) of
                None \<Rightarrow> (r, s, PFail (FailUnknown (fst a)))
              | Some v \<Rightarrow>
                  (case providerResultForTenant sv t v r s of (r', s', m) \<Rightarrow>
                     (r', s', POne (''provider '' @ pv_Name v @ '' ('' @ pv_ID v @ ''): state='' @ str_of m ''state'' @
                        (if str_of m ''account'' \<noteq> [] then '' account='' @ str_of m ''account'' else [])) m)))"

definition tool_connect :: "'s provider_server \<Rightarrow> tenant \<Rightarrow> targs \<Rightarrow> pregistry \<Rightarrow> 's \<Rightarrow> pregistry \<times> 's \<times> ptool_result" where
  "tool_connect sv t args r s =
     (case managedCodexProvider sv args r of
        Some e \<Rightarrow> (r, s, PFail e)
      | None \<Rightarrow>
          (case client_startLogin (pr_daemon sv) (pr_net sv) t s of
             (s', Inl e) \<Rightarrow> (r, s', PFail (FailDaemon ''unable to start official Codex login: '' e))
           | (s', Inr l) \<Rightarrow> (set_codex t (dl_State l) r, s', POne ''official Codex device login started'' (login_struct l))))"

definition tool_cancel :: "'s provider_server \<Rightarrow> tenant \<Rightarrow> targs \<Rightarrow> pregistry \<Rightarrow> 's \<Rightarrow> pregistry \<times> 's \<times> ptool_result" where
  "tool_cancel sv t args r s =
     (case managedCodexProvider sv args r of
        Some e \<Rightarrow> (r, s, PFail e)
      | None \<Rightarrow>
          if blank (strArg args ''loginId'') then (r, s, PFail (FailText ''loginId is required''))
          else case client_cancelLogin (pr_daemon sv) (pr_net sv) t (fst (strArg args ''loginId'')) s of
                 (s', Inl e) \<Rightarrow> (r, s', PFail (FailDaemon ''unable to cancel Codex login: '' e))
               | (s', Inr _) \<Rightarrow>
                   (set_codex t StateDisconnected r, s',
                    POne ''Codex login cancelled'' (providerActionResult ''codex'' StateDisconnected)))"

definition tool_disconnect :: "'s provider_server \<Rightarrow> tenant \<Rightarrow> targs \<Rightarrow> pregistry \<Rightarrow> 's \<Rightarrow> pregistry \<times> 's \<times> ptool_result" where
  "tool_disconnect sv t args r s =
     (case managedCodexProvider sv args r of
        Some e \<Rightarrow> (r, s, PFail e)
      | None \<Rightarrow>
          (case client_logout (pr_daemon sv) (pr_net sv) t s of
             (s', Inl e) \<Rightarrow> (r, s', PFail (FailDaemon ''unable to disconnect Codex: '' e))
           | (s', Inr _) \<Rightarrow>
               (set_codex t StateDisconnected r, s',
                POne ''Codex disconnected'' (providerActionResult ''codex'' StateDisconnected))))"

text \<open>The registry of a running server is never nil.\<close>

definition handleProviderTool :: "'s provider_server \<Rightarrow> tenant \<Rightarrow> gostring \<Rightarrow> targs \<Rightarrow> pregistry \<Rightarrow> 's \<Rightarrow> pregistry \<times> 's \<times> ptool_result" where
  "handleProviderTool sv t name args r s =
     (if name = ''provider_list'' then tool_list sv t r s
      else if name = ''provider_status'' then tool_status sv t args r s
      else if name = ''provider_connect'' then tool_connect sv t args r s
      else if name = ''provider_connect_cancel'' then tool_cancel sv t args r s
      else if name = ''provider_disconnect'' then tool_disconnect sv t args r s
      else if name = ''provider_invoke'' then (case handleProviderInvoke sv t args r s of (s', res) \<Rightarrow> (r, s', res))
      else (r, s, PFail (FailText ''unknown provider tool'')))"

end
