(* ===== verification/McpServer.thy ===== *)
theory McpServer
  imports McpMemory ProviderTools OAuth
begin

text \<open>
  The whole server of \<^verbatim>\<open>cmd/sentrymcp/main.go\<close>: the tool switch \<^verbatim>\<open>callTool\<close>, the JSON-RPC \<^verbatim>\<open>dispatch\<close>, the HTTP
  endpoints with the tenant of a request, and the stdio loop. One call runs at a time. Everything
  a call learns from outside (clock, append outcomes, embedder, files) is the record \<open>call_env\<close>;
  the append-only journal that the components share is one sequence of numbers, so that after every
  call the typed logs of all components are moved to the same next number.
\<close>

section \<open>State\<close>

record ('f, 's) app =
  ap_mcp :: mcp_server
  ap_mem :: "'f memory_server"
  ap_provs :: pregistry
  ap_world :: 's
  ap_oauth :: "oauthProvider option"

record ('f, 'g, 's) app_conf =
  ac_providers :: "'s provider_server"
  ac_lib :: golib
  ac_tokens :: token_registry
  ac_token :: gostring
  ac_images :: image_env
  ac_formats :: "('f, 'g) formats"
  ac_hhmm :: "int \<Rightarrow> gostring"
  ac_f64 :: "nat \<Rightarrow> 'g"
  ac_float :: "gostring \<Rightarrow> rat option" \<comment> \<open>\<^verbatim>\<open>strconv.ParseFloat\<close> of a number literal\<close>

record 'f call_env =
  ce_now :: int
  ce_append :: "int option"
  ce_accesses :: "nat \<Rightarrow> int option \<times> int option"
  ce_vecs :: "'f list list option"
  ce_put :: put_env
  ce_read_ok :: bool
  ce_dir_ok :: bool
  ce_rm_ok :: "gostring \<Rightarrow> bool"
  ce_scan_ok :: bool

text \<open>The typed logs are parts of one journal: the next number of all of them.\<close>

definition mem_next :: "'f mem_store option \<Rightarrow> nat" where
  "mem_next m = (case m of None \<Rightarrow> 0 | Some s \<Rightarrow> el_next (ms_journal s))"

definition journal_next :: "('f, 's) app \<Rightarrow> nat" where
  "journal_next a =
     max (max (el_next (reg_journal (mv_reg (ap_mem a)))) (mem_next (mv_mem (ap_mem a))))
         (max (el_next (mv_recalls (ap_mem a))) (el_next (cs_journal (sv_chat (ap_mcp a)))))"

definition el_to :: "nat \<Rightarrow> 'e elog \<Rightarrow> 'e elog" where
  "el_to n l = l\<lparr>el_next := n\<rparr>"

definition align_mem :: "nat \<Rightarrow> 'f memory_server \<Rightarrow> 'f memory_server" where
  "align_mem n mm = mm\<lparr>mv_reg := (mv_reg mm)\<lparr>reg_journal := el_to n (reg_journal (mv_reg mm))\<rparr>,
     mv_mem := map_option (\<lambda>s. s\<lparr>ms_journal := el_to n (ms_journal s)\<rparr>) (mv_mem mm),
     mv_recalls := el_to n (mv_recalls mm)\<rparr>"

definition align_mcp :: "nat \<Rightarrow> mcp_server \<Rightarrow> mcp_server" where
  "align_mcp n m = m\<lparr>sv_chat := (sv_chat m)\<lparr>cs_journal := el_to n (cs_journal (sv_chat m))\<rparr>\<rparr>"

definition align :: "('f, 's) app \<Rightarrow> ('f, 's) app" where
  "align a = a\<lparr>ap_mem := align_mem (journal_next a) (ap_mem a), ap_mcp := align_mcp (journal_next a) (ap_mcp a)\<rparr>"

section \<open>The tools\<close>

datatype tool =
  DoProvider gostring
| DoRecordAccess | DoAnalyzeAccess | DoAnalyzeRecall | DoRemember | DoRecall | DoForget
| DoPost | DoRead | DoClear | DoInbox | DoClaim | DoResolve | DoHeartbeat
| DoPostImage | DoGetImage | DoPin bool | DoBlobGc
| DoPromote | DoStats

definition tool_names :: "(gostring \<times> tool) list" where
  "tool_names =
     map (\<lambda>n. (n, DoProvider n))
       [''provider_list'', ''provider_status'', ''provider_connect'', ''provider_connect_cancel'',
        ''provider_disconnect'', ''provider_invoke''] @
     [(''record_access'', DoRecordAccess), (''analyze_access'', DoAnalyzeAccess), (''analyze_recall'', DoAnalyzeRecall),
      (''remember'', DoRemember), (''recall'', DoRecall), (''forget'', DoForget), (''post'', DoPost), (''read'', DoRead),
      (''comms_clear'', DoClear), (''inbox'', DoInbox), (''claim'', DoClaim), (''resolve'', DoResolve),
      (''heartbeat'', DoHeartbeat), (''post_image'', DoPostImage), (''get_image'', DoGetImage),
      (''pin_image'', DoPin True), (''unpin_image'', DoPin False), (''blob_gc'', DoBlobGc),
      (''promote'', DoPromote), (''stats'', DoStats)]"

datatype 'f answer =
  AProvider ptool_result
| AComms tool_result
| AMem "'f mtool_result"
| AUnknown gostring

definition on_mcp :: "('f, 's) app \<Rightarrow> mcp_server \<times> tool_result \<Rightarrow> ('f, 's) app \<times> 'f answer" where
  "on_mcp a r = (a\<lparr>ap_mcp := fst r\<rparr>, AComms (snd r))"

definition on_mem :: "('f, 's) app \<Rightarrow> 'f memory_server \<times> 'f mtool_result \<Rightarrow> ('f, 's) app \<times> 'f answer" where
  "on_mem a r = (a\<lparr>ap_mem := fst r\<rparr>, AMem (snd r))"

definition pin_tool :: "int option \<Rightarrow> tenant \<Rightarrow> bool \<Rightarrow> targs \<Rightarrow> mcp_server \<Rightarrow> mcp_server \<times> tool_result" where
  "pin_tool env t on args sv =
     (case pin_lookup t args sv of Inl e \<Rightarrow> (sv, ToolErr e) | Inr (q, b) \<Rightarrow> pin_apply env t on q b sv)"

fun run_tool :: "('f::{plus,minus,times,zero,one,linorder}, 'g::{zero,divide,minus}, 's) app_conf \<Rightarrow> 'f call_env \<Rightarrow>
    tenant \<Rightarrow> targs \<Rightarrow> tool \<Rightarrow> ('f, 's) app \<Rightarrow> ('f, 's) app \<times> 'f answer" where
  "run_tool cf ev t args (DoProvider n) a =
     (case handleProviderTool (ac_providers cf) t n args (ap_provs a) (ap_world a) of
        (r', w', res) \<Rightarrow> (a\<lparr>ap_provs := r', ap_world := w'\<rparr>, AProvider res))"
| "run_tool cf ev t args DoRecordAccess a =
     on_mem a (record_access_tool (ce_accesses ev) (fo_quote (ac_formats cf)) t args (ap_mem a))"
| "run_tool cf ev t args DoAnalyzeAccess a =
     (a, AMem (analyze_access_tool (ce_scan_ok ev) (ac_f64 cf) (ac_formats cf) t (ap_mem a)))"
| "run_tool cf ev t args DoAnalyzeRecall a = (a, AMem (analyze_recall_tool (ac_formats cf) t (ap_mem a)))"
| "run_tool cf ev t args DoRemember a = on_mem a (remember_tool (ce_vecs ev) (ce_append ev) t args (ap_mem a))"
| "run_tool cf ev t args DoRecall a =
     on_mem a (recall_tool (ce_vecs ev) (ce_append ev) (ac_formats cf) t args (ap_mem a))"
| "run_tool cf ev t args DoForget a = on_mem a (forget_tool (ce_append ev) t args (ap_mem a))"
| "run_tool cf ev t args DoPost a = on_mcp a (post_tool (ce_append ev) (ce_now ev) t args (ap_mcp a))"
| "run_tool cf ev t args DoRead a = (a, AComms (read_tool (ac_hhmm cf) (ce_now ev) t args (ap_mcp a)))"
| "run_tool cf ev t args DoClear a =
     on_mcp a (clear_tool (ce_append ev) t (fo_quote (ac_formats cf)) args (ap_mcp a))"
| "run_tool cf ev t args DoInbox a =
     (a, AComms (inbox_tool (ac_hhmm cf) (fo_quote (ac_formats cf)) (ce_now ev) t args (ap_mcp a)))"
| "run_tool cf ev t args DoClaim a = on_mcp a (claim_tool (ce_append ev) (ac_hhmm cf) (ce_now ev) t args (ap_mcp a))"
| "run_tool cf ev t args DoResolve a = on_mcp a (resolve_tool (ce_append ev) t args (ap_mcp a))"
| "run_tool cf ev t args DoHeartbeat a = on_mcp a (heartbeat_tool (ce_now ev) t args (ap_mcp a))"
| "run_tool cf ev t args DoPostImage a =
     on_mcp a (post_image_tool (ac_images cf) (ce_put ev) (ce_append ev) (ce_now ev) t args (ap_mcp a))"
| "run_tool cf ev t args DoGetImage a = (a, AComms (get_image_tool (ac_images cf) (ce_read_ok ev) t args (ap_mcp a)))"
| "run_tool cf ev t args (DoPin on) a = on_mcp a (pin_tool (ce_append ev) t on args (ap_mcp a))"
| "run_tool cf ev t args DoBlobGc a = on_mcp a (blob_gc_tool (ce_dir_ok ev) (ce_rm_ok ev) t (ap_mcp a))"
| "run_tool cf ev t args DoPromote a =
     on_mem a (promote_tool (ce_vecs ev) (ce_append ev) t args (sv_chat (ap_mcp a)) (ap_mem a))"
| "run_tool cf ev t args DoStats a = (a, AMem (stats_tool (journal_next a)))"

definition call_tool :: "('f::{plus,minus,times,zero,one,linorder}, 'g::{zero,divide,minus}, 's) app_conf \<Rightarrow> 'f call_env \<Rightarrow>
    tenant \<Rightarrow> gostring \<Rightarrow> targs \<Rightarrow> ('f, 's) app \<Rightarrow> ('f, 's) app \<times> 'f answer" where
  "call_tool cf ev t name args a =
     (case map_of tool_names name of
        None \<Rightarrow> (a, AUnknown name)
      | Some d \<Rightarrow> (case run_tool cf ev t args d a of (a', r) \<Rightarrow> (align a', r)))"

section \<open>JSON-RPC\<close>

text \<open>A value decoded into \<^verbatim>\<open>any\<close>, and whether every number in it is a float64.\<close>

fun js_value :: "(gostring \<Rightarrow> rat option) \<Rightarrow> js \<Rightarrow> ToolArgs.jval" where
  "js_value fl (JsStr s) = ToolArgs.JStr s"
| "js_value fl (JsBool b) = JBool b"
| "js_value fl (JsInt i) = (case fl (show_int i) of None \<Rightarrow> JNull | Some v \<Rightarrow> JNum v)"
| "js_value fl (JsNum s) = (case fl s of None \<Rightarrow> JNull | Some v \<Rightarrow> JNum v)"
| "js_value fl JsNull = JNull"
| "js_value fl (JsArr vs) = JArr (map (js_value fl) vs)"
| "js_value fl (JsObj fs) = JObj"

fun js_floats :: "(gostring \<Rightarrow> rat option) \<Rightarrow> js \<Rightarrow> bool" where
  "js_floats fl (JsInt i) \<longleftrightarrow> fl (show_int i) \<noteq> None"
| "js_floats fl (JsNum s) \<longleftrightarrow> fl s \<noteq> None"
| "js_floats fl (JsArr vs) \<longleftrightarrow> list_all (js_floats fl) vs"
| "js_floats fl (JsObj fs) \<longleftrightarrow> list_all (\<lambda>(k, v). js_floats fl v) fs"
| "js_floats fl _ \<longleftrightarrow> True"

text \<open>The map field \<^verbatim>\<open>arguments\<close>: a second object adds to the first, null empties it.\<close>

fun args_field :: "(gostring \<Rightarrow> rat option) \<Rightarrow> (gostring \<times> js) list \<Rightarrow> targs \<times> bool \<Rightarrow> targs \<times> bool" where
  "args_field fl [] r = r"
| "args_field fl ((k, v) # fs) (m, ok) =
     args_field fl fs
       (if \<not> key_is ''arguments'' k then (m, ok)
        else case v of
               JsObj gs \<Rightarrow> (fold (\<lambda>(k, v) m. m(k \<mapsto> js_value fl v)) gs m, ok \<and> list_all (\<lambda>(k, v). js_floats fl v) gs)
             | JsNull \<Rightarrow> (Map.empty, ok)
             | _ \<Rightarrow> (m, False))"

definition decode_call :: "(gostring \<Rightarrow> rat option) \<Rightarrow> js option \<Rightarrow> (gostring \<times> targs) option" where
  "decode_call fl params =
     (case Option.bind params js_fields of None \<Rightarrow> None
      | Some fs \<Rightarrow>
          (case args_field fl fs (Map.empty, True) of (args, ok) \<Rightarrow>
             if ok \<and> str_ok fs ''name'' then Some (get_str ''name'' fs, args) else None))"

record rpc_req =
  rr_ID :: "js option"
  rr_Method :: gostring
  rr_Params :: "js option"

definition decode_rpc :: "js \<Rightarrow> rpc_req option" where
  "decode_rpc v =
     (case js_fields v of None \<Rightarrow> None
      | Some fs \<Rightarrow>
          if str_ok fs ''jsonrpc'' \<and> str_ok fs ''method''
          then Some \<lparr>rr_ID = raw_field ''id'' fs, rr_Method = get_str ''method'' fs, rr_Params = raw_field ''params'' fs\<rparr>
          else None)"

datatype 'f rpc_answer =
  RInit gostring
| RPing
| RTools
| RCall "'f answer"
| RFail int gostring

record 'f rpc_resp =
  rp_ID :: "js option"
  rp_Answer :: "'f rpc_answer"

definition negotiateVersion :: "gostring \<Rightarrow> gostring" where
  "negotiateVersion requested =
     (if requested = ''2025-06-18'' \<or> requested = ''2024-11-05'' then requested else ''2025-06-18'')"

definition requested_version :: "js option \<Rightarrow> gostring" where
  "requested_version params =
     (case Option.bind params js_fields of None \<Rightarrow> [] | Some fs \<Rightarrow> get_str ''protocolVersion'' fs)"

definition callTool :: "('f::{plus,minus,times,zero,one,linorder}, 'g::{zero,divide,minus}, 's) app_conf \<Rightarrow> 'f call_env \<Rightarrow>
    tenant \<Rightarrow> js option \<Rightarrow> ('f, 's) app \<Rightarrow> ('f, 's) app \<times> 'f rpc_answer" where
  "callTool cf ev t params a =
     (case decode_call (ac_float cf) params of
        None \<Rightarrow> (a, RFail (- 32602) ''invalid params'')
      | Some (name, args) \<Rightarrow> (case call_tool cf ev t name args a of (a', r) \<Rightarrow> (a', RCall r)))"

text \<open>One message: the response, or none for a notification. The content of \<^verbatim>\<open>tools/list\<close> is left out.\<close>

definition dispatch :: "('f::{plus,minus,times,zero,one,linorder}, 'g::{zero,divide,minus}, 's) app_conf \<Rightarrow> 'f call_env \<Rightarrow>
    tenant \<Rightarrow> js option \<Rightarrow> ('f, 's) app \<Rightarrow> ('f, 's) app \<times> 'f rpc_resp option" where
  "dispatch cf ev t line a =
     (case Option.bind line decode_rpc of
        None \<Rightarrow> (a, None)
      | Some rq \<Rightarrow>
          let ans = (\<lambda>x. Some \<lparr>rp_ID = rr_ID rq, rp_Answer = x\<rparr>); meth = rr_Method rq
          in if meth = ''initialize'' then (a, ans (RInit (negotiateVersion (requested_version (rr_Params rq)))))
             else if meth = ''notifications/initialized'' \<or> meth = ''notifications/cancelled'' then (a, None)
             else if meth = ''ping'' then (a, ans RPing)
             else if meth = ''tools/list'' then (a, ans RTools)
             else if meth = ''tools/call'' then (case callTool cf ev t (rr_Params rq) a of (a', r) \<Rightarrow> (a', ans r))
             else if rr_ID rq = None then (a, None)
             else (a, ans (RFail (- 32601) (''method not found: '' @ meth))))"

text \<open>The stdio transport: every line, for the server's own tenant.\<close>

fun serveStdio :: "('f::{plus,minus,times,zero,one,linorder}, 'g::{zero,divide,minus}, 's) app_conf \<Rightarrow>
    ('f call_env \<times> js option) list \<Rightarrow> ('f, 's) app \<Rightarrow> ('f, 's) app \<times> 'f rpc_resp list" where
  "serveStdio cf [] a = (a, [])"
| "serveStdio cf ((ev, line) # rest) a =
     (case dispatch cf ev (sv_tenant (ap_mcp a)) line a of (a1, r) \<Rightarrow>
        (case serveStdio cf rest a1 of (a2, rs) \<Rightarrow> (a2, (case r of None \<Rightarrow> rs | Some x \<Rightarrow> x # rs))))"

end
