(* ===== verification/McpHttp.thy ===== *)
theory McpHttp
  imports McpServer
begin

text \<open>
  The HTTP side of \<^verbatim>\<open>cmd/sentrymcp/main.go\<close>: the endpoints \<^verbatim>\<open>handleHTTP\<close>, \<^verbatim>\<open>handleAdminCorpus\<close>,
  \<^verbatim>\<open>handleAdminJournal\<close>, \<^verbatim>\<open>handleAdminComms\<close>, \<^verbatim>\<open>handleCommsSubscribe\<close>, \<^verbatim>\<open>handleInstallScript\<close> and
  \<^verbatim>\<open>handleDownload\<close>, and their routing. A request carries what Go has parsed of it: the path, the
  query, the Authorization header and the first 8 MiB of the body as JSON. The files of the download
  directory are an argument. The response writer supports flushing, as that of \<^verbatim>\<open>net/http\<close> does.
\<close>

section \<open>Requests and responses\<close>

record http_in =
  hi_req :: OAuth.request
  hi_path :: gostring
  hi_auth :: gostring
  hi_query :: "(gostring \<times> gostring) list"
  hi_read_ok :: bool
  hi_json :: "js option"

record admin_event =
  ae_Seq :: nat
  ae_TS :: int
  ae_Type :: gostring
  ae_Text :: gostring

datatype 'f web_body =
  WNone
| WText gostring
| WOAuth resp_body
| WRpc "'f rpc_resp"
| WCorpus tenant nat nat "'f mem_payload list"
| WEvents "admin_event list"
| WMessages "message list"
| WStream nat "nudge option"
| WFile gostring

record 'f web =
  wb_status :: nat
  wb_headers :: "(gostring \<times> gostring) list"
  wb_body :: "'f web_body"

definition web_error :: "(gostring \<times> gostring) list \<Rightarrow> gostring \<Rightarrow> nat \<Rightarrow> 'f web" where
  "web_error hs msg code =
     \<lparr>wb_status = code,
      wb_headers = hs @ [(''Content-Type'', ''text/plain; charset=utf-8''), (''X-Content-Type-Options'', ''nosniff'')],
      wb_body = WText (msg @ nl)\<rparr>"

definition web_json :: "(gostring \<times> gostring) list \<Rightarrow> 'f web_body \<Rightarrow> 'f web" where
  "web_json hs b = \<lparr>wb_status = 200, wb_headers = hs @ [(''Content-Type'', ''application/json'')], wb_body = b\<rparr>"

definition query_get :: "http_in \<Rightarrow> gostring \<Rightarrow> gostring" where
  "query_get hi k = (case map_of (hi_query hi) k of None \<Rightarrow> [] | Some v \<Rightarrow> v)"

text \<open>The tenant of a request.\<close>

definition tenant_of :: "('f, 'g, 's) app_conf \<Rightarrow> int \<Rightarrow> http_in \<Rightarrow> ('f, 's) app \<Rightarrow> tenant option" where
  "tenant_of cf now hi a =
     resolveTenant (ac_lib cf) (ac_tokens cf) (ap_oauth a) (ac_token cf) (sv_tenant (ap_mcp a)) (hi_auth hi) now"

section \<open>The MCP endpoint\<close>

definition is_init :: "js option \<Rightarrow> bool" where
  "is_init body = (case Option.bind body decode_rpc of None \<Rightarrow> False | Some rq \<Rightarrow> rr_Method rq = ''initialize'')"

fun is_result :: "'f rpc_answer \<Rightarrow> bool" where
  "is_result (RFail _ _) = False"
| "is_result _ = True"

definition session_header :: "int \<Rightarrow> js option \<Rightarrow> 'f rpc_resp \<Rightarrow> (gostring \<times> gostring) list" where
  "session_header now body r =
     (if rp_ID r \<noteq> None \<and> is_result (rp_Answer r) \<and> is_init body
      then [(''Mcp-Session-Id'', ''ms-'' @ show_int now)] else [])"

definition handleHTTP :: "('f::{plus,minus,times,zero,one,linorder}, 'g::{zero,divide,minus}, 's) app_conf \<Rightarrow> 'f call_env \<Rightarrow>
    http_in \<Rightarrow> ('f, 's) app \<Rightarrow> ('f, 's) app \<times> 'f web" where
  "handleHTTP cf ev hi a =
     (let meth = rq_method (hi_req hi);
          hs = (case ap_oauth a of None \<Rightarrow> [] | Some _ \<Rightarrow> cors_headers (hi_req hi))
      in if ap_oauth a \<noteq> None \<and> meth = ''OPTIONS''
         then (a, \<lparr>wb_status = 204, wb_headers = hs, wb_body = WNone\<rparr>)
         else if meth = ''GET'' \<and> hi_path hi = ''/''
         then (a, \<lparr>wb_status = 200, wb_headers = hs, wb_body = WText (''matrix-sentry mcp ok'' @ nl)\<rparr>)
         else if meth \<noteq> ''POST'' then (a, web_error hs ''use POST /mcp'' 405)
         else case tenant_of cf (ce_now ev) hi a of
                None \<Rightarrow>
                  (a, web_error (hs @ (case ap_oauth a of None \<Rightarrow> [] | Some oa \<Rightarrow> [(''WWW-Authenticate'', wwwAuthenticate oa)]))
                        ''unauthorized'' 401)
              | Some t \<Rightarrow>
                  if \<not> hi_read_ok hi then (a, web_error hs ''read error'' 400)
                  else case dispatch cf ev t (hi_json hi) a of
                         (a', None) \<Rightarrow> (a', \<lparr>wb_status = 202, wb_headers = hs, wb_body = WNone\<rparr>)
                       | (a', Some r) \<Rightarrow> (a', web_json (hs @ session_header (ce_now ev) (hi_json hi) r) (WRpc r)))"

section \<open>The dashboard's endpoints\<close>

definition handleAdminCorpus :: "('f, 'g, 's) app_conf \<Rightarrow> int \<Rightarrow> http_in \<Rightarrow> ('f, 's) app \<Rightarrow> 'f web" where
  "handleAdminCorpus cf now hi a =
     (case tenant_of cf now hi a of
        None \<Rightarrow> web_error [] ''unauthorized'' 401
      | Some t \<Rightarrow>
          (case mv_mem (ap_mem a) of
             None \<Rightarrow> web_error [] ''semantic memory disabled (no embedder)'' 503
           | Some m \<Rightarrow>
               let mems = ListMems t m
               in web_json [] (WCorpus t (fold (\<lambda>p _. length (mp_vector p)) mems 0) (length mems) mems)))"

text \<open>\<^verbatim>\<open>limit\<close>: a positive number, else the default; at most \<open>mx\<close>.\<close>

definition limit_of :: "http_in \<Rightarrow> int \<Rightarrow> int \<Rightarrow> int" where
  "limit_of hi def mx =
     (let q = query_get hi ''limit'';
          v = (case (if q = [] then None else atoi q) of None \<Rightarrow> def | Some v \<Rightarrow> if v > 0 then v else def)
      in if v > mx then mx else v)"

definition millis :: "int \<Rightarrow> int" where
  "millis ns = (if ns < 0 then - (- ns div 10 ^ 6) else ns div 10 ^ 6)"

definition mem_admin :: "'f mem_event lrec \<Rightarrow> admin_event list" where
  "mem_admin r =
     (case lr_event r of
        MemEv p \<Rightarrow> [\<lparr>ae_Seq = lr_seq r, ae_TS = millis (lr_time r), ae_Type = ''Memory'',
                     ae_Text = ''#'' @ show_nat (mp_id p) @ '' '' @ truncRunes (mp_text p) 80\<rparr>]
      | ForgetEv i \<Rightarrow> [\<lparr>ae_Seq = lr_seq r, ae_TS = millis (lr_time r), ae_Type = ''Forget'',
                        ae_Text = ''tombstone #'' @ show_nat i\<rparr>]
      | _ \<Rightarrow> [])"

definition comms_admin :: "comms_event lrec \<Rightarrow> admin_event list" where
  "comms_admin r =
     (case lr_event r of
        MessageEv p \<Rightarrow>
          [\<lparr>ae_Seq = lr_seq r, ae_TS = millis (lr_time r), ae_Type = ''Message'',
            ae_Text = pl_from p @ (if pl_target p \<noteq> [] then '' '' @ arrow @ '' '' @ pl_target p else []) @
              '' @'' @ pl_area p @ '': '' @ truncRunes (pl_text p) 60\<rparr>]
      | _ \<Rightarrow> [])"

definition of_tenant :: "tenant \<Rightarrow> 'e elog \<Rightarrow> 'e lrec list" where
  "of_tenant t l = filter (\<lambda>r. lr_tenant r = t) (el_recs l)"

text \<open>The tenant's semantic events, in the order of the journal that the logs are parts of; the reverse scan
  stops after \<open>limit\<close> of them.\<close>

definition admin_events :: "tenant \<Rightarrow> ('f, 's) app \<Rightarrow> admin_event list" where
  "admin_events t a =
     sort_key ae_Seq
       (concat (map mem_admin (case mv_mem (ap_mem a) of None \<Rightarrow> [] | Some m \<Rightarrow> of_tenant t (ms_journal m))) @
        concat (map comms_admin (of_tenant t (cs_journal (sv_chat (ap_mcp a))))))"

definition handleAdminJournal :: "('f, 'g, 's) app_conf \<Rightarrow> int \<Rightarrow> http_in \<Rightarrow> ('f, 's) app \<Rightarrow> 'f web" where
  "handleAdminJournal cf now hi a =
     (case tenant_of cf now hi a of
        None \<Rightarrow> web_error [] ''unauthorized'' 401
      | Some t \<Rightarrow> web_json [] (WEvents (last_n (nat (limit_of hi 60 200)) (admin_events t a))))"

definition handleAdminComms :: "('f, 'g, 's) app_conf \<Rightarrow> int \<Rightarrow> http_in \<Rightarrow> ('f, 's) app \<Rightarrow> 'f web" where
  "handleAdminComms cf now hi a =
     (case tenant_of cf now hi a of
        None \<Rightarrow> web_error [] ''unauthorized'' 401
      | Some t \<Rightarrow>
          web_json [] (WMessages (map (\<lambda>m. m\<lparr>m_ts := millis (m_ts m)\<rparr>) (Recent t (limit_of hi 100 300) (sv_chat (ap_mcp a))))))"

section \<open>The nudge stream\<close>

definition parseUintQuery :: "gostring \<Rightarrow> nat" where
  "parseUintQuery s = (if s = [] then 0 else case parse_uint64 s of None \<Rightarrow> 0 | Some n \<Rightarrow> n)"

definition seq_nudge :: "nat \<Rightarrow> nudge" where
  "seq_nudge n = \<lparr>n_seq = n, n_area = [], n_target = [], n_kind = []\<rparr>"

text \<open>Up to the loop: the subscription is made first, then the catch-up nudge is sent.\<close>

definition handleCommsSubscribe :: "('f, 'g, 's) app_conf \<Rightarrow> int \<Rightarrow> http_in \<Rightarrow> ('f, 's) app \<Rightarrow> ('f, 's) app \<times> 'f web" where
  "handleCommsSubscribe cf now hi a =
     (case tenant_of cf now hi a of
        None \<Rightarrow> (a, web_error [] ''unauthorized'' 401)
      | Some t \<Rightarrow>
          let target = query_get hi ''target''; as = query_get hi ''areas'';
              areas = (if as = [] then [] else split_on CHR '','' as)
          in if target = [] \<and> areas = [] then (a, web_error [] ''provide target and/or areas'' 400)
             else
               let since = parseUintQuery (query_get hi ''since'');
                   f = \<lparr>f_tenant = t, f_target = target, f_areas = areas\<rparr>
               in case Subscribe f (sv_chat (ap_mcp a)) of
                    (c, i) \<Rightarrow>
                      let latest = MatchingSince f since c
                      in (a\<lparr>ap_mcp := (ap_mcp a)\<lparr>sv_chat := c\<rparr>\<rparr>,
                          \<lparr>wb_status = 200,
                           wb_headers = [(''Content-Type'', ''text/event-stream''), (''Cache-Control'', ''no-cache''),
                             (''Connection'', ''keep-alive'')],
                           wb_body = WStream i (if latest > since then Some (seq_nudge latest) else None)\<rparr>))"

text \<open>One turn of the loop that finds a nudge, and its end.\<close>

definition on_hub :: "(hub \<Rightarrow> hub) \<Rightarrow> ('f, 's) app \<Rightarrow> ('f, 's) app" where
  "on_hub f a = a\<lparr>ap_mcp := (ap_mcp a)\<lparr>sv_chat := (sv_chat (ap_mcp a))\<lparr>cs_hub := f (cs_hub (sv_chat (ap_mcp a)))\<rparr>\<rparr>\<rparr>"

definition stream_turn :: "nat \<Rightarrow> ('f, 's) app \<Rightarrow> ('f, 's) app \<times> nudge option" where
  "stream_turn i a = (on_hub (\<lambda>h. fst (hub_recv i h)) a, snd (hub_recv i (cs_hub (sv_chat (ap_mcp a)))))"

definition stream_end :: "nat \<Rightarrow> ('f, 's) app \<Rightarrow> ('f, 's) app" where
  "stream_end i = on_hub (hub_cancel i)"

section \<open>The files\<close>

text \<open>\<open>there\<close> says of a name in the download directory whether it is there and a directory.\<close>

definition handleInstallScript :: "(gostring \<Rightarrow> bool option) \<Rightarrow> 'f web" where
  "handleInstallScript there =
     (if there ''install.sh'' \<noteq> Some False then web_error [] ''install.sh not available'' 404
      else \<lparr>wb_status = 200,
            wb_headers = [(''Content-Type'', ''text/x-shellscript; charset=utf-8''), (''Cache-Control'', ''no-cache'')],
            wb_body = WFile ''install.sh''\<rparr>)"

definition handleDownload :: "(gostring \<Rightarrow> bool option) \<Rightarrow> gostring \<Rightarrow> 'f web" where
  "handleDownload there path =
     (let name = trim_prefix ''/dl/'' path
      in if name = [] \<or> CHR ''/'' \<in> set name \<or> CHR 0x5C \<in> set name \<or> cut ''..'' name \<noteq> None
         then web_error [] ''bad artifact name'' 400
         else if there name \<noteq> Some False then web_error [] ''not found'' 404
         else \<lparr>wb_status = 200, wb_headers = [(''Content-Type'', ''application/octet-stream'')], wb_body = WFile name\<rparr>)"

section \<open>Routing\<close>

datatype endpoint =
  EResource | EMeta | ERegister | EAuthorize | EToken
| ECorpus | EJournal | EComms | ESubscribe | EInstall | EDownload | EMcp | ERedirect

definition oauth_paths :: "(gostring \<times> endpoint) list" where
  "oauth_paths =
     [(''/.well-known/oauth-protected-resource'', EResource), (''/.well-known/oauth-authorization-server'', EMeta),
      (''/.well-known/oauth-protected-resource/mcp'', EResource), (''/.well-known/oauth-authorization-server/mcp'', EMeta),
      (''/register'', ERegister), (''/authorize'', EAuthorize), (''/token'', EToken)]"

definition plain_paths :: "(gostring \<times> endpoint) list" where
  "plain_paths =
     [(''/admin/corpus'', ECorpus), (''/admin/journal'', EJournal), (''/admin/comms'', EComms),
      (''/comms/subscribe'', ESubscribe), (''/install.sh'', EInstall)]"

text \<open>The mux redirects paths that are not clean, and \<^verbatim>\<open>/dl\<close> to \<^verbatim>\<open>/dl/\<close>; the rest goes to the MCP endpoint.\<close>

definition endpoint_of :: "bool \<Rightarrow> gostring \<Rightarrow> endpoint" where
  "endpoint_of oauth p =
     (if \<not> clean_path p \<or> p = ''/dl'' then ERedirect
      else case map_of ((if oauth then oauth_paths else []) @ plain_paths) p of
             Some e \<Rightarrow> e
           | None \<Rightarrow> if prefix ''/dl/'' p then EDownload else EMcp)"

text \<open>What the OAuth endpoints take besides the request: random bytes, the clock readings of the token
  endpoint, and the decoded registration.\<close>

record oauth_env =
  oe_rnd :: gostring
  oe_now :: "int \<times> int \<times> int"
  oe_redirects :: "gostring list"
  oe_name :: gostring

definition web_oauth :: "response \<Rightarrow> 'f web" where
  "web_oauth r = \<lparr>wb_status = rs_status r, wb_headers = rs_headers r, wb_body = WOAuth (rs_body r)\<rparr>"

definition serve_oauth :: "('f, 'g, 's) app_conf \<Rightarrow> oauth_env \<Rightarrow> endpoint \<Rightarrow> OAuth.request \<Rightarrow> oauthProvider \<Rightarrow> response \<times> oauthProvider" where
  "serve_oauth cf oe e rq oa =
     (case e of
        EResource \<Rightarrow> (handleProtectedResource rq oa, oa)
      | EMeta \<Rightarrow> (handleAuthServerMeta rq oa, oa)
      | ERegister \<Rightarrow> (handleRegister (ac_lib cf) (oe_rnd oe) (oe_redirects oe) (oe_name oe) rq, oa)
      | EAuthorize \<Rightarrow> handleAuthorize (ac_lib cf) (token_Tenant (ac_tokens cf)) (oe_rnd oe) (fst (oe_now oe)) rq oa
      | _ \<Rightarrow> handleToken (ac_lib cf) (fst (oe_now oe)) (fst (snd (oe_now oe))) (snd (snd (oe_now oe))) rq oa)"

definition serve :: "('f::{plus,minus,times,zero,one,linorder}, 'g::{zero,divide,minus}, 's) app_conf \<Rightarrow>
    (gostring \<Rightarrow> bool option) \<Rightarrow> oauth_env \<Rightarrow> 'f call_env \<Rightarrow> http_in \<Rightarrow> ('f, 's) app \<Rightarrow> ('f, 's) app \<times> 'f web" where
  "serve cf there oe ev hi a =
     (case endpoint_of (ap_oauth a \<noteq> None) (hi_path hi) of
        ERedirect \<Rightarrow> (a, \<lparr>wb_status = 301, wb_headers = [], wb_body = WNone\<rparr>)
      | ECorpus \<Rightarrow> (a, handleAdminCorpus cf (ce_now ev) hi a)
      | EJournal \<Rightarrow> (a, handleAdminJournal cf (ce_now ev) hi a)
      | EComms \<Rightarrow> (a, handleAdminComms cf (ce_now ev) hi a)
      | ESubscribe \<Rightarrow> handleCommsSubscribe cf (ce_now ev) hi a
      | EInstall \<Rightarrow> (a, handleInstallScript there)
      | EDownload \<Rightarrow> (a, handleDownload there (hi_path hi))
      | EMcp \<Rightarrow> handleHTTP cf ev hi a
      | e \<Rightarrow>
          (case ap_oauth a of
             None \<Rightarrow> handleHTTP cf ev hi a
           | Some oa \<Rightarrow>
               (case serve_oauth cf oe e (hi_req hi) oa of (r, oa') \<Rightarrow> (a\<lparr>ap_oauth := Some oa'\<rparr>, web_oauth r))))"

end
