(* ===== verification/ProviderProps.thy ===== *)
theory ProviderProps
  imports ProviderTools
begin

text \<open>
  What holds of the provider tools with the daemon behind them: a tool call of one tenant reaches no
  other tenant's session or state, an invocation answers what the session answered and only when it
  is connected, a status is the daemon's, and the health monitor keeps the default status of Ollama.
\<close>

section \<open>A transport that keeps to one tenant\<close>

text \<open>The interface the client relies on: requests below the tenant's path keep \<open>P\<close>.\<close>

locale tenant_net =
  fixes net :: "'s transport" and base :: gostring and t :: tenant and P :: "'s \<Rightarrow> bool"
  assumes net_keeps: "P s \<Longrightarrow> hq_Target rq = base @ codexPath t @ x \<Longrightarrow> P (fst (net rq s))"
begin

lemma doJSONWithClient_keeps:
  assumes "P s" and "dc_baseURL c = base"
  shows "P (fst (doJSONWithClient c net meth (codexPath t @ x) input decode s))"
proof -
  let ?rq = "daemon_request c meth (codexPath t @ x) input"
  have "P (fst (net ?rq s))" by (rule net_keeps [OF assms(1)]) (simp add: daemon_request_def assms(2))
  moreover obtain s' a where "net ?rq s = (s', a)" by fastforce
  ultimately show ?thesis by (simp add: doJSONWithClient_def split: sum.splits option.splits)
qed

lemma doJSON_keeps:
  assumes "P s" and "\<forall>c. d = Some c \<longrightarrow> dc_baseURL c = base"
  shows "P (fst (doJSON d net meth (codexPath t @ x) input decode s))"
proof (cases d)
  case (Some c)
  then show ?thesis using doJSONWithClient_keeps [OF assms(1), of c] assms(2) by (simp add: doJSON_def)
qed (simp add: doJSON_def assms(1))

lemma client_keeps:
  assumes "P s" and "\<forall>c. d = Some c \<longrightarrow> dc_baseURL c = base"
  shows "P (fst (client_status d net t s))" and "P (fst (client_startLogin d net t s))"
    and "P (fst (client_cancelLogin d net t i s))" and "P (fst (client_logout d net t s))"
  using doJSON_keeps [OF assms, of "''GET''" "[]"] doJSON_keeps [OF assms]
  by (simp_all add: client_status_def client_startLogin_def client_cancelLogin_def client_logout_def)

lemma client_invoke_keeps: "P s \<Longrightarrow> dc_baseURL c = base \<Longrightarrow> P (fst (client_invoke c net t rq s))"
  by (simp add: client_invoke_def doJSONWithClient_keeps)

end

text \<open>The states that calls for one tenant lead to.\<close>

inductive tenant_calls :: "'s sessions \<Rightarrow> tenant \<Rightarrow> 's \<Rightarrow> 's \<Rightarrow> bool" for ss t where
  none: "tenant_calls ss t s s"
| call: "tenant_calls ss t s s' \<Longrightarrow> tenant_calls ss t s (call_state ss t c s')"

lemma parse_path_tenant:
  assumes "''/v1/tenants/'' @ seg @ ''/providers/codex'' @ suff = codexPath t @ x" and "parse_uint16 seg = Some (unat u)"
  shows "u = t"
proof -
  let ?n = "show_nat (unat t)"
  have "seg @ CHR ''/'' # ''providers/codex'' @ suff = ?n @ CHR ''/'' # ''providers/codex'' @ x"
    using assms(1) by (simp add: codexPath_def)
  then have "takeWhile (\<lambda>c. c \<noteq> CHR ''/'') (seg @ CHR ''/'' # ''providers/codex'' @ suff) =
      takeWhile (\<lambda>c. c \<noteq> CHR ''/'') (?n @ CHR ''/'' # ''providers/codex'' @ x)" by simp
  moreover have "CHR ''/'' \<notin> set seg"
    using assms(2) by (auto simp: parse_uint16_def list_all_iff is_digit_def split: if_splits)
  ultimately have "seg = ?n"
    using show_nat_segment(1) [of "unat t"] by (subst (asm) (1 2) takeWhile_append2) auto
  then have "unat u = unat t"
    using assms(2) show_nat_digits [of "unat t"] by (auto simp: parse_uint16_def split: if_splits)
  then show ?thesis by (simp add: word_unat_eq_iff)
qed

lemma routes_tenant:
  fixes ss :: "'s sessions"
  assumes "hq_Target rq = codexPath t @ x"
  shows "fst (routes api ss rq s) = s \<or> (\<exists>c. fst (routes api ss rq s) = call_state ss t c s)"
proof -
  have "untouched (\<lambda>ss :: 's sessions. routes api ss rq) \<or>
      (\<exists>seg suff. hq_Target rq = ''/v1/tenants/'' @ seg @ ''/providers/codex'' @ suff \<and>
         one_call seg suff (\<lambda>ss :: 's sessions. routes api ss rq))"
    using daemon_cases by blast
  then show ?thesis
  proof (elim disjE exE conjE)
    assume "untouched (\<lambda>ss :: 's sessions. routes api ss rq)"
    then show ?thesis by (auto simp: untouched_def)
  next
    fix seg suff
    assume "hq_Target rq = ''/v1/tenants/'' @ seg @ ''/providers/codex'' @ suff"
      and "one_call seg suff (\<lambda>ss :: 's sessions. routes api ss rq)"
    then show ?thesis using parse_path_tenant [of seg suff t x] assms by (fastforce simp: one_call_def)
  qed
qed

interpretation daemon_net: tenant_net "daemon_transport base api ss" base t "tenant_calls ss t s0"
  for base api ss t s0
proof
  fix s x and rq :: http_request
  assume s: "tenant_calls ss t s0 s" and rq: "hq_Target rq = base @ codexPath t @ x"
  have "fst (daemon_transport base api ss rq s) = fst (routes api ss (rq\<lparr>hq_Target := codexPath t @ x\<rparr>) s)"
    using rq by (simp add: daemon_transport_def split: prod.splits)
  then show "tenant_calls ss t s0 (fst (daemon_transport base api ss rq s))"
    using routes_tenant [of "rq\<lparr>hq_Target := codexPath t @ x\<rparr>" t x api ss s] s
    by (auto intro: tenant_calls.call)
qed

section \<open>A tool call keeps to its tenant\<close>

locale tenant_tools = tenant_net net base t P
  for net :: "'s transport" and base :: gostring and t :: tenant and P :: "'s \<Rightarrow> bool" +
  fixes og :: "'s ollama_transport" and sv :: "'s provider_server"
  assumes og_keeps: "P s \<Longrightarrow> P (fst (og rq s))"
    and net: "pr_net sv = net" and og: "pr_ollama sv = og"
    and daemon_base: "pr_daemon sv = Some c \<Longrightarrow> dc_baseURL c = base"
begin

lemma calls_keep:
  assumes "P s"
  shows "client_status (pr_daemon sv) (pr_net sv) t s = (s', a) \<Longrightarrow> P s'"
    and "client_startLogin (pr_daemon sv) (pr_net sv) t s = (s', b) \<Longrightarrow> P s'"
    and "client_cancelLogin (pr_daemon sv) (pr_net sv) t i s = (s', d) \<Longrightarrow> P s'"
    and "client_logout (pr_daemon sv) (pr_net sv) t s = (s', d) \<Longrightarrow> P s'"
  using client_keeps [OF assms, of "pr_daemon sv"] daemon_base by (metis net fst_conv)+

lemma invoke_call_keeps:
  "P s \<Longrightarrow> pr_daemon sv = Some c \<Longrightarrow> client_invoke c (pr_net sv) t rq s = (s', a) \<Longrightarrow> P s'"
  using client_invoke_keeps daemon_base by (metis net fst_conv)

lemma og_keeps': "P s \<Longrightarrow> pr_ollama sv rq s = (s', a) \<Longrightarrow> P s'"
  using og_keeps by (metis og fst_conv)

lemma ollama_keeps: "P s \<Longrightarrow> InvokeOllama (pr_ollama sv) url q s = (s', a) \<Longrightarrow> P s'"
  by (auto simp: InvokeOllama_def Let_def split: if_splits prod.splits sum.splits option.splits dest: og_keeps')

lemma result_keeps: "P s \<Longrightarrow> providerResultForTenant sv t v r s = (r', s', m) \<Longrightarrow> P s'"
  by (auto simp: providerResultForTenant_def Let_def split: if_splits prod.splits sum.splits dest: calls_keep)

lemma list_keeps: "P s \<Longrightarrow> list_items sv t vs r s = (r', s', items) \<Longrightarrow> P s'"
proof (induction vs arbitrary: r s r' s' items)
  case (Cons v vs)
  then show ?case by (auto split: prod.splits dest: result_keeps)
qed simp

lemma codex_keeps:
  assumes "P s" and r: "invoke_codex_tool sv t model system prompt s = (s', a)"
  shows "P s'"
proof (cases "pr_daemon sv")
  case None
  then show ?thesis using assms by (simp add: invoke_codex_tool_def)
next
  case (Some c)
  obtain s1 b where b: "client_status (Some c) (pr_net sv) t s = (s1, b)" by fastforce
  then have "P s1" using calls_keep(1) [OF assms(1)] Some by simp
  then show ?thesis
    using r invoke_call_keeps [OF _ Some]
    by (auto simp: invoke_codex_tool_def Some b split: sum.splits if_splits prod.splits)
qed

lemma invoke_ollama_keeps:
  "P s \<Longrightarrow> invoke_ollama_tool sv t v model system prompt r s = (s', a) \<Longrightarrow> P s'"
  by (auto simp: invoke_ollama_tool_def split: if_splits prod.splits sum.splits dest: ollama_keeps)

lemma invoke_keeps: "P s \<Longrightarrow> handleProviderInvoke sv t args r s = (s', a) \<Longrightarrow> P s'"
  by (auto simp: handleProviderInvoke_def Let_def split: if_splits option.splits dest: codex_keeps invoke_ollama_keeps)

lemma tool_keeps:
  assumes "P s" and "handleProviderTool sv t name args r s = (r', s', res)"
  shows "P s'"
proof -
  note keep = list_keeps [OF assms(1)] result_keeps [OF assms(1)] calls_keep [OF assms(1)] invoke_keeps [OF assms(1)]
  have "tool_list sv t r s = (r', s', res) \<Longrightarrow> P s'"
    by (auto simp: tool_list_def Let_def split: prod.splits dest: keep)
  moreover have "tool_status sv t args r s = (r', s', res) \<Longrightarrow> P s'"
    using assms(1) by (auto simp: tool_status_def Let_def split: if_splits prod.splits option.splits dest: keep)
  moreover have "tool_connect sv t args r s = (r', s', res) \<Longrightarrow> P s'"
    using assms(1) by (auto simp: tool_connect_def split: prod.splits option.splits sum.splits dest: keep)
  moreover have "tool_cancel sv t args r s = (r', s', res) \<Longrightarrow> P s'"
    using assms(1) by (auto simp: tool_cancel_def split: if_splits prod.splits option.splits sum.splits dest: keep)
  moreover have "tool_disconnect sv t args r s = (r', s', res) \<Longrightarrow> P s'"
    using assms(1) by (auto simp: tool_disconnect_def split: prod.splits option.splits sum.splits dest: keep)
  ultimately show ?thesis
    using assms by (auto simp: handleProviderTool_def split: if_splits prod.splits dest: keep)
qed

end

text \<open>The world of a server: the daemon's sessions and whatever Ollama keeps, each behind its own transport.\<close>

definition on_fst :: "('r \<Rightarrow> 's \<Rightarrow> 's \<times> 'a) \<Rightarrow> 'r \<Rightarrow> 's \<times> 'o \<Rightarrow> ('s \<times> 'o) \<times> 'a" where
  "on_fst f rq w = (case f rq (fst w) of (s', a) \<Rightarrow> ((s', snd w), a))"

definition on_snd :: "('r \<Rightarrow> 'o \<Rightarrow> 'o \<times> 'a) \<Rightarrow> 'r \<Rightarrow> 's \<times> 'o \<Rightarrow> ('s \<times> 'o) \<times> 'a" where
  "on_snd f rq w = (case f rq (snd w) of (o', a) \<Rightarrow> ((fst w, o'), a))"

definition live_server :: "gostring option \<Rightarrow> gostring \<Rightarrow> api_server \<Rightarrow> 's sessions \<Rightarrow> 'o ollama_transport \<Rightarrow> gostring \<Rightarrow> int \<Rightarrow>
    ('s \<times> 'o) provider_server" where
  "live_server token base api ss og url mx =
     \<lparr>pr_daemon = map_option (\<lambda>k. \<lparr>dc_baseURL = base, dc_token = k\<rparr>) token,
      pr_net = on_fst (daemon_transport base api ss), pr_ollama = on_snd og, pr_ollamaURL = url, pr_ollamaMaxTokens = mx\<rparr>"

interpretation live: tenant_tools "on_fst (daemon_transport base api ss)" base t "\<lambda>w. tenant_calls ss t s0 (fst w)"
  "on_snd og" "live_server token base api ss og url mx"
  for base api ss t s0 token og url mx
proof (unfold_locales, goal_cases)
  case (1 w rq x)
  then show ?case using daemon_net.net_keeps [OF 1] by (simp add: on_fst_def case_prod_beta)
next
  case (2 w rq)
  then show ?case by (simp add: on_snd_def case_prod_beta)
qed (auto simp: live_server_def)

text \<open>The registry changes for the tenant only.\<close>

definition only_tenant :: "tenant \<Rightarrow> pregistry \<Rightarrow> pregistry \<Rightarrow> bool" where
  "only_tenant t r r' \<longleftrightarrow> rg_providers r' = rg_providers r \<and> rg_defaults r' = rg_defaults r \<and>
     rg_statuses r' = (rg_statuses r)(t := rg_statuses r' t)"

lemma only_tenant_refl [simp]: "only_tenant t r r"
  by (simp add: only_tenant_def)

lemma only_tenant_trans: "only_tenant t a b \<Longrightarrow> only_tenant t b c \<Longrightarrow> only_tenant t a c"
  unfolding only_tenant_def by (metis fun_upd_upd)

lemma only_tenant_set [simp]: "only_tenant t r (fst (SetStatus t p st r))"
  by (simp add: only_tenant_def SetStatus_def Let_def)

lemma only_tenant_result: "providerResultForTenant sv t v r s = (r', s', m) \<Longrightarrow> only_tenant t r r'"
  by (auto simp: providerResultForTenant_def Let_def split: if_splits prod.splits sum.splits)

lemma only_tenant_list: "list_items sv t vs r s = (r', s', items) \<Longrightarrow> only_tenant t r r'"
proof (induction vs arbitrary: r s r' s' items)
  case (Cons v vs)
  then show ?case by (auto split: prod.splits dest!: only_tenant_result intro: only_tenant_trans)
qed simp

lemma only_tenant_tool: "handleProviderTool sv t name args r s = (r', s', res) \<Longrightarrow> only_tenant t r r'"
  by (auto simp: handleProviderTool_def tool_list_def tool_status_def tool_connect_def tool_cancel_def tool_disconnect_def Let_def
      split: if_splits prod.splits option.splits sum.splits dest: only_tenant_result only_tenant_list)

text \<open>C15. A provider tool called by one tenant keeps to it. Whatever the tool, its arguments and the tokens,
  with the daemon behind the client: the daemon's sessions only see calls for that tenant (not even a
  token mismatch or an unknown route makes another call), and the registry keeps its providers, its
  default states and the states of every other tenant.\<close>
theorem provider_tools_isolated:
  "case handleProviderTool (live_server token base api ss og url mx) t name args r w of
     (r', w', res) \<Rightarrow> tenant_calls ss t (fst w) (fst w') \<and> only_tenant t r r'"
proof -
  obtain r' w' res where h: "handleProviderTool (live_server token base api ss og url mx) t name args r w = (r', w', res)"
    by (metis prod_cases3)
  have "tenant_calls ss t (fst w) (fst w')"
    by (rule live.tool_keeps [OF _ h]) (rule tenant_calls.none)
  then show ?thesis using only_tenant_tool [OF h] by (simp add: h)
qed

section \<open>Invoking and asking for the status\<close>

definition wrap_status :: "session_status option \<Rightarrow> daemon_error + daemon_status" where
  "wrap_status a =
     (case a of None \<Rightarrow> Inl (RemoteError 502 ''Codex session unavailable'')
      | Some st \<Rightarrow> if fits (status_js st) then Inr (status_view st) else Inl BadResponse)"

definition wrap_invoke :: "invoke_error \<times> bool + invoke_result \<Rightarrow> daemon_error + daemon_invoke_result" where
  "wrap_invoke a =
     (case a of Inl (e, deadline) \<Rightarrow> Inl (remote_invoke_error e deadline)
      | Inr x \<Rightarrow> if fits (invoke_js x) \<and> - (2 ^ 63) \<le> ir_TotalDuration x \<and> ir_TotalDuration x < 2 ^ 63
               then Inr (invoke_view x) else Inl BadResponse)"

lemma on_fst_request:
  "doJSONWithClient c (on_fst f) meth path input d w =
     (case doJSONWithClient c f meth path input d (fst w) of (s', a) \<Rightarrow> ((s', snd w), a))"
  by (auto simp: doJSONWithClient_def on_fst_def split: prod.splits sum.splits option.splits)

lemma live_status:
  assumes "t \<noteq> 0" and "dc_token c = as_token api"
  shows "client_status (Some c) (on_fst (daemon_transport (dc_baseURL c) api ss)) t w =
    (case sn_Status ss t (fst w) of (s', a) \<Rightarrow> ((s', snd w), wrap_status a))"
  using status_roundtrip [OF assms, of ss "fst w"]
  by (auto simp: client_status_def doJSON_def on_fst_request wrap_status_def split: prod.splits option.splits)

lemma live_invoke:
  assumes "t \<noteq> 0" and "dc_token c = as_token api"
  shows "client_invoke c (on_fst (daemon_transport (dc_baseURL c) api ss)) t rq w =
    (if length (js_text (request_js rq)) > max_request then (w, Inl (RemoteError 400 ''invalid request''))
     else case sn_Invoke ss t rq (fst w) of (s', a) \<Rightarrow> ((s', snd w), wrap_invoke a))"
  using invoke_roundtrip [OF assms, of ss rq "fst w"]
  by (auto simp: client_invoke_def on_fst_request wrap_invoke_def split: prod.splits sum.splits)

definition codex_args :: "gostring \<Rightarrow> gostring \<Rightarrow> gostring \<Rightarrow> gostring \<Rightarrow> targs" where
  "codex_args p model system prompt =
     [''provider'' \<mapsto> JStr p, ''model'' \<mapsto> JStr model, ''system'' \<mapsto> JStr system, ''prompt'' \<mapsto> JStr prompt]"

text \<open>What the tools promise, over the sessions alone.\<close>

definition spec_invoke :: "'s sessions \<Rightarrow> tenant \<Rightarrow> invoke_request \<Rightarrow> 's \<Rightarrow> 's \<times> ptool_result" where
  "spec_invoke ss t rq s =
     (case sn_Status ss t s of (s1, a) \<Rightarrow>
        (case wrap_status a of
           Inl e \<Rightarrow> (s1, PFail (FailDaemon ''provider status failed: '' e))
         | Inr st \<Rightarrow>
             if ds_State st \<noteq> StateConnected then (s1, PFail (FailText ''provider codex is not connected''))
             else if length (js_text (request_js rq)) > max_request
             then (s1, PFail (FailDaemon ''provider invocation failed: '' (RemoteError 400 ''invalid request'')))
             else (case sn_Invoke ss t rq s1 of (s2, b) \<Rightarrow>
                     (s2, case wrap_invoke b of
                            Inl e \<Rightarrow> PFail (FailDaemon ''provider invocation failed: '' e)
                          | Inr x \<Rightarrow> POne (di_Content x) (codex_struct x)))))"

lemma live_simps [simp]:
  "pr_daemon (live_server (Some k) base api ss og url mx) = Some \<lparr>dc_baseURL = base, dc_token = k\<rparr>"
  "pr_net (live_server token base api ss og url mx) = on_fst (daemon_transport base api ss)"
  "pr_ollama (live_server token base api ss og url mx) = on_snd og"
  "pr_ollamaURL (live_server token base api ss og url mx) = url"
  "pr_ollamaMaxTokens (live_server token base api ss og url mx) = mx"
  by (simp_all add: live_server_def)


definition ex_registry :: pregistry where
  "ex_registry = (case defaultProviderRegistry of Some r \<Rightarrow> r | None \<Rightarrow> NewProviderRegistry)"

text \<open>The default registrations do not panic; the list shows them by id.\<close>

lemma default_registry:
  "defaultProviderRegistry = Some ex_registry"
  "map pv_ID (ListProviders ex_registry) = [''claude'', ''codex'', ''ollama'']"
proof -
  have "\<not> Option.is_none defaultProviderRegistry" by code_simp
  then obtain r where r: "defaultProviderRegistry = Some r" by (auto simp: Option.is_none_def)
  show "defaultProviderRegistry = Some ex_registry" unfolding ex_registry_def r by simp
  show "map pv_ID (ListProviders ex_registry) = [''claude'', ''codex'', ''ollama'']" by code_simp
qed

lemma ex_find: "findProvider ex_registry ''codex'' = Some (default_providers ! 1)" "pv_ID (default_providers ! 1) = ''codex''"
  by (code_simp, code_simp)


section \<open>The health monitor\<close>

lemma probe_state: "status_or_default (snd (ProbeOllama tr url s)) = snd (ProbeOllama tr url s)"
  by (auto simp: ProbeOllama_def Let_def StateDisconnected_def StateConnected_def status_or_default_def
      split: prod.splits sum.splits)

lemma default_of_refresh:
  assumes "refreshOllamaStatus tr url r s = (r1, s1, e)" and "has_provider ''ollama'' r"
  shows "rg_defaults r1 ''ollama'' = Some (snd (ProbeOllama tr url s)) \<and> rg_providers r1 = rg_providers r"
  using assms probe_state [of tr url s]
  by (simp add: refreshOllamaStatus_def SetDefaultStatus_def split: prod.splits) auto

text \<open>After the first refresh and any number of ticks, whatever happens in between (as long as no provider is
  unregistered, which no operation does), the default status of Ollama is what the last probe saw.\<close>

lemma monitor_last_probe:
  assumes "\<forall>f \<in> set ticks. \<forall>r s. rg_providers (fst (f (r, s))) = rg_providers r" and "has_provider ''ollama'' r"
  shows "\<exists>s0. rg_defaults (fst (monitorOllamaStatus tr url ticks (r, s))) ''ollama'' = Some (snd (ProbeOllama tr url s0))"
proof -
  have loop: "\<exists>s0. rg_defaults (fst (monitor_ticks tr url fs (r, s))) ''ollama'' = Some (snd (ProbeOllama tr url s0))"
    if "\<forall>f \<in> set fs. \<forall>r s. rg_providers (fst (f (r, s))) = rg_providers r" and "has_provider ''ollama'' r"
      and "\<exists>s0. rg_defaults r ''ollama'' = Some (snd (ProbeOllama tr url s0))" for fs r s
    using that
  proof (induction fs arbitrary: r s)
    case (Cons f fs)
    obtain r1 s1 where f: "f (r, s) = (r1, s1)" by fastforce
    obtain r2 s2 e where ref: "refreshOllamaStatus tr url r1 s1 = (r2, s2, e)" by (metis prod_cases3)
    have p: "rg_providers r1 = rg_providers r" using Cons.prems(1) f by (metis fst_conv list.set_intros(1))
    then have "has_provider ''ollama'' r1" using Cons.prems(2) by (simp add: has_provider_def)
    from default_of_refresh [OF ref this] have "rg_defaults r2 ''ollama'' = Some (snd (ProbeOllama tr url s1))"
      and "has_provider ''ollama'' r2" using p Cons.prems(2) by (simp_all add: has_provider_def)
    then show ?case using Cons.IH [of r2 s2] Cons.prems(1) by (auto simp: f ref)
  qed simp
  obtain r1 s1 e where ref: "refreshOllamaStatus tr url r s = (r1, s1, e)" by (metis prod_cases3)
  from default_of_refresh [OF ref assms(2)] assms(2) loop [OF assms(1), of r1 s1] show ?thesis
    by (auto simp: monitorOllamaStatus_def ref has_provider_def)
qed

text \<open>A tenant without a state of its own can invoke Ollama exactly when its default is connected.\<close>

lemma ollama_gate:
  assumes "own_of t ''ollama'' r = None" and "has_provider ''ollama'' r" and "rg_defaults r ''ollama'' = Some st"
    and "pv_ID v = ''ollama''"
  shows "invoke_ollama_tool sv t v model system prompt r s =
    (if ps_State st = StateConnected
     then case InvokeOllama (pr_ollama sv) (pr_ollamaURL sv)
            \<lparr>cq_Model = model, cq_System = system, cq_Prompt = prompt, cq_MaxTokens = pr_ollamaMaxTokens sv\<rparr> s of
            (s', Inl e) \<Rightarrow> (s', PFail (FailOllama ''provider invocation failed: '' e))
          | (s', Inr res) \<Rightarrow> (s', POne (cr_Content res) (chat_struct ''ollama'' res))
     else (s, PFail (FailText ''provider ollama is not connected'')))"
  using assms
  by (simp add: invoke_ollama_tool_def status_of_def ProviderStatus_def own_of_def split: option.splits)

end
