(* ===== verification/ServerProps.thy ===== *)
theory ServerProps
  imports McpHttp McpProps ProviderProps
begin

text \<open>
  What holds of the whole server. The logs of its components are parts of one journal. A request acts
  for the tenant of its credential alone: what another tenant can see of the coordination space, the
  memories, the path dictionary and the provider states stays as it was, up to that tenant's own
  retention; a request without a credential changes nothing.
\<close>

section \<open>One journal\<close>

text \<open>A log as its next number and the numbers of its records.\<close>

definition log_sig :: "'e elog \<Rightarrow> nat \<times> nat list" where
  "log_sig l = (el_next l, map lr_seq (el_recs l))"

definition sig_grows :: "nat \<times> nat list \<Rightarrow> nat \<times> nat list \<Rightarrow> bool" where
  "sig_grows s s' \<longleftrightarrow> fst s \<le> fst s' \<and> snd s' = snd s @ [fst s..<fst s']"

lemma sig_grows_refl [simp]: "sig_grows s s"
  by (simp add: sig_grows_def)

lemma sig_grows_trans: "sig_grows a b \<Longrightarrow> sig_grows b c \<Longrightarrow> sig_grows a c"
  unfolding sig_grows_def by (metis append_assoc le_trans upt_add_eq_append le_add_diff_inverse)

abbreviation log_grows :: "'e elog \<Rightarrow> 'e elog \<Rightarrow> bool" where
  "log_grows l l' \<equiv> sig_grows (log_sig l) (log_sig l')"

lemma append_grows: "log_grows l (fst (el_append env t e l))"
  by (auto simp: el_append_def sig_grows_def log_sig_def split: option.split)

text \<open>What a call of a tenant does to a log: it appends, and records of that tenant only.\<close>

definition log_keeps :: "tenant \<Rightarrow> 'e elog \<Rightarrow> 'e elog \<Rightarrow> bool" where
  "log_keeps t l l' \<longleftrightarrow> log_grows l l' \<and> (\<forall>u. u \<noteq> t \<longrightarrow> of_tenant u l' = of_tenant u l)"

lemma log_keeps_refl [simp]: "log_keeps t l l"
  by (simp add: log_keeps_def)

lemma log_keeps_trans: "log_keeps t a b \<Longrightarrow> log_keeps t b c \<Longrightarrow> log_keeps t a c"
  unfolding log_keeps_def by (metis sig_grows_trans)

lemma append_keeps: "el_append env t e l = (l', r) \<Longrightarrow> log_keeps t l l'"
  using append_grows [of l env t e]
  by (auto simp: log_keeps_def el_append_def of_tenant_def split: option.splits)

lemma keeps_append: "log_keeps t k l \<Longrightarrow> el_append env t e l = (l', r) \<Longrightarrow> log_keeps t k l'"
  by (erule log_keeps_trans) (rule append_keeps)

definition app_sigs :: "('f, 's) app \<Rightarrow> (nat \<times> nat list) list" where
  "app_sigs a =
     [log_sig (reg_journal (mv_reg (ap_mem a))), log_sig (mv_recalls (ap_mem a)), log_sig (cs_journal (sv_chat (ap_mcp a)))] @
     (case mv_mem (ap_mem a) of None \<Rightarrow> [] | Some m \<Rightarrow> [log_sig (ms_journal m)])"

text \<open>The logs are parts of one journal: they agree on the next number, and their records are numbered from 1
  without gap or repetition.\<close>

definition one_journal :: "('f, 's) app \<Rightarrow> bool" where
  "one_journal a \<longleftrightarrow> 0 < journal_next a \<and> (\<forall>s \<in> set (app_sigs a). fst s = journal_next a) \<and>
     mset (concat (map snd (app_sigs a))) = mset [1..<journal_next a]"

definition one_log_grows :: "('f, 's) app \<Rightarrow> ('f, 's) app \<Rightarrow> bool" where
  "one_log_grows a a' \<longleftrightarrow>
     (\<exists>i s'. i < length (app_sigs a) \<and> sig_grows (app_sigs a ! i) s' \<and> app_sigs a' = (app_sigs a)[i := s'])"

lemma journal_next_Max: "journal_next a = Max (fst ` set (app_sigs a))"
  by (auto simp: journal_next_def app_sigs_def log_sig_def mem_next_def max.assoc max.commute max.left_commute
      split: option.split)

lemma align_sigs: "app_sigs (align a) = map (\<lambda>s. (journal_next a, snd s)) (app_sigs a)"
  by (auto simp: align_def align_mem_def align_mcp_def app_sigs_def log_sig_def el_to_def split: option.split)

lemma align_next [simp]: "journal_next (align a) = journal_next a"
proof -
  have "fst ` set (app_sigs (align a)) = {journal_next a}"
    by (simp add: align_sigs image_image image_constant_conv) (simp add: app_sigs_def)
  then show ?thesis by (simp add: journal_next_Max [of "align a"])
qed

lemma concat_update:
  "i < length xs \<Longrightarrow> snd s' = snd (xs ! i) @ ys \<Longrightarrow>
   mset (concat (map snd (xs[i := s']))) = mset (concat (map snd xs)) + mset ys"
  by (induction xs arbitrary: i) (auto split: nat.split simp: ac_simps)

lemma one_journal_grows:
  assumes "one_journal a" and "one_log_grows a a'"
  shows "one_journal (align a')"
proof -
  let ?n = "journal_next a"
  obtain i s' where i: "i < length (app_sigs a)" and g: "sig_grows (app_sigs a ! i) s'"
    and a': "app_sigs a' = (app_sigs a)[i := s']" using assms(2) by (auto simp: one_log_grows_def)
  have n: "fst (app_sigs a ! i) = ?n" and le: "?n \<le> fst s'" and snd: "snd s' = snd (app_sigs a ! i) @ [?n..<fst s']"
    using assms(1) g i by (auto simp: one_journal_def sig_grows_def)
  have "fst s \<le> fst s'" if "s \<in> set (app_sigs a')" for s
  proof -
    have "s = s' \<or> s \<in> set (app_sigs a)" using that unfolding a' by (meson insertE set_update_subset_insert subsetD)
    then show ?thesis using assms(1) le unfolding one_journal_def by auto
  qed
  moreover have "s' \<in> set (app_sigs a')" using i by (simp add: a' set_update_memI)
  ultimately have nx: "journal_next a' = fst s'"
    unfolding journal_next_Max by (intro Max_eqI) auto
  have "mset (concat (map snd (app_sigs a'))) = mset [1..<?n] + mset [?n..<fst s']"
    using concat_update [OF i snd] assms(1) by (simp add: a' one_journal_def)
  also have "\<dots> = mset [1..<fst s']"
    using le assms(1) upt_add_eq_append [of 1 ?n "fst s' - ?n"] by (simp add: one_journal_def)
  finally have m: "mset (concat (map snd (app_sigs a'))) = mset [1..<fst s']" .
  have "map snd (app_sigs (align a')) = map snd (app_sigs a')" by (simp add: align_sigs)
  moreover have "\<forall>s \<in> set (app_sigs (align a')). fst s = fst s'" by (simp add: align_sigs nx)
  moreover have "0 < fst s'" using assms(1) le by (simp add: one_journal_def)
  ultimately show ?thesis using m by (simp add: one_journal_def nx)
qed

text \<open>The records of the journal, counted over the logs.\<close>

definition record_count :: "('f, 's) app \<Rightarrow> nat" where
  "record_count a = sum_list (map (\<lambda>s. length (snd s)) (app_sigs a))"

lemma one_journal_count: "one_journal a \<Longrightarrow> record_count a = journal_next a - 1"
proof -
  assume "one_journal a"
  then have "size (mset (concat (map snd (app_sigs a)))) = size (mset [1..<journal_next a])"
    by (simp only: one_journal_def)
  then show ?thesis by (simp add: record_count_def length_concat comp_def)
qed

section \<open>What a call appends\<close>

lemma RecordAccess_log: "log_keeps t (reg_journal r) (reg_journal (fst (RecordAccess e1 e2 t p src r)))"
proof -
  have "log_keeps t (reg_journal r) (reg_journal (fst (Resolve e1 t p r)))"
    by (auto simp: Resolve_def Let_def split: option.split prod.split dest: append_keeps)
  then show ?thesis
    by (auto simp: RecordAccess_def split: option.split prod.split dest: keeps_append)
qed

lemma record_paths_log: "log_keeps t (reg_journal r) (reg_journal (fst (record_paths envs n t src ps r)))"
proof (induction ps arbitrary: n r)
  case (Cons p ps)
  obtain r1 i q ok where ra: "RecordAccess (fst (envs n)) (snd (envs n)) t p src r = (r1, i, q, ok)"
    by (metis prod_cases4)
  have "log_keeps t (reg_journal r) (reg_journal r1)" using RecordAccess_log [of t r] ra by (metis fst_conv)
  then show ?case using Cons.IH [of r1 "n + 1"] by (auto simp: ra split: prod.split intro: log_keeps_trans)
qed simp

lemma Remember_log: "log_keeps t (ms_journal m) (ms_journal (fst (Remember vecs env t body opts m)))"
  by (rule Remember_cases [of vecs env t body opts m]) (auto simp: added_def dest: append_keeps)

lemma Forget_log: "log_keeps t (ms_journal m) (ms_journal (fst (Forget env t i m)))"
  by (auto simp: Forget_def split: option.split prod.split dest: append_keeps)

lemma pruneAt_journal [simp]: "cs_journal (pruneAt now c) = cs_journal c"
  using pruneAt_drops [of now c] by auto

lemma posts_log: "posts t now c c' \<Longrightarrow> log_keeps t (cs_journal c) (cs_journal c')"
  by (auto simp: posts_def add_msg_def Let_def dest: append_keeps)

lemma Post_log: "log_keeps t (cs_journal c) (cs_journal (fst (Post env now t p c)))"
  using Post_shape [of env now t p c] posts_log by auto

lemma PostImage_log: "log_keeps t (cs_journal c) (cs_journal (fst (PostImage env now t p c)))"
  using PostImage_shape [of env now t p c] posts_log by auto

lemma Clear_log: "log_keeps t (cs_journal c) (cs_journal (fst (Clear env t area c)))"
  by (auto simp: Clear_def split: option.split prod.split dest: append_keeps)

lemma Pin_log: "log_keeps t (cs_journal c) (cs_journal (fst (Pin env t b on c)))"
  by (auto simp: Pin_def split: option.split prod.split dest: append_keeps)

lemma Claim_log: "log_keeps t (cs_journal c) (cs_journal (fst (Claim env t q who now c)))"
  by (auto simp: Claim_def Let_def split: option.split prod.split dest: append_keeps)

lemma ResolveTask_log: "log_keeps t (cs_journal c) (cs_journal (fst (ResolveTask env t q who st c)))"
  by (auto simp: ResolveTask_def Let_def split: option.split prod.split dest: append_keeps)

lemmas op_logs = record_paths_log Remember_log Forget_log Post_log PostImage_log Clear_log Pin_log Claim_log ResolveTask_log

section \<open>What another tenant sees of the coordination space\<close>

definition comms_view :: "tenant \<Rightarrow> comms_store \<Rightarrow>
    message list \<times> (nat \<Rightarrow> task_state option) \<times> presence list \<times> gostring set \<times> subscription list" where
  "comms_view u c =
     (filter (\<lambda>m. m_tenant m = u) (cs_entries c), \<lambda>q. TaskOf u q c, PresenceList u c,
      {b. u \<in> set (inner (cs_pinned c) b)}, filter (\<lambda>s. f_tenant (sub_filter s) = u) (map snd (hub_subs (cs_hub c))))"

text \<open>Nothing has changed, or only the retention has run.\<close>

definition comms_quiet :: "tenant \<Rightarrow> comms_store \<Rightarrow> comms_store \<Rightarrow> bool" where
  "comms_quiet u c c' \<longleftrightarrow> comms_view u c' = comms_view u c \<or> (\<exists>now. comms_view u c' = comms_view u (pruneAt now c))"

lemma pruneAt_rest [simp]:
  "cs_presence (pruneAt now c) = cs_presence c" "cs_hub (pruneAt now c) = cs_hub c"
  using pruneAt_drops [of now c] by auto

lemma distinct_seqs: "sorted_wrt (<) (map m_seq ms) \<Longrightarrow> distinct (map (\<lambda>m. (m_tenant m, m_seq m)) ms)"
  by (induction ms) auto

text \<open>Retention looks at a tenant's own messages.\<close>

lemma prune_view:
  assumes "sorted_wrt (<) (map m_seq (cs_entries c))" and "sorted_wrt (<) (map m_seq (cs_entries c'))"
    and "cs_retainN c' = cs_retainN c" and "cs_retainAge c' = cs_retainAge c"
    and v: "comms_view u c' = comms_view u c"
  shows "comms_view u (pruneAt now c') = comms_view u (pruneAt now c)"
proof (cases "cs_retainN c > 0 \<or> cs_retainAge c > 0")
  case True
  let ?own = "\<lambda>d. filter (\<lambda>m. m_tenant m = u) (cs_entries d)"
  have own: "?own c' = ?own c" using v by (simp add: comms_view_def)
  note p = pruneAt_per_tenant [OF True distinct_seqs [OF assms(1)], of u now]
  note p' = pruneAt_per_tenant [OF True [folded assms(3,4)] distinct_seqs [OF assms(2)], of u now]
  let ?fr = "\<lambda>d. filter (\<lambda>m. m_tenant m = u \<and>
      \<not> (cs_retainAge c > 0 \<and> now - cs_retainAge c > 0 \<and> m_ts m < now - cs_retainAge c)) (cs_entries d)"
  have fr: "?fr d = filter (\<lambda>m. \<not> (cs_retainAge c > 0 \<and> now - cs_retainAge c > 0 \<and> m_ts m < now - cs_retainAge c)) (?own d)" for d
    by (simp add: conj_commute)
  have own': "?own (pruneAt now c') = ?own (pruneAt now c)"
    using p p' own unfolding fr assms(3,4) by simp
  have gone: "(\<exists>m \<in> set (cs_entries d) - set (cs_entries e). m_tenant m = u \<and> m_seq m = q) \<longleftrightarrow>
      (\<exists>m \<in> set (?own d) - set (?own e). m_seq m = q)" for d e q by auto
  have "TaskOf u q (pruneAt now c') = TaskOf u q (pruneAt now c)" for q
  proof -
    have "TaskOf u q c' = TaskOf u q c" using v by (simp add: comms_view_def fun_eq_iff)
    then show ?thesis unfolding conjunct2 [OF p [of q]] conjunct2 [OF p' [of q]] gone own own' by auto
  qed
  then show ?thesis using own' v by (simp add: comms_view_def PresenceList_def)
next
  case False
  then show ?thesis using assms(3-) by (simp add: pruneAt_def not_less)
qed

text \<open>The operations of one tenant.\<close>

fun op_of :: "tenant \<Rightarrow> comms_op \<Rightarrow> bool" where
  "op_of t (OpPost _ _ t' _) \<longleftrightarrow> t' = t"
| "op_of t (OpImage _ _ t' _) \<longleftrightarrow> t' = t"
| "op_of t (OpClear _ t' _) \<longleftrightarrow> t' = t"
| "op_of t (OpClaim _ t' _ _ _) \<longleftrightarrow> t' = t"
| "op_of t (OpResolve _ t' _ _ _) \<longleftrightarrow> t' = t"
| "op_of t (OpPin _ t' _ _) \<longleftrightarrow> t' = t"
| "op_of t (OpHeartbeat t' _ _ _ _) \<longleftrightarrow> t' = t"
| "op_of t _ \<longleftrightarrow> False"

lemma view_publish: "m_tenant m \<noteq> u \<Longrightarrow> comms_view u (c\<lparr>cs_hub := hub_publish m (cs_hub c)\<rparr>) = comms_view u c"
proof -
  assume m: "m_tenant m \<noteq> u"
  have "filter (\<lambda>s. f_tenant (sub_filter s) = u) (map (\<lambda>x. offer m (snd x)) ss) =
      filter (\<lambda>s. f_tenant (sub_filter s) = u) (map snd ss)" for ss :: "(nat \<times> subscription) list"
    using m by (induction ss) (auto simp: offer_def matches_def split: option.split)
  then show ?thesis by (simp add: comms_view_def hub_publish_def PresenceList_def TaskOf_def comp_def split_def)
qed

lemma posts_quiet:
  assumes "posts t now c c'" and "comms_inv c" and "u \<noteq> t"
  shows "comms_quiet u c c'"
proof -
  obtain e p l tm env where l: "el_append env t e (cs_journal c) = (l, Some (el_next (cs_journal c)))"
    and tm: "tm = (if pl_kind p = ''task'' then seedTask t (el_next (cs_journal c)) (pl_deadline p) (cs_tasks c) else cs_tasks c)"
    and c': "c' = add_msg l (mk_message (el_next (cs_journal c)) t now p) tm c"
    using assms(1) unfolding posts_def by metis
  let ?m = "mk_message (el_next (cs_journal c)) t now p"
  let ?c1 = "c\<lparr>cs_journal := l, cs_entries := cs_entries c @ [?m], cs_tasks := tm\<rparr>"
  have "comms_view u ?c1 = comms_view u c"
    using assms(3) by (auto simp: comms_view_def TaskOf_def PresenceList_def tm)
  moreover have "sorted_wrt (<) (map m_seq (cs_entries ?c1))"
    using assms(2) by (auto simp: comms_inv_def sorted_wrt_append)
  ultimately have "comms_view u (pruneAt now ?c1) = comms_view u (pruneAt now c)"
    using assms(2) by (intro prune_view) (auto simp: comms_inv_def)
  then have "comms_view u c' = comms_view u (pruneAt now c)"
    using view_publish [of ?m u "pruneAt now ?c1"] assms(3) by (simp add: c' add_msg_def Let_def)
  then show ?thesis by (auto simp: comms_quiet_def)
qed

lemma quiet_refl [simp]: "comms_quiet u c c"
  by (simp add: comms_quiet_def)

lemma view_task:
  "u \<noteq> t \<Longrightarrow> comms_view u (c\<lparr>cs_journal := l, cs_tasks := set_task t q ts (cs_tasks c)\<rparr>) = comms_view u c"
  by (simp add: comms_view_def TaskOf_def PresenceList_def)

lemma op_quiet:
  assumes "op_of t x" and "comms_inv c" and "u \<noteq> t"
  shows "comms_quiet u c (comms_step x c)"
proof (cases x)
  case (OpPost env now t' p)
  then show ?thesis using assms Post_shape [of env now t p c] posts_quiet by auto
next
  case (OpImage env now t' p)
  then show ?thesis using assms PostImage_shape [of env now t p c] posts_quiet by auto
next
  case (OpClear env t' area)
  then have "comms_view u (comms_step x c) = comms_view u c"
    using assms by (auto simp: Clear_def comms_view_def TaskOf_def PresenceList_def in_clear_def
        split: option.split prod.split intro: filter_cong)
  then show ?thesis by (simp add: comms_quiet_def)
next
  case (OpClaim env t' q who now)
  then have "comms_view u (comms_step x c) = comms_view u c"
    using assms by (auto simp: Claim_def Let_def comms_view_def TaskOf_def PresenceList_def split: option.split prod.split)
  then show ?thesis by (simp add: comms_quiet_def)
next
  case (OpResolve env t' q who st)
  obtain c' e where r: "ResolveTask env t q who st c = (c', e)" by fastforce
  have "comms_view u c' = comms_view u c"
  proof (cases e)
    case None
    obtain ts' where "c' = c\<lparr>cs_journal := cs_journal c', cs_tasks := set_task t q ts' (cs_tasks c)\<rparr>"
      using Resolve_step [OF r [unfolded None]] by metis
    then show ?thesis using view_task [OF assms(3)] by metis
  next
    case (Some err)
    then show ?thesis using Resolve_fails r by metis
  qed
  then show ?thesis using OpResolve assms(1) r by (simp add: comms_quiet_def)
next
  case (OpPin env t' b on)
  then have "comms_view u (comms_step x c) = comms_view u c"
    using assms by (auto simp: Pin_def comms_view_def TaskOf_def PresenceList_def inner_pin_set split: option.split prod.split if_splits)
  then show ?thesis by (simp add: comms_quiet_def)
next
  case (OpHeartbeat t' agent area st now)
  then have "comms_view u (comms_step x c) = comms_view u c"
    using assms by (auto simp: Heartbeat_def comms_view_def TaskOf_def PresenceList_def inner_def update_conv')
  then show ?thesis by (simp add: comms_quiet_def)
qed (use assms in auto)

lemma op_log: "op_of t x \<Longrightarrow> log_keeps t (cs_journal c) (cs_journal (comms_step x c))"
  by (cases x) (auto simp: op_logs Heartbeat_def)

text \<open>Subscriptions have numbers below the next one.\<close>

definition hub_ok :: "hub \<Rightarrow> bool" where
  "hub_ok h \<longleftrightarrow> fst ` set (hub_subs h) \<subseteq> {..<hub_next h}"

text \<open>The operations keep the numbers.\<close>

definition same_subs :: "hub \<Rightarrow> hub \<Rightarrow> bool" where
  "same_subs h h' \<longleftrightarrow> hub_next h' = hub_next h \<and> fst ` set (hub_subs h') = fst ` set (hub_subs h)"

lemma same_subs_refl [simp]: "same_subs h h"
  by (simp add: same_subs_def)

lemma same_subs_publish [simp]: "same_subs h (hub_publish m h)"
  by (auto simp: same_subs_def hub_publish_def image_image split_def)

lemma same_subs_publish_all: "same_subs h (fold hub_publish ms h)"
proof (induction ms arbitrary: h)
  case (Cons m ms)
  then show ?case using Cons.IH [of "hub_publish m h"] same_subs_publish [of h m] by (simp add: same_subs_def)
qed simp

lemma posts_subs: "posts t now c c' \<Longrightarrow> same_subs (cs_hub c) (cs_hub c')"
  by (auto simp: posts_def add_msg_def Let_def)

lemma sweep_hub: "\<exists>ns. cs_hub (sweep_tick e1 e2 now ks c) = fold hub_publish ns (cs_hub c)"
  by (auto simp: sweep_tick_def sweepOnce_def prunePresence_def Let_def split: prod.split)

lemma op_subs: "same_subs (cs_hub c) (cs_hub (comms_step x c))"
proof (cases x)
  case (OpPost env now t p)
  then show ?thesis using Post_shape [of env now t p c] posts_subs by auto
next
  case (OpImage env now t p)
  then show ?thesis using PostImage_shape [of env now t p c] posts_subs by auto
next
  case (OpResolve env t q who st)
  have "cs_hub (fst (ResolveTask env t q who st c)) = cs_hub c"
    by (simp add: ResolveTask_def Let_def split: option.split prod.split)
  then show ?thesis using OpResolve by simp
next
  case (OpSweep e1 e2 now ks)
  then show ?thesis using sweep_hub [of e1 e2 now ks c] same_subs_publish_all by auto
qed (auto simp: Clear_def Claim_def Pin_def Heartbeat_def SetRetention_def Let_def split: option.split prod.split)

text \<open>What a call of a tenant does to the coordination space.\<close>

definition chat_keeps :: "tenant \<Rightarrow> comms_store \<Rightarrow> comms_store \<Rightarrow> bool" where
  "chat_keeps t c c' \<longleftrightarrow> log_keeps t (cs_journal c) (cs_journal c') \<and> same_subs (cs_hub c) (cs_hub c') \<and>
     (comms_inv c \<longrightarrow> comms_inv c' \<and> (\<forall>u. u \<noteq> t \<longrightarrow> comms_quiet u c c'))"

lemma chat_keeps_refl [simp]: "chat_keeps t c c"
  by (simp add: chat_keeps_def)

lemma chat_keeps_step: "op_of t x \<Longrightarrow> chat_keeps t c (comms_step x c)"
  using op_log [of t x c] op_quiet [of t x c] op_subs [of c x] comms_step_good [of c x] by (simp add: chat_keeps_def del: comms_step.simps)

lemma chat_tools_keep:
  "chat_keeps t (sv_chat sv) (sv_chat (fst (post_tool env now t args sv)))"
  "chat_keeps t (sv_chat sv) (sv_chat (fst (clear_tool env t quote args sv)))"
  "chat_keeps t (sv_chat sv) (sv_chat (fst (claim_tool env hhmm now t args sv)))"
  "chat_keeps t (sv_chat sv) (sv_chat (fst (resolve_tool env t args sv)))"
  "chat_keeps t (sv_chat sv) (sv_chat (fst (heartbeat_tool now t args sv)))"
  "chat_keeps t (sv_chat sv) (sv_chat (fst (pin_tool env t on args sv)))"
  "chat_keeps t (sv_chat sv) (sv_chat (fst (post_image_tool ie penv env now t args sv)))"
  "chat_keeps t (sv_chat sv) (sv_chat (fst (blob_gc_tool dir_ok rm_ok t sv)))"
proof (goal_cases)
  case 4
  show ?case using tool_chat_state(2) [of env t args sv] by (auto simp del: comms_step.simps simp: chat_keeps_step)
next
  case 6
  show ?case by (simp add: pin_tool_def tool_chat chat_keeps_step del: comms_step.simps split: sum.split prod.split)
next
  case 7
  have "sv_chat (fst (post_image_tool ie penv env now t args sv)) \<in>
      insert (sv_chat sv) (range (\<lambda>p. comms_step (OpImage env now t p) (sv_chat sv)))"
    by (auto simp: post_image_tool_def split_def split: sum.split)
  then show ?case by (auto simp del: comms_step.simps simp: chat_keeps_step)
next
  case 8
  show ?case by (simp add: blob_gc_tool_def split: prod.split option.split)
qed (simp_all add: tool_chat tool_chat_state chat_keeps_step del: comms_step.simps split: sum.split)

lemma chat_tools_tenant:
  "sv_tenant (fst (post_tool env now t args sv)) = sv_tenant sv"
  "sv_tenant (fst (clear_tool env t quote args sv)) = sv_tenant sv"
  "sv_tenant (fst (claim_tool env hhmm now t args sv)) = sv_tenant sv"
  "sv_tenant (fst (resolve_tool env t args sv)) = sv_tenant sv"
  "sv_tenant (fst (heartbeat_tool now t args sv)) = sv_tenant sv"
  "sv_tenant (fst (pin_tool env t on args sv)) = sv_tenant sv"
  "sv_tenant (fst (post_image_tool ie penv env now t args sv)) = sv_tenant sv"
  "sv_tenant (fst (blob_gc_tool dir_ok rm_ok t sv)) = sv_tenant sv"
proof (goal_cases)
  case 4
  show ?case using tool_chat_state(2) [of env t args sv] by auto
next
  case 7
  show ?case by (simp add: post_image_tool_def split_def split: sum.split)
next
  case 8
  show ?case by (simp add: blob_gc_tool_def split: prod.split option.split)
qed (simp_all add: tool_chat tool_chat_state pin_tool_def del: comms_step.simps split: sum.split prod.split)

section \<open>Paths and memories\<close>

definition reg_keeps :: "tenant \<Rightarrow> registry \<Rightarrow> registry \<Rightarrow> bool" where
  "reg_keeps t r r' \<longleftrightarrow> log_keeps t (reg_journal r) (reg_journal r') \<and> (\<forall>u. u \<noteq> t \<longrightarrow> reg_lookup r' u = reg_lookup r u)"

definition mem_keeps :: "tenant \<Rightarrow> 'f mem_store \<Rightarrow> 'f mem_store \<Rightarrow> bool" where
  "mem_keeps t m m' \<longleftrightarrow> log_keeps t (ms_journal m) (ms_journal m') \<and> ms_dim m' = ms_dim m \<and>
     RecallGap m' = RecallGap m \<and> (\<forall>u. u \<noteq> t \<longrightarrow> ListMems u m' = ListMems u m)"

lemma reg_keeps_refl [simp]: "reg_keeps t r r"
  by (simp add: reg_keeps_def)

lemma reg_keeps_trans: "reg_keeps t a b \<Longrightarrow> reg_keeps t b c \<Longrightarrow> reg_keeps t a c"
  unfolding reg_keeps_def by (metis log_keeps_trans)

lemma Resolve_keeps: "reg_keeps t r (fst (Resolve env t p r))"
proof (rule Resolve_cases [of r t p env])
  fix now i r'
  assume "Resolve env t p r = (r', Some i)" "reg_view r' = reg_put t p i (reg_view r)"
  moreover have "log_keeps t (reg_journal r) (reg_journal (fst (Resolve env t p r)))"
    by (auto simp: Resolve_def Let_def split: option.split prod.split dest: append_keeps)
  ultimately show ?thesis using reg_put_lookup(1) [of r' t p i r] by (auto simp: reg_keeps_def fun_eq_iff)
qed simp_all

lemma reg_keeps_journal: "log_keeps t (reg_journal r) l \<Longrightarrow> reg_keeps t r (r\<lparr>reg_journal := l\<rparr>)"
  by (simp add: reg_keeps_def reg_lookup_def fun_eq_iff)

lemma RecordAccess_keeps: "RecordAccess e1 e2 t p src r = (r', x) \<Longrightarrow> reg_keeps t r r'"
  using Resolve_keeps [of t r e1 p]
  by (auto simp: RecordAccess_def split: option.splits prod.splits
      intro: reg_keeps_trans reg_keeps_journal dest: append_keeps)

lemma record_paths_keep: "record_paths envs n t src ps r = (r', x) \<Longrightarrow> reg_keeps t r r'"
proof (induction ps arbitrary: n r x)
  case (Cons p ps)
  obtain r1 i q ok where ra: "RecordAccess (fst (envs n)) (snd (envs n)) t p src r = (r1, i, q, ok)"
    by (metis prod_cases4)
  show ?case using Cons RecordAccess_keeps [OF ra]
    by (auto simp: ra split: if_splits prod.splits intro: reg_keeps_trans)
qed simp

lemma ListMems_drop: "u \<noteq> t \<Longrightarrow> filter (\<lambda>e. me_tenant e = u) (dropEntry t i es) = filter (\<lambda>e. me_tenant e = u) es"
  by (induction es) (auto simp: dropEntry_def is_entry_def)

lemma Remember_keeps: "mem_keeps t m (fst (Remember vecs env t body opts m))"
proof -
  have "ListMems u (fst (Remember vecs env t body opts m)) = ListMems u m" if "u \<noteq> t" for u
    by (rule Remember_cases [of vecs env t body opts m]) (use that in \<open>simp_all add: added_def ListMems_def ListMems_drop\<close>)
  moreover have "ms_dim (fst (Remember vecs env t body opts m)) = ms_dim m \<and> RecallGap (fst (Remember vecs env t body opts m)) = RecallGap m"
    by (rule Remember_cases [of vecs env t body opts m]) (simp_all add: added_def)
  ultimately show ?thesis using Remember_log by (auto simp: mem_keeps_def)
qed

lemma Forget_keeps: "mem_keeps t m (fst (Forget env t i m))"
proof -
  have "ListMems u (fst (Forget env t i m)) = ListMems u m" if "u \<noteq> t" for u
    using that by (simp add: Forget_def ListMems_def ListMems_drop split: option.split prod.split)
  moreover have "ms_dim (fst (Forget env t i m)) = ms_dim m \<and> RecallGap (fst (Forget env t i m)) = RecallGap m"
    by (simp add: Forget_def split: option.split prod.split)
  ultimately show ?thesis using Forget_log by (auto simp: mem_keeps_def)
qed

inductive mem_moves :: "tenant \<Rightarrow> 'f memory_server \<Rightarrow> 'f memory_server \<Rightarrow> bool" for t mm where
  paths: "reg_keeps t (mv_reg mm) r \<Longrightarrow> mem_moves t mm (mm\<lparr>mv_reg := r\<rparr>)"
| memories: "mv_mem mm = Some m \<Longrightarrow> mem_keeps t m m' \<Longrightarrow> mem_moves t mm (mm\<lparr>mv_mem := Some m'\<rparr>)"
| recalls: "log_keeps t (mv_recalls mm) l \<Longrightarrow> mem_moves t mm (mm\<lparr>mv_recalls := l, mv_ring := ring\<rparr>)"

lemma mem_moves_refl [simp]: "mem_moves t mm mm"
  using mem_moves.paths [of t mm "mv_reg mm"] by simp

lemma mem_moves_Remember: "mv_mem mm = Some m \<Longrightarrow> Remember vecs env t body opts m = (m', r) \<Longrightarrow>
    mem_moves t mm (mm\<lparr>mv_mem := Some m'\<rparr>)"
  using Remember_keeps [of t m vecs env body opts] by (auto intro: mem_moves.memories)

lemma memory_tools_move:
  "mem_moves t mm (fst (record_access_tool envs quote t args mm))"
  "mem_moves t mm (fst (remember_tool vecs env t args mm))"
  "mem_moves t mm (fst (recall_tool vecs env fo t args mm))"
  "mem_moves t mm (fst (forget_tool env t args mm))"
  "mem_moves t mm (fst (promote_tool vecs env t args c mm))"
proof (goal_cases)
  case 1
  show ?case
    by (auto simp: record_access_tool_def Let_def split: prod.split option.split bool.split
        intro!: mem_moves.paths intro: record_paths_keep reg_keeps_journal append_keeps)
next
  case 2
  show ?case by (auto simp: remember_tool_def Let_def split: option.split sum.split prod.split intro: mem_moves_Remember)
next
  case 3
  have "mem_moves t mm (log_recall env t query k hits mm)" for query k hits
    using append_keeps [of env t _ "mv_recalls mm" "fst (el_append env t _ (mv_recalls mm))"]
    by (auto simp: log_recall_def Let_def intro!: mem_moves.recalls) (metis append_keeps prod.collapse)
  then show ?case by (simp add: recall_tool_def Let_def split: option.split sum.split)
next
  case 4
  have "mv_mem mm = Some m \<Longrightarrow> Forget env t i m = (m', r) \<Longrightarrow> mem_moves t mm (mm\<lparr>mv_mem := Some m'\<rparr>)" for m m' i r
    using Forget_keeps [of t m env i] by (auto intro: mem_moves.memories)
  then show ?case by (auto simp: forget_tool_def Let_def split: option.split sum.split prod.split)
next
  case 5
  show ?case by (auto simp: promote_tool_def Let_def split: option.split sum.split prod.split intro: mem_moves_Remember)
qed

section \<open>A call\<close>

inductive app_moves :: "tenant \<Rightarrow> ('f, 's) app \<Rightarrow> ('f, 's) app \<Rightarrow> bool" for t a where
  chat: "chat_keeps t (sv_chat (ap_mcp a)) (sv_chat m) \<Longrightarrow> sv_tenant m = sv_tenant (ap_mcp a) \<Longrightarrow>
    app_moves t a (a\<lparr>ap_mcp := m\<rparr>)"
| memory: "mem_moves t (ap_mem a) mm \<Longrightarrow> app_moves t a (a\<lparr>ap_mem := mm\<rparr>)"
| providers: "only_tenant t (ap_provs a) r \<Longrightarrow> app_moves t a (a\<lparr>ap_provs := r, ap_world := w\<rparr>)"

lemma app_moves_refl [simp]: "app_moves t a a"
  using app_moves.memory [of t a "ap_mem a"] by simp

lemma run_tool_moves: "app_moves t a (fst (run_tool cf ev t args d a))"
proof (cases d)
  case (DoProvider n)
  obtain r' w' res where h: "handleProviderTool (ac_providers cf) t n args (ap_provs a) (ap_world a) = (r', w', res)"
    by (metis prod_cases3)
  show ?thesis using app_moves.providers [OF only_tenant_tool [OF h]] by (simp add: DoProvider h)
qed (simp_all add: on_mem_def on_mcp_def app_moves.memory app_moves.chat memory_tools_move chat_tools_keep chat_tools_tenant)

text \<open>Whatever a tool does, one log grows at most.\<close>

lemma sigs_update: "i < length xs \<Longrightarrow> sig_grows (xs ! i) s' \<Longrightarrow> ys = xs[i := s'] \<Longrightarrow>
    \<exists>i s'. i < length xs \<and> sig_grows (xs ! i) s' \<and> ys = xs[i := s']"
  by blast

lemma moves_one_log:
  assumes "app_moves t a a'"
  shows "one_log_grows a a'"
  using assms
proof cases
  case (chat m)
  then show ?thesis unfolding one_log_grows_def
    by (intro sigs_update [of 2 _ "log_sig (cs_journal (sv_chat m))"])
       (auto simp: app_sigs_def chat_keeps_def log_keeps_def split: option.split)
next
  case (memory mm)
  from memory(2) show ?thesis
  proof cases
    case (paths r)
    then show ?thesis unfolding one_log_grows_def memory(1)
      by (intro sigs_update [of 0 _ "log_sig (reg_journal r)"]) (auto simp: app_sigs_def reg_keeps_def log_keeps_def)
  next
    case (memories m m')
    then show ?thesis unfolding one_log_grows_def memory(1)
      by (intro sigs_update [of 3 _ "log_sig (ms_journal m')"]) (auto simp: app_sigs_def mem_keeps_def log_keeps_def)
  next
    case (recalls l ring)
    then show ?thesis unfolding one_log_grows_def memory(1)
      by (intro sigs_update [of 1 _ "log_sig l"]) (auto simp: app_sigs_def log_keeps_def)
  qed
next
  case (providers r w)
  then show ?thesis unfolding one_log_grows_def
    by (intro sigs_update [of 0 _ "app_sigs a ! 0"]) (auto simp: app_sigs_def)
qed

text \<open>What a tenant can see of the server, besides the coordination space.\<close>

definition app_view where
  "app_view u a =
     ((of_tenant u (reg_journal (mv_reg (ap_mem a))), of_tenant u (mv_recalls (ap_mem a)),
       of_tenant u (cs_journal (sv_chat (ap_mcp a)))),
      map_option (\<lambda>m. (of_tenant u (ms_journal m), ListMems u m, ms_dim m, RecallGap m)) (mv_mem (ap_mem a)),
      reg_lookup (mv_reg (ap_mem a)) u, rg_statuses (ap_provs a) u, rg_providers (ap_provs a), rg_defaults (ap_provs a))"

definition app_inv :: "('f, 's) app \<Rightarrow> bool" where
  "app_inv a \<longleftrightarrow> one_journal a \<and> comms_inv (sv_chat (ap_mcp a)) \<and> hub_ok (cs_hub (sv_chat (ap_mcp a)))"

definition isolated :: "tenant \<Rightarrow> ('f, 's) app \<Rightarrow> ('f, 's) app \<Rightarrow> bool" where
  "isolated u a a' \<longleftrightarrow> app_view u a' = app_view u a \<and> comms_quiet u (sv_chat (ap_mcp a)) (sv_chat (ap_mcp a'))"

lemma isolated_refl [simp]: "isolated u a a"
  by (simp add: isolated_def)

lemma moves_view: "app_moves t a a' \<Longrightarrow> u \<noteq> t \<Longrightarrow> app_view u a' = app_view u a"
proof (induction rule: app_moves.induct)
  case (chat m)
  then show ?case by (simp add: app_view_def chat_keeps_def log_keeps_def)
next
  case (memory mm)
  then show ?case
    by (induction rule: mem_moves.induct) (simp_all add: app_view_def reg_keeps_def mem_keeps_def log_keeps_def)
next
  case (providers r w)
  then show ?case by (simp add: app_view_def only_tenant_def) (metis fun_upd_other)
qed

lemma align_view [simp]: "app_view u (align a) = app_view u a"
  by (simp add: app_view_def align_def align_mem_def align_mcp_def el_to_def of_tenant_def reg_lookup_def fun_eq_iff
      option.map_comp comp_def ListMems_def)

lemma align_chat: "sv_chat (ap_mcp (align a)) = (sv_chat (ap_mcp a))\<lparr>cs_journal := el_to (journal_next a) (cs_journal (sv_chat (ap_mcp a)))\<rparr>"
  by (simp add: align_def align_mcp_def)

lemma journal_next_chat: "el_next (cs_journal (sv_chat (ap_mcp a))) \<le> journal_next a"
  by (simp add: journal_next_def)

lemma align_inv: "comms_inv (sv_chat (ap_mcp a)) \<Longrightarrow> comms_inv (sv_chat (ap_mcp (align a)))"
proof -
  assume i: "comms_inv (sv_chat (ap_mcp a))"
  let ?c = "sv_chat (ap_mcp a)" and ?n = "journal_next a"
  have "el_to ?n (cs_journal ?c) = el_skip (?n - el_next (cs_journal ?c)) (cs_journal ?c)"
    using journal_next_chat [of a] by (simp add: el_to_def el_skip_def)
  then show ?thesis
    using comms_step_good [OF i, of "comms_op.OpOther (?n - el_next (cs_journal ?c))"] by (simp add: align_chat)
qed

lemma align_quiet: "comms_quiet u c (sv_chat (ap_mcp (align a))) = comms_quiet u c (sv_chat (ap_mcp a))"
proof -
  have "comms_view u (sv_chat (ap_mcp (align a))) = comms_view u (sv_chat (ap_mcp a))"
    by (simp add: align_chat comms_view_def TaskOf_def PresenceList_def)
  then show ?thesis by (simp add: comms_quiet_def)
qed

lemma hub_ok_same: "same_subs h h' \<Longrightarrow> hub_ok h \<Longrightarrow> hub_ok h'"
  by (simp add: same_subs_def hub_ok_def)

lemma moves_inv:
  assumes "app_moves t a a'" and "app_inv a"
  shows "app_inv (align a') \<and> (\<forall>u. u \<noteq> t \<longrightarrow> isolated u a (align a'))"
proof -
  have c: "chat_keeps t (sv_chat (ap_mcp a)) (sv_chat (ap_mcp a'))" using assms(1) by cases auto
  then have "comms_inv (sv_chat (ap_mcp a'))" using assms(2) by (simp add: chat_keeps_def app_inv_def)
  moreover have "hub_ok (cs_hub (sv_chat (ap_mcp (align a'))))"
    using c hub_ok_same assms(2) by (auto simp: chat_keeps_def app_inv_def align_chat)
  moreover have "one_journal (align a')"
    using one_journal_grows [OF _ moves_one_log [OF assms(1)]] assms(2) by (simp add: app_inv_def)
  moreover have "comms_quiet u (sv_chat (ap_mcp a)) (sv_chat (ap_mcp a'))" if "u \<noteq> t" for u
    using c that assms(2) by (simp add: chat_keeps_def app_inv_def)
  ultimately show ?thesis
    using moves_view [OF assms(1)] by (simp add: app_inv_def isolated_def align_inv align_quiet)
qed

lemma call_tool_keeps:
  assumes "call_tool cf ev t name args a = (a', r)" and "app_inv a"
  shows "app_inv a' \<and> (\<forall>u. u \<noteq> t \<longrightarrow> isolated u a a')"
proof (cases "map_of tool_names name")
  case None
  then show ?thesis using assms by (simp add: call_tool_def)
next
  case (Some d)
  obtain a1 r1 where t: "run_tool cf ev t args d a = (a1, r1)" by fastforce
  then have "a' = align a1" using assms(1) Some by (simp add: call_tool_def)
  moreover have "app_moves t a a1" using run_tool_moves [of t a cf ev args d] t by simp
  ultimately show ?thesis using moves_inv assms(2) by blast
qed

section \<open>Requests\<close>

lemma dispatch_keeps:
  assumes "dispatch cf ev t line a = (a', r)" and "app_inv a"
  shows "app_inv a' \<and> (\<forall>u. u \<noteq> t \<longrightarrow> isolated u a a')"
proof -
  have "callTool cf ev t params a = (a', x) \<Longrightarrow> app_inv a' \<and> (\<forall>u. u \<noteq> t \<longrightarrow> isolated u a a')" for params x
    using assms(2) by (auto simp: callTool_def split: option.splits prod.splits dest: call_tool_keeps)
  then show ?thesis using assms by (auto simp: dispatch_def Let_def split: option.splits if_splits prod.splits)
qed

lemma update_fresh: "k \<notin> fst ` set al \<Longrightarrow> AList.update k v al = al @ [(k, v)]"
  by (induction al) auto

definition subscribed :: "comms_filter \<Rightarrow> ('f, 's) app \<Rightarrow> ('f, 's) app" where
  "subscribed f a = a\<lparr>ap_mcp := (ap_mcp a)\<lparr>sv_chat := fst (Subscribe f (sv_chat (ap_mcp a)))\<rparr>\<rparr>"

lemma subscribe_shape:
  assumes "tenant_of cf now hi a = Some t"
  shows "fst (handleCommsSubscribe cf now hi a) = a \<or>
    (\<exists>f. f_tenant f = t \<and> fst (handleCommsSubscribe cf now hi a) = subscribed f a)"
  unfolding handleCommsSubscribe_def assms option.case Let_def subscribed_def
  by (auto simp: split_def intro: exI [of _ "\<lparr>f_tenant = t, f_target = query_get hi ''target'',
      f_areas = (if query_get hi ''areas'' = [] then [] else split_on CHR '','' (query_get hi ''areas''))\<rparr>"])

lemma subscribe_keeps:
  assumes "handleCommsSubscribe cf now hi a = (a', w)" and "app_inv a"
  shows "app_inv a' \<and> (case tenant_of cf now hi a of None \<Rightarrow> a' = a | Some t \<Rightarrow> \<forall>u. u \<noteq> t \<longrightarrow> isolated u a a')"
proof (cases "a' = a")
  case False
  let ?c = "sv_chat (ap_mcp a)"
  obtain t f where t: "tenant_of cf now hi a = Some t" and f: "f_tenant f = t"
    and a': "a' = subscribed f a"
  proof (cases "tenant_of cf now hi a")
    case None
    then show thesis using assms(1) False by (simp add: handleCommsSubscribe_def)
  next
    case (Some t)
    then show thesis using subscribe_shape [OF Some] that assms(1) False by auto
  qed
  have fresh: "hub_next (cs_hub ?c) \<notin> fst ` set (hub_subs (cs_hub ?c))"
    using assms(2) by (auto simp: app_inv_def hub_ok_def)
  have c: "fst (Subscribe f ?c) = ?c\<lparr>cs_hub := \<lparr>hub_next = hub_next (cs_hub ?c) + 1,
      hub_subs = hub_subs (cs_hub ?c) @ [(hub_next (cs_hub ?c), \<lparr>sub_filter = f, sub_ch = None\<rparr>)]\<rparr>\<rparr>"
    by (simp add: Subscribe_def hub_subscribe_def update_fresh [OF fresh])
  have "comms_view u (fst (Subscribe f ?c)) = comms_view u ?c" if "u \<noteq> t" for u
    using that f by (simp add: c comms_view_def PresenceList_def TaskOf_def)
  moreover have "app_inv a'"
  proof -
    have "hub_ok (cs_hub (fst (Subscribe f ?c)))"
      using assms(2) unfolding c hub_ok_def app_inv_def by (simp add: subset_iff less_Suc_eq)
    then show ?thesis using assms(2)
      by (simp add: app_inv_def a' subscribed_def c comms_inv_def one_journal_def journal_next_def app_sigs_def)
  qed
  ultimately show ?thesis by (simp add: t isolated_def comms_quiet_def app_view_def a' subscribed_def c)
qed (use assms in \<open>simp split: option.split\<close>)

text \<open>What only a tenant is answered.\<close>

fun tenant_data :: "'f web_body \<Rightarrow> bool" where
  "tenant_data (WRpc _) = True"
| "tenant_data (WCorpus _ _ _ _) = True"
| "tenant_data (WEvents _) = True"
| "tenant_data (WMessages _) = True"
| "tenant_data (WStream _ _) = True"
| "tenant_data _ = False"

lemma web_error_data [simp]: "\<not> tenant_data (wb_body (web_error hs msg code))"
  by (simp add: web_error_def)

lemma http_keeps:
  assumes "handleHTTP cf ev hi a = (a', w)" and "app_inv a"
  shows "app_inv a' \<and> (case tenant_of cf (ce_now ev) hi a of
      None \<Rightarrow> a' = a \<and> \<not> tenant_data (wb_body w) | Some t \<Rightarrow> \<forall>u. u \<noteq> t \<longrightarrow> isolated u a a')"
proof (cases "tenant_of cf (ce_now ev) hi a")
  case None
  then show ?thesis using assms by (auto simp: handleHTTP_def Let_def split: if_splits)
next
  case (Some t)
  then show ?thesis using assms
    by (auto simp: handleHTTP_def Let_def split: if_splits prod.splits option.splits dest: dispatch_keeps)
qed

lemma oauth_only: "isolated u a (a\<lparr>ap_oauth := x\<rparr>)"
  by (simp add: isolated_def app_view_def)

lemma oauth_inv: "app_inv (a\<lparr>ap_oauth := x\<rparr>) = app_inv a"
  by (simp add: app_inv_def one_journal_def journal_next_def app_sigs_def)

lemma serve_keeps:
  assumes "serve cf there oe ev hi a = (a', w)" and "app_inv a"
  shows "app_inv a' \<and> (case tenant_of cf (ce_now ev) hi a of
      None \<Rightarrow> (\<exists>oa. a' = a\<lparr>ap_oauth := oa\<rparr>) \<and> \<not> tenant_data (wb_body w)
    | Some t \<Rightarrow> \<forall>u. u \<noteq> t \<longrightarrow> isolated u a a')"
proof -
  let ?ok = "\<lambda>a' w. app_inv a' \<and> (case tenant_of cf (ce_now ev) hi a of
      None \<Rightarrow> (\<exists>oa. a' = a\<lparr>ap_oauth := oa\<rparr>) \<and> \<not> tenant_data (wb_body w)
    | Some t \<Rightarrow> \<forall>u. u \<noteq> t \<longrightarrow> isolated u a a')"
  have same: "\<exists>oa. a = a\<lparr>ap_oauth := oa\<rparr>" by (rule exI [of _ "ap_oauth a"]) simp
  have http: "?ok a' w" if "handleHTTP cf ev hi a = (a', w)"
    using http_keeps [OF that assms(2)] same by (auto split: option.splits)
  have sub: "?ok a' w" if "handleCommsSubscribe cf (ce_now ev) hi a = (a', w)"
    using subscribe_keeps [OF that assms(2)] same that
    by (auto simp: handleCommsSubscribe_def split: option.splits)
  have read: "?ok a w'" if "tenant_of cf (ce_now ev) hi a = None \<longrightarrow> \<not> tenant_data (wb_body w')" for w'
    using that assms(2) same by (auto split: option.split)
  have web: "?ok (a\<lparr>ap_oauth := oa\<rparr>) (web_oauth r)" for oa r
    using assms(2) by (auto simp: oauth_inv oauth_only web_oauth_def split: option.split)
  consider (redirect) "endpoint_of (ap_oauth a \<noteq> None) (hi_path hi) = ERedirect"
    | (corpus) "endpoint_of (ap_oauth a \<noteq> None) (hi_path hi) = ECorpus"
    | (journal) "endpoint_of (ap_oauth a \<noteq> None) (hi_path hi) = EJournal"
    | (comms) "endpoint_of (ap_oauth a \<noteq> None) (hi_path hi) = EComms"
    | (subscribe) "endpoint_of (ap_oauth a \<noteq> None) (hi_path hi) = ESubscribe"
    | (install) "endpoint_of (ap_oauth a \<noteq> None) (hi_path hi) = EInstall"
    | (download) "endpoint_of (ap_oauth a \<noteq> None) (hi_path hi) = EDownload"
    | (mcp) "endpoint_of (ap_oauth a \<noteq> None) (hi_path hi) = EMcp"
    | (oauth) "endpoint_of (ap_oauth a \<noteq> None) (hi_path hi) \<in> {EResource, EMeta, ERegister, EAuthorize, EToken}"
    by (cases "endpoint_of (ap_oauth a \<noteq> None) (hi_path hi)") auto
  then show ?thesis
  proof cases
    case oauth
    then have "handleHTTP cf ev hi a = (a', w) \<or> (\<exists>oa r. a' = a\<lparr>ap_oauth := oa\<rparr> \<and> w = web_oauth r)"
      using assms(1) by (auto simp: serve_def split: option.splits prod.splits)
    then show ?thesis using http web by (elim disjE exE conjE) (simp_all only:)
  next
    case redirect
    then show ?thesis using assms(1) read [of w] by (auto simp: serve_def)
  next
    case corpus
    then show ?thesis using assms(1) read [of w] by (auto simp: serve_def handleAdminCorpus_def)
  next
    case journal
    then show ?thesis using assms(1) read [of w] by (auto simp: serve_def handleAdminJournal_def)
  next
    case comms
    then show ?thesis using assms(1) read [of w] by (auto simp: serve_def handleAdminComms_def)
  next
    case subscribe
    then show ?thesis using assms(1) sub by (simp add: serve_def)
  next
    case install
    then show ?thesis using assms(1) read [of w] by (auto simp: serve_def handleInstallScript_def web_error_def split: if_splits)
  next
    case download
    then show ?thesis using assms(1) read [of w]
      by (auto simp: serve_def handleDownload_def Let_def web_error_def split: if_splits)
  next
    case mcp
    then show ?thesis using assms(1) http by (simp add: serve_def)
  qed
qed

section \<open>Runs\<close>

text \<open>What happens to a server: requests, lines of the stdio transport, streams and sweeps.\<close>

datatype 'f server_event =
  EvRequest oauth_env "'f call_env" http_in
| EvLine "'f call_env" "js option"
| EvTurn nat
| EvEnd nat
| EvSweep "task_key \<Rightarrow> int option" "task_key \<Rightarrow> int option" int "task_key list"

definition sweep_app :: "(task_key \<Rightarrow> int option) \<Rightarrow> (task_key \<Rightarrow> int option) \<Rightarrow> int \<Rightarrow> task_key list \<Rightarrow> ('f, 's) app \<Rightarrow> ('f, 's) app" where
  "sweep_app e1 e2 now ks a =
     align (a\<lparr>ap_mcp := (ap_mcp a)\<lparr>sv_chat := sweep_tick e1 e2 now ks (sv_chat (ap_mcp a))\<rparr>\<rparr>)"

fun app_step :: "('f::{plus,minus,times,zero,one,linorder}, 'g::{zero,divide,minus}, 's) app_conf \<Rightarrow> (gostring \<Rightarrow> bool option) \<Rightarrow>
    'f server_event \<Rightarrow> ('f, 's) app \<Rightarrow> ('f, 's) app" where
  "app_step cf there (EvRequest oe ev hi) a = fst (serve cf there oe ev hi a)"
| "app_step cf there (EvLine ev line) a = fst (dispatch cf ev (sv_tenant (ap_mcp a)) line a)"
| "app_step cf there (EvTurn i) a = fst (stream_turn i a)"
| "app_step cf there (EvEnd i) a = stream_end i a"
| "app_step cf there (EvSweep e1 e2 now ks) a = sweep_app e1 e2 now ks a"

lemma sweep_deadline_grows: "log_grows (fst st) (fst (sweep_deadline env now es k ts st))"
  by (cases st) (auto simp: sweep_deadline_def split: option.split prod.split dest: append_keeps simp: log_keeps_def)

lemma sweep_task_grows: "log_grows (fst st) (fst (sweep_task e1 e2 now es k st))"
proof -
  obtain l tm ns where st: "st = (l, tm, ns)" by (metis prod_cases3)
  have "log_grows l (fst (sweep_deadline e2 now es k ts' (l', tm', ns')))"
    if "el_append e1 (fst k) e l = (l', x)" for l' tm' ns' ts' e x
    using sweep_deadline_grows [of "(l', tm', ns')" e2 now es k ts'] append_keeps [OF that] sig_grows_trans
    by (fastforce simp: log_keeps_def)
  then show ?thesis using sweep_deadline_grows [of "(l, tm, ns)"]
    by (auto simp: st sweep_task_def Let_def split: option.split prod.split)
qed

lemma sweep_tasks_grows: "log_grows (fst st) (fst (sweep_tasks e1 e2 now es ks st))"
proof (induction ks arbitrary: st)
  case (Cons k ks)
  have "sweep_tasks e1 e2 now es (k # ks) st = sweep_tasks e1 e2 now es ks (sweep_task (e1 k) (e2 k) now es k st)"
    by (simp add: sweep_tasks_def)
  then show ?case using sig_grows_trans [OF sweep_task_grows Cons.IH] by metis
qed (simp add: sweep_tasks_def)

lemma sweep_grows: "log_grows (cs_journal c) (cs_journal (sweep_tick e1 e2 now ks c))"
  using sweep_tasks_grows [of "(cs_journal c, cs_tasks c, [])" e1 e2 now "cs_entries c" ks]
  by (auto simp: sweep_tick_def sweepOnce_def prunePresence_def Let_def split: prod.split)

lemma sweep_app_inv:
  assumes "app_inv a"
  shows "app_inv (sweep_app e1 e2 now ks a)"
proof -
  let ?c = "sv_chat (ap_mcp a)" and ?x = "OpSweep e1 e2 now ks"
  let ?a = "a\<lparr>ap_mcp := (ap_mcp a)\<lparr>sv_chat := comms_step ?x ?c\<rparr>\<rparr>"
  have g: "one_log_grows a ?a" unfolding one_log_grows_def
    by (intro sigs_update [of 2 _ "log_sig (cs_journal (comms_step ?x ?c))"])
       (use sweep_grows [of ?c e1 e2 now ks] in \<open>auto simp: app_sigs_def split: option.split\<close>)
  have "comms_inv (comms_step ?x ?c)" using comms_step_good [of ?c ?x] assms by (simp add: app_inv_def del: comms_step.simps)
  moreover have "hub_ok (cs_hub (comms_step ?x ?c))"
    using hub_ok_same [OF op_subs [of ?c ?x]] assms by (simp add: app_inv_def del: comms_step.simps)
  ultimately have "comms_inv (sv_chat (ap_mcp (align ?a)))" and "hub_ok (cs_hub (sv_chat (ap_mcp (align ?a))))"
    using align_inv [of ?a] by (simp_all add: align_chat del: comms_step.simps)
  moreover have "one_journal (align ?a)" using one_journal_grows [OF _ g] assms by (simp add: app_inv_def)
  ultimately show ?thesis by (simp add: app_inv_def sweep_app_def)
qed

lemma on_hub_inv: "app_inv a \<Longrightarrow> hub_ok (f (cs_hub (sv_chat (ap_mcp a)))) \<Longrightarrow> app_inv (on_hub f a)"
  by (simp add: app_inv_def on_hub_def one_journal_def journal_next_def app_sigs_def comms_inv_def)

lemma hub_ok_recv: "hub_ok h \<Longrightarrow> hub_ok (fst (hub_recv i h))"
proof (cases "map_of (hub_subs h) i")
  case (Some x)
  assume h: "hub_ok h"
  have "i \<in> fst ` set (hub_subs h)" using map_of_SomeD [OF Some] by force
  then have "fst ` set (AList.update i (x\<lparr>sub_ch := None\<rparr>) (hub_subs h)) = fst ` set (hub_subs h)"
    by (simp only: dom_update Un_insert_left Un_empty_left insert_absorb)
  then show ?thesis using h by (simp add: hub_recv_def hub_ok_def Some)
qed (simp add: hub_recv_def)

lemma hub_ok_cancel: "hub_ok h \<Longrightarrow> hub_ok (hub_cancel i h)"
proof -
  have "fst ` set (AList.delete i (hub_subs h)) \<subseteq> fst ` set (hub_subs h)"
    unfolding set_map [symmetric] delete_keys by auto
  then show "hub_ok h \<Longrightarrow> hub_ok (hub_cancel i h)" unfolding hub_ok_def hub_cancel_def by simp
qed

lemma app_step_inv: "app_inv a \<Longrightarrow> app_inv (app_step cf there x a)"
proof (cases x)
  case (EvRequest oe ev hi)
  assume "app_inv a"
  then show ?thesis using serve_keeps [of cf there oe ev hi a] EvRequest by (metis app_step.simps(1) prod.collapse)
next
  case (EvLine ev line)
  assume "app_inv a"
  then show ?thesis using dispatch_keeps [of cf ev _ line a] EvLine by (metis app_step.simps(2) prod.collapse)
next
  case (EvTurn i)
  assume "app_inv a"
  then show ?thesis using on_hub_inv [of a "\<lambda>h. fst (hub_recv i h)"] hub_ok_recv EvTurn
    by (auto simp: stream_turn_def app_inv_def)
next
  case (EvEnd i)
  assume "app_inv a"
  then show ?thesis using on_hub_inv [of a "hub_cancel i"] hub_ok_cancel EvEnd by (auto simp: stream_end_def app_inv_def)
qed (simp add: sweep_app_inv)

text \<open>A server on an empty directory; \<open>d\<close> is the dimension of its embedder, if it has one.\<close>

definition new_app :: "int \<Rightarrow> gostring \<Rightarrow> tenant \<Rightarrow> nat option \<Rightarrow> bool \<Rightarrow> pregistry \<Rightarrow> 's \<Rightarrow> oauthProvider option \<Rightarrow>
    ('f::zero, 's) app" where
  "new_app ttl label owner d logs provs w oa =
     \<lparr>ap_mcp = empty_server ttl label owner,
      ap_mem = \<lparr>mv_reg = NewRegistry el_empty,
        mv_mem = Option.bind d (\<lambda>d. case NewMemory el_empty d of Inl _ \<Rightarrow> None | Inr m \<Rightarrow> Some m),
        mv_recalls = el_empty, mv_ring = [], mv_logRecall = logs\<rparr>,
      ap_provs = provs, ap_world = w, ap_oauth = oa\<rparr>"

definition server_run :: "('f::{plus,minus,times,zero,one,linorder}, 'g::{zero,divide,minus}, 's) app_conf \<Rightarrow> (gostring \<Rightarrow> bool option) \<Rightarrow>
    'f server_event list \<Rightarrow> ('f, 's) app \<Rightarrow> ('f, 's) app" where
  "server_run cf there xs a = fold (app_step cf there) xs a"

lemma new_app_inv: "app_inv (new_app ttl label owner d logs provs w oa)"
proof -
  have c: "cs_journal (sv_chat (empty_server ttl label owner)) = el_empty" "cs_hub (sv_chat (empty_server ttl label owner)) = newHub"
    "comms_inv (sv_chat (empty_server ttl label owner))"
    by (simp_all add: empty_server_def) (simp_all add: comms_empty_def)
  have r: "reg_journal (NewRegistry el_empty) = el_empty" by (simp add: NewRegistry_def split: prod.split)
  have m: "ms_journal m = el_empty" if "NewMemory el_empty k = Inr m" for k and m :: "'a mem_store"
    using that by (auto simp: NewMemory_def split: sum.splits prod.splits)
  let ?a = "new_app ttl label owner d logs provs w oa :: ('a, 'b) app"
  have mem: "ms_journal m = el_empty" if "mv_mem (ap_mem ?a) = Some m" for m
    using that by (cases d; cases "NewMemory el_empty (the d) :: mem_error + 'a mem_store") (auto simp: new_app_def intro: m)
  have sigs: "s = (1, [])" if "s \<in> set (app_sigs ?a)" for s
  proof -
    have e: "log_sig el_empty = (1, [])" by (simp add: log_sig_def el_empty_def)
    have l: "reg_journal (mv_reg (ap_mem ?a)) = el_empty" "mv_recalls (ap_mem ?a) = el_empty"
      "cs_journal (sv_chat (ap_mcp ?a)) = el_empty" by (simp_all add: new_app_def r c)
    show ?thesis
    proof (cases "mv_mem (ap_mem ?a)")
      case None
      then show ?thesis using that unfolding app_sigs_def l e None by simp
    next
      case (Some m)
      then show ?thesis using that unfolding app_sigs_def l e Some option.case mem [OF Some] by simp
    qed
  qed
  have sub: "set (app_sigs ?a) \<subseteq> {(1, [])}" by (rule subsetI) (drule sigs, simp)
  have "app_sigs ?a \<noteq> []" by (simp add: app_sigs_def)
  then have all: "set (app_sigs ?a) = {(1, [])}" using sub by (simp add: subset_singleton_iff)
  have n: "journal_next ?a = 1" by (simp add: journal_next_Max all)
  have "set (map snd (app_sigs ?a)) = {[]}" by (simp only: set_map all) simp
  then have "concat (map snd (app_sigs ?a)) = []" by (simp add: concat_eq_Nil_conv)
  then have "one_journal ?a" by (simp add: one_journal_def n all)
  then show ?thesis using c by (simp add: app_inv_def new_app_def hub_ok_def newHub_def)
qed

lemma server_run_inv: "app_inv a \<Longrightarrow> app_inv (server_run cf there xs a)"
  by (induction xs arbitrary: a) (simp_all add: server_run_def app_step_inv)

lemma align_id: "one_journal a \<Longrightarrow> align a = a"
  by (cases a) (auto simp: one_journal_def align_def align_mem_def align_mcp_def el_to_def app_sigs_def log_sig_def
      split: option.splits)



section \<open>Answers\<close>

lemma access_items_own: "of_tenant t l = of_tenant t l' \<Longrightarrow> access_items t l = access_items t l'"
proof -
  have "concat (map (\<lambda>r. if lr_tenant r = t then access_item (lr_event r) else []) rs) =
      concat (map (\<lambda>r. access_item (lr_event r)) (filter (\<lambda>r. lr_tenant r = t) rs))" for rs
    by (induction rs) auto
  then have "access_items t l = concat (map (\<lambda>r. access_item (lr_event r)) (of_tenant t l))" for l
    by (simp add: access_items_def of_tenant_def)
  then show "of_tenant t l = of_tenant t l' \<Longrightarrow> access_items t l = access_items t l'" by simp
qed

lemma Recall_own:
  assumes "ListMems t m = ListMems t m'" and "ms_dim m = ms_dim m'" and "RecallGap m = RecallGap m'"
  shows "Recall vecs t k m = Recall vecs t k m'"
proof -
  have e: "map (score_entry q) (filter (\<lambda>e. me_tenant e = t) (ms_entries x)) =
      map (\<lambda>p. score_entry q \<lparr>me_tenant = t, me_mem = p\<rparr>) (ListMems t x)" for q and x :: "'a mem_store"
    by (simp add: ListMems_def score_entry_def)
  show ?thesis unfolding Recall_def e assms ..
qed

lemma area_own:
  assumes "comms_view t c = comms_view t c'"
  shows "ReadArea t area since c = ReadArea t area since c'" and "Inbox t target since c = Inbox t target since c'"
    and "Recent t n c = Recent t n c'" and "TaskOf t q c = TaskOf t q c'" and "PresenceList t c = PresenceList t c'"
proof -
  have e: "filter (\<lambda>m. m_tenant m = t) (cs_entries c) = filter (\<lambda>m. m_tenant m = t) (cs_entries c')"
    using assms by (simp add: comms_view_def)
  have f: "filter (\<lambda>m. m_tenant m = t \<and> P m) es = filter P (filter (\<lambda>m. m_tenant m = t) es)" for P es
    by (simp add: conj_commute)
  show "ReadArea t area since c = ReadArea t area since c'" "Inbox t target since c = Inbox t target since c'"
    unfolding ReadArea_def Inbox_def f e by simp_all
  show "Recent t n c = Recent t n c'" by (simp add: Recent_def e)
  show "TaskOf t q c = TaskOf t q c'" "PresenceList t c = PresenceList t c'"
    using assms by (simp_all add: comms_view_def fun_eq_iff)
qed

text \<open>The tools that only read, but for those that look at what is not the tenant's alone: blobs, the recall ring,
  the event count.\<close>

definition reading :: "tool list" where
  "reading = [DoRead, DoInbox, DoRecall, DoAnalyzeAccess]"

lemma read_own:
  assumes "comms_view t (sv_chat sv) = comms_view t (sv_chat sv')"
  shows "read_tool hhmm now t args sv = read_tool hhmm now t args sv'"
    and "inbox_tool hhmm quote now t args sv = inbox_tool hhmm quote now t args sv'"
proof -
  note own = area_own [OF assms]
  have r: "read_struct t (sv_chat sv) = read_struct t (sv_chat sv')" "read_line hhmm t (sv_chat sv) = read_line hhmm t (sv_chat sv')"
    by (simp_all add: fun_eq_iff read_struct_def read_line_def task_text_def own(4))
  then show "read_tool hhmm now t args sv = read_tool hhmm now t args sv'"
    by (simp add: read_tool_def Let_def own)
  have i: "inbox_struct t (sv_chat sv) = inbox_struct t (sv_chat sv')" "inbox_line hhmm t (sv_chat sv) = inbox_line hhmm t (sv_chat sv')"
    using r by (simp_all add: fun_eq_iff inbox_struct_def inbox_line_def task_text_def own(4))
  show "inbox_tool hhmm quote now t args sv = inbox_tool hhmm quote now t args sv'"
    by (simp add: inbox_tool_def inbox_text_def Let_def own i)
qed

lemma recall_answer_own:
  assumes "map_option (\<lambda>m. (ListMems t m, ms_dim m, RecallGap m)) (mv_mem mm) =
      map_option (\<lambda>m. (ListMems t m, ms_dim m, RecallGap m)) (mv_mem mm')"
  shows "snd (recall_tool vecs env fo t args mm) = snd (recall_tool vecs env fo t args mm')"
proof (cases "mv_mem mm")
  case None
  then show ?thesis using assms by (simp add: recall_tool_def)
next
  case (Some m)
  then obtain m' where "mv_mem mm' = Some m'" "ListMems t m = ListMems t m'" "ms_dim m = ms_dim m'" "RecallGap m = RecallGap m'"
    using assms by (cases "mv_mem mm'") auto
  then show ?thesis using Recall_own [of t m m' vecs "recall_k args"] Some
    by (simp add: recall_tool_def Let_def split: sum.split)
qed

lemma access_answer_own:
  "access_items t (reg_journal (mv_reg mm)) = access_items t (reg_journal (mv_reg mm')) \<Longrightarrow>
   analyze_access_tool ok f64 fo t mm = analyze_access_tool ok f64 fo t mm'"
  by (simp add: analyze_access_tool_def Analyze_def)

text \<open>C4. A tenant is answered from what is its own. On two servers that agree on what a tenant can see, whatever
  else they hold, the reading tools answer it the same, and so do the dashboard's journal and message
  panels. With the isolation of requests: what other tenants do does not show in these answers, but for
  the retention of the tenant's own messages.\<close>
theorem answers_from_own_view:
  assumes "app_view t a = app_view t b" and "comms_view t (sv_chat (ap_mcp a)) = comms_view t (sv_chat (ap_mcp b))"
  shows "map (\<lambda>d. snd (run_tool cf ev t args d a)) reading = map (\<lambda>d. snd (run_tool cf ev t args d b)) reading \<and>
    admin_events t a = admin_events t b \<and> Recent t n (sv_chat (ap_mcp a)) = Recent t n (sv_chat (ap_mcp b))"
proof -
  note v = assms(1) [unfolded app_view_def prod.inject]
  have mem: "map_option (\<lambda>m. (ListMems t m, ms_dim m, RecallGap m)) (mv_mem (ap_mem a)) =
      map_option (\<lambda>m. (ListMems t m, ms_dim m, RecallGap m)) (mv_mem (ap_mem b))"
    using v by (cases "mv_mem (ap_mem a)"; cases "mv_mem (ap_mem b)") auto
  have logs: "(case mv_mem (ap_mem a) of None \<Rightarrow> [] | Some m \<Rightarrow> of_tenant t (ms_journal m)) =
      (case mv_mem (ap_mem b) of None \<Rightarrow> [] | Some m \<Rightarrow> of_tenant t (ms_journal m))"
    using v by (cases "mv_mem (ap_mem a)"; cases "mv_mem (ap_mem b)") auto
  have items: "access_items t (reg_journal (mv_reg (ap_mem a))) = access_items t (reg_journal (mv_reg (ap_mem b)))"
    using v access_items_own by blast
  have "admin_events t a = admin_events t b" using v logs by (simp add: admin_events_def)
  then show ?thesis
    using area_own(3) [OF assms(2)]
    by (simp add: reading_def on_mem_def read_own [OF assms(2)] recall_answer_own [OF mem] access_answer_own [OF items])
qed

definition ex_app :: "message list \<Rightarrow> (rat, unit) app" where
  "ex_app ms = (let a = new_app 10 [] 1 (Some 2) True NewProviderRegistry () None
     in a\<lparr>ap_mcp := (ap_mcp a)\<lparr>sv_chat := (sv_chat (ap_mcp a))\<lparr>cs_entries := ms\<rparr>\<rparr>\<rparr>)"

theorem answers_from_own_view_witness:
  "\<forall>(cf :: (rat, rat, unit) app_conf) ev args.
     map (\<lambda>d. snd (run_tool cf ev 1 args d (ex_app [mk_message 1 2 5 ex_payload]))) reading =
     map (\<lambda>d. snd (run_tool cf ev 1 args d (ex_app []))) reading"
proof (intro allI)
  fix cf :: "(rat, rat, unit) app_conf" and ev args
  have "app_view 1 (ex_app [mk_message 1 2 5 ex_payload]) = app_view 1 (ex_app [])"
    and "comms_view 1 (sv_chat (ap_mcp (ex_app [mk_message 1 2 5 ex_payload]))) = comms_view 1 (sv_chat (ap_mcp (ex_app [])))"
    by (simp_all add: app_view_def comms_view_def ex_app_def Let_def PresenceList_def TaskOf_def)
  from answers_from_own_view [OF this, of cf ev args 0]
  show "map (\<lambda>d. snd (run_tool cf ev 1 args d (ex_app [mk_message 1 2 5 ex_payload]))) reading =
     map (\<lambda>d. snd (run_tool cf ev 1 args d (ex_app []))) reading" by blast
qed

section \<open>The recall ring\<close>

text \<open>The ring holds the newest 500 recalls of all tenants together.\<close>

definition recall_history :: "'f memory_server \<Rightarrow> 'f recall_ring" where
  "recall_history mm = map (\<lambda>r. (lr_tenant r, lr_event r)) (el_recs (mv_recalls mm))"

definition ring_ok :: "'f memory_server \<Rightarrow> bool" where
  "ring_ok mm \<longleftrightarrow> mv_ring mm = last_n recallRingCap (recall_history mm)"

lemma last_n_snoc: "0 < n \<Longrightarrow> last_n n (last_n n xs @ [x]) = last_n n (xs @ [x])"
  by (auto simp: last_n_def Suc_diff_le)

lemma ring_push_last: "ring_push e r = last_n recallRingCap (r @ [e])"
  by (simp add: ring_push_def last_n_def Let_def)

lemma log_recall_ring: "ring_ok mm \<Longrightarrow> ring_ok (log_recall (Some clock) t query k hits mm)"
  by (simp add: log_recall_def ring_ok_def recall_history_def el_append_def Let_def ring_push_last last_n_snoc recallRingCap_def)

lemma memory_tools_ring:
  assumes "ring_ok mm"
  shows "ring_ok (fst (record_access_tool envs quote t args mm))" and "ring_ok (fst (remember_tool vecs env t args mm))"
    and "ring_ok (fst (recall_tool vecs (Some clock) fo t args mm))" and "ring_ok (fst (forget_tool env t args mm))"
    and "ring_ok (fst (promote_tool vecs env t args c mm))"
  using assms log_recall_ring [OF assms, of clock]
  by (auto simp: record_access_tool_def remember_tool_def recall_tool_def forget_tool_def promote_tool_def Let_def ring_ok_def
      recall_history_def split: prod.split option.split sum.split bool.split)

lemma run_tool_ring:
  assumes "ring_ok (ap_mem a)" and "ce_append ev \<noteq> None"
  shows "ring_ok (ap_mem (fst (run_tool cf ev t args d a)))"
proof -
  obtain clock where "ce_append ev = Some clock" using assms(2) by auto
  then show ?thesis
    by (cases d) (use assms(1) in \<open>simp_all add: on_mem_def on_mcp_def memory_tools_ring split: prod.split\<close>)
qed

lemma align_ring: "ring_ok (ap_mem (align a)) = ring_ok (ap_mem a)"
  by (simp add: align_def align_mem_def ring_ok_def recall_history_def el_to_def)

lemma dispatch_ring:
  assumes "ring_ok (ap_mem a)" and "ce_append ev \<noteq> None"
  shows "ring_ok (ap_mem (fst (dispatch cf ev t line a)))"
proof -
  have "ring_ok (ap_mem (fst (call_tool cf ev t name args a)))" for name args
    using assms run_tool_ring [OF assms, of cf t args]
    by (simp add: call_tool_def align_ring split_def split: option.split)
  then have "ring_ok (ap_mem (fst (callTool cf ev t params a)))" for params
    using assms by (simp add: callTool_def split_def split: option.split)
  then show ?thesis using assms by (simp add: dispatch_def Let_def split_def split: option.split)
qed

lemma serve_ring:
  assumes "ring_ok (ap_mem a)" and "ce_append ev \<noteq> None"
  shows "ring_ok (ap_mem (fst (serve cf there oe ev hi a)))"
proof -
  have http: "ring_ok (ap_mem (fst (handleHTTP cf ev hi a)))"
    using assms dispatch_ring [OF assms, of cf]
    by (simp add: handleHTTP_def Let_def split_def split: option.split)
  have "ap_mem (fst (handleCommsSubscribe cf (ce_now ev) hi a)) = ap_mem a"
    by (simp add: handleCommsSubscribe_def Let_def split_def split: option.split)
  then show ?thesis using assms http
    by (simp add: serve_def split_def split: endpoint.split option.split)
qed

text \<open>The events whose append to the journal succeeds.\<close>

fun acked :: "'f server_event \<Rightarrow> bool" where
  "acked (EvRequest oe ev hi) \<longleftrightarrow> ce_append ev \<noteq> None"
| "acked (EvLine ev line) \<longleftrightarrow> ce_append ev \<noteq> None"
| "acked _ \<longleftrightarrow> True"

lemma app_step_ring: "ring_ok (ap_mem a) \<Longrightarrow> acked x \<Longrightarrow> ring_ok (ap_mem (app_step cf there x a))"
  by (cases x) (simp_all add: serve_ring dispatch_ring stream_turn_def stream_end_def on_hub_def sweep_app_def align_ring)

lemma server_run_ring: "ring_ok (ap_mem a) \<Longrightarrow> list_all acked xs \<Longrightarrow> ring_ok (ap_mem (server_run cf there xs a))"
  by (induction xs arbitrary: a) (simp_all add: server_run_def app_step_ring)

definition no_recalls :: "tenant \<Rightarrow> gostring" where
  "no_recalls t = ''recall coverage (tenant '' @ show_nat (unat t) @ ''): total=0 '' @ [CHR 0xE2, CHR 0x80, CHR 0x94] @
     '' no recalls logged yet''"

text \<open>\<^verbatim>\<open>analyze_recall\<close> counts the tenant's recalls among the newest 500 of all tenants. After any run in which the
  appends succeed, the recalls of a tenant in the ring are its own among the last 500 recall records of the
  journal, whoever made them. So 500 recalls of others leave none, and the tool then says that no
  recalls are logged yet, however many the tenant made and the journal holds.\<close>
theorem recall_ring_shared:
  assumes "list_all acked xs"
  shows "let mm = ap_mem (server_run cf there xs (new_app ttl label owner d logs provs w oa));
             newest = last_n 500 (el_recs (mv_recalls mm))
         in own_recalls t (mv_ring mm) = map lr_event (filter (\<lambda>r. lr_tenant r = t) newest) \<and>
            (t \<notin> lr_tenant ` set newest \<longrightarrow>
               analyze_recall_tool fo t mm = MText (no_recalls t))"
proof -
  define mm where "mm = ap_mem (server_run cf there xs (new_app ttl label owner d logs provs w oa))"
  let ?newest = "last_n 500 (el_recs (mv_recalls mm))"
  have "ring_ok (ap_mem (new_app ttl label owner d logs provs w oa))"
    by (simp add: ring_ok_def recall_history_def new_app_def el_empty_def last_n_def)
  then have "ring_ok mm" unfolding mm_def by (rule server_run_ring [OF _ assms])
  then have own: "own_recalls t (mv_ring mm) = map lr_event (filter (\<lambda>r. lr_tenant r = t) ?newest)"
    by (simp add: ring_ok_def own_recalls_def recall_history_def recallRingCap_def last_n_def drop_map filter_map comp_def)
  have "own_recalls t (mv_ring mm) = []" if "t \<notin> lr_tenant ` set ?newest"
    using that unfolding own by (auto simp: filter_empty_conv)
  then show ?thesis using own by (simp add: mm_def [symmetric] Let_def analyze_recall_tool_def no_recalls_def)
qed

theorem recall_ring_shared_witness:
  "\<forall>(cf :: (rat, rat, unit) app_conf) there (fo :: (rat, rat) formats).
     analyze_recall_tool fo 3 (ap_mem (server_run cf there [EvEnd 0] (new_app 10 [] 1 (Some 2) True NewProviderRegistry () None))) =
     MText (no_recalls 3)"
proof (intro allI)
  fix cf :: "(rat, rat, unit) app_conf" and there and fo :: "(rat, rat) formats"
  let ?mm = "ap_mem (server_run cf there [EvEnd 0] (new_app 10 [] 1 (Some 2) True NewProviderRegistry () None))"
  have e: "el_recs (mv_recalls ?mm) = []"
    by (simp add: server_run_def stream_end_def on_hub_def new_app_def el_empty_def)
  have "list_all acked [EvEnd 0 :: rat server_event]" by simp
  from recall_ring_shared [OF this, of cf there 10 "[]" 1 "Some 2" True NewProviderRegistry "()" None 3 fo]
  show "analyze_recall_tool fo 3 ?mm = MText (no_recalls 3)" unfolding Let_def e by (simp add: last_n_def)
qed

end
