(* ===== verification/McpReplies.thy ===== *)
theory McpReplies
  imports McpServer
begin

text \<open>
  The replies of the memory and access tools as the JSON that goes over the wire: the result builders
  \<^verbatim>\<open>toolText\<close>, \<^verbatim>\<open>toolStruct\<close>, \<^verbatim>\<open>toolErr\<close> of \<^verbatim>\<open>cmd/sentrymcp/main.go\<close>, \<^verbatim>\<open>recallStruct\<close>, and the error texts of the tools.
  Objects built from Go maps have their keys sorted. The texts of errors from below (system calls,
  the embedder) are arguments.
\<close>

definition text_content :: "gostring \<Rightarrow> js" where
  "text_content body = JsArr [JsObj [(''text'', JsStr body), (''type'', JsStr ''text'')]]"

definition toolText :: "gostring \<Rightarrow> js" where
  "toolText body = JsObj [(''content'', text_content body)]"

definition toolStruct :: "gostring \<Rightarrow> js \<Rightarrow> js" where
  "toolStruct body structured = JsObj [(''content'', text_content body), (''structuredContent'', structured)]"

definition toolErr :: "gostring \<Rightarrow> js" where
  "toolErr body = JsObj [(''content'', text_content body), (''isError'', JsBool True)]"

text \<open>\<open>num\<close> is the JSON literal of a float64.\<close>

definition recallStruct :: "('f \<Rightarrow> gostring) \<Rightarrow> gostring \<Rightarrow> 'f mem_result list \<Rightarrow> js" where
  "recallStruct num query hits =
     JsObj [(''count'', JsInt (int (length hits))),
       (''memories'', JsArr (map (\<lambda>h. JsObj
          ([(''distance'', JsNum (num (mr_score h))), (''id'', JsInt (int (mr_id h)))] @
           (if mr_tags h \<noteq> [] then [(''tags'', JsArr (map JsStr (mr_tags h)))] else []) @
           [(''text'', JsStr (mr_text h))])) hits)),
       (''query'', JsStr query)]"

text \<open>The errors below the tools: what a failed append, a failed scan and the embedder say.\<close>

record below_errors =
  be_append :: gostring
  be_scan :: gostring
  be_embed :: gostring

definition mem_error_text :: "below_errors \<Rightarrow> gostring \<Rightarrow> mem_error \<Rightarrow> gostring" where
  "mem_error_text be tool e =
     (case e of
        EmbedFailed \<Rightarrow> (if tool = ''recall'' then ''memory: embed query: '' else ''memory: embed: '') @ be_embed be
      | BadEmbedding n \<Rightarrow> ''memory: embedder returned '' @ show_nat n @ '' vectors / bad dim''
      | AppendFailed \<Rightarrow> (if tool = ''forget'' then ''memory: append forget: '' else ''memory: append: '') @ be_append be
      | DecodeFailed q \<Rightarrow> ''memory: decode record seq '' @ show_nat q
      | BadDim n d i \<Rightarrow>
          ''memory: persisted vector dim '' @ show_nat n @ '' != embedder dim '' @ show_nat d @ '' (id '' @ show_nat i @ '')'')"

definition disabled_text :: gostring where
  "disabled_text = ''semantic memory disabled: no embedder configured (start sentrymcp with -ollama URL)''"

abbreviation quoted :: "gostring \<Rightarrow> gostring" where
  "quoted s \<equiv> CHR 0x27 # s @ [CHR 0x27]"

definition mtool_error_text :: "below_errors \<Rightarrow> gostring \<Rightarrow> mtool_error \<Rightarrow> gostring" where
  "mtool_error_text be tool e =
     (case e of
        NoAccess \<Rightarrow> ''provide one of '' @ quoted ''item'' @ '', '' @ quoted ''path'' @ '', or '' @ quoted ''paths''
      | AccessAppend \<Rightarrow> ''append failed: '' @ be_append be
      | ScanFailed \<Rightarrow> ''analyze failed: '' @ be_scan be
      | MemDisabled \<Rightarrow> disabled_text
      | NeedArg a \<Rightarrow>
          if tool = ''forget'' then ''provide an '' @ quoted ''id'' @ '' to forget''
          else if tool = ''promote'' then ''provide '' @ quoted ''area'' @ '' and '' @ quoted ''seq'' @ '' to promote''
          else ''provide '' @ quoted a @ '' to '' @ tool
      | MemFailed err \<Rightarrow> tool @ '' failed: '' @ mem_error_text be tool err
      | NoMessage q area \<Rightarrow> ''message #'' @ show_nat q @ '' not found in '' @ area)"

definition mtool_js :: "below_errors \<Rightarrow> ('f \<Rightarrow> gostring) \<Rightarrow> gostring \<Rightarrow> 'f mtool_result \<Rightarrow> js" where
  "mtool_js be num tool r =
     (case r of
        MErr e \<Rightarrow> toolErr (mtool_error_text be tool e)
      | MText body \<Rightarrow> toolText body
      | MRecall body query hits \<Rightarrow> toolStruct body (recallStruct num query hits)
      | MStats body n \<Rightarrow> toolStruct body (JsObj [(''events'', JsInt (int n))]))"

text \<open>The message with a result; an absent id is written as null.\<close>

definition rpc_ok :: "js option \<Rightarrow> js \<Rightarrow> js" where
  "rpc_ok rid result =
     JsObj [(''jsonrpc'', JsStr ''2.0''), (''id'', (case rid of None \<Rightarrow> JsNull | Some i \<Rightarrow> i)), (''result'', result)]"

definition mem_reply :: "below_errors \<Rightarrow> ('f \<Rightarrow> gostring) \<Rightarrow> gostring \<Rightarrow> 'f rpc_resp option \<Rightarrow> js option" where
  "mem_reply be num tool resp =
     (case resp of
        Some r \<Rightarrow> (case rp_Answer r of RCall (AMem m) \<Rightarrow> Some (rpc_ok (rp_ID r) (mtool_js be num tool m)) | _ \<Rightarrow> None)
      | None \<Rightarrow> None)"

section \<open>Calls\<close>

text \<open>A call as the hooks and the dashboard build it, whatever the arguments.\<close>

definition tool_call :: "gostring \<Rightarrow> (gostring \<times> js) list \<Rightarrow> js" where
  "tool_call tool args =
     JsObj [(''id'', JsInt 1), (''jsonrpc'', JsStr ''2.0''), (''method'', JsStr ''tools/call''),
       (''params'', JsObj [(''arguments'', JsObj args), (''name'', JsStr tool)])]"

lemma keys_differ: "length a \<noteq> length b \<Longrightarrow> key_is a b = False"
  by (simp add: key_is_length)

lemma key_params: "\<not> key_is ''method'' ''params''" "\<not> key_is ''params'' ''method''"
  by (simp_all add: key_is_def to_lower_def lower_char_def)

lemma decode_tool_call:
  "decode_rpc (tool_call tool args) =
     Some \<lparr>rr_ID = Some (JsInt 1), rr_Method = ''tools/call'',
           rr_Params = Some (JsObj [(''arguments'', JsObj args), (''name'', JsStr tool)])\<rparr>"
  by (simp add: tool_call_def decode_rpc_def js_fields_def raw_field_def keys_differ key_params)

lemma decode_call_params:
  assumes "list_all (\<lambda>(k, v). js_floats fl v) args"
  shows "decode_call fl (Some (JsObj [(''arguments'', JsObj args), (''name'', JsStr tool)])) =
     Some (tool, fold (\<lambda>(k, v) m. m(k \<mapsto> js_value fl v)) args Map.empty)"
  using assms by (simp add: decode_call_def js_fields_def keys_differ)

lemma dispatch_tool_call:
  assumes "list_all (\<lambda>(k, v). js_floats (ac_float cf) v) args" and "map_of tool_names tool = Some d"
  shows "dispatch cf ev t (Some (tool_call tool args)) a =
     (case run_tool cf ev t (fold (\<lambda>(k, v) m. m(k \<mapsto> js_value (ac_float cf) v)) args Map.empty) d a of
        (a', r) \<Rightarrow> (align a', Some \<lparr>rp_ID = Some (JsInt 1), rp_Answer = RCall r\<rparr>))"
  using decode_call_params [OF assms(1), of tool]
  by (simp add: dispatch_def decode_tool_call callTool_def call_tool_def assms(2) split: prod.split)

end
