(* ===== verification/RecordHook.thy ===== *)
theory RecordHook
  imports McpServer Wake
begin

text \<open>
  The PostToolUse hook \<^verbatim>\<open>cmd/sentry-record\<close>: the existing files that a tool use touched become one batched
  call of the server's \<^verbatim>\<open>record_access\<close> tool. The file system (which paths are regular files) and the
  float64 reader of JSON numbers are arguments. The fields of a decoded object are given in the
  order in which Go's \<^verbatim>\<open>range\<close> meets them, each key once.
\<close>

section \<open>Paths\<close>

text \<open>\<^verbatim>\<open>filepath.Clean\<close>: the parts above the current directory stay in a relative path.\<close>

fun clean_rel :: "gostring list \<Rightarrow> gostring list \<Rightarrow> gostring list" where
  "clean_rel [] acc = rev acc"
| "clean_rel (p # ps) acc =
     (if p = [] \<or> p = ''.'' then clean_rel ps acc
      else if p = ''..'' \<and> acc \<noteq> [] \<and> hd acc \<noteq> ''..'' then clean_rel ps (tl acc)
      else clean_rel ps (p # acc))"

definition is_abs :: "gostring \<Rightarrow> bool" where
  "is_abs p \<longleftrightarrow> prefix ''/'' p"

definition path_clean :: "gostring \<Rightarrow> gostring" where
  "path_clean p =
     (if is_abs p then clean_rooted p
      else let r = join_with ''/'' (clean_rel (split_on CHR ''/'' p) []) in if r = [] then ''.'' else r)"

definition path_join2 :: "gostring \<Rightarrow> gostring \<Rightarrow> gostring" where
  "path_join2 a b =
     (if a = [] \<and> b = [] then []
      else path_clean (if a = [] then b else if b = [] then a else a @ ''/'' @ b))"

section \<open>The files of a tool use\<close>

definition beforeColon :: "gostring \<Rightarrow> gostring" where
  "beforeColon s = (let b = takeWhile (\<lambda>c. c \<noteq> CHR '':'') s in if b \<noteq> [] \<and> length b < length s then b else [])"

definition resolve_one :: "(gostring \<Rightarrow> bool) \<Rightarrow> gostring \<Rightarrow> gostring \<Rightarrow> gostring" where
  "resolve_one is_reg cwd cand =
     (if cand = [] then []
      else let p = path_clean (if is_abs cand then cand else path_join2 cwd cand) in if is_reg p then p else [])"

definition resolveFile :: "(gostring \<Rightarrow> bool) \<Rightarrow> gostring \<Rightarrow> gostring \<Rightarrow> gostring" where
  "resolveFile is_reg tok cwd =
     (let p = resolve_one is_reg cwd tok in if p \<noteq> [] then p else resolve_one is_reg cwd (beforeColon tok))"

definition str_of :: "js option \<Rightarrow> gostring" where
  "str_of v = (case v of Some (JsStr s) \<Rightarrow> s | _ \<Rightarrow> [])"

definition strField :: "(gostring \<rightharpoonup> js) \<Rightarrow> gostring \<Rightarrow> gostring list" where
  "strField input key = (let s = str_of (input key) in if s \<noteq> [] then [s] else [])"

fun collectStrings :: "js \<Rightarrow> gostring list" where
  "collectStrings (JsStr s) = [s]"
| "collectStrings (JsArr vs) = concat (map collectStrings vs)"
| "collectStrings (JsObj fs) = concat (map (\<lambda>(k, v). collectStrings v) fs)"
| "collectStrings _ = []"

abbreviation words_of :: "gostring \<Rightarrow> gostring list" where
  "words_of s \<equiv> fields_func is_space s"

text \<open>The candidate tokens of a tool use, none for a tool that touches no files.\<close>

definition candidates :: "gostring \<Rightarrow> (gostring \<rightharpoonup> js) \<Rightarrow> js option \<Rightarrow> gostring list" where
  "candidates toolName input response =
     (if toolName \<in> {''Read'', ''Edit'', ''Write'', ''MultiEdit''} then strField input ''file_path''
      else if toolName = ''NotebookEdit'' then strField input ''notebook_path''
      else if toolName = ''Bash'' then words_of (str_of (input ''command''))
      else if toolName \<in> {''Grep'', ''Glob''}
      then concat (map words_of (case response of None \<Rightarrow> [] | Some v \<Rightarrow> collectStrings v))
      else [])"

definition extractPaths :: "(gostring \<Rightarrow> bool) \<Rightarrow> gostring \<Rightarrow> (gostring \<rightharpoonup> js) \<Rightarrow> js option \<Rightarrow> gostring \<Rightarrow> gostring list" where
  "extractPaths is_reg toolName input response cwd =
     fold (\<lambda>c out. let p = resolveFile is_reg c cwd in if p = [] \<or> p \<in> set out then out else out @ [p])
       (candidates toolName input response) []"

section \<open>The hook\<close>

record record_input =
  ri_ToolName :: gostring
  ri_ToolInput :: "gostring \<rightharpoonup> js"
  ri_ToolResponse :: "js option"
  ri_Cwd :: gostring

fun input_field :: "(gostring \<Rightarrow> rat option) \<Rightarrow> (gostring \<times> js) list \<Rightarrow> (gostring \<rightharpoonup> js) \<times> bool \<Rightarrow> (gostring \<rightharpoonup> js) \<times> bool" where
  "input_field fl [] r = r"
| "input_field fl ((k, v) # fs) (m, ok) =
     input_field fl fs
       (if \<not> key_is ''tool_input'' k then (m, ok)
        else case v of
               JsObj gs \<Rightarrow> (m ++ map_of (rev gs), ok \<and> js_floats fl v)
             | JsNull \<Rightarrow> (Map.empty, ok)
             | _ \<Rightarrow> (m, False))"

definition parseHook :: "(gostring \<Rightarrow> rat option) \<Rightarrow> js option \<Rightarrow> record_input option" where
  "parseHook fl b =
     (case Option.bind b js_fields of None \<Rightarrow> None
      | Some fs \<Rightarrow>
          (case input_field fl fs (Map.empty, True) of (input, ok) \<Rightarrow>
             if ok \<and> str_ok fs ''tool_name'' \<and> str_ok fs ''cwd'' \<and>
                list_all (\<lambda>(k, v). key_is ''tool_response'' k \<longrightarrow> js_floats fl v) fs
             then Some \<lparr>ri_ToolName = get_str ''tool_name'' fs, ri_ToolInput = input,
                        ri_ToolResponse = raw_field ''tool_response'' fs, ri_Cwd = get_str ''cwd'' fs\<rparr>
             else None))"

definition buildCallBody :: "gostring list \<Rightarrow> gostring \<Rightarrow> js" where
  "buildCallBody paths src =
     JsObj [(''id'', JsInt 1), (''jsonrpc'', JsStr ''2.0''), (''method'', JsStr ''tools/call''),
       (''params'', JsObj [(''arguments'', JsObj [(''paths'', JsArr (map JsStr paths)), (''src'', JsStr src)]),
                         (''name'', JsStr ''record_access'')])]"

text \<open>The request to send, with the bearer token if there is one; \<open>wd\<close> is the working directory.\<close>

definition post_request :: "wake_config \<Rightarrow> js \<Rightarrow> http_request" where
  "post_request cfg b =
     \<lparr>hq_Method = ''POST'', hq_Target = wc_url cfg,
      hq_Headers = (''Content-Type'', ''application/json'') #
        (if wc_token cfg \<noteq> [] then [(''Authorization'', ''Bearer '' @ wc_token cfg)] else []),
      hq_Body = Some [b]\<rparr>"

definition run :: "(gostring \<Rightarrow> rat option) \<Rightarrow> (gostring \<Rightarrow> bool) \<Rightarrow> gostring \<Rightarrow> wake_config \<Rightarrow> js option \<Rightarrow> http_request option" where
  "run fl is_reg wd cfg raw =
     (case parseHook fl raw of
        None \<Rightarrow> None
      | Some h \<Rightarrow>
          let cwd = (if ri_Cwd h = [] then wd else ri_Cwd h);
              paths = extractPaths is_reg (ri_ToolName h) (ri_ToolInput h) (ri_ToolResponse h) cwd
          in if paths = [] \<or> wc_url cfg = [] then None
             else Some (post_request cfg (buildCallBody paths (ri_ToolName h))))"

section \<open>The paths are canonical\<close>

definition plain_part :: "gostring \<Rightarrow> bool" where
  "plain_part p \<longleftrightarrow> p \<noteq> [] \<and> p \<noteq> ''.'' \<and> p \<noteq> ''..'' \<and> CHR ''/'' \<notin> set p"

lemma split_on_parts: "p \<in> set (split_on c s) \<Longrightarrow> c \<notin> set p"
  by (induction s arbitrary: p) (auto split: list.splits if_splits)

lemma split_join: "list_all (\<lambda>p. c \<notin> set p) ps \<Longrightarrow> ps \<noteq> [] \<Longrightarrow> split_on c (join_with [c] ps) = ps"
proof (induction ps rule: induct_list012)
  case (3 p q ps)
  then show ?case using split_on_append [of c p "join_with [c] (q # ps)"] by simp
qed (simp_all add: split_on_none)

lemma clean_parts_plain:
  "list_all plain_part acc \<Longrightarrow> list_all (\<lambda>p. CHR ''/'' \<notin> set p) ps \<Longrightarrow> list_all plain_part (clean_parts ps acc)"
proof (induction ps arbitrary: acc)
  case (Cons p ps)
  have "list_all plain_part (tl acc)" using Cons.prems(1) by (cases acc) auto
  then show ?case using Cons by (simp add: plain_part_def [of p])
qed (simp add: list_all_iff)

lemma clean_parts_id: "list_all plain_part ps \<Longrightarrow> clean_parts ps acc = rev acc @ ps"
  by (induction ps arbitrary: acc) (auto simp: plain_part_def)

lemma clean_rooted_idem: "clean_rooted (clean_rooted s) = clean_rooted s"
proof -
  define ps where "ps = clean_parts (split_on CHR ''/'' s) []"
  have pl: "list_all plain_part ps"
    unfolding ps_def by (rule clean_parts_plain) (auto simp: list_all_iff dest: split_on_parts)
  then have sl: "list_all (\<lambda>p. CHR ''/'' \<notin> set p) ps" by (auto simp: list_all_iff plain_part_def)
  have "clean_parts (split_on CHR ''/'' (CHR ''/'' # join_with ''/'' ps)) [] = ps"
    using split_join [OF sl] clean_parts_id [OF pl, of "[]"] by (cases "ps = []") simp_all
  then show ?thesis by (simp add: clean_rooted_def ps_def [symmetric])
qed

lemma is_abs_rooted [simp]: "is_abs (clean_rooted s)"
  by (simp add: is_abs_def clean_rooted_def)

lemma path_clean_abs: "is_abs p \<Longrightarrow> path_clean p = clean_rooted p \<and> is_abs (path_clean p)"
  by (simp add: path_clean_def)

lemma resolve_one_canonical:
  assumes "is_abs cwd" and "resolve_one is_reg cwd cand \<noteq> []"
  shows "is_reg (resolve_one is_reg cwd cand)" "is_abs (resolve_one is_reg cwd cand)"
    "path_clean (resolve_one is_reg cwd cand) = resolve_one is_reg cwd cand"
proof -
  define q where "q = (if is_abs cand then cand else path_join2 cwd cand)"
  have "is_abs q"
    using assms(1) path_clean_abs [of "cwd @ ''/'' @ cand"] path_clean_abs [of cwd]
    by (cases cwd) (auto simp: q_def path_join2_def is_abs_def)
  then have c: "is_abs (path_clean q)" "path_clean (path_clean q) = path_clean q"
    by (simp_all add: path_clean_abs clean_rooted_idem)
  have "resolve_one is_reg cwd cand = path_clean q" "is_reg (path_clean q)"
    using assms(2) by (simp_all add: resolve_one_def q_def [symmetric] Let_def split: if_splits)
  then show "is_reg (resolve_one is_reg cwd cand)" "is_abs (resolve_one is_reg cwd cand)"
    "path_clean (resolve_one is_reg cwd cand) = resolve_one is_reg cwd cand" using c by simp_all
qed

lemma resolveFile_canonical:
  assumes "is_abs cwd" and "resolveFile is_reg tok cwd \<noteq> []"
  shows "is_reg (resolveFile is_reg tok cwd) \<and> is_abs (resolveFile is_reg tok cwd) \<and>
         path_clean (resolveFile is_reg tok cwd) = resolveFile is_reg tok cwd"
  using resolve_one_canonical [OF assms(1)] assms(2) by (auto simp: resolveFile_def Let_def split: if_splits)

lemma extract_fold:
  "distinct out \<Longrightarrow> [] \<notin> set out \<Longrightarrow>
   (let r = fold (\<lambda>c out. let p = f c in if p = [] \<or> p \<in> set out then out else out @ [p]) cs out
    in distinct r \<and> set r = set out \<union> {p. p \<noteq> [] \<and> p \<in> f ` set cs})"
proof (induction cs arbitrary: out)
  case (Cons c cs)
  define out1 where "out1 = (if f c = [] \<or> f c \<in> set out then out else out @ [f c])"
  have o: "distinct out1" "[] \<notin> set out1" "set out1 = set out \<union> {p. p \<noteq> [] \<and> p = f c}"
    using Cons.prems by (auto simp: out1_def)
  show ?case using Cons.IH [OF o(1,2)] o(3) by (auto simp: Let_def out1_def)
qed auto

lemma extractPaths_set:
  "distinct (extractPaths is_reg toolName input response cwd) \<and>
   set (extractPaths is_reg toolName input response cwd) =
     {p. p \<noteq> [] \<and> p \<in> (\<lambda>c. resolveFile is_reg c cwd) ` set (candidates toolName input response)}"
  using extract_fold [of "[]" "\<lambda>c. resolveFile is_reg c cwd" "candidates toolName input response"]
  by (simp add: extractPaths_def Let_def)

text \<open>What the record hook reports are files and only files, each once and by one name: for an absolute
  working directory the extracted paths are distinct, are exactly what the candidate tokens of the
  tool use resolve to, and each is an absolute, already clean path of an existing regular file. The
  same file named through \<^verbatim>\<open>.\<close>, \<^verbatim>\<open>..\<close> or doubled slashes is never counted twice.\<close>
theorem extractPaths_canonical:
  assumes "is_abs cwd"
  shows "distinct (extractPaths is_reg toolName input response cwd) \<and>
         set (extractPaths is_reg toolName input response cwd) =
           {p. p \<noteq> [] \<and> p \<in> (\<lambda>c. resolveFile is_reg c cwd) ` set (candidates toolName input response)} \<and>
         list_all (\<lambda>p. is_reg p \<and> is_abs p \<and> path_clean p = p) (extractPaths is_reg toolName input response cwd)"
  using extractPaths_set [of is_reg toolName input response cwd] resolveFile_canonical [OF assms, of is_reg]
  by (auto simp: list_all_iff)

definition sample_files :: "gostring \<Rightarrow> bool" where
  "sample_files p \<longleftrightarrow> p = ''/w/a.go'' \<or> p = ''/w/b''"

lemma extractPaths_canonical_witness:
  "let ps = extractPaths sample_files ''Bash'' [''command'' \<mapsto> JsStr ''cat ./x/../a.go b //w/a.go:3 -n''] None ''/w''
   in ps = [''/w/a.go'', ''/w/b''] \<and> list_all (\<lambda>p. path_clean p = p) ps"
proof -
  have "is_abs ''/w''" by (simp add: is_abs_def)
  from extractPaths_canonical [OF this, of sample_files "''Bash''"
      "[''command'' \<mapsto> JsStr ''cat ./x/../a.go b //w/a.go:3 -n'']" None]
  have "list_all (\<lambda>p. path_clean p = p) (extractPaths sample_files ''Bash''
      [''command'' \<mapsto> JsStr ''cat ./x/../a.go b //w/a.go:3 -n''] None ''/w'')" by (simp add: list_all_iff)
  moreover have "extractPaths sample_files ''Bash'' [''command'' \<mapsto> JsStr ''cat ./x/../a.go b //w/a.go:3 -n''] None ''/w'' =
      [''/w/a.go'', ''/w/b'']"
    by code_simp
  ultimately show ?thesis by (simp add: Let_def)
qed

end
