(* ===== verification/RecallHook.thy ===== *)
theory RecallHook
  imports McpServer Wake
begin

text \<open>
  The SessionStart hook \<^verbatim>\<open>cmd/sentry-recall/main.go\<close>: it builds a query from the git remote and the README of
  the project, asks the server's \<^verbatim>\<open>recall\<close> tool, and injects the answer into the session. The two files
  it reads and the reply to its request are arguments. Lengths are in bytes, as in the source.
\<close>

section \<open>The query\<close>

definition maxQueryLen :: nat where "maxQueryLen = 500"

definition queryFromCwd :: "gostring \<Rightarrow> gostring" where
  "queryFromCwd cwd0 = (let cwd = trim_right_char CHR ''/'' cwd0 in if cwd = [] then [] else path_base cwd)"

text \<open>\<^verbatim>\<open>strings.LastIndex(s, ":")\<close> and the text behind it; \<^verbatim>\<open>strings.Trim(s, "/")\<close>.\<close>

definition after_last :: "char \<Rightarrow> gostring \<Rightarrow> gostring" where
  "after_last c s = rev (takeWhile (\<lambda>x. x \<noteq> c) (rev s))"

definition trim_char :: "char \<Rightarrow> gostring \<Rightarrow> gostring" where
  "trim_char c s = trim_right_char c (dropWhile (\<lambda>x. x = c) s)"

definition slugFromURL :: "gostring \<Rightarrow> gostring" where
  "slugFromURL url0 =
     (if url0 = [] then []
      else
        let url1 = trim_suffix ''.git'' url0;
            url =
              (if prefix ''git@'' url1 then after_last CHR '':'' url1
               else
                 let u = (case cut ''://'' url1 of None \<Rightarrow> url1 | Some (_, r) \<Rightarrow> r)
                 in case cut ''/'' u of None \<Rightarrow> u | Some (_, r) \<Rightarrow> r);
            parts = split_on CHR ''/'' (trim_char CHR ''/'' url)
        in if length parts < 2 then []
           else parts ! (length parts - 2) @ ''/'' @ parts ! (length parts - 1))"

definition origin_header :: gostring where
  "origin_header = ''[remote '' @ [CHR 0x22] @ ''origin'' @ [CHR 0x22] @ '']''"

text \<open>The url of the section of the origin remote: the first one stops the scan.\<close>

fun origin_url :: "gostring list \<Rightarrow> bool \<Rightarrow> gostring" where
  "origin_url [] inOrigin = []"
| "origin_url (ln0 # lns) inOrigin =
     (let t = trim_space ln0
      in if prefix ''['' t then origin_url lns (t = origin_header)
         else if \<not> inOrigin then origin_url lns inOrigin
         else case cut ''='' t of
                None \<Rightarrow> origin_url lns inOrigin
              | Some (k, v) \<Rightarrow> if trim_space k = ''url'' then trim_space v else origin_url lns inOrigin)"

text \<open>\<open>config\<close> is what \<^verbatim>\<open>.git/config\<close> holds, \<open>None\<close> when it cannot be read.\<close>

definition gitSlug :: "gostring option \<Rightarrow> gostring" where
  "gitSlug config = (case config of None \<Rightarrow> [] | Some d \<Rightarrow> slugFromURL (origin_url (split_on CHR 0x0A d) False))"

definition clean_line :: "gostring \<Rightarrow> gostring" where
  "clean_line s = trim_space (dropWhile (\<lambda>c. c \<in> {CHR ''#'', CHR ''>'', CHR '' ''}) (trim_space s))"

definition to_upper :: "gostring \<Rightarrow> gostring" where
  "to_upper s = map (\<lambda>c. let n = of_char c :: nat in if 97 \<le> n \<and> n \<le> 122 then char_of (n - 32) else c) s"

text \<open>The entries of the directory, sorted by name, with whether each is a directory and what the file
  holds (\<open>None\<close>: it cannot be opened); \<open>None\<close> when the directory cannot be read.\<close>

type_synonym dir_entries = "(gostring \<times> bool \<times> gostring option) list option"

definition readme_of :: "dir_entries \<Rightarrow> gostring option" where
  "readme_of entries =
     (case entries of None \<Rightarrow> None
      | Some es \<Rightarrow> (case find (\<lambda>(name, isdir, _). \<not> isdir \<and> prefix ''README'' (to_upper name)) es of
                     None \<Rightarrow> None | Some (_, _, data) \<Rightarrow> data))"

text \<open>The index loops of the source, as the lines not yet passed.\<close>

definition intro_parts :: "gostring list \<Rightarrow> gostring list" where
  "intro_parts lines =
     (let blank_line = (\<lambda>l. clean_line l = []); ls = dropWhile blank_line lines
      in case ls of [] \<Rightarrow> []
         | h # rest \<Rightarrow> clean_line h # map clean_line (takeWhile (\<lambda>l. \<not> blank_line l) (dropWhile blank_line rest)))"

definition readmeIntro :: "dir_entries \<Rightarrow> gostring" where
  "readmeIntro entries =
     (case readme_of entries of None \<Rightarrow> []
      | Some d \<Rightarrow>
          take maxQueryLen
            (join_with '' '' (fields_func is_space (join_with '' '' (intro_parts (split_on CHR 0x0A (take 1024 d)))))))"

definition buildQuery :: "gostring \<Rightarrow> gostring option \<Rightarrow> dir_entries \<Rightarrow> gostring" where
  "buildQuery cwd config entries =
     (let slug = gitSlug config; intro = readmeIntro entries;
          q = (if slug \<noteq> [] \<and> intro \<noteq> [] then slug @ '': '' @ intro
               else if slug \<noteq> [] then slug
               else if intro \<noteq> [] then intro
               else queryFromCwd cwd)
      in take maxQueryLen q)"

section \<open>The call and its answer\<close>

definition shouldInject :: "gostring \<Rightarrow> bool" where
  "shouldInject source \<longleftrightarrow> source \<noteq> ''compact'' \<and> source \<noteq> ''clear''"

definition buildRecallBody :: "gostring \<Rightarrow> int \<Rightarrow> js" where
  "buildRecallBody query k =
     JsObj [(''id'', JsInt 1), (''jsonrpc'', JsStr ''2.0''), (''method'', JsStr ''tools/call''),
       (''params'', JsObj [(''arguments'', JsObj [(''k'', JsInt k), (''query'', JsStr query)]),
                         (''name'', JsStr ''recall'')])]"

text \<open>The struct that the reply is decoded into: the texts of \<^verbatim>\<open>result.content\<close>. A field given twice is
  decoded into the same place; the server writes each once, and the last is taken.\<close>

definition content_texts :: "js \<Rightarrow> gostring list option" where
  "content_texts v =
     (case v of
        JsArr vs \<Rightarrow> those (map (\<lambda>x. Option.bind (js_fields x) (\<lambda>fs. if str_ok fs ''text'' then Some (get_str ''text'' fs) else None)) vs)
      | JsNull \<Rightarrow> Some []
      | _ \<Rightarrow> None)"

definition sub_field :: "gostring \<Rightarrow> js \<Rightarrow> js option" where
  "sub_field name v =
     map_option (\<lambda>fs. case raw_field name fs of None \<Rightarrow> JsNull | Some x \<Rightarrow> x) (js_fields v)"

definition parseRecallText :: "js option \<Rightarrow> gostring" where
  "parseRecallText b =
     (case Option.bind (Option.bind (Option.bind b (sub_field ''result'')) (sub_field ''content'')) content_texts of
        None \<Rightarrow> [] | Some [] \<Rightarrow> [] | Some (t # _) \<Rightarrow> t)"

definition maxContext :: nat where "maxContext = 10000"

definition context_header :: gostring where
  "context_header =
     ''## Matrix Sentry '' @ dash @ '' relevant memories for this project'' @ nl @
     ''(retrieved automatically; use what'' @ [CHR 0x27] @ ''s relevant, ignore the rest)'' @ nl @ nl"

text \<open>The payload written to stdout, \<open>None\<close> when nothing is written. (Marshalling replaces a rune that the
  byte limit cut apart.)\<close>

definition hook_output :: "gostring \<Rightarrow> js" where
  "hook_output ctx =
     JsObj [(''hookSpecificOutput'',
       JsObj [(''additionalContext'', JsStr ctx), (''hookEventName'', JsStr ''SessionStart'')])]"

definition formatOutput :: "gostring \<Rightarrow> js option" where
  "formatOutput recallText =
     (let t = trim_space recallText
      in if t = [] \<or> prefix ''no '' (to_lower t) then None
         else Some (hook_output (take maxContext (context_header @ t))))"

record recall_input =
  rc_Cwd :: gostring
  rc_Source :: gostring

definition parseHook :: "js option \<Rightarrow> recall_input option" where
  "parseHook b =
     (case Option.bind b js_fields of None \<Rightarrow> None
      | Some fs \<Rightarrow> if str_ok fs ''cwd'' \<and> str_ok fs ''source''
                   then Some \<lparr>rc_Cwd = get_str ''cwd'' fs, rc_Source = get_str ''source'' fs\<rparr> else None)"

text \<open>What the hook learns from outside: its working directory, the files below a directory, and the reply
  to a request (\<open>None\<close>: none within five seconds, or no JSON within 1 MB).\<close>

record recall_env =
  re_wd :: gostring
  re_config :: "gostring \<Rightarrow> gostring option"
  re_entries :: "gostring \<Rightarrow> dir_entries"
  re_reply :: "js \<Rightarrow> js option"

definition recall :: "recall_env \<Rightarrow> gostring \<Rightarrow> gostring" where
  "recall env query = parseRecallText (re_reply env (buildRecallBody query 5))"

definition run :: "recall_env \<Rightarrow> gostring \<Rightarrow> js option \<Rightarrow> js option" where
  "run env url raw =
     (case parseHook raw of
        None \<Rightarrow> None
      | Some h \<Rightarrow>
          if \<not> shouldInject (rc_Source h) then None
          else
            let cwd = (if rc_Cwd h = [] then re_wd env else rc_Cwd h);
                query = buildQuery cwd (re_config env cwd) (re_entries env cwd)
            in if query = [] \<or> url = [] then None else formatOutput (recall env query))"

end
