(* ===== verification/HookProps.thy ===== *)
theory HookProps
  imports ServerProps McpReplies RecordHook RecallHook
begin

text \<open>
  The hooks against the server they call: what the record hook posts is exactly what the server
  journals, and what the recall hook injects for every outcome of the server's search.
\<close>

section \<open>Calls are understood\<close>

lemma buildCallBody_call: "buildCallBody paths src = tool_call ''record_access'' [(''paths'', JsArr (map JsStr paths)), (''src'', JsStr src)]"
  by (simp add: buildCallBody_def tool_call_def)

lemma buildRecallBody_call: "buildRecallBody q k = tool_call ''recall'' [(''k'', JsInt k), (''query'', JsStr q)]"
  by (simp add: buildRecallBody_def tool_call_def)

section \<open>Accesses\<close>

text \<open>The accesses of a tenant in a log: the items with their sources, in order.\<close>

definition accesses :: "tenant \<Rightarrow> reg_event elog \<Rightarrow> (nat \<times> gostring) list" where
  "accesses t l = concat (map (\<lambda>r. if lr_tenant r = t then (case lr_event r of AccessEv i s \<Rightarrow> [(i, s)] | _ \<Rightarrow> []) else []) (el_recs l))"

lemma accesses_append:
  "accesses t (fst (el_append (Some now) t e l)) = accesses t l @ (case e of AccessEv i s \<Rightarrow> [(i, s)] | _ \<Rightarrow> [])"
  by (simp add: accesses_def el_append_def)

lemma Resolve_acked:
  "\<exists>i r'. Resolve (Some now) t p r = (r', Some i) \<and> reg_lookup r' t p = Some i \<and>
     accesses t (reg_journal r') = accesses t (reg_journal r) \<and>
     (\<forall>q j. reg_lookup r t q = Some j \<longrightarrow> reg_lookup r' t q = Some j)"
proof (cases "reg_lookup r t p")
  case (Some i)
  then show ?thesis by (auto simp: Resolve_def)
next
  case None
  let ?i = "get0 (reg_nextID r) t + 1"
  obtain ps ids where p: "reg_put t p ?i (reg_paths r, reg_nextID r) = (ps, ids)" by (metis surj_pair)
  define r' where "r' = r\<lparr>reg_journal := fst (el_append (Some now) t (PathMap ?i p) (reg_journal r)),
    reg_paths := ps, reg_nextID := ids\<rparr>"
  have r': "Resolve (Some now) t p r = (r', Some ?i)"
    "reg_journal r' = fst (el_append (Some now) t (PathMap ?i p) (reg_journal r))"
    "reg_view r' = reg_put t p ?i (reg_view r)"
    using None p by (simp_all add: Resolve_def el_append_def reg_view_def r'_def)
  then show ?thesis
    using None reg_put_lookup(1) [OF r'(3)] by (auto simp: accesses_append)
qed

lemma record_paths_acked:
  assumes "\<And>n. \<exists>x y. envs n = (Some x, Some y)"
  shows "\<exists>r' ids. record_paths envs n t src ps r = (r', Some ids) \<and> map (reg_lookup r' t) ps = map Some ids \<and>
     accesses t (reg_journal r') = accesses t (reg_journal r) @ map (\<lambda>i. (i, src)) ids \<and>
     (\<forall>q j. reg_lookup r t q = Some j \<longrightarrow> reg_lookup r' t q = Some j)"
proof (induction ps arbitrary: n r)
  case (Cons p ps)
  obtain x y where e: "envs n = (Some x, Some y)" using assms by blast
  obtain i r1 where r1: "Resolve (Some x) t p r = (r1, Some i)" "reg_lookup r1 t p = Some i"
    "accesses t (reg_journal r1) = accesses t (reg_journal r)"
    "\<forall>q j. reg_lookup r t q = Some j \<longrightarrow> reg_lookup r1 t q = Some j"
    using Resolve_acked by blast
  define r2 where "r2 = r1\<lparr>reg_journal := fst (el_append (Some y) t (AccessEv i src) (reg_journal r1))\<rparr>"
  have l2: "reg_lookup r2 = reg_lookup r1" by (simp add: r2_def reg_lookup_def fun_eq_iff)
  have R: "RecordAccess (Some x) (Some y) t p src r = (r2, i, el_next (reg_journal r1), True)"
    using r1(1) by (simp add: RecordAccess_def r2_def el_append_def)
  obtain r' ids where r': "record_paths envs (n + 1) t src ps r2 = (r', Some ids)" "map (reg_lookup r' t) ps = map Some ids"
    "accesses t (reg_journal r') = accesses t (reg_journal r2) @ map (\<lambda>i. (i, src)) ids"
    "\<forall>q j. reg_lookup r2 t q = Some j \<longrightarrow> reg_lookup r' t q = Some j"
    using Cons.IH by blast
  have "record_paths envs n t src (p # ps) r = (r', Some (i # ids))" using r'(1) by (simp add: e R)
  moreover have "reg_lookup r' t p = Some i" using r'(4) r1(2) l2 by simp
  ultimately show ?case
    using r'(2-4) r1(3,4) l2 by (simp add: r2_def accesses_append)
qed (simp add: accesses_def)

lemma nonempty_strings_all: "[] \<notin> set ps \<Longrightarrow> nonempty_strings (map (\<lambda>p. ToolArgs.JStr p) ps) = ps"
  by (induction ps) auto

lemma hook_record_args:
  assumes "[] \<notin> set paths" and "paths \<noteq> []"
  shows "pathArgs [''paths'' \<mapsto> ToolArgs.JArr (map (\<lambda>p. ToolArgs.JStr p) paths), ''src'' \<mapsto> ToolArgs.JStr src] = paths"
    and "arg_str [''paths'' \<mapsto> ToolArgs.JArr (map (\<lambda>p. ToolArgs.JStr p) paths), ''src'' \<mapsto> ToolArgs.JStr src] ''src'' = src"
  using nonempty_strings_all [OF assms(1)] by (simp_all add: pathArgs_def strArg_def)

lemma align_reg: "reg_lookup (mv_reg (ap_mem (align a))) = reg_lookup (mv_reg (ap_mem a))"
  "accesses t (reg_journal (mv_reg (ap_mem (align a)))) = accesses t (reg_journal (mv_reg (ap_mem a)))"
  by (simp_all add: align_def align_mem_def el_to_def accesses_def reg_lookup_def fun_eq_iff)

lemma record_dispatched:
  assumes "[] \<notin> set paths" and "paths \<noteq> []" and "\<And>n. \<exists>x y. ce_accesses ev n = (Some x, Some y)"
    and a': "a' = fst (dispatch cf ev t (Some (buildCallBody paths src)) a)"
  shows "\<exists>ids. map (reg_lookup (mv_reg (ap_mem a')) t) paths = map Some ids \<and>
     accesses t (reg_journal (mv_reg (ap_mem a'))) =
       accesses t (reg_journal (mv_reg (ap_mem a))) @ map (\<lambda>i. (i, src)) ids"
proof -
  let ?args = "[''paths'' \<mapsto> ToolArgs.JArr (map (\<lambda>p. ToolArgs.JStr p) paths), ''src'' \<mapsto> ToolArgs.JStr src]"
  have fl: "list_all (\<lambda>(k, v). js_floats (ac_float cf) v) [(''paths'', JsArr (map JsStr paths)), (''src'', JsStr src)]"
    by (simp add: list_all_iff)
  have tn: "map_of tool_names ''record_access'' = Some DoRecordAccess" by (simp add: tool_names_def)
  have ar: "fold (\<lambda>(k, v) m. m(k \<mapsto> js_value (ac_float cf) v)) [(''paths'', JsArr (map JsStr paths)), (''src'', JsStr src)]
      Map.empty = ?args"
    by (simp add: comp_def)
  obtain r' ids where p: "record_paths (ce_accesses ev) 0 t src paths (mv_reg (ap_mem a)) = (r', Some ids)"
    "map (reg_lookup r' t) paths = map Some ids"
    "accesses t (reg_journal r') = accesses t (reg_journal (mv_reg (ap_mem a))) @ map (\<lambda>i. (i, src)) ids"
    using record_paths_acked [of "ce_accesses ev" 0 t src paths "mv_reg (ap_mem a)"] assms(3) by blast
  have m: "mv_reg (fst (record_access_tool (ce_accesses ev) q t ?args (ap_mem a))) = r'" for q
    unfolding record_access_tool_def hook_record_args [OF assms(1,2)] by (simp add: p(1) assms(2))
  have "a' = align (a\<lparr>ap_mem := fst (record_access_tool (ce_accesses ev) (fo_quote (ac_formats cf)) t ?args (ap_mem a))\<rparr>)"
    unfolding a' buildCallBody_call dispatch_tool_call [OF fl tn] ar by (simp add: on_mem_def)
  with p show ?thesis by (auto simp: align_reg m)
qed


definition sample_use :: "js option" where
  "sample_use = Some (JsObj [(''tool_name'', JsStr ''Read''), (''tool_input'', JsObj [(''file_path'', JsStr ''a.go'')]),
     (''cwd'', JsStr ''/w'')])"

abbreviation clocked :: "rat call_env \<Rightarrow> rat call_env" where
  "clocked ev \<equiv> ev\<lparr>ce_accesses := (\<lambda>_. (Some 1, Some 2))\<rparr>"


section \<open>Memories\<close>

lemma trim_space_head: "\<not> is_space c \<Longrightarrow> \<exists>r. trim_space (c # s) = c # r"
  by (auto simp: trim_space_def trim_left_def dropWhile_append) (metis rev_rev_ident)

lemma trim_space_keep: "\<not> is_space b \<Longrightarrow> \<not> is_space c \<Longrightarrow> \<exists>r. trim_space (b # w @ c # s) = b # w @ c # r"
  by (auto simp: trim_space_def trim_left_def dropWhile_append) (metis rev_rev_ident)

lemma trim_right_head: "c \<noteq> x \<Longrightarrow> \<exists>r. trim_right_char x (c # s) = c # r"
  by (auto simp: trim_right_char_def dropWhile_append) (metis rev_rev_ident)

lemma formatOutput_shown:
  assumes "\<not> is_space c" and "lower_char c \<noteq> CHR ''n''"
  shows "formatOutput (c # s) = Some (hook_output (take maxContext (context_header @ trim_space (c # s))))"
  using trim_space_head [OF assms(1), of s] assms(2) by (auto simp: formatOutput_def Let_def to_lower_def)

lemma parse_reply:
  "parseRecallText (Some (rpc_ok rid (toolErr body))) = body"
  "parseRecallText (Some (rpc_ok rid (toolText body))) = body"
  "parseRecallText (Some (rpc_ok rid (toolStruct body st))) = body"
  by (simp_all add: parseRecallText_def sub_field_def rpc_ok_def toolErr_def toolText_def toolStruct_def text_content_def
      content_texts_def js_fields_def raw_field_def key_is_def to_lower_def lower_char_def)

lemma disabled_shown: "formatOutput disabled_text = Some (hook_output (context_header @ disabled_text))"
proof -
  have t: "trim_space disabled_text = disabled_text" by code_simp
  have c: "\<not> is_space (CHR ''s'')" "lower_char (CHR ''s'') \<noteq> CHR ''n''" by code_simp+
  have "length (context_header @ disabled_text) \<le> 300" by code_simp
  then have l: "length (context_header @ disabled_text) \<le> maxContext" by (simp only: maxContext_def)
  have d: "disabled_text = CHR ''s'' # tl disabled_text" by code_simp
  have "formatOutput disabled_text = Some (hook_output (take maxContext (context_header @ trim_space disabled_text)))"
    using formatOutput_shown [OF c] d by metis
  then show ?thesis unfolding t take_all [OF l] .
qed

lemma recalls_shown:
  assumes "hits \<noteq> []"
  shows "formatOutput (formatRecall fo q hits) = Some (hook_output (take maxContext (context_header @ trim_space (formatRecall fo q hits))))"
proof -
  obtain c s where n: "show_nat (length hits) = c # s" "is_digit c"
    using show_nat_digits [of "length hits"] by (cases "show_nat (length hits)") auto
  then have c: "\<not> is_space c" "lower_char c \<noteq> CHR ''n''" "c \<noteq> CHR 0x0A"
    by (auto simp: is_space_def is_digit_def lower_char_def Let_def)
  have "\<exists>r. formatRecall fo q hits = c # r"
    unfolding formatRecall_def n(1) append_Cons if_not_P [OF assms] by (rule trim_right_head [OF c(3)])
  then show ?thesis using formatOutput_shown [OF c(1,2)] by auto
qed

lemma no_recalls_hidden: "formatOutput (formatRecall fo q []) = None"
proof -
  have "\<not> is_space (CHR ''n'')" "\<not> is_space (CHR ''m'')" by code_simp+
  then obtain r where "trim_space (formatRecall fo q []) = CHR ''n'' # ''o '' @ CHR ''m'' # r"
    using trim_space_keep [of "CHR ''n''" "CHR ''m''" "''o ''"] by (fastforce simp: formatRecall_def)
  moreover have "prefix ''no '' (to_lower (CHR ''n'' # ''o '' @ CHR ''m'' # r))"
    by (simp add: to_lower_def lower_char_def)
  ultimately show ?thesis by (simp add: formatOutput_def)
qed

lemma failure_shown:
  "formatOutput (mtool_error_text be ''recall'' (MemFailed e)) =
     Some (hook_output (take maxContext (context_header @ trim_space (mtool_error_text be ''recall'' (MemFailed e)))))"
proof -
  have "\<not> is_space (CHR ''r'')" "lower_char (CHR ''r'') \<noteq> CHR ''n''" by code_simp+
  moreover have "mtool_error_text be ''recall'' (MemFailed e) = CHR ''r'' # tl (mtool_error_text be ''recall'' (MemFailed e))"
    by (simp add: mtool_error_text_def)
  ultimately show ?thesis using formatOutput_shown [of "CHR ''r''"] by metis
qed

lemma no_memory_shown: "formatOutput (mtool_error_text be tool MemDisabled) = Some (hook_output (context_header @ disabled_text))"
  by (simp add: mtool_error_text_def disabled_shown)

text \<open>What the server answers to the hook's call.\<close>

lemma recall_reply:
  assumes "ac_float cf ''5'' = Some 5" and "q \<noteq> []"
  shows "mem_reply be num ''recall'' (snd (dispatch cf ev t (Some (buildRecallBody q 5)) a)) =
    Some (rpc_ok (Some (JsInt 1)) (mtool_js be num ''recall''
      (case mv_mem (ap_mem a) of
         None \<Rightarrow> MErr MemDisabled
       | Some m \<Rightarrow> (case Recall (ce_vecs ev) t 5 m of
                     Inl e \<Rightarrow> MErr (MemFailed e)
                   | Inr hits \<Rightarrow> MRecall (formatRecall (ac_formats cf) q hits) q hits))))"
proof -
  let ?args = "[''k'' \<mapsto> ToolArgs.JNum 5, ''query'' \<mapsto> ToolArgs.JStr q]"
  have five: "show_int 5 = ''5''" by code_simp
  have fl: "list_all (\<lambda>(k, v). js_floats (ac_float cf) v) [(''k'', JsInt 5), (''query'', JsStr q)]"
    using assms(1) by (simp add: five)
  have tn: "map_of tool_names ''recall'' = Some DoRecall" by (simp add: tool_names_def)
  have ar: "fold (\<lambda>(k, v) m. m(k \<mapsto> js_value (ac_float cf) v)) [(''k'', JsInt 5), (''query'', JsStr q)] Map.empty = ?args"
    using assms(1) by (simp add: five)
  have k: "recall_k ?args = 5" by (simp add: recall_k_def numArg_def f64_to_i64_def)
  have s: "arg_str ?args ''query'' = q" by (simp add: strArg_def)
  show ?thesis
    unfolding buildRecallBody_call dispatch_tool_call [OF fl tn] ar
    using assms(2)
    by (simp add: mem_reply_def on_mem_def recall_tool_def k s split: option.split sum.split prod.split)
qed

text \<open>C25. What a session starts with, for every outcome at the server. When the recall hook asks a server whose
  memory holds hits, they are injected as the server renders them (up to the byte limit); with no hits
  nothing is injected. But the hook does not look at \<^verbatim>\<open>isError\<close>: when the server has no memory, or when its
  embedder fails, the text of the error is injected as the memories of the project.\<close>
theorem recall_hook_outcome:
  assumes "RecallHook.parseHook raw = Some h" and "shouldInject (rc_Source h)" and "url \<noteq> []"
    and "cwd = (if rc_Cwd h = [] then re_wd env else rc_Cwd h)"
    and "q = buildQuery cwd (re_config env cwd) (re_entries env cwd)" and "q \<noteq> []"
    and "\<forall>b. re_reply env b = mem_reply be num ''recall'' (snd (dispatch cf ev t (Some b) a))"
    and "ac_float cf ''5'' = Some 5"
  shows "RecallHook.run env url raw =
    (case mv_mem (ap_mem a) of
       None \<Rightarrow> Some (hook_output (context_header @ disabled_text))
     | Some m \<Rightarrow>
         (case Recall (ce_vecs ev) t 5 m of
            Inl e \<Rightarrow> Some (hook_output (take maxContext (context_header @ trim_space (mtool_error_text be ''recall'' (MemFailed e)))))
          | Inr hits \<Rightarrow>
              if hits = [] then None
              else Some (hook_output (take maxContext (context_header @ trim_space (formatRecall (ac_formats cf) q hits))))))"
proof -
  let ?r = "case mv_mem (ap_mem a) of
         None \<Rightarrow> MErr MemDisabled
       | Some m \<Rightarrow> (case Recall (ce_vecs ev) t 5 m of
                     Inl e \<Rightarrow> MErr (MemFailed e)
                   | Inr hits \<Rightarrow> MRecall (formatRecall (ac_formats cf) q hits) q hits)"
  have run: "RecallHook.run env url raw = formatOutput (parseRecallText (Some (rpc_ok (Some (JsInt 1)) (mtool_js be num ''recall'' ?r))))"
    using assms(1-6) recall_reply [OF assms(8,6), of be num ev t a] assms(7)
    by (simp add: RecallHook.run_def recall_def Let_def)
  show ?thesis
    unfolding run
    by (simp add: mtool_js_def parse_reply failure_shown no_memory_shown no_recalls_hidden recalls_shown
        del: take_append split: option.split sum.split)
qed

lemma ex_app_memory: "\<exists>m. mv_mem (ap_mem (ex_app [])) = Some m \<and> Recall None t 5 m = Inl EmbedFailed"
  by (simp add: ex_app_def new_app_def Let_def NewMemory_def el_scan_def el_empty_def Recall_def check_embedding_def)

lemma recall_hook_outcome_witness:
  "\<forall>(cf :: (rat, rat, unit) app_conf) (ev :: rat call_env) be num.
     RecallHook.run
       \<lparr>re_wd = ''/'', re_config = (\<lambda>_. None), re_entries = (\<lambda>_. None),
        re_reply = (\<lambda>b. mem_reply be num ''recall''
          (snd (dispatch (cf\<lparr>ac_float := (\<lambda>_. Some 5)\<rparr>) (ev\<lparr>ce_vecs := None\<rparr>) 1 (Some b) (ex_app []))))\<rparr>
       ''u'' (Some (JsObj [(''cwd'', JsStr ''/p/proj/'')])) =
     Some (hook_output (take maxContext (context_header @ trim_space (mtool_error_text be ''recall'' (MemFailed EmbedFailed)))))"
proof (intro allI)
  fix cf :: "(rat, rat, unit) app_conf" and ev :: "rat call_env" and be num
  let ?cf = "cf\<lparr>ac_float := (\<lambda>_. Some 5)\<rparr>" and ?ev = "ev\<lparr>ce_vecs := None\<rparr>"
  let ?env = "\<lparr>re_wd = ''/'', re_config = (\<lambda>_. None), re_entries = (\<lambda>_. None),
        re_reply = (\<lambda>b. mem_reply be num ''recall'' (snd (dispatch ?cf ?ev 1 (Some b) (ex_app []))))\<rparr>"
  have h: "RecallHook.parseHook (Some (JsObj [(''cwd'', JsStr ''/p/proj/'')])) = Some \<lparr>rc_Cwd = ''/p/proj/'', rc_Source = []\<rparr>"
    by (simp add: RecallHook.parseHook_def js_fields_def keys_differ)
  have q: "buildQuery ''/p/proj/'' None None = ''proj''" by code_simp
  obtain m where m: "mv_mem (ap_mem (ex_app [])) = Some m" "Recall None 1 5 m = Inl EmbedFailed"
    using ex_app_memory by blast
  show "RecallHook.run ?env ''u'' (Some (JsObj [(''cwd'', JsStr ''/p/proj/'')])) =
     Some (hook_output (take maxContext (context_header @ trim_space (mtool_error_text be ''recall'' (MemFailed EmbedFailed)))))"
    using recall_hook_outcome [OF h _ _ refl refl, of "''u''" ?env be num ?cf ?ev 1 "ex_app []"] q m
    by (simp add: shouldInject_def)
qed

end
