(* ===== verification/Quantizer.thy ===== *)
theory Quantizer
  imports Prelude "HOL-Library.Monad_Syntax"
begin

text \<open>
  The vector arithmetic, k-means and the product quantizer of \<^verbatim>\<open>pq/\<close> and \<^verbatim>\<open>ivf/coarse.go\<close>,
  \<^verbatim>\<open>kmeans.go\<close>, \<^verbatim>\<open>engine.go\<close>. float32 and float64 are two linearly ordered types with the source's
  arithmetic and conversions (no NaN; nothing is assumed about rounding). \<open>None\<close> is a panic: an
  index or slice out of range. The random source is a state with its two draws. Proved: what
  k-means returns in size and shape, hence exactly when encoding works and when it panics.
\<close>

section \<open>Floats, slices and distances\<close>

record ('f, 'g) floats =
  f64 :: "'f \<Rightarrow> 'g"
  f32 :: "'g \<Rightarrow> 'f"
  maxFloat64 :: 'g
  inverse_count :: "nat \<Rightarrow> 'g"
  float32bits :: "'f \<Rightarrow> u32"

record ('g, 'r) random =
  rnd_new :: "int \<Rightarrow> 'r"
  rnd_Intn :: "nat \<Rightarrow> 'r \<Rightarrow> nat \<times> 'r"
  rnd_Float64 :: "'r \<Rightarrow> 'g \<times> 'r"

type_synonym 'f vec = "'f list"

definition nth_opt :: "'a list \<Rightarrow> nat \<Rightarrow> 'a option" where
  "nth_opt xs i = (if i < length xs then Some (xs ! i) else None)"

definition slice_of :: "'a list \<Rightarrow> nat \<Rightarrow> nat \<Rightarrow> 'a list option" where
  "slice_of xs start n = (if start + n \<le> length xs then Some (take n (drop start xs)) else None)"

fun sq_loop :: "('f, 'g::{plus,minus,times}) floats \<Rightarrow> 'f vec \<Rightarrow> 'f vec \<Rightarrow> 'g \<Rightarrow> 'g option" where
  "sq_loop fl [] b s = Some s"
| "sq_loop fl (x # a) [] s = None"
| "sq_loop fl (x # a) (y # b) s = (let d = f64 fl x - f64 fl y in sq_loop fl a b (s + d * d))"

definition sqL2 :: "('f, 'g::{zero,plus,minus,times}) floats \<Rightarrow> 'f vec \<Rightarrow> 'f vec \<Rightarrow> 'g option" where
  "sqL2 fl a b = sq_loop fl a b 0"

fun sub :: "'f::minus vec \<Rightarrow> 'f vec \<Rightarrow> 'f vec option" where
  "sub [] b = Some []"
| "sub (x # a) [] = None"
| "sub (x # a) (y # b) = map_option (Cons (x - y)) (sub a b)"

text \<open>The loop that keeps the first index with the smallest distance, starting from \<^verbatim>\<open>math.MaxFloat64\<close>.\<close>

fun closest :: "('c \<Rightarrow> 'g::linorder option) \<Rightarrow> nat \<Rightarrow> nat \<Rightarrow> 'g \<Rightarrow> 'c list \<Rightarrow> nat option" where
  "closest dist c i bestD [] = Some i"
| "closest dist c i bestD (x # xs) =
     do { d \<leftarrow> dist x; if d < bestD then closest dist (c + 1) c d xs else closest dist (c + 1) i bestD xs }"

definition nearest :: "('f, 'g::{linorder,zero,plus,minus,times}) floats \<Rightarrow> 'f vec list \<Rightarrow> 'f vec \<Rightarrow> nat option" where
  "nearest fl centroids v = closest (\<lambda>cen. sqL2 fl cen v) 0 0 (maxFloat64 fl) centroids"

section \<open>k-means\<close>

fun pick :: "'g::{linorder,plus} list \<Rightarrow> 'g \<Rightarrow> 'g \<Rightarrow> nat \<Rightarrow> nat \<Rightarrow> nat" where
  "pick [] acc target i n = n"
| "pick (d # ds) acc target i n =
     (if acc + d \<ge> target then i else pick ds (acc + d) target (i + 1) n)"

definition refresh :: "('f, 'g::{linorder,zero,plus,minus,times}) floats \<Rightarrow> 'f vec \<Rightarrow> 'f vec list \<Rightarrow> 'g list \<Rightarrow> 'g list option" where
  "refresh fl nc points d2 =
     those (map (\<lambda>(p, d). do { dd \<leftarrow> sqL2 fl p nc; Some (if dd < d then dd else d) }) (zip points d2))"

text \<open>Seeding: \<open>todo\<close> counts the centroids still to choose.\<close>

fun seed_loop :: "('f, 'g::{linorder,zero,plus,minus,times}) floats \<Rightarrow> ('g, 'r) random \<Rightarrow> 'f vec list \<Rightarrow> nat \<Rightarrow>
    'f vec list \<Rightarrow> 'g list \<Rightarrow> 'r \<Rightarrow> ('f vec list \<times> 'r) option" where
  "seed_loop fl ra points 0 cens d2 rng = Some (cens, rng)"
| "seed_loop fl ra points (Suc todo) cens d2 rng =
     (if foldl (+) 0 d2 = 0
      then case rnd_Intn ra (length points) rng of (i, rng1) \<Rightarrow>
        do { p \<leftarrow> nth_opt points i; seed_loop fl ra points todo (cens @ [p]) d2 rng1 }
      else case rnd_Float64 ra rng of (x, rng1) \<Rightarrow>
        do { nc \<leftarrow> nth_opt points (pick d2 0 (x * foldl (+) 0 d2) 0 (length points - 1));
             d2' \<leftarrow> refresh fl nc points d2;
             seed_loop fl ra points todo (cens @ [nc]) d2' rng1 })"

definition kmeansppInit :: "('f, 'g::{linorder,zero,plus,minus,times}) floats \<Rightarrow> ('g, 'r) random \<Rightarrow> 'f vec list \<Rightarrow> nat \<Rightarrow>
    'r \<Rightarrow> ('f vec list \<times> 'r) option" where
  "kmeansppInit fl ra points k rng =
     (case rnd_Intn ra (length points) rng of (i, rng1) \<Rightarrow>
        do { f \<leftarrow> nth_opt points i;
             d2 \<leftarrow> those (map (\<lambda>p. sqL2 fl p f) points);
             seed_loop fl ra points (k - 1) [f] d2 rng1 })"

text \<open>The update step: per cell, the mean of its members in input order, or a random point.\<close>

fun add_vec :: "('f, 'g::plus) floats \<Rightarrow> 'g list \<Rightarrow> 'f vec \<Rightarrow> 'g list option" where
  "add_vec fl [] p = Some []"
| "add_vec fl (s # ss) [] = None"
| "add_vec fl (s # ss) (x # p) = map_option (Cons (s + f64 fl x)) (add_vec fl ss p)"

fun sum_members :: "('f, 'g::plus) floats \<Rightarrow> nat \<Rightarrow> 'f vec list \<Rightarrow> nat list \<Rightarrow> 'g list \<Rightarrow> 'g list option" where
  "sum_members fl c (p # ps) (a # as) s =
     (if a = c then do { s' \<leftarrow> add_vec fl s p; sum_members fl c ps as s' } else sum_members fl c ps as s)"
| "sum_members fl c ps as s = Some s"

fun update_cells :: "('f, 'g::{zero,plus,times}) floats \<Rightarrow> ('g, 'r) random \<Rightarrow> 'f vec list \<Rightarrow> nat list \<Rightarrow> nat \<Rightarrow>
    nat \<Rightarrow> 'f vec list \<Rightarrow> 'r \<Rightarrow> ('f vec list \<times> 'r) option" where
  "update_cells fl ra points assign dim c [] rng = Some ([], rng)"
| "update_cells fl ra points assign dim c (old # olds) rng =
     (let n = count_list assign c
      in if n = 0
         then case rnd_Intn ra (length points) rng of (i, rng1) \<Rightarrow>
           do { p \<leftarrow> nth_opt points i;
                (cens, rng2) \<leftarrow> update_cells fl ra points assign dim (c + 1) olds rng1;
                Some (p # cens, rng2) }
         else do { s \<leftarrow> sum_members fl c points assign (replicate dim 0);
                   _ \<leftarrow> slice_of old 0 dim;
                   (cens, rng2) \<leftarrow> update_cells fl ra points assign dim (c + 1) olds rng;
                   Some ((map (\<lambda>x. f32 fl (x * inverse_count fl n)) s @ drop dim old) # cens, rng2) })"

text \<open>Lloyd's iterations: \<open>todo\<close> remain, \<open>first\<close> marks the first, which never stops early.\<close>

fun lloyd :: "('f vec list \<Rightarrow> 'f vec \<Rightarrow> nat option) \<Rightarrow> ('f, 'g::{zero,plus,times}) floats \<Rightarrow> ('g, 'r) random \<Rightarrow>
    'f vec list \<Rightarrow> nat \<Rightarrow> nat \<Rightarrow> bool \<Rightarrow> nat list \<Rightarrow> 'f vec list \<Rightarrow> 'r \<Rightarrow> 'f vec list option" where
  "lloyd near fl ra points dim 0 first assign cens rng = Some cens"
| "lloyd near fl ra points dim (Suc todo) first assign cens rng =
     do { assign' \<leftarrow> those (map (near cens) points);
          (cens', rng') \<leftarrow> update_cells fl ra points assign' dim 0 cens rng;
          if assign' = assign \<and> \<not> first then Some cens'
          else lloyd near fl ra points dim todo False assign' cens' rng' }"

definition kmeans_with :: "('f vec list \<Rightarrow> 'f vec \<Rightarrow> nat option) \<Rightarrow>
    ('f, 'g::{linorder,zero,plus,minus,times}) floats \<Rightarrow> ('g, 'r) random \<Rightarrow> 'f vec list \<Rightarrow> nat \<Rightarrow> nat \<Rightarrow> 'r \<Rightarrow>
    'f vec list option" where
  "kmeans_with near fl ra points k maxIter rng =
     (case points of [] \<Rightarrow> Some []
      | p # _ \<Rightarrow>
          do { (cens, rng1) \<leftarrow> kmeansppInit fl ra points (min k (length points)) rng;
               lloyd near fl ra points (length p) maxIter True
                 (replicate (length points) 0) cens rng1 })"

definition kmeans where
  "kmeans fl = kmeans_with (\<lambda>cens p. closest (sqL2 fl p) 0 0 (maxFloat64 fl) cens) fl"

definition coarseKMeans where
  "coarseKMeans fl ra points k maxIter seed = kmeans_with (nearest fl) fl ra points k maxIter (rnd_new ra seed)"


section \<open>The product quantizer\<close>

record 'f pq =
  pq_D :: nat
  pq_M :: nat
  pq_K :: nat
  pq_Dsub :: nat
  pq_Codebooks :: "'f vec list list"

datatype pq_error = BadM | BadK | EmptyTraining | DimMismatch

definition pq_New :: "nat \<Rightarrow> int \<Rightarrow> int \<Rightarrow> pq_error + 'f pq" where
  "pq_New d m k =
     (if m \<le> 0 \<or> int d mod m \<noteq> 0 then Inl BadM
      else if k \<le> 0 \<or> k > 256 then Inl BadK
      else Inr \<lparr>pq_D = d, pq_M = nat m, pq_K = nat k, pq_Dsub = d div nat m, pq_Codebooks = []\<rparr>)"

text \<open>Training: one k-means per subspace with its own seed, so the workers' schedule does not show.\<close>

definition pq_Train :: "('f, 'g::{linorder,zero,plus,minus,times}) floats \<Rightarrow> ('g, 'r) random \<Rightarrow> 'f vec list \<Rightarrow>
    nat \<Rightarrow> int \<Rightarrow> 'f pq \<Rightarrow> (pq_error + 'f pq) option" where
  "pq_Train fl ra vecs maxIter seed q =
     (case vecs of [] \<Rightarrow> Some (Inl EmptyTraining)
      | v # _ \<Rightarrow>
          if length v \<noteq> pq_D q then Some (Inl DimMismatch)
          else do { books \<leftarrow> those (map (\<lambda>m. do {
                      subs \<leftarrow> those (map (\<lambda>v. slice_of v (m * pq_Dsub q) (pq_Dsub q)) vecs);
                      kmeans fl ra subs (pq_K q) maxIter (rnd_new ra (seed + int m + 1)) }) [0..<pq_M q]);
                    Some (Inr (q\<lparr>pq_Codebooks := books\<rparr>)) })"

fun enc_loop :: "('f, 'g::{linorder,zero,plus,minus,times}) floats \<Rightarrow> 'f vec \<Rightarrow> 'f vec list \<Rightarrow> nat list \<Rightarrow> nat \<Rightarrow> 'g \<Rightarrow> nat option" where
  "enc_loop fl sv cb [] i bestD = Some i"
| "enc_loop fl sv cb (c # cs) i bestD =
     do { cen \<leftarrow> nth_opt cb c; d \<leftarrow> sqL2 fl sv cen;
          if d < bestD then enc_loop fl sv cb cs c d else enc_loop fl sv cb cs i bestD }"

type_synonym code = "byte list"

definition pq_Encode :: "('f, 'g::{linorder,zero,plus,minus,times}) floats \<Rightarrow> 'f pq \<Rightarrow> 'f vec \<Rightarrow> code option" where
  "pq_Encode fl q v =
     those (map (\<lambda>m. do { sv \<leftarrow> slice_of v (m * pq_Dsub q) (pq_Dsub q);
                          cb \<leftarrow> nth_opt (pq_Codebooks q) m;
                          i \<leftarrow> enc_loop fl sv cb [0..<pq_K q] 0 (maxFloat64 fl);
                          Some (word_of_nat i) }) [0..<pq_M q])"

definition buildADCTable :: "('f, 'g::{linorder,zero,plus,minus,times}) floats \<Rightarrow> 'f pq \<Rightarrow> 'f vec \<Rightarrow> 'f list option" where
  "buildADCTable fl q residual =
     map_option concat (those (map (\<lambda>m. do {
       sv \<leftarrow> slice_of residual (m * pq_Dsub q) (pq_Dsub q);
       cb \<leftarrow> nth_opt (pq_Codebooks q) m;
       those (map (\<lambda>c. do { cen \<leftarrow> nth_opt cb c; d \<leftarrow> sqL2 fl sv cen; Some (f32 fl d) }) [0..<pq_K q]) })
       [0..<pq_M q]))"

text \<open>The distance of a code: one table entry per subspace, added up in float32.\<close>

fun adc_sum :: "nat \<Rightarrow> 'f::plus list \<Rightarrow> code \<Rightarrow> nat list \<Rightarrow> 'f \<Rightarrow> 'f option" where
  "adc_sum k table code [] d = Some d"
| "adc_sum k table code (m # ms) d =
     do { c \<leftarrow> nth_opt code m; x \<leftarrow> nth_opt table (m * k + unat c); adc_sum k table code ms (d + x) }"

section \<open>Reservoir sampling and the training of the residual quantizer\<close>

fun reservoir :: "('g, 'r) random \<Rightarrow> nat \<Rightarrow> 'a list \<Rightarrow> nat \<Rightarrow> 'a list \<Rightarrow> 'r \<Rightarrow> 'a list" where
  "reservoir ra m [] i rs rng = rs"
| "reservoir ra m (x # xs) i rs rng =
     (case rnd_Intn ra (i + 1) rng of (j, rng') \<Rightarrow>
        reservoir ra m xs (i + 1) (if j < m then rs[j := x] else rs) rng')"

definition subsample :: "('g, 'r) random \<Rightarrow> 'a list \<Rightarrow> nat \<Rightarrow> int \<Rightarrow> 'a list" where
  "subsample ra points m seed =
     (if m \<ge> length points then points
      else reservoir ra m (drop m points) m (take m points) (rnd_new ra seed))"

record train_opts =
  to_CoarseIter :: int
  to_CoarseSample :: int
  to_PQSample :: int

definition trainResidual :: "('f::minus, 'g::{linorder,zero,plus,minus,times}) floats \<Rightarrow> ('g, 'r) random \<Rightarrow> 'f vec list \<Rightarrow>
    nat \<Rightarrow> int \<Rightarrow> int \<Rightarrow> nat \<Rightarrow> int \<Rightarrow> train_opts \<Rightarrow> (pq_error + 'f vec list \<times> 'f pq) option" where
  "trainResidual fl ra learn nlist m k iter seed opts =
     do { v0 \<leftarrow> nth_opt learn 0;
          coarse \<leftarrow> coarseKMeans fl ra
            (if to_CoarseSample opts > 0 then subsample ra learn (nat (to_CoarseSample opts)) (seed + 1) else learn)
            nlist (if to_CoarseIter opts > 0 then nat (to_CoarseIter opts) else iter) seed;
          residuals \<leftarrow> those (map (\<lambda>v. do { c \<leftarrow> nearest fl coarse v; cen \<leftarrow> nth_opt coarse c; sub v cen }) learn);
          (case pq_New (length v0) m k of
             Inl e \<Rightarrow> Some (Inl e)
           | Inr q \<Rightarrow>
               do { t \<leftarrow> pq_Train fl ra
                      (if to_PQSample opts > 0 then subsample ra residuals (nat (to_PQSample opts)) (seed + 2) else residuals)
                      iter seed q;
                    Some (case t of Inl e \<Rightarrow> Inl e | Inr q' \<Rightarrow> Inr (coarse, q')) }) }"

section \<open>Shapes\<close>

text \<open>What \<^verbatim>\<open>rand.Intn\<close> documents.\<close>

definition good_random :: "('g, 'r) random \<Rightarrow> bool" where
  "good_random ra \<longleftrightarrow> (\<forall>n r. 0 < n \<longrightarrow> fst (rnd_Intn ra n r) < n)"

definition dims :: "nat \<Rightarrow> 'f vec list \<Rightarrow> bool" where
  "dims d vs \<longleftrightarrow> (\<forall>v \<in> set vs. length v = d)"

lemma dims_simps [simp]:
  "dims d []" "dims d (v # vs) \<longleftrightarrow> length v = d \<and> dims d vs" "dims d (vs @ ws) \<longleftrightarrow> dims d vs \<and> dims d ws"
  by (auto simp: dims_def)

lemma nth_opt_Some: "nth_opt xs i = Some x \<longleftrightarrow> i < length xs \<and> xs ! i = x"
  by (simp add: nth_opt_def)

lemma nth_opt_in: "i < length xs \<Longrightarrow> nth_opt xs i = Some (xs ! i)"
  by (simp add: nth_opt_def)

lemma dims_nth: "dims d vs \<Longrightarrow> i < length vs \<Longrightarrow> length (vs ! i) = d"
  by (simp add: dims_def)

lemma those_Some: "those (map f xs) = Some ys \<longleftrightarrow> list_all2 (\<lambda>x y. f x = Some y) xs ys"
  by (induction xs arbitrary: ys) (auto simp: list_all2_Cons1 split: option.splits)

lemma those_total:
  "(\<And>x. x \<in> set xs \<Longrightarrow> \<exists>y. f x = Some y) \<Longrightarrow> \<exists>ys. those (map f xs) = Some ys \<and> length ys = length xs"
  by (induction xs) (fastforce split: option.splits)+

lemma those_mem: "those (map f xs) = Some ys \<Longrightarrow> y \<in> set ys \<Longrightarrow> \<exists>x \<in> set xs. f x = Some y"
  by (induction xs arbitrary: ys) (auto split: option.splits)

lemma those_proj:
  "those (map f xs) = Some ys \<Longrightarrow> (\<And>x y. x \<in> set xs \<Longrightarrow> f x = Some y \<Longrightarrow> g y = k x) \<Longrightarrow> map g ys = map k xs"
  by (induction xs arbitrary: ys) (fastforce split: option.splits)+

lemma those_None: "x \<in> set xs \<Longrightarrow> f x = None \<Longrightarrow> those (map f xs) = None"
  by (induction xs) (auto split: option.splits)

lemma sqL2_total: "length a \<le> length b \<Longrightarrow> \<exists>r. sqL2 fl a b = Some r"
proof -
  have "length a \<le> length b \<Longrightarrow> \<exists>r. sq_loop fl a b s = Some r" for s
    by (induction fl a b s rule: sq_loop.induct) (auto simp: Let_def)
  then show "length a \<le> length b \<Longrightarrow> \<exists>r. sqL2 fl a b = Some r" by (simp add: sqL2_def)
qed

lemma sub_total: "length a \<le> length b \<Longrightarrow> \<exists>r. sub a b = Some r \<and> length r = length a"
  by (induction a b rule: sub.induct) auto

lemma slice_total: "start + n \<le> length xs \<Longrightarrow> \<exists>r. slice_of xs start n = Some r \<and> length r = n"
  by (simp add: slice_of_def)

lemma closest_total:
  assumes "\<And>x. x \<in> set xs \<Longrightarrow> \<exists>d. dist x = Some d"
  shows "\<exists>j. closest dist c i bestD xs = Some j \<and> (j = i \<or> c \<le> j \<and> j < c + length xs)"
  using assms
proof (induction xs arbitrary: c i bestD)
  case (Cons x xs)
  obtain d where d: "dist x = Some d" using Cons.prems by fastforce
  have t: "\<And>y. y \<in> set xs \<Longrightarrow> \<exists>d. dist y = Some d" using Cons.prems by simp
  show ?case
    using Cons.IH [OF t, of "c + 1" c d] Cons.IH [OF t, of "c + 1" i bestD] d by auto
qed simp

lemma nearest_total:
  assumes "dims d cens" and "d \<le> length v" and "cens \<noteq> []"
  shows "\<exists>c. nearest fl cens v = Some c \<and> c < length cens"
proof -
  have "\<exists>j. nearest fl cens v = Some j \<and> (j = 0 \<or> 0 \<le> j \<and> j < 0 + length cens)"
    unfolding nearest_def
    by (rule closest_total, rule sqL2_total) (use assms in \<open>auto simp: dims_def\<close>)
  then show ?thesis using assms(3) by auto
qed

section \<open>What k-means returns\<close>

lemma refresh_total:
  assumes "dims d points" and "length nc = d" and "length d2 = length points"
  shows "\<exists>d2'. refresh fl nc points d2 = Some d2' \<and> length d2' = length points"
proof -
  have "\<exists>y. (case x of (p, d) \<Rightarrow> do { dd \<leftarrow> sqL2 fl p nc; Some (if dd < d then dd else d) }) = Some y"
    if x: "x \<in> set (zip points d2)" for x
  proof -
    have "fst x \<in> set points" using x by (metis set_zip_leftD surjective_pairing)
    then obtain r where "sqL2 fl (fst x) nc = Some r" using sqL2_total [of "fst x" nc fl] assms by (auto simp: dims_def)
    then show ?thesis by (simp add: case_prod_beta)
  qed
  from those_total [where xs = "zip points d2", OF this] show ?thesis using assms(3) unfolding refresh_def by simp
qed

lemma pick_less: "pick ds acc target i n < max (Suc n) (i + length ds)"
  by (induction ds acc target i n rule: pick.induct) (auto simp: max_def split: if_splits)

lemma seed_loop_shape:
  assumes "good_random ra" and "dims d points" and "points \<noteq> []"
    and "length d2 = length points" and "dims d cens"
  shows "\<exists>cens' rng'. seed_loop fl ra points todo cens d2 rng = Some (cens', rng') \<and>
           length cens' = length cens + todo \<and> dims d cens'"
  using assms(4,5)
proof (induction todo arbitrary: cens d2 rng)
  case (Suc todo)
  obtain i rng1 where i: "rnd_Intn ra (length points) rng = (i, rng1)" by fastforce
  have il: "i < length points" using assms(1,3) i by (metis fst_conv good_random_def length_greater_0_conv)
  obtain x rng2 where x: "rnd_Float64 ra rng = (x, rng2)" by fastforce
  define p where "p = pick d2 0 (x * foldl (+) 0 d2) 0 (length points - 1)"
  have pl: "p < length points"
    using pick_less [of d2 0 "x * foldl (+) 0 d2" 0 "length points - 1"] assms(3) Suc.prems(1)
    by (simp add: p_def)
  obtain d2' where d2': "refresh fl (points ! p) points d2 = Some d2'" "length d2' = length points"
    using refresh_total [OF assms(2) dims_nth [OF assms(2) pl] Suc.prems(1)] by blast
  have dp: "dims d (cens @ [points ! i])" "dims d (cens @ [points ! p])"
    using Suc.prems(2) dims_nth [OF assms(2) il] dims_nth [OF assms(2) pl] by auto
  show ?case
  proof (cases "foldl (+) 0 d2 = 0")
    case True
    then show ?thesis using Suc.IH [OF Suc.prems(1) dp(1), of rng1] i il by (simp add: nth_opt_in)
  next
    case False
    then have "seed_loop fl ra points (Suc todo) cens d2 rng = seed_loop fl ra points todo (cens @ [points ! p]) d2' rng2"
      using x d2'(1) nth_opt_in [OF pl] by (simp add: p_def)
    then show ?thesis using Suc.IH [OF d2'(2) dp(2), of rng2] by simp
  qed
qed simp

lemma kmeansppInit_shape:
  assumes "good_random ra" and "dims d points" and "points \<noteq> []" and "0 < k"
  shows "\<exists>cens rng'. kmeansppInit fl ra points k rng = Some (cens, rng') \<and> length cens = k \<and> dims d cens"
proof -
  obtain i rng1 where i: "rnd_Intn ra (length points) rng = (i, rng1)" by fastforce
  have il: "i < length points" using assms(1,3) i by (metis fst_conv good_random_def length_greater_0_conv)
  have "\<exists>r. sqL2 fl p (points ! i) = Some r" if "p \<in> set points" for p
    using that assms(2) il sqL2_total [of p "points ! i" fl] by (auto simp: dims_def)
  from those_total [where xs = points and f = "\<lambda>p. sqL2 fl p (points ! i)", OF this] obtain d2
    where d2: "those (map (\<lambda>p. sqL2 fl p (points ! i)) points) = Some d2" and l: "length d2 = length points" by blast
  show ?thesis
    using seed_loop_shape [OF assms(1-3) l, of "[points ! i]" fl "k - 1" rng1] dims_nth [OF assms(2) il] assms(4)
    by (auto simp: kmeansppInit_def i nth_opt_in il d2)
qed

lemma add_vec_total: "length s \<le> length p \<Longrightarrow> \<exists>r. add_vec fl s p = Some r \<and> length r = length s"
  by (induction fl s p rule: add_vec.induct) auto

lemma sum_members_total:
  "dims d ps \<Longrightarrow> length s = d \<Longrightarrow> \<exists>r. sum_members fl c ps as s = Some r \<and> length r = d"
proof (induction fl c ps as s rule: sum_members.induct)
  case (1 fl c p ps a as s)
  then obtain s' where "add_vec fl s p = Some s'" "length s' = d" using add_vec_total [of s p fl] by auto
  then show ?case using 1 by auto
qed auto

lemma update_cells_shape:
  assumes "good_random ra" and "dims d points" and "points \<noteq> []" and "dims d olds"
  shows "\<exists>cens rng'. update_cells fl ra points assign d c olds rng = Some (cens, rng') \<and>
           length cens = length olds \<and> dims d cens"
  using assms(4)
proof (induction olds arbitrary: c rng)
  case (Cons old olds)
  obtain i rng1 where i: "rnd_Intn ra (length points) rng = (i, rng1)" by fastforce
  have il: "i < length points" using assms(1,3) i by (metis fst_conv good_random_def length_greater_0_conv)
  obtain s where s: "sum_members fl c points assign (replicate d 0) = Some s" "length s = d"
    using sum_members_total [OF assms(2), of "replicate d 0" fl c assign] by auto
  have o: "length old = d" "slice_of old 0 d = Some old" using Cons.prems by (simp_all add: slice_of_def)
  show ?case
    using Cons.IH [of "c + 1" rng1] Cons.IH [of "c + 1" rng] Cons.prems i il s o dims_nth [OF assms(2) il]
    by (auto simp: nth_opt_in Let_def)
qed simp

lemma lloyd_shape:
  assumes "good_random ra" and "dims d points" and "points \<noteq> []" and "dims d cens"
    and near: "\<And>cens p. dims d cens \<Longrightarrow> length p = d \<Longrightarrow> \<exists>c. near cens p = Some c"
  shows "\<exists>cens'. lloyd near fl ra points d todo first assign cens rng = Some cens' \<and>
           length cens' = length cens \<and> dims d cens'"
  using assms(4)
proof (induction todo arbitrary: first assign cens rng)
  case (Suc todo)
  have "\<exists>c. near cens p = Some c" if "p \<in> set points" for p
    using near [OF Suc.prems, of p] that assms(2) by (simp add: dims_def)
  from those_total [where xs = points and f = "near cens", OF this] obtain a where a: "those (map (near cens) points) = Some a" by blast
  obtain cens' rng' where u: "update_cells fl ra points a d 0 cens rng = Some (cens', rng')"
    "length cens' = length cens" "dims d cens'"
    using update_cells_shape [OF assms(1-3) Suc.prems] by blast
  show ?case using Suc.IH [OF u(3), of False a rng'] a u by auto
qed simp

lemma kmeans_with_shape:
  assumes "good_random ra" and "dims d points" and "0 < k" and "points \<noteq> []"
    and "\<And>cens p. dims d cens \<Longrightarrow> length p = d \<Longrightarrow> \<exists>c. near cens p = Some c"
  shows "\<exists>cens. kmeans_with near fl ra points k maxIter rng = Some cens \<and>
           length cens = min k (length points) \<and> dims d cens"
proof -
  obtain p ps where p: "points = p # ps" using assms(4) by (cases points) auto
  have pd: "length p = d" using assms(2) p by simp
  obtain cens rng1 where i: "kmeansppInit fl ra points (min k (length points)) rng = Some (cens, rng1)"
    "length cens = min k (length points)" "dims d cens"
    using kmeansppInit_shape [OF assms(1,2,4), of "min k (length points)" fl rng] assms(3,4) by auto
  obtain cens' where l: "lloyd near fl ra points d maxIter True (replicate (length points) 0) cens rng1 = Some cens'"
    "length cens' = length cens" "dims d cens'"
    using lloyd_shape [where near = near and fl = fl and todo = maxIter and first = True and rng = rng1 and
        assign = "replicate (length points) 0", OF assms(1,2,4) i(3) assms(5)] by blast
  have "kmeans_with near fl ra points k maxIter rng = Some cens'"
    using i(1) l(1) pd unfolding kmeans_with_def p by simp
  then show ?thesis using l i(2) by simp
qed

lemma near_total:
  assumes "dims d cens" and "length p = d"
  shows "\<exists>c. closest (sqL2 fl p) 0 0 m cens = Some c" and "\<exists>c. nearest fl cens p = Some c"
proof -
  have "\<exists>j. closest (sqL2 fl p) 0 0 m cens = Some j \<and> (j = 0 \<or> 0 \<le> j \<and> j < 0 + length cens)"
    by (rule closest_total, rule sqL2_total) (use assms in \<open>auto simp: dims_def\<close>)
  moreover have "\<exists>j. nearest fl cens p = Some j \<and> (j = 0 \<or> 0 \<le> j \<and> j < 0 + length cens)"
    unfolding nearest_def by (rule closest_total, rule sqL2_total) (use assms in \<open>auto simp: dims_def\<close>)
  ultimately show "\<exists>c. closest (sqL2 fl p) 0 0 m cens = Some c" "\<exists>c. nearest fl cens p = Some c" by auto
qed

lemma kmeans_shape:
  assumes "good_random ra" and "dims d points" and "0 < k" and "points \<noteq> []"
  shows "\<exists>cens. kmeans fl ra points k maxIter rng = Some cens \<and> length cens = min k (length points) \<and> dims d cens"
  unfolding kmeans_def
  by (rule kmeans_with_shape [OF assms]) (rule near_total)

lemma coarseKMeans_shape:
  assumes "good_random ra" and "dims d points" and "0 < k" and "points \<noteq> []"
  shows "\<exists>cens. coarseKMeans fl ra points k maxIter seed = Some cens \<and> length cens = min k (length points) \<and> dims d cens"
  unfolding coarseKMeans_def
  by (rule kmeans_with_shape [OF assms]) (rule near_total)

section \<open>What a trained quantizer does\<close>

text \<open>The shape of a quantizer whose \<open>M\<close> codebooks have \<open>n\<close> centroids each.\<close>

definition has_books :: "nat \<Rightarrow> 'f pq \<Rightarrow> bool" where
  "has_books n q \<longleftrightarrow> length (pq_Codebooks q) = pq_M q \<and> pq_D q = pq_M q * pq_Dsub q \<and> 0 < pq_M q \<and>
     0 < pq_K q \<and> pq_K q \<le> 256 \<and> (\<forall>cb \<in> set (pq_Codebooks q). length cb = n \<and> dims (pq_Dsub q) cb)"

lemma sub_range: "m < M \<Longrightarrow> m * D + D \<le> M * (D :: nat)"
  by (metis Suc_leI add.commute mult_Suc mult_le_mono1)

lemma enc_loop_total:
  assumes "\<forall>c \<in> set cs. c < length cb \<and> c < n" and "dims d cb" and "length sv = d" and "i < n"
  shows "\<exists>j. enc_loop fl sv cb cs i b = Some j \<and> j < n"
  using assms(1,4)
proof (induction cs arbitrary: i b)
  case (Cons c cs)
  have c: "c < length cb" "c < n" using Cons.prems by auto
  obtain x where x: "sqL2 fl sv (cb ! c) = Some x"
    using sqL2_total [of sv "cb ! c" fl] assms(3) dims_nth [OF assms(2) c(1)] by auto
  show ?case using Cons.IH [of c x] Cons.IH [of i b] Cons.prems c x by (simp add: nth_opt_in)
qed simp

lemma enc_loop_panics: "c \<in> set cs \<Longrightarrow> length cb \<le> c \<Longrightarrow> enc_loop fl sv cb cs i b = None"
proof (induction cs arbitrary: i b)
  case (Cons a cs)
  have "nth_opt cb c = None" using Cons.prems by (simp add: nth_opt_def)
  then show ?case using Cons by (auto split: Option.bind_split)
qed simp

text \<open>A code has one byte per subspace, each the index of a centroid.\<close>

definition code_ok :: "'f pq \<Rightarrow> code \<Rightarrow> bool" where
  "code_ok q code \<longleftrightarrow> length code = pq_M q \<and> (\<forall>b \<in> set code. unat b < pq_K q)"

lemma Encode_total:
  assumes "has_books n q" and "pq_K q \<le> n" and "length v = pq_D q"
  shows "\<exists>code. pq_Encode fl q v = Some code \<and> code_ok q code"
proof -
  note h = assms(1) [unfolded has_books_def]
  let ?f = "\<lambda>m. do { sv \<leftarrow> slice_of v (m * pq_Dsub q) (pq_Dsub q); cb \<leftarrow> nth_opt (pq_Codebooks q) m;
      i \<leftarrow> enc_loop fl sv cb [0..<pq_K q] 0 (maxFloat64 fl); Some (word_of_nat i :: byte) }"
  have f: "\<exists>b. ?f m = Some b \<and> unat b < pq_K q" if m: "m < pq_M q" for m
  proof -
    obtain sv where sv: "slice_of v (m * pq_Dsub q) (pq_Dsub q) = Some sv" "length sv = pq_Dsub q"
      using slice_total [of "m * pq_Dsub q" "pq_Dsub q" v] sub_range [OF m, of "pq_Dsub q"] assms(3) h by auto
    define cb where "cb = pq_Codebooks q ! m"
    have cb: "nth_opt (pq_Codebooks q) m = Some cb" "length cb = n" "dims (pq_Dsub q) cb"
      using m h by (simp_all add: nth_opt_in cb_def)
    obtain j where j: "enc_loop fl sv cb [0..<pq_K q] 0 (maxFloat64 fl) = Some j" "j < pq_K q"
      using enc_loop_total [OF _ cb(3) sv(2), of "[0..<pq_K q]" "pq_K q" 0 fl "maxFloat64 fl"] cb(2) assms(2) h by auto
    have "j < 256" using j(2) h by linarith
    then show ?thesis using sv cb j by (simp add: unat_of_nat)
  qed
  obtain code where c: "those (map ?f [0..<pq_M q]) = Some code" "length code = pq_M q"
    using those_total [where f = ?f and xs = "[0..<pq_M q]"] f by auto
  have "unat b < pq_K q" if "b \<in> set code" for b
  proof -
    obtain i where "i \<in> set [0..<pq_M q]" "?f i = Some b" using those_mem [OF c(1) \<open>b \<in> set code\<close>] by blast
    then show ?thesis using f [of i] by simp
  qed
  then show ?thesis using c by (auto simp: pq_Encode_def code_ok_def)
qed

lemma Encode_panics:
  assumes "has_books n q" and "n < pq_K q" and "length v = pq_D q"
  shows "pq_Encode fl q v = None"
proof -
  note h = assms(1) [unfolded has_books_def]
  obtain sv where sv: "slice_of v 0 (pq_Dsub q) = Some sv"
    using slice_total [of 0 "pq_Dsub q" v] sub_range [of 0 "pq_M q" "pq_Dsub q"] assms(3) h by auto
  have cb: "nth_opt (pq_Codebooks q) 0 = Some (pq_Codebooks q ! 0)" "length (pq_Codebooks q ! 0) = n"
    using h by (simp_all add: nth_opt_in)
  have e: "enc_loop fl sv (pq_Codebooks q ! 0) [0..<pq_K q] 0 (maxFloat64 fl) = None"
    by (rule enc_loop_panics [of n]) (use assms(2) cb(2) in auto)
  show ?thesis
    unfolding pq_Encode_def by (rule those_None [of 0]) (use h sv cb e in auto)
qed

lemma concat_length: "(\<And>x. x \<in> set xs \<Longrightarrow> length x = k) \<Longrightarrow> length (concat xs) = length xs * k"
  by (induction xs) auto

lemma buildADCTable_total:
  assumes "has_books n q" and "pq_K q \<le> n" and "length v = pq_D q"
  shows "\<exists>table. buildADCTable fl q v = Some table \<and> length table = pq_M q * pq_K q"
proof -
  note h = assms(1) [unfolded has_books_def]
  let ?f = "\<lambda>m. do { sv \<leftarrow> slice_of v (m * pq_Dsub q) (pq_Dsub q); cb \<leftarrow> nth_opt (pq_Codebooks q) m;
      those (map (\<lambda>c. do { cen \<leftarrow> nth_opt cb c; d \<leftarrow> sqL2 fl sv cen; Some (f32 fl d) }) [0..<pq_K q]) }"
  have f: "\<exists>row. ?f m = Some row \<and> length row = pq_K q" if m: "m < pq_M q" for m
  proof -
    obtain sv where sv: "slice_of v (m * pq_Dsub q) (pq_Dsub q) = Some sv" "length sv = pq_Dsub q"
      using slice_total [of "m * pq_Dsub q" "pq_Dsub q" v] sub_range [OF m, of "pq_Dsub q"] assms(3) h by auto
    define cb where "cb = pq_Codebooks q ! m"
    have cb: "nth_opt (pq_Codebooks q) m = Some cb" "length cb = n" "dims (pq_Dsub q) cb"
      using m h by (simp_all add: nth_opt_in cb_def)
    let ?g = "\<lambda>c. do { cen \<leftarrow> nth_opt cb c; d \<leftarrow> sqL2 fl sv cen; Some (f32 fl d) }"
    have "\<exists>y. ?g c = Some y" if "c \<in> set [0..<pq_K q]" for c
    proof -
      have c: "c < length cb" using that cb(2) assms(2) by simp
      then show ?thesis using sqL2_total [of sv "cb ! c" fl] sv(2) dims_nth [OF cb(3) c] by (auto simp: nth_opt_in)
    qed
    from those_total [where f = ?g and xs = "[0..<pq_K q]", OF this] show ?thesis using sv cb by auto
  qed
  obtain rows where r: "those (map ?f [0..<pq_M q]) = Some rows" "length rows = pq_M q"
    using those_total [where f = ?f and xs = "[0..<pq_M q]"] f by fastforce
  have "length row = pq_K q" if "row \<in> set rows" for row
  proof -
    obtain i where "i \<in> set [0..<pq_M q]" "?f i = Some row" using those_mem [OF r(1) \<open>row \<in> set rows\<close>] by blast
    then show ?thesis using f [of i] by simp
  qed
  then show ?thesis using r concat_length [of rows "pq_K q"] by (auto simp: buildADCTable_def)
qed

lemma adc_sum_total:
  assumes "code_ok q code" and "length table = pq_M q * pq_K q" and "\<forall>m \<in> set ms. m < pq_M q"
  shows "\<exists>x. adc_sum (pq_K q) table code ms d = Some x"
  using assms(3)
proof (induction ms arbitrary: d)
  case (Cons m ms)
  have m: "m < length code" "unat (code ! m) < pq_K q" using Cons.prems assms(1) by (auto simp: code_ok_def)
  then have "m * pq_K q + unat (code ! m) < length table"
    using sub_range [of m "pq_M q" "pq_K q"] Cons.prems assms(2) by simp
  then show ?case using Cons m by (simp add: nth_opt_in)
qed simp

lemma pq_Train_eq:
  assumes "vecs \<noteq> []" and "length (hd vecs) = pq_D q"
  shows "pq_Train fl ra vecs maxIter seed q =
    map_option (\<lambda>books. Inr (q\<lparr>pq_Codebooks := books\<rparr>)) (those (map (\<lambda>m. do {
      subs \<leftarrow> those (map (\<lambda>v. slice_of v (m * pq_Dsub q) (pq_Dsub q)) vecs);
      kmeans fl ra subs (pq_K q) maxIter (rnd_new ra (seed + int m + 1)) }) [0..<pq_M q]))"
proof (cases vecs)
  case (Cons v vs)
  then have "length v = pq_D q" using assms(2) by simp
  then show ?thesis unfolding pq_Train_def map_conv_bind_option comp_def by (simp only: Cons list.case refl not_True_eq_False if_False)
qed (use assms in simp)

lemma pq_Train_shape:
  assumes "good_random ra" and "pq_New d m k = Inr q" and "dims d vecs" and "vecs \<noteq> []"
  shows "\<exists>q'. pq_Train fl ra vecs maxIter seed q = Some (Inr q') \<and> has_books (min (pq_K q) (length vecs)) q' \<and>
           pq_K q' = pq_K q \<and> pq_D q' = d \<and> pq_M q' = pq_M q"
proof -
  have q: "pq_D q = d" "pq_M q = nat m" "pq_K q = nat k" "pq_Dsub q = d div nat m" "0 < m" "0 < k" "k \<le> 256"
    "int d mod m = 0"
    using assms(2) by (auto simp: pq_New_def split: if_splits)
  then have D: "d = pq_M q * pq_Dsub q"
    by (metis dvd_eq_mod_eq_0 dvd_mult_div_cancel int_dvd_int_iff int_nat_eq less_imp_le)
  let ?f = "\<lambda>j. do { subs \<leftarrow> those (map (\<lambda>v. slice_of v (j * pq_Dsub q) (pq_Dsub q)) vecs);
      kmeans fl ra subs (pq_K q) maxIter (rnd_new ra (seed + int j + 1)) }"
  have f: "\<exists>cb. ?f j = Some cb \<and> length cb = min (pq_K q) (length vecs) \<and> dims (pq_Dsub q) cb" if j: "j < pq_M q" for j
  proof -
    let ?s = "\<lambda>v. slice_of v (j * pq_Dsub q) (pq_Dsub q)"
    have s: "\<exists>r. ?s w = Some r \<and> length r = pq_Dsub q" if "w \<in> set vecs" for w
      by (rule slice_total) (use sub_range [OF j, of "pq_Dsub q"] that assms(3) D in \<open>auto simp: dims_def\<close>)
    then obtain subs where subs: "those (map ?s vecs) = Some subs" "length subs = length vecs"
      using those_total [where f = ?s and xs = vecs] by blast
    have "dims (pq_Dsub q) subs"
      unfolding dims_def
    proof
      fix x assume "x \<in> set subs"
      then obtain w where "w \<in> set vecs" "?s w = Some x" using those_mem [OF subs(1)] by blast
      then show "length x = pq_Dsub q" using s [of w] by simp
    qed
    moreover have "subs \<noteq> []" using subs(2) assms(4) by auto
    ultimately show ?thesis
      using kmeans_shape [OF assms(1), of "pq_Dsub q" subs "pq_K q" fl maxIter "rnd_new ra (seed + int j + 1)"]
        subs q(3,6) by simp
  qed
  obtain books where b: "those (map ?f [0..<pq_M q]) = Some books" "length books = pq_M q"
    using those_total [where f = ?f and xs = "[0..<pq_M q]"] f by fastforce
  have bk: "length cb = min (pq_K q) (length vecs) \<and> dims (pq_Dsub q) cb" if "cb \<in> set books" for cb
  proof -
    obtain i where "i \<in> set [0..<pq_M q]" "?f i = Some cb" using those_mem [OF b(1) \<open>cb \<in> set books\<close>] by blast
    then show ?thesis using f [of i] by simp
  qed
  have "pq_Train fl ra vecs maxIter seed q = Some (Inr (q\<lparr>pq_Codebooks := books\<rparr>))"
    by (subst pq_Train_eq) (use q(1) assms(3,4) b(1) in \<open>auto simp: dims_def\<close>)
  moreover have "has_books (min (pq_K q) (length vecs)) (q\<lparr>pq_Codebooks := books\<rparr>)"
  proof -
    have "0 < pq_M q" "0 < pq_K q" "pq_K q \<le> 256" using q(2,3,5-7) by simp_all
    moreover have "pq_D q = pq_M q * pq_Dsub q" using q(1) D by (rule trans)
    ultimately show ?thesis using b(2) bk by (simp add: has_books_def)
  qed
  ultimately show ?thesis using q(1) by (intro exI [of _ "q\<lparr>pq_Codebooks := books\<rparr>"]) simp
qed

lemma length_reservoir [simp]: "length (reservoir ra m xs i rs rng) = length rs"
  by (induction ra m xs i rs rng rule: reservoir.induct) (simp add: Let_def split: prod.split)+

lemma set_reservoir: "set (reservoir ra m xs i rs rng) \<subseteq> set rs \<union> set xs"
proof (induction ra m xs i rs rng rule: reservoir.induct)
  case (2 ra m x xs i rs rng)
  obtain j rng' where j: "rnd_Intn ra (i + 1) rng = (j, rng')" by fastforce
  have "set (if j < m then rs[j := x] else rs) \<subseteq> insert x (set rs)" using set_update_subset_insert [of rs j x] by auto
  then show ?case using "2.IH" [OF j [symmetric]] j by auto
qed simp

lemma subsample_shape:
  "length (subsample ra xs m seed) = min m (length xs)" "set (subsample ra xs m seed) \<subseteq> set xs"
  using set_reservoir [of ra m "drop m xs" m "take m xs" "rnd_new ra seed"] set_take_subset [of m xs] set_drop_subset [of m xs]
  by (auto simp: subsample_def)

definition sampled :: "int \<Rightarrow> nat \<Rightarrow> nat" where
  "sampled m n = (if m > 0 then min (nat m) n else n)"

lemma trainResidual_shape:
  fixes fl :: "('f::minus, 'g::{linorder,zero,plus,minus,times}) floats" and q :: "'f pq"
  assumes "good_random ra" and "pq_New d m k = Inr q" and "dims d learn" and "learn \<noteq> []" and "0 < nlist"
  shows "\<exists>coarse q'. trainResidual fl ra learn nlist m k iter seed opts = Some (Inr (coarse, q')) \<and>
    length coarse = min nlist (sampled (to_CoarseSample opts) (length learn)) \<and> dims d coarse \<and>
    has_books (min (pq_K q) (sampled (to_PQSample opts) (length learn))) q' \<and>
    pq_K q' = pq_K q \<and> pq_D q' = d \<and> pq_M q' = pq_M q"
proof -
  define cl where "cl = (if to_CoarseSample opts > 0 then subsample ra learn (nat (to_CoarseSample opts)) (seed + 1) else learn)"
  have cl: "dims d cl" "cl \<noteq> []" "length cl = sampled (to_CoarseSample opts) (length learn)"
    using subsample_shape [of ra learn "nat (to_CoarseSample opts)" "seed + 1"] assms(3,4)
    by (auto simp: cl_def sampled_def dims_def length_greater_0_conv [symmetric] simp del: length_greater_0_conv)
  obtain coarse where co: "coarseKMeans fl ra cl nlist (if to_CoarseIter opts > 0 then nat (to_CoarseIter opts) else iter) seed = Some coarse"
    "length coarse = min nlist (length cl)" "dims d coarse"
    using coarseKMeans_shape [OF assms(1) cl(1) assms(5) cl(2)] by blast
  have cne: "coarse \<noteq> []" using co(2) cl(2) assms(5) by (auto simp: min_def split: if_splits)
  let ?r = "\<lambda>v. do { c \<leftarrow> nearest fl coarse v; cen \<leftarrow> nth_opt coarse c; sub v cen }"
  have r: "\<exists>y. ?r v = Some y \<and> length y = d" if "v \<in> set learn" for v
  proof -
    have v: "length v = d" using that assms(3) by (simp add: dims_def)
    obtain c where c: "nearest fl coarse v = Some c" "c < length coarse"
      using nearest_total [OF co(3) _ cne, of v fl] v by auto
    then show ?thesis using sub_total [of v "coarse ! c"] dims_nth [OF co(3) c(2)] v by (auto simp: nth_opt_in)
  qed
  then obtain res where res: "those (map ?r learn) = Some res" "length res = length learn"
    using those_total [where f = ?r and xs = learn] by blast
  have dr: "dims d res"
    unfolding dims_def
  proof
    fix y assume "y \<in> set res"
    then obtain v where "v \<in> set learn" "?r v = Some y" using those_mem [OF res(1)] by blast
    then show "length y = d" using r [of v] by simp
  qed
  define pl where "pl = (if to_PQSample opts > 0 then subsample ra res (nat (to_PQSample opts)) (seed + 2) else res)"
  have "res \<noteq> []" using res(2) assms(4) by auto
  then have pl: "dims d pl" "pl \<noteq> []" "length pl = sampled (to_PQSample opts) (length learn)"
    using subsample_shape [of ra res "nat (to_PQSample opts)" "seed + 2"] dr res(2)
    by (auto simp: pl_def sampled_def dims_def length_greater_0_conv [symmetric] simp del: length_greater_0_conv)
  obtain q' where q': "pq_Train fl ra pl iter seed q = Some (Inr q')" "has_books (min (pq_K q) (length pl)) q'"
    "pq_K q' = pq_K q" "pq_D q' = d" "pq_M q' = pq_M q"
    using pq_Train_shape [OF assms(1,2) pl(1,2)] by blast
  have v0: "nth_opt learn 0 = Some (learn ! 0)" "length (learn ! 0) = d"
    using assms(3,4) by (simp_all add: nth_opt_def dims_def)
  have "trainResidual fl ra learn nlist m k iter seed opts = Some (Inr (coarse, q'))"
    unfolding trainResidual_def cl_def [symmetric]
    by (simp only: v0 Option.bind.simps co(1) res(1) assms(2) sum.case pl_def [symmetric] q'(1))
  then show ?thesis using co cl(3) q' pl(3) by simp
qed

section \<open>Properties\<close>

text \<open>The training size decides: training a quantizer on any non-empty set of vectors of its dimension
  succeeds, whatever the random draws and the rounding; but when the set is smaller than K the codebooks
  are too short and encoding any vector panics, while from K vectors on every vector is encoded, to one
  byte per subspace that names a centroid.\<close>
theorem training_size:
  assumes "good_random ra" and "pq_New d m k = Inr q" and "dims d vecs" and "vecs \<noteq> []"
  shows "\<exists>q'. pq_Train fl ra vecs maxIter seed q = Some (Inr q') \<and>
    (\<forall>v. length v = d \<longrightarrow>
       (if length vecs < pq_K q then pq_Encode fl q' v = None
        else \<exists>code. pq_Encode fl q' v = Some code \<and> length code = nat m \<and> (\<forall>b \<in> set code. int (unat b) < k)))"
proof -
  have q: "pq_M q = nat m" "pq_K q = nat k" "0 < k" using assms(2) by (auto simp: pq_New_def split: if_splits)
  obtain q' where q': "pq_Train fl ra vecs maxIter seed q = Some (Inr q')" "has_books (min (pq_K q) (length vecs)) q'"
    "pq_K q' = pq_K q" "pq_D q' = d" "pq_M q' = pq_M q"
    using pq_Train_shape [OF assms] by blast
  have "if length vecs < pq_K q then pq_Encode fl q' v = None
        else \<exists>code. pq_Encode fl q' v = Some code \<and> length code = nat m \<and> (\<forall>b \<in> set code. int (unat b) < k)"
    if v: "length v = d" for v
  proof (cases "length vecs < pq_K q")
    case True
    then show ?thesis using Encode_panics [OF q'(2), of v fl] q'(3,4) v by simp
  next
    case False
    then obtain code where "pq_Encode fl q' v = Some code" "code_ok q' code"
      using Encode_total [OF q'(2), of v fl] q'(3,4) v by auto
    then show ?thesis using False q q'(3,5) by (auto simp: code_ok_def zless_nat_eq_int_zless)
  qed
  then show ?thesis using q'(1) by blast
qed

theorem training_size_witness:
  "\<exists>q'. pq_Train \<lparr>f64 = id, f32 = id, maxFloat64 = 1000 :: int, inverse_count = (\<lambda>n. 1), float32bits = word_of_int\<rparr>
       \<lparr>rnd_new = nat, rnd_Intn = (\<lambda>n r. (r mod n, r)), rnd_Float64 = (\<lambda>r. (0, r))\<rparr> [[1], [2]] 5 1
       \<lparr>pq_D = 1, pq_M = 1, pq_K = 3, pq_Dsub = 1, pq_Codebooks = []\<rparr> = Some (Inr q') \<and>
     pq_Encode \<lparr>f64 = id, f32 = id, maxFloat64 = 1000, inverse_count = (\<lambda>n. 1), float32bits = word_of_int\<rparr> q' [7] = None"
  (is "\<exists>q'. pq_Train ?fl ?ra _ _ _ ?q = _ \<and> _")
proof -
  have a: "good_random ?ra" "pq_New 1 1 3 = Inr ?q" "dims 1 [[1 :: int], [2]]" "[[1 :: int], [2]] \<noteq> []"
    by (simp_all add: good_random_def pq_New_def)
  show ?thesis using training_size [OF a, of ?fl 5 1] by auto
qed

end
