(* ===== verification/Galaxy.thy ===== *)
theory Galaxy
  imports Complex_Main Quantizer
begin

text \<open>
  The numerics of the dashboard's galaxy, \<^verbatim>\<open>cmd/sentryadmin/galaxy.go\<close>: the projection of the vectors to
  three dimensions and the clustering of the projected points. float32 and float64 are the two ordered types
  of \<open>Quantizer\<close>; sine, square root and the constants are a record. \<open>None\<close> is a panic or a loop that does
  not end. Proved: for every input the clustering returns, with one valid cluster per point.
\<close>

section \<open>Projection\<close>

type_synonym 'f point = "'f \<times> 'f \<times> 'f"

record 'g maths =
  mt_of :: "nat \<Rightarrow> 'g"
  mt_sin :: "'g \<Rightarrow> 'g"
  mt_sqrt :: "'g \<Rightarrow> 'g"
  mt_tenth :: 'g
  mt_tiny :: 'g \<comment> \<open>1e-12\<close>
  mt_small :: 'g \<comment> \<open>1e-9\<close>
  mt_scale :: 'g \<comment> \<open>12\<close>

definition gdot :: "'g::{zero,plus,times} list \<Rightarrow> 'g list \<Rightarrow> 'g" where
  "gdot xs ys = foldl (\<lambda>s (x, y). s + x * y) 0 (zip xs ys)"

text \<open>The vector and the norm that is returned, 0 for a vector that is left as it is.\<close>

definition normalize :: "'g::{zero,plus,times,inverse,ord} maths \<Rightarrow> 'g list \<Rightarrow> 'g list \<times> 'g" where
  "normalize mt v =
     (let n = mt_sqrt mt (foldl (\<lambda>s x. s + x * x) 0 v)
      in if n < mt_tiny mt then (v, 0) else (map (\<lambda>x. x / n) v, n))"

definition centered :: "('f, 'g::{zero,plus,minus,inverse}) floats \<Rightarrow> 'g maths \<Rightarrow> nat \<Rightarrow> 'f vec list \<Rightarrow> 'g list list" where
  "centered fl mt d vecs =
     (let mean = map (\<lambda>j. foldl (\<lambda>s v. if j < length v then s + f64 fl (v ! j) else s) 0 vecs / mt_of mt (length vecs)) [0..<d]
      in map (\<lambda>v. map (\<lambda>j. (if j < length v then f64 fl (v ! j) else 0) - mean ! j) [0..<d]) vecs)"

definition covariance_action :: "nat \<Rightarrow> 'g::{zero,plus,times} list list \<Rightarrow> 'g list \<Rightarrow> 'g list" where
  "covariance_action d X v =
     foldl (\<lambda>w row. let xv = gdot row v in map2 (\<lambda>wj x. wj + x * xv) w row) (replicate d 0) X"

definition orthogonalize :: "'g::{zero,plus,minus,times} list list \<Rightarrow> 'g list \<Rightarrow> 'g list" where
  "orthogonalize comps w = foldl (\<lambda>w pc. let t = gdot w pc in map2 (\<lambda>wj p. wj - t * p) w pc) w comps"

fun power_iteration :: "'g::{zero,plus,minus,times,inverse,ord} maths \<Rightarrow> nat \<Rightarrow> 'g list list \<Rightarrow> 'g list list \<Rightarrow> nat \<Rightarrow> 'g list \<Rightarrow> 'g list" where
  "power_iteration mt d X comps 0 v = v"
| "power_iteration mt d X comps (Suc todo) v =
     (case normalize mt (orthogonalize comps (covariance_action d X v)) of
        (w, r) \<Rightarrow> if r = 0 then v else power_iteration mt d X comps todo w)"

definition component :: "'g::{zero,plus,minus,times,inverse,ord} maths \<Rightarrow> nat \<Rightarrow> 'g list list \<Rightarrow> 'g list list \<Rightarrow> nat \<Rightarrow> 'g list list" where
  "component mt d X comps c =
     (let v0 = map (\<lambda>j. mt_sin mt (mt_of mt ((j + 1) * (c + 1))) + mt_tenth mt) [0..<d]
      in comps @ [power_iteration mt d X comps 40 (fst (normalize mt v0))])"

definition pca3 :: "('f::zero, 'g::{zero,one,plus,minus,times,inverse,ord}) floats \<Rightarrow> 'g maths \<Rightarrow> 'f vec list \<Rightarrow> 'f point list" where
  "pca3 fl mt vecs =
     (case vecs of
        [] \<Rightarrow> []
      | v # _ \<Rightarrow>
          let d = length v
          in if d = 0 then map (\<lambda>_. (0, 0, 0)) vecs
             else
               let X = centered fl mt d vecs;
                   comps = foldl (component mt d X) [] [0, 1, 2];
                   mom0 = foldl (\<lambda>m row. let s = gdot row (comps ! 0) in m + s * s) 0 X;
                   std = mt_sqrt mt (mom0 / mt_of mt (length vecs));
                   factor = mt_scale mt / (if std < mt_small mt then 1 else std);
                   coord = (\<lambda>row c. f32 fl (f64 fl (f32 fl (gdot row (comps ! c))) * factor))
               in map (\<lambda>row. (coord row 0, coord row 1, coord row 2)) X)"

section \<open>Clustering\<close>

definition dist2 :: "('f::minus, 'g::{plus,times}) floats \<Rightarrow> 'f point \<Rightarrow> 'f point \<Rightarrow> 'g" where
  "dist2 fl a b =
     (case (a, b) of ((a0, a1, a2), (b0, b1, b2)) \<Rightarrow>
        let dx = f64 fl (a0 - b0); dy = f64 fl (a1 - b1); dz = f64 fl (a2 - b2) in dx * dx + dy * dy + dz * dz)"

text \<open>The first point farthest from the chosen centers; \<open>None\<close> stands for the index -1.\<close>

definition far_step :: "('f::minus, 'g::{linorder,plus,times}) floats \<Rightarrow> 'f point list \<Rightarrow> nat \<times> 'f point \<Rightarrow>
    nat option \<times> 'g \<Rightarrow> nat option \<times> 'g" where
  "far_step fl centers ip bd =
     (let dmin = foldl (\<lambda>m c. let dd = dist2 fl (snd ip) c in if dd < m then dd else m) (maxFloat64 fl) centers
      in if dmin > snd bd then (Some (fst ip), dmin) else bd)"

definition farthest :: "('f::minus, 'g::{linorder,zero,one,plus,minus,times}) floats \<Rightarrow> 'f point list \<Rightarrow> 'f point list \<Rightarrow> nat option" where
  "farthest fl pts centers = fst (fold (far_step fl centers) (enumerate 0 pts) (None, 0 - 1))"

text \<open>The loop adds centers until there are \<open>k\<close>.\<close>

partial_function (option) init_centers :: "('f::minus, 'g::{linorder,zero,one,plus,minus,times}) floats \<Rightarrow> 'f point list \<Rightarrow> nat \<Rightarrow>
    'f point list \<Rightarrow> 'f point list option" where
  "init_centers fl pts k centers =
     (if length centers < k
      then Option.bind (farthest fl pts centers) (\<lambda>i. init_centers fl pts k (centers @ [pts ! i]))
      else Some centers)"

fun near_center :: "('f::minus, 'g::{linorder,plus,times}) floats \<Rightarrow> 'f point \<Rightarrow> nat \<Rightarrow> nat \<Rightarrow> 'g \<Rightarrow> 'f point list \<Rightarrow> nat" where
  "near_center fl p c best bestD [] = best"
| "near_center fl p c best bestD (x # xs) =
     (let dd = dist2 fl p x
      in if dd < bestD then near_center fl p (c + 1) c dd xs else near_center fl p (c + 1) best bestD xs)"

definition move_center :: "('f, 'g::{zero,plus,inverse}) floats \<Rightarrow> 'g maths \<Rightarrow> 'f point list \<Rightarrow> nat list \<Rightarrow> nat \<Rightarrow> 'f point \<Rightarrow> 'f point" where
  "move_center fl mt pts assign c old =
     (let members = map fst (filter (\<lambda>pa. snd pa = c) (zip pts assign));
          total = (\<lambda>sel. foldl (\<lambda>s p. s + f64 fl (sel p)) 0 members);
          mean = (\<lambda>sel. f32 fl (total sel / mt_of mt (length members)))
      in if length members > 0 then (mean fst, mean (\<lambda>p. fst (snd p)), mean (\<lambda>p. snd (snd p))) else old)"

text \<open>Lloyd's iterations: \<open>todo\<close> remain, \<open>first\<close> marks the first, which never stops the loop.\<close>

fun lloyd3 :: "('f::minus, 'g::{linorder,zero,plus,times,inverse}) floats \<Rightarrow> 'g maths \<Rightarrow> 'f point list \<Rightarrow> nat \<Rightarrow> bool \<Rightarrow>
    nat list \<times> 'f point list \<Rightarrow> nat list \<times> 'f point list" where
  "lloyd3 fl mt pts 0 first st = st"
| "lloyd3 fl mt pts (Suc todo) first (assign, centers) =
     (let assign1 = map (\<lambda>p. near_center fl p 0 0 (maxFloat64 fl) centers) pts;
          centers1 = map (\<lambda>(c, x). move_center fl mt pts assign1 c x) (enumerate 0 centers)
      in if assign1 = assign \<and> \<not> first then (assign1, centers1)
         else lloyd3 fl mt pts todo False (assign1, centers1))"

definition kmeans3 :: "('f::minus, 'g::{linorder,zero,one,plus,minus,times,inverse}) floats \<Rightarrow> 'g maths \<Rightarrow> 'f point list \<Rightarrow> int \<Rightarrow>
    (nat list \<times> 'f point list) option" where
  "kmeans3 fl mt pts k =
     (let n = length pts
      in if n = 0 \<or> k \<le> 0 then Some (replicate n 0, [])
         else map_option (\<lambda>centers. lloyd3 fl mt pts 25 True (replicate n 0, centers))
                (init_centers fl pts (min (nat k) n) [hd pts]))"

section \<open>The clustering returns\<close>

text \<open>What is used of the arithmetic: squares do not add up below zero, and no number is below the largest.\<close>

definition squares_ok :: "('f::minus, 'g::{linorder,zero,one,plus,minus,times}) floats \<Rightarrow> bool" where
  "squares_ok fl \<longleftrightarrow> (\<forall>a b. 0 - 1 < dist2 fl a b) \<and> 0 - 1 < maxFloat64 fl"

lemma squares_okD: "squares_ok fl \<Longrightarrow> 0 - 1 < dist2 fl a b"
  unfolding squares_ok_def by blast

lemma min_dist_ok:
  assumes "squares_ok fl" and "0 - 1 < m"
  shows "0 - 1 < foldl (\<lambda>m c. let dd = dist2 fl p c in if dd < m then dd else m) m centers"
  using assms by (induction centers arbitrary: m) (simp_all add: squares_okD Let_def)

lemma far_fold:
  "(\<forall>x \<in> set xs. fst x < n) \<Longrightarrow> (case b of None \<Rightarrow> True | Some i \<Rightarrow> i < n) \<Longrightarrow>
   (case fst (fold (far_step fl centers) xs (b, d)) of None \<Rightarrow> True | Some i \<Rightarrow> i < n)"
  by (induction xs arbitrary: b d) (auto simp: far_step_def Let_def split: if_splits)

lemma far_keeps: "fst (fold (far_step fl centers) xs (Some i, d)) \<noteq> None"
  by (induction xs arbitrary: i d) (auto simp: far_step_def Let_def)

lemma farthest_found:
  assumes "squares_ok fl" and "pts \<noteq> []"
  shows "\<exists>i < length pts. farthest fl pts centers = Some i"
proof -
  obtain p ps where pts: "pts = p # ps" using assms(2) by (cases pts) auto
  have "0 - 1 < foldl (\<lambda>m c. let dd = dist2 fl p c in if dd < m then dd else m) (maxFloat64 fl) centers"
    using assms(1) by (intro min_dist_ok) (simp_all add: squares_ok_def)
  then obtain d where "far_step fl centers (0, p) (None, 0 - 1) = (Some 0, d)" by (simp add: far_step_def)
  then have "farthest fl pts centers \<noteq> None" by (simp add: farthest_def pts far_keeps)
  moreover have "case farthest fl pts centers of None \<Rightarrow> True | Some i \<Rightarrow> i < length pts"
    unfolding farthest_def by (rule far_fold) (auto simp: in_set_enumerate_eq)
  ultimately show ?thesis by (cases "farthest fl pts centers") auto
qed

lemma init_centers_returns:
  assumes "squares_ok fl" and "pts \<noteq> []"
  shows "length centers \<le> k \<Longrightarrow> \<exists>cs. init_centers fl pts k centers = Some cs \<and> length cs = k \<and> (set centers \<subseteq> set pts \<longrightarrow> set cs \<subseteq> set pts)"
proof (induction "k - length centers" arbitrary: centers)
  case 0
  then show ?case by (subst init_centers.simps) simp
next
  case (Suc m)
  obtain i where i: "i < length pts" "farthest fl pts centers = Some i" using farthest_found [OF assms] by blast
  have "m = k - length (centers @ [pts ! i])" "length (centers @ [pts ! i]) \<le> k" using Suc.hyps(2) by simp_all
  from Suc.hyps(1) [OF this] Suc.hyps(2) i show ?case by (subst init_centers.simps) auto
qed

lemma near_center_bound: "best < n \<Longrightarrow> c + length xs \<le> n \<Longrightarrow> near_center fl p c best d xs < n"
  by (induction xs arbitrary: c best d) (simp_all add: Let_def)

lemma near_center_valid: "centers \<noteq> [] \<Longrightarrow> near_center fl p 0 0 d centers < length centers"
  by (rule near_center_bound) simp_all

lemma lloyd3_shape:
  assumes "length assign = length pts" and "list_all (\<lambda>i. i < length centers) assign" and "centers \<noteq> []"
    and "lloyd3 fl mt pts todo first (assign, centers) = (assign', centers')"
  shows "length assign' = length pts \<and> length centers' = length centers \<and> list_all (\<lambda>i. i < length centers) assign'"
  using assms
proof (induction todo arbitrary: first assign centers)
  case 0
  then show ?case by simp
next
  case (Suc todo)
  define as1 where "as1 = map (\<lambda>p. near_center fl p 0 0 (maxFloat64 fl) centers) pts"
  define cs1 where "cs1 = map (\<lambda>(c, x). move_center fl mt pts as1 c x) (enumerate 0 centers)"
  have l: "length cs1 = length centers" by (simp add: cs1_def)
  have a: "length as1 = length pts" "list_all (\<lambda>i. i < length cs1) as1"
    unfolding l by (simp_all add: as1_def list.pred_map list_all_iff near_center_valid [OF Suc.prems(3)])
  have ne: "cs1 \<noteq> []" using Suc.prems(3) l by (metis length_0_conv)
  have step: "lloyd3 fl mt pts (Suc todo) first (assign, centers) =
      (if as1 = assign \<and> \<not> first then (as1, cs1) else lloyd3 fl mt pts todo False (as1, cs1))"
    unfolding as1_def cs1_def by (simp add: Let_def)
  show ?case
  proof (cases "as1 = assign \<and> \<not> first")
    case True
    then show ?thesis using Suc.prems(4) a l unfolding step by auto
  next
    case False
    then have "lloyd3 fl mt pts todo False (as1, cs1) = (assign', centers')" using Suc.prems(4) unfolding step by auto
    from Suc.IH [OF a ne this] show ?thesis by (simp add: l)
  qed
qed

lemma kmeans3_returns:
  assumes "squares_ok fl"
  shows "\<exists>assign centers. kmeans3 fl mt pts k = Some (assign, centers) \<and> length assign = length pts \<and>
    length centers = (if k \<le> 0 then 0 else min (nat k) (length pts)) \<and>
    (0 < k \<longrightarrow> list_all (\<lambda>i. i < length centers) assign)"
proof (cases "length pts = 0 \<or> k \<le> 0")
  case True
  then show ?thesis by (auto simp: kmeans3_def)
next
  case False
  then have ne: "pts \<noteq> []" and k: "length [hd pts] \<le> min (nat k) (length pts)" by (cases pts; simp)+
  obtain cs where cs: "init_centers fl pts (min (nat k) (length pts)) [hd pts] = Some cs" "length cs = min (nat k) (length pts)"
    using init_centers_returns [OF assms ne k] by blast
  obtain assign centers where l: "lloyd3 fl mt pts 25 True (replicate (length pts) 0, cs) = (assign, centers)" by (metis surj_pair)
  have "cs \<noteq> []" using cs(2) k by auto
  then have "length assign = length pts \<and> length centers = length cs \<and> list_all (\<lambda>i. i < length cs) assign"
    by (intro lloyd3_shape [OF _ _ _ l]) (auto simp: list_all_iff)
  then show ?thesis using False cs l by (simp add: kmeans3_def)
qed

text \<open>C32. The clustering always returns: the loop that picks centers ends and finds a point each time (squares
  being no less than zero), so for any points and any \<open>k\<close> there are the smaller of \<open>k\<close> and the number of
  points as centers, and every point is assigned one of them.\<close>
theorem kmeans3_total:
  assumes "squares_ok fl"
  shows "\<exists>assign centers. kmeans3 fl mt pts k = Some (assign, centers) \<and> length assign = length pts \<and>
    length centers = (if k \<le> 0 then 0 else min (nat k) (length pts)) \<and>
    (0 < k \<longrightarrow> list_all (\<lambda>i. i < length centers) assign)"
  by (rule kmeans3_returns [OF assms])

definition exact_floats :: "(rat, rat) floats" where
  "exact_floats = \<lparr>f64 = (\<lambda>x. x), f32 = (\<lambda>x. x), maxFloat64 = 1000000, inverse_count = (\<lambda>n. 1 / of_nat n), float32bits = (\<lambda>_. 0)\<rparr>"

definition exact_maths :: "rat maths" where
  "exact_maths = \<lparr>mt_of = of_nat, mt_sin = (\<lambda>x. x), mt_sqrt = (\<lambda>x. x), mt_tenth = 1 / 10, mt_tiny = 1 / 10 ^ 12,
     mt_small = 1 / 10 ^ 9, mt_scale = 12\<rparr>"

lemma exact_squares: "squares_ok exact_floats"
proof -
  have "0 - 1 < x * x + y * y + z * z" for x y z :: rat
    using zero_le_square [of x] zero_le_square [of y] zero_le_square [of z] by linarith
  then show ?thesis by (simp add: squares_ok_def dist2_def exact_floats_def Let_def split: prod.split)
qed

lemma kmeans3_total_witness:
  "\<exists>assign centers. kmeans3 exact_floats exact_maths [(1, 0, 0), (5, 0, 0), (1, 1, 0)] 2 = Some (assign, centers) \<and>
     length centers = 2"
  using kmeans3_total [OF exact_squares, of exact_maths "[(1, 0, 0), (5, 0, 0), (1, 1, 0)]" 2] by auto

end
