(* ===== verification/Dashboard.thy ===== *)
theory Dashboard
  imports Galaxy McpReplies ProviderClient "HOL-Library.List_Lexorder" "HOL-Library.Char_ord"
begin

text \<open>
  The admin dashboard \<^verbatim>\<open>cmd/sentryadmin\<close> (\<^verbatim>\<open>api.go\<close>, \<^verbatim>\<open>main.go\<close>): the panels it builds from what the server
  answers, its calls of the provider tools, and the routes behind basic authentication. The exchange with
  the server is a transport, as in \<open>ProviderClient\<close>. The order in which Go ranges over a map, HTML
  unescaping, JSON numbers as float32 and the parsing of URLs are arguments.
\<close>

section \<open>Data from the server\<close>

record 'f corpus_item =
  ci_ID :: nat
  ci_Text :: gostring
  ci_Tags :: "gostring list"
  ci_Src :: gostring
  ci_Vec :: "'f list"

record 'f corpus_resp =
  cr_Dim :: int
  cr_Memories :: "'f corpus_item list"

definition dec_item :: "(gostring \<Rightarrow> 'f::zero option) \<Rightarrow> js \<Rightarrow> 'f corpus_item option" where
  "dec_item num v =
     do { fs \<leftarrow> js_fields v;
          i \<leftarrow> dec_field ''id'' dec_uint fs;
          body \<leftarrow> dec_field ''text'' dec_str fs;
          tags \<leftarrow> dec_field ''tags'' (dec_list dec_str) fs;
          src \<leftarrow> dec_field ''src'' dec_str fs;
          vec \<leftarrow> dec_field ''vec'' (dec_list (dec_float num)) fs;
          Some \<lparr>ci_ID = i, ci_Text = body, ci_Tags = tags, ci_Src = src, ci_Vec = vec\<rparr> }"

definition dec_corpus :: "(gostring \<Rightarrow> 'f::zero option) \<Rightarrow> js \<Rightarrow> 'f corpus_resp option" where
  "dec_corpus num v =
     do { fs \<leftarrow> js_fields v;
          _ \<leftarrow> dec_field ''tenant'' dec_int fs;
          d \<leftarrow> dec_field ''dim'' dec_int fs;
          _ \<leftarrow> dec_field ''count'' dec_int fs;
          ms \<leftarrow> dec_field ''memories'' (dec_list (dec_item num)) fs;
          Some \<lparr>cr_Dim = d, cr_Memories = ms\<rparr> }"

record comms_msg =
  cm_Seq :: nat
  cm_Area :: gostring
  cm_From :: gostring
  cm_Kind :: gostring
  cm_Text :: gostring
  cm_Target :: gostring
  cm_Ref :: nat
  cm_TS :: int

definition dec_msg :: "js \<Rightarrow> comms_msg option" where
  "dec_msg v =
     do { fs \<leftarrow> js_fields v;
          q \<leftarrow> dec_field ''seq'' dec_uint fs;
          area \<leftarrow> dec_field ''area'' dec_str fs;
          sender \<leftarrow> dec_field ''from'' dec_str fs;
          kind \<leftarrow> dec_field ''kind'' dec_str fs;
          body \<leftarrow> dec_field ''text'' dec_str fs;
          target \<leftarrow> dec_field ''target'' dec_str fs;
          ref \<leftarrow> dec_field ''ref'' dec_uint fs;
          ts \<leftarrow> dec_field ''ts'' dec_int fs;
          Some \<lparr>cm_Seq = q, cm_Area = area, cm_From = sender, cm_Kind = kind, cm_Text = body, cm_Target = target,
                cm_Ref = ref, cm_TS = ts\<rparr> }"

section \<open>The message board\<close>

record comms_card =
  cc_ID :: nat
  cc_Author :: gostring
  cc_Type :: gostring
  cc_TypeColor :: gostring
  cc_Target :: gostring
  cc_Text :: gostring
  cc_Mins :: int
  cc_Reply :: bool
  cc_Promotable :: bool

record comms_column =
  co_Key :: gostring
  co_Label :: gostring
  co_Color :: gostring
  co_Cards :: "comms_card list"

record comms_board =
  cb_Columns :: "comms_column list"
  cb_Agents :: "gostring list"

definition palette :: "gostring list" where
  "palette = [''#35E6FF'', ''#FF3DCB'', ''#FFB23E'', ''#5B8CFF'', ''#9D7BFF'', ''#9DEE4E'', ''#FF6B8B'']"

definition kindToType :: "gostring \<Rightarrow> gostring" where
  "kindToType k =
     (if k = ''question'' then ''pregunta'' else if k = ''answer'' then ''respuesta''
      else if k = ''info'' then ''info'' else ''nota'')"

definition typeColor :: "gostring \<Rightarrow> gostring" where
  "typeColor t =
     (if t = ''pregunta'' then ''#35E6FF'' else if t = ''respuesta'' then ''#34E5A0''
      else if t = ''info'' then ''#9B6CFF'' else ''#7C8AA5'')"

definition card_of :: "int \<Rightarrow> comms_msg \<Rightarrow> comms_card" where
  "card_of now m =
     (let typ = kindToType (cm_Kind m); mins = wrap64 (now - cm_TS m) div 60000
      in \<lparr>cc_ID = cm_Seq m, cc_Author = cm_From m, cc_Type = typ, cc_TypeColor = typeColor typ, cc_Target = cm_Target m,
          cc_Text = cm_Text m, cc_Mins = (if mins < 0 then 0 else mins), cc_Reply = (cm_Ref m \<noteq> 0),
          cc_Promotable = (typ \<noteq> ''pregunta'')\<rparr>)"

text \<open>The columns in the order of their first message: the Go map from area to column, with its order list.\<close>

definition board_step :: "(gostring \<Rightarrow> gostring) \<Rightarrow> int \<Rightarrow> comms_msg \<Rightarrow> comms_board \<Rightarrow> comms_board" where
  "board_step unesc now m b =
     (let area = unesc (cm_Area m); cols = cb_Columns b;
          cols1 = (if list_ex (\<lambda>c. co_Label c = area) cols then cols
                   else cols @ [\<lparr>co_Key = CHR ''a'' # show_nat (length cols), co_Label = area,
                                 co_Color = palette ! (length cols mod length palette), co_Cards = []\<rparr>])
      in \<lparr>cb_Columns = map (\<lambda>c. if co_Label c = area then c\<lparr>co_Cards := co_Cards c @ [card_of now m]\<rparr> else c) cols1,
          cb_Agents = (if cm_From m \<noteq> [] \<and> cm_From m \<notin> set (cb_Agents b) then cb_Agents b @ [cm_From m] else cb_Agents b)\<rparr>)"

definition buildComms :: "(gostring \<Rightarrow> gostring) \<Rightarrow> int \<Rightarrow> comms_msg list \<Rightarrow> comms_board" where
  "buildComms unesc now msgs = fold (board_step unesc now) msgs \<lparr>cb_Columns = [], cb_Agents = []\<rparr>"

definition emptyComms :: comms_board where
  "emptyComms = \<lparr>cb_Columns = [], cb_Agents = []\<rparr>"

section \<open>The galaxy\<close>

text \<open>The agents of \<^verbatim>\<open>tenantInfo\<close> are a field of \<open>galaxy_data\<close>, so that the table of tenants has the same records.\<close>

record ('f, 'g) galaxy_point =
  gp_ID :: gostring
  gp_Tenant :: gostring
  gp_Cluster :: nat
  gp_ClusterKey :: gostring
  gp_ClusterLabel :: gostring
  gp_Color :: gostring
  gp_Pos :: "'f point"
  gp_Text :: gostring
  gp_Tags :: "gostring list"
  gp_Source :: gostring
  gp_Access :: int
  gp_Heat :: 'g
  gp_CreatedAt :: int
  gp_Dim :: int

record 'f galaxy_cluster =
  gc_Key :: gostring
  gc_Label :: gostring
  gc_Color :: gostring
  gc_Center :: "'f point"
  gc_Count :: nat

record tenant_info =
  ti_Key :: gostring
  ti_Name :: gostring
  ti_Glyph :: gostring
  ti_Accent :: gostring

record ('f, 'g) galaxy_data =
  gd_Tenant :: tenant_info
  gd_Agents :: "gostring list"
  gd_Clusters :: "'f galaxy_cluster list"
  gd_Points :: "('f, 'g) galaxy_point list"

definition star :: gostring where "star = [CHR 0xE2, CHR 0x9C, CHR 0xA6]"

definition tenantMeta :: "gostring \<Rightarrow> tenant_info" where
  "tenantMeta k =
     (let mk = (\<lambda>name glyph accent. \<lparr>ti_Key = k, ti_Name = name, ti_Glyph = glyph, ti_Accent = accent\<rparr>)
      in if k = ''personal'' then mk ''Personal'' star ''#FFB23E''
         else if k = ''blazesphere'' then mk ''BlazeSphere'' [CHR 0xE2, CHR 0x97, CHR 0x86] ''#35E6FF''
         else if k = ''kuadre'' then mk ''Kuadre'' [CHR 0xE2, CHR 0x96, CHR 0xB2] ''#FF3DCB''
         else if k = ''roundplay'' then mk ''Round PlayGames'' [CHR 0xE2, CHR 0x97, CHR 0x8F] ''#9DEE4E''
         else mk k star ''#35E6FF'')"

text \<open>The label of a cluster: the most frequent first tag of its members, of equally frequent ones the least.
  \<open>order\<close> is the order in which Go ranges over the frequencies.\<close>

definition first_tags :: "'f corpus_item list \<Rightarrow> nat list \<Rightarrow> nat \<Rightarrow> gostring list" where
  "first_tags items assign c = map (\<lambda>(m, a). hd (ci_Tags m)) (filter (\<lambda>(m, a). a = c \<and> ci_Tags m \<noteq> []) (zip items assign))"

definition label_step :: "gostring list \<Rightarrow> gostring \<Rightarrow> gostring \<times> nat \<Rightarrow> gostring \<times> nat" where
  "label_step firsts tag bn =
     (let f = count_list firsts tag
      in if f > snd bn \<or> (f = snd bn \<and> tag < fst bn) then (tag, f) else bn)"

definition label_of :: "(gostring list \<Rightarrow> gostring list) \<Rightarrow> gostring list \<Rightarrow> nat \<Rightarrow> gostring" where
  "label_of order firsts c =
     (let best = fst (fold (label_step firsts) (order (remdups firsts)) ([], 0))
      in if best = [] then ''grupo '' @ show_nat (c + 1) else best)"

fun agents_loop :: "'f corpus_item list \<Rightarrow> gostring list \<Rightarrow> gostring list \<Rightarrow> gostring list" where
  "agents_loop [] seen out = out"
| "agents_loop (m # ms) seen out =
     (if ci_Src m \<noteq> [] \<and> ci_Src m \<notin> set seen
      then let out1 = out @ [''agent-'' @ ci_Src m]
           in if length out1 \<ge> 6 then out1 else agents_loop ms (ci_Src m # seen) out1
      else agents_loop ms seen out)"

definition deriveAgents :: "'f corpus_resp \<Rightarrow> gostring list" where
  "deriveAgents cr =
     (let agents = agents_loop (cr_Memories cr) [] [] in if agents = [] then [''agent-self'', ''agent-recall''] else agents)"

definition cluster_count :: "nat \<Rightarrow> nat" where
  "cluster_count n =
     (let k0 = n div 12; k1 = (if k0 < 2 then 2 else k0); k2 = (if k1 > 6 then 6 else k1)
      in if k2 > n \<and> n > 0 then n else k2)"

text \<open>\<open>trunc\<close> converts a float64 to an int. \<open>None\<close> is a panic: an index out of range.\<close>

definition galaxy_point_of :: "'g::{zero,times,inverse} maths \<Rightarrow> ('g \<Rightarrow> int) \<Rightarrow> int \<Rightarrow> gostring \<Rightarrow> int \<Rightarrow> nat \<Rightarrow> nat list \<Rightarrow> 'f point list \<Rightarrow>
    gostring list \<Rightarrow> 'f galaxy_cluster list \<Rightarrow> nat \<times> 'f corpus_item \<Rightarrow> ('f, 'g) galaxy_point option" where
  "galaxy_point_of mt trunc now tkey d n assign pos labels clusters im =
     (case im of (i, m) \<Rightarrow>
        let c = (if i < length assign then assign ! i else 0);
            heat = (if n > 1 then mt_of mt i / mt_of mt (n - 1) else 0)
        in do { cl \<leftarrow> nth_opt clusters c;
                l \<leftarrow> nth_opt labels c;
                p \<leftarrow> nth_opt pos i;
                Some \<lparr>gp_ID = CHR ''m'' # show_nat (ci_ID m), gp_Tenant = tkey, gp_Cluster = c, gp_ClusterKey = gc_Key cl,
                  gp_ClusterLabel = l, gp_Color = palette ! (c mod length palette), gp_Pos = p, gp_Text = ci_Text m,
                  gp_Tags = ci_Tags m, gp_Source = ci_Src m, gp_Access = trunc (heat * mt_of mt 1000) + 1, gp_Heat = heat,
                  gp_CreatedAt = now, gp_Dim = d\<rparr> })"

definition buildGalaxy :: "('f::{zero,minus}, 'g::{linorder,zero,one,plus,minus,times,inverse}) floats \<Rightarrow> 'g maths \<Rightarrow> ('g \<Rightarrow> int) \<Rightarrow>
    (nat \<Rightarrow> gostring list \<Rightarrow> gostring list) \<Rightarrow> int \<Rightarrow> gostring \<Rightarrow> 'f corpus_resp \<Rightarrow> ('f, 'g) galaxy_data option" where
  "buildGalaxy fl mt trunc order now tk cr =
     (let items = cr_Memories cr; n = length items; pos = pca3 fl mt (map ci_Vec items); tm = tenantMeta tk
      in do { (assign, centers) \<leftarrow> kmeans3 fl mt pos (int (cluster_count n));
              let labels = map (\<lambda>c. label_of (order c) (first_tags items assign c) c) [0..<length centers];
              let clusters = map (\<lambda>(c, x). \<lparr>gc_Key = CHR ''c'' # show_nat c, gc_Label = labels ! c,
                    gc_Color = palette ! (c mod length palette), gc_Center = x, gc_Count = 0\<rparr>) (enumerate 0 centers);
              pts \<leftarrow> those (map (galaxy_point_of mt trunc now (ti_Key tm) (cr_Dim cr) n assign pos labels clusters) (enumerate 0 items));
              let counted = map (\<lambda>(c, cl). cl\<lparr>gc_Count := count_list (map gp_Cluster pts) c\<rparr>) (enumerate 0 clusters);
              Some \<lparr>gd_Tenant = tm, gd_Agents = deriveAgents cr, gd_Clusters = sort_key gc_Key counted, gd_Points = pts\<rparr> })"

section \<open>The handlers\<close>

text \<open>\<open>ad_URL\<close> says which URLs \<^verbatim>\<open>http.NewRequest\<close> accepts.\<close>

record admin =
  ad_User :: gostring
  ad_Pass :: gostring
  ad_MCP :: gostring
  ad_Token :: gostring
  ad_URL :: "gostring \<Rightarrow> bool"

record admin_in =
  di_Method :: gostring
  di_Path :: gostring
  di_Query :: "gostring \<Rightarrow> gostring"
  di_Creds :: "(gostring \<times> gostring) option"
  di_Body :: body

datatype ('f, 'g) page =
  DGalaxy "('f, 'g) galaxy_data"
| DComms comms_board
| DCopy body
| DValue js
| DFail nat gostring
| DPanic
| DFiles gostring
| DHealthy
| DRedirect
| DUnauthorized

record ('f, 'g) panel_env =
  pe_fl :: "('f, 'g) floats"
  pe_mt :: "'g maths"
  pe_trunc :: "'g \<Rightarrow> int"
  pe_num :: "gostring \<Rightarrow> 'f option"
  pe_order :: "nat \<Rightarrow> gostring list \<Rightarrow> gostring list"
  pe_unesc :: "gostring \<Rightarrow> gostring"

definition bearer :: "admin \<Rightarrow> (gostring \<times> gostring) list" where
  "bearer ad = (if ad_Token ad \<noteq> [] then [(''Authorization'', ''Bearer '' @ ad_Token ad)] else [])"

definition get_request :: "admin \<Rightarrow> gostring \<Rightarrow> http_request" where
  "get_request ad path = \<lparr>hq_Method = ''GET'', hq_Target = ad_MCP ad @ path, hq_Headers = bearer ad, hq_Body = Some []\<rparr>"

text \<open>The body of a successful GET of the server.\<close>

definition fetch :: "admin \<Rightarrow> 's transport \<Rightarrow> gostring \<Rightarrow> 's \<Rightarrow> 's \<times> body option" where
  "fetch ad tr path s =
     (if \<not> ad_URL ad (ad_MCP ad @ path) then (s, None)
      else case tr (get_request ad path) s of
             (s', Inl _) \<Rightarrow> (s', None)
           | (s', Inr r) \<Rightarrow> (s', if hr_Status r = 200 then Some (hr_Body r) else None))"

definition handleGalaxy :: "('f::{zero,minus}, 'g::{linorder,zero,one,plus,minus,times,inverse}) panel_env \<Rightarrow> admin \<Rightarrow> 's transport \<Rightarrow>
    int \<Rightarrow> admin_in \<Rightarrow> 's \<Rightarrow> 's \<times> ('f, 'g) page" where
  "handleGalaxy pe ad tr now di s =
     (let q = di_Query di ''tenant''; tk = (if q = [] then ''personal'' else q)
      in case fetch ad tr ''/admin/corpus'' s of
           (s', b) \<Rightarrow>
             (s', case Option.bind (Option.bind b first_value) (dec_corpus (pe_num pe)) of
                    None \<Rightarrow> DFail 502 ''upstream''
                  | Some cr \<Rightarrow>
                      (case buildGalaxy (pe_fl pe) (pe_mt pe) (pe_trunc pe) (pe_order pe) now tk cr of
                         None \<Rightarrow> DPanic | Some g \<Rightarrow> DGalaxy g)))"

definition dec_comms :: "js \<Rightarrow> comms_msg list option" where
  "dec_comms v = Option.bind (js_fields v) (dec_field ''messages'' (dec_list dec_msg))"

definition handleComms :: "('f, 'g) panel_env \<Rightarrow> admin \<Rightarrow> 's transport \<Rightarrow> int \<Rightarrow> 's \<Rightarrow> 's \<times> ('f, 'g) page" where
  "handleComms pe ad tr now s =
     (case fetch ad tr ''/admin/comms'' s of
        (s', b) \<Rightarrow> (s', DComms (case Option.bind (Option.bind b first_value) dec_comms of
                                None \<Rightarrow> emptyComms | Some ms \<Rightarrow> buildComms (pe_unesc pe) now ms)))"

definition handleJournal :: "admin \<Rightarrow> 's transport \<Rightarrow> admin_in \<Rightarrow> 's \<Rightarrow> 's \<times> ('f, 'g) page" where
  "handleJournal ad tr di s =
     (let limit = di_Query di ''limit''; path = ''/admin/journal'' @ (if limit \<noteq> [] then ''?limit='' @ limit else [])
      in if \<not> ad_URL ad (ad_MCP ad @ path) then (s, DFail 502 ''bad request'')
         else case fetch ad tr path s of
                (s', None) \<Rightarrow> (s', DFail 502 ''upstream'')
              | (s', Some b) \<Rightarrow> (s', DCopy b))"

text \<open>The structured content of a tool's answer; \<open>None\<close> is any error.\<close>

definition tool_request :: "admin \<Rightarrow> gostring \<Rightarrow> (gostring \<times> js) list \<Rightarrow> http_request" where
  "tool_request ad name args =
     \<lparr>hq_Method = ''POST'', hq_Target = ad_MCP ad @ ''/mcp'',
      hq_Headers = [(''Content-Type'', ''application/json''), (''Accept'', ''application/json'')] @ bearer ad,
      hq_Body = Some [tool_call name args]\<rparr>"

definition structured_of :: "js \<Rightarrow> js option" where
  "structured_of v =
     do { fs \<leftarrow> js_fields v;
          _ \<leftarrow> (case raw_field ''error'' fs of None \<Rightarrow> Some () | Some JsNull \<Rightarrow> Some () | _ \<Rightarrow> None);
          r \<leftarrow> raw_field ''result'' fs;
          rs \<leftarrow> js_fields r;
          if bool_ok rs ''isError'' \<and> \<not> get_bool ''isError'' rs
          then (case raw_field ''structuredContent'' rs of None \<Rightarrow> None | Some JsNull \<Rightarrow> None | Some x \<Rightarrow> Some x)
          else None }"

definition callProviderTool :: "admin \<Rightarrow> 's transport \<Rightarrow> gostring \<Rightarrow> (gostring \<times> js) list \<Rightarrow> 's \<Rightarrow> 's \<times> js option" where
  "callProviderTool ad tr name args s =
     (if \<not> ad_URL ad (ad_MCP ad @ ''/mcp'') then (s, None)
      else case tr (tool_request ad name args) s of
             (s', Inl _) \<Rightarrow> (s', None)
           | (s', Inr r) \<Rightarrow>
               (s', if hr_Status r = 200 then Option.bind (first_value (hr_Body r)) structured_of else None))"

definition handleProviders :: "admin \<Rightarrow> 's transport \<Rightarrow> admin_in \<Rightarrow> 's \<Rightarrow> 's \<times> ('f, 'g) page" where
  "handleProviders ad tr di s =
     (if di_Method di \<noteq> ''GET'' then (s, DFail 405 ''method not allowed'')
      else case callProviderTool ad tr ''provider_list'' [] s of
             (s', None) \<Rightarrow> (s', DFail 502 ''provider query failed'')
           | (s', Some v) \<Rightarrow> (s', DValue v))"

text \<open>The body of an action: one object of at most 16 KiB with known fields only.\<close>

definition action_input :: "body \<Rightarrow> (gostring \<times> gostring \<times> gostring) option" where
  "action_input b =
     (let names = [''action'', ''provider'', ''loginId'']
      in case b of
           Some [v] \<Rightarrow>
             if length (js_text v) > 16 * 1024 then None
             else (case js_fields v of
                     None \<Rightarrow> None
                   | Some fs \<Rightarrow>
                       if list_all (\<lambda>(k, _). list_ex (\<lambda>n. key_is n k) names) fs \<and> list_all (str_ok fs) names
                       then Some (trim_space (get_str ''action'' fs), trim_space (get_str ''provider'' fs),
                                  trim_space (get_str ''loginId'' fs))
                       else None)
         | _ \<Rightarrow> None)"

definition action_tool :: "gostring \<Rightarrow> gostring \<Rightarrow> gostring \<Rightarrow> gostring + gostring \<times> (gostring \<times> js) list" where
  "action_tool action provider loginId =
     (if action = ''connect'' then Inr (''provider_connect'', [(''provider'', JsStr provider)])
      else if action = ''cancel''
      then if loginId = [] then Inl ''loginId is required''
           else Inr (''provider_connect_cancel'', [(''loginId'', JsStr loginId), (''provider'', JsStr provider)])
      else if action = ''disconnect'' then Inr (''provider_disconnect'', [(''provider'', JsStr provider)])
      else Inl ''unknown action'')"

definition handleProviderAction :: "admin \<Rightarrow> 's transport \<Rightarrow> admin_in \<Rightarrow> 's \<Rightarrow> 's \<times> ('f, 'g) page" where
  "handleProviderAction ad tr di s =
     (if di_Method di \<noteq> ''POST'' then (s, DFail 405 ''method not allowed'')
      else case action_input (di_Body di) of
             None \<Rightarrow> (s, DFail 400 ''invalid request'')
           | Some (action, provider, loginId) \<Rightarrow>
               if provider = [] then (s, DFail 400 ''provider is required'')
               else case action_tool action provider loginId of
                      Inl e \<Rightarrow> (s, DFail 400 e)
                    | Inr (tool, args) \<Rightarrow>
                        (case callProviderTool ad tr tool args s of
                           (s', None) \<Rightarrow> (s', DFail 502 ''provider action failed'')
                         | (s', Some v) \<Rightarrow> (s', DValue v)))"

section \<open>Routes\<close>

definition basicAuth :: "admin \<Rightarrow> admin_in \<Rightarrow> bool" where
  "basicAuth ad di \<longleftrightarrow>
     (ad_User ad = [] \<and> ad_Pass ad = []) \<or>
     (let (u, p) = (case di_Creds di of None \<Rightarrow> ([], []) | Some c \<Rightarrow> c)
      in di_Creds di \<noteq> None \<and> u = ad_User ad \<and> p = ad_Pass ad)"

definition serve_admin :: "('f::{zero,minus}, 'g::{linorder,zero,one,plus,minus,times,inverse}) panel_env \<Rightarrow> admin \<Rightarrow> 's transport \<Rightarrow>
    int \<Rightarrow> admin_in \<Rightarrow> 's \<Rightarrow> 's \<times> ('f, 'g) page" where
  "serve_admin pe ad tr now di s =
     (let p = di_Path di; live = ad_MCP ad \<noteq> []
      in if \<not> clean_path p then (s, DRedirect)
         else if p = ''/healthz'' then (s, DHealthy)
         else if \<not> basicAuth ad di then (s, DUnauthorized)
         else if live \<and> p = ''/api/galaxy'' then handleGalaxy pe ad tr now di s
         else if live \<and> p = ''/api/comms'' then handleComms pe ad tr now s
         else if live \<and> p = ''/api/journal'' then handleJournal ad tr di s
         else if live \<and> p = ''/api/providers'' then handleProviders ad tr di s
         else if live \<and> p = ''/api/providers/action'' then handleProviderAction ad tr di s
         else (s, DFiles p))"

end
