(* ===== verification/DashProps.thy ===== *)
theory DashProps
  imports Dashboard
begin

text \<open>
  What the dashboard may do and what it shows: which requests it makes for whom, the message board
  against its specification, the galaxy's account of the corpus, and that an action on a provider runs the
  server's tool.
\<close>

section \<open>Requests\<close>

definition authorized :: "admin \<Rightarrow> admin_in \<Rightarrow> bool" where
  "authorized ad di \<longleftrightarrow> (ad_User ad = [] \<and> ad_Pass ad = []) \<or> di_Creds di = Some (ad_User ad, ad_Pass ad)"

lemma basicAuth_authorized: "basicAuth ad di = authorized ad di"
  by (auto simp: basicAuth_def authorized_def split: option.split)

text \<open>The requests that a visitor can cause: three GETs, the list of providers, and three tools on a provider.\<close>

definition allowed_request :: "admin \<Rightarrow> admin_in \<Rightarrow> http_request \<Rightarrow> bool" where
  "allowed_request ad di rq \<longleftrightarrow>
     (rq = get_request ad ''/admin/corpus'' \<or> rq = get_request ad ''/admin/comms'' \<or>
      (\<exists>q. rq = get_request ad (''/admin/journal'' @ q)) \<or>
      (di_Method di = ''GET'' \<and> rq = tool_request ad ''provider_list'' []) \<or>
      (\<exists>action p l tool args. di_Method di = ''POST'' \<and> action_input (di_Body di) = Some (action, p, l) \<and> p \<noteq> [] \<and>
         action_tool action p l = Inr (tool, args) \<and> rq = tool_request ad tool args))"

lemma fetch_request: "fst (fetch ad tr path s) = s \<or> fst (fetch ad tr path s) = fst (tr (get_request ad path) s)"
  by (auto simp: fetch_def split: prod.splits sum.splits)

lemma call_request: "fst (callProviderTool ad tr tool args s) = s \<or> fst (callProviderTool ad tr tool args s) = fst (tr (tool_request ad tool args) s)"
  by (auto simp: callProviderTool_def split: prod.splits sum.splits)

definition one_request :: "admin \<Rightarrow> admin_in \<Rightarrow> 's transport \<Rightarrow> 's \<Rightarrow> 's \<Rightarrow> bool" where
  "one_request ad di tr s s' \<longleftrightarrow> s' = s \<or> (\<exists>rq. allowed_request ad di rq \<and> s' = fst (tr rq s))"

lemma one_fetch:
  assumes "allowed_request ad di (get_request ad path)"
  shows "one_request ad di tr s (fst (fetch ad tr path s))"
  using fetch_request [of ad tr path s] assms by (auto simp: one_request_def)

lemma one_call:
  assumes "allowed_request ad di (tool_request ad tool args)"
  shows "one_request ad di tr s (fst (callProviderTool ad tr tool args s))"
  using call_request [of ad tr tool args s] assms by (auto simp: one_request_def)

lemma one_refl [simp]: "one_request ad di tr s s"
  by (simp add: one_request_def)

lemma handlers_one_request:
  "one_request ad di tr s (fst (handleGalaxy pe ad tr now di s))"
  "one_request ad di tr s (fst (handleComms pe ad tr now s))"
  "one_request ad di tr s (fst (handleJournal ad tr di s))"
  "one_request ad di tr s (fst (handleProviders ad tr di s))"
  "one_request ad di tr s (fst (handleProviderAction ad tr di s))"
proof -
  have a: "allowed_request ad di (get_request ad ''/admin/corpus'')" "allowed_request ad di (get_request ad ''/admin/comms'')"
    "allowed_request ad di (get_request ad (''/admin/journal'' @ q))" for q
    by (auto simp: allowed_request_def)
  show "one_request ad di tr s (fst (handleGalaxy pe ad tr now di s))"
    using one_fetch [OF a(1), of tr s] by (simp add: handleGalaxy_def Let_def split_def)
  show "one_request ad di tr s (fst (handleComms pe ad tr now s))"
    using one_fetch [OF a(2), of tr s] by (simp add: handleComms_def split_def)
  define q where "q = (if di_Query di ''limit'' \<noteq> [] then ''?limit='' @ di_Query di ''limit'' else [])"
  have j: "handleJournal ad tr di s =
     (if \<not> ad_URL ad (ad_MCP ad @ ''/admin/journal'' @ q) then (s, DFail 502 ''bad request'')
      else case fetch ad tr (''/admin/journal'' @ q) s of
             (s', None) \<Rightarrow> (s', DFail 502 ''upstream'')
           | (s', Some b) \<Rightarrow> (s', DCopy b))"
    unfolding handleJournal_def q_def Let_def ..
  show "one_request ad di tr s (fst (handleJournal ad tr di s))"
    unfolding j using one_fetch [OF a(3) [of q], of tr s] by (simp add: split_def split: option.split)
  show "one_request ad di tr s (fst (handleProviders ad tr di s))"
    using one_call [of ad di "''provider_list''" "[]" tr s]
    by (auto simp: handleProviders_def allowed_request_def split_def split: option.split)
  show "one_request ad di tr s (fst (handleProviderAction ad tr di s))"
  proof (cases "action_input (di_Body di)")
    case (Some x)
    obtain action p l where x: "x = (action, p, l)" by (cases x)
    have c: "allowed_request ad di (tool_request ad tool args)"
      if "di_Method di = ''POST''" "p \<noteq> []" "action_tool action p l = Inr (tool, args)" for tool args
      using that Some x by (auto simp: allowed_request_def)
    show ?thesis
      using Some x one_call [OF c, of _ _ tr s]
      by (auto simp: handleProviderAction_def split_def split: sum.split option.split)
  qed (simp add: handleProviderAction_def)
qed


section \<open>The message board\<close>

definition first_seen :: "'a list \<Rightarrow> 'a list" where
  "first_seen xs = fold (\<lambda>x out. if x \<in> set out then out else out @ [x]) xs []"

lemma first_seen_snoc: "first_seen (xs @ [x]) = (if x \<in> set (first_seen xs) then first_seen xs else first_seen xs @ [x])"
  by (simp add: first_seen_def)

lemma set_first_seen: "set (first_seen xs) = set xs"
  by (induction xs rule: rev_induct) (auto simp: first_seen_snoc, simp add: first_seen_def)

lemma distinct_first_seen: "distinct (first_seen xs)"
  by (induction xs rule: rev_induct) (auto simp: first_seen_snoc, simp add: first_seen_def)

text \<open>The specification: one column per area, in order of appearance, with all its messages.\<close>

definition board_spec :: "(gostring \<Rightarrow> gostring) \<Rightarrow> int \<Rightarrow> comms_msg list \<Rightarrow> comms_board" where
  "board_spec unesc now msgs =
     \<lparr>cb_Columns = map (\<lambda>(i, area). \<lparr>co_Key = CHR ''a'' # show_nat i, co_Label = area,
          co_Color = palette ! (i mod length palette),
          co_Cards = map (card_of now) (filter (\<lambda>m. unesc (cm_Area m) = area) msgs)\<rparr>)
        (enumerate 0 (first_seen (map (\<lambda>m. unesc (cm_Area m)) msgs))),
      cb_Agents = first_seen (filter (\<lambda>a. a \<noteq> []) (map cm_From msgs))\<rparr>"

lemma ex_label: "list_ex (\<lambda>c. f c = x) cs \<longleftrightarrow> x \<in> f ` set cs"
  by (induction cs) auto

lemma board_step_spec: "board_step unesc now m (board_spec unesc now msgs) = board_spec unesc now (msgs @ [m])"
proof -
  let ?areas = "first_seen (map (\<lambda>m. unesc (cm_Area m)) msgs)" and ?a = "unesc (cm_Area m)"
  let ?col = "\<lambda>i area ms. \<lparr>co_Key = CHR ''a'' # show_nat i, co_Label = area, co_Color = palette ! (i mod length palette),
          co_Cards = map (card_of now) (filter (\<lambda>m. unesc (cm_Area m) = area) ms)\<rparr>"
  have labels: "list_ex (\<lambda>c. co_Label c = x) (map (\<lambda>(i, area). ?col i area msgs) (enumerate 0 ?areas)) \<longleftrightarrow> x \<in> set ?areas" for x
  proof -
    have "map co_Label (map (\<lambda>(i, area). ?col i area msgs) (enumerate 0 ?areas)) = map snd (enumerate 0 ?areas)"
      by (simp add: comp_def split_def)
    then have "co_Label ` set (map (\<lambda>(i, area). ?col i area msgs) (enumerate 0 ?areas)) = set ?areas"
      by (metis list.set_map map_snd_enumerate)
    then show ?thesis by (simp only: ex_label)
  qed
  have none: "filter (\<lambda>m. unesc (cm_Area m) = ?a) msgs = []" if "?a \<notin> set ?areas"
    using that by (simp add: filter_empty_conv set_first_seen image_iff) metis
  show ?thesis
    using labels [of ?a] none
    by (auto simp: board_step_def board_spec_def Let_def first_seen_snoc enumerate_append_eq simp del: list_ex_iff)
qed

text \<open>The message board shows every message once and in its place: there is one column for each area, after
  unescaping, in the order of first appearance, holding a card for every message of the area in the
  server's order, and the agents are the senders, each once, in the order of first appearance.\<close>
theorem buildComms_spec: "buildComms unesc now msgs = board_spec unesc now msgs"
  unfolding buildComms_def
proof (induction msgs rule: rev_induct)
  case Nil
  show ?case by (simp add: board_spec_def first_seen_def)
next
  case (snoc m msgs)
  then show ?case by (simp add: board_step_spec)
qed

section \<open>The galaxy\<close>

lemma pca3_length: "length (pca3 fl mt vecs) = length vecs"
  by (simp add: pca3_def centered_def Let_def split: list.split)

lemma those_map_Some: "(\<And>x. x \<in> set xs \<Longrightarrow> f x = Some (g x)) \<Longrightarrow> those (map f xs) = Some (map g xs)"
  by (induction xs) simp_all

lemma pick_commute:
  fixes x y b :: "'a::linorder" and f g n :: nat
  defines "better \<equiv> \<lambda>t f bn. if f > snd bn \<or> (f = snd bn \<and> t < fst bn) then (t, f) else bn"
  assumes "x = y \<Longrightarrow> f = g"
  shows "better x f (better y g (b, n)) = better y g (better x f (b, n))"
  using assms(2) unfolding better_def
  by (cases f g rule: linorder_cases; cases x y rule: linorder_cases; cases x b rule: linorder_cases;
      cases y b rule: linorder_cases) auto

lemma label_step_commute: "label_step firsts x \<circ> label_step firsts y = label_step firsts y \<circ> label_step firsts x"
proof
  fix bn :: "gostring \<times> nat"
  show "(label_step firsts x \<circ> label_step firsts y) bn = (label_step firsts y \<circ> label_step firsts x) bn"
    using pick_commute [of x y "count_list firsts x" "count_list firsts y" "fst bn" "snd bn"]
    by (simp only: label_step_def comp_def Let_def prod.collapse)
qed

text \<open>Ranging over a map meets each key once, in any order.\<close>

definition ranges :: "(nat \<Rightarrow> gostring list \<Rightarrow> gostring list) \<Rightarrow> bool" where
  "ranges order \<longleftrightarrow> (\<forall>c xs. mset (order c xs) = mset xs)"

lemma label_of_order:
  assumes "ranges o1" and "ranges o2"
  shows "label_of (o1 c) firsts c = label_of (o2 c) firsts c"
proof -
  have "mset (o1 c (remdups firsts)) = mset (o2 c (remdups firsts))" using assms by (simp add: ranges_def)
  then have "fold (label_step firsts) (o1 c (remdups firsts)) = fold (label_step firsts) (o2 c (remdups firsts))"
    by (intro fold_multiset_equiv label_step_commute)
  then show ?thesis by (simp add: label_of_def)
qed

lemma count_list_inj: "(\<And>x y. f x = f y \<longleftrightarrow> x = y) \<Longrightarrow> count_list (map f xs) (f x) = count_list xs x"
  by (induction xs) auto

lemma agents_nonempty: "deriveAgents cr \<noteq> []"
  by (simp add: deriveAgents_def Let_def)

lemma buildGalaxy_order:
  assumes "ranges o1" and "ranges o2"
  shows "buildGalaxy fl mt trunc o1 now tk cr = buildGalaxy fl mt trunc o2 now tk cr"
  unfolding buildGalaxy_def label_of_order [OF assms] ..

lemma cluster_count_bounds: "0 < n \<Longrightarrow> 0 < cluster_count n \<and> cluster_count n \<le> n"
  by (auto simp: cluster_count_def Let_def)

lemma buildGalaxy_shape:
  assumes "squares_ok fl"
  shows "\<exists>g. buildGalaxy fl mt trunc order now tk cr = Some g \<and>
    map gp_ID (gd_Points g) = map (\<lambda>m. CHR ''m'' # show_nat (ci_ID m)) (cr_Memories cr) \<and>
    sum_list (map gc_Count (gd_Clusters g)) = length (cr_Memories cr) \<and>
    list_all (\<lambda>cl. gc_Count cl = count_list (map gp_ClusterKey (gd_Points g)) (gc_Key cl)) (gd_Clusters g) \<and>
    gd_Agents g \<noteq> []"
proof -
  define items where "items = cr_Memories cr"
  define n where "n = length items"
  define pos where "pos = pca3 fl mt (map ci_Vec items)"
  have lp: "length pos = n" by (simp add: pos_def n_def pca3_length)
  obtain assign centers where k: "kmeans3 fl mt pos (int (cluster_count n)) = Some (assign, centers)"
    and la: "length assign = n" and val: "n > 0 \<Longrightarrow> list_all (\<lambda>i. i < length centers) assign"
  proof -
    obtain assign centers where "kmeans3 fl mt pos (int (cluster_count n)) = Some (assign, centers)" "length assign = length pos"
      "0 < int (cluster_count n) \<longrightarrow> list_all (\<lambda>i. i < length centers) assign"
      using kmeans3_returns [OF assms] by blast
    then show thesis using that [of assign centers] cluster_count_bounds [of n] lp by simp
  qed
  define labels where "labels = map (\<lambda>c. label_of (order c) (first_tags items assign c) c) [0..<length centers]"
  define clusters where "clusters = map (\<lambda>(c, x). \<lparr>gc_Key = CHR ''c'' # show_nat c, gc_Label = labels ! c,
      gc_Color = palette ! (c mod length palette), gc_Center = x, gc_Count = 0\<rparr>) (enumerate 0 centers)"
  have lc: "length labels = length centers" "length clusters = length centers" by (simp_all add: labels_def clusters_def)
  let ?f = "galaxy_point_of mt trunc now (ti_Key (tenantMeta tk)) (cr_Dim cr) n assign pos labels clusters"
  have f: "?f im = Some (the (?f im))" "gp_ID (the (?f im)) = CHR ''m'' # show_nat (ci_ID (snd im))"
    "gp_Cluster (the (?f im)) = assign ! fst im" "gp_ClusterKey (the (?f im)) = CHR ''c'' # show_nat (assign ! fst im)"
    "assign ! fst im < length centers" if im: "im \<in> set (enumerate 0 items)" for im
  proof -
    obtain i m where e: "im = (i, m)" by (cases im)
    moreover have "i < n" using im by (simp add: e in_set_enumerate_eq n_def)
    moreover then have "assign ! i < length centers" using val la by (simp add: list_all_length)
    ultimately show "?f im = Some (the (?f im))" "gp_ID (the (?f im)) = CHR ''m'' # show_nat (ci_ID (snd im))"
      "gp_Cluster (the (?f im)) = assign ! fst im" "gp_ClusterKey (the (?f im)) = CHR ''c'' # show_nat (assign ! fst im)"
      "assign ! fst im < length centers"
      using la lp lc by (simp_all add: galaxy_point_of_def nth_opt_def Let_def clusters_def nth_enumerate_eq)
  qed
  define pts where "pts = map (\<lambda>im. the (?f im)) (enumerate 0 items)"
  have pts: "those (map ?f (enumerate 0 items)) = Some pts" unfolding pts_def by (rule those_map_Some) (rule f(1))
  define counted where "counted = map (\<lambda>(c, cl). cl\<lparr>gc_Count := count_list (map gp_Cluster pts) c\<rparr>) (enumerate 0 clusters)"
  have build: "buildGalaxy fl mt trunc order now tk cr =
      Some \<lparr>gd_Tenant = tenantMeta tk, gd_Agents = deriveAgents cr, gd_Clusters = sort_key gc_Key counted, gd_Points = pts\<rparr>"
    unfolding buildGalaxy_def Let_def items_def [symmetric] n_def [symmetric] pos_def [symmetric] k
    by (simp add: labels_def [symmetric] clusters_def [symmetric] pts counted_def)
  have ids: "map gp_ID pts = map (\<lambda>m. CHR ''m'' # show_nat (ci_ID m)) items"
  proof -
    have "map gp_ID pts = map (\<lambda>im. CHR ''m'' # show_nat (ci_ID (snd im))) (enumerate 0 items)"
      unfolding pts_def map_map comp_def by (rule map_cong [OF refl]) (rule f(2))
    also have "\<dots> = map (\<lambda>m. CHR ''m'' # show_nat (ci_ID m)) (map snd (enumerate 0 items))"
      by (simp only: map_map comp_def)
    finally show ?thesis by (simp only: map_snd_enumerate)
  qed
  have keys: "map gp_ClusterKey pts = map (\<lambda>c. CHR ''c'' # show_nat c) (map gp_Cluster pts)"
    unfolding pts_def map_map comp_def by (rule map_cong [OF refl]) (simp add: f(3,4))
  have cs: "set (map gp_Cluster pts) \<subseteq> {0..<length centers}"
  proof
    fix x assume "x \<in> set (map gp_Cluster pts)"
    then obtain im where "im \<in> set (enumerate 0 items)" "x = gp_Cluster (the (?f im))" by (auto simp: pts_def)
    then show "x \<in> {0..<length centers}" using f(3,5) [of im] by simp
  qed
  have counts: "map gc_Count counted = map (count_list (map gp_Cluster pts)) [0..<length centers]"
  proof -
    have "map gc_Count counted = map (count_list (map gp_Cluster pts)) (map fst (enumerate 0 clusters))"
      unfolding counted_def map_map comp_def split_def by simp
    then show ?thesis unfolding map_fst_enumerate lc(2) by simp
  qed
  have "sum_list (map gc_Count counted) = length pts"
    unfolding counts using sum_count_set [OF cs] by (simp add: interv_sum_list_conv_sum_set_nat)
  moreover have "mset (map gc_Count (sort_key gc_Key counted)) = mset (map gc_Count counted)" by simp
  ultimately have sum: "sum_list (map gc_Count (sort_key gc_Key counted)) = length items"
    by (metis sum_mset_sum_list pts_def length_map length_enumerate)
  have per_key: "count_list (map gp_ClusterKey pts) (CHR ''c'' # show_nat c) = count_list (map gp_Cluster pts) c" for c
    unfolding keys by (rule count_list_inj) (simp add: show_nat_inj)
  have each: "list_all (\<lambda>cl. gc_Count cl = count_list (map gp_ClusterKey pts) (gc_Key cl)) (sort_key gc_Key counted)"
    by (auto simp: list_all_iff counted_def clusters_def in_set_enumerate_eq nth_enumerate_eq per_key)
  show ?thesis unfolding build using ids sum each agents_nonempty by (simp add: items_def)
qed

text \<open>C31. The galaxy accounts for the whole corpus, however Go orders its maps: for any corpus the panel is built
  (no index is out of range and every loop ends), it is the same for any two orders of ranging over the
  tags, it has one point per memory, in order, the counts of the clusters add up to the number of
  memories, each being the number of points that carry the cluster's key, and the list of agents, which
  the page indexes at random, is not empty.\<close>
theorem galaxy_complete:
  assumes "squares_ok fl" and "ranges order" and "ranges order'"
  shows "\<exists>g. buildGalaxy fl mt trunc order now tk cr = Some g \<and> buildGalaxy fl mt trunc order' now tk cr = Some g \<and>
    map gp_ID (gd_Points g) = map (\<lambda>m. CHR ''m'' # show_nat (ci_ID m)) (cr_Memories cr) \<and>
    sum_list (map gc_Count (gd_Clusters g)) = length (cr_Memories cr) \<and>
    list_all (\<lambda>cl. gc_Count cl = count_list (map gp_ClusterKey (gd_Points g)) (gc_Key cl)) (gd_Clusters g) \<and>
    gd_Agents g \<noteq> []"
  unfolding buildGalaxy_order [OF assms(3,2)]
  using buildGalaxy_shape [OF assms(1), of mt trunc order now tk cr] by blast

lemma galaxy_complete_witness:
  "\<exists>g. buildGalaxy exact_floats exact_maths (\<lambda>_. 0) (\<lambda>_ xs. rev xs) 0 ''kuadre''
     \<lparr>cr_Dim = 2, cr_Memories = [\<lparr>ci_ID = 1, ci_Text = ''a'', ci_Tags = [''x''], ci_Src = [], ci_Vec = [1, 2]\<rparr>,
        \<lparr>ci_ID = 2, ci_Text = ''b'', ci_Tags = [], ci_Src = ''s'', ci_Vec = [3, 1]\<rparr>]\<rparr> = Some g \<and>
     sum_list (map gc_Count (gd_Clusters g)) = 2"
proof -
  have "ranges (\<lambda>_ xs. rev xs)" "ranges (\<lambda>_ xs. xs)" by (simp_all add: ranges_def)
  from galaxy_complete [OF exact_squares this, of exact_maths "\<lambda>_. 0" 0 "''kuadre''"
      "\<lparr>cr_Dim = 2, cr_Memories = [\<lparr>ci_ID = 1, ci_Text = ''a'', ci_Tags = [''x''], ci_Src = [], ci_Vec = [1, 2]\<rparr>,
        \<lparr>ci_ID = 2, ci_Text = ''b'', ci_Tags = [], ci_Src = ''s'', ci_Vec = [3, 1]\<rparr>]\<rparr>"]
  show ?thesis by auto
qed

section \<open>Actions\<close>

text \<open>A transport that reaches the server, for the tenant of the dashboard's token; \<open>render\<close> is the encoding of responses.\<close>

definition mcp_transport :: "('f::{plus,minus,times,zero,one,linorder}, 'g::{zero,divide,minus}, 's) app_conf \<Rightarrow> 'f call_env \<Rightarrow> tenant \<Rightarrow>
    ('f rpc_resp option \<Rightarrow> http_response) \<Rightarrow> ('f, 's) app transport" where
  "mcp_transport cf ev t render rq a =
     (case hq_Body rq of
        Some [b] \<Rightarrow> (case dispatch cf ev t (Some b) a of (a', r) \<Rightarrow> (a', Inr (render r)))
      | _ \<Rightarrow> (a, Inl ''no call''))"

lemma action_dispatched:
  assumes "action_tool action p l = Inr (tool, args)"
  shows "fst (dispatch cf ev t (Some (tool_call tool args)) a) =
    align (fst (run_tool cf ev t
      (if tool = ''provider_connect_cancel'' then [''loginId'' \<mapsto> ToolArgs.JStr l, ''provider'' \<mapsto> ToolArgs.JStr p]
       else [''provider'' \<mapsto> ToolArgs.JStr p]) (DoProvider tool) a))"
proof -
  consider (Connect) "tool = ''provider_connect''" "args = [(''provider'', JsStr p)]"
    | (Cancel) "tool = ''provider_connect_cancel''" "args = [(''loginId'', JsStr l), (''provider'', JsStr p)]"
    | (Disconnect) "tool = ''provider_disconnect''" "args = [(''provider'', JsStr p)]"
    using assms by (auto simp: action_tool_def split: if_splits)
  then have "map_of tool_names tool = Some (DoProvider tool) \<and> list_all (\<lambda>(k, v). js_floats (ac_float cf) v) args \<and>
      fold (\<lambda>(k, v) m. m(k \<mapsto> js_value (ac_float cf) v)) args Map.empty =
      (if tool = ''provider_connect_cancel'' then [''loginId'' \<mapsto> ToolArgs.JStr l, ''provider'' \<mapsto> ToolArgs.JStr p]
       else [''provider'' \<mapsto> ToolArgs.JStr p])"
    by cases (simp_all add: tool_names_def)
  then have t: "map_of tool_names tool = Some (DoProvider tool)" and f: "list_all (\<lambda>(k, v). js_floats (ac_float cf) v) args"
    and m: "fold (\<lambda>(k, v) m. m(k \<mapsto> js_value (ac_float cf) v)) args Map.empty =
      (if tool = ''provider_connect_cancel'' then [''loginId'' \<mapsto> ToolArgs.JStr l, ''provider'' \<mapsto> ToolArgs.JStr p]
       else [''provider'' \<mapsto> ToolArgs.JStr p])" by blast+
  show ?thesis unfolding dispatch_tool_call [OF f t] m by (simp add: split_def)
qed


definition open_admin :: admin where
  "open_admin = \<lparr>ad_User = [], ad_Pass = [], ad_MCP = ''m'', ad_Token = [], ad_URL = (\<lambda>_. True)\<rparr>"

definition connect_form :: admin_in where
  "connect_form = \<lparr>di_Method = ''POST'', di_Path = ''/api/providers/action'', di_Query = (\<lambda>_. []), di_Creds = None,
     di_Body = Some [JsObj [(''action'', JsStr ''connect''), (''provider'', JsStr '' codex'')]]\<rparr>"


end
