(* ===== verification/Embedders.thy ===== *)
theory Embedders
  imports Memory Http "HOL-Library.Monad_Syntax" "HOL-Library.Multiset"
begin

text \<open>
  The embedding providers: \<^verbatim>\<open>memory/ollama.go\<close>, \<^verbatim>\<open>memory/mistral.go\<close> and the choice between them in
  \<^verbatim>\<open>cmd/sentrymcp/embed.go\<close>. The exchange is a transport; \<open>num\<close> reads a JSON number as a float32, \<open>url\<close> says
  which URLs are accepted. Proved: an embedding that is returned has one vector per text, each of the
  configured dimension and, with Mistral, each at the place of its text.
\<close>

section \<open>The providers\<close>

datatype embed_error =
  EmbRequest
| EmbHTTP gostring
| EmbStatus nat
| EmbDecode
| EmbCount nat nat
| EmbDim nat int
| EmbIndex int
| EmbMissing nat

record ollama_embedder =
  oe_url :: gostring
  oe_model :: gostring
  oe_dim :: int

record mistral_embedder =
  me_url :: gostring
  me_model :: gostring
  me_apiKey :: gostring
  me_dim :: int

definition NewOllamaEmbedder :: "gostring \<Rightarrow> gostring \<Rightarrow> int \<Rightarrow> ollama_embedder" where
  "NewOllamaEmbedder url model d = \<lparr>oe_url = url, oe_model = model, oe_dim = d\<rparr>"

definition NewMistralEmbedder :: "gostring \<Rightarrow> gostring \<Rightarrow> int \<Rightarrow> mistral_embedder" where
  "NewMistralEmbedder apiKey model d =
     \<lparr>me_url = ''https://api.mistral.ai'', me_model = model, me_apiKey = apiKey, me_dim = d\<rparr>"

text \<open>The body that both send.\<close>

definition embed_body :: "gostring \<Rightarrow> gostring list \<Rightarrow> js" where
  "embed_body model texts = JsObj [(''model'', JsStr model), (''input'', JsArr (map JsStr texts))]"

definition dec_ollama :: "(gostring \<Rightarrow> 'f::zero option) \<Rightarrow> js \<Rightarrow> 'f list list option" where
  "dec_ollama num v = Option.bind (js_fields v) (dec_field ''embeddings'' (dec_list (dec_list (dec_float num))))"

fun check_dims :: "nat \<Rightarrow> int \<Rightarrow> 'f list list \<Rightarrow> embed_error option" where
  "check_dims i d [] = None"
| "check_dims i d (v # vs) = (if int (length v) \<noteq> d then Some (EmbDim i (int (length v))) else check_dims (i + 1) d vs)"

definition ollama_Embed :: "(gostring \<Rightarrow> 'f::zero option) \<Rightarrow> (gostring \<Rightarrow> bool) \<Rightarrow> 's transport \<Rightarrow> ollama_embedder \<Rightarrow>
    gostring list \<Rightarrow> 's \<Rightarrow> 's \<times> (embed_error + 'f list list)" where
  "ollama_Embed num url tr e texts s =
     (let target = oe_url e @ ''/api/embed''
      in if \<not> url target then (s, Inl EmbRequest)
         else case tr \<lparr>hq_Method = ''POST'', hq_Target = target, hq_Headers = [(''Content-Type'', ''application/json'')],
                       hq_Body = Some [embed_body (oe_model e) texts]\<rparr> s of
                (s', Inl err) \<Rightarrow> (s', Inl (EmbHTTP err))
              | (s', Inr r) \<Rightarrow>
                  (s', if hr_Status r \<noteq> 200 then Inl (EmbStatus (hr_Status r))
                       else case Option.bind (first_value (hr_Body r)) (dec_ollama num) of
                              None \<Rightarrow> Inl EmbDecode
                            | Some vs \<Rightarrow>
                                if length vs \<noteq> length texts then Inl (EmbCount (length texts) (length vs))
                                else (case check_dims 0 (oe_dim e) vs of Some err \<Rightarrow> Inl err | None \<Rightarrow> Inr vs)))"

text \<open>One element of Mistral's data: the index, and the vector, \<open>None\<close> when it is null or missing.\<close>

fun dec_vector :: "(gostring \<Rightarrow> 'f::zero option) \<Rightarrow> js \<Rightarrow> 'f list option option" where
  "dec_vector num JsNull = Some None"
| "dec_vector num v = map_option Some (dec_list (dec_float num) v)"

definition dec_datum :: "(gostring \<Rightarrow> 'f::zero option) \<Rightarrow> js \<Rightarrow> (int \<times> 'f list option) option" where
  "dec_datum num v =
     do { fs \<leftarrow> js_fields v;
          i \<leftarrow> dec_field ''index'' dec_int fs;
          e \<leftarrow> dec_field ''embedding'' (dec_vector num) fs;
          Some (i, e) }"

definition dec_mistral :: "(gostring \<Rightarrow> 'f::zero option) \<Rightarrow> js \<Rightarrow> (int \<times> 'f list option) list option" where
  "dec_mistral num v = Option.bind (js_fields v) (dec_field ''data'' (dec_list (dec_datum num)))"

definition vec_length :: "'f list option \<Rightarrow> int" where
  "vec_length v = (case v of None \<Rightarrow> 0 | Some xs \<Rightarrow> int (length xs))"

text \<open>Each vector goes to the place of its index.\<close>

fun place :: "int \<Rightarrow> (int \<times> 'f list option) list \<Rightarrow> 'f list option list \<Rightarrow> embed_error + 'f list option list" where
  "place d [] vecs = Inr vecs"
| "place d ((i, v) # ds) vecs =
     (if vec_length v \<noteq> d then Inl (EmbDim (nat i) (vec_length v))
      else if i < 0 \<or> i \<ge> int (length vecs) then Inl (EmbIndex i)
      else place d ds (vecs[nat i := v]))"

fun all_present :: "nat \<Rightarrow> 'f list option list \<Rightarrow> embed_error + 'f list list" where
  "all_present i [] = Inr []"
| "all_present i (None # vs) = Inl (EmbMissing i)"
| "all_present i (Some v # vs) = (case all_present (i + 1) vs of Inl e \<Rightarrow> Inl e | Inr r \<Rightarrow> Inr (v # r))"

definition mistral_answer :: "int \<Rightarrow> nat \<Rightarrow> (int \<times> 'f list option) list \<Rightarrow> embed_error + 'f list list" where
  "mistral_answer d n ds =
     (if length ds \<noteq> n then Inl (EmbCount n (length ds))
      else case place d ds (replicate (length ds) None) of Inl e \<Rightarrow> Inl e | Inr vecs \<Rightarrow> all_present 0 vecs)"

definition mistral_Embed :: "(gostring \<Rightarrow> 'f::zero option) \<Rightarrow> (gostring \<Rightarrow> bool) \<Rightarrow> 's transport \<Rightarrow> mistral_embedder \<Rightarrow>
    gostring list \<Rightarrow> 's \<Rightarrow> 's \<times> (embed_error + 'f list list)" where
  "mistral_Embed num url tr e texts s =
     (let target = me_url e @ ''/v1/embeddings''
      in if \<not> url target then (s, Inl EmbRequest)
         else case tr \<lparr>hq_Method = ''POST'', hq_Target = target,
                       hq_Headers = [(''Content-Type'', ''application/json''), (''Authorization'', ''Bearer '' @ me_apiKey e)],
                       hq_Body = Some [embed_body (me_model e) texts]\<rparr> s of
                (s', Inl err) \<Rightarrow> (s', Inl (EmbHTTP err))
              | (s', Inr r) \<Rightarrow>
                  (s', if hr_Status r \<noteq> 200 then Inl (EmbStatus (hr_Status r))
                       else case Option.bind (first_value (hr_Body r)) (dec_mistral num) of
                              None \<Rightarrow> Inl EmbDecode
                            | Some ds \<Rightarrow> mistral_answer (me_dim e) (length texts) ds))"

section \<open>The choice of a provider\<close>

datatype embedder = Ollama ollama_embedder | Mistral mistral_embedder

fun emb_dim :: "embedder \<Rightarrow> int" where
  "emb_dim (Ollama e) = oe_dim e"
| "emb_dim (Mistral e) = me_dim e"

definition Embed :: "(gostring \<Rightarrow> 'f::zero option) \<Rightarrow> (gostring \<Rightarrow> bool) \<Rightarrow> 's transport \<Rightarrow> embedder \<Rightarrow>
    gostring list \<Rightarrow> 's \<Rightarrow> 's \<times> (embed_error + 'f list list)" where
  "Embed num url tr e = (case e of Ollama x \<Rightarrow> ollama_Embed num url tr x | Mistral x \<Rightarrow> mistral_Embed num url tr x)"

text \<open>The left is an error of the configuration; \<open>None\<close> is no embedder, with the memory tools off.\<close>

definition resolveEmbedder :: "gostring \<Rightarrow> gostring \<Rightarrow> gostring \<Rightarrow> int \<Rightarrow> gostring \<Rightarrow> gostring + embedder option" where
  "resolveEmbedder prov ollamaURL model d mistralKey =
     (if prov = [] \<or> prov = ''ollama''
      then if ollamaURL = [] then Inr None else Inr (Some (Ollama (NewOllamaEmbedder ollamaURL model d)))
      else if prov = ''mistral''
      then if mistralKey = [] then Inl ''provider mistral requires SENTRY_MISTRAL_API_KEY''
           else Inr (Some (Mistral (NewMistralEmbedder mistralKey model d)))
      else Inl (''unknown SENTRY_EMBED_PROVIDER '' @ prov))"

definition oauthSigningKey :: "gostring \<Rightarrow> gostring \<Rightarrow> gostring" where
  "oauthSigningKey oauthKey ownerToken = (if oauthKey \<noteq> [] then oauthKey else ownerToken)"

section \<open>What is returned\<close>

lemma check_dims_None: "check_dims i d vs = None \<longleftrightarrow> list_all (\<lambda>v. int (length v) = d) vs"
  by (induction vs arbitrary: i) auto

lemma all_present_map [simp]: "all_present i (map Some vs) = Inr vs"
  by (induction vs arbitrary: i) simp_all

lemma all_present_Inr: "all_present i vecs = Inr vs \<longleftrightarrow> vecs = map Some vs"
proof
  show "all_present i vecs = Inr vs \<Longrightarrow> vecs = map Some vs"
    by (induction i vecs arbitrary: vs rule: all_present.induct) (auto split: sum.splits)
qed simp

lemma place_length: "place d ds vecs = Inr vecs' \<Longrightarrow> length vecs' = length vecs"
  by (induction d ds vecs rule: place.induct) (auto split: if_splits)

lemma place_dims:
  "place d ds vecs = Inr vecs' \<Longrightarrow> list_all (\<lambda>v. v \<noteq> None \<longrightarrow> vec_length v = d) vecs \<Longrightarrow>
   list_all (\<lambda>v. v \<noteq> None \<longrightarrow> vec_length v = d) vecs'"
proof (induction d ds vecs rule: place.induct)
  case (2 d i v ds vecs)
  then have "list_all (\<lambda>v. v \<noteq> None \<longrightarrow> vec_length v = d) (vecs[nat i := v])"
    by (auto simp: list_all_length nth_list_update split: if_splits)
  then show ?case using 2 by (auto split: if_splits)
qed simp

text \<open>Where every place is filled, the indices are those of the places, each once.\<close>

lemma place_filled:
  "place d ds vecs = Inr vecs' \<Longrightarrow> j < length vecs \<Longrightarrow> vecs' ! j \<noteq> None \<Longrightarrow>
   vecs' ! j = vecs ! j \<or> int j \<in> fst ` set ds"
proof (induction d ds vecs rule: place.induct)
  case (2 d i v ds vecs)
  then show ?case by (auto simp: nth_list_update split: if_splits)
qed simp

lemma place_kept: "place d ds vecs = Inr vecs' \<Longrightarrow> int j \<notin> fst ` set ds \<Longrightarrow> vecs' ! j = vecs ! j"
proof (induction d ds vecs rule: place.induct)
  case (2 d i v ds vecs)
  then show ?case by (auto simp: nth_list_update split: if_splits)
qed simp

lemma place_last:
  assumes "place d ds vecs = Inr vecs'" and "distinct (map fst ds)" and "(i, v) \<in> set ds"
  shows "0 \<le> i \<and> nat i < length vecs \<and> vecs' ! nat i = v"
  using assms
proof (induction d ds vecs rule: place.induct)
  case (2 d i' v' ds vecs)
  then have p: "place d ds (vecs[nat i' := v']) = Inr vecs'" "0 \<le> i'" "i' < int (length vecs)"
    by (auto split: if_splits)
  show ?case
  proof (cases "(i, v) \<in> set ds")
    case True
    then show ?thesis using 2 p by (auto split: if_splits)
  next
    case False
    then have e: "i = i'" "v = v'" using 2(4) by auto
    have "int (nat i') \<notin> fst ` set ds" using 2(3) p(2) by simp
    from place_kept [OF p(1) this] show ?thesis using p e by simp
  qed
qed simp

lemma filled_distinct:
  assumes "place d ds (replicate (length ds) None) = Inr vecs'" and "None \<notin> set vecs'"
  shows "distinct (map fst ds)"
proof -
  have l: "length vecs' = length ds" using place_length [OF assms(1)] by simp
  have "int ` {..<length ds} \<subseteq> fst ` set ds"
  proof
    fix x assume "x \<in> int ` {..<length ds}"
    then obtain j where j: "x = int j" "j < length ds" by auto
    have n: "vecs' ! j \<noteq> None" using assms(2) j(2) l nth_mem by metis
    have "vecs' ! j = replicate (length ds) None ! j \<or> int j \<in> fst ` set ds"
      by (rule place_filled [OF assms(1) _ n]) (simp add: j(2))
    then show "x \<in> fst ` set ds" using n j by (simp del: not_None_eq)
  qed
  then have "card (int ` {..<length ds}) \<le> card (set (map fst ds))" by (intro card_mono) simp_all
  then have "length ds \<le> card (set (map fst ds))" by (simp add: card_image)
  then show ?thesis using card_length [of "map fst ds"] by (intro card_distinct) simp
qed

lemma mistral_answer_placed:
  assumes "mistral_answer d n ds = Inr vs"
  shows "length vs = n" and "length ds = n" and "list_all (\<lambda>v. int (length v) = d) vs" and "distinct (map fst ds)"
    and "(i, v) \<in> set ds \<Longrightarrow> 0 \<le> i \<and> nat i < n \<and> v = Some (vs ! nat i)"
proof -
  obtain vecs where p: "place d ds (replicate (length ds) None) = Inr vecs" "vecs = map Some vs" and n: "length ds = n"
    using assms by (auto simp: mistral_answer_def all_present_Inr split: if_splits sum.splits)
  show l: "length vs = n" using place_length [OF p(1)] p(2) n by simp
  show "length ds = n" by (rule n)
  have "list_all (\<lambda>v. v \<noteq> None \<longrightarrow> vec_length v = d) vecs"
    using place_dims [OF p(1)] by (simp add: list_all_length)
  then show "list_all (\<lambda>v. int (length v) = d) vs" by (simp add: p(2) list_all_iff vec_length_def)
  show dist: "distinct (map fst ds)" by (rule filled_distinct [OF p(1)]) (auto simp: p(2))
  show "0 \<le> i \<and> nat i < n \<and> v = Some (vs ! nat i)" if "(i, v) \<in> set ds"
    using place_last [OF p(1) dist that] l by (auto simp: p(2) n)
qed

lemma place_ok:
  "list_all (\<lambda>(i, v). vec_length v = d \<and> 0 \<le> i \<and> i < int (length vecs)) ds \<Longrightarrow> \<exists>vecs'. place d ds vecs = Inr vecs'"
  by (induction d ds vecs rule: place.induct) auto

lemma in_every_place:
  assumes "length ds = n" and "list_all (\<lambda>i. (int i, Some (vs ! i)) \<in> set ds) [0..<n]"
  shows "set ds = (\<lambda>i. (int i, Some (vs ! i))) ` {..<n}" and "distinct (map fst ds)"
proof -
  let ?f = "\<lambda>i. (int i, Some (vs ! i))"
  have sub: "?f ` {..<n} \<subseteq> set ds" using assms(2) by (auto simp: list_all_iff)
  have c: "card (?f ` {..<n}) = n" by (subst card_image) (auto simp: inj_on_def)
  have "card (set ds) \<le> n" using card_length [of ds] assms(1) by simp
  then show e: "set ds = ?f ` {..<n}" using card_seteq [OF finite_set sub] c by simp
  have "card (set (map fst ds)) = card (int ` {..<n})" by (simp add: e image_image)
  then show "distinct (map fst ds)" using assms(1) by (intro card_distinct) (simp add: card_image)
qed

text \<open>C35. Whatever order Mistral answers in, the vectors come back in the order of the texts: the answer is accepted
  exactly when it has one entry per text, every text has a vector under its index, and all have the
  configured dimension, and then the result has each vector at the place of its text. (An index given
  twice, out of range or without a vector is therefore always an error.)\<close>
theorem mistral_answer_spec:
  "mistral_answer d n ds = Inr vs \<longleftrightarrow>
     length ds = n \<and> length vs = n \<and> list_all (\<lambda>v. int (length v) = d) vs \<and>
     list_all (\<lambda>i. (int i, Some (vs ! i)) \<in> set ds) [0..<n]" (is "?l = ?r")
proof
  assume ?l
  note p = mistral_answer_placed [OF this]
  have "fst ` set ds \<subseteq> int ` {..<n}"
  proof
    fix x assume "x \<in> fst ` set ds"
    then obtain v where "(x, v) \<in> set ds" by auto
    then have "0 \<le> x \<and> nat x < n" using p(5) by blast
    then show "x \<in> int ` {..<n}" by (intro image_eqI [of _ _ "nat x"]) auto
  qed
  moreover have "card (fst ` set ds) = n" using distinct_card [OF p(4)] p(2) by simp
  ultimately have e: "fst ` set ds = int ` {..<n}" by (intro card_subset_eq) (simp_all add: card_image)
  have "(int i, Some (vs ! i)) \<in> set ds" if i: "i < n" for i
  proof -
    have "int i \<in> fst ` set ds" unfolding e using i by simp
    then obtain v where v: "(int i, v) \<in> set ds" by auto
    then show ?thesis using p(5) [OF v] by simp
  qed
  then show ?r using p(1-3) by (simp add: list_all_iff)
next
  assume r: ?r
  have f: "set ds = (\<lambda>i. (int i, Some (vs ! i))) ` {..<n}" "distinct (map fst ds)"
    using in_every_place [of ds n vs] r by blast+
  have "list_all (\<lambda>(i, v). vec_length v = d \<and> 0 \<le> i \<and> i < int (length (replicate (length ds) (None :: 'a list option)))) ds"
    using r by (simp add: list_all_length [of _ vs]) (auto simp: list_all_iff f(1) vec_length_def)
  then obtain vecs where p: "place d ds (replicate (length ds) None) = Inr vecs" using place_ok by blast
  have l: "length vecs = n" using place_length [OF p] r by simp
  have "vecs = map Some vs"
  proof (rule nth_equalityI)
    show "length vecs = length (map Some vs)" using l r by simp
    fix i assume "i < length vecs"
    then have "(int i, Some (vs ! i)) \<in> set ds" "i < length vs" using l r by (auto simp: f(1))
    then show "vecs ! i = map Some vs ! i" using place_last [OF p f(2)] by fastforce
  qed
  then show ?l using p r by (simp add: mistral_answer_def)
qed

lemma ollama_one_request:
  "fst (ollama_Embed num url tr e texts s) =
     (if \<not> url (oe_url e @ ''/api/embed'') then s
      else fst (tr \<lparr>hq_Method = ''POST'', hq_Target = oe_url e @ ''/api/embed'',
        hq_Headers = [(''Content-Type'', ''application/json'')], hq_Body = Some [embed_body (oe_model e) texts]\<rparr> s))"
  by (simp add: ollama_Embed_def Let_def split_def split: sum.split)

lemma mistral_one_request:
  "fst (mistral_Embed num url tr e texts s) =
     (if \<not> url (me_url e @ ''/v1/embeddings'') then s
      else fst (tr \<lparr>hq_Method = ''POST'', hq_Target = me_url e @ ''/v1/embeddings'',
        hq_Headers = [(''Content-Type'', ''application/json''), (''Authorization'', ''Bearer '' @ me_apiKey e)],
        hq_Body = Some [embed_body (me_model e) texts]\<rparr> s))"
  by (simp add: mistral_Embed_def Let_def split_def split: sum.split)

lemma Embed_one_request: "fst (Embed num url tr e texts s) = s \<or> (\<exists>rq. fst (Embed num url tr e texts s) = fst (tr rq s))"
  by (cases e) (auto simp: Embed_def ollama_one_request mistral_one_request)

text \<open>Embeddings are typed: whichever provider is configured and whatever it answers, the memory gets an error or
  exactly one vector for each text, all of the configured dimension, after at most one request; so the
  memory accepts the embedding of a single text without its own check failing.\<close>
theorem embeddings_typed:
  "case Embed num url tr e texts s of
     (s', r) \<Rightarrow> (s' = s \<or> (\<exists>rq. s' = fst (tr rq s))) \<and>
       (case r of Inl _ \<Rightarrow> True
        | Inr vs \<Rightarrow> length vs = length texts \<and> list_all (\<lambda>v. int (length v) = emb_dim e) vs \<and>
            (length texts \<noteq> 1 \<or> check_embedding (nat (emb_dim e)) (Some vs) = Inr (hd vs)))"
proof -
  obtain s' r where run: "Embed num url tr e texts s = (s', r)" by (cases "Embed num url tr e texts s")
  have one: "s' = s \<or> (\<exists>rq. s' = fst (tr rq s))"
    using Embed_one_request [of num url tr e texts s] unfolding run fst_conv .
  have typed: "length vs = length texts \<and> list_all (\<lambda>v. int (length v) = emb_dim e) vs" if rv: "r = Inr vs" for vs
  proof (cases e)
    case (Ollama x)
    then show ?thesis using run rv
      by (auto simp: Embed_def ollama_Embed_def Let_def check_dims_None split: prod.splits sum.splits if_splits option.splits)
  next
    case (Mistral x)
    then obtain ds where "mistral_answer (me_dim x) (length texts) ds = Inr vs" using run rv
      by (auto simp: Embed_def mistral_Embed_def Let_def split: prod.splits sum.splits if_splits option.splits)
    from mistral_answer_placed(1,3) [OF this] show ?thesis using Mistral by simp
  qed
  have "length texts \<noteq> 1 \<or> check_embedding (nat (emb_dim e)) (Some vs) = Inr (hd vs)" if rv: "r = Inr vs" for vs
  proof (cases "length texts = 1")
    case True
    then obtain v where "vs = [v]" using typed [OF rv] by (auto simp: length_Suc_conv)
    then show ?thesis using typed [OF rv] by (auto simp: check_embedding_def)
  qed simp
  then show ?thesis using one typed run by (auto split: sum.split)
qed

end
