(* ===== verification/Reembed.thy ===== *)
theory Reembed
  imports Complex_Main Embedders
begin

text \<open>
  The migration \<^verbatim>\<open>cmd/reembed/main.go\<close>: a journal is copied record by record, the vectors of its memories
  replaced by those of another embedder. The journals are typed logs whose events are the memory's or
  another component's. Proved: sequence numbers, tenants and all other events survive, the memory that is
  rebuilt from the copy differs in its vectors only, and the time stamps are those of the copying.
\<close>

section \<open>The copy\<close>

datatype ('f, 'a) journal_event = MemoryEvent "'f mem_event" | OtherEvent 'a

datatype reembed_error =
  ScanFailed
| MemDecode nat
| EmbedBatch nat nat embed_error
| EmbedShort nat nat
| EmbedWrong nat int nat
| MemAppend nat
| OtherAppend nat

text \<open>A scan delivers all records, or a number of them before a read fails.\<close>

definition delivered :: "nat option \<Rightarrow> 'r list \<Rightarrow> 'r list" where
  "delivered fault rs = (case fault of None \<Rightarrow> rs | Some n \<Rightarrow> take n rs)"

fun collect_mems :: "('f, 'a) journal_event lrec list \<Rightarrow> (nat \<times> 'f mem_payload) list \<Rightarrow>
    reembed_error + (nat \<times> 'f mem_payload) list" where
  "collect_mems [] ms = Inr ms"
| "collect_mems (r # rs) ms =
     (case lr_event r of
        MemoryEvent (MemEv p) \<Rightarrow> collect_mems rs (ms @ [(lr_seq r, p)])
      | MemoryEvent BadMemEv \<Rightarrow> Inl (MemDecode (lr_seq r))
      | _ \<Rightarrow> collect_mems rs ms)"

text \<open>The vectors of one batch, each checked as it is stored under its sequence number.\<close>

fun store_vecs :: "int \<Rightarrow> (nat \<times> 'f mem_payload) list \<Rightarrow> 'f list list \<Rightarrow> (nat \<Rightarrow> 'f list) \<Rightarrow> reembed_error + (nat \<Rightarrow> 'f list)" where
  "store_vecs d ((q, p) # ms) (v # vs) m =
     (if int (length v) \<noteq> d then Inl (EmbedWrong (length v) d q) else store_vecs d ms vs (m(q := v)))"
| "store_vecs d _ _ m = Inr m"

text \<open>The batches of the memories \<open>rest\<close> from position \<open>i\<close>; \<open>emb\<close> is the embedder over the outside state. The
  size of a batch is never 0.\<close>

function embed_all :: "(gostring list \<Rightarrow> 's \<Rightarrow> 's \<times> (embed_error + 'f list list)) \<Rightarrow> int \<Rightarrow> nat \<Rightarrow> nat \<Rightarrow> (nat \<times> 'f mem_payload) list \<Rightarrow>
    's \<Rightarrow> (nat \<Rightarrow> 'f list) \<Rightarrow> 's \<times> (reembed_error + (nat \<Rightarrow> 'f list))" where
  "embed_all emb d batch i rest s m =
     (if rest = [] \<or> batch = 0 then (s, Inr m)
      else
        let part = take batch rest
        in case emb (map (\<lambda>x. mp_text (snd x)) part) s of
             (s', Inl e) \<Rightarrow> (s', Inl (EmbedBatch i (i + length part) e))
           | (s', Inr vs) \<Rightarrow>
               if length vs \<noteq> length part then (s', Inl (EmbedShort (length vs) (length part)))
               else (case store_vecs d part vs m of
                       Inl e \<Rightarrow> (s', Inl e)
                     | Inr m' \<Rightarrow> embed_all emb d batch (i + batch) (drop batch rest) s' m'))"
  by pat_completeness auto
termination
  by (relation "measure (\<lambda>(emb, d, batch, i, rest, s, m). length rest)") auto

declare embed_all.simps [simp del]

fun rewrite :: "(nat \<Rightarrow> 'f list) \<Rightarrow> (nat \<Rightarrow> int option) \<Rightarrow> ('f, 'a) journal_event lrec list \<Rightarrow> nat \<Rightarrow> nat \<Rightarrow>
    ('f, 'a) journal_event elog \<Rightarrow> ('f, 'a) journal_event elog \<times> nat \<times> nat \<times> reembed_error option" where
  "rewrite vec env [] n k dst = (dst, n, k, None)"
| "rewrite vec env (r # rs) n k dst =
     (case lr_event r of
        MemoryEvent BadMemEv \<Rightarrow> (dst, n + 1, k, Some (MemDecode (lr_seq r)))
      | MemoryEvent (MemEv p) \<Rightarrow>
          (case el_append (env n) (lr_tenant r) (MemoryEvent (MemEv (p\<lparr>mp_vector := vec (lr_seq r)\<rparr>))) dst of
             (dst', None) \<Rightarrow> (dst', n + 1, k, Some (MemAppend (lr_seq r)))
           | (dst', Some _) \<Rightarrow> rewrite vec env rs (n + 1) (k + 1) dst')
      | e \<Rightarrow>
          (case el_append (env n) (lr_tenant r) e dst of
             (dst', None) \<Rightarrow> (dst', n + 1, k, Some (OtherAppend (lr_seq r)))
           | (dst', Some _) \<Rightarrow> rewrite vec env rs (n + 1) k dst'))"

text \<open>The copy: the faults of the two scans, the clock (or failure) of each append, the source, the destination.
  The answer counts records and memories.\<close>

definition reembed :: "(gostring list \<Rightarrow> 's \<Rightarrow> 's \<times> (embed_error + 'f list list)) \<Rightarrow> int \<Rightarrow> int \<Rightarrow> nat option \<Rightarrow> nat option \<Rightarrow>
    (nat \<Rightarrow> int option) \<Rightarrow> ('f, 'a) journal_event elog \<Rightarrow> ('f, 'a) journal_event elog \<Rightarrow> 's \<Rightarrow>
    's \<times> ('f, 'a) journal_event elog \<times> (reembed_error + nat \<times> nat)" where
  "reembed emb d batch fault1 fault2 env src dst s =
     (case collect_mems (delivered fault1 (el_recs src)) [] of
        Inl e \<Rightarrow> (s, dst, Inl e)
      | Inr ms \<Rightarrow>
          if fault1 \<noteq> None then (s, dst, Inl ScanFailed)
          else
            (case embed_all emb d (if batch \<le> 0 then 64 else nat batch) 0 ms s (\<lambda>_. []) of
               (s', Inl e) \<Rightarrow> (s', dst, Inl e)
             | (s', Inr vec) \<Rightarrow>
                 (case rewrite vec env (delivered fault2 (el_recs src)) 0 0 dst of
                    (dst', n, k, Some e) \<Rightarrow> (s', dst', Inl e)
                  | (dst', n, k, None) \<Rightarrow> (s', dst', if fault2 \<noteq> None then Inl ScanFailed else Inr (n, k)))))"

text \<open>The journal as the memory sees it.\<close>

fun mem_recs :: "('f, 'a) journal_event lrec list \<Rightarrow> 'f mem_event lrec list" where
  "mem_recs [] = []"
| "mem_recs (r # rs) =
     (case lr_event r of
        MemoryEvent e \<Rightarrow> \<lparr>lr_seq = lr_seq r, lr_time = lr_time r, lr_tenant = lr_tenant r, lr_event = e\<rparr> # mem_recs rs
      | OtherEvent _ \<Rightarrow> mem_recs rs)"

definition mem_view :: "('f, 'a) journal_event elog \<Rightarrow> 'f mem_event elog" where
  "mem_view l = \<lparr>el_recs = mem_recs (el_recs l), el_next = el_next l\<rparr>"

datatype migration = CopyFailed reembed_error | VerifyFailed mem_error | Migrated nat nat

text \<open>The program: copy, then rebuild the memory from the reopened copy to verify it.\<close>

definition migrate :: "(gostring list \<Rightarrow> 's \<Rightarrow> 's \<times> (embed_error + ('f::zero) list list)) \<Rightarrow> int \<Rightarrow> int \<Rightarrow> nat option \<Rightarrow> nat option \<Rightarrow>
    (nat \<Rightarrow> int option) \<Rightarrow> ('f, 'a) journal_event elog \<Rightarrow> ('f, 'a) journal_event elog \<Rightarrow> 's \<Rightarrow>
    's \<times> ('f, 'a) journal_event elog \<times> migration" where
  "migrate emb d batch fault1 fault2 env src dst s =
     (case reembed emb d batch fault1 fault2 env src dst s of
        (s', dst', Inl e) \<Rightarrow> (s', dst', CopyFailed e)
      | (s', dst', Inr (n, k)) \<Rightarrow>
          (s', dst', case NewMemory (mem_view dst') (nat d) of Inl e \<Rightarrow> VerifyFailed e | Inr _ \<Rightarrow> Migrated n k))"

section \<open>Its vectors\<close>

lemma collect_mems_Inr:
  "collect_mems rs ms0 = Inr ms \<Longrightarrow>
     (\<forall>r \<in> set rs. lr_event r \<noteq> MemoryEvent BadMemEv) \<and>
     set ms = set ms0 \<union> {(lr_seq r, p) |r p. r \<in> set rs \<and> lr_event r = MemoryEvent (MemEv p)}"
proof (induction rs ms0 rule: collect_mems.induct)
  case (2 r rs ms0)
  then show ?case by (auto split: journal_event.splits mem_event.splits)
qed simp

lemma store_vecs_dims:
  "store_vecs d part vs m = Inr m' \<Longrightarrow> length vs = length part \<Longrightarrow>
     list_all (\<lambda>x. int (length (m' (fst x))) = d) part \<and> (int (length (m q)) = d \<longrightarrow> int (length (m' q)) = d)"
proof (induction d part vs m arbitrary: q rule: store_vecs.induct)
  case (1 d q' p ms v vs m)
  then have v: "int (length v) = d" and r: "store_vecs d ms vs (m(q' := v)) = Inr m'" by (auto split: if_splits)
  have l: "length vs = length ms" using 1 by simp
  have ih: "list_all (\<lambda>x. int (length (m' (fst x))) = d) ms \<and> (int (length ((m(q' := v)) q)) = d \<longrightarrow> int (length (m' q)) = d)" for q
    using 1(1) [OF _ r l] v by simp
  show ?case using ih [of q'] ih [of q] v by (cases "q = q'") simp_all
qed auto

lemma embed_all_step:
  assumes "embed_all emb d batch i rest s m = (s', Inr vec)" and "rest \<noteq> []" and "0 < batch"
  obtains s1 vs m1 where "emb (map (\<lambda>x. mp_text (snd x)) (take batch rest)) s = (s1, Inr vs)" "length vs = length (take batch rest)"
    "store_vecs d (take batch rest) vs m = Inr m1" "embed_all emb d batch (i + batch) (drop batch rest) s1 m1 = (s', Inr vec)"
  using assms by (subst (asm) embed_all.simps) (auto simp: Let_def split: prod.splits sum.splits if_splits)

lemma embed_all_dims:
  "embed_all emb d batch i rest s m = (s', Inr vec) \<Longrightarrow> 0 < batch \<Longrightarrow>
     list_all (\<lambda>x. int (length (vec (fst x))) = d) rest \<and> (int (length (m q)) = d \<longrightarrow> int (length (vec q)) = d)"
proof (induction "length rest" arbitrary: i rest s m q rule: less_induct)
  case less
  show ?case
  proof (cases "rest = []")
    case True
    then show ?thesis using less.prems by (simp add: embed_all.simps)
  next
    case False
    from embed_all_step [OF less.prems(1) False less.prems(2)]
    obtain s1 vs m1 where e: "length vs = length (take batch rest)" "store_vecs d (take batch rest) vs m = Inr m1"
      "embed_all emb d batch (i + batch) (drop batch rest) s1 m1 = (s', Inr vec)" by blast
    have ih: "list_all (\<lambda>x. int (length (vec (fst x))) = d) (drop batch rest) \<and>
        (int (length (m1 q)) = d \<longrightarrow> int (length (vec q)) = d)" for q
      using less.hyps [OF _ e(3) less.prems(2)] False less.prems(2) by simp
    note sv = store_vecs_dims [OF e(2,1)]
    have "list_all (\<lambda>x. int (length (vec (fst x))) = d) (take batch rest)"
      using sv ih by (auto simp: list_all_iff)
    then have "list_all (\<lambda>x. int (length (vec (fst x))) = d) (take batch rest @ drop batch rest)"
      using ih by (simp del: append_take_drop_id)
    then show ?thesis using sv [of q] ih [of q] by simp
  qed
qed

section \<open>Its records\<close>

fun revector :: "('f list \<Rightarrow> 'f list) \<Rightarrow> ('f, 'a) journal_event \<Rightarrow> ('f, 'a) journal_event" where
  "revector f (MemoryEvent (MemEv p)) = MemoryEvent (MemEv (p\<lparr>mp_vector := f (mp_vector p)\<rparr>))"
| "revector f e = e"

fun copies :: "(nat \<Rightarrow> 'f list) \<Rightarrow> (nat \<Rightarrow> int option) \<Rightarrow> nat \<Rightarrow> nat \<Rightarrow> ('f, 'a) journal_event lrec list \<Rightarrow>
    ('f, 'a) journal_event lrec list" where
  "copies vec env q n [] = []"
| "copies vec env q n (r # rs) =
     \<lparr>lr_seq = q, lr_time = the (env n), lr_tenant = lr_tenant r, lr_event = revector (\<lambda>_. vec (lr_seq r)) (lr_event r)\<rparr> #
     copies vec env (q + 1) (n + 1) rs"

abbreviation is_memory :: "('f, 'a) journal_event lrec \<Rightarrow> bool" where
  "is_memory r \<equiv> (\<exists>p. lr_event r = MemoryEvent (MemEv p))"

lemma rewrite_step:
  assumes "rewrite vec env (r # rs) n k dst = (dst', n', k', None)"
  shows "\<exists>dst1 q. el_append (env n) (lr_tenant r) (revector (\<lambda>_. vec (lr_seq r)) (lr_event r)) dst = (dst1, Some q) \<and>
    rewrite vec env rs (n + 1) (if is_memory r then k + 1 else k) dst1 = (dst', n', k', None)"
proof (cases "lr_event r")
  case (OtherEvent x)
  then show ?thesis using assms by (simp split: prod.splits option.splits)
next
  case (MemoryEvent e)
  then show ?thesis using assms by (cases e) (simp_all split: prod.splits option.splits)
qed

lemma rewrite_copies:
  "rewrite vec env rs n k dst = (dst', n', k', None) \<Longrightarrow>
     n' = n + length rs \<and> k' = k + length (filter is_memory rs) \<and>
     el_recs dst' = el_recs dst @ copies vec env (el_next dst) n rs"
proof (induction rs arbitrary: n k dst)
  case (Cons r rs)
  from rewrite_step [OF Cons.prems]
  obtain dst1 q where a: "el_append (env n) (lr_tenant r) (revector (\<lambda>_. vec (lr_seq r)) (lr_event r)) dst = (dst1, Some q)"
    and w: "rewrite vec env rs (n + 1) (if is_memory r then k + 1 else k) dst1 = (dst', n', k', None)" by blast
  then show ?case using Cons.IH [OF w] by (auto simp: el_append_Some)
qed simp

lemma revector_twice: "revector (\<lambda>_. []) (revector f e) = revector (\<lambda>_. []) e"
proof (cases e)
  case (MemoryEvent x)
  then show ?thesis by (cases x) simp_all
qed simp

lemma upt_first: "q # [Suc q..<Suc (q + m)] = [q..<Suc (q + m)]"
  by (simp add: upt_conv_Cons [of q] del: upt_Suc)

lemma copies_shape:
  "map lr_seq (copies vec env q n rs) = [q..<q + length rs]"
  "map lr_time (copies vec env q n rs) = map (\<lambda>i. the (env i)) [n..<n + length rs]"
  "map lr_tenant (copies vec env q n rs) = map lr_tenant rs"
  "map (\<lambda>r. revector (\<lambda>_. []) (lr_event r)) (copies vec env q n rs) = map (\<lambda>r. revector (\<lambda>_. []) (lr_event r)) rs"
proof -
  show "map lr_seq (copies vec env q n rs) = [q..<q + length rs]"
    by (induction rs arbitrary: q n) (simp_all add: upt_first [symmetric] del: upt_Suc)
  show "map lr_time (copies vec env q n rs) = map (\<lambda>i. the (env i)) [n..<n + length rs]"
    by (induction rs arbitrary: q n) (simp_all add: upt_first [symmetric] del: upt_Suc)
  show "map lr_tenant (copies vec env q n rs) = map lr_tenant rs"
    by (induction rs arbitrary: q n) simp_all
  show "map (\<lambda>r. revector (\<lambda>_. []) (lr_event r)) (copies vec env q n rs) = map (\<lambda>r. revector (\<lambda>_. []) (lr_event r)) rs"
    by (induction rs arbitrary: q n) (simp_all add: revector_twice)
qed

lemma reembed_copies:
  assumes "reembed emb d batch fault1 fault2 env src dst s = (s', dst', Inr (n, k))"
  obtains vec where "el_recs dst' = el_recs dst @ copies vec env (el_next dst) 0 (el_recs src)"
    "n = length (el_recs src)" "k = length (filter is_memory (el_recs src))"
    "\<And>r p. r \<in> set (el_recs src) \<Longrightarrow> lr_event r = MemoryEvent (MemEv p) \<Longrightarrow> int (length (vec (lr_seq r))) = d"
proof -
  from assms obtain ms s1 vec where f: "fault1 = None" "fault2 = None"
    and c: "collect_mems (el_recs src) [] = Inr ms"
    and e: "embed_all emb d (if batch \<le> 0 then 64 else nat batch) 0 ms s (\<lambda>_. []) = (s1, Inr vec)"
    and w: "rewrite vec env (el_recs src) 0 0 dst = (dst', n, k, None)"
    by (auto simp: reembed_def delivered_def split: sum.splits option.splits if_splits prod.splits)
  have "list_all (\<lambda>x. int (length (vec (fst x))) = d) ms" using embed_all_dims [OF e] by simp
  then have "int (length (vec (lr_seq r))) = d" if "r \<in> set (el_recs src)" "lr_event r = MemoryEvent (MemEv p)" for r p
    using collect_mems_Inr [OF c] that by (force simp: list_all_iff)
  then show thesis using that rewrite_copies [OF w] by simp
qed

section \<open>The rebuilt memory\<close>

definition bare :: "'f mem_payload \<Rightarrow> 'f mem_payload" where
  "bare p = p\<lparr>mp_vector := []\<rparr>"

definition bare_entries :: "'f mem_entry list \<Rightarrow> 'f mem_entry list" where
  "bare_entries es = map (\<lambda>e. e\<lparr>me_mem := bare (me_mem e)\<rparr>) es"

fun bare_event :: "'f mem_event \<Rightarrow> 'f mem_event" where
  "bare_event (MemEv p) = MemEv (bare p)"
| "bare_event e = e"

text \<open>Two records that differ in number, time and vector only.\<close>

definition alike :: "'f mem_event lrec \<Rightarrow> 'f mem_event lrec \<Rightarrow> bool" where
  "alike r r' \<longleftrightarrow> lr_tenant r = lr_tenant r' \<and> bare_event (lr_event r) = bare_event (lr_event r')"

lemma bare_fields [simp]: "mp_id (bare p) = mp_id p" "mp_tags (bare p) = mp_tags p" "mp_supersedes (bare p) = mp_supersedes p"
  "mp_text (bare p) = mp_text p" "mp_source (bare p) = mp_source p" "bare (p\<lparr>mp_vector := v\<rparr>) = bare p"
  "bare (p\<lparr>mp_tags := ts\<rparr>) = (bare p)\<lparr>mp_tags := ts\<rparr>"
  by (simp_all add: bare_def)

lemma bare_eqD: "bare p = bare p' \<Longrightarrow> mp_id p = mp_id p' \<and> mp_tags p = mp_tags p' \<and> mp_supersedes p = mp_supersedes p'"
  by (metis bare_fields(1-3))

lemma is_entry_bare [simp]: "is_entry t i (e\<lparr>me_mem := bare (me_mem e)\<rparr>) = is_entry t i e"
  by (simp add: is_entry_def)

lemma bare_drop: "bare_entries (dropEntry t i es) = dropEntry t i (bare_entries es)"
  unfolding bare_entries_def dropEntry_def by (induction es) (simp_all add: is_entry_def)

lemma alike_cases:
  assumes "alike r r'"
  obtains p p' where "lr_event r = MemEv p" "lr_event r' = MemEv p'" "bare p = bare p'"
  | "lr_event r = lr_event r'" "\<nexists>p. lr_event r = MemEv p"
  using assms by (cases "lr_event r"; cases "lr_event r'") (auto simp: alike_def)

lemma replay_alike:
  assumes "list_all2 alike rs rs'"
    and "list_all (\<lambda>r. case lr_event r of MemEv p \<Rightarrow> length (mp_vector p) = d' | _ \<Rightarrow> True) rs'"
    and "replay_mems d rs (es, nid) = Inr (fs, m)" and "bare_entries es' = bare_entries es"
  shows "\<exists>fs'. replay_mems d' rs' (es', nid) = Inr (fs', m) \<and> bare_entries fs' = bare_entries fs"
  using assms
proof (induction rs rs' arbitrary: es es' nid rule: list_all2_induct)
  case (Cons r rs r' rs')
  have t: "lr_tenant r' = lr_tenant r" using Cons.hyps(1) by (simp add: alike_def)
  from Cons.hyps(1) show ?case
  proof (cases rule: alike_cases)
    case (1 p p')
    define q where "q = p\<lparr>mp_tags := normalizeTags (mp_tags p)\<rparr>"
    define q' where "q' = p'\<lparr>mp_tags := normalizeTags (mp_tags p')\<rparr>"
    note f = bare_eqD [OF 1(3)]
    define add where "add = (\<lambda>es (x :: 'a mem_payload). let es1 = es @ [\<lparr>me_tenant = lr_tenant r, me_mem = x\<rparr>]
        in if mp_supersedes p \<noteq> 0 then dropEntry (lr_tenant r) (mp_supersedes p) es1 else es1)"
    have b: "bare_entries (add es' q') = bare_entries (add es q)"
    proof -
      have "bare q' = bare q" using 1(3) f by (simp add: q_def q'_def)
      then have "bare_entries (es' @ [\<lparr>me_tenant = lr_tenant r, me_mem = q'\<rparr>]) = bare_entries (es @ [\<lparr>me_tenant = lr_tenant r, me_mem = q\<rparr>])"
        using Cons.prems(3) by (simp add: bare_entries_def)
      then show ?thesis by (simp add: add_def Let_def bare_drop)
    qed
    have "replay_mems d rs (add es q, if mp_id p \<ge> nid then mp_id p + 1 else nid) = Inr (fs, m)"
      using Cons.prems(2) 1(1) by (simp add: add_def q_def Let_def split: if_splits)
    moreover have "length (mp_vector p') = d'" using Cons.prems(1) 1(2) by simp
    moreover from this have "replay_mems d' (r' # rs') (es', nid) =
        replay_mems d' rs' (add es' q', if mp_id p \<ge> nid then mp_id p + 1 else nid)"
      using 1(2) f t by (simp add: add_def q'_def Let_def)
    ultimately show ?thesis using Cons.IH [OF _ _ b] Cons.prems(1) by simp
  next
    case 2
    from 2(1) have e: "lr_event r' = lr_event r" by simp
    show ?thesis
    proof (cases "lr_event r")
      case (MemEv p)
      then show ?thesis using 2(2) by blast
    qed (use Cons e in auto)
  qed
qed simp

lemma forgets_alike:
  assumes "list_all2 alike rs rs'" and "replay_forgets rs es = Inr fs" and "bare_entries es' = bare_entries es"
  shows "\<exists>fs'. replay_forgets rs' es' = Inr fs' \<and> bare_entries fs' = bare_entries fs"
  using assms
proof (induction rs rs' arbitrary: es es' rule: list_all2_induct)
  case (Cons r rs r' rs')
  have t: "lr_tenant r' = lr_tenant r" using Cons.hyps(1) by (simp add: alike_def)
  from Cons.hyps(1) show ?case
  proof (cases rule: alike_cases)
    case (1 p p')
    then show ?thesis using Cons by simp
  next
    case 2
    show ?thesis
    proof (cases "lr_event r")
      case (ForgetEv i)
      have "bare_entries (dropEntry (lr_tenant r) i es') = bare_entries (dropEntry (lr_tenant r) i es)"
        using Cons.prems(2) by (simp add: bare_drop)
      then show ?thesis using Cons.IH Cons.prems(1) ForgetEv 2(1) t by simp
    qed (use Cons 2(2) 2(1) [symmetric] in auto)
  qed
qed simp

lemma mem_recs_copies: "list_all2 alike (mem_recs rs) (mem_recs (copies vec env q n rs))"
proof (induction rs arbitrary: q n)
  case (Cons r rs)
  show ?case
  proof (cases "lr_event r")
    case (MemoryEvent e)
    then show ?thesis using Cons.IH by (cases e) (simp_all add: alike_def)
  qed (simp add: Cons.IH)
qed simp

lemma mem_recs_dims:
  "(\<And>r p. r \<in> set rs \<Longrightarrow> lr_event r = MemoryEvent (MemEv p) \<Longrightarrow> length (vec (lr_seq r)) = d) \<Longrightarrow>
   list_all (\<lambda>r. case lr_event r of MemEv p \<Rightarrow> length (mp_vector p) = d | _ \<Rightarrow> True) (mem_recs (copies vec env q n rs))"
proof (induction rs arbitrary: q n)
  case (Cons r rs)
  have ih: "list_all (\<lambda>r. case lr_event r of MemEv p \<Rightarrow> length (mp_vector p) = d | _ \<Rightarrow> True) (mem_recs (copies vec env q n rs))" for q n
    by (rule Cons.IH) (simp add: Cons.prems)
  show ?case
  proof (cases "lr_event r")
    case (MemoryEvent e)
    then show ?thesis using ih Cons.prems [of r] by (cases e) simp_all
  qed (simp add: ih)
qed simp

lemma alike_filter:
  assumes "list_all2 alike rs rs'" and "\<And>r r'. alike r r' \<Longrightarrow> P r = P r'"
  shows "list_all2 alike (filter P rs) (filter P rs')"
  using assms(1) by (induction rule: list_all2_induct) (auto dest: assms(2))

lemma alike_kinds: "alike r r' \<Longrightarrow> is_mem_ev (lr_event r) = is_mem_ev (lr_event r')" "alike r r' \<Longrightarrow> is_forget_ev (lr_event r) = is_forget_ev (lr_event r')"
  by (auto elim!: alike_cases)

lemma NewMemory_alike:
  assumes "list_all2 alike (el_recs l) (el_recs l')" and "NewMemory l d = Inr m"
    and "list_all (\<lambda>r. case lr_event r of MemEv p \<Rightarrow> length (mp_vector p) = d' | _ \<Rightarrow> True) (el_recs l')"
  shows "\<exists>m'. NewMemory l' d' = Inr m' \<and> bare_entries (ms_entries m') = bare_entries (ms_entries m) \<and> ms_nextID m' = ms_nextID m"
proof -
  obtain es nid fs where r: "replay_mems d (el_scan is_mem_ev l) ([], 1) = Inr (es, nid)"
    and f: "replay_forgets (el_scan is_forget_ev l) es = Inr fs" and m: "ms_entries m = fs" "ms_nextID m = nid"
    using assms(2) by (auto simp: NewMemory_def split: sum.splits)
  have a: "list_all2 alike (el_scan is_mem_ev l) (el_scan is_mem_ev l')"
    unfolding el_scan_def by (rule alike_filter [OF assms(1)]) (rule alike_kinds(1))
  have a': "list_all2 alike (el_scan is_forget_ev l) (el_scan is_forget_ev l')"
    unfolding el_scan_def by (rule alike_filter [OF assms(1)]) (rule alike_kinds(2))
  have "list_all (\<lambda>r. case lr_event r of MemEv p \<Rightarrow> length (mp_vector p) = d' | _ \<Rightarrow> True) (el_scan is_mem_ev l')"
    using assms(3) by (auto simp: el_scan_def list_all_iff)
  from replay_alike [OF a this r refl]
  obtain es' where e: "replay_mems d' (el_scan is_mem_ev l') ([], 1) = Inr (es', nid)" "bare_entries es' = bare_entries es" by blast
  from forgets_alike [OF a' f e(2)]
  obtain fs' where "replay_forgets (el_scan is_forget_ev l') es' = Inr fs'" "bare_entries fs' = bare_entries fs" by blast
  then show ?thesis using e(1) m by (simp add: NewMemory_def)
qed

text \<open>C34. Re-embedding keeps everything but the vectors and the time stamps. When the copy of a whole journal (numbered
  from 1) into a new one succeeds, and the old memory could be rebuilt, then the verification succeeds too;
  every record keeps its sequence number, so all references hold, its tenant and its event, up to the
  vector of a memory; the rebuilt memory has the same entries in the same order, up to the vectors, and
  the same next id. The time stamps, however, are those of the copying.\<close>
theorem reembed_keeps_memory:
  assumes "reembed emb d batch fault1 fault2 env src el_empty s = (s', dst, Inr (n, k))"
    and "map lr_seq (el_recs src) = [1..<1 + length (el_recs src)]" and "NewMemory (mem_view src) d0 = Inr m"
  shows "migrate emb d batch fault1 fault2 env src el_empty s = (s', dst, Migrated n k) \<and>
    map lr_seq (el_recs dst) = map lr_seq (el_recs src) \<and> map lr_tenant (el_recs dst) = map lr_tenant (el_recs src) \<and>
    map (\<lambda>r. revector (\<lambda>_. []) (lr_event r)) (el_recs dst) = map (\<lambda>r. revector (\<lambda>_. []) (lr_event r)) (el_recs src) \<and>
    map lr_time (el_recs dst) = map (\<lambda>i. the (env i)) [0..<n] \<and>
    (\<exists>m'. NewMemory (mem_view dst) (nat d) = Inr m' \<and> bare_entries (ms_entries m') = bare_entries (ms_entries m) \<and>
       ms_nextID m' = ms_nextID m)"
proof -
  obtain vec where c: "el_recs dst = copies vec env 1 0 (el_recs src)" and n: "n = length (el_recs src)"
    and v: "\<And>r p. r \<in> set (el_recs src) \<Longrightarrow> lr_event r = MemoryEvent (MemEv p) \<Longrightarrow> int (length (vec (lr_seq r))) = d"
    using reembed_copies [OF assms(1)] by (auto simp: el_empty_def)
  have "list_all (\<lambda>r. case lr_event r of MemEv p \<Rightarrow> length (mp_vector p) = nat d | _ \<Rightarrow> True) (mem_recs (copies vec env 1 0 (el_recs src)))"
    by (rule mem_recs_dims) (use v in fastforce)
  then have mem: "\<exists>m'. NewMemory (mem_view dst) (nat d) = Inr m' \<and> bare_entries (ms_entries m') = bare_entries (ms_entries m) \<and>
       ms_nextID m' = ms_nextID m"
    using NewMemory_alike [OF _ assms(3), of "mem_view dst" "nat d"] mem_recs_copies [of "el_recs src" vec env 1 0]
    by (simp add: mem_view_def c)
  then have "migrate emb d batch fault1 fault2 env src el_empty s = (s', dst, Migrated n k)"
    using assms(1) by (auto simp: migrate_def)
  then show ?thesis using mem copies_shape [of vec env 1 0 "el_recs src"] assms(2) by (simp add: c n)
qed

definition old_journal :: "(rat, gostring) journal_event elog" where
  "old_journal = \<lparr>el_recs =
     [\<lparr>lr_seq = 1, lr_time = 10, lr_tenant = 3, lr_event = MemoryEvent (MemEv
        \<lparr>mp_id = 1, mp_text = ''a'', mp_vector = [7], mp_tags = [], mp_source = [], mp_supersedes = 0\<rparr>)\<rparr>,
      \<lparr>lr_seq = 2, lr_time = 11, lr_tenant = 3, lr_event = OtherEvent ''x''\<rparr>], el_next = 3\<rparr>"

lemma reembed_keeps_memory_witness:
  "snd (snd (migrate (\<lambda>texts s. (s, Inr (map (\<lambda>_. [1, 2]) texts))) 2 0 None None (\<lambda>i. Some (100 + int i)) old_journal el_empty ())) =
     Migrated 2 1"
proof -
  let ?emb = "\<lambda>texts (s :: unit). (s, Inr (map (\<lambda>_. [1 :: rat, 2]) texts) :: embed_error + rat list list)"
  have r: "\<exists>dst. reembed ?emb 2 0 None None (\<lambda>i. Some (100 + int i)) old_journal el_empty () = ((), dst, Inr (2, 1))"
    by (simp add: reembed_def old_journal_def delivered_def embed_all.simps el_append_def el_empty_def Let_def)
  then obtain dst where r: "reembed ?emb 2 0 None None (\<lambda>i. Some (100 + int i)) old_journal el_empty () = ((), dst, Inr (2, 1))" by blast
  have n: "\<exists>m. NewMemory (mem_view old_journal) 1 = Inr m"
    by (simp add: NewMemory_def mem_view_def old_journal_def el_scan_def)
  then obtain m where n: "NewMemory (mem_view old_journal) 1 = Inr m" by blast
  have s: "map lr_seq (el_recs old_journal) = [1..<1 + length (el_recs old_journal)]"
    by (simp add: old_journal_def upt_rec)
  from reembed_keeps_memory [OF r s n] show ?thesis by simp
qed

end
