(* ===== verification/Deploy.thy ===== *)
theory Deploy
  imports HookProps
begin

text \<open>
  The PostToolUse hook \<^verbatim>\<open>cmd/sentry-deploy\<close>: a Bash command that matches one of five patterns becomes one
  message in the coordination space. The regular expressions are lists of literals, \<^verbatim>\<open>\s+\<close>, \<^verbatim>\<open>.*\<close> and
  alternatives; the matcher is proved against their languages. The payload is parsed as by the record
  hook, whose struct has the same fields, and the configuration is that of the wake hook.
\<close>

section \<open>Patterns\<close>

datatype rx = RLit gostring | RSpaces | RAny | RAlt "gostring list"

definition rx_space :: "char \<Rightarrow> bool" where
  "rx_space c \<longleftrightarrow> c \<in> {CHR '' '', CHR 0x09, CHR 0x0A, CHR 0x0C, CHR 0x0D}"

text \<open>A match at the start of the string.\<close>

function match_at :: "rx list \<Rightarrow> gostring \<Rightarrow> bool" where
  "match_at [] s = True"
| "match_at (RLit l # ps) s = (prefix l s \<and> match_at ps (drop (length l) s))"
| "match_at (RSpaces # ps) s =
     (case s of [] \<Rightarrow> False | c # s' \<Rightarrow> rx_space c \<and> (match_at ps s' \<or> match_at (RSpaces # ps) s'))"
| "match_at (RAny # ps) s =
     (match_at ps s \<or> (case s of [] \<Rightarrow> False | c # s' \<Rightarrow> c \<noteq> CHR 0x0A \<and> match_at (RAny # ps) s'))"
| "match_at (RAlt ls # ps) s = list_ex (\<lambda>l. prefix l s \<and> match_at ps (drop (length l) s)) ls"
  by pat_completeness auto
termination
  by (relation "measures [\<lambda>(ps, s). length ps, \<lambda>(ps, s). length s]") auto

fun match_string :: "rx list \<Rightarrow> gostring \<Rightarrow> bool" where
  "match_string ps [] = match_at ps []"
| "match_string ps (c # s) = (match_at ps (c # s) \<or> match_string ps s)"

definition deployPatterns :: "rx list list" where
  "deployPatterns =
     [[RLit ''systemctl'', RSpaces, RAlt [''restart'', ''reload''], RSpaces, RLit ''sentrymcp''],
      [RLit ''gh'', RSpaces, RLit ''pr'', RSpaces, RLit ''merge''],
      [RLit ''git'', RSpaces, RLit ''merge''],
      [RLit ''scp'', RSpaces, RAny, RLit ''sentrymcp''],
      [RLit ''git'', RSpaces, RLit ''push'', RSpaces, RAny, RAlt [''main'', ''deploy'']]]"

definition isDeployCommand :: "gostring \<Rightarrow> bool" where
  "isDeployCommand cmd \<longleftrightarrow> list_ex (\<lambda>ps. match_string ps cmd) deployPatterns"

section \<open>The hook\<close>

definition buildPostBody :: "gostring \<Rightarrow> gostring \<Rightarrow> gostring \<Rightarrow> js" where
  "buildPostBody area from body =
     JsObj [(''id'', JsInt 1), (''jsonrpc'', JsStr ''2.0''), (''method'', JsStr ''tools/call''),
       (''params'', JsObj [(''arguments'', JsObj [(''area'', JsStr area), (''from'', JsStr from), (''kind'', JsStr ''info''),
                                                (''text'', JsStr body)]),
                         (''name'', JsStr ''post'')])]"

record deploy_env =
  de_area :: gostring
  de_agent :: gostring
  de_host :: "gostring option"
  de_wd :: gostring

definition commsArea :: "deploy_env \<Rightarrow> gostring \<Rightarrow> gostring" where
  "commsArea env cwd = (if de_area env \<noteq> [] then de_area env else if cwd \<noteq> [] then path_base cwd else ''deploy'')"

definition commsAgent :: "deploy_env \<Rightarrow> gostring" where
  "commsAgent env =
     (if de_agent env \<noteq> [] then de_agent env
      else case de_host env of None \<Rightarrow> ''agent'' | Some h \<Rightarrow> if h \<noteq> [] then h else ''agent'')"

definition firstLine :: "gostring \<Rightarrow> gostring" where
  "firstLine cmd = trim_space (takeWhile (\<lambda>c. c \<noteq> CHR 0x0A) cmd)"

definition deploy_text :: "gostring \<Rightarrow> gostring \<Rightarrow> gostring" where
  "deploy_text cmd cwd = ''deploy: '' @ firstLine cmd @ '' @ '' @ cwd"

definition deploy_run :: "(gostring \<Rightarrow> rat option) \<Rightarrow> deploy_env \<Rightarrow> wake_config \<Rightarrow> js option \<Rightarrow> http_request option" where
  "deploy_run fl env cfg raw =
     (case RecordHook.parseHook fl raw of
        None \<Rightarrow> None
      | Some h \<Rightarrow>
          if ri_ToolName h \<noteq> ''Bash'' then None
          else
            let cmd = str_of (ri_ToolInput h ''command'')
            in if \<not> isDeployCommand cmd \<or> wc_url cfg = [] then None
               else let cwd = (if ri_Cwd h = [] then de_wd env else ri_Cwd h)
                    in Some (post_request cfg (buildPostBody (commsArea env cwd) (commsAgent env) (deploy_text cmd cwd))))"

section \<open>The matcher\<close>

text \<open>The language of a pattern.\<close>

fun rx_lang :: "rx \<Rightarrow> gostring set" where
  "rx_lang (RLit l) = {l}"
| "rx_lang RSpaces = {w. w \<noteq> [] \<and> list_all rx_space w}"
| "rx_lang RAny = {w. list_all (\<lambda>c. c \<noteq> CHR 0x0A) w}"
| "rx_lang (RAlt ls) = set ls"

fun rxs_lang :: "rx list \<Rightarrow> gostring set" where
  "rxs_lang [] = {[]}"
| "rxs_lang (p # ps) = {u @ w |u w. u \<in> rx_lang p \<and> w \<in> rxs_lang ps}"

definition starts :: "gostring set \<Rightarrow> gostring \<Rightarrow> bool" where
  "starts L s \<longleftrightarrow> (\<exists>w v. s = w @ v \<and> w \<in> L)"

lemma starts_Cons: "starts (rxs_lang (p # ps)) s \<longleftrightarrow> (\<exists>u t. s = u @ t \<and> u \<in> rx_lang p \<and> starts (rxs_lang ps) t)"
proof
  assume "starts (rxs_lang (p # ps)) s"
  then obtain u x v where "s = u @ x @ v" "u \<in> rx_lang p" "x \<in> rxs_lang ps" by (auto simp: starts_def)
  then show "\<exists>u t. s = u @ t \<and> u \<in> rx_lang p \<and> starts (rxs_lang ps) t" unfolding starts_def by blast
next
  assume "\<exists>u t. s = u @ t \<and> u \<in> rx_lang p \<and> starts (rxs_lang ps) t"
  then obtain u x v where s: "s = (u @ x) @ v" "u \<in> rx_lang p" "x \<in> rxs_lang ps" by (auto simp: starts_def)
  then have "u @ x \<in> rxs_lang (p # ps)" by auto
  then show "starts (rxs_lang (p # ps)) s" unfolding starts_def using s(1) by blast
qed

lemma starts_Nil [simp]: "starts (rxs_lang []) s"
  by (simp add: starts_def)

lemma ex_split: "(\<exists>u t. c # s = u @ t \<and> P u \<and> Q t) \<longleftrightarrow> (P [] \<and> Q (c # s)) \<or> (\<exists>u t. s = u @ t \<and> P (c # u) \<and> Q t)"
proof
  assume "\<exists>u t. c # s = u @ t \<and> P u \<and> Q t"
  then obtain u t where "c # s = u @ t" "P u" "Q t" by blast
  then show "(P [] \<and> Q (c # s)) \<or> (\<exists>u t. s = u @ t \<and> P (c # u) \<and> Q t)" by (cases u) auto
next
  assume "(P [] \<and> Q (c # s)) \<or> (\<exists>u t. s = u @ t \<and> P (c # u) \<and> Q t)"
  then show "\<exists>u t. c # s = u @ t \<and> P u \<and> Q t" by (metis append_Cons append_Nil)
qed

lemma split_spaces: "(\<exists>u t. c # s = u @ t \<and> u \<in> rx_lang RSpaces \<and> Q t) \<longleftrightarrow>
    rx_space c \<and> (Q s \<or> (\<exists>u t. s = u @ t \<and> u \<in> rx_lang RSpaces \<and> Q t))"
proof -
  have "(\<exists>u t. s = u @ t \<and> list_all rx_space u \<and> Q t) \<longleftrightarrow>
      Q s \<or> (\<exists>u t. s = u @ t \<and> (u \<noteq> [] \<and> list_all rx_space u) \<and> Q t)"
    by (metis append_Nil list.pred_inject(1))
  then show ?thesis unfolding ex_split by auto
qed

lemma split_any: "(\<exists>u t. s = u @ t \<and> u \<in> rx_lang RAny \<and> Q t) \<longleftrightarrow>
    Q s \<or> (case s of [] \<Rightarrow> False | c # s' \<Rightarrow> c \<noteq> CHR 0x0A \<and> (\<exists>u t. s' = u @ t \<and> u \<in> rx_lang RAny \<and> Q t))"
proof (cases s)
  case (Cons c s')
  show ?thesis unfolding Cons ex_split by auto
qed simp

lemma match_at_lang: "match_at ps s \<longleftrightarrow> starts (rxs_lang ps) s"
proof (induction ps s rule: match_at.induct)
  case (2 l ps s)
  then show ?case unfolding starts_Cons by (auto simp: prefix_def simp del: rxs_lang.simps)
next
  case (3 ps s)
  show ?case
  proof (cases s)
    case Nil
    then show ?thesis unfolding starts_Cons by simp
  next
    case (Cons c s')
    then show ?thesis using 3 [OF Cons] unfolding starts_Cons Cons split_spaces by (simp del: rx_lang.simps)
  qed
next
  case (4 ps s)
  show ?case
  proof (cases s)
    case Nil
    then show ?thesis using 4(1) unfolding starts_Cons by simp
  next
    case (Cons c s')
    then show ?thesis using 4(1) 4(2) [OF Cons] unfolding starts_Cons split_any [of s] by (simp del: rx_lang.simps)
  qed
next
  case (5 ls ps s)
  then show ?case unfolding starts_Cons by (force simp: list_ex_iff prefix_def simp del: rxs_lang.simps)
qed (simp del: rxs_lang.simps)

lemma match_string_lang: "match_string ps s \<longleftrightarrow> (\<exists>u t. s = u @ t \<and> starts (rxs_lang ps) t)"
proof (induction s)
  case Nil
  then show ?case by (simp add: match_at_lang)
next
  case (Cons c s)
  have "(\<exists>u t. c # s = u @ t \<and> Q t) \<longleftrightarrow> Q (c # s) \<or> (\<exists>u t. s = u @ t \<and> Q t)" for Q
    by (auto simp: Cons_eq_append_conv)
  then show ?case by (simp only: match_string.simps match_at_lang Cons.IH)
qed

section \<open>From the command to the message\<close>

lemma buildPostBody_call: "buildPostBody area from body =
    tool_call ''post'' [(''area'', JsStr area), (''from'', JsStr from), (''kind'', JsStr ''info''), (''text'', JsStr body)]"
  by (simp add: buildPostBody_def tool_call_def)

definition deploy_payload :: "gostring \<Rightarrow> gostring \<Rightarrow> gostring \<Rightarrow> msg_payload" where
  "deploy_payload area from body =
     \<lparr>pl_area = area, pl_from = from, pl_kind = ''info'', pl_text = body, pl_target = [], pl_ref = 0, pl_blob = [], pl_mime = [],
      pl_w = 0, pl_h = 0, pl_size = 0, pl_expires = 0, pl_deadline = 0\<rparr>"

text \<open>The records of the coordination space in the journal.\<close>

definition chat_records :: "('f, 's) app \<Rightarrow> (tenant \<times> comms_event) list" where
  "chat_records a = map (\<lambda>r. (lr_tenant r, lr_event r)) (el_recs (cs_journal (sv_chat (ap_mcp a))))"

lemma chat_records_align [simp]: "chat_records (align a) = chat_records a"
  by (simp add: chat_records_def align_def align_mcp_def el_to_def)

lemma Post_recorded:
  assumes "pl_area p \<noteq> []" "pl_from p \<noteq> []" "pl_text p \<noteq> []" "pl_kind p \<noteq> []"
  shows "map (\<lambda>r. (lr_tenant r, lr_event r)) (el_recs (cs_journal (fst (Post (Some clock) now t p s)))) =
    map (\<lambda>r. (lr_tenant r, lr_event r)) (el_recs (cs_journal s)) @ [(t, MessageEv p)]"
  using assms by (simp add: Post_def el_append_def Let_def)

lemma deploy_dispatched:
  assumes "ce_append ev = Some clock" and "area \<noteq> []" and "from \<noteq> []" and "body \<noteq> []"
  shows "chat_records (fst (dispatch cf ev t (Some (buildPostBody area from body)) a)) =
    chat_records a @ [(t, MessageEv (deploy_payload area from body))]"
proof -
  let ?js = "[(''area'', JsStr area), (''from'', JsStr from), (''kind'', JsStr ''info''), (''text'', JsStr body)]"
  let ?args = "[''area'' \<mapsto> ToolArgs.JStr area, ''from'' \<mapsto> ToolArgs.JStr from, ''kind'' \<mapsto> ToolArgs.JStr ''info'',
      ''text'' \<mapsto> ToolArgs.JStr body]"
  have fl: "list_all (\<lambda>(k, v). js_floats (ac_float cf) v) ?js" by simp
  have tn: "map_of tool_names ''post'' = Some DoPost" by (simp add: tool_names_def)
  have ar: "fold (\<lambda>(k, v) m. m(k \<mapsto> js_value (ac_float cf) v)) ?js Map.empty = ?args" by simp
  have p: "post_payload (ce_now ev) ?args = Inr (deploy_payload area from body)"
    using assms(2-4) by (simp add: post_payload_def deploy_payload_def strArg_def uintArg_def numArg_def durArg_def)
  have "sv_chat (fst (post_tool (ce_append ev) (ce_now ev) t ?args (ap_mcp a))) =
      fst (Post (Some clock) (ce_now ev) t (deploy_payload area from body) (sv_chat (ap_mcp a)))"
    unfolding post_tool_def p assms(1) by (simp split: prod.split sum.split)
  then show ?thesis
    unfolding buildPostBody_call dispatch_tool_call [OF fl tn] ar
    using Post_recorded [of "deploy_payload area from body"] assms(2-4)
    by (simp add: on_mcp_def chat_records_align) (simp add: chat_records_def deploy_payload_def)
qed

lemma path_base_nonempty [simp]: "path_base s \<noteq> []"
  by (simp add: path_base_def Let_def)

lemma hook_labels: "commsArea env cwd \<noteq> []" "commsAgent env \<noteq> []" "deploy_text cmd cwd \<noteq> []"
  by (simp_all add: commsArea_def commsAgent_def deploy_text_def split: option.split)

text \<open>C26. A deploy leaves its evidence. The hook sends a request exactly for a Bash command in which one of the five
  patterns matches somewhere (and a configured server), and when the server takes the request, its append
  succeeding, the coordination space gets exactly one record, for the caller's tenant: an informational
  message without recipient or expiry that names the first line of the command and the directory, in an
  area and from an agent that are never empty, so that it is never refused.\<close>
theorem deploy_hook_posts:
  assumes "RecordHook.parseHook fl raw = Some h" and "wc_url cfg \<noteq> []" and "ce_append ev = Some clock"
  shows "case deploy_run fl env cfg raw of
      None \<Rightarrow> \<not> (ri_ToolName h = ''Bash'' \<and>
        (\<exists>ps u v. ps \<in> set deployPatterns \<and> str_of (ri_ToolInput h ''command'') = u @ v \<and> starts (rxs_lang ps) v))
    | Some rq \<Rightarrow> (\<exists>b. hq_Body rq = Some [b] \<and> hq_Target rq = wc_url cfg \<and> ri_ToolName h = ''Bash'' \<and>
        (\<exists>ps u v. ps \<in> set deployPatterns \<and> str_of (ri_ToolInput h ''command'') = u @ v \<and> starts (rxs_lang ps) v) \<and>
        (let cwd = (if ri_Cwd h = [] then de_wd env else ri_Cwd h)
         in chat_records (fst (dispatch cf ev t (Some b) a)) = chat_records a @
           [(t, MessageEv (deploy_payload (commsArea env cwd) (commsAgent env)
              (deploy_text (str_of (ri_ToolInput h ''command'')) cwd)))]))"
proof -
  have m: "isDeployCommand cmd \<longleftrightarrow> (\<exists>ps u v. ps \<in> set deployPatterns \<and> cmd = u @ v \<and> starts (rxs_lang ps) v)" for cmd
    by (auto simp: isDeployCommand_def list_ex_iff match_string_lang)
  show ?thesis
    using assms(2) deploy_dispatched [OF assms(3) hook_labels, where cf = cf and t = t and a = a]
    unfolding m [symmetric] by (simp add: deploy_run_def assms(1) Let_def post_request_def)
qed

definition restart_use :: "js option" where
  "restart_use = Some (JsObj [(''tool_name'', JsStr ''Bash''),
     (''tool_input'', JsObj [(''command'', JsStr ''sudo systemctl  restart sentrymcp'')]), (''cwd'', JsStr ''/srv/app'')])"

definition plain_env :: deploy_env where
  "plain_env = \<lparr>de_area = [], de_agent = [], de_host = None, de_wd = []\<rparr>"

lemma deploy_hook_posts_witness:
  "\<forall>(cf :: (rat, rat, unit) app_conf) ev t a clock. \<exists>b.
     chat_records (fst (dispatch cf (ev\<lparr>ce_append := Some clock\<rparr>) t (Some b) a)) = chat_records a @
       [(t, MessageEv (deploy_payload ''app'' ''agent'' ''deploy: sudo systemctl  restart sentrymcp @ /srv/app''))]"
proof (intro allI)
  fix cf :: "(rat, rat, unit) app_conf" and ev :: "rat call_env" and t :: tenant and a :: "(rat, unit) app" and clock :: int
  define cfg where "cfg = \<lparr>wc_url = ''u'', wc_token = []\<rparr>"
  let ?in = "[''command'' \<mapsto> JsStr ''sudo systemctl  restart sentrymcp'']"
  have p: "RecordHook.parseHook (\<lambda>_. None) restart_use = Some \<lparr>ri_ToolName = ''Bash'', ri_ToolInput = ?in,
      ri_ToolResponse = None, ri_Cwd = ''/srv/app''\<rparr>" (is "_ = Some ?h")
    by (simp add: RecordHook.parseHook_def restart_use_def js_fields_def key_is_def to_lower_def lower_char_def raw_field_def)
  have d: "isDeployCommand ''sudo systemctl  restart sentrymcp''" by code_simp
  have l: "commsArea plain_env ''/srv/app'' = ''app''" "commsAgent plain_env = ''agent''"
    "deploy_text ''sudo systemctl  restart sentrymcp'' ''/srv/app'' = ''deploy: sudo systemctl  restart sentrymcp @ /srv/app''"
    by code_simp+
  have u: "wc_url cfg \<noteq> []" by (simp add: cfg_def)
  have r: "\<exists>rq. deploy_run (\<lambda>_. None) plain_env cfg restart_use = Some rq"
    using d u by (simp add: deploy_run_def p str_of_def Let_def)
  then obtain rq where r: "deploy_run (\<lambda>_. None) plain_env cfg restart_use = Some rq" by blast
  have e: "ce_append (ev\<lparr>ce_append := Some clock\<rparr>) = Some clock" by simp
  from deploy_hook_posts [OF p u e, where env = plain_env and cf = cf and t = t and a = a]
  show "\<exists>b. chat_records (fst (dispatch cf (ev\<lparr>ce_append := Some clock\<rparr>) t (Some b) a)) = chat_records a @
       [(t, MessageEv (deploy_payload ''app'' ''agent'' ''deploy: sudo systemctl  restart sentrymcp @ /srv/app''))]"
    by (auto simp: r l str_of_def Let_def)
qed

end
