(* ===== verification/Transcript.thy ===== *)
theory Transcript
  imports Http
begin

text \<open>
  The session transcripts of \<^verbatim>\<open>internal/transcript/transcript.go\<close>: how many tool uses one holds, and its
  segmentation into windows. A transcript is what the line scanner delivers, every line decoded
  (\<open>None\<close>: not JSON), and whether the scan ended without an error (a read error or a line that does
  not fit the 16 MB buffer is one).
\<close>

type_synonym transcript = "js option list \<times> bool"

section \<open>Lines\<close>

record block =
  bk_Type :: gostring
  bk_Text :: gostring

definition decode_block :: "js \<Rightarrow> block option" where
  "decode_block v =
     (case js_fields v of None \<Rightarrow> None
      | Some fs \<Rightarrow> if str_ok fs ''type'' \<and> str_ok fs ''text''
                   then Some \<lparr>bk_Type = get_str ''type'' fs, bk_Text = get_str ''text'' fs\<rparr> else None)"

text \<open>The content is a text or a list of blocks; one block that does not decode loses the list.\<close>

definition parseContent :: "js option \<Rightarrow> block list" where
  "parseContent raw =
     (case raw of
        Some (JsArr vs) \<Rightarrow> (case those (map decode_block vs) of Some bs \<Rightarrow> bs | None \<Rightarrow> [])
      | Some (JsStr s) \<Rightarrow> [\<lparr>bk_Type = ''text'', bk_Text = s\<rparr>]
      | _ \<Rightarrow> [])"

text \<open>The content of the field \<^verbatim>\<open>message\<close>, and whether the field is well typed.\<close>

fun message_field :: "(gostring \<times> js) list \<Rightarrow> js option \<times> bool \<Rightarrow> js option \<times> bool" where
  "message_field [] r = r"
| "message_field ((k, v) # fs) (c, ok) =
     message_field fs
       (if \<not> key_is ''message'' k then (c, ok)
        else case v of
               JsObj gs \<Rightarrow> (case raw_field ''content'' gs of None \<Rightarrow> (c, ok) | Some x \<Rightarrow> (Some x, ok))
             | JsNull \<Rightarrow> (c, ok)
             | _ \<Rightarrow> (c, False))"

definition line_blocks :: "js option \<Rightarrow> block list" where
  "line_blocks l =
     (case Option.bind l js_fields of None \<Rightarrow> []
      | Some fs \<Rightarrow> (case message_field fs (None, True) of (c, ok) \<Rightarrow>
                      if ok \<and> str_ok fs ''type'' then parseContent c else []))"

section \<open>Counting\<close>

definition count_block :: "block \<Rightarrow> nat \<Rightarrow> nat" where
  "count_block b n = (if bk_Type b = ''tool_use'' then n + 1 else n)"

definition CountToolUses :: "transcript \<Rightarrow> nat \<times> bool" where
  "CountToolUses tr = (fold (\<lambda>l n. fold count_block (line_blocks l) n) (fst tr) 0, snd tr)"

section \<open>Windows\<close>

record window =
  wn_Session :: gostring
  wn_Index :: nat
  wn_ToolUses :: nat
  wn_Text :: gostring

record segmenter =
  sg_out :: "window list"
  sg_sb :: gostring
  sg_tu :: nat
  sg_idx :: nat

definition flush :: "gostring \<Rightarrow> segmenter \<Rightarrow> segmenter" where
  "flush session st =
     \<lparr>sg_out = sg_out st @ [\<lparr>wn_Session = session, wn_Index = sg_idx st, wn_ToolUses = sg_tu st, wn_Text = sg_sb st\<rparr>],
      sg_sb = [], sg_tu = 0, sg_idx = sg_idx st + 1\<rparr>"

definition add_block :: "gostring \<Rightarrow> int \<Rightarrow> block \<Rightarrow> segmenter \<Rightarrow> segmenter" where
  "add_block session k b st =
     (if bk_Type b = ''text''
      then let t = trim_space (bk_Text b)
           in if t \<noteq> [] then st\<lparr>sg_sb := sg_sb st @ t @ [CHR 0x0A]\<rparr> else st
      else if bk_Type b = ''tool_use''
      then let st1 = st\<lparr>sg_tu := sg_tu st + 1\<rparr>
           in if int (sg_tu st1) \<ge> k then flush session st1 else st1
      else st)"

definition Windows :: "gostring \<Rightarrow> transcript \<Rightarrow> int \<Rightarrow> window list \<times> bool" where
  "Windows session tr k0 =
     (let k = (if k0 \<le> 0 then 1 else k0);
          st = fold (\<lambda>l. fold (add_block session k) (line_blocks l)) (fst tr)
                 \<lparr>sg_out = [], sg_sb = [], sg_tu = 0, sg_idx = 0\<rparr>
      in (sg_out (if sg_tu st > 0 \<or> length (sg_sb st) > 0 then flush session st else st), snd tr))"

section \<open>Both see the same activity\<close>

text \<open>All the prose of a transcript, a line for each text.\<close>

definition block_prose :: "block \<Rightarrow> gostring" where
  "block_prose b =
     (if bk_Type b = ''text'' \<and> trim_space (bk_Text b) \<noteq> [] then trim_space (bk_Text b) @ [CHR 0x0A] else [])"

definition prose :: "transcript \<Rightarrow> gostring" where
  "prose tr = concat (map block_prose (concat (map line_blocks (fst tr))))"

lemma fold_lines: "fold (\<lambda>l. fold f (g l)) ls = fold f (concat (map g ls))"
  by (induction ls) (simp_all add: fun_eq_iff)

lemma count_uses: "fold count_block bs n = n + length (filter (\<lambda>b. bk_Type b = ''tool_use'') bs)"
  by (induction bs arbitrary: n) (simp_all add: count_block_def)

lemma CountToolUses_eq:
  "CountToolUses tr = (length (filter (\<lambda>b. bk_Type b = ''tool_use'') (concat (map line_blocks (fst tr)))), snd tr)"
  unfolding CountToolUses_def fold_lines count_uses by simp

text \<open>What holds of the windows closed so far and the one being filled, after the blocks \<open>bs\<close>.\<close>

definition seg_inv :: "gostring \<Rightarrow> int \<Rightarrow> block list \<Rightarrow> segmenter \<Rightarrow> bool" where
  "seg_inv session k bs st \<longleftrightarrow>
     sum_list (map wn_ToolUses (sg_out st)) + sg_tu st = length (filter (\<lambda>b. bk_Type b = ''tool_use'') bs) \<and>
     concat (map wn_Text (sg_out st)) @ sg_sb st = concat (map block_prose bs) \<and>
     map wn_Index (sg_out st) = [0..<sg_idx st] \<and>
     list_all (\<lambda>w. wn_Session w = session \<and> int (wn_ToolUses w) = k) (sg_out st) \<and>
     int (sg_tu st) < k"

lemma seg_inv_start: "0 < k \<Longrightarrow> seg_inv s k [] \<lparr>sg_out = [], sg_sb = [], sg_tu = 0, sg_idx = 0\<rparr>"
  by (simp add: seg_inv_def)

lemma seg_inv_step: "seg_inv s k bs st \<Longrightarrow> seg_inv s k (bs @ [b]) (add_block s k b st)"
  by (auto simp: seg_inv_def add_block_def flush_def block_prose_def Let_def)

lemma seg_inv_fold: "seg_inv s k bs st \<Longrightarrow> seg_inv s k (bs @ cs) (fold (add_block s k) cs st)"
proof (induction cs arbitrary: bs st)
  case (Cons c cs)
  then show ?case using Cons.IH [OF seg_inv_step, of bs st c] by simp
qed simp

text \<open>C28. The two readers of a transcript agree on its activity: the windows of the segmentation hold exactly
  the tool uses that the counter counts and all the prose, in order and without loss. They are
  numbered from 0, every window but the last holds exactly \<open>k\<close> tool uses (one, when \<open>k\<close> is not
  positive), the last at most \<open>k\<close>, no window is empty, and both report a failed scan alike.\<close>
theorem windows_partition:
  "let ws = fst (Windows session tr k); n = nat (max 1 k)
   in sum_list (map wn_ToolUses ws) = fst (CountToolUses tr) \<and>
      concat (map wn_Text ws) = prose tr \<and>
      map wn_Index ws = [0..<length ws] \<and>
      list_all (\<lambda>w. wn_Session w = session \<and> wn_ToolUses w \<le> n \<and> \<not> (wn_ToolUses w = 0 \<and> wn_Text w = [])) ws \<and>
      list_all (\<lambda>w. wn_ToolUses w = n) (butlast ws) \<and>
      snd (Windows session tr k) = snd (CountToolUses tr)"
proof -
  define q where "q = (if k \<le> 0 then 1 else k)"
  define bs where "bs = concat (map line_blocks (fst tr))"
  define st where "st = fold (add_block session q) bs \<lparr>sg_out = [], sg_sb = [], sg_tu = 0, sg_idx = 0\<rparr>"
  have q: "0 < q" "nat (max 1 k) = nat q" by (auto simp: q_def)
  have i: "seg_inv session q bs st"
    using seg_inv_fold [OF seg_inv_start [OF q(1)], of session bs] by (simp add: st_def)
  have w: "Windows session tr k =
      (sg_out (if sg_tu st > 0 \<or> length (sg_sb st) > 0 then flush session st else st), snd tr)"
    by (simp add: Windows_def fold_lines st_def bs_def q_def Let_def)
  have n: "length (sg_out st) = sg_idx st"
    using i by (metis seg_inv_def length_map length_upt diff_zero)
  have full: "list_all (\<lambda>w. wn_ToolUses w = nat q) (butlast (sg_out st))"
    using i by (auto simp: seg_inv_def list_all_iff dest!: in_set_butlastD)
  show ?thesis
    using i n full q(1) unfolding w CountToolUses_eq prose_def q(2) bs_def [symmetric]
    by (auto simp: seg_inv_def flush_def Let_def list_all_iff)
qed

end
