(* ===== verification/Reflect.thy ===== *)
theory Reflect
  imports Transcript Wake
begin

text \<open>
  The Stop hook \<^verbatim>\<open>cmd/sentry-reflect/main.go\<close>: after every 40 new tool uses of a session it blocks the stop
  and asks for a reflection. It keeps a counter per session in a file. Files, environment and the
  opened transcript are arguments; the file names and the prompt are those of the wake hook, whose
  source has the same \<^verbatim>\<open>safeName\<close> and \<^verbatim>\<open>reflectionPrompt\<close>.
\<close>

record reflect_input =
  rh_SessionID :: gostring
  rh_TranscriptPath :: gostring
  rh_StopHookActive :: bool
  rh_Cwd :: gostring

text \<open>The payload on stdin, \<open>None\<close> when it is not JSON (or cut off at 1 MB).\<close>

definition parseHook :: "js option \<Rightarrow> reflect_input option" where
  "parseHook b =
     (case Option.bind b js_fields of None \<Rightarrow> None
      | Some fs \<Rightarrow>
          if list_all (str_ok fs) [''session_id'', ''transcript_path'', ''cwd''] \<and> bool_ok fs ''stop_hook_active''
          then Some \<lparr>rh_SessionID = get_str ''session_id'' fs, rh_TranscriptPath = get_str ''transcript_path'' fs,
                     rh_StopHookActive = get_bool ''stop_hook_active'' fs, rh_Cwd = get_str ''cwd'' fs\<rparr>
          else None)"

definition shouldReflect :: "int \<Rightarrow> int \<Rightarrow> bool \<Rightarrow> bool" where
  "shouldReflect delta k stopActive \<longleftrightarrow> \<not> stopActive \<and> delta \<ge> k"

section \<open>The counters\<close>

text \<open>The files of the state directory by name. A write may fail before or after it truncated the file.\<close>

type_synonym counter_files = "gostring \<rightharpoonup> gostring"

datatype count_write = WroteAll | WroteNothing | WrotePart nat

definition readCount :: "gostring \<Rightarrow> counter_files \<Rightarrow> int" where
  "readCount sid fs =
     (case fs (safeName sid) of None \<Rightarrow> 0
      | Some b \<Rightarrow> (case atoi (trim_space b) of None \<Rightarrow> 0 | Some n \<Rightarrow> n))"

definition writeCount :: "count_write \<Rightarrow> gostring \<Rightarrow> int \<Rightarrow> counter_files \<Rightarrow> counter_files" where
  "writeCount w sid n fs =
     (case w of WroteAll \<Rightarrow> fs(safeName sid \<mapsto> show_int n)
      | WroteNothing \<Rightarrow> fs
      | WrotePart m \<Rightarrow> fs(safeName sid \<mapsto> take m (show_int n)))"

definition blockOutput :: "gostring \<Rightarrow> gostring" where
  "blockOutput reason = js_text (JsObj [(''decision'', JsStr ''block''), (''reason'', JsStr reason)])"

text \<open>\<open>opened\<close> is the transcript at the given path, \<open>None\<close> when it cannot be opened.\<close>

definition decide :: "(gostring \<Rightarrow> transcript option) \<Rightarrow> count_write \<Rightarrow> reflect_input \<Rightarrow> int \<Rightarrow> counter_files \<Rightarrow>
    counter_files \<times> gostring option" where
  "decide opened w h k fs =
     (case opened (rh_TranscriptPath h) of
        None \<Rightarrow> (fs, None)
      | Some tr \<Rightarrow>
          (case CountToolUses tr of (cnt, ok) \<Rightarrow>
             if \<not> ok then (fs, None)
             else let stored = readCount (rh_SessionID h) fs
               in if \<not> shouldReflect (wrap64 (int cnt - stored)) k (rh_StopHookActive h) then (fs, None)
                  else (writeCount w (rh_SessionID h) (int cnt) fs, Some (blockOutput reflectionPrompt))))"

section \<open>Configuration and the run\<close>

definition url_line :: "gostring \<Rightarrow> gostring \<Rightarrow> gostring" where
  "url_line ln0 url =
     (let l = trim_space ln0
      in if l = [] \<or> prefix ''#'' l then url
         else case cut ''='' l of None \<Rightarrow> url
              | Some (key, val) \<Rightarrow>
                  if trim_space key = ''SENTRY_MCP_URL'' \<and> url = [] then trim_quotes (trim_space val) else url)"

definition loadEnvFile :: "gostring option \<Rightarrow> gostring \<Rightarrow> gostring" where
  "loadEnvFile data url = (case data of None \<Rightarrow> url | Some d \<Rightarrow> fold url_line (split_on (CHR 0x0A) d) url)"

text \<open>The environment, and what \<^verbatim>\<open>.matrix-sentry.env\<close> holds in the home directory, if there is one.\<close>

definition loadConfig :: "(gostring \<Rightarrow> gostring) \<Rightarrow> gostring option option \<Rightarrow> gostring" where
  "loadConfig env home =
     (let url = env ''SENTRY_MCP_URL''
      in if url \<noteq> [] then url else case home of None \<Rightarrow> url | Some data \<Rightarrow> loadEnvFile data url)"

definition run :: "(gostring \<Rightarrow> gostring) \<Rightarrow> gostring option option \<Rightarrow> (gostring \<Rightarrow> transcript option) \<Rightarrow> count_write \<Rightarrow>
    js option \<Rightarrow> counter_files \<Rightarrow> counter_files \<times> gostring option" where
  "run env home opened w raw fs =
     (case parseHook raw of
        None \<Rightarrow> (fs, None)
      | Some h \<Rightarrow> if loadConfig env home = [] then (fs, None) else decide opened w h reflectEvery fs)"

section \<open>Counters survive the file\<close>

lemma show_int_trim: "trim_space (show_int i) = show_int i"
proof (rule trim_space_idle)
  have dig: "\<not> is_space c" if "is_digit c" for c
    using that by (auto simp: is_digit_def is_space_def)
  have n: "\<not> is_space (hd (show_nat n))" "\<not> is_space (last (show_nat n))" for n
    using show_nat_digits [of n] dig by (auto simp: list_all_iff)
  show "show_int i = [] \<or> \<not> is_space (hd (show_int i)) \<and> \<not> is_space (last (show_int i))"
    using n show_nat_digits [of "nat (- i)"] by (auto simp: show_int_def is_space_def)
qed

lemma atoi_show_int: "- (2 ^ 63) \<le> i \<Longrightarrow> i < 2 ^ 63 \<Longrightarrow> atoi (show_int i) = Some i"
  using atoi_show [of "nat i"] show_nat_digits [of "nat (- i)"]
  by (auto simp: show_int_def atoi_def)

lemma read_written:
  "- (2 ^ 63) \<le> n \<Longrightarrow> n < 2 ^ 63 \<Longrightarrow> readCount sid (writeCount WroteAll sid n fs) = n"
  by (simp add: readCount_def writeCount_def show_int_trim atoi_show_int)

lemma read_other: "safeName sid' \<noteq> safeName sid \<Longrightarrow> readCount sid' (writeCount w sid n fs) = readCount sid' fs"
  by (simp add: readCount_def writeCount_def split: count_write.split)

lemma readCount_bound: "- (2 ^ 63) \<le> readCount sid fs \<and> readCount sid fs < 2 ^ 63"
proof -
  have "- (2 ^ 63) \<le> n \<and> n < 2 ^ 63" if "atoi s = Some n" for s n
    using that by (auto simp: atoi_def Let_def split: if_splits)
  then show ?thesis by (auto simp: readCount_def split: option.split)
qed

section \<open>The stops of a session\<close>

text \<open>The stops of one session, each with its transcript as it is then; whether each stop was blocked.\<close>

fun stops :: "gostring \<Rightarrow> int \<Rightarrow> (bool \<times> transcript) list \<Rightarrow> counter_files \<Rightarrow> counter_files \<times> bool list" where
  "stops sid k [] fs = (fs, [])"
| "stops sid k ((active, tr) # ss) fs =
     (case decide (\<lambda>_. Some tr) WroteAll
             \<lparr>rh_SessionID = sid, rh_TranscriptPath = [], rh_StopHookActive = active, rh_Cwd = []\<rparr> k fs of
        (fs1, out) \<Rightarrow> (case stops sid k ss fs1 of (fs2, fired) \<Rightarrow> (fs2, (out \<noteq> None) # fired)))"

abbreviation uses_of :: "transcript \<Rightarrow> int" where
  "uses_of tr \<equiv> int (fst (CountToolUses tr))"

text \<open>Transcripts only grow, and they are scanned without error.\<close>

fun growing :: "int \<Rightarrow> (bool \<times> transcript) list \<Rightarrow> bool" where
  "growing m [] \<longleftrightarrow> True"
| "growing m ((_, tr) # ss) \<longleftrightarrow> m \<le> uses_of tr \<and> uses_of tr < 2 ^ 63 \<and> snd (CountToolUses tr) \<and> growing (uses_of tr) ss"

lemma decide_step:
  fixes k :: int
  assumes "0 \<le> readCount sid fs" and "readCount sid fs \<le> m" and "m \<le> uses_of tr" and "uses_of tr < 2 ^ 63"
    and "snd (CountToolUses tr)" and "0 < k"
    and d: "decide (\<lambda>_. Some tr) WroteAll
      \<lparr>rh_SessionID = sid, rh_TranscriptPath = [], rh_StopHookActive = active, rh_Cwd = []\<rparr> k fs = (fs1, out)"
  shows "out \<noteq> None \<and> readCount sid fs1 = uses_of tr \<and> readCount sid fs + k \<le> uses_of tr \<and> \<not> active \<or>
         out = None \<and> fs1 = fs \<and> (active \<or> uses_of tr < readCount sid fs + k)"
proof -
  obtain n where c: "CountToolUses tr = (n, True)" using assms(5) by (cases "CountToolUses tr") auto
  have w: "wrap64 (int n - readCount sid fs) = int n - readCount sid fs"
    using assms(1-4) c by (simp add: wrap64_id)
  show ?thesis
    using d assms(1-4,6) w c read_written [of "int n" sid fs]
    by (auto simp: decide_def shouldReflect_def Let_def split: if_splits)
qed

lemma stops_progress:
  fixes k :: int
  assumes "growing m ss" and "0 \<le> readCount sid fs" and "readCount sid fs \<le> m" and "0 < k"
    and "stops sid k ss fs = (fs', fired)"
  shows "readCount sid fs + int (length (filter id fired)) * k \<le> readCount sid fs' \<and>
         (ss \<noteq> [] \<longrightarrow> readCount sid fs' \<le> uses_of (snd (last ss)) \<and>
            (\<not> fst (last ss) \<longrightarrow> uses_of (snd (last ss)) < readCount sid fs' + k)) \<and> length fired = length ss"
  using assms
proof (induction ss arbitrary: m fs fired)
  case (Cons s ss)
  obtain active tr where s: "s = (active, tr)" by (cases s)
  obtain fs1 out where d: "decide (\<lambda>_. Some tr) WroteAll
      \<lparr>rh_SessionID = sid, rh_TranscriptPath = [], rh_StopHookActive = active, rh_Cwd = []\<rparr> k fs = (fs1, out)"
    by (cases "decide (\<lambda>_. Some tr) WroteAll
      \<lparr>rh_SessionID = sid, rh_TranscriptPath = [], rh_StopHookActive = active, rh_Cwd = []\<rparr> k fs")
  obtain f2 where r: "stops sid k ss fs1 = (fs', f2)" and f: "fired = (out \<noteq> None) # f2"
    using Cons.prems(5) d by (auto simp: s split: prod.splits)
  have g: "m \<le> uses_of tr" "uses_of tr < 2 ^ 63" "snd (CountToolUses tr)" "growing (uses_of tr) ss"
    using Cons.prems(1) by (simp_all add: s)
  note st = decide_step [OF Cons.prems(2,3) g(1-3) Cons.prems(4) d]
  have b: "0 \<le> readCount sid fs1" "readCount sid fs1 \<le> uses_of tr"
    using st Cons.prems(2,3) g(1) by auto
  note IH = Cons.IH [OF g(4) b Cons.prems(4) r]
  show ?case
    using IH st r b Cons.prems(4) by (cases "ss = []") (auto simp: s f algebra_simps)
qed simp


definition sample_line :: "js option" where
  "sample_line = Some (JsObj [(''message'', JsObj [(''content'', JsArr [JsObj [(''type'', JsStr ''tool_use'')],
     JsObj [(''type'', JsStr ''tool_use'')]])])])"

lemma sample_count: "CountToolUses (replicate n sample_line, True) = (2 * n, True)"
proof -
  have "length (filter (\<lambda>b. bk_Type b = ''tool_use'') (line_blocks sample_line)) = 2"
    by (simp add: sample_line_def line_blocks_def raw_field_def js_fields_def parseContent_def decode_block_def
        key_is_def to_lower_def lower_char_def)
  then show ?thesis by (simp add: CountToolUses_eq map_replicate_const) (induction n; simp)
qed


end
