(* ===== verification/TopK.thy ===== *)
theory TopK
  imports Prelude
begin

text \<open>
  The bounded max-heap of \<^verbatim>\<open>ivf/heap.go\<close> (the same code as in \<^verbatim>\<open>pq/pq.go\<close>) and the selection loop
  around it in the searches: the heap is the slice, root first; sifting is the loop with its
  swaps. Proved: the heap order and the contents after each operation, hence that the loop keeps
  the nearest candidates, and that without room (\<open>topK\<close> at most zero) it panics.
\<close>

section \<open>The heap\<close>

record 'f hresult =
  rs_ID :: nat
  rs_Dist :: 'f

type_synonym 'f heap = "'f hresult list"

definition swap :: "nat \<Rightarrow> nat \<Rightarrow> 'a list \<Rightarrow> 'a list" where
  "swap i j h = h[i := h ! j, j := h ! i]"

fun sift_up :: "nat \<Rightarrow> 'f::linorder heap \<Rightarrow> 'f heap" where
  "sift_up i h =
     (if i = 0 then h
      else let p = (i - 1) div 2
           in if rs_Dist (h ! p) \<ge> rs_Dist (h ! i) then h else sift_up p (swap p i h))"

declare sift_up.simps [simp del]

definition push :: "'f::linorder hresult \<Rightarrow> 'f heap \<Rightarrow> 'f heap" where
  "push r h = sift_up (length h) (h @ [r])"

definition larger :: "nat \<Rightarrow> nat \<Rightarrow> 'f::linorder heap \<Rightarrow> nat" where
  "larger c g h = (if c < length h \<and> rs_Dist (h ! c) > rs_Dist (h ! g) then c else g)"

function sift_down :: "nat \<Rightarrow> 'f::linorder heap \<Rightarrow> 'f heap" where
  "sift_down i h =
     (let largest = larger (2 * i + 2) (larger (2 * i + 1) i h) h
      in if largest = i then h else sift_down largest (swap i largest h))"
  by pat_completeness auto
termination
  by (relation "measure (\<lambda>(i, h). length h - i)") (auto simp: larger_def swap_def Let_def split: if_splits)

declare sift_down.simps [simp del]

definition replaceTop :: "'f::linorder hresult \<Rightarrow> 'f heap \<Rightarrow> 'f heap" where
  "replaceTop r h = sift_down 0 (h[0 := r])"

definition drainAscending :: "'f::linorder heap \<Rightarrow> 'f hresult list" where
  "drainAscending h = sort_key (\<lambda>r. (rs_Dist r, rs_ID r)) h"

text \<open>One candidate: room, better than the worst kept, or neither. \<open>(*h)[0]\<close> of an empty heap panics
  (\<open>None\<close>).\<close>

definition offer :: "int \<Rightarrow> 'f::linorder hresult \<Rightarrow> 'f heap \<Rightarrow> 'f heap option" where
  "offer topK r h =
     (if int (length h) < topK then Some (push r h)
      else case h of [] \<Rightarrow> None
           | worst # _ \<Rightarrow> Some (if rs_Dist r < rs_Dist worst then replaceTop r h else h))"

fun offers :: "int \<Rightarrow> 'f::linorder hresult list \<Rightarrow> 'f heap \<Rightarrow> 'f heap option" where
  "offers topK [] h = Some h"
| "offers topK (r # rs) h = (case offer topK r h of None \<Rightarrow> None | Some h' \<Rightarrow> offers topK rs h')"

section \<open>Heap order\<close>

abbreviation dist_at :: "'f::linorder heap \<Rightarrow> nat \<Rightarrow> 'f" where
  "dist_at h i \<equiv> rs_Dist (h ! i)"

text \<open>\<open>heap_but ok h\<close>: the order holds on the edges (by their lower end) that satisfy \<open>ok\<close>.\<close>

definition heap_but :: "(nat \<Rightarrow> bool) \<Rightarrow> 'f::linorder heap \<Rightarrow> bool" where
  "heap_but ok h \<longleftrightarrow> (\<forall>j < length h. 0 < j \<and> ok j \<longrightarrow> dist_at h j \<le> dist_at h ((j - 1) div 2))"

definition is_heap :: "'f::linorder heap \<Rightarrow> bool" where
  "is_heap h \<longleftrightarrow> heap_but (\<lambda>_. True) h"

text \<open>During sifting: the children of the place in question are below its parent.\<close>

definition above :: "nat \<Rightarrow> 'f::linorder heap \<Rightarrow> bool" where
  "above i h \<longleftrightarrow>
     (0 < i \<longrightarrow> (\<forall>j < length h. 0 < j \<and> (j - 1) div 2 = i \<longrightarrow> dist_at h j \<le> dist_at h ((i - 1) div 2)))"

lemma length_swap [simp]: "length (swap i j h) = length h"
  by (simp add: swap_def)

lemma mset_swap [simp]: "i < length h \<Longrightarrow> j < length h \<Longrightarrow> mset (swap i j h) = mset h"
  unfolding swap_def by (rule mset_swap)

lemma nth_swap:
  "i < length h \<Longrightarrow> j < length h \<Longrightarrow> k < length h \<Longrightarrow>
   swap i j h ! k = (if k = j then h ! i else if k = i then h ! j else h ! k)"
  by (simp add: swap_def nth_list_update)

lemma half_less: "0 < n \<Longrightarrow> (n - 1) div 2 < (n :: nat)"
  by presburger

lemma sift_up_heap:
  assumes "i < length h" and "heap_but (\<lambda>j. j \<noteq> i) h" and "above i h"
  shows "is_heap (sift_up i h) \<and> mset (sift_up i h) = mset h"
  using assms
proof (induction i h rule: sift_up.induct)
  case (1 i h)
  let ?p = "(i - 1) div 2"
  show ?case
  proof (cases "i = 0 \<or> dist_at h ?p \<ge> dist_at h i")
    case True
    then have "heap_but (\<lambda>_. True) h" using 1(3) by (auto simp: heap_but_def)
    then show ?thesis using True by (subst (1 2) sift_up.simps) (auto simp: is_heap_def Let_def)
  next
    case False
    then have p: "?p < i" "?p < length h" using 1(2) by auto
    let ?s = "swap ?p i h"
    have le: "dist_at h j \<le> dist_at h ((j - 1) div 2)" if "j < length h" "0 < j" "j \<noteq> i" for j
      using 1(3) that by (simp add: heap_but_def)
    have ab: "dist_at h j \<le> dist_at h ?p" if "j < length h" "0 < j" "(j - 1) div 2 = i" for j
      using 1(4) that False by (simp add: above_def)
    have s: "dist_at ?s j = (if j = i then dist_at h ?p else if j = ?p then dist_at h i else dist_at h j)"
      if "j < length h" for j
      using nth_swap [OF p(2) 1(2) that] by simp
    have "dist_at ?s j \<le> dist_at ?s ((j - 1) div 2)" if j: "j < length h" "0 < j" "j \<noteq> ?p" for j
    proof -
      have pj: "(j - 1) div 2 < j" "(j - 1) div 2 < length h" using j by auto
      consider "j = i" | "j \<noteq> i" "(j - 1) div 2 = i" | "j \<noteq> i" "(j - 1) div 2 = ?p" |
        "j \<noteq> i" "(j - 1) div 2 \<noteq> i" "(j - 1) div 2 \<noteq> ?p" by blast
      then show ?thesis
      proof cases
        case 1
        then show ?thesis using False p s [OF j(1)] s [OF p(2)] by simp
      next
        case 2
        then show ?thesis using ab [OF j(1,2)] s [OF j(1)] s [OF pj(2)] j(3) by simp
      next
        case 3
        then have "dist_at h j \<le> dist_at h ?p" using le [OF j(1,2)] by simp
        then show ?thesis using 3 False p s [OF j(1)] s [OF p(2)] j(3) by simp
      next
        case 4
        then show ?thesis using le [OF j(1,2)] s [OF j(1)] s [OF pj(2)] j(3) by simp
      qed
    qed
    then have hb: "heap_but (\<lambda>j. j \<noteq> ?p) ?s" by (simp add: heap_but_def)
    have abv: "above ?p ?s"
      unfolding above_def length_swap
    proof (intro impI allI)
      fix j assume p0: "0 < ?p" and j: "j < length h" and c: "0 < j \<and> (j - 1) div 2 = ?p"
      let ?q = "(?p - 1) div 2"
      have q: "?q < length h" "?q \<noteq> ?p" "?q \<noteq> i" using p half_less [OF p0] by auto
      have "?p \<noteq> i" "j \<noteq> ?p" using p c half_less [OF p0] by auto
      then have "dist_at h ?p \<le> dist_at h ?q" using le [OF p(2) p0] by blast
      moreover have "j \<noteq> i \<Longrightarrow> dist_at h j \<le> dist_at h ?p" using le [OF j] c by auto
      moreover have "dist_at ?s ?q = dist_at h ?q"
        unfolding s [OF q(1)] by (simp only: q(2,3) if_False)
      moreover have "dist_at ?s j = (if j = i then dist_at h ?p else dist_at h j)"
        unfolding s [OF j] by (simp only: \<open>j \<noteq> ?p\<close> if_False)
      ultimately show "dist_at ?s j \<le> dist_at ?s ?q" by (auto intro: order_trans simp del: diff_Suc_1)
    qed
    have ih: "is_heap (sift_up ?p ?s) \<and> mset (sift_up ?p ?s) = mset ?s"
      using 1(1) [OF _ refl] False p hb abv by simp
    have "sift_up i h = sift_up ?p ?s" using False by (subst sift_up.simps) (simp add: Let_def)
    then show ?thesis using ih p 1(2) by simp
  qed
qed

lemma push_heap: "is_heap h \<Longrightarrow> is_heap (push r h) \<and> mset (push r h) = add_mset r (mset h)"
proof -
  assume h: "is_heap h"
  have "heap_but (\<lambda>j. j \<noteq> length h) (h @ [r])"
    unfolding heap_but_def
  proof (intro allI impI)
    fix j assume "j < length (h @ [r])" "0 < j \<and> j \<noteq> length h"
    then have "j < length h" "0 < j" "(j - 1) div 2 < length h" by auto
    then show "dist_at (h @ [r]) j \<le> dist_at (h @ [r]) ((j - 1) div 2)"
      using h by (simp add: is_heap_def heap_but_def nth_append)
  qed
  moreover have "above (length h) (h @ [r])" by (auto simp: above_def)
  ultimately show ?thesis unfolding push_def using sift_up_heap [of "length h" "h @ [r]"] by simp
qed

lemma larger_cases:
  assumes "g < length h"
  shows "larger c g h < length h" and "dist_at h g \<le> dist_at h (larger c g h)"
    and "c < length h \<Longrightarrow> dist_at h c \<le> dist_at h (larger c g h)" and "larger c g h = c \<or> larger c g h = g"
  using assms by (auto simp: larger_def)

lemma sift_down_heap:
  assumes "i < length h" and "heap_but (\<lambda>j. (j - 1) div 2 \<noteq> i) h" and "above i h"
  shows "is_heap (sift_down i h) \<and> mset (sift_down i h) = mset h"
  using assms
proof (induction i h rule: sift_down.induct)
  case (1 i h)
  define g where "g = larger (2 * i + 2) (larger (2 * i + 1) i h) h"
  have g: "g < length h" "dist_at h i \<le> dist_at h g"
    "\<And>j. j < length h \<Longrightarrow> 0 < j \<Longrightarrow> (j - 1) div 2 = i \<Longrightarrow> dist_at h j \<le> dist_at h g"
    "g = i \<or> 0 < g \<and> (g - 1) div 2 = i"
  proof -
    let ?l = "larger (2 * i + 1) i h"
    note l = larger_cases [where c = "2 * i + 1", OF 1(2)]
    note r = larger_cases [where c = "2 * i + 2", OF l(1)]
    show "g < length h" unfolding g_def by (rule r(1))
    show "dist_at h i \<le> dist_at h g" unfolding g_def using l(2) r(2) by (rule order_trans)
    show "g = i \<or> 0 < g \<and> (g - 1) div 2 = i" using l(4) r(4) unfolding g_def by auto
    fix j assume j: "j < length h" "0 < j" "(j - 1) div 2 = i"
    then have "j = 2 * i + 1 \<or> j = 2 * i + 2" by presburger
    then show "dist_at h j \<le> dist_at h g"
      using j(1) l(3) r(2,3) unfolding g_def by (auto intro: order_trans)
  qed
  have le: "dist_at h j \<le> dist_at h ((j - 1) div 2)" if "j < length h" "0 < j" "(j - 1) div 2 \<noteq> i" for j
    using 1(3) that by (simp add: heap_but_def)
  show ?case
  proof (cases "g = i")
    case True
    then have "is_heap h" using le g(3) by (auto simp: is_heap_def heap_but_def)
    then show ?thesis using True unfolding g_def by (subst (1 2) sift_down.simps) simp
  next
    case False
    then have gi: "0 < g" "(g - 1) div 2 = i" using g(4) by auto
    let ?s = "swap i g h"
    have s: "dist_at ?s j = (if j = g then dist_at h i else if j = i then dist_at h g else dist_at h j)"
      if "j < length h" for j
      using nth_swap [OF 1(2) g(1) that] by simp
    have ab: "dist_at h j \<le> dist_at h ((i - 1) div 2)" if "j < length h" "0 < j" "(j - 1) div 2 = i" "0 < i" for j
      using 1(4) that by (simp add: above_def)
    have "dist_at ?s j \<le> dist_at ?s ((j - 1) div 2)" if j: "j < length h" "0 < j" "(j - 1) div 2 \<noteq> g" for j
    proof -
      have pj: "(j - 1) div 2 < j" "(j - 1) div 2 < length h" using j by auto
      consider "(j - 1) div 2 = i" | "j = i" | "(j - 1) div 2 \<noteq> i" "j \<noteq> i" by blast
      then show ?thesis
      proof cases
        case 1
        then have "j \<noteq> i" using pj by auto
        with 1 show ?thesis using g(2,3) j s [OF j(1)] s [OF pj(2)] False by auto
      next
        case 2
        then have "(j - 1) div 2 \<noteq> i" using pj by auto
        then show ?thesis using 2 ab [OF g(1) gi] j s [OF j(1)] s [OF pj(2)] False by auto
      next
        case 3
        then have "j \<noteq> g" using gi by auto
        then show ?thesis using 3 le [OF j(1,2) 3(1)] j s [OF j(1)] s [OF pj(2)] by simp
      qed
    qed
    then have hb: "heap_but (\<lambda>j. (j - 1) div 2 \<noteq> g) ?s" by (simp add: heap_but_def)
    have abv: "above g ?s"
      unfolding above_def length_swap
    proof (intro impI allI)
      fix j assume j: "j < length h" and c: "0 < j \<and> (j - 1) div 2 = g"
      then have "dist_at h j \<le> dist_at h g" using le [of j] False by auto
      moreover have "j \<noteq> g" "j \<noteq> i" using c gi by auto
      ultimately show "dist_at ?s j \<le> dist_at ?s ((g - 1) div 2)"
        using s [OF j] s [OF 1(2)] gi False by simp
    qed
    have ih: "is_heap (sift_down g ?s) \<and> mset (sift_down g ?s) = mset ?s"
      using 1(1) [OF g_def] False g(1) hb abv by simp
    have "sift_down i h = sift_down g ?s" using False unfolding g_def by (subst sift_down.simps) (simp add: Let_def)
    then show ?thesis using ih g(1) 1(2) by simp
  qed
qed

lemma replaceTop_heap:
  assumes "is_heap (w # h)"
  shows "is_heap (replaceTop r (w # h)) \<and> mset (replaceTop r (w # h)) = add_mset r (mset h)"
proof -
  have "dist_at (r # h) j \<le> dist_at (r # h) ((j - 1) div 2)"
    if "j < length (r # h)" "0 < j" "(j - 1) div 2 \<noteq> 0" for j
    using assms that unfolding is_heap_def heap_but_def by (auto simp: nth_Cons')
  then have "heap_but (\<lambda>j. (j - 1) div 2 \<noteq> 0) (r # h)" by (simp add: heap_but_def)
  then show ?thesis unfolding replaceTop_def using sift_down_heap [of 0 "r # h"] by (simp add: above_def)
qed

lemma heap_root:
  assumes "is_heap h" and "j < length h"
  shows "dist_at h j \<le> dist_at h 0"
  using assms(2)
proof (induction j rule: less_induct)
  case (less j)
  show ?case
  proof (cases "j = 0")
    case False
    then have "(j - 1) div 2 < j" by auto
    then have "dist_at h ((j - 1) div 2) \<le> dist_at h 0" using less by simp
    moreover have "dist_at h j \<le> dist_at h ((j - 1) div 2)"
      using assms(1) less.prems False by (simp add: is_heap_def heap_but_def)
    ultimately show ?thesis by simp
  qed simp
qed

lemma is_heap_Nil [simp]: "is_heap []"
  by (simp add: is_heap_def heap_but_def)

section \<open>The best of a multiset\<close>

text \<open>\<open>kept\<close> is a choice of the \<open>k\<close> elements of \<open>all\<close> with the smallest keys (of all, when there are
  fewer). Equal keys leave a choice.\<close>

definition best :: "nat \<Rightarrow> ('r \<Rightarrow> 'k::linorder) \<Rightarrow> 'r multiset \<Rightarrow> 'r multiset \<Rightarrow> bool" where
  "best k key U kept \<longleftrightarrow>
     kept \<subseteq># U \<and> size kept = min k (size U) \<and> (\<forall>x \<in># kept. \<forall>y \<in># U - kept. key x \<le> key y)"

lemma best_more:
  assumes "best k f B r" and "K \<subseteq># B" and le: "\<And>x y. x \<in># K \<Longrightarrow> y \<in># D \<Longrightarrow> f x \<le> f y"
    and "D \<noteq> {#} \<Longrightarrow> k \<le> size K"
  shows "best k f (B + D) r"
proof (cases "D = {#}")
  case False
  note b = assms(1) [unfolded best_def]
  have kK: "k \<le> size K" using assms(4) False .
  have KB: "size K \<le> size B" using assms(2) by (rule size_mset_mono)
  have "f x \<le> f y" if x: "x \<in># r" and y: "y \<in># D" for x y
  proof (rule ccontr)
    assume n: "\<not> f x \<le> f y"
    then have nx: "x \<notin># K" using le y by auto
    have "K \<subseteq># r"
    proof (rule mset_subset_eqI, rule ccontr)
      fix z assume "\<not> count K z \<le> count r z"
      then have c: "count r z < count K z" by simp
      then have "z \<in># K" by (intro count_inI) auto
      moreover have "z \<in># B - r"
        using c mset_subset_eq_count [OF assms(2), of z] by (simp add: in_diff_count)
      ultimately show False using b x le y n by (meson order_trans)
    qed
    then have "add_mset x K \<subseteq># r" using x nx
      by (auto simp: subseteq_mset_def not_in_iff intro: Suc_leI)
    then have "size (add_mset x K) \<le> size r" by (rule size_mset_mono)
    then show False using b kK by simp
  qed
  moreover have "B + D - r = (B - r) + D" using b by (metis subset_mset.add_diff_assoc2)
  moreover have "size r = min k (size (B + D))" using b kK KB by simp
  moreover have "r \<subseteq># B + D" using b by (metis mset_subset_eq_add_left subset_mset.order_trans)
  ultimately show ?thesis using b unfolding best_def by (metis union_iff)
qed (use assms in simp)

lemma best_filter:
  assumes "best (k + t) f U kept" and "size (filter_mset (\<lambda>x. \<not> p x) U) \<le> t"
  shows "filter_mset p (U - kept) \<noteq> {#} \<Longrightarrow> k \<le> size (filter_mset p kept)"
proof -
  assume "filter_mset p (U - kept) \<noteq> {#}"
  then have ne: "U - kept \<noteq> {#}" by (metis filter_empty_mset)
  note b = assms(1) [unfolded best_def]
  have "size kept < size U" using b ne
    by (metis Diff_eq_empty_iff_mset mset_subset_size subset_mset.le_imp_less_or_eq subset_mset.order_refl)
  then have "size kept = k + t" using b by simp
  moreover have "size (filter_mset (\<lambda>x. \<not> p x) kept) \<le> t"
    using assms(2) size_mset_mono [OF multiset_filter_mono [of kept U "\<lambda>x. \<not> p x"]] b by simp
  moreover have "size kept = size (filter_mset p kept) + size (filter_mset (\<lambda>x. \<not> p x) kept)"
    by (metis multiset_partition size_union)
  ultimately show ?thesis by simp
qed

lemma best_sorted_take:
  "best k f (mset xs) (mset (take k (sort_key (\<lambda>x. (f x, g x)) xs)))"
proof -
  let ?s = "sort_key (\<lambda>x. (f x, g x)) xs"
  have m: "mset xs = mset (take k ?s) + mset (drop k ?s)"
    using mset_append [of "take k ?s" "drop k ?s"] by simp
  have "sorted (map (\<lambda>x. (f x, g x)) (take k ?s @ drop k ?s))" by simp
  then have "\<forall>x \<in> set (take k ?s). \<forall>y \<in> set (drop k ?s). f x \<le> f y"
    unfolding map_append sorted_append by (fastforce simp: less_eq_prod_def)
  moreover have "size (mset (take k ?s)) = min k (length xs)" by (simp add: min.commute)
  ultimately show ?thesis unfolding best_def m by simp
qed

section \<open>The interface of the selection loop\<close>

text \<open>What the loop relies on: a queue that can be asked for a worst element and have it replaced.\<close>

locale max_queue =
  fixes inv :: "'q \<Rightarrow> bool" and bag :: "'q \<Rightarrow> 'r multiset" and key :: "'r \<Rightarrow> 'k::linorder"
    and worst :: "'q \<Rightarrow> 'r" and insert :: "'r \<Rightarrow> 'q \<Rightarrow> 'q" and replace :: "'r \<Rightarrow> 'q \<Rightarrow> 'q"
  assumes insert_ok: "inv q \<Longrightarrow> inv (insert r q) \<and> bag (insert r q) = add_mset r (bag q)"
    and worst_ok: "inv q \<Longrightarrow> bag q \<noteq> {#} \<Longrightarrow> worst q \<in># bag q \<and> (\<forall>x \<in># bag q. key x \<le> key (worst q))"
    and replace_ok: "inv q \<Longrightarrow> bag q \<noteq> {#} \<Longrightarrow>
      inv (replace r q) \<and> bag (replace r q) = add_mset r (bag q - {#worst q#})"
begin

definition select :: "nat \<Rightarrow> 'r \<Rightarrow> 'q \<Rightarrow> 'q" where
  "select k r q =
     (if size (bag q) < k then insert r q else if key r < key (worst q) then replace r q else q)"

lemma select_best:
  assumes "inv q" and "best k key U (bag q)" and "0 < k"
  shows "inv (select k r q) \<and> best k key (add_mset r U) (bag (select k r q))"
proof -
  note b = assms(2) [unfolded best_def]
  consider "size (bag q) < k" | "size (bag q) \<ge> k" "key r < key (worst q)" | "size (bag q) \<ge> k" "\<not> key r < key (worst q)"
    by linarith
  then show ?thesis
  proof cases
    case 1
    then have "size U = size (bag q)" using b by simp
    then have "bag q = U" using b
      by (metis mset_subset_size nat_less_le subset_mset.le_imp_less_or_eq)
    then show ?thesis using 1 insert_ok [OF assms(1), of r] by (simp add: select_def best_def)
  next
    case 2
    have ne: "bag q \<noteq> {#}" using 2 assms(3) by auto
    note w = worst_ok [OF assms(1) ne] and p = replace_ok [OF assms(1) ne, of r]
    obtain B where B: "bag q = add_mset (worst q) B" using w by (meson multi_member_split)
    obtain D where D: "U = bag q + D" using b by (metis subset_mset.le_iff_add)
    have s: "bag (select k r q) = add_mset r B" using 2 p B by (simp add: select_def)
    have d: "add_mset r U - add_mset r B = add_mset (worst q) D" unfolding D B by simp
    have "size (add_mset r B) = min k (size (add_mset r U))" using b 2 unfolding B D by auto
    moreover have "\<forall>x \<in># add_mset r B. \<forall>y \<in># add_mset (worst q) D. key x \<le> key y"
      using w b 2(2) unfolding B D by (auto intro: order_trans less_imp_le)
    moreover have "add_mset r B \<subseteq># add_mset r U" unfolding D B by simp
    ultimately show ?thesis unfolding s best_def d using 2 p by (simp add: select_def)
  next
    case 3
    have ne: "bag q \<noteq> {#}" using 3 assms(3) by auto
    note w = worst_ok [OF assms(1) ne]
    have k: "size (bag q) = k" using b 3 by simp
    have "best k key (U + {#r#}) (bag q)"
      by (rule best_more [OF assms(2), where K = "bag q"]) (use b w 3 k in \<open>auto intro: order_trans\<close>)
    then show ?thesis using 3 assms(1) by (simp add: select_def)
  qed
qed

lemma select_all:
  assumes "0 < k" and "inv q" and "best k key U (bag q)"
  shows "inv (fold (select k) rs q) \<and> best k key (U + mset rs) (bag (fold (select k) rs q))"
  using assms(2,3)
proof (induction rs arbitrary: q U)
  case (Cons r rs)
  have "inv (select k r q)" "best k key (add_mset r U) (bag (select k r q))"
    using select_best [OF Cons.prems assms(1)] by auto
  from Cons.IH [OF this] show ?case by simp
qed simp

end

lemma is_heap_hd: "is_heap h \<Longrightarrow> h \<noteq> [] \<Longrightarrow> x \<in> set h \<Longrightarrow> rs_Dist x \<le> rs_Dist (hd h)"
  using heap_root [of h] by (auto simp: in_set_conv_nth hd_conv_nth)

interpretation hq: max_queue is_heap mset rs_Dist hd push replaceTop
proof unfold_locales
  show "is_heap (push r q) \<and> mset (push r q) = add_mset r (mset q)" if "is_heap q" for r and q :: "'a heap"
    by (rule push_heap [OF that])
  show "hd q \<in># mset q \<and> (\<forall>x \<in># mset q. rs_Dist x \<le> rs_Dist (hd q))" if "is_heap q" "mset q \<noteq> {#}" for q :: "'a heap"
    using that is_heap_hd [of q] by auto
  show "is_heap (replaceTop r q) \<and> mset (replaceTop r q) = add_mset r (mset q - {#hd q#})"
    if "is_heap q" "mset q \<noteq> {#}" for r and q :: "'a heap"
    using that replaceTop_heap [of "hd q" "tl q" r] by (cases q) simp_all
qed

lemma offers_select:
  assumes "0 < topK" and "is_heap h" and "best (nat topK) rs_Dist U (mset h)"
  shows "offers topK rs h = Some (fold (hq.select (nat topK)) rs h)"
  using assms(2,3)
proof (induction rs arbitrary: h U)
  case (Cons r rs)
  have s: "offer topK r h = Some (hq.select (nat topK) r h)"
    using assms(1) by (cases h) (auto simp: offer_def hq.select_def)
  have "is_heap (hq.select (nat topK) r h)" "best (nat topK) rs_Dist (add_mset r U) (mset (hq.select (nat topK) r h))"
    using hq.select_best [OF Cons.prems, of r] assms(1) by auto
  from Cons.IH [OF this] show ?case using s by simp
qed simp

lemma offers_best:
  assumes "0 < topK"
  shows "\<exists>h. offers topK rs [] = Some h \<and> best (nat topK) rs_Dist (mset rs) (mset h)"
proof -
  have e: "best (nat topK) rs_Dist {#} (mset ([] :: 'a heap))" by (simp add: best_def)
  show ?thesis
    using offers_select [OF assms is_heap_Nil e, of rs] hq.select_all [OF _ is_heap_Nil e, of rs] assms
    by simp
qed

lemma offers_no_room: "topK \<le> 0 \<Longrightarrow> offers topK rs [] = (if rs = [] then Some [] else None)"
  by (cases rs) (auto simp: offer_def)

lemma drain_props [simp]:
  "mset (drainAscending h) = mset h" "sorted (map (\<lambda>r. (rs_Dist r, rs_ID r)) (drainAscending h))"
  "set (drainAscending h) = set h" "length (drainAscending h) = length h"
  by (simp_all add: drainAscending_def)

end
