(* ===== verification/IvfIndex.thy ===== *)
theory IvfIndex
  imports Quantizer TopK Frame
begin

text \<open>
  The content-addressed inverted-file index of \<^verbatim>\<open>ivf/index.go\<close>, \<^verbatim>\<open>identity.go\<close>, \<^verbatim>\<open>persist.go\<close> and
  \<^verbatim>\<open>recommended.go\<close>, and the prototype of \<^verbatim>\<open>ivf/ivf.go\<close>. \<open>None\<close> is a panic. Positions (int32) are
  naturals, cells are \<^verbatim>\<open>uint32\<close> words. \<open>sort.Slice\<close> with a total order is \<^const>\<open>sort_key\<close>; the map
  iteration of the tier is an argument. Here: the operations, the invariant of reachable indexes and
  what one search visits; \<open>IvfProps\<close> holds the properties.
\<close>

section \<open>Identity\<close>

definition fnv_offset :: u64 where
  "fnv_offset = 14695981039346656037"

definition fnv_prime :: u64 where
  "fnv_prime = 1099511628211"

definition fnv_byte :: "byte \<Rightarrow> u64 \<Rightarrow> u64" where
  "fnv_byte b h = (h XOR ucast b) * fnv_prime"

definition hashVec :: "('f, 'g) floats \<Rightarrow> 'f vec \<Rightarrow> u64" where
  "hashVec fl v = fold (\<lambda>x h. fold fnv_byte (put_le 4 (float32bits fl x)) h) v fnv_offset"

fun hammingBytes :: "code \<Rightarrow> code \<Rightarrow> nat option" where
  "hammingBytes [] b = Some 0"
| "hammingBytes (x # a) [] = None"
| "hammingBytes (x # a) (y # b) = map_option (\<lambda>n. if x \<noteq> y then Suc n else n) (hammingBytes a b)"

definition codeKey :: "u32 \<Rightarrow> code \<Rightarrow> byte list" where
  "codeKey cell code = put_le 4 cell @ code"

section \<open>The index\<close>

record config =
  cf_Dim :: int
  cf_Nlist :: int
  cf_M :: int
  cf_K :: int
  cf_Iter :: int
  cf_Seed :: int
  cf_Train :: train_opts

record handle =
  hd_Hash :: u64
  hd_Cell :: u32
  hd_Code :: code

record 'f index =
  ix_cfg :: config
  ix_coarse :: "'f vec list"
  ix_pq :: "'f pq option"
  ix_entries :: "handle list"
  ix_lists :: "nat list list"
  ix_byHash :: "u64 \<rightharpoonup> nat"
  ix_byCode :: "byte list \<rightharpoonup> nat"

datatype ivf_error = BadConfig | EmptyLearn | PQError pq_error | NotGob | BadDim

definition New_index :: "config \<Rightarrow> ivf_error + 'f index" where
  "New_index c =
     (if cf_Dim c \<le> 0 then Inl BadConfig
      else if cf_M c \<le> 0 then Inl BadConfig
      else if cf_Dim c mod cf_M c \<noteq> 0 then Inl BadConfig
      else if cf_K c \<le> 0 \<or> cf_K c > 256 then Inl BadConfig
      else if cf_Nlist c \<le> 0 then Inl BadConfig
      else if cf_Iter c \<le> 0 then Inl BadConfig
      else Inr \<lparr>ix_cfg = c, ix_coarse = [], ix_pq = None, ix_entries = [], ix_lists = [],
                ix_byHash = Map.empty, ix_byCode = Map.empty\<rparr>)"

definition Recommended :: "int \<Rightarrow> ivf_error + config \<times> nat \<times> int" where
  "Recommended dim =
     (if dim \<le> 0 \<or> dim mod 96 \<noteq> 0 then Inl BadDim
      else Inr (\<lparr>cf_Dim = dim, cf_Nlist = 64, cf_M = 96, cf_K = 64, cf_Iter = 25, cf_Seed = 1,
                 cf_Train = \<lparr>to_CoarseIter = 10, to_CoarseSample = 0, to_PQSample = 65536\<rparr>\<rparr>, 32, 200))"

definition Train_index :: "('f::minus, 'g::{linorder,zero,plus,minus,times}) floats \<Rightarrow> ('g, 'r) random \<Rightarrow> 'f vec list \<Rightarrow>
    'f index \<Rightarrow> (ivf_error + 'f index) option" where
  "Train_index fl ra learn ix =
     (if learn = [] then Some (Inl EmptyLearn)
      else let c = ix_cfg ix
        in map_option (\<lambda>t. case t of
             Inl e \<Rightarrow> Inl (PQError e)
           | Inr (coarse, q) \<Rightarrow> Inr (ix\<lparr>ix_coarse := coarse, ix_pq := Some q, ix_lists := replicate (length coarse) []\<rparr>))
           (trainResidual fl ra learn (nat (cf_Nlist c)) (cf_M c) (cf_K c) (nat (cf_Iter c)) (cf_Seed c) (cf_Train c)))"

section \<open>Adding\<close>

datatype status = Inserted | ExactDuplicate

record add_result =
  ar_Handle :: handle
  ar_Status :: status
  ar_Prior :: u64

definition encode_handle :: "('f::minus, 'g::{linorder,zero,plus,minus,times}) floats \<Rightarrow> 'f index \<Rightarrow> 'f vec \<Rightarrow> handle option" where
  "encode_handle fl ix v =
     do { c \<leftarrow> nearest fl (ix_coarse ix) v;
          cen \<leftarrow> nth_opt (ix_coarse ix) c;
          r \<leftarrow> sub v cen;
          q \<leftarrow> ix_pq ix;
          code \<leftarrow> pq_Encode fl q r;
          Some \<lparr>hd_Hash = hashVec fl v, hd_Cell = word_of_nat c, hd_Code = code\<rparr> }"

definition add_handle :: "handle \<Rightarrow> 'f index \<Rightarrow> ('f index \<times> add_result) option" where
  "add_handle h ix =
     (case ix_byHash ix (hd_Hash h) of
        Some pos \<Rightarrow>
          do { e \<leftarrow> nth_opt (ix_entries ix) pos;
               Some (ix, \<lparr>ar_Handle = e, ar_Status = ExactDuplicate, ar_Prior = hd_Hash h\<rparr>) }
      | None \<Rightarrow>
          let pos = length (ix_entries ix); c = unat (hd_Cell h)
          in do { ps \<leftarrow> nth_opt (ix_lists ix) c;
                  Some (ix\<lparr>ix_entries := ix_entries ix @ [h], ix_lists := (ix_lists ix)[c := ps @ [pos]],
                           ix_byHash := (ix_byHash ix)(hd_Hash h \<mapsto> pos),
                           ix_byCode := (ix_byCode ix)(codeKey (hd_Cell h) (hd_Code h) \<mapsto> pos)\<rparr>,
                        \<lparr>ar_Handle = h, ar_Status = Inserted, ar_Prior = 0\<rparr>) })"

fun add_handles :: "handle list \<Rightarrow> 'f index \<Rightarrow> ('f index \<times> add_result list) option" where
  "add_handles [] ix = Some (ix, [])"
| "add_handles (h # hs) ix =
     do { (ix1, r) \<leftarrow> add_handle h ix; (ix2, rs) \<leftarrow> add_handles hs ix1; Some (ix2, r # rs) }"

definition Add :: "('f::minus, 'g::{linorder,zero,plus,minus,times}) floats \<Rightarrow> 'f vec list \<Rightarrow> 'f index \<Rightarrow>
    ('f index \<times> add_result list) option" where
  "Add fl vecs ix = do { hs \<leftarrow> those (map (encode_handle fl ix) vecs); add_handles hs ix }"

text \<open>The encoding fans out: worker \<open>w\<close> fills the slots of its chunk. A schedule is an order in which the
  slots are filled.\<close>

definition chunks :: "nat \<Rightarrow> nat \<Rightarrow> nat list list" where
  "chunks workers n =
     (let chunk = (n + workers - 1) div workers
      in map (\<lambda>w. [w * chunk ..< min (w * chunk + chunk) n]) (takeWhile (\<lambda>w. w * chunk < n) [0..<workers]))"

definition fill :: "(nat \<Rightarrow> 'b) \<Rightarrow> nat list \<Rightarrow> 'b list \<Rightarrow> 'b list" where
  "fill f order out = fold (\<lambda>i out. out[i := f i]) order out"

section \<open>Searching\<close>

record 'f hit =
  ht_Handle :: handle
  ht_Dist :: 'f

definition probeCells :: "('f, 'g::{linorder,zero,plus,minus,times}) floats \<Rightarrow> 'f vec list \<Rightarrow> 'f vec \<Rightarrow> int \<Rightarrow> nat list option" where
  "probeCells fl coarse query nprobe =
     do { ds \<leftarrow> those (map (\<lambda>cen. sqL2 fl cen query) coarse);
          if nprobe < 0 then None
          else Some (map snd (take (nat nprobe) (sort_key (\<lambda>x. x) (zip ds [0..<length coarse])))) }"

fun scan_list :: "'f::{linorder,plus,zero} pq \<Rightarrow> handle list \<Rightarrow> 'f list \<Rightarrow> int \<Rightarrow> nat list \<Rightarrow> 'f heap \<Rightarrow> 'f heap option" where
  "scan_list q entries table topK [] h = Some h"
| "scan_list q entries table topK (pos # ps) h =
     do { e \<leftarrow> nth_opt entries pos;
          d \<leftarrow> adc_sum (pq_K q) table (hd_Code e) [0..<pq_M q] 0;
          h' \<leftarrow> offer topK \<lparr>rs_ID = pos, rs_Dist = d\<rparr> h;
          scan_list q entries table topK ps h' }"

fun scan_cells :: "('f::{linorder,plus,minus,zero}, 'g::{linorder,zero,plus,minus,times}) floats \<Rightarrow> 'f index \<Rightarrow> 'f vec \<Rightarrow> int \<Rightarrow>
    nat list \<Rightarrow> 'f heap \<Rightarrow> 'f heap option" where
  "scan_cells fl ix query topK [] h = Some h"
| "scan_cells fl ix query topK (c # cs) h =
     do { cen \<leftarrow> nth_opt (ix_coarse ix) c;
          r \<leftarrow> sub query cen;
          q \<leftarrow> ix_pq ix;
          table \<leftarrow> buildADCTable fl q r;
          ps \<leftarrow> nth_opt (ix_lists ix) c;
          h' \<leftarrow> scan_list q (ix_entries ix) table topK ps h;
          scan_cells fl ix query topK cs h' }"

definition to_hit :: "'f index \<Rightarrow> 'f hresult \<Rightarrow> 'f hit option" where
  "to_hit ix r = do { e \<leftarrow> nth_opt (ix_entries ix) (rs_ID r); Some \<lparr>ht_Handle = e, ht_Dist = rs_Dist r\<rparr> }"

definition Search :: "('f::{linorder,plus,minus,zero}, 'g::{linorder,zero,plus,minus,times}) floats \<Rightarrow> 'f index \<Rightarrow> 'f vec \<Rightarrow>
    int \<Rightarrow> int \<Rightarrow> 'f hit list option" where
  "Search fl ix query nprobe topK =
     do { cells \<leftarrow> probeCells fl (ix_coarse ix) query nprobe;
          h \<leftarrow> scan_cells fl ix query topK cells [];
          those (map (to_hit ix) (drainAscending h)) }"

definition hit_order :: "'f hit \<Rightarrow> 'f \<times> u64" where
  "hit_order h = (ht_Dist h, hd_Hash (ht_Handle h))"

text \<open>\<^verbatim>\<open>SearchTiered\<close>: \<open>tier\<close> lists the resident hashes with their vectors in the order of the map
  iteration. A negative \<open>topK\<close> panics at the final slice expression, if not before.\<close>

definition tier_hits :: "('f, 'g::{zero,plus,minus,times}) floats \<Rightarrow> 'f index \<Rightarrow> 'f vec \<Rightarrow> (u64 \<times> 'f vec) list \<Rightarrow>
    'f hit list option" where
  "tier_hits fl ix query tier =
     map_option concat (those (map (\<lambda>(hash, vec). case ix_byHash ix hash of None \<Rightarrow> Some []
        | Some pos \<Rightarrow> do { e \<leftarrow> nth_opt (ix_entries ix) pos; d \<leftarrow> sqL2 fl query vec;
                           Some [\<lparr>ht_Handle = e, ht_Dist = f32 fl d\<rparr>] }) tier))"

definition cut_hits :: "int \<Rightarrow> 'a list \<Rightarrow> 'a list option" where
  "cut_hits topK hits =
     (if int (length hits) > topK then if topK < 0 then None else Some (take (nat topK) hits) else Some hits)"

definition SearchTiered :: "('f::{linorder,plus,minus,zero}, 'g::{linorder,zero,plus,minus,times}) floats \<Rightarrow> 'f index \<Rightarrow>
    'f vec \<Rightarrow> int \<Rightarrow> int \<Rightarrow> (u64 \<times> 'f vec) list \<Rightarrow> 'f hit list option" where
  "SearchTiered fl ix query nprobe topK tier =
     (if tier = [] then Search fl ix query nprobe topK
      else do { adc \<leftarrow> Search fl ix query nprobe (topK + int (length tier));
                res \<leftarrow> tier_hits fl ix query tier;
                cut_hits topK (sort_key hit_order
                  (filter (\<lambda>h. hd_Hash (ht_Handle h) \<notin> fst ` set tier) adc @ res)) })"

text \<open>\<^verbatim>\<open>SearchRerank\<close>: \<open>fetch\<close> answers the original vector, \<open>None\<close> for nil.\<close>

definition rescore :: "('f, 'g::{zero,plus,minus,times}) floats \<Rightarrow> 'f vec \<Rightarrow> (u64 \<Rightarrow> 'f vec option) \<Rightarrow> 'f hit \<Rightarrow> 'f hit option" where
  "rescore fl query fetch h =
     (case fetch (hd_Hash (ht_Handle h)) of None \<Rightarrow> Some h
      | Some v \<Rightarrow> do { d \<leftarrow> sqL2 fl query v; Some (h\<lparr>ht_Dist := f32 fl d\<rparr>) })"

definition SearchRerank :: "('f::{linorder,plus,minus,zero}, 'g::{linorder,zero,plus,minus,times}) floats \<Rightarrow> 'f index \<Rightarrow>
    'f vec \<Rightarrow> int \<Rightarrow> int \<Rightarrow> int \<Rightarrow> (u64 \<Rightarrow> 'f vec option) \<Rightarrow> 'f hit list option" where
  "SearchRerank fl ix query nprobe topK rerankK fetch =
     (if rerankK \<le> 0 then Search fl ix query nprobe topK
      else do { adc \<leftarrow> Search fl ix query nprobe (if rerankK < topK then topK else rerankK);
                head \<leftarrow> those (map (rescore fl query fetch) (take (nat rerankK) adc));
                cut_hits topK (sort_key hit_order head @ drop (nat rerankK) adc) })"

text \<open>\<^verbatim>\<open>Recall\<close>: the loop carries the best position so far.\<close>

fun recall_loop :: "'f::{linorder,plus,zero} pq \<Rightarrow> handle list \<Rightarrow> 'f list \<Rightarrow> code \<Rightarrow> int \<Rightarrow> nat list \<Rightarrow>
    (nat \<times> 'f) option \<Rightarrow> (nat \<times> 'f) option option" where
  "recall_loop q entries table code tol [] b = Some b"
| "recall_loop q entries table code tol (pos # ps) b =
     do { e \<leftarrow> nth_opt entries pos;
          n \<leftarrow> hammingBytes code (hd_Code e);
          if int n > tol then recall_loop q entries table code tol ps b
          else do { d \<leftarrow> adc_sum (pq_K q) table (hd_Code e) [0..<pq_M q] 0;
                    recall_loop q entries table code tol ps
                      (case b of None \<Rightarrow> Some (pos, d) | Some (p, bd) \<Rightarrow> if d < bd then Some (pos, d) else b) } }"

definition Recall :: "('f::{linorder,plus,minus,zero}, 'g::{linorder,zero,plus,minus,times}) floats \<Rightarrow> 'f index \<Rightarrow> 'f vec \<Rightarrow>
    int \<Rightarrow> handle option option" where
  "Recall fl ix v tol =
     do { c \<leftarrow> nearest fl (ix_coarse ix) v;
          cen \<leftarrow> nth_opt (ix_coarse ix) c;
          r \<leftarrow> sub v cen;
          q \<leftarrow> ix_pq ix;
          code \<leftarrow> pq_Encode fl q r;
          table \<leftarrow> buildADCTable fl q r;
          ps \<leftarrow> nth_opt (ix_lists ix) c;
          b \<leftarrow> recall_loop q (ix_entries ix) table code tol ps None;
          (case b of None \<Rightarrow> Some None | Some (pos, _) \<Rightarrow> map_option Some (nth_opt (ix_entries ix) pos)) }"

section \<open>Persistence\<close>

record 'f snapshot =
  sn_Cfg :: config
  sn_Coarse :: "'f vec list"
  sn_PQ :: "'f pq option"
  sn_Entries :: "handle list"
  sn_Lists :: "nat list list"

definition Save_index :: "'f index \<Rightarrow> 'f snapshot" where
  "Save_index ix = \<lparr>sn_Cfg = ix_cfg ix, sn_Coarse = ix_coarse ix, sn_PQ = ix_pq ix, sn_Entries = ix_entries ix,
     sn_Lists = ix_lists ix\<rparr>"

fun rebuild :: "nat \<Rightarrow> handle list \<Rightarrow> (u64 \<rightharpoonup> nat) \<times> (byte list \<rightharpoonup> nat) \<Rightarrow> (u64 \<rightharpoonup> nat) \<times> (byte list \<rightharpoonup> nat)" where
  "rebuild pos [] m = m"
| "rebuild pos (e # es) (bh, bc) =
     rebuild (pos + 1) es (bh(hd_Hash e \<mapsto> pos), bc(codeKey (hd_Cell e) (hd_Code e) \<mapsto> pos))"

definition Load_index :: "'f snapshot option \<Rightarrow> ivf_error + 'f index" where
  "Load_index decoded =
     (case decoded of None \<Rightarrow> Inl NotGob
      | Some s \<Rightarrow>
          let m = rebuild 0 (sn_Entries s) (Map.empty, Map.empty)
          in Inr \<lparr>ix_cfg = sn_Cfg s, ix_coarse = sn_Coarse s, ix_pq = sn_PQ s, ix_entries = sn_Entries s,
                  ix_lists = sn_Lists s, ix_byHash = fst m, ix_byCode = snd m\<rparr>)"

section \<open>The invariant of an index\<close>

text \<open>
  Every list holds exactly the positions whose handle names its cell, in order; the hashes are
  distinct and the two maps are what \<^verbatim>\<open>Load\<close> would rebuild; the quantizer is trained.
\<close>

definition index_inv :: "'f pq \<Rightarrow> 'f index \<Rightarrow> bool" where
  "index_inv q ix \<longleftrightarrow>
     ix_pq ix = Some q \<and> (\<exists>n \<ge> pq_K q. has_books n q) \<and>
     dims (pq_D q) (ix_coarse ix) \<and> ix_coarse ix \<noteq> [] \<and> length (ix_coarse ix) < 2 ^ 32 \<and>
     length (ix_lists ix) = length (ix_coarse ix) \<and>
     (\<forall>c < length (ix_coarse ix). ix_lists ix ! c =
        filter (\<lambda>pos. unat (hd_Cell (ix_entries ix ! pos)) = c) [0..<length (ix_entries ix)]) \<and>
     (\<forall>h \<in> set (ix_entries ix). code_ok q (hd_Code h) \<and> unat (hd_Cell h) < length (ix_coarse ix)) \<and>
     distinct (map hd_Hash (ix_entries ix)) \<and>
     (ix_byHash ix, ix_byCode ix) = rebuild 0 (ix_entries ix) (Map.empty, Map.empty)"

lemma rebuild_append:
  "rebuild p (es @ [e]) (bh, bc) =
     (case rebuild p es (bh, bc) of (bh', bc') \<Rightarrow>
        (bh'(hd_Hash e \<mapsto> p + length es), bc'(codeKey (hd_Cell e) (hd_Code e) \<mapsto> p + length es)))"
  by (induction es arbitrary: p bh bc) simp_all

lemma rebuild_hash:
  assumes "distinct (map hd_Hash es)"
  shows "fst (rebuild 0 es (Map.empty, Map.empty)) h = Some pos \<longleftrightarrow> pos < length es \<and> hd_Hash (es ! pos) = h"
  using assms
proof (induction es arbitrary: pos rule: rev_induct)
  case (snoc e es)
  obtain bh bc where r: "rebuild 0 es (Map.empty, Map.empty) = (bh, bc)" by fastforce
  have ih: "bh h = Some pos \<longleftrightarrow> pos < length es \<and> hd_Hash (es ! pos) = h" for pos
    using snoc.IH snoc.prems r by simp
  have "hd_Hash (es ! pos) \<noteq> hd_Hash e" if "pos < length es" for pos
    using snoc.prems that by (metis distinct_append distinct.simps(2) in_set_conv_nth length_map list.simps(9) map_append nth_map
      Int_iff empty_iff list.set_intros(1))
  then show ?case using ih r
    by (auto simp: rebuild_append nth_append less_Suc_eq)
qed simp

lemma inv_byHash:
  assumes "index_inv q ix"
  shows "ix_byHash ix h = Some pos \<longleftrightarrow> pos < length (ix_entries ix) \<and> hd_Hash (ix_entries ix ! pos) = h"
proof -
  have "ix_byHash ix = fst (rebuild 0 (ix_entries ix) (Map.empty, Map.empty))" "distinct (map hd_Hash (ix_entries ix))"
    using assms unfolding index_inv_def by (metis fst_conv, blast)
  then show ?thesis using rebuild_hash [of "ix_entries ix" h pos] by simp
qed

lemma inv_byHash_None:
  assumes "index_inv q ix"
  shows "ix_byHash ix h = None \<longleftrightarrow> h \<notin> hd_Hash ` set (ix_entries ix)"
proof -
  have "(\<exists>pos. ix_byHash ix h = Some pos) \<longleftrightarrow> h \<in> hd_Hash ` set (ix_entries ix)"
    unfolding inv_byHash [OF assms] by (auto simp: in_set_conv_nth image_iff) (metis in_set_conv_nth)
  then show ?thesis by auto
qed

text \<open>What one step of adding does.\<close>

definition same_quantizer :: "'f index \<Rightarrow> 'f index \<Rightarrow> bool" where
  "same_quantizer ix ix' \<longleftrightarrow> ix_cfg ix' = ix_cfg ix \<and> ix_coarse ix' = ix_coarse ix \<and> ix_pq ix' = ix_pq ix"

lemma add_handle_inv:
  assumes inv: "index_inv q ix" and h: "code_ok q (hd_Code h)" "unat (hd_Cell h) < length (ix_coarse ix)"
  shows "\<exists>ix' r. add_handle h ix = Some (ix', r) \<and> index_inv q ix' \<and> same_quantizer ix ix' \<and>
    hd_Hash (ar_Handle r) = hd_Hash h \<and> ar_Handle r \<in> set (ix_entries ix') \<and>
    (if hd_Hash h \<in> hd_Hash ` set (ix_entries ix)
     then ar_Status r = ExactDuplicate \<and> ar_Prior r = hd_Hash h \<and> ix' = ix
     else ar_Status r = Inserted \<and> ar_Handle r = h \<and> ix_entries ix' = ix_entries ix @ [h])"
proof (cases "ix_byHash ix (hd_Hash h)")
  case (Some pos)
  then have p: "pos < length (ix_entries ix)" "hd_Hash (ix_entries ix ! pos) = hd_Hash h"
    using inv_byHash [OF inv] by auto
  then have "hd_Hash h \<in> hd_Hash ` set (ix_entries ix)" by (metis image_eqI nth_mem)
  then show ?thesis using inv Some p by (simp add: add_handle_def nth_opt_in same_quantizer_def)
next
  case None
  then have new: "hd_Hash h \<notin> hd_Hash ` set (ix_entries ix)" using inv_byHash_None [OF inv] by simp
  note i = inv [unfolded index_inv_def]
  let ?n = "length (ix_entries ix)" and ?c = "unat (hd_Cell h)"
  obtain bh bc where b: "rebuild 0 (ix_entries ix) (Map.empty, Map.empty) = (bh, bc)" by fastforce
  have lc: "?c < length (ix_lists ix)" using h(2) i by simp
  define ix' where "ix' = ix\<lparr>ix_entries := ix_entries ix @ [h], ix_lists := (ix_lists ix)[?c := ix_lists ix ! ?c @ [?n]],
     ix_byHash := (ix_byHash ix)(hd_Hash h \<mapsto> ?n), ix_byCode := (ix_byCode ix)(codeKey (hd_Cell h) (hd_Code h) \<mapsto> ?n)\<rparr>"
  have a: "add_handle h ix = Some (ix', \<lparr>ar_Handle = h, ar_Status = Inserted, ar_Prior = 0\<rparr>)"
    using None lc by (simp add: add_handle_def nth_opt_in Let_def ix'_def)
  have "ix_lists ix' ! c = filter (\<lambda>pos. unat (hd_Cell (ix_entries ix' ! pos)) = c) [0..<length (ix_entries ix')]"
    if "c < length (ix_coarse ix)" for c
  proof -
    have f: "filter (\<lambda>pos. unat (hd_Cell ((ix_entries ix @ [h]) ! pos)) = c) [0..<?n] = ix_lists ix ! c"
      using i that by (auto simp: nth_append intro!: filter_cong)
    show ?thesis using f lc that i by (cases "c = ?c") (simp_all add: ix'_def nth_list_update)
  qed
  then have "index_inv q ix'"
    using i h b new unfolding index_inv_def by (auto simp: ix'_def rebuild_append)
  then show ?thesis using a new by (auto simp: same_quantizer_def ix'_def)
qed

text \<open>A batch: which vectors are new, and what is stored. \<open>fresh seen hs\<close> are the handles whose hash is
  met for the first time.\<close>

fun fresh :: "u64 set \<Rightarrow> handle list \<Rightarrow> handle list" where
  "fresh seen [] = []"
| "fresh seen (h # hs) =
     (if hd_Hash h \<in> seen then fresh seen hs else h # fresh (insert (hd_Hash h) seen) hs)"

definition result_ok :: "u64 set \<Rightarrow> handle list \<Rightarrow> handle \<Rightarrow> add_result \<Rightarrow> bool" where
  "result_ok seen stored h r \<longleftrightarrow>
     hd_Hash (ar_Handle r) = hd_Hash h \<and> ar_Handle r \<in> set stored \<and>
     (if hd_Hash h \<in> seen then ar_Status r = ExactDuplicate \<and> ar_Prior r = hd_Hash h
      else ar_Status r = Inserted \<and> ar_Handle r = h)"

lemma same_quantizer_trans: "same_quantizer a b \<Longrightarrow> same_quantizer b c \<Longrightarrow> same_quantizer a c"
  by (simp add: same_quantizer_def)

lemma add_handles_inv:
  assumes "index_inv q ix" and "\<forall>h \<in> set hs. code_ok q (hd_Code h) \<and> unat (hd_Cell h) < length (ix_coarse ix)"
  shows "\<exists>ix' rs. add_handles hs ix = Some (ix', rs) \<and> index_inv q ix' \<and> same_quantizer ix ix' \<and>
    ix_entries ix' = ix_entries ix @ fresh (hd_Hash ` set (ix_entries ix)) hs \<and> length rs = length hs \<and>
    (\<forall>i < length hs. result_ok (hd_Hash ` (set (ix_entries ix) \<union> set (take i hs))) (ix_entries ix') (hs ! i) (rs ! i))"
  using assms
proof (induction hs arbitrary: ix)
  case (Cons h hs)
  let ?S = "hd_Hash ` set (ix_entries ix)"
  obtain ix1 r where 1: "add_handle h ix = Some (ix1, r)" "index_inv q ix1" "same_quantizer ix ix1"
    "hd_Hash (ar_Handle r) = hd_Hash h" "ar_Handle r \<in> set (ix_entries ix1)"
    "if hd_Hash h \<in> ?S then ar_Status r = ExactDuplicate \<and> ar_Prior r = hd_Hash h \<and> ix1 = ix
     else ar_Status r = Inserted \<and> ar_Handle r = h \<and> ix_entries ix1 = ix_entries ix @ [h]"
    using add_handle_inv [of q ix h] Cons.prems by auto
  have "\<forall>h \<in> set hs. code_ok q (hd_Code h) \<and> unat (hd_Cell h) < length (ix_coarse ix1)"
    using Cons.prems(2) 1(3) by (simp add: same_quantizer_def)
  from Cons.IH [OF 1(2) this] obtain ix2 rs where 2: "add_handles hs ix1 = Some (ix2, rs)" "index_inv q ix2"
    "same_quantizer ix1 ix2" "ix_entries ix2 = ix_entries ix1 @ fresh (hd_Hash ` set (ix_entries ix1)) hs"
    "length rs = length hs"
    "\<forall>i < length hs. result_ok (hd_Hash ` (set (ix_entries ix1) \<union> set (take i hs))) (ix_entries ix2) (hs ! i) (rs ! i)"
    by blast
  have S1: "hd_Hash ` set (ix_entries ix1) = insert (hd_Hash h) ?S" using 1(6) by (auto split: if_splits)
  have e: "ix_entries ix2 = ix_entries ix @ fresh ?S (h # hs)"
    using 1(6) 2(4) S1 by (auto simp: insert_absorb split: if_splits)
  have "result_ok (hd_Hash ` (set (ix_entries ix) \<union> set (take i (h # hs)))) (ix_entries ix2) ((h # hs) ! i) ((r # rs) ! i)"
    if i: "i < length (h # hs)" for i
  proof (cases i)
    case 0
    then show ?thesis using 1(4-6) 2(4) by (auto simp: result_ok_def split: if_splits)
  next
    case (Suc j)
    have "hd_Hash ` (set (ix_entries ix) \<union> set (take i (h # hs))) = hd_Hash ` (set (ix_entries ix1) \<union> set (take j hs))"
      using S1 Suc by (simp add: image_Un)
    then show ?thesis using 2(6) i Suc by simp
  qed
  then show ?case using 1(1) 2 e same_quantizer_trans [OF 1(3) 2(3)] by auto
qed (simp add: same_quantizer_def)

lemma encode_handle_total:
  assumes "index_inv q ix" and "length v = pq_D q"
  shows "\<exists>h. encode_handle fl ix v = Some h \<and> hd_Hash h = hashVec fl v \<and> code_ok q (hd_Code h) \<and>
    unat (hd_Cell h) < length (ix_coarse ix) \<and> nearest fl (ix_coarse ix) v = Some (unat (hd_Cell h))"
proof -
  note i = assms(1) [unfolded index_inv_def]
  obtain c where c: "nearest fl (ix_coarse ix) v = Some c" "c < length (ix_coarse ix)"
    using nearest_total [of "pq_D q" "ix_coarse ix" v fl] i assms(2) by auto
  obtain r where r: "sub v (ix_coarse ix ! c) = Some r" "length r = pq_D q"
    using sub_total [of v "ix_coarse ix ! c"] dims_nth [of "pq_D q" "ix_coarse ix", OF _ c(2)] i assms(2) by auto
  obtain code where code: "pq_Encode fl q r = Some code" "code_ok q code"
    using i Encode_total [of _ q r fl] r(2) by blast
  have "unat (word_of_nat c :: u32) = c" using c(2) i by (simp add: unat_of_nat)
  then show ?thesis using c r code i by (auto simp: encode_handle_def nth_opt_in)
qed

lemma Add_facts:
  assumes inv: "index_inv q ix" and "dims (pq_D q) vecs"
  shows "\<exists>hs ix' rs. those (map (encode_handle fl ix) vecs) = Some hs \<and> map hd_Hash hs = map (hashVec fl) vecs \<and>
    Add fl vecs ix = Some (ix', rs) \<and> index_inv q ix' \<and> same_quantizer ix ix' \<and>
    ix_entries ix' = ix_entries ix @ fresh (hd_Hash ` set (ix_entries ix)) hs \<and> length rs = length vecs \<and>
    (\<forall>i < length vecs. result_ok (hd_Hash ` set (ix_entries ix) \<union> set (take i (map (hashVec fl) vecs)))
       (ix_entries ix') (hs ! i) (rs ! i))"
proof -
  have t: "\<exists>h. encode_handle fl ix v = Some h \<and> hd_Hash h = hashVec fl v \<and> code_ok q (hd_Code h) \<and>
    unat (hd_Cell h) < length (ix_coarse ix)" if "v \<in> set vecs" for v
    using encode_handle_total [OF inv, of v fl] that assms(2) by (auto simp: dims_def)
  then obtain hs where hs: "those (map (encode_handle fl ix) vecs) = Some hs" "length hs = length vecs"
    using those_total [where f = "encode_handle fl ix" and xs = vecs] by blast
  have "map hd_Hash hs = map (hashVec fl) vecs"
    by (rule those_proj [OF hs(1)]) (use t in fastforce)
  moreover have "\<forall>h \<in> set hs. code_ok q (hd_Code h) \<and> unat (hd_Cell h) < length (ix_coarse ix)"
    using those_mem [OF hs(1)] t by fastforce
  ultimately show ?thesis
    using add_handles_inv [OF inv, of hs] hs
    by (auto simp: Add_def image_Un simp flip: set_map take_map)
qed

end
