(* ===== verification/IvfProps.thy ===== *)
theory IvfProps
  imports IvfIndex
begin

text \<open>
  Properties of the inverted-file index: adding, rebuilding, searching, the exact tier, re-ranking and
  recall. A search is reduced to \<open>candidates\<close>, the list of scored positions of the probed cells, and
  to the selection of the best of them.
\<close>

section \<open>What a search visits\<close>

definition score :: "'f::{plus,zero} pq \<Rightarrow> handle list \<Rightarrow> 'f list \<Rightarrow> nat \<Rightarrow> 'f hresult option" where
  "score q entries table pos =
     do { e \<leftarrow> nth_opt entries pos;
          d \<leftarrow> adc_sum (pq_K q) table (hd_Code e) [0..<pq_M q] 0;
          Some \<lparr>rs_ID = pos, rs_Dist = d\<rparr> }"

definition cell_results :: "('f::{plus,minus,zero}, 'g::{linorder,zero,plus,minus,times}) floats \<Rightarrow> 'f index \<Rightarrow> 'f vec \<Rightarrow>
    nat \<Rightarrow> 'f hresult list option" where
  "cell_results fl ix query c =
     do { cen \<leftarrow> nth_opt (ix_coarse ix) c; r \<leftarrow> sub query cen; q \<leftarrow> ix_pq ix; table \<leftarrow> buildADCTable fl q r;
          ps \<leftarrow> nth_opt (ix_lists ix) c; those (map (score q (ix_entries ix) table) ps) }"

definition candidates :: "('f::{plus,minus,zero}, 'g::{linorder,zero,plus,minus,times}) floats \<Rightarrow> 'f index \<Rightarrow> 'f vec \<Rightarrow>
    nat list \<Rightarrow> 'f hresult list option" where
  "candidates fl ix query cells = map_option concat (those (map (cell_results fl ix query) cells))"

text \<open>The distance of a stored position as the search computes it.\<close>

definition adc_dist :: "('f::{plus,minus,zero}, 'g::{linorder,zero,plus,minus,times}) floats \<Rightarrow> 'f index \<Rightarrow> 'f vec \<Rightarrow>
    nat \<Rightarrow> 'f option" where
  "adc_dist fl ix query pos =
     do { e \<leftarrow> nth_opt (ix_entries ix) pos; cen \<leftarrow> nth_opt (ix_coarse ix) (unat (hd_Cell e)); r \<leftarrow> sub query cen;
          q \<leftarrow> ix_pq ix; table \<leftarrow> buildADCTable fl q r; adc_sum (pq_K q) table (hd_Code e) [0..<pq_M q] 0 }"

lemma offers_append:
  "offers topK (xs @ ys) h = (case offers topK xs h of None \<Rightarrow> None | Some h' \<Rightarrow> offers topK ys h')"
  by (induction xs arbitrary: h) (auto split: option.split)

lemma scan_list_offers:
  "those (map (score q entries table) ps) = Some rs \<Longrightarrow> scan_list q entries table topK ps h = offers topK rs h"
proof (induction ps arbitrary: rs h)
  case (Cons pos ps)
  obtain r rs' where r: "score q entries table pos = Some r" "those (map (score q entries table) ps) = Some rs'" "rs = r # rs'"
    using Cons.prems by (auto split: option.splits)
  obtain e d where e: "nth_opt entries pos = Some e" "adc_sum (pq_K q) table (hd_Code e) [0..<pq_M q] 0 = Some d"
    "r = \<lparr>rs_ID = pos, rs_Dist = d\<rparr>"
    using r(1) by (auto simp: score_def split: Option.bind_splits)
  show ?case using e r(3) Cons.IH [OF r(2)] by (cases "offer topK r h") simp_all
qed simp

lemma scan_cells_offers:
  "candidates fl ix query cells = Some rs \<Longrightarrow> scan_cells fl ix query topK cells h = offers topK rs h"
proof (induction cells arbitrary: rs h)
  case (Cons c cells)
  obtain r rs' where r: "cell_results fl ix query c = Some r" "candidates fl ix query cells = Some rs'" "rs = r @ rs'"
    using Cons.prems by (auto simp: candidates_def split: option.splits)
  obtain cen rv q table ps where p: "nth_opt (ix_coarse ix) c = Some cen" "sub query cen = Some rv" "ix_pq ix = Some q"
    "buildADCTable fl q rv = Some table" "nth_opt (ix_lists ix) c = Some ps"
    "those (map (score q (ix_entries ix) table) ps) = Some r"
    using r(1) by (auto simp: cell_results_def split: Option.bind_splits)
  show ?case
    using p(1-5) scan_list_offers [OF p(6), of topK h] Cons.IH [OF r(2)] r(3)
    by (cases "offers topK r h") (simp_all add: offers_append)
qed (simp add: candidates_def)

lemma cell_results_total:
  assumes inv: "index_inv q ix" and "length query = pq_D q" and c: "c < length (ix_coarse ix)"
  shows "\<exists>rs. cell_results fl ix query c = Some rs \<and> map rs_ID rs = ix_lists ix ! c \<and>
    (\<forall>r \<in> set rs. adc_dist fl ix query (rs_ID r) = Some (rs_Dist r))"
proof -
  note i = inv [unfolded index_inv_def]
  obtain n where n: "pq_K q \<le> n" "has_books n q" using i by blast
  obtain r where r: "sub query (ix_coarse ix ! c) = Some r" "length r = pq_D q"
    using sub_total [of query "ix_coarse ix ! c"] dims_nth [of "pq_D q" "ix_coarse ix", OF _ c] i assms(2) by auto
  obtain table where table: "buildADCTable fl q r = Some table" "length table = pq_M q * pq_K q"
    using buildADCTable_total [OF n(2,1) r(2)] by blast
  have ps: "nth_opt (ix_lists ix) c = Some (ix_lists ix ! c)" using i c by (simp add: nth_opt_in)
  let ?s = "score q (ix_entries ix) table"
  have s: "\<exists>d. ?s pos = Some \<lparr>rs_ID = pos, rs_Dist = d\<rparr> \<and> adc_dist fl ix query pos = Some d"
    if "pos \<in> set (ix_lists ix ! c)" for pos
  proof -
    have p: "pos < length (ix_entries ix)" "unat (hd_Cell (ix_entries ix ! pos)) = c"
      using that i c by auto
    then have "code_ok q (hd_Code (ix_entries ix ! pos))" using i by auto
    from adc_sum_total [OF this table(2), of "[0..<pq_M q]" 0]
    show ?thesis using p c r table(1) i by (auto simp: score_def adc_dist_def nth_opt_in)
  qed
  then obtain rs where rs: "those (map ?s (ix_lists ix ! c)) = Some rs" "length rs = length (ix_lists ix ! c)"
    using those_total [where f = ?s and xs = "ix_lists ix ! c"] by blast
  have "map rs_ID rs = map (\<lambda>pos. pos) (ix_lists ix ! c)"
    by (rule those_proj [OF rs(1)]) (use s in fastforce)
  then have "map rs_ID rs = ix_lists ix ! c" by simp
  moreover have "\<forall>r \<in> set rs. adc_dist fl ix query (rs_ID r) = Some (rs_Dist r)"
    using those_mem [OF rs(1)] s by fastforce
  moreover have "cell_results fl ix query c = Some rs"
    using c r(1) table(1) ps rs(1) i by (simp add: cell_results_def nth_opt_in)
  ultimately show ?thesis by blast
qed

lemma candidates_total:
  assumes inv: "index_inv q ix" and "length query = pq_D q" and "\<forall>c \<in> set cells. c < length (ix_coarse ix)"
  shows "\<exists>rs. candidates fl ix query cells = Some rs \<and> map rs_ID rs = concat (map (nth (ix_lists ix)) cells) \<and>
    (\<forall>r \<in> set rs. adc_dist fl ix query (rs_ID r) = Some (rs_Dist r))"
  using assms(3)
proof (induction cells)
  case (Cons c cells)
  then obtain rs where "candidates fl ix query cells = Some rs" "map rs_ID rs = concat (map (nth (ix_lists ix)) cells)"
    "\<forall>r \<in> set rs. adc_dist fl ix query (rs_ID r) = Some (rs_Dist r)" by auto
  moreover obtain r where "cell_results fl ix query c = Some r" "map rs_ID r = ix_lists ix ! c"
    "\<forall>x \<in> set r. adc_dist fl ix query (rs_ID x) = Some (rs_Dist x)"
    using cell_results_total [OF inv assms(2), of c fl] Cons.prems by auto
  ultimately show ?case by (auto simp: candidates_def split: option.splits)
qed (simp add: candidates_def)

section \<open>Probing\<close>

definition cell_dist :: "('f, 'g::{linorder,zero,plus,minus,times}) floats \<Rightarrow> 'f vec list \<Rightarrow> 'f vec \<Rightarrow> nat \<Rightarrow> 'g" where
  "cell_dist fl coarse query c = the (sqL2 fl (coarse ! c) query)"

lemma probeCells_total:
  assumes "dims d coarse" and "length query = d" and "0 \<le> nprobe"
  shows "\<exists>cells. probeCells fl coarse query nprobe = Some cells \<and> length cells = min (nat nprobe) (length coarse) \<and>
    distinct cells \<and> (\<forall>c \<in> set cells. c < length coarse) \<and>
    sorted (map (\<lambda>c. (cell_dist fl coarse query c, c)) cells) \<and>
    (\<forall>c \<in> set cells. \<forall>c' < length coarse. c' \<notin> set cells \<longrightarrow>
       (cell_dist fl coarse query c, c) \<le> (cell_dist fl coarse query c', c'))"
proof -
  let ?k = "cell_dist fl coarse query" and ?n = "length coarse"
  have "\<exists>x. sqL2 fl cen query = Some x" if "cen \<in> set coarse" for cen
    using sqL2_total [of cen query fl] that assms(1,2) by (simp add: dims_def)
  then obtain ds where ds: "those (map (\<lambda>cen. sqL2 fl cen query) coarse) = Some ds" "length ds = ?n"
    using those_total [where f = "\<lambda>cen. sqL2 fl cen query" and xs = coarse] by blast
  have "ds ! i = ?k i" if "i < ?n" for i
    using ds(1) that by (simp add: those_Some list_all2_conv_all_nth cell_dist_def)
  then have dsk: "ds = map ?k [0..<?n]" using ds(2) by (intro nth_equalityI) simp_all
  define s where "s = sort_key (\<lambda>x. x) (zip ds [0..<?n])"
  have z: "zip ds [0..<?n] = map (\<lambda>c. (?k c, c)) [0..<?n]" unfolding dsk by (simp add: zip_map1 zip_same_conv_map)
  have ms: "mset s = mset (map (\<lambda>c. (?k c, c)) [0..<?n])" by (simp add: s_def z)
  have mc: "mset (map snd s) = mset [0..<?n]"
    using arg_cong [OF ms, of "image_mset snd"] by (simp add: image_mset.compositionality comp_def)
  have sk: "map (\<lambda>c. (?k c, c)) (map snd s) = s"
  proof -
    have "x = (?k (snd x), snd x)" if "x \<in> set s" for x
    proof -
      have "x \<in># mset (map (\<lambda>c. (?k c, c)) [0..<?n])" using that ms by (metis set_mset_mset)
      then show ?thesis by auto
    qed
    then show ?thesis by (simp add: comp_def map_idI)
  qed
  have so: "sorted s" unfolding s_def by (metis map_ident sorted_sort_key)
  define cells where "cells = map snd (take (nat nprobe) s)"
  have tk: "cells = take (nat nprobe) (map snd s)" by (simp add: cells_def take_map)
  have dis: "distinct (map snd s)" using mc by (metis distinct_upt mset_eq_imp_distinct_iff)
  have st: "set (map snd s) = {..<?n}" using mc by (metis atLeast_upt mset_eq_setD)
  have cd: "set (map snd s) = set cells \<union> set (drop (nat nprobe) (map snd s))"
    unfolding tk by (metis append_take_drop_id set_append)
  have sorted: "sorted (map (\<lambda>c. (?k c, c)) (cells @ drop (nat nprobe) (map snd s)))"
    unfolding tk append_take_drop_id sk by (rule so)
  have p: "probeCells fl coarse query nprobe = Some cells"
    using ds(1) assms(3) by (simp add: probeCells_def s_def cells_def)
  have "\<forall>c \<in> set cells. \<forall>c' < ?n. c' \<notin> set cells \<longrightarrow> (?k c, c) \<le> (?k c', c')"
    using sorted cd st unfolding map_append sorted_append by auto
  moreover have "length cells = min (nat nprobe) ?n"
    using arg_cong [OF mc, of size] by (simp add: cells_def min.commute)
  moreover have "distinct cells" unfolding tk using dis by (rule distinct_take)
  moreover have "\<forall>c \<in> set cells. c < ?n" using cd st by auto
  moreover have "sorted (map (\<lambda>c. (?k c, c)) cells)" using sorted unfolding map_append sorted_append by blast
  ultimately show ?thesis using p by blast
qed

section \<open>The result of a search\<close>

lemma best_image:
  assumes "best k key U kept" and "\<And>x. key' (f x) = key x"
  shows "best k key' (image_mset f U) (image_mset f kept)"
proof -
  note b = assms(1) [unfolded best_def]
  have "image_mset f U - image_mset f kept = image_mset f (U - kept)" using b by (simp add: image_mset_Diff)
  then show ?thesis using b assms(2) by (auto simp: best_def image_mset_subseteq_mono)
qed

lemma distinct_submset: "mset xs \<subseteq># mset ys \<Longrightarrow> distinct ys \<Longrightarrow> distinct xs"
proof -
  assume s: "mset xs \<subseteq># mset ys" and d: "distinct ys"
  obtain zs where "mset ys = mset (xs @ zs)"
    using s by (metis ex_mset mset_append subset_mset.add_diff_inverse)
  then have "distinct (xs @ zs)" using d by (metis mset_eq_imp_distinct_iff)
  then show ?thesis by simp
qed

text \<open>The positions stored in given cells, and the hit a position makes.\<close>

definition in_cells :: "'f index \<Rightarrow> nat list \<Rightarrow> nat set" where
  "in_cells ix cells = {p. p < length (ix_entries ix) \<and> unat (hd_Cell (ix_entries ix ! p)) \<in> set cells}"

definition hit_of :: "('f::{plus,minus,zero}, 'g::{linorder,zero,plus,minus,times}) floats \<Rightarrow> 'f index \<Rightarrow> 'f vec \<Rightarrow>
    nat \<Rightarrow> 'f hit" where
  "hit_of fl ix query p = \<lparr>ht_Handle = ix_entries ix ! p, ht_Dist = the (adc_dist fl ix query p)\<rparr>"

definition hit_hash :: "'f hit \<Rightarrow> u64" where
  "hit_hash h = hd_Hash (ht_Handle h)"

lemma lists_positions:
  assumes inv: "index_inv q ix" and "distinct cells" and "\<forall>c \<in> set cells. c < length (ix_coarse ix)"
  shows "distinct (concat (map (nth (ix_lists ix)) cells))"
    and "set (concat (map (nth (ix_lists ix)) cells)) = in_cells ix cells"
proof -
  note i = inv [unfolded index_inv_def]
  have l: "ix_lists ix ! c = filter (\<lambda>pos. unat (hd_Cell (ix_entries ix ! pos)) = c) [0..<length (ix_entries ix)]"
    if "c \<in> set cells" for c using i assms(3) that by blast
  have e: "map (nth (ix_lists ix)) cells =
      map (\<lambda>c. filter (\<lambda>pos. unat (hd_Cell (ix_entries ix ! pos)) = c) [0..<length (ix_entries ix)]) cells"
    using l by simp
  show "set (concat (map (nth (ix_lists ix)) cells)) = in_cells ix cells"
    unfolding e by (auto simp: in_cells_def)
  show "distinct (concat (map (nth (ix_lists ix)) cells))"
    unfolding e using assms(2)
  proof (induction cells)
    case (Cons c cs)
    then show ?case by auto
  qed simp
qed

lemma candidates_hits:
  assumes inv: "index_inv q ix" and "length query = pq_D q" and "distinct cells"
    and "\<forall>c \<in> set cells. c < length (ix_coarse ix)"
  shows "\<exists>cands. candidates fl ix query cells = Some cands \<and> distinct (map rs_ID cands) \<and>
    set (map rs_ID cands) = in_cells ix cells \<and>
    (\<forall>r \<in> set cands. adc_dist fl ix query (rs_ID r) = Some (rs_Dist r) \<and>
       to_hit ix r = Some (hit_of fl ix query (rs_ID r))) \<and>
    image_mset (hit_of fl ix query) (mset_set (in_cells ix cells)) = image_mset (\<lambda>r. hit_of fl ix query (rs_ID r)) (mset cands)"
proof -
  obtain cands where c: "candidates fl ix query cells = Some cands"
    "map rs_ID cands = concat (map (nth (ix_lists ix)) cells)"
    "\<forall>r \<in> set cands. adc_dist fl ix query (rs_ID r) = Some (rs_Dist r)"
    using candidates_total [OF inv assms(2,4)] by blast
  have d: "distinct (map rs_ID cands)" "set (map rs_ID cands) = in_cells ix cells"
    using lists_positions [OF inv assms(3,4)] c(2) by simp_all
  have "to_hit ix r = Some (hit_of fl ix query (rs_ID r))" if "r \<in> set cands" for r
  proof -
    have "rs_ID r \<in> in_cells ix cells" using d(2) that by auto
    then show ?thesis using c(3) that by (simp add: to_hit_def hit_of_def nth_opt_in in_cells_def)
  qed
  moreover have "image_mset (hit_of fl ix query) (mset_set (in_cells ix cells)) =
      image_mset (\<lambda>r. hit_of fl ix query (rs_ID r)) (mset cands)"
    unfolding d(2) [symmetric] mset_set_set [OF d(1)] by (simp add: image_mset.compositionality comp_def)
  ultimately show ?thesis using c(1,3) d by (intro exI [of _ cands]) blast
qed

lemma those_all: "(\<And>x. x \<in> set xs \<Longrightarrow> f x = Some (g x)) \<Longrightarrow> those (map f xs) = Some (map g xs)"
  by (induction xs) auto

lemma Search_facts:
  assumes inv: "index_inv q ix" and l: "length query = pq_D q" and "0 \<le> nprobe"
    and p: "probeCells fl (ix_coarse ix) query nprobe = Some cells"
  shows "0 < topK \<Longrightarrow> \<exists>hits. Search fl ix query nprobe topK = Some hits \<and>
      best (nat topK) ht_Dist (image_mset (hit_of fl ix query) (mset_set (in_cells ix cells))) (mset hits) \<and>
      sorted (map ht_Dist hits) \<and> distinct (map hit_hash hits) \<and> (\<forall>h \<in> set hits. ht_Handle h \<in> set (ix_entries ix))"
    and "topK \<le> 0 \<Longrightarrow> Search fl ix query nprobe topK = (if in_cells ix cells = {} then Some [] else None)"
proof -
  note i = inv [unfolded index_inv_def]
  have cells: "distinct cells" "\<forall>c \<in> set cells. c < length (ix_coarse ix)"
    using probeCells_total [of "pq_D q" "ix_coarse ix" query nprobe fl] i l assms(3) p by auto
  obtain cands where c: "candidates fl ix query cells = Some cands" "distinct (map rs_ID cands)"
    "set (map rs_ID cands) = in_cells ix cells"
    "\<forall>r \<in> set cands. adc_dist fl ix query (rs_ID r) = Some (rs_Dist r) \<and> to_hit ix r = Some (hit_of fl ix query (rs_ID r))"
    "image_mset (hit_of fl ix query) (mset_set (in_cells ix cells)) = image_mset (\<lambda>r. hit_of fl ix query (rs_ID r)) (mset cands)"
    using candidates_hits [OF inv l cells] by blast
  have scan: "scan_cells fl ix query topK cells [] = offers topK cands []" for topK
    by (rule scan_cells_offers [OF c(1)])
  show "Search fl ix query nprobe topK = (if in_cells ix cells = {} then Some [] else None)" if "topK \<le> 0"
    using c(3) offers_no_room [OF that, of cands] by (auto simp: Search_def p scan drainAscending_def)
  show "\<exists>hits. Search fl ix query nprobe topK = Some hits \<and>
      best (nat topK) ht_Dist (image_mset (hit_of fl ix query) (mset_set (in_cells ix cells))) (mset hits) \<and>
      sorted (map ht_Dist hits) \<and> distinct (map hit_hash hits) \<and> (\<forall>h \<in> set hits. ht_Handle h \<in> set (ix_entries ix))"
    if "0 < topK"
  proof -
    obtain h where h: "offers topK cands [] = Some h" "best (nat topK) rs_Dist (mset cands) (mset h)"
      using offers_best [OF \<open>0 < topK\<close>] by blast
    let ?f = "\<lambda>r. \<lparr>ht_Handle = ix_entries ix ! rs_ID r, ht_Dist = rs_Dist r\<rparr>"
    have sub: "mset h \<subseteq># mset cands" using h(2) by (simp add: best_def)
    then have hc: "set h \<subseteq> set cands" by (metis set_mset_mono set_mset_mset)
    have f: "hit_of fl ix query (rs_ID r) = ?f r" if "r \<in> set cands" for r using c(4) that by (simp add: hit_of_def)
    define hits where "hits = map ?f (drainAscending h)"
    have th: "those (map (to_hit ix) (drainAscending h)) = Some hits"
      unfolding hits_def by (rule those_all) (use c(4) hc f in auto)
    have U: "image_mset (hit_of fl ix query) (mset_set (in_cells ix cells)) = image_mset ?f (mset cands)"
      unfolding c(5) by (rule image_mset_cong) (use f in simp)
    have mh: "mset hits = image_mset ?f (mset h)" by (simp add: hits_def)
    have "best (nat topK) ht_Dist (image_mset ?f (mset cands)) (image_mset ?f (mset h))"
      by (rule best_image [OF h(2)]) simp
    moreover have "sorted (map ht_Dist hits)"
    proof -
      have "sorted_wrt (\<lambda>x y. (rs_Dist x, rs_ID x) \<le> (rs_Dist y, rs_ID y)) (drainAscending h)"
        using drain_props(2) [of h] unfolding sorted_map .
      then have "sorted_wrt (\<lambda>x y. rs_Dist x \<le> rs_Dist y) (drainAscending h)"
        by (rule sorted_wrt_mono_rel [rotated]) (auto simp: less_eq_prod_def)
      then show ?thesis by (simp add: hits_def sorted_map sorted_wrt_map comp_def)
    qed
    moreover have "distinct (map hit_hash hits) \<and> (\<forall>h \<in> set hits. ht_Handle h \<in> set (ix_entries ix))"
    proof -
      have "mset (map rs_ID (drainAscending h)) \<subseteq># mset (map rs_ID cands)"
        using image_mset_subseteq_mono [OF sub, of rs_ID] by simp
      then have d: "distinct (map rs_ID (drainAscending h))" using c(2) by (rule distinct_submset)
      have r: "rs_ID r < length (ix_entries ix)" if "r \<in> set (drainAscending h)" for r
        using that hc c(3) by (auto simp: in_cells_def)
      have "inj_on (\<lambda>p. hd_Hash (ix_entries ix ! p)) {..<length (ix_entries ix)}"
        using i by (auto simp: inj_on_def distinct_conv_nth)
      then have "distinct (map (\<lambda>p. hd_Hash (ix_entries ix ! p)) (map rs_ID (drainAscending h)))"
        unfolding distinct_map [of "\<lambda>p. hd_Hash (ix_entries ix ! p)"] using d r by (auto intro: inj_on_subset)
      then show ?thesis using r by (auto simp: hits_def hit_hash_def comp_def)
    qed
    ultimately show ?thesis using h(1) th p U mh by (auto simp: Search_def scan)
  qed
qed

section \<open>The exact tier\<close>

definition exact_hit :: "('f, 'g::{zero,plus,minus,times}) floats \<Rightarrow> 'f index \<Rightarrow> 'f vec \<Rightarrow> u64 \<times> 'f vec \<Rightarrow> 'f hit" where
  "exact_hit fl ix query r =
     \<lparr>ht_Handle = ix_entries ix ! the (ix_byHash ix (fst r)), ht_Dist = f32 fl (the (sqL2 fl query (snd r)))\<rparr>"

definition residents :: "'f index \<Rightarrow> (u64 \<times> 'f vec) list \<Rightarrow> (u64 \<times> 'f vec) list" where
  "residents ix tier = filter (\<lambda>r. ix_byHash ix (fst r) \<noteq> None) tier"

lemma tier_hits_total:
  assumes inv: "index_inv q ix" and "dims (length query) (map snd tier)"
  shows "tier_hits fl ix query tier = Some (map (exact_hit fl ix query) (residents ix tier))"
proof -
  let ?g = "\<lambda>r. if ix_byHash ix (fst r) = None then [] else [exact_hit fl ix query r]"
  have "those (map (\<lambda>(hash, vec). case ix_byHash ix hash of None \<Rightarrow> Some []
        | Some pos \<Rightarrow> do { e \<leftarrow> nth_opt (ix_entries ix) pos; d \<leftarrow> sqL2 fl query vec;
                           Some [\<lparr>ht_Handle = e, ht_Dist = f32 fl d\<rparr>] }) tier) = Some (map ?g tier)"
  proof (rule those_all, clarify)
    fix hash :: u64 and vec assume m: "(hash, vec) \<in> set tier"
    then have "length query \<le> length vec" using assms(2) by (auto simp: dims_def)
    then obtain d where "sqL2 fl query vec = Some d" using sqL2_total by blast
    show "(case ix_byHash ix hash of None \<Rightarrow> Some []
        | Some pos \<Rightarrow> do { e \<leftarrow> nth_opt (ix_entries ix) pos; d \<leftarrow> sqL2 fl query vec;
                           Some [\<lparr>ht_Handle = e, ht_Dist = f32 fl d\<rparr>] }) = Some (?g (hash, vec))"
    proof (cases "ix_byHash ix hash")
      case (Some pos)
      then have "nth_opt (ix_entries ix) pos = Some (ix_entries ix ! pos)"
        using inv_byHash [OF inv, of hash pos] by (simp add: nth_opt_in)
      with Some \<open>sqL2 fl query vec = Some d\<close> show ?thesis by (simp add: exact_hit_def)
    qed simp
  qed
  moreover have "concat (map ?g tier) = map (exact_hit fl ix query) (residents ix tier)"
    unfolding residents_def by (induction tier) auto
  ultimately show ?thesis by (simp add: tier_hits_def)
qed

lemma exact_hit_hash:
  assumes "index_inv q ix" and "r \<in> set (residents ix tier)"
  shows "hit_hash (exact_hit fl ix query r) = fst r" and "ht_Handle (exact_hit fl ix query r) \<in> set (ix_entries ix)"
proof -
  obtain pos where "ix_byHash ix (fst r) = Some pos" using assms(2) by (auto simp: residents_def)
  then show "hit_hash (exact_hit fl ix query r) = fst r" "ht_Handle (exact_hit fl ix query r) \<in> set (ix_entries ix)"
    using inv_byHash [OF assms(1), of "fst r" pos] by (simp_all add: exact_hit_def hit_hash_def)
qed

lemma cut_hits_take: "0 \<le> topK \<Longrightarrow> cut_hits topK xs = Some (take (nat topK) xs)"
  by (simp add: cut_hits_def)

lemma hit_order_eq: "hit_order = (\<lambda>h. (ht_Dist h, hit_hash h))"
  by (auto simp: hit_order_def hit_hash_def)

lemma inv_hash_inj:
  assumes "index_inv q ix" and "h1 \<in> set (ix_entries ix)" and "h2 \<in> set (ix_entries ix)" and "hd_Hash h1 = hd_Hash h2"
  shows "h1 = h2"
  using assms by (auto simp: index_inv_def distinct_map inj_on_def)

lemma finite_in_cells [simp]: "finite (in_cells ix cells)"
  by (simp add: in_cells_def)

lemma hit_of_hash_count:
  assumes inv: "index_inv q ix"
  shows "size (filter_mset (\<lambda>h. \<not> hit_hash h \<notin> T) (image_mset (hit_of fl ix query) (mset_set (in_cells ix cells)))) \<le> card T \<or> infinite T"
proof (cases "finite T")
  case True
  let ?S = "{p \<in> in_cells ix cells. hd_Hash (ix_entries ix ! p) \<in> T}"
  have "size (filter_mset (\<lambda>h. \<not> hit_hash h \<notin> T) (image_mset (hit_of fl ix query) (mset_set (in_cells ix cells)))) = card ?S"
    by (simp add: filter_mset_image_mset hit_hash_def hit_of_def)
  also have "\<dots> \<le> card T"
    using inv True by (intro card_inj_on_le [of "\<lambda>p. hd_Hash (ix_entries ix ! p)"])
      (auto simp: inj_on_def in_cells_def index_inv_def distinct_conv_nth)
  finally show ?thesis by simp
qed simp

lemma SearchTiered_facts:
  assumes inv: "index_inv q ix" and l: "length query = pq_D q" and n: "0 \<le> nprobe" and k: "0 < topK"
    and t: "tier \<noteq> []" "distinct (map fst tier)" "dims (pq_D q) (map snd tier)"
    and p: "probeCells fl (ix_coarse ix) query nprobe = Some cells"
  shows "\<exists>hits. SearchTiered fl ix query nprobe topK tier = Some hits \<and>
    best (nat topK) ht_Dist
      (image_mset (hit_of fl ix query) (mset_set {p \<in> in_cells ix cells. hd_Hash (ix_entries ix ! p) \<notin> fst ` set tier}) +
       mset (map (exact_hit fl ix query) (residents ix tier))) (mset hits) \<and>
    sorted (map hit_order hits) \<and> distinct (map hit_hash hits) \<and>
    (\<forall>tier'. mset tier' = mset tier \<longrightarrow> SearchTiered fl ix query nprobe topK tier' = Some hits)"
proof -
  let ?T = "fst ` set tier" and ?p = "\<lambda>h. hit_hash h \<notin> fst ` set tier" and ?t = "length tier"
  define U where "U = image_mset (hit_of fl ix query) (mset_set (in_cells ix cells))"
  define res where "res = map (exact_hit fl ix query) (residents ix tier)"
  obtain adc where adc: "Search fl ix query nprobe (topK + int ?t) = Some adc"
    "best (nat (topK + int ?t)) ht_Dist U (mset adc)" "distinct (map hit_hash adc)"
    "\<forall>h \<in> set adc. ht_Handle h \<in> set (ix_entries ix)"
    using Search_facts(1) [OF inv l n p, of "topK + int ?t"] k by (auto simp: U_def)
  have nk: "nat (topK + int ?t) = nat topK + ?t" using k by simp
  have small: "size (filter_mset (\<lambda>h. \<not> ?p h) U) \<le> ?t"
    using hit_of_hash_count [OF inv, of ?T fl query cells] card_image_le [of "set tier" fst] card_length [of tier]
    by (simp add: U_def)
  define merged where "merged = filter ?p adc @ res"
  define hits where "hits = take (nat topK) (sort_key hit_order merged)"
  have th: "tier_hits fl ix query tier = Some res"
    unfolding res_def by (rule tier_hits_total [OF inv]) (use t(3) l in simp)
  have run: "SearchTiered fl ix query nprobe topK tier = Some hits"
    using adc(1) th t(1) k by (simp add: SearchTiered_def cut_hits_take hits_def merged_def hit_hash_def)
  note ba = adc(2) [unfolded best_def nk]
  have sub: "mset adc \<subseteq># U" using ba by blast
  have "best (nat topK) ht_Dist (mset merged) (mset hits)"
    unfolding hits_def hit_order_eq by (rule best_sorted_take)
  then have "best (nat topK) ht_Dist (mset merged + filter_mset ?p (U - mset adc)) (mset hits)"
  proof (rule best_more [where K = "filter_mset ?p (mset adc)"])
    show "filter_mset ?p (mset adc) \<subseteq># mset merged" by (simp add: merged_def)
    show "ht_Dist x \<le> ht_Dist y" if "x \<in># filter_mset ?p (mset adc)" "y \<in># filter_mset ?p (U - mset adc)" for x y
    proof -
      have "x \<in># mset adc" "y \<in># U - mset adc" using that unfolding set_mset_filter by blast+
      then show ?thesis using ba by blast
    qed
    show "nat topK \<le> size (filter_mset ?p (mset adc))" if "filter_mset ?p (U - mset adc) \<noteq> {#}"
      by (rule best_filter [OF adc(2) [unfolded nk] small that])
  qed
  moreover have "mset merged + filter_mset ?p (U - mset adc) = filter_mset ?p U + mset res"
  proof -
    have "filter_mset ?p U = filter_mset ?p (mset adc) + filter_mset ?p (U - mset adc)"
      using subset_mset.add_diff_inverse [OF sub] by (metis filter_union_mset)
    then show ?thesis unfolding merged_def mset_append mset_filter by (simp only: ac_simps)
  qed
  moreover have "filter_mset ?p U = image_mset (hit_of fl ix query)
      (mset_set {p \<in> in_cells ix cells. hd_Hash (ix_entries ix ! p) \<notin> ?T})"
    unfolding U_def by (simp add: filter_mset_image_mset hit_hash_def hit_of_def)
  ultimately have b: "best (nat topK) ht_Dist
      (image_mset (hit_of fl ix query) (mset_set {p \<in> in_cells ix cells. hd_Hash (ix_entries ix ! p) \<notin> ?T}) + mset res)
      (mset hits)" by simp
  have hr: "map hit_hash res = map fst (residents ix tier)"
    unfolding res_def map_map comp_def by (rule map_cong [OF refl], rule exact_hit_hash(1) [OF inv])
  have dm: "distinct (map hit_hash merged)"
  proof -
    have "distinct (map hit_hash (filter ?p adc))" using adc(3) by (rule distinct_map_filter)
    moreover have "distinct (map hit_hash res)"
      unfolding hr residents_def using t(2) by (rule distinct_map_filter)
    moreover have "set (map hit_hash res) \<subseteq> ?T" unfolding hr residents_def set_map set_filter by blast
    moreover have "set (map hit_hash (filter ?p adc)) \<inter> ?T = {}" unfolding set_map set_filter by blast
    ultimately show ?thesis unfolding merged_def map_append distinct_append by blast
  qed
  have em: "\<forall>h \<in> set merged. ht_Handle h \<in> set (ix_entries ix)"
    using adc(4) exact_hit_hash(2) [OF inv] by (auto simp: merged_def res_def)
  have inj: "inj_on hit_order (set merged)"
    unfolding inj_on_def hit_order_eq
  proof (intro ballI impI)
    fix x y assume "x \<in> set merged" "y \<in> set merged" "(ht_Dist x, hit_hash x) = (ht_Dist y, hit_hash y)"
    then have "ht_Handle x = ht_Handle y" "ht_Dist x = ht_Dist y"
      using inv_hash_inj [OF inv, of "ht_Handle x" "ht_Handle y"] em by (simp_all add: hit_hash_def)
    then show "x = y" by (intro hit.equality) simp_all
  qed
  have any: "SearchTiered fl ix query nprobe topK tier' = Some hits" if m: "mset tier' = mset tier" for tier'
  proof -
    have s: "set tier' = set tier" "length tier' = length tier" using m by (metis mset_eq_setD, metis mset_eq_length)
    let ?res = "map (exact_hit fl ix query) (residents ix tier')"
    have "dims (length query) (map snd tier')" using t(3) l s by (simp add: dims_def)
    then have th': "tier_hits fl ix query tier' = Some ?res" by (rule tier_hits_total [OF inv])
    have mm: "mset (filter ?p adc @ ?res) = mset merged"
      unfolding merged_def res_def residents_def using m by (simp add: mset_filter)
    then have "sort_key hit_order (filter ?p adc @ ?res) = sort_key hit_order merged"
      using inj unfolding mset_eq_setD [OF mm, symmetric] by (intro sort_key_inj_key_eq) (simp_all only: mm mset_sort sorted_sort_key)
    moreover have "tier' \<noteq> []" using t(1) s(2) by auto
    ultimately show ?thesis
      using adc(1) th' k s by (simp add: SearchTiered_def cut_hits_take hits_def hit_hash_def)
  qed
  have "sorted (map hit_order hits)" unfolding hits_def take_map [symmetric] by (intro sorted_wrt_take) simp
  moreover have "distinct (map hit_hash hits)"
  proof -
    have "distinct (map hit_hash (sort_key hit_order merged))"
      using dm by (metis mset_eq_imp_distinct_iff mset_map mset_sort)
    then show ?thesis unfolding hits_def take_map [symmetric] by (rule distinct_take)
  qed
  ultimately show ?thesis using run b any unfolding res_def by blast
qed

section \<open>Re-ranking\<close>

lemma best_keys:
  assumes "best k f (mset us) (mset as)"
  shows "sort (map f as) = take k (sort (map f us))"
proof -
  note b = assms [unfolded best_def]
  obtain ds where ds: "mset ds = mset us - mset as" by (meson ex_mset)
  have "mset us = mset as + mset ds" using b ds by simp
  then have m: "mset (map f us) = mset (sort (map f as) @ sort (map f ds))" by simp
  have "\<forall>x \<in> set as. \<forall>y \<in> set ds. f x \<le> f y" using b ds by (metis set_mset_mset)
  then have "sorted (sort (map f as) @ sort (map f ds))" unfolding sorted_append by auto
  with m have s: "sort (map f us) = sort (map f as) @ sort (map f ds)" by (intro properties_for_sort) simp_all
  have "length us = length as + length ds" using arg_cong [OF m, of size] by simp
  moreover have "length as = min k (length us)" using b by simp
  ultimately have "length as = k \<or> ds = []" and "length as \<le> k" by (auto simp: min_def split: if_splits)
  then show ?thesis unfolding s by auto
qed

lemma best_best:
  assumes "best n f U (mset as)" and "best k f (mset as) r" and "k \<le> n"
  shows "best k f U r"
proof -
  note b = assms(1) [unfolded best_def]
  have "best k f (mset as + (U - mset as)) r"
  proof (rule best_more [OF assms(2) subset_mset.order_refl])
    show "f x \<le> f y" if "x \<in># mset as" "y \<in># U - mset as" for x y using b that by blast
    show "k \<le> size (mset as)" if "U - mset as \<noteq> {#}"
    proof -
      have "size (mset as) < size U"
        using that b by (metis Diff_eq_empty_iff_mset mset_subset_size subset_mset.le_imp_less_or_eq subset_mset.order_refl)
      then show ?thesis using b assms(3) by simp
    qed
  qed
  then show ?thesis using b by simp
qed

definition rescored :: "('f, 'g::{zero,plus,minus,times}) floats \<Rightarrow> 'f vec \<Rightarrow> (u64 \<Rightarrow> 'f vec option) \<Rightarrow> 'f hit \<Rightarrow> 'f hit" where
  "rescored fl query fetch h =
     (case fetch (hit_hash h) of None \<Rightarrow> h | Some v \<Rightarrow> h\<lparr>ht_Dist := f32 fl (the (sqL2 fl query v))\<rparr>)"

lemma SearchRerank_facts:
  assumes inv: "index_inv q ix" and l: "length query = pq_D q" and n: "0 \<le> nprobe"
    and k: "0 < topK" "topK \<le> rerankK" and f: "\<forall>hash v. fetch hash = Some v \<longrightarrow> length v = pq_D q"
    and p: "probeCells fl (ix_coarse ix) query nprobe = Some cells"
  shows "\<exists>adc hits. Search fl ix query nprobe rerankK = Some adc \<and>
    SearchRerank fl ix query nprobe topK rerankK fetch = Some hits \<and>
    best (nat topK) ht_Dist (mset (map (rescored fl query fetch) adc)) (mset hits) \<and> sorted (map hit_order hits)"
proof -
  have k': "0 < rerankK" using k by simp
  obtain adc where adc: "Search fl ix query nprobe rerankK = Some adc"
    "best (nat rerankK) ht_Dist (image_mset (hit_of fl ix query) (mset_set (in_cells ix cells))) (mset adc)"
    using Search_facts(1) [OF inv l n p k'] by blast
  have la: "length adc \<le> nat rerankK" using adc(2) by (simp add: best_def)
  have "rescore fl query fetch h = Some (rescored fl query fetch h)" for h
  proof (cases "fetch (hd_Hash (ht_Handle h))")
    case (Some v)
    then obtain d where "sqL2 fl query v = Some d" using sqL2_total [of query v fl] f l by fastforce
    with Some show ?thesis by (simp add: rescore_def rescored_def hit_hash_def)
  qed (simp add: rescore_def rescored_def hit_hash_def)
  then have head: "those (map (rescore fl query fetch) (take (nat rerankK) adc)) = Some (map (rescored fl query fetch) adc)"
    using la those_all [of adc "rescore fl query fetch"] by simp
  let ?hits = "take (nat topK) (sort_key hit_order (map (rescored fl query fetch) adc))"
  have "SearchRerank fl ix query nprobe topK rerankK fetch = Some ?hits"
    using adc(1) head la k by (simp add: SearchRerank_def cut_hits_take)
  moreover have "best (nat topK) ht_Dist (mset (map (rescored fl query fetch) adc)) (mset ?hits)"
    unfolding hit_order_eq by (rule best_sorted_take)
  moreover have "sorted (map hit_order ?hits)" unfolding take_map [symmetric] by (intro sorted_wrt_take) simp
  ultimately show ?thesis using adc(1) by blast
qed

section \<open>Recall\<close>

definition hamming :: "code \<Rightarrow> code \<Rightarrow> nat" where
  "hamming a b = length (filter (\<lambda>(x, y). x \<noteq> y) (zip a b))"

lemma hammingBytes_total: "length a \<le> length b \<Longrightarrow> hammingBytes a b = Some (hamming a b)"
  by (induction a b rule: hammingBytes.induct) (auto simp: hamming_def)

lemma hamming_refl [simp]: "hamming a a = 0"
  by (induction a) (simp_all add: hamming_def)

lemma hamming_zero: "length a = length b \<Longrightarrow> hamming a b = 0 \<longleftrightarrow> a = b"
  by (induction a b rule: list_induct2) (auto simp: hamming_def)

lemma recall_loop_facts:
  assumes "\<forall>pos \<in> set ps. pos < length entries \<and> length code \<le> length (hd_Code (entries ! pos)) \<and>
      adc_sum (pq_K q) table (hd_Code (entries ! pos)) [0..<pq_M q] 0 = Some (dist pos)"
  shows "\<exists>r. recall_loop q entries table code tol ps b = Some r \<and>
    (r = None \<longleftrightarrow> b = None \<and> (\<forall>pos \<in> set ps. int (hamming code (hd_Code (entries ! pos))) > tol)) \<and>
    (\<forall>p d. r = Some (p, d) \<longrightarrow>
      (b = Some (p, d) \<or> p \<in> set ps \<and> int (hamming code (hd_Code (entries ! p))) \<le> tol \<and> d = dist p) \<and>
      (\<forall>pos \<in> set ps. int (hamming code (hd_Code (entries ! pos))) \<le> tol \<longrightarrow> d \<le> dist pos) \<and>
      (\<forall>p0 d0. b = Some (p0, d0) \<longrightarrow> d \<le> d0))"
  using assms
proof (induction ps arbitrary: b)
  case (Cons pos ps)
  let ?b = "case b of None \<Rightarrow> Some (pos, dist pos) | Some (p, bd) \<Rightarrow> if dist pos < bd then Some (pos, dist pos) else b"
  have e: "recall_loop q entries table code tol (pos # ps) b =
      (if int (hamming code (hd_Code (entries ! pos))) > tol then recall_loop q entries table code tol ps b
       else recall_loop q entries table code tol ps ?b)"
    using Cons.prems by (simp add: nth_opt_in hammingBytes_total)
  have p: "\<forall>pos \<in> set ps. pos < length entries \<and> length code \<le> length (hd_Code (entries ! pos)) \<and>
      adc_sum (pq_K q) table (hd_Code (entries ! pos)) [0..<pq_M q] 0 = Some (dist pos)" using Cons.prems by simp
  show ?case
  proof (cases "int (hamming code (hd_Code (entries ! pos))) > tol")
    case True
    then show ?thesis using Cons.IH [OF p, of b] e by auto
  next
    case False
    obtain r where r: "recall_loop q entries table code tol ps ?b = Some r"
      "r \<noteq> None"
      "\<And>p d. r = Some (p, d) \<Longrightarrow>
        (?b = Some (p, d) \<or> p \<in> set ps \<and> int (hamming code (hd_Code (entries ! p))) \<le> tol \<and> d = dist p) \<and>
        (\<forall>pos \<in> set ps. int (hamming code (hd_Code (entries ! pos))) \<le> tol \<longrightarrow> d \<le> dist pos) \<and>
        (\<forall>p0 d0. ?b = Some (p0, d0) \<longrightarrow> d \<le> d0)"
      using Cons.IH [OF p, of ?b] by (auto split: option.splits if_splits)
    obtain p d where pd: "r = Some (p, d)" using r(2) by auto
    have bb: "\<exists>p0 d0. ?b = Some (p0, d0) \<and> d0 \<le> dist pos \<and> (\<forall>p1 d1. b = Some (p1, d1) \<longrightarrow> d0 \<le> d1) \<and>
        (?b = b \<or> p0 = pos \<and> d0 = dist pos)"
      by (auto split: option.splits)
    then obtain p0 d0 where p0: "?b = Some (p0, d0)" "d0 \<le> dist pos" "\<forall>p1 d1. b = Some (p1, d1) \<longrightarrow> d0 \<le> d1"
      "?b = b \<or> p0 = pos \<and> d0 = dist pos" by blast
    have "d \<le> d0" using r(3) [OF pd] p0(1) by blast
    then have le: "d \<le> dist pos" "\<forall>p1 d1. b = Some (p1, d1) \<longrightarrow> d \<le> d1" using p0(2,3) by (auto intro: order_trans)
    have "b = Some (p, d) \<or> p \<in> set (pos # ps) \<and> int (hamming code (hd_Code (entries ! p))) \<le> tol \<and> d = dist p"
      using r(3) [OF pd] p0(1,4) False by auto
    then show ?thesis using r(1) r(3) [OF pd] pd le False e by auto
  qed
qed simp

text \<open>The stored positions that count as known at resolution \<open>tol\<close>: those of the vector's cell whose code
  differs in at most \<open>tol\<close> places.\<close>

definition similar :: "'f index \<Rightarrow> handle \<Rightarrow> int \<Rightarrow> nat set" where
  "similar ix h tol = {p. p < length (ix_entries ix) \<and> hd_Cell (ix_entries ix ! p) = hd_Cell h \<and>
     int (hamming (hd_Code h) (hd_Code (ix_entries ix ! p))) \<le> tol}"

lemma Recall_facts:
  assumes inv: "index_inv q ix" and l: "length v = pq_D q"
  shows "\<exists>h. encode_handle fl ix v = Some h \<and>
    (if similar ix h tol = {} then Recall fl ix v tol = Some None
     else \<exists>p \<in> similar ix h tol. Recall fl ix v tol = Some (Some (ix_entries ix ! p)) \<and>
       (\<forall>p' \<in> similar ix h tol. the (adc_dist fl ix v p) \<le> the (adc_dist fl ix v p')))"
proof -
  note i = inv [unfolded index_inv_def]
  obtain h where h: "encode_handle fl ix v = Some h" "code_ok q (hd_Code h)" "unat (hd_Cell h) < length (ix_coarse ix)"
    "nearest fl (ix_coarse ix) v = Some (unat (hd_Cell h))"
    using encode_handle_total [OF inv l] by blast
  let ?c = "unat (hd_Cell h)"
  obtain n where n: "pq_K q \<le> n" "has_books n q" using i by blast
  obtain r where r: "sub v (ix_coarse ix ! ?c) = Some r" "length r = pq_D q"
    using sub_total [of v "ix_coarse ix ! ?c"] dims_nth [of "pq_D q" "ix_coarse ix", OF _ h(3)] i l by auto
  have "\<exists>code. pq_Encode fl q r = Some code \<and> \<lparr>hd_Hash = hashVec fl v, hd_Cell = hd_Cell h, hd_Code = code\<rparr> = h"
    using h(1,3,4) r(1) i by (auto simp: encode_handle_def nth_opt_in split: Option.bind_splits)
  then have code: "pq_Encode fl q r = Some (hd_Code h)" by (metis handle.select_convs(3))
  obtain table where table: "buildADCTable fl q r = Some table" "length table = pq_M q * pq_K q"
    using buildADCTable_total [OF n(2,1) r(2)] by blast
  define ps where "ps = ix_lists ix ! ?c"
  have ps: "set ps = {p. p < length (ix_entries ix) \<and> hd_Cell (ix_entries ix ! p) = hd_Cell h}"
    using i h(3) by (auto simp: ps_def unsigned_word_eqI)
  have nps: "nth_opt (ix_lists ix) ?c = Some ps" using i h(3) by (simp add: nth_opt_in ps_def)
  let ?d = "\<lambda>p. the (adc_dist fl ix v p)"
  have adc: "adc_dist fl ix v p = adc_sum (pq_K q) table (hd_Code (ix_entries ix ! p)) [0..<pq_M q] 0" if "p \<in> set ps" for p
    using that ps h(3) r(1) table(1) i by (simp add: adc_dist_def nth_opt_in)
  have ok: "\<forall>p \<in> set ps. p < length (ix_entries ix) \<and> length (hd_Code h) \<le> length (hd_Code (ix_entries ix ! p)) \<and>
      adc_sum (pq_K q) table (hd_Code (ix_entries ix ! p)) [0..<pq_M q] 0 = Some (?d p)"
  proof
    fix p assume p: "p \<in> set ps"
    then have "code_ok q (hd_Code (ix_entries ix ! p))" using ps i by auto
    then show "p < length (ix_entries ix) \<and> length (hd_Code h) \<le> length (hd_Code (ix_entries ix ! p)) \<and>
      adc_sum (pq_K q) table (hd_Code (ix_entries ix ! p)) [0..<pq_M q] 0 = Some (?d p)"
      using p ps h(2) adc [OF p] adc_sum_total [OF _ table(2), of "hd_Code (ix_entries ix ! p)" "[0..<pq_M q]" 0]
      by (auto simp: code_ok_def)
  qed
  have sim: "similar ix h tol = {p \<in> set ps. int (hamming (hd_Code h) (hd_Code (ix_entries ix ! p))) \<le> tol}"
    by (auto simp: similar_def ps)
  obtain b where b: "recall_loop q (ix_entries ix) table (hd_Code h) tol ps None = Some b"
    "b = None \<longleftrightarrow> similar ix h tol = {}"
    "\<And>p d. b = Some (p, d) \<Longrightarrow> p \<in> similar ix h tol \<and> d = ?d p \<and> (\<forall>p' \<in> similar ix h tol. d \<le> ?d p')"
    using recall_loop_facts [OF ok, of tol None] unfolding sim by fastforce
  have rec: "Recall fl ix v tol = (case b of None \<Rightarrow> Some None | Some (pos, _) \<Rightarrow> map_option Some (nth_opt (ix_entries ix) pos))"
    using h(3,4) r(1) code table(1) nps b(1) i by (simp add: Recall_def nth_opt_in)
  show ?thesis
  proof (cases b)
    case None
    then show ?thesis using h(1) b(2) rec by auto
  next
    case (Some x)
    obtain p d where x: "x = (p, d)" by fastforce
    have p: "p \<in> similar ix h tol" "\<forall>p' \<in> similar ix h tol. ?d p \<le> ?d p'" using b(3) Some x by auto
    then have "p < length (ix_entries ix)" by (simp add: similar_def)
    then have "Recall fl ix v tol = Some (Some (ix_entries ix ! p))" using rec Some x by (simp add: nth_opt_in)
    then show ?thesis using h(1) p by auto
  qed
qed

section \<open>The life of an index\<close>

lemma Train_inv:
  fixes fl :: "('f::{linorder,plus,minus,zero}, 'g::{linorder,zero,plus,minus,times}) floats" and ix0 :: "'f index"
  assumes "New_index c = Inr ix0" and "good_random ra" and "learn \<noteq> []" and "dims (nat (cf_Dim c)) learn"
    and "cf_K c \<le> int (sampled (to_PQSample (cf_Train c)) (length learn))" and "cf_Nlist c < 2 ^ 32"
  shows "\<exists>q ix. Train_index fl ra learn ix0 = Some (Inr ix) \<and> index_inv q ix \<and> pq_D q = nat (cf_Dim c) \<and>
    ix_entries ix = [] \<and> ix_cfg ix = c"
proof -
  have c: "0 < cf_Dim c" "0 < cf_M c" "cf_Dim c mod cf_M c = 0" "0 < cf_K c" "cf_K c \<le> 256" "0 < cf_Nlist c" "0 < cf_Iter c"
    and ix0: "ix0 = \<lparr>ix_cfg = c, ix_coarse = [], ix_pq = None, ix_entries = [], ix_lists = [],
                ix_byHash = Map.empty, ix_byCode = Map.empty\<rparr>"
    using assms(1) by (auto simp: New_index_def split: if_splits)
  obtain q0 :: "'f pq" where q0: "pq_New (nat (cf_Dim c)) (cf_M c) (cf_K c) = Inr q0" "pq_K q0 = nat (cf_K c)"
    using c by (auto simp: pq_New_def)
  obtain coarse q where t: "trainResidual fl ra learn (nat (cf_Nlist c)) (cf_M c) (cf_K c) (nat (cf_Iter c)) (cf_Seed c) (cf_Train c)
      = Some (Inr (coarse, q))"
    "length coarse = min (nat (cf_Nlist c)) (sampled (to_CoarseSample (cf_Train c)) (length learn))" "dims (nat (cf_Dim c)) coarse"
    "has_books (min (pq_K q0) (sampled (to_PQSample (cf_Train c)) (length learn))) q" "pq_K q = pq_K q0" "pq_D q = nat (cf_Dim c)"
    using trainResidual_shape [OF assms(2) q0(1) assms(4,3), of "nat (cf_Nlist c)" fl "nat (cf_Iter c)" "cf_Seed c" "cf_Train c"] c
    by auto
  have "0 < sampled (to_CoarseSample (cf_Train c)) (length learn)" using assms(3) by (auto simp: sampled_def)
  then have lc: "coarse \<noteq> []" "length coarse < 2 ^ 32" using t(2) c assms(6) by (auto simp: min_def split: if_splits)
  have k: "pq_K q \<le> min (pq_K q0) (sampled (to_PQSample (cf_Train c)) (length learn))"
    using assms(5) q0(2) t(5) by simp
  define ix where "ix = ix0\<lparr>ix_coarse := coarse, ix_pq := Some q, ix_lists := replicate (length coarse) []\<rparr>"
  have hb: "\<exists>n \<ge> pq_K q. has_books n q" using k t(4) by blast
  have "Train_index fl ra learn ix0 = Some (Inr ix)"
    using t(1) assms(3) by (simp add: Train_index_def Let_def ix0 ix_def)
  moreover have "index_inv q ix" using t(3,6) lc hb unfolding index_inv_def ix_def ix0 by simp
  ultimately show ?thesis using t(6) by (intro exI [of _ q] exI [of _ ix]) (simp add: ix_def ix0)
qed

fun Adds :: "('f::minus, 'g::{linorder,zero,plus,minus,times}) floats \<Rightarrow> 'f vec list list \<Rightarrow> 'f index \<Rightarrow> 'f index option" where
  "Adds fl [] ix = Some ix"
| "Adds fl (b # bs) ix = do { (ix', _) \<leftarrow> Add fl b ix; Adds fl bs ix' }"

lemma set_fresh: "hd_Hash ` set (fresh S hs) = hd_Hash ` set hs - S"
  by (induction S hs rule: fresh.induct) auto

lemma Adds_inv:
  assumes "index_inv q ix" and "\<forall>b \<in> set bs. dims (pq_D q) b"
  shows "\<exists>ix'. Adds fl bs ix = Some ix' \<and> index_inv q ix' \<and> same_quantizer ix ix' \<and>
    hd_Hash ` set (ix_entries ix') = hd_Hash ` set (ix_entries ix) \<union> hashVec fl ` set (concat bs)"
  using assms
proof (induction bs arbitrary: ix)
  case (Cons b bs)
  obtain hs ix1 rs where 1: "map hd_Hash hs = map (hashVec fl) b" "Add fl b ix = Some (ix1, rs)" "index_inv q ix1"
    "same_quantizer ix ix1" "ix_entries ix1 = ix_entries ix @ fresh (hd_Hash ` set (ix_entries ix)) hs"
    using Add_facts [OF Cons.prems(1), of b fl] Cons.prems(2) by auto
  have "hd_Hash ` set hs = hashVec fl ` set b" using arg_cong [OF 1(1), of set] by simp
  then have s: "hd_Hash ` set (ix_entries ix1) = hd_Hash ` set (ix_entries ix) \<union> hashVec fl ` set b"
    using 1(5) set_fresh [of "hd_Hash ` set (ix_entries ix)" hs] by (auto simp: image_Un)
  obtain ix' where "Adds fl bs ix1 = Some ix'" "index_inv q ix'" "same_quantizer ix1 ix'"
    "hd_Hash ` set (ix_entries ix') = hd_Hash ` set (ix_entries ix1) \<union> hashVec fl ` set (concat bs)"
    using Cons.IH [OF 1(3)] Cons.prems(2) by auto
  then show ?case using 1(2) s same_quantizer_trans [OF 1(4)] by (auto simp: image_Un)
qed (simp add: same_quantizer_def)

lemma Load_Save:
  assumes "index_inv q ix"
  shows "Load_index (Some (Save_index ix)) = Inr ix"
proof -
  have "rebuild 0 (ix_entries ix) (Map.empty, Map.empty) = (ix_byHash ix, ix_byCode ix)"
    using assms by (simp add: index_inv_def)
  then show ?thesis by (simp add: Load_index_def Save_index_def Let_def)
qed

section \<open>Schedules\<close>

lemma chunks_concat:
  assumes "0 < w"
  shows "concat (chunks w n) = [0..<n]"
proof -
  define c where "c = (n + w - 1) div w"
  have cov: "n \<le> w * c"
  proof -
    have "n + w - 1 = c * w + (n + w - 1) mod w" unfolding c_def by simp
    moreover have "(n + w - 1) mod w < w" using assms by simp
    ultimately have "n \<le> c * w" using assms by linarith
    then show ?thesis by (simp add: mult.commute)
  qed
  have "concat (map (\<lambda>j. [j * c ..< min (j * c + c) n]) (takeWhile (\<lambda>j. j * c < n) [0..<k])) = [0..<min (k * c) n]" for k
  proof (induction k)
    case (Suc k)
    show ?case
    proof (cases "k * c < n")
      case True
      have "j * c < n" if "j < Suc k" for j
        using that True by (metis less_Suc_eq_le mult_le_mono1 order_le_less_trans)
      then have t: "takeWhile (\<lambda>j. j * c < n) [0..<Suc k] = [0..<Suc k]" "takeWhile (\<lambda>j. j * c < n) [0..<k] = [0..<k]"
        by (simp_all add: takeWhile_eq_all_conv)
      have "concat (map (\<lambda>j. [j * c ..< min (j * c + c) n]) [0..<k]) = [0..<k * c]"
        using Suc.IH True unfolding t by simp
      then show ?thesis
        unfolding t using True upt_add_eq_append [of 0 "k * c" "min (k * c + c) n - k * c"] by (simp add: add.commute)
    next
      case False
      then have "takeWhile (\<lambda>j. j * c < n) [0..<Suc k] = takeWhile (\<lambda>j. j * c < n) [0..<k]"
        by (simp add: takeWhile_tail)
      then show ?thesis using Suc.IH False by simp
    qed
  qed simp
  from this [of w] show ?thesis
    unfolding chunks_def c_def [symmetric] Let_def using cov by (simp only: min.absorb2)
qed

lemma nth_fill: "i < length out \<Longrightarrow> fill f order out ! i = (if i \<in> set order then f i else out ! i)"
  unfolding fill_def by (induction order arbitrary: out) (auto simp: nth_list_update)

lemma length_fill [simp]: "length (fill f order out) = length out"
  unfolding fill_def by (induction order arbitrary: out) simp_all

lemma fill_all: "set order = {..<n} \<Longrightarrow> length out = n \<Longrightarrow> fill f order out = map f [0..<n]"
  by (intro nth_equalityI) (simp_all add: nth_fill)

definition Ntotal :: "'f index \<Rightarrow> nat" where
  "Ntotal ix = length (ix_entries ix)"

section \<open>An index to compute with\<close>

definition ex_fl :: "(int, int) floats" where
  "ex_fl = \<lparr>f64 = (\<lambda>x. x), f32 = (\<lambda>x. x), maxFloat64 = 1000000, inverse_count = (\<lambda>n. 1), float32bits = word_of_int\<rparr>"

definition ex_random :: "(int, nat) random" where
  "ex_random = \<lparr>rnd_new = nat, rnd_Intn = (\<lambda>n r. (r mod n, r + 1)), rnd_Float64 = (\<lambda>r. (0, r))\<rparr>"

definition ex_pq :: "int pq" where
  "ex_pq = \<lparr>pq_D = 1, pq_M = 1, pq_K = 2, pq_Dsub = 1, pq_Codebooks = [[[0], [3]]]\<rparr>"

definition ex_config :: config where
  "ex_config = \<lparr>cf_Dim = 1, cf_Nlist = 2, cf_M = 1, cf_K = 2, cf_Iter = 1, cf_Seed = 1,
     cf_Train = \<lparr>to_CoarseIter = 0, to_CoarseSample = 0, to_PQSample = 0\<rparr>\<rparr>"

definition ex_ix :: "int index" where
  "ex_ix = \<lparr>ix_cfg = ex_config, ix_coarse = [[0], [10]], ix_pq = Some ex_pq,
     ix_entries = [\<lparr>hd_Hash = 7, hd_Cell = 0, hd_Code = [0]\<rparr>, \<lparr>hd_Hash = 8, hd_Cell = 0, hd_Code = [1]\<rparr>,
                   \<lparr>hd_Hash = 9, hd_Cell = 1, hd_Code = [0]\<rparr>],
     ix_lists = [[0, 1], [2]],
     ix_byHash = [7 \<mapsto> 0, 8 \<mapsto> 1, 9 \<mapsto> 2],
     ix_byCode = [codeKey 0 [0] \<mapsto> 0, codeKey 0 [1] \<mapsto> 1, codeKey 1 [0] \<mapsto> 2]\<rparr>"

lemma ex_inv: "index_inv ex_pq ex_ix"
proof -
  have "has_books 2 ex_pq" by (simp add: has_books_def ex_pq_def)
  then have "\<exists>n \<ge> pq_K ex_pq. has_books n ex_pq" by (intro exI [of _ 2]) (simp add: ex_pq_def)
  then show ?thesis unfolding index_inv_def by (simp add: ex_ix_def ex_pq_def code_ok_def less_Suc_eq all_conj_distrib numeral_3_eq_3)
    (simp add: numeral_2_eq_2)
qed

lemma ex_upt: "[0..<2] = [0, 1 :: nat]"
  by (simp add: upt_rec)

lemma ex_good: "good_random ex_random"
  by (simp add: good_random_def ex_random_def)

lemma ex_probe: "probeCells ex_fl (ix_coarse ex_ix) [2] 1 = Some [0]"
  by (simp add: probeCells_def ex_ix_def ex_fl_def sqL2_def)

section \<open>Properties\<close>

text \<open>C39. A search is exact over what it probes: the probed cells are the nprobe nearest to the query, ties
  to the lower index; the answer holds topK (or all) of the vectors stored in them, each once, at
  its distance as computed from the table, sorted by that distance, and none left out is nearer
  than one returned. Without room (topK at most zero) a search that meets a candidate panics.\<close>
theorem Search_nearest:
  assumes "index_inv q ix" and "length query = pq_D q" and "0 \<le> nprobe"
  shows "\<exists>cells. probeCells fl (ix_coarse ix) query nprobe = Some cells \<and>
    length cells = min (nat nprobe) (length (ix_coarse ix)) \<and>
    (\<forall>c \<in> set cells. \<forall>c' < length (ix_coarse ix). c' \<notin> set cells \<longrightarrow>
       (cell_dist fl (ix_coarse ix) query c, c) \<le> (cell_dist fl (ix_coarse ix) query c', c')) \<and>
    (if 0 < topK
     then \<exists>hits. Search fl ix query nprobe topK = Some hits \<and>
       best (nat topK) ht_Dist (image_mset (hit_of fl ix query) (mset_set (in_cells ix cells))) (mset hits) \<and>
       sorted (map ht_Dist hits) \<and> distinct (map hit_hash hits)
     else Search fl ix query nprobe topK = (if in_cells ix cells = {} then Some [] else None))"
proof -
  obtain cells where c: "probeCells fl (ix_coarse ix) query nprobe = Some cells"
    "length cells = min (nat nprobe) (length (ix_coarse ix))"
    "\<forall>c \<in> set cells. \<forall>c' < length (ix_coarse ix). c' \<notin> set cells \<longrightarrow>
       (cell_dist fl (ix_coarse ix) query c, c) \<le> (cell_dist fl (ix_coarse ix) query c', c')"
    using probeCells_total [of "pq_D q" "ix_coarse ix" query nprobe fl] assms by (auto simp: index_inv_def)
  then show ?thesis using Search_facts [OF assms c(1), of topK] by auto
qed

theorem Search_nearest_witness:
  "Search ex_fl ex_ix [2] 1 0 = None \<and>
   (\<exists>hits. Search ex_fl ex_ix [2] 1 1 = Some hits \<and> map ht_Dist hits = [1])"
proof -
  have c: "in_cells ex_ix [0] = {0, 1}" by (auto simp: in_cells_def ex_ix_def less_Suc_eq numeral_3_eq_3)
  have h: "hit_of ex_fl ex_ix [2] 0 = \<lparr>ht_Handle = \<lparr>hd_Hash = 7, hd_Cell = 0, hd_Code = [0]\<rparr>, ht_Dist = 4\<rparr>"
    "hit_of ex_fl ex_ix [2] (Suc 0) = \<lparr>ht_Handle = \<lparr>hd_Hash = 8, hd_Cell = 0, hd_Code = [1]\<rparr>, ht_Dist = 1\<rparr>"
    by (simp_all add: hit_of_def adc_dist_def ex_ix_def ex_pq_def ex_fl_def nth_opt_def buildADCTable_def slice_of_def sqL2_def ex_upt)
  have l: "length [2 :: int] = pq_D ex_pq" by (simp add: ex_pq_def)
  obtain hits where hits: "Search ex_fl ex_ix [2] 1 1 = Some hits"
    "best 1 ht_Dist (image_mset (hit_of ex_fl ex_ix [2]) (mset_set (in_cells ex_ix [0]))) (mset hits)"
    using Search_nearest [OF ex_inv l, where nprobe = 1 and fl = ex_fl and topK = 1] ex_probe by auto
  have b: "sort (map ht_Dist hits) = [1]"
    using best_keys [where us = "[hit_of ex_fl ex_ix [2] 0, hit_of ex_fl ex_ix [2] 1]", of 1 ht_Dist hits] hits(2)
    unfolding c by (simp add: h)
  have "length hits = 1" using arg_cong [OF b, of length] by simp
  then have "map ht_Dist hits = [1]" using b by (auto simp: length_Suc_conv)
  moreover have "Search ex_fl ex_ix [2] 1 0 = None"
  proof -
    obtain cells where x: "probeCells ex_fl (ix_coarse ex_ix) [2] 1 = Some cells"
      "Search ex_fl ex_ix [2] 1 0 = (if in_cells ex_ix cells = {} then Some [] else None)"
      using Search_nearest [OF ex_inv l zero_le_one, where fl = ex_fl and topK = 0]
      by (simp only: less_irrefl if_False) blast
    have "cells = [0]" using x(1) unfolding ex_probe by (simp only: option.inject)
    then show ?thesis using x(2) c by (simp only: insert_not_empty if_False)
  qed
  ultimately show ?thesis using hits(1) by (intro conjI exI [of _ hits])
qed

text \<open>The exact tier loses nothing: with topK plus one candidate per resident fetched, the answer is a
  choice of the topK nearest among the probed vectors that are not resident, at their table
  distances, and all indexed residents, whatever their cell, at their exact distances; it is sorted by
  distance and then hash, has no vector twice, and does not depend on the order in which the map of
  residents is iterated.\<close>
theorem SearchTiered_exact:
  assumes "index_inv q ix" and "length query = pq_D q" and "0 \<le> nprobe" and "0 < topK"
    and "tier \<noteq> []" and "distinct (map fst tier)" and "dims (pq_D q) (map snd tier)"
  shows "\<exists>cells hits. probeCells fl (ix_coarse ix) query nprobe = Some cells \<and>
    SearchTiered fl ix query nprobe topK tier = Some hits \<and>
    best (nat topK) ht_Dist
      (image_mset (hit_of fl ix query) (mset_set {p \<in> in_cells ix cells. hd_Hash (ix_entries ix ! p) \<notin> fst ` set tier}) +
       mset (map (exact_hit fl ix query) (residents ix tier))) (mset hits) \<and>
    sorted (map hit_order hits) \<and> distinct (map hit_hash hits) \<and>
    (\<forall>tier'. mset tier' = mset tier \<longrightarrow> SearchTiered fl ix query nprobe topK tier' = Some hits)"
proof -
  obtain cells where "probeCells fl (ix_coarse ix) query nprobe = Some cells"
    using probeCells_total [of "pq_D q" "ix_coarse ix" query nprobe fl] assms by (auto simp: index_inv_def)
  with SearchTiered_facts [OF assms this] show ?thesis by blast
qed

theorem SearchTiered_exact_witness:
  "\<exists>hits. SearchTiered ex_fl ex_ix [2] 1 1 [(9, [2])] = Some hits \<and> map ht_Dist hits = [0]"
proof -
  have l: "length [2 :: int] = pq_D ex_pq" "dims (pq_D ex_pq) (map snd [(9 :: u64, [2 :: int])])" by (simp_all add: ex_pq_def)
  have c: "{p \<in> in_cells ex_ix [0]. hd_Hash (ix_entries ex_ix ! p) \<notin> fst ` set [(9 :: u64, [2 :: int])]} = {0, Suc 0}"
    by (auto simp: in_cells_def ex_ix_def less_Suc_eq numeral_3_eq_3)
  have h: "ht_Dist (hit_of ex_fl ex_ix [2] 0) = 4" "ht_Dist (hit_of ex_fl ex_ix [2] (Suc 0)) = 1"
    by (simp_all add: hit_of_def adc_dist_def ex_ix_def ex_pq_def ex_fl_def nth_opt_def buildADCTable_def slice_of_def sqL2_def ex_upt)
  have e: "map (exact_hit ex_fl ex_ix [2]) (residents ex_ix [(9, [2])]) = [\<lparr>ht_Handle = \<lparr>hd_Hash = 9, hd_Cell = 1, hd_Code = [0]\<rparr>, ht_Dist = 0\<rparr>]"
    by (simp add: residents_def exact_hit_def ex_ix_def ex_fl_def sqL2_def)
  have t: "[(9 :: u64, [2 :: int])] \<noteq> []" "distinct (map fst [(9 :: u64, [2 :: int])])" by simp_all
  obtain cells hits where x: "probeCells ex_fl (ix_coarse ex_ix) [2] 1 = Some cells"
    "SearchTiered ex_fl ex_ix [2] 1 1 [(9, [2])] = Some hits"
    "best (nat 1) ht_Dist (image_mset (hit_of ex_fl ex_ix [2])
         (mset_set {p \<in> in_cells ex_ix cells. hd_Hash (ix_entries ex_ix ! p) \<notin> fst ` set [(9 :: u64, [2 :: int])]}) +
       mset (map (exact_hit ex_fl ex_ix [2]) (residents ex_ix [(9, [2])]))) (mset hits)"
    using SearchTiered_exact [OF ex_inv l(1) zero_le_one zero_less_one t l(2), where fl = ex_fl] by blast
  have "cells = [0]" using x(1) unfolding ex_probe by (simp only: option.inject)
  note hits = x(2) x(3) [unfolded this c]
  have b: "sort (map ht_Dist hits) = [0]"
    using best_keys [where us = "map (exact_hit ex_fl ex_ix [2]) (residents ex_ix [(9, [2])]) @
      [hit_of ex_fl ex_ix [2] 0, hit_of ex_fl ex_ix [2] (Suc 0)]", of 1 ht_Dist hits] hits(2)
    unfolding e by (simp add: h)
  have "length hits = 1" using arg_cong [OF b, of length] by simp
  then have "map ht_Dist hits = [0]" using b by (auto simp: length_Suc_conv)
  then show ?thesis using hits(1) by (intro exI [of _ hits] conjI)
qed

lemma best_dists_eq:
  assumes "best k ht_Dist U (mset a)" and "best k ht_Dist U (mset b)" and "sorted (map ht_Dist a)" and "sorted (map ht_Dist b)"
  shows "map ht_Dist a = map ht_Dist b"
proof -
  obtain us where "U = mset us" by (metis ex_mset)
  then have "sort (map ht_Dist a) = sort (map ht_Dist b)" using best_keys assms(1,2) by metis
  then show ?thesis using assms(3,4) by (simp add: sorted_sort_id)
qed

lemma sorted_hit_order: "sorted (map hit_order hits) \<Longrightarrow> sorted (map ht_Dist hits)"
  unfolding sorted_map hit_order_eq by (erule sorted_wrt_mono_rel [rotated]) (auto simp: less_eq_prod_def)

text \<open>Re-ranking: with rerankK at least topK, the answer is the topK best of the rerankK nearest
  candidates after those with an original were scored exactly, sorted by distance and then hash; when
  no original can be fetched its distances are those of the plain search.\<close>
theorem SearchRerank_exact:
  assumes "index_inv q ix" and "length query = pq_D q" and "0 \<le> nprobe" and "0 < topK" and "topK \<le> rerankK"
    and "\<forall>hash v. fetch hash = Some v \<longrightarrow> length v = pq_D q"
  shows "\<exists>adc hits plain. Search fl ix query nprobe rerankK = Some adc \<and> Search fl ix query nprobe topK = Some plain \<and>
    SearchRerank fl ix query nprobe topK rerankK fetch = Some hits \<and>
    best (nat topK) ht_Dist (mset (map (rescored fl query fetch) adc)) (mset hits) \<and> sorted (map hit_order hits) \<and>
    ((\<forall>hash. fetch hash = None) \<longrightarrow> map ht_Dist hits = map ht_Dist plain)"
proof -
  obtain cells where p: "probeCells fl (ix_coarse ix) query nprobe = Some cells"
    using probeCells_total [of "pq_D q" "ix_coarse ix" query nprobe fl] assms(1-3) by (auto simp: index_inv_def)
  let ?U = "image_mset (hit_of fl ix query) (mset_set (in_cells ix cells))"
  have k: "0 < rerankK" using assms(4,5) by simp
  obtain adc hits where a: "Search fl ix query nprobe rerankK = Some adc"
    "SearchRerank fl ix query nprobe topK rerankK fetch = Some hits"
    "best (nat topK) ht_Dist (mset (map (rescored fl query fetch) adc)) (mset hits)" "sorted (map hit_order hits)"
    using SearchRerank_facts [OF assms p] by blast
  obtain plain where pl: "Search fl ix query nprobe topK = Some plain" "best (nat topK) ht_Dist ?U (mset plain)"
    "sorted (map ht_Dist plain)"
    using Search_facts(1) [OF assms(1-3) p assms(4)] by blast
  have ba: "best (nat rerankK) ht_Dist ?U (mset adc)"
    using Search_facts(1) [OF assms(1-3) p k] a(1) by auto
  have "map ht_Dist hits = map ht_Dist plain" if "\<forall>hash. fetch hash = None"
  proof -
    have "map (rescored fl query fetch) adc = adc" using that by (simp add: rescored_def map_idI)
    then have "best (nat topK) ht_Dist (mset adc) (mset hits)" using a(3) by simp
    then have "best (nat topK) ht_Dist ?U (mset hits)"
      by (rule best_best [OF ba]) (use assms(5) in simp)
    then show ?thesis using best_dists_eq pl(2,3) sorted_hit_order [OF a(4)] by blast
  qed
  then show ?thesis using a pl(1) by blast
qed

theorem SearchRerank_exact_witness:
  "\<exists>hits. SearchRerank ex_fl ex_ix [2] 1 1 2 (\<lambda>h. if h = 7 then Some [2] else None) = Some hits \<and> length hits \<le> 1"
proof -
  have l: "length [2 :: int] = pq_D ex_pq" by (simp add: ex_pq_def)
  let ?fetch = "\<lambda>h :: u64. if h = 7 then Some [2 :: int] else None"
  have f: "\<forall>hash v. ?fetch hash = Some v \<longrightarrow> length v = pq_D ex_pq"
    by (auto simp: ex_pq_def split: if_splits)
  obtain adc hits where "SearchRerank ex_fl ex_ix [2] 1 1 2 ?fetch = Some hits"
    "best (nat 1) ht_Dist (mset (map (rescored ex_fl [2] ?fetch) adc)) (mset hits)"
    using SearchRerank_exact [OF ex_inv l zero_le_one zero_less_one one_le_numeral f, where fl = ex_fl] by blast
  then show ?thesis by (intro exI [of _ hits]) (simp add: best_def)
qed

text \<open>Recall answers whether something like a vector is known: it finds nothing exactly when no stored
  vector of the same cell has a code within tol places of the vector's, and else answers one of
  those with the smallest table distance; a vector just inserted is known at every tolerance, and at
  tolerance zero what is answered has its cell and its very code.\<close>
theorem Recall_knows:
  assumes "index_inv q ix" and "length v = pq_D q"
  shows "\<exists>h ix' r. encode_handle fl ix v = Some h \<and>
    (if similar ix h tol = {} then Recall fl ix v tol = Some None
     else \<exists>p \<in> similar ix h tol. Recall fl ix v tol = Some (Some (ix_entries ix ! p)) \<and>
       (\<forall>p' \<in> similar ix h tol. the (adc_dist fl ix v p) \<le> the (adc_dist fl ix v p'))) \<and>
    Add fl [v] ix = Some (ix', [r]) \<and>
    (ar_Status r = Inserted \<and> 0 \<le> tol \<longrightarrow> (\<exists>e. Recall fl ix' v tol = Some (Some e) \<and> hd_Cell e = hd_Cell h \<and>
       (tol = 0 \<longrightarrow> hd_Code e = hd_Code h)))"
proof -
  obtain h where h: "encode_handle fl ix v = Some h"
    "if similar ix h tol = {} then Recall fl ix v tol = Some None
     else \<exists>p \<in> similar ix h tol. Recall fl ix v tol = Some (Some (ix_entries ix ! p)) \<and>
       (\<forall>p' \<in> similar ix h tol. the (adc_dist fl ix v p) \<le> the (adc_dist fl ix v p'))"
    using Recall_facts [OF assms, of fl tol] by blast
  have "dims (pq_D q) [v]" using assms(2) by simp
  from Add_facts [OF assms(1) this, of fl] h(1)
  obtain ix' rs where a: "Add fl [v] ix = Some (ix', rs)" "index_inv q ix'" "same_quantizer ix ix'" "length rs = 1"
    "ix_entries ix' = ix_entries ix @ fresh (hd_Hash ` set (ix_entries ix)) [h]"
    "result_ok (hd_Hash ` set (ix_entries ix)) (ix_entries ix') h (rs ! 0)"
    by auto
  obtain r where r: "rs = [r]" using a(4) by (auto simp: length_Suc_conv)
  have "\<exists>e. Recall fl ix' v tol = Some (Some e) \<and> hd_Cell e = hd_Cell h \<and> (tol = 0 \<longrightarrow> hd_Code e = hd_Code h)"
    if "ar_Status r = Inserted" "0 \<le> tol"
  proof -
    have e': "encode_handle fl ix' v = Some h" using h(1) a(3) by (simp add: encode_handle_def same_quantizer_def)
    have "hd_Hash h \<notin> hd_Hash ` set (ix_entries ix)" using a(6) that(1) r by (auto simp: result_ok_def split: if_splits)
    then have en: "ix_entries ix' = ix_entries ix @ [h]" using a(5) by simp
    have "length (ix_entries ix) \<in> similar ix' h tol" using en that(2) by (simp add: similar_def)
    then have "similar ix' h tol \<noteq> {}" by blast
    then obtain p where p: "p \<in> similar ix' h tol" "Recall fl ix' v tol = Some (Some (ix_entries ix' ! p))"
      using Recall_facts [OF a(2) assms(2), of fl tol] unfolding e' by auto
    have "\<forall>e \<in> set (ix_entries ix'). code_ok q (hd_Code e)" using a(2) by (simp add: index_inv_def)
    moreover have "ix_entries ix' ! p \<in> set (ix_entries ix')" using p(1) by (simp add: similar_def)
    moreover have "h \<in> set (ix_entries ix')" by (simp add: en)
    ultimately have "code_ok q (hd_Code (ix_entries ix' ! p))" "code_ok q (hd_Code h)" by blast+
    then have "length (hd_Code h) = length (hd_Code (ix_entries ix' ! p))" by (simp add: code_ok_def)
    then show ?thesis using p hamming_zero [of "hd_Code h"] by (auto simp: similar_def)
  qed
  then show ?thesis using h a(1) r by blast
qed

theorem Recall_knows_witness:
  "\<exists>p < 3. Recall ex_fl ex_ix [4] 1 = Some (Some (ix_entries ex_ix ! p))"
proof -
  have l: "length [4 :: int] = pq_D ex_pq" by (simp add: ex_pq_def)
  have h: "encode_handle ex_fl ex_ix [4] = Some \<lparr>hd_Hash = hashVec ex_fl [4], hd_Cell = 0, hd_Code = [1]\<rparr>"
    by (simp add: encode_handle_def nearest_def ex_ix_def ex_pq_def ex_fl_def sqL2_def nth_opt_def pq_Encode_def slice_of_def ex_upt)
  let ?h = "\<lparr>hd_Hash = hashVec ex_fl [4], hd_Cell = 0, hd_Code = [1]\<rparr>"
  have "(0 :: nat) \<in> similar ex_ix ?h 1" by (simp add: similar_def ex_ix_def hamming_def)
  then have ne: "similar ex_ix ?h 1 \<noteq> {}" by blast
  obtain p where "p \<in> similar ex_ix ?h 1" "Recall ex_fl ex_ix [4] 1 = Some (Some (ix_entries ex_ix ! p))"
    using Recall_knows [OF ex_inv l, of ex_fl 1] ne unfolding h by auto
  moreover have "length (ix_entries ex_ix) = 3" by (simp add: ex_ix_def)
  ultimately show ?thesis by (intro exI [of _ p]) (simp add: similar_def)
qed



text \<open>The parallel encoding does not show: for any number of workers the chunks cover every index exactly
  once, and in whatever order their slots are filled, the result is that of the serial loop.\<close>
theorem Add_any_schedule:
  assumes "0 < workers" and "mset order = mset (concat (chunks workers (length vecs)))"
  shows "concat (chunks workers (length vecs)) = [0..<length vecs] \<and>
    those (fill (\<lambda>i. encode_handle fl ix (vecs ! i)) order (replicate (length vecs) None)) =
    those (map (encode_handle fl ix) vecs)"
proof -
  have c: "concat (chunks workers (length vecs)) = [0..<length vecs]" by (rule chunks_concat [OF assms(1)])
  then have "set order = {..<length vecs}" using assms(2) by (metis atLeast_upt mset_eq_setD)
  then have "fill (\<lambda>i. encode_handle fl ix (vecs ! i)) order (replicate (length vecs) None) =
      map (\<lambda>i. encode_handle fl ix (vecs ! i)) [0..<length vecs]"
    by (rule fill_all) simp
  also have "\<dots> = map (encode_handle fl ix) vecs" by (rule nth_equalityI) simp_all
  finally show ?thesis using c by simp
qed

theorem Add_any_schedule_witness:
  "those (fill (\<lambda>i. encode_handle ex_fl ex_ix ([[1], [3], [11]] ! i)) [2, 0, 1] (replicate 3 None)) =
   those (map (encode_handle ex_fl ex_ix) [[1], [3], [11]])"
proof -
  have "mset [2, 0, 1] = mset (concat (chunks 2 (length [[1 :: int], [3], [11]])))"
    by (simp add: chunks_concat upt_rec)
  from Add_any_schedule [OF _ this, of ex_fl ex_ix] show ?thesis by (simp add: numeral_3_eq_3)
qed

end
