(* ===== verification/IvfAdc.thy ===== *)
theory IvfAdc
  imports IvfProps
begin

text \<open>
  The prototype engine of \<^verbatim>\<open>ivf/ivf.go\<close>, which numbers the vectors it is given and keeps their codes beside
  the ids, and its equivalence with the production index: fed the same distinct vectors, the two answer
  every search alike.
\<close>

record 'f ivfadc =
  ad_coarse :: "'f vec list"
  ad_pq :: "'f pq"
  ad_lists :: "nat list list"
  ad_codes :: "code list list"
  ad_ntotal :: nat

definition TrainWithOpts :: "('f::minus, 'g::{linorder,zero,plus,minus,times}) floats \<Rightarrow> ('g, 'r) random \<Rightarrow> 'f vec list \<Rightarrow>
    nat \<Rightarrow> int \<Rightarrow> int \<Rightarrow> nat \<Rightarrow> int \<Rightarrow> train_opts \<Rightarrow> (ivf_error + 'f ivfadc) option" where
  "TrainWithOpts fl ra learn nlist m k iter seed opts =
     (if learn = [] then Some (Inl EmptyLearn)
      else map_option (\<lambda>t. case t of
             Inl e \<Rightarrow> Inl (PQError e)
           | Inr (coarse, q) \<Rightarrow> Inr \<lparr>ad_coarse = coarse, ad_pq = q, ad_lists = replicate (length coarse) [],
                                   ad_codes = replicate (length coarse) [], ad_ntotal = 0\<rparr>)
           (trainResidual fl ra learn nlist m k iter seed opts))"

definition adc_encode :: "('f::minus, 'g::{linorder,zero,plus,minus,times}) floats \<Rightarrow> 'f ivfadc \<Rightarrow> 'f vec \<Rightarrow> (nat \<times> code) option" where
  "adc_encode fl ad v =
     do { c \<leftarrow> nearest fl (ad_coarse ad) v; cen \<leftarrow> nth_opt (ad_coarse ad) c; r \<leftarrow> sub v cen;
          code \<leftarrow> pq_Encode fl (ad_pq ad) r; Some (c, code) }"

fun adc_append :: "(nat \<times> code) list \<Rightarrow> nat \<Rightarrow> 'f ivfadc \<Rightarrow> 'f ivfadc option" where
  "adc_append [] i ad = Some ad"
| "adc_append ((c, code) # xs) i ad =
     do { ids \<leftarrow> nth_opt (ad_lists ad) c;
          cs \<leftarrow> nth_opt (ad_codes ad) c;
          adc_append xs (i + 1) (ad\<lparr>ad_lists := (ad_lists ad)[c := ids @ [ad_ntotal ad + i]],
                                    ad_codes := (ad_codes ad)[c := cs @ [code]]\<rparr>) }"

definition adc_Add :: "('f::minus, 'g::{linorder,zero,plus,minus,times}) floats \<Rightarrow> 'f vec list \<Rightarrow> 'f ivfadc \<Rightarrow> 'f ivfadc option" where
  "adc_Add fl base ad =
     do { xs \<leftarrow> those (map (adc_encode fl ad) base);
          ad' \<leftarrow> adc_append xs 0 ad;
          Some (ad'\<lparr>ad_ntotal := ad_ntotal ad' + length base\<rparr>) }"

fun adc_scan :: "'f::{linorder,plus,zero} pq \<Rightarrow> 'f list \<Rightarrow> int \<Rightarrow> nat list \<Rightarrow> nat \<Rightarrow> code list \<Rightarrow> 'f heap \<Rightarrow> 'f heap option" where
  "adc_scan q table topK ids j [] h = Some h"
| "adc_scan q table topK ids j (code # codes) h =
     do { d \<leftarrow> adc_sum (pq_K q) table code [0..<pq_M q] 0;
          pos \<leftarrow> nth_opt ids j;
          h' \<leftarrow> offer topK \<lparr>rs_ID = pos, rs_Dist = d\<rparr> h;
          adc_scan q table topK ids (j + 1) codes h' }"

fun adc_cells :: "('f::{linorder,plus,minus,zero}, 'g::{linorder,zero,plus,minus,times}) floats \<Rightarrow> 'f ivfadc \<Rightarrow> 'f vec \<Rightarrow> int \<Rightarrow>
    nat list \<Rightarrow> 'f heap \<Rightarrow> 'f heap option" where
  "adc_cells fl ad query topK [] h = Some h"
| "adc_cells fl ad query topK (c # cs) h =
     do { cen \<leftarrow> nth_opt (ad_coarse ad) c;
          r \<leftarrow> sub query cen;
          table \<leftarrow> buildADCTable fl (ad_pq ad) r;
          ids \<leftarrow> nth_opt (ad_lists ad) c;
          codes \<leftarrow> nth_opt (ad_codes ad) c;
          h' \<leftarrow> adc_scan (ad_pq ad) table topK ids 0 codes h;
          adc_cells fl ad query topK cs h' }"

definition adc_Search :: "('f::{linorder,plus,minus,zero}, 'g::{linorder,zero,plus,minus,times}) floats \<Rightarrow> 'f ivfadc \<Rightarrow> 'f vec \<Rightarrow>
    int \<Rightarrow> int \<Rightarrow> 'f hresult list option" where
  "adc_Search fl ad query nprobe topK =
     do { cells \<leftarrow> probeCells fl (ad_coarse ad) query nprobe;
          h \<leftarrow> adc_cells fl ad query topK cells [];
          Some (drainAscending h) }"

definition Scanned :: "('f, 'g::{linorder,zero,plus,minus,times}) floats \<Rightarrow> 'f ivfadc \<Rightarrow> 'f vec \<Rightarrow> int \<Rightarrow> nat option" where
  "Scanned fl ad query nprobe =
     do { cells \<leftarrow> probeCells fl (ad_coarse ad) query nprobe;
          ns \<leftarrow> those (map (\<lambda>c. map_option length (nth_opt (ad_lists ad) c)) cells);
          Some (sum_list ns) }"

section \<open>The two engines side by side\<close>

definition mirrors :: "nat \<Rightarrow> 'f ivfadc \<Rightarrow> 'f index \<Rightarrow> bool" where
  "mirrors i ad ix \<longleftrightarrow>
     ad_coarse ad = ix_coarse ix \<and> ix_pq ix = Some (ad_pq ad) \<and> ad_ntotal ad + i = length (ix_entries ix) \<and>
     ad_lists ad = ix_lists ix \<and> length (ad_codes ad) = length (ix_lists ix) \<and>
     (\<forall>c < length (ix_lists ix). (\<forall>p \<in> set (ix_lists ix ! c). p < length (ix_entries ix)) \<and>
        ad_codes ad ! c = map (\<lambda>p. hd_Code (ix_entries ix ! p)) (ix_lists ix ! c))"

lemma adc_encode_handle:
  assumes "mirrors i ad ix" and "encode_handle fl ix v = Some h" and "length (ix_coarse ix) < 2 ^ 32"
    and "nearest fl (ix_coarse ix) v = Some (unat (hd_Cell h))"
  shows "adc_encode fl ad v = Some (unat (hd_Cell h), hd_Code h)"
  using assms(1,2,4) by (cases h) (auto simp: adc_encode_def encode_handle_def mirrors_def split: Option.bind_splits)

lemma append_mirrors:
  assumes "mirrors i ad ix" and "add_handle h ix = Some (ix', r)" and "ix_byHash ix (hd_Hash h) = None"
  shows "\<exists>ad'. adc_append ((unat (hd_Cell h), hd_Code h) # xs) i ad = adc_append xs (i + 1) ad' \<and> mirrors (i + 1) ad' ix'"
proof -
  let ?c = "unat (hd_Cell h)" and ?n = "length (ix_entries ix)"
  note m = assms(1) [unfolded mirrors_def]
  have c: "?c < length (ix_lists ix)" using assms(2,3) by (auto simp: add_handle_def nth_opt_def Let_def split: if_splits)
  have ix': "ix_coarse ix' = ix_coarse ix" "ix_pq ix' = ix_pq ix" "ix_entries ix' = ix_entries ix @ [h]"
    "ix_lists ix' = (ix_lists ix)[?c := ix_lists ix ! ?c @ [?n]]"
    using assms(2,3) c by (auto simp: add_handle_def nth_opt_def Let_def)
  define ad' where "ad' = ad\<lparr>ad_lists := (ad_lists ad)[?c := ad_lists ad ! ?c @ [ad_ntotal ad + i]],
      ad_codes := (ad_codes ad)[?c := ad_codes ad ! ?c @ [hd_Code h]]\<rparr>"
  have "(\<forall>p \<in> set (ix_lists ix' ! k). p < length (ix_entries ix')) \<and>
      ad_codes ad' ! k = map (\<lambda>p. hd_Code (ix_entries ix' ! p)) (ix_lists ix' ! k)" if k: "k < length (ix_lists ix')" for k
  proof -
    have kl: "k < length (ix_lists ix)" using k ix'(4) by simp
    have old: "\<forall>p \<in> set (ix_lists ix ! k). p < ?n"
      "map (\<lambda>p. hd_Code ((ix_entries ix @ [h]) ! p)) (ix_lists ix ! k) = ad_codes ad ! k"
      using m kl by (auto simp: nth_append)
    show ?thesis
    proof (cases "k = ?c")
      case True
      then show ?thesis using old m kl ix' by (auto simp: ad'_def less_SucI)
    next
      case False
      then show ?thesis using old m kl ix' by (auto simp: ad'_def less_SucI)
    qed
  qed
  then have "mirrors (i + 1) ad' ix'" using m ix' by (simp add: mirrors_def ad'_def)
  moreover have "adc_append ((?c, hd_Code h) # xs) i ad = adc_append xs (i + 1) ad'"
    using c m by (simp add: nth_opt_in ad'_def)
  ultimately show ?thesis by blast
qed

lemma adc_append_mirrors:
  assumes "index_inv q ix" and "mirrors i ad ix" and "add_handles hs ix = Some (ix', rs)"
    and "distinct (map hd_Hash hs)" and "\<forall>h \<in> set hs. hd_Hash h \<notin> hd_Hash ` set (ix_entries ix)"
    and "\<forall>h \<in> set hs. code_ok q (hd_Code h) \<and> unat (hd_Cell h) < length (ix_coarse ix)"
  shows "\<exists>ad'. adc_append (map (\<lambda>h. (unat (hd_Cell h), hd_Code h)) hs) i ad = Some ad' \<and> mirrors (i + length hs) ad' ix'"
  using assms
proof (induction hs arbitrary: ix ad i rs)
  case (Cons h hs)
  obtain ix1 r where 1: "add_handle h ix = Some (ix1, r)" "index_inv q ix1" "same_quantizer ix ix1"
    "ix_entries ix1 = ix_entries ix @ [h]"
    using add_handle_inv [OF Cons.prems(1), of h] Cons.prems(5,6) by auto
  obtain rs' where 2: "add_handles hs ix1 = Some (ix', rs')" using Cons.prems(3) 1(1) by (auto split: Option.bind_splits)
  have "ix_byHash ix (hd_Hash h) = None" using inv_byHash_None [OF Cons.prems(1)] Cons.prems(5) by simp
  from append_mirrors [OF Cons.prems(2) 1(1) this]
  obtain ad1 where 3: "adc_append (map (\<lambda>h. (unat (hd_Cell h), hd_Code h)) (h # hs)) i ad =
      adc_append (map (\<lambda>h. (unat (hd_Cell h), hd_Code h)) hs) (i + 1) ad1" "mirrors (i + 1) ad1 ix1" by auto
  have "\<exists>ad'. adc_append (map (\<lambda>h. (unat (hd_Cell h), hd_Code h)) hs) (i + 1) ad1 = Some ad' \<and>
      mirrors (i + 1 + length hs) ad' ix'"
    by (rule Cons.IH [OF 1(2) 3(2) 2]) (use Cons.prems(4-6) 1(3,4) in \<open>auto simp: same_quantizer_def image_iff\<close>)
  then show ?case using 3(1) by simp
qed simp

lemma adc_scan_list:
  assumes "\<forall>p \<in> set ids. p < length entries" and "j + length codes = length ids"
    and "codes = map (\<lambda>p. hd_Code (entries ! p)) (drop j ids)"
  shows "adc_scan q table topK ids j codes h = scan_list q entries table topK (drop j ids) h"
  using assms(2,3)
proof (induction codes arbitrary: j h)
  case (Cons code codes)
  have j: "j < length ids" using Cons.prems(1) by simp
  then have d: "drop j ids = ids ! j # drop (Suc j) ids" by (rule Cons_nth_drop_Suc [symmetric])
  have "ids ! j < length entries" using assms(1) j by simp
  then show ?case
    using Cons.IH [of "j + 1"] Cons.prems j unfolding d by (simp add: nth_opt_in cong: Option.bind_cong)
qed simp

lemma adc_cells_eq:
  assumes "mirrors i ad ix"
  shows "adc_cells fl ad query topK cells h = scan_cells fl ix query topK cells h"
proof (induction cells arbitrary: h)
  case (Cons c cells)
  note m = assms [unfolded mirrors_def]
  have s: "adc_scan (ad_pq ad) table topK (ix_lists ix ! c) 0 (ad_codes ad ! c) h =
      scan_list (ad_pq ad) (ix_entries ix) table topK (ix_lists ix ! c) h" if "c < length (ix_lists ix)" for table h
    using adc_scan_list [of "ix_lists ix ! c" "ix_entries ix" 0 "ad_codes ad ! c"] m that by simp
  show ?case
  proof (cases "c < length (ix_lists ix)")
    case True
    then show ?thesis using m Cons.IH s by (simp add: nth_opt_in cong: Option.bind_cong)
  next
    case False
    then have "nth_opt (ix_lists ix) c = None" by (simp add: nth_opt_def)
    then show ?thesis using m by (simp cong: Option.bind_cong)
  qed
qed simp

section \<open>Properties\<close>

text \<open>The production index and the prototype are equivalent: starting from mirrored states, adding vectors
  with new and distinct hashes keeps them mirrored, and every search then gives the same distances in the
  same order, the hits being the handles stored at the prototype's ids.\<close>
theorem engines_agree:
  assumes "index_inv q ix" and "mirrors 0 ad ix" and "dims (pq_D q) vecs"
    and "distinct (map (hashVec fl) vecs)" and "\<forall>v \<in> set vecs. hashVec fl v \<notin> hd_Hash ` set (ix_entries ix)"
  shows "\<exists>ad' ix' rs. adc_Add fl vecs ad = Some ad' \<and> Add fl vecs ix = Some (ix', rs) \<and> mirrors 0 ad' ix' \<and>
    (\<forall>query nprobe topK. length query = pq_D q \<and> 0 \<le> nprobe \<and> 0 < topK \<longrightarrow>
       (\<exists>res hits. adc_Search fl ad' query nprobe topK = Some res \<and> Search fl ix' query nprobe topK = Some hits \<and>
          those (map (to_hit ix') res) = Some hits))"
proof -
  obtain hs ix' rs where a: "those (map (encode_handle fl ix) vecs) = Some hs" "map hd_Hash hs = map (hashVec fl) vecs"
    "Add fl vecs ix = Some (ix', rs)" "index_inv q ix'" "same_quantizer ix ix'"
    using Add_facts [OF assms(1,3), of fl] by blast
  have l: "length hs = length vecs" using arg_cong [OF a(2), of length] by simp
  have e: "adc_encode fl ad v = Some (unat (hd_Cell h), hd_Code h) \<and> code_ok q (hd_Code h) \<and>
      unat (hd_Cell h) < length (ix_coarse ix)" if "v \<in> set vecs" "encode_handle fl ix v = Some h" for v h
  proof -
    have "length v = pq_D q" using that(1) assms(3) by (simp add: dims_def)
    from encode_handle_total [OF assms(1) this, of fl] that(2)
    have "code_ok q (hd_Code h)" "unat (hd_Cell h) < length (ix_coarse ix)"
      "nearest fl (ix_coarse ix) v = Some (unat (hd_Cell h))" by auto
    then show ?thesis using adc_encode_handle [OF assms(2) that(2)] assms(1) by (simp add: index_inv_def)
  qed
  have hs: "those (map (adc_encode fl ad) vecs) = Some (map (\<lambda>h. (unat (hd_Cell h), hd_Code h)) hs)"
    using a(1) e unfolding those_Some by (fastforce simp: list_all2_conv_all_nth)
  have ok: "\<forall>h \<in> set hs. code_ok q (hd_Code h) \<and> unat (hd_Cell h) < length (ix_coarse ix)"
    using those_mem [OF a(1)] e by blast
  have add: "add_handles hs ix = Some (ix', rs)" using a(1,3) by (simp add: Add_def)
  have "hd_Hash ` set hs = hashVec fl ` set vecs" using arg_cong [OF a(2), of set] by simp
  then have "\<forall>x \<in> hd_Hash ` set hs. x \<notin> hd_Hash ` set (ix_entries ix)" using assms(5) by simp
  then have new: "\<forall>h \<in> set hs. hd_Hash h \<notin> hd_Hash ` set (ix_entries ix)" by blast
  obtain ad1 where ad1: "adc_append (map (\<lambda>h. (unat (hd_Cell h), hd_Code h)) hs) 0 ad = Some ad1"
    "mirrors (0 + length hs) ad1 ix'"
    using adc_append_mirrors [OF assms(1,2) add] assms(4) new ok unfolding a(2) by blast
  define ad' where "ad' = ad1\<lparr>ad_ntotal := ad_ntotal ad1 + length vecs\<rparr>"
  have m: "mirrors 0 ad' ix'" using ad1(2) l by (simp add: mirrors_def ad'_def)
  have "\<exists>res hits. adc_Search fl ad' query nprobe topK = Some res \<and> Search fl ix' query nprobe topK = Some hits \<and>
          those (map (to_hit ix') res) = Some hits"
    if q: "length query = pq_D q" "0 \<le> nprobe" "0 < topK" for query nprobe topK
  proof -
    obtain cells where p: "probeCells fl (ix_coarse ix') query nprobe = Some cells"
      using probeCells_total [of "pq_D q" "ix_coarse ix'" query nprobe fl] a(4) q by (auto simp: index_inv_def)
    obtain hits where hits: "Search fl ix' query nprobe topK = Some hits"
      using Search_facts(1) [OF a(4) q(1,2) p q(3)] by blast
    then obtain h where "scan_cells fl ix' query topK cells [] = Some h" "those (map (to_hit ix') (drainAscending h)) = Some hits"
      using p by (auto simp: Search_def split: Option.bind_splits)
    moreover have "ad_coarse ad' = ix_coarse ix'" using m by (simp add: mirrors_def)
    ultimately show ?thesis using hits p by (simp add: adc_Search_def adc_cells_eq [OF m])
  qed
  moreover have "adc_Add fl vecs ad = Some ad'" using hs ad1(1) by (simp add: adc_Add_def ad'_def)
  ultimately show ?thesis using a(3) m by blast
qed

definition ex_adc :: "int ivfadc" where
  "ex_adc = \<lparr>ad_coarse = [[0], [10]], ad_pq = ex_pq, ad_lists = [[0, 1], [2]], ad_codes = [[[0], [1]], [[0]]], ad_ntotal = 3\<rparr>"

lemma ex_hash: "hashVec ex_fl [1] \<notin> {7, 8, 9}"
  by (simp add: hashVec_def ex_fl_def put_le_def upt_rec fnv_byte_def fnv_offset_def fnv_prime_def)

theorem engines_agree_witness:
  "\<exists>ad' ix' rs res hits. adc_Add ex_fl [[1]] ex_adc = Some ad' \<and> Add ex_fl [[1]] ex_ix = Some (ix', rs) \<and>
     adc_Search ex_fl ad' [2] 2 1 = Some res \<and> Search ex_fl ix' [2] 2 1 = Some hits \<and>
     those (map (to_hit ix') res) = Some hits"
proof -
  have m: "mirrors 0 ex_adc ex_ix"
    by (simp add: mirrors_def ex_adc_def ex_ix_def all_conj_distrib less_Suc_eq)
  have "length [2 :: int] = pq_D ex_pq \<and> (0 :: int) \<le> 2 \<and> (0 :: int) < 1" by (simp add: ex_pq_def)
  moreover have "dims (pq_D ex_pq) [[1 :: int]]" "distinct (map (hashVec ex_fl) [[1]])"
    "\<forall>v \<in> set [[1]]. hashVec ex_fl v \<notin> hd_Hash ` set (ix_entries ex_ix)"
    using ex_hash by (simp_all add: ex_pq_def ex_ix_def)
  ultimately show ?thesis using engines_agree [OF ex_inv m, of "[[1]]" ex_fl] by blast
qed

end
