(* ===== verification/FlatPQ.thy ===== *)
theory FlatPQ
  imports IvfProps
begin

text \<open>
  The flat search of \<^verbatim>\<open>pq/pq.go\<close> over all codes, its batches, and the policies of \<^verbatim>\<open>ivf/policy.go\<close>, which choose
  the depth of an index search by features of the query. The heap is that of \<open>TopK\<close>, whose code the
  package repeats; its final sort leaves the order of equal distances open, which is an argument.
\<close>

section \<open>Flat search\<close>

definition distanceTable :: "('f, 'g::{linorder,zero,plus,minus,times}) floats \<Rightarrow> 'f pq \<Rightarrow> 'f vec \<Rightarrow> 'f list option" where
  "distanceTable fl q query =
     map_option concat (those (map (\<lambda>m. do {
       sq \<leftarrow> slice_of query (m * pq_Dsub q) (pq_Dsub q);
       cb \<leftarrow> nth_opt (pq_Codebooks q) m;
       those (map (\<lambda>c. do { cen \<leftarrow> nth_opt cb c; d \<leftarrow> sqL2 fl sq cen; Some (f32 fl d) }) [0..<pq_K q]) })
       [0..<pq_M q]))"

fun scan_codes :: "'f::{linorder,plus,zero} pq \<Rightarrow> 'f list \<Rightarrow> int \<Rightarrow> nat \<Rightarrow> code list \<Rightarrow> 'f heap \<Rightarrow> 'f heap option" where
  "scan_codes q table topK i [] h = Some h"
| "scan_codes q table topK i (code # codes) h =
     do { d \<leftarrow> adc_sum (pq_K q) table code [0..<pq_M q] 0;
          h' \<leftarrow> offer topK \<lparr>rs_ID = i, rs_Dist = d\<rparr> h;
          scan_codes q table topK (i + 1) codes h' }"

text \<open>\<open>srt\<close> is the sort by distance, which is not stable.\<close>

definition pq_Search :: "('f heap \<Rightarrow> 'f hresult list) \<Rightarrow> ('f::{linorder,plus,zero}, 'g::{linorder,zero,plus,minus,times}) floats \<Rightarrow> 'f pq \<Rightarrow>
    'f vec \<Rightarrow> code list \<Rightarrow> int \<Rightarrow> 'f hresult list option" where
  "pq_Search srt fl q query codes topK =
     do { table \<leftarrow> distanceTable fl q query; h \<leftarrow> scan_codes q table topK 0 codes []; Some (srt h) }"

text \<open>The batches: slots are filled by workers, in the order of a schedule. A panic of a worker ends the program.\<close>

definition pq_EncodeBatch :: "('f, 'g::{linorder,zero,plus,minus,times}) floats \<Rightarrow> 'f pq \<Rightarrow> nat list \<Rightarrow> 'f vec list \<Rightarrow> code list option" where
  "pq_EncodeBatch fl q order vecs = those (fill (\<lambda>i. pq_Encode fl q (vecs ! i)) order (replicate (length vecs) (Some [])))"

definition pq_SearchBatch :: "('f heap \<Rightarrow> 'f hresult list) \<Rightarrow> ('f::{linorder,plus,zero}, 'g::{linorder,zero,plus,minus,times}) floats \<Rightarrow> 'f pq \<Rightarrow>
    nat list \<Rightarrow> 'f vec list \<Rightarrow> code list \<Rightarrow> int \<Rightarrow> 'f hresult list list option" where
  "pq_SearchBatch srt fl q order queries codes topK =
     those (fill (\<lambda>i. pq_Search srt fl q (queries ! i) codes topK) order (replicate (length queries) (Some [])))"

section \<open>Policies\<close>

definition Features :: "(nat \<Rightarrow> 'f) \<Rightarrow> 'f \<Rightarrow> 'f::{zero,plus,minus,inverse} list \<Rightarrow> 'f list" where
  "Features of_count eps ds =
     (case ds of
        [] \<Rightarrow> [0, 0, 0, 0]
      | d0 # rest \<Rightarrow>
          let d1 = (case rest of [] \<Rightarrow> d0 | d # _ \<Rightarrow> d);
              n = (if 8 > length ds then length ds else 8);
              mean = foldl (+) 0 (take n ds) / of_count n
          in [d0, d1 / (d0 + eps), d1 - d0, mean / (d0 + eps)])"

definition coarseSorted :: "('f::linorder, 'g::{zero,plus,minus,times}) floats \<Rightarrow> 'f index \<Rightarrow> 'f vec \<Rightarrow> 'f list option" where
  "coarseSorted fl ix query = map_option sort (those (map (\<lambda>cen. map_option (f32 fl) (sqL2 fl cen query)) (ix_coarse ix)))"

definition QueryFeatures :: "('f::{linorder,zero,plus,minus,inverse}, 'g::{zero,plus,minus,times}) floats \<Rightarrow> (nat \<Rightarrow> 'f) \<Rightarrow> 'f \<Rightarrow> 'f index \<Rightarrow>
    'f vec \<Rightarrow> 'f list option" where
  "QueryFeatures fl of_count eps ix q = map_option (Features of_count eps) (coarseSorted fl ix q)"

text \<open>A policy maps the four features to the number of cells and the depth of the re-ranking.\<close>

definition SearchPolicy :: "('f::{linorder,zero,plus,minus,inverse}, 'g::{linorder,zero,plus,minus,times}) floats \<Rightarrow> (nat \<Rightarrow> 'f) \<Rightarrow> 'f \<Rightarrow> 'f index \<Rightarrow>
    'f vec \<Rightarrow> ('f list \<Rightarrow> int \<times> int) \<Rightarrow> int \<Rightarrow> (u64 \<Rightarrow> 'f vec option) \<Rightarrow> 'f hit list option" where
  "SearchPolicy fl of_count eps ix query p topK fetch =
     do { feats \<leftarrow> QueryFeatures fl of_count eps ix query;
          let (np, rk) = p feats;
          SearchRerank fl ix query np topK rk fetch }"

section \<open>What they answer\<close>

lemma those_Some_id: "those (map Some xs) = Some xs"
  using those_all [of xs Some "\<lambda>x. x"] by simp

lemma distanceTable_ADC: "distanceTable fl q query = buildADCTable fl q query"
  unfolding distanceTable_def buildADCTable_def ..

definition flat_candidates :: "'f::{plus,zero} pq \<Rightarrow> 'f list \<Rightarrow> nat \<Rightarrow> code list \<Rightarrow> 'f hresult list" where
  "flat_candidates q table i codes =
     map (\<lambda>(j, code). \<lparr>rs_ID = j, rs_Dist = the (adc_sum (pq_K q) table code [0..<pq_M q] 0)\<rparr>) (enumerate i codes)"

lemma scan_codes_offers:
  assumes "list_all (code_ok q) codes" and "length table = pq_M q * pq_K q"
  shows "scan_codes q table topK i codes h = offers topK (flat_candidates q table i codes) h"
  using assms(1)
proof (induction codes arbitrary: i h)
  case (Cons code codes)
  obtain d where "adc_sum (pq_K q) table code [0..<pq_M q] 0 = Some d"
    using adc_sum_total [of q code table "[0..<pq_M q]" 0] Cons.prems assms(2) by auto
  then show ?case using Cons by (simp add: flat_candidates_def split: option.split)
qed (simp add: flat_candidates_def)

text \<open>Any sort by distance, whatever it does with equal ones.\<close>

definition sorts :: "('f::linorder heap \<Rightarrow> 'f hresult list) \<Rightarrow> bool" where
  "sorts srt \<longleftrightarrow> (\<forall>h. mset (srt h) = mset h \<and> sorted (map rs_Dist (srt h)))"

text \<open>The flat search is exact under the quantizer's distance: for codes of the quantizer and any query of its
  dimension, it answers the topK (or all) codes nearest by the distance table, each once, sorted by that
  distance, however equal distances are ordered; and a batch of queries, whichever worker takes which
  query when, is the list of the single answers.\<close>
theorem flat_search_exact:
  assumes "has_books n q" and "pq_K q \<le> n" and "list_all (code_ok q) codes" and "0 < topK" and "sorts srt"
    and "list_all (\<lambda>v. length v = pq_D q) queries" and "mset order = mset [0..<length queries]"
  shows "\<exists>answers. pq_SearchBatch srt fl q order queries codes topK = Some answers \<and>
    map Some answers = map (\<lambda>v. pq_Search srt fl q v codes topK) queries \<and>
    list_all2 (\<lambda>v rs. \<exists>table. distanceTable fl q v = Some table \<and>
       best (nat topK) rs_Dist (mset (flat_candidates q table 0 codes)) (mset rs) \<and> sorted (map rs_Dist rs)) queries answers"
proof -
  define ok where "ok = (\<lambda>v rs. \<exists>table. distanceTable fl q v = Some table \<and>
       best (nat topK) rs_Dist (mset (flat_candidates q table 0 codes)) (mset rs) \<and> sorted (map rs_Dist rs))"
  have one: "\<exists>rs. pq_Search srt fl q v codes topK = Some rs \<and> ok v rs" if v: "v \<in> set queries" for v
  proof -
    have "length v = pq_D q" using v assms(6) by (simp add: list_all_iff)
    then obtain table where t: "distanceTable fl q v = Some table" "length table = pq_M q * pq_K q"
      using buildADCTable_total [OF assms(1,2), of v fl] unfolding distanceTable_ADC by blast
    obtain h where h: "offers topK (flat_candidates q table 0 codes) [] = Some h"
      "best (nat topK) rs_Dist (mset (flat_candidates q table 0 codes)) (mset h)"
      using offers_best [OF assms(4)] by blast
    have "pq_Search srt fl q v codes topK = Some (srt h)"
      by (simp add: pq_Search_def t(1) scan_codes_offers [OF assms(3) t(2)] h(1))
    moreover have "ok v (srt h)" using h(2) t(1) assms(5) by (simp add: ok_def sorts_def)
    ultimately show ?thesis by blast
  qed
  define answers where "answers = map (\<lambda>v. the (pq_Search srt fl q v codes topK)) queries"
  have some: "map Some answers = map (\<lambda>v. pq_Search srt fl q v codes topK) queries"
    unfolding answers_def map_map comp_def by (rule map_cong [OF refl]) (use one in force)
  have "set order = {..<length queries}" using assms(7) by (metis atLeast_upt mset_eq_setD)
  then have "fill (\<lambda>i. pq_Search srt fl q (queries ! i) codes topK) order (replicate (length queries) (Some [])) =
      map (\<lambda>i. pq_Search srt fl q (queries ! i) codes topK) [0..<length queries]"
    by (rule fill_all) simp
  also have "\<dots> = map Some answers" unfolding some by (rule nth_equalityI) simp_all
  finally have "pq_SearchBatch srt fl q order queries codes topK = Some answers"
    by (simp add: pq_SearchBatch_def those_Some_id)
  moreover have "list_all2 ok queries answers"
    unfolding answers_def list_all2_conv_all_nth using one by (force simp: in_set_conv_nth)
  ultimately show ?thesis using some unfolding ok_def by blast
qed

lemma flat_search_exact_witness:
  "\<exists>answers. pq_SearchBatch (sort_key rs_Dist) ex_fl ex_pq [1, 0] [[2], [0]] [[1], [0], [1]] 2 = Some answers"
proof -
  have b: "has_books 2 ex_pq" "pq_K ex_pq \<le> 2" by (simp_all add: has_books_def ex_pq_def)
  have c: "list_all (code_ok ex_pq) [[1], [0], [1]]" by (simp add: code_ok_def ex_pq_def)
  have s: "sorts (sort_key rs_Dist)" by (simp add: sorts_def)
  have d: "list_all (\<lambda>v. length v = pq_D ex_pq) [[2], [0]]" by (simp add: ex_pq_def)
  have o: "mset [1, 0] = mset [0..<length [[2], [0 :: int]]]" by (simp add: upt_rec)
  have p: "0 < (2 :: int)" by simp
  from flat_search_exact [OF b c p s d o, of ex_fl] show ?thesis by blast
qed

lemma constant_policy: "SearchPolicy fl of_count eps ix query (\<lambda>_. (np, rk)) topK fetch =
    Option.bind (coarseSorted fl ix query) (\<lambda>_. SearchRerank fl ix query np topK rk fetch)"
  by (cases "coarseSorted fl ix query") (simp_all add: SearchPolicy_def QueryFeatures_def)

end
