(* ===== verification/Spec2Isabelle.thy ===== *)
theory Spec2Isabelle
  imports Journal PathRegistry Memory CommsReaders Blob Caches OAuth WakeProps CodexManager CodexLogin HookProps DashProps Reembed Deploy Reflect IvfAdc FlatPQ
begin

text \<open>
  A verification development for Matrix Sentry, a journal-backed memory and coordination server
  for coding agents written in Go.

  The program. Everything durable is an append-only journal of framed, checksummed records in
  segment files (\<^verbatim>\<open>sentry/\<close>). Three indexes are rebuilt from it at start and kept in RAM: the path
  registry, the semantic memory (\<^verbatim>\<open>memory/\<close>) and the coordination space in which agents post
  messages, claim tasks, report presence and wait for wake-ups (\<^verbatim>\<open>comms/\<close>). Image bytes live in a
  content-addressed blob directory (\<^verbatim>\<open>blob/\<close>) swept against the coordination space's keep-set.
  A server (\<^verbatim>\<open>cmd/sentrymcp\<close>) exposes them to clients, whose tenant it derives from a static secret
  or an OAuth token it issued itself. Hooks on the agents' side read their inbox
  from the server's rendered answer when a turn ends (\<^verbatim>\<open>cmd/sentry-wake\<close>), ask for a reflection after
  enough tool uses (\<^verbatim>\<open>sentry-reflect\<close>), report the files a tool touched (\<^verbatim>\<open>sentry-record\<close>) and its deploy commands (\<^verbatim>\<open>sentry-deploy\<close>), and inject
  memories into a new session (\<^verbatim>\<open>sentry-recall\<close>). An admin dashboard (\<^verbatim>\<open>cmd/sentryadmin\<close>) shows the
  memories and messages of one tenant. A broker (\<^verbatim>\<open>providerbroker/\<close>) keeps provider
  states per tenant and runs one Codex app-server process per tenant, over JSON-RPC, in a daemon
  (\<^verbatim>\<open>cmd/sentryproviderd\<close>) that the server's provider tools call over HTTP. Beside these
  stand an access predictor, the cache policies built on it (\<^verbatim>\<open>internal/refine\<close>, \<^verbatim>\<open>internal/cache\<close>) and
  an index for nearest-neighbour search over quantized vectors (\<^verbatim>\<open>ivf/\<close>, \<^verbatim>\<open>pq/\<close>).

  Theories, in the order of their imports:
  \<^item> \<open>Prelude\<close>, \<open>Strings\<close>: types, list lemmas, and the string functions of Go's library that the
    source calls.
  \<^item> \<open>Frame\<close> (\<^verbatim>\<open>sentry/record.go\<close>): \<open>Encode\<close> and \<open>DecodeHeader\<close> at the level of bytes, with
    little-endian words and CRC-32 written out; the round trip, and that a changed byte changes the
    checksum.
  \<^item> \<open>Journal\<close> (\<^verbatim>\<open>sentry/store.go\<close>): the store over a directory of byte files. \<open>Append\<close>, \<open>Read\<close>, \<open>Scan\<close>,
    \<open>ScanReverse\<close>, recovery, \<open>Open\<close> and \<open>Close\<close>, each system call with its failures. The abstract
    journal is a list of records; \<open>repr\<close> says that a store represents one. Proved: appends refine
    list append, scans refine filters, reads survive any later failures, crash recovery keeps the
    committed prefix, acknowledged records are durable, corruption is detected; and two places
    where the code falls short (a failed sync, an over-long record).
  \<^item> \<open>EventLog\<close>: the journal as its clients see it, a list of typed events (\<open>elog\<close>), a failing append
    being \<open>None\<close>. The locale \<open>append_log\<close> states the interface; it is interpreted both by the typed
    log and by the byte-level journal. The locale \<open>event_sourced\<close> states what an index must satisfy
    to be rebuilt exactly; the registry and the memory interpret it.
  \<^item> \<open>PathRegistry\<close> (\<^verbatim>\<open>sentry/registry.go\<close>) and \<open>Memory\<close> (\<^verbatim>\<open>memory/memory.go\<close>): their operations on the
    typed log, exact rebuild, stability of ids, exactness of recall, finality of forgetting.
    Floats are any linearly ordered type with the operations used; the embedder's answer is an
    argument.
  \<^item> \<open>CommsHub\<close> (\<^verbatim>\<open>comms/hub.go\<close>), \<open>CommsStore\<close> (\<^verbatim>\<open>comms/comms.go\<close>, \<^verbatim>\<open>state.go\<close>), \<open>CommsTasks\<close> (\<^verbatim>\<open>state.go\<close>),
    \<open>CommsSweep\<close> (\<^verbatim>\<open>presence.go\<close>, \<^verbatim>\<open>sweep.go\<close>): the state \<open>comms_store\<close> and one definition per operation.
    Map iteration orders are arguments or shown irrelevant, clocks and append outcomes are
    arguments. \<open>CommsRun\<close>, \<open>CommsProps\<close>, \<open>CommsRestart\<close>, \<open>CommsReaders\<close>: invariants of runs of
    operations, the task life cycle as the relation \<open>task_step\<close>, exclusive claims, exact rebuild,
    complete polling, pins.
  \<^item> \<open>Blob\<close> (\<^verbatim>\<open>blob/blob.go\<close>): the directory as a map; put, get, delete, sweep with failures; SHA-256 is
    a parameter.
  \<^item> \<open>Predictor\<close> (\<^verbatim>\<open>internal/refine/predict.go\<close>, \<^verbatim>\<open>streamlift.go\<close>), \<open>Caches\<close> (\<^verbatim>\<open>internal/cache\<close>): the policies
    interpret the locale \<open>cache_policy\<close>, over which the exact tier is proved once.
  \<^item> \<open>Tokens\<close> (\<^verbatim>\<open>cmd/sentrymcp/tenants.go\<close>), \<open>OAuth\<close> (\<^verbatim>\<open>oauth.go\<close>, \<^verbatim>\<open>resolveTenant\<close> of \<^verbatim>\<open>main.go\<close>): credentials
    to tenants, authorization codes, tokens. Hashes, base64, JSON and URLs are the record \<open>golib\<close>.

  \<^item> \<open>TopK\<close> (\<^verbatim>\<open>ivf/heap.go\<close>): the bounded heap in an array with its sifting loops. The locale \<open>max_queue\<close> is
    its interface; over it, offering a list of results keeps the best \<open>k\<close> of them.
  \<^item> \<open>Quantizer\<close> (\<^verbatim>\<open>pq/pq.go\<close>, \<^verbatim>\<open>pq/kmeans.go\<close>, \<^verbatim>\<open>ivf/coarse.go\<close>, \<^verbatim>\<open>ivf/kmeans.go\<close>, \<^verbatim>\<open>ivf/engine.go\<close>): k-means with its
    seeding, the product quantizer, distance tables, the training of an index. Float32 and float64 are
    two ordered types with the operations used (no law of arithmetic is assumed), the random source
    a record of functions. Which training sets make encoding safe, and that a smaller one panics.
  \<^item> \<open>IvfIndex\<close>, \<open>IvfProps\<close> (\<^verbatim>\<open>ivf/index.go\<close>, \<^verbatim>\<open>identity.go\<close>, \<^verbatim>\<open>persist.go\<close>): the content-addressed index. Its
    life cycle keeps \<open>index_inv\<close> and survives saving and loading; a search answers the nearest
    vectors of the probed cells, the tiered and the re-ranked search answer their specification,
    recall finds what is within the tolerance, and any schedule of the encoding workers adds the same.
  \<^item> \<open>IvfAdc\<close> (\<^verbatim>\<open>ivf/ivf.go\<close>): the prototype index, and that it answers like the production index.
  \<^item> \<open>Runes\<close>, \<open>McpMemory\<close>, \<open>McpServer\<close>, \<open>McpHttp\<close>, \<open>ServerProps\<close> (\<^verbatim>\<open>cmd/sentrymcp/main.go\<close>, \<^verbatim>\<open>sentry/access/analyze.go\<close>): the
    memory and access tools, the tool switch \<open>run_tool\<close> over the state \<open>app\<close> of the whole server, JSON-RPC,
    the HTTP endpoints with their routing and the credential of a request. The typed logs of the
    components are aligned to one sequence of numbers after every call. A request acts for its tenant
    only, a tenant is answered from what is its own, the logs together are one journal, and what the
    shared recall ring counts.
  \<^item> \<open>Transcript\<close> (\<^verbatim>\<open>internal/transcript\<close>), \<open>Reflect\<close>, \<open>RecordHook\<close>, \<open>RecallHook\<close> (\<^verbatim>\<open>cmd/sentry-reflect\<close>, \<^verbatim>\<open>sentry-record\<close>,
    \<^verbatim>\<open>sentry-recall\<close>), \<open>McpReplies\<close>, \<open>HookProps\<close>: the hooks on the agents' side, and the JSON of the replies they
    read. Counter and segmentation of a transcript agree, reflections keep pace with the work, what a
    tool use touched is what the server journals, and what is injected for every outcome of a recall.
  \<^item> \<open>Galaxy\<close>, \<open>Dashboard\<close>, \<open>DashProps\<close> (\<^verbatim>\<open>cmd/sentryadmin\<close>: \<^verbatim>\<open>galaxy.go\<close>, \<^verbatim>\<open>api.go\<close>, \<^verbatim>\<open>main.go\<close>): the admin dashboard's panels over a
    transport to the server, with the projection and the clustering of the memories, the provider
    actions, basic authentication and the routes. The clustering returns, the panels account for every
    memory and message, a visitor causes at most one permitted request, and an action runs the server's tool.
  \<^item> \<open>Embedders\<close> (\<^verbatim>\<open>memory/ollama.go\<close>, \<^verbatim>\<open>mistral.go\<close>, \<^verbatim>\<open>cmd/sentrymcp/embed.go\<close>), \<open>Reembed\<close> (\<^verbatim>\<open>cmd/reembed\<close>): the clients of the
    embedding services, which return one vector of the right dimension per text, in the order of the
    texts; the migration of a journal to another embedder, after which the rebuilt memory differs in its
    vectors only.
  \<^item> \<open>FlatPQ\<close> (\<^verbatim>\<open>pq/pq.go\<close>, \<^verbatim>\<open>ivf/policy.go\<close>): the flat search, exact for the table's distances and the same for any
    schedule of its workers, and the searches at a depth chosen by a policy. \<open>Deploy\<close> (\<^verbatim>\<open>cmd/sentry-deploy\<close>): a
    matcher for the hook's regular expressions, proved against their languages, and the message that a
    deploy command leaves in the coordination space.
  \<^item> \<open>ToolArgs\<close>, \<open>McpComms\<close>, \<open>McpProps\<close> (\<^verbatim>\<open>callTool\<close> in \<^verbatim>\<open>cmd/sentrymcp/main.go\<close>): the arguments of a tool call with
    Go's duration syntax and int64 wrap-around; the handlers of the coordination and image tools over
    \<open>comms_store\<close> and the blob directory, with the text they render. Runs of calls keep every image
    available; what the read cap hides.
  \<^item> \<open>Wake\<close>, \<open>WakeProps\<close> (\<^verbatim>\<open>cmd/sentry-wake/main.go\<close>): the hook parses exactly what \<open>McpComms\<close> renders, wakes
    exactly for mail and never twice for one message; a line break in a text breaks the protocol.
  \<^item> \<open>ProviderRegistry\<close> (\<^verbatim>\<open>providerbroker/registry.go\<close>): the registry refines its history.
  \<^item> \<open>CodexClient\<close>, \<open>CodexManager\<close>, \<open>CodexLogin\<close> (\<^verbatim>\<open>codex_session.go\<close>), \<open>CodexInvoke\<close> (\<^verbatim>\<open>codex_invoke.go\<close>): the RPC
    client shared by callers, read loop and monitor; the session manager; the login as the step
    relation \<open>login_step\<close>; a prompt through an ephemeral thread. The locked sections are the steps,
    and the invariants hold for all their interleavings.

  \<^item> \<open>Http\<close>, \<open>ProviderDaemon\<close> (\<^verbatim>\<open>cmd/sentryproviderd/main.go\<close>), \<open>ProviderClient\<close> (\<^verbatim>\<open>cmd/sentrymcp/provider_daemon.go\<close>),
    \<open>ProviderTools\<close> (\<^verbatim>\<open>provider_tools.go\<close>, \<^verbatim>\<open>provider_invoke.go\<close>, \<^verbatim>\<open>provider_health.go\<close>, \<^verbatim>\<open>ollama.go\<close>, \<^verbatim>\<open>ollama_chat.go\<close>),
    \<open>ProviderProps\<close>: JSON values with the length of their text, the routes and handlers of the daemon over
    the session interface, the client over a transport, the tools over both services. A request
    makes at most one authorized session call, the client reads back what the session answered, a
    tool call keeps to its tenant (the locales \<open>tenant_net\<close> and \<open>tenant_tools\<close>, interpreted by the daemon)
    and refines direct calls of the session.

  Conventions. Tenants are 16-bit words, frames are lists of 8-bit words; sequence numbers and
  counters are naturals or integers, assumed not to reach 2^63. Errors are values: the left of a
  sum, or \<open>None\<close>. Mutexes make each operation (or, in
  the Codex theories, each locked section) atomic, so a run is a list of them. All
  recursions are structural or have a measure, and no fuel is used; the one exception is \<open>init_centers\<close> of
  \<open>Galaxy\<close>, a \<open>partial_function\<close> that is proved to return.

  Not modelled, with the reason. The wire level of HTTP and JSON, process and
  environment plumbing, start-up, page assets, and the text of tool descriptions: glue around the modelled operations.
  Rotations, anisotropic losses, the evolutionary search and the experiment programs: floating-point
  numerics on pseudo-random numbers, and printed reports.
\<close>

section \<open>Properties that span components\<close>



end
